(* ===== verification/Prelude.thy ===== *)
theory Prelude
  imports Main "HOL-Library.Word"
begin

unbundle bit_operations_syntax

section \<open>Prelude: shared types, the error monad, byte strings and 32-bit arithmetic\<close>

text \<open>
  What every component theory shares.

  \<^item> The C types: \<open>byte\<close> is an 8-bit word, a buffer is a list of bytes, \<open>word16\<close> and
    \<open>word64\<close> keep their width. A \<open>word32\<close> length or position is a natural number and
    every 32-bit addition or subtraction the code writes is \<open>u32\<close> of it, so that the
    wrap-around is part of the model.
  \<^item> Return codes: the constants of \<^verbatim>\<open>include/wolfnano/wolfnano.h\<close> as a datatype, a
    fallible function as a sum \<open>wn_err + 'a\<close>. The extra constructor \<open>Oob\<close> has no code in
    the source: it is the value of a model function whose C text would read or write
    outside the memory it was given. That it is never returned is a theorem about each
    parser, not an assumption.
  \<^item> Generic lemmas on lists, bytes and the error monad, collected in \<open>wn_simps\<close>.
\<close>

named_theorems wn_simps \<open>equations that evaluate the model's monadic code\<close>
named_theorems be_simps \<open>big-endian encodings and their decoders\<close>

subsection \<open>C types\<close>

type_synonym byte = "8 word"
type_synonym bytes = "byte list"
type_synonym word16 = "16 word"
type_synonym word64 = "64 word"

text \<open>Reduction to a 32-bit unsigned value, as C does after \<open>+\<close>; and C's subtraction.\<close>

definition u32 :: "nat \<Rightarrow> nat" where
  "u32 n = n mod 4294967296"

definition u32_sub :: "nat \<Rightarrow> nat \<Rightarrow> nat" where
  "u32_sub a b = u32 (a + (4294967296 - u32 b))"

lemma u32_small [simp]: "n < 4294967296 \<Longrightarrow> u32 n = n"
  by (simp add: u32_def)

lemma u32_less [simp]: "u32 n < 4294967296"
  by (simp add: u32_def)

lemma u32_sub_ge: "b \<le> a \<Longrightarrow> a < 4294967296 \<Longrightarrow> u32_sub a b = a - b"
  by (simp add: u32_sub_def u32_def mod_if)

subsection \<open>Return codes\<close>

datatype wn_err =
    E_INVALID_ARG | E_CRYPTO | E_UNSUPPORTED | E_BAD_STATE | E_UNEXPECTED_MSG
  | E_DECODE | E_BAD_MAC | E_ILLEGAL_PARAM | E_BAD_CERT | E_CLOSED
  | E_X509_DECODE | E_X509_CRITEXT
  | Oob

fun err_code :: "wn_err \<Rightarrow> int" where
  "err_code E_INVALID_ARG = -1"
| "err_code E_CRYPTO = -2"
| "err_code E_UNSUPPORTED = -3"
| "err_code E_BAD_STATE = -4"
| "err_code E_UNEXPECTED_MSG = -5"
| "err_code E_DECODE = -6"
| "err_code E_BAD_MAC = -7"
| "err_code E_ILLEGAL_PARAM = -8"
| "err_code E_BAD_CERT = -9"
| "err_code E_CLOSED = -10"
| "err_code E_X509_DECODE = -11"
| "err_code E_X509_CRITEXT = -12"
| "err_code Oob = -1000"

definition WOLFNANO_SUCCESS :: int where
  "WOLFNANO_SUCCESS = 0"

lemma err_code_inject: "err_code a = err_code b \<longleftrightarrow> a = b"
  by (cases a; cases b) simp_all

lemma err_code_neg: "err_code e < WOLFNANO_SUCCESS"
  by (cases e) (simp_all add: WOLFNANO_SUCCESS_def)

text \<open>The error a negative C status names.\<close>

definition code_err :: "int \<Rightarrow> wn_err" where
  "code_err c =
     (case find (\<lambda>e. err_code e = c)
        [E_INVALID_ARG, E_CRYPTO, E_UNSUPPORTED, E_BAD_STATE, E_UNEXPECTED_MSG, E_DECODE, E_BAD_MAC,
         E_ILLEGAL_PARAM, E_BAD_CERT, E_CLOSED, E_X509_DECODE, E_X509_CRITEXT] of
        Some e \<Rightarrow> e | None \<Rightarrow> Oob)"

lemma code_err_code [simp]: "code_err (err_code e) = e"
  by (cases e) (simp_all add: code_err_def)

subsection \<open>The error monad\<close>

text \<open>
  A chain of C steps, each guarded by \<open>ret == WOLFNANO_SUCCESS\<close>, is a chain of \<open>bindE\<close>:
  the first error is the result and no later step runs.
\<close>

definition bindE :: "'e + 'a \<Rightarrow> ('a \<Rightarrow> 'e + 'b) \<Rightarrow> 'e + 'b" where
  "bindE m f = (case m of Inl e \<Rightarrow> Inl e | Inr x \<Rightarrow> f x)"

definition guardE :: "bool \<Rightarrow> 'e \<Rightarrow> 'e + unit" where
  "guardE b e = (if b then Inr () else Inl e)"

definition is_ok :: "'e + 'a \<Rightarrow> bool" where
  "is_ok m = (case m of Inl _ \<Rightarrow> False | Inr _ \<Rightarrow> True)"

lemma bindE_Inl [simp, wn_simps]: "bindE (Inl e) f = Inl e"
  by (simp add: bindE_def)

lemma bindE_Inr [simp, wn_simps]: "bindE (Inr x) f = f x"
  by (simp add: bindE_def)

lemma bindE_eq_Inr: "bindE m f = Inr y \<longleftrightarrow> (\<exists>x. m = Inr x \<and> f x = Inr y)"
  by (cases m) simp_all

lemma bindE_eq_Inl: "bindE m f = Inl e \<longleftrightarrow> m = Inl e \<or> (\<exists>x. m = Inr x \<and> f x = Inl e)"
  by (cases m) auto

lemma bindE_cong [fundef_cong]:
  "m = m' \<Longrightarrow> (\<And>x. m' = Inr x \<Longrightarrow> f x = f' x) \<Longrightarrow> bindE m f = bindE m' f'"
  by (cases m') simp_all

lemma bindE_assoc: "bindE (bindE m f) g = bindE m (\<lambda>x. bindE (f x) g)"
  by (cases m) simp_all

lemma guardE_eq_Inr [simp]: "guardE b e = Inr u \<longleftrightarrow> b"
  by (simp add: guardE_def)

lemma guardE_eq_Inl [simp]: "guardE b e = Inl e' \<longleftrightarrow> \<not> b \<and> e' = e"
  by (auto simp: guardE_def)

lemma guardE_True [simp, wn_simps]: "guardE True e = Inr ()"
  by (simp add: guardE_def)

lemma guardE_False [simp, wn_simps]: "guardE False e = Inl e"
  by (simp add: guardE_def)

lemma is_ok_simps [simp]: "is_ok (Inr x)" "\<not> is_ok (Inl e)"
  by (simp_all add: is_ok_def)

lemma is_ok_iff: "is_ok m \<longleftrightarrow> (\<exists>x. m = Inr x)"
  by (cases m) simp_all

lemmas bindE_elim = bindE_eq_Inr [THEN iffD1, elim_format]

subsection \<open>Memory: checked reads, slices and copies\<close>

text \<open>
  \<open>rd_byte\<close> is a C read \<open>buf[i]\<close>: outside the buffer the model's result is \<open>Oob\<close>.
  \<open>slice off n bs\<close> is what a pointer \<open>bs + off\<close> with length \<open>n\<close> denotes, and
  \<open>mem_put\<close> a copy of a whole list to an offset.
\<close>

definition rd_byte :: "bytes \<Rightarrow> nat \<Rightarrow> wn_err + byte" where
  "rd_byte bs i = (if i < length bs then Inr (bs ! i) else Inl Oob)"

definition slice :: "nat \<Rightarrow> nat \<Rightarrow> 'a list \<Rightarrow> 'a list" where
  "slice off n xs = take n (drop off xs)"

definition mem_put :: "'a list \<Rightarrow> nat \<Rightarrow> 'a list \<Rightarrow> 'a list" where
  "mem_put buf off src = take off buf @ src @ drop (off + length src) buf"

lemma rd_byte_in [simp]: "i < length bs \<Longrightarrow> rd_byte bs i = Inr (bs ! i)"
  by (simp add: rd_byte_def)

lemma rd_byte_eq_Inr: "rd_byte bs i = Inr b \<longleftrightarrow> i < length bs \<and> b = bs ! i"
  by (auto simp: rd_byte_def)

lemma length_slice [simp]: "off + n \<le> length xs \<Longrightarrow> length (slice off n xs) = n"
  by (simp add: slice_def)

lemma slice_0 [simp]: "slice off 0 xs = []"
  by (simp add: slice_def)

lemma slice_append_left: "off + n \<le> length xs \<Longrightarrow> slice off n (xs @ ys) = slice off n xs"
  by (simp add: slice_def)

lemma slice_at: "length xs = off \<Longrightarrow> length ys = n \<Longrightarrow> slice off n (xs @ ys @ zs) = ys"
  by (simp add: slice_def)

lemma slice_drop: "slice off n (drop k xs) = slice (k + off) n xs"
  by (simp add: slice_def add.commute)

lemma nth_slice: "i < n \<Longrightarrow> off + n \<le> length xs \<Longrightarrow> slice off n xs ! i = xs ! (off + i)"
  by (simp add: slice_def)

lemma slice_app:
  assumes "slice p n xs = a @ b" "p + n \<le> length xs" "length a = j" "q = p + j" "m = n - j"
  shows "slice p j xs = a \<and> slice q m xs = b"
proof -
  have "n = j + m" using arg_cong [OF assms(1), of length] assms(2,3,5) by simp
  then have "slice p j xs @ slice q m xs = a @ b"
    using assms(1,4) by (simp add: slice_def take_add add.commute)
  then show ?thesis using assms(2,3) \<open>n = j + m\<close> by (simp add: append_eq_append_conv)
qed

lemma length_mem_put [simp]: "off + length src \<le> length buf \<Longrightarrow> length (mem_put buf off src) = length buf"
  by (simp add: mem_put_def)

lemma mem_put_Nil [simp]: "off \<le> length buf \<Longrightarrow> mem_put buf off [] = buf"
  by (simp add: mem_put_def)

lemma mem_put_one: "off < length buf \<Longrightarrow> buf[off := b] = mem_put buf off [b]"
  by (simp add: mem_put_def upd_conv_take_nth_drop)

lemma mem_put_app:
  "off + length xs + length ys \<le> length buf \<Longrightarrow>
   mem_put (mem_put buf off xs) (off + length xs) ys = mem_put buf off (xs @ ys)"
  by (simp add: mem_put_def min_absorb2 ac_simps)

lemma take_mem_put:
  "off + length src \<le> length buf \<Longrightarrow> take (off + length src) (mem_put buf off src) = take off buf @ src"
  by (simp add: mem_put_def min_absorb2)

lemma slice_mem_put [simp]:
  "off + length src \<le> length buf \<Longrightarrow> slice off (length src) (mem_put buf off src) = src"
  by (simp add: mem_put_def slice_def min_absorb2)

subsection \<open>Bytes and big-endian integers\<close>

lemma unat_byte_less [simp]: "unat (b :: byte) < 256"
  using unsigned_less [where 'a = nat, of b] by simp

lemma unat_word16_less [simp]: "unat (v :: word16) < 65536"
  using unsigned_less [where 'a = nat, of v] by simp

lemma unat_of_nat_byte: "unat (of_nat n :: byte) = n mod 256"
  by (simp add: unat_of_nat)

lemma unat_of_nat_16: "unat (of_nat n :: word16) = n mod 65536"
  by (simp add: unat_of_nat)

lemma ff_mask: "(255 :: 'a::len word) = mask 8"
  by (simp add: mask_eq_exp_minus_1)

lemma ucast_and_ff [simp]: "ucast (v AND 255 :: 'a::len word) = (ucast v :: byte)"
  unfolding ff_mask by (rule bit_word_eqI) (auto simp add: bit_simps dest: bit_imp_le_length)

lemma not_bit_byte: "8 \<le> n \<Longrightarrow> \<not> bit (b :: byte) n"
  using bit_imp_le_length [of b n] by auto

lemma xor_left_cancel: "(a XOR b = a XOR c) = (b = (c :: 'a::len word))"
  by (metis xor.assoc xor_self_eq xor.left_neutral)

lemma word_xor_eq_0: "(a XOR b = 0) = (a = (b :: 'a::len word))"
  using xor_left_cancel [of a b a] by auto

text \<open>The two- and three-byte reads of the C text, \<open>(b0 << 8) | b1\<close>, as numbers.\<close>

lemma be16_join:
  "(push_bit 8 (ucast (a :: byte)) OR ucast (b :: byte) :: word16) = of_nat (unat a * 256 + unat b)"
proof -
  have *: "(of_nat (unat a) :: word16) = ucast a" "(of_nat (unat b) :: word16) = ucast b"
    by simp_all
  have "(push_bit 8 (ucast a) OR ucast b :: word16) = push_bit 8 (ucast a) + ucast b"
    by (rule disjunctive_add [symmetric]) (auto simp: bit_simps not_bit_byte)
  also have "\<dots> = of_nat (unat a) * 256 + of_nat (unat b)"
    by (simp add: push_bit_eq_mult *)
  finally show ?thesis by simp
qed

lemma be24_join:
  "(push_bit 16 (ucast (a :: byte)) OR push_bit 8 (ucast (b :: byte)) OR ucast (c :: byte) :: 32 word)
   = of_nat (unat a * 65536 + unat b * 256 + unat c)"
proof -
  have *: "(of_nat (unat a) :: 32 word) = ucast a" "(of_nat (unat b) :: 32 word) = ucast b"
      "(of_nat (unat c) :: 32 word) = ucast c"
    by simp_all
  have "(push_bit 8 (ucast b) OR ucast c :: 32 word) = push_bit 8 (ucast b) + ucast c"
    by (rule disjunctive_add [symmetric]) (auto simp: bit_simps not_bit_byte)
  moreover have "(push_bit 16 (ucast a) OR (push_bit 8 (ucast b) OR ucast c) :: 32 word)
      = push_bit 16 (ucast a) + (push_bit 8 (ucast b) OR ucast c)"
    by (rule disjunctive_add [symmetric]) (auto simp: bit_simps not_bit_byte)
  ultimately show ?thesis
    by (simp add: push_bit_eq_mult * or.assoc algebra_simps)
qed

text \<open>The encodings the writer emits.\<close>

definition be16 :: "word16 \<Rightarrow> bytes" where
  "be16 v = [ucast (drop_bit 8 v), ucast v]"

definition be24 :: "nat \<Rightarrow> bytes" where
  "be24 n = [of_nat (n div 65536), of_nat (n div 256), of_nat n]"

lemma length_be [simp]: "length (be16 v) = 2" "length (be24 n) = 3"
  by (simp_all add: be16_def be24_def)

lemma unat_hi16: "unat (ucast (drop_bit 8 (v :: word16)) :: byte) = unat v div 256"
proof -
  have "unat v div 256 < 256"
    using unat_word16_less [of v] by linarith
  moreover have "unat (drop_bit 8 v) = unat v div 256"
    by (simp only: unat_drop_bit_eq) (simp add: drop_bit_eq_div)
  ultimately show ?thesis
    by (simp add: unsigned_ucast_eq take_bit_nat_def)
qed

lemma unat_lo16: "unat (ucast (v :: word16) :: byte) = unat v mod 256"
  by (simp add: unsigned_ucast_eq take_bit_nat_def)

text \<open>Decoding what \<open>be16\<close> and \<open>be24\<close> encode.\<close>

definition dec16 :: "byte \<Rightarrow> byte \<Rightarrow> word16" where
  "dec16 a b = push_bit 8 (ucast a) OR ucast b"

definition dec24 :: "byte \<Rightarrow> byte \<Rightarrow> byte \<Rightarrow> nat" where
  "dec24 a b c =
     unat (push_bit 16 (ucast a) OR push_bit 8 (ucast b) OR ucast c :: 32 word)"

lemma unat_dec16: "unat (dec16 a b) = unat a * 256 + unat b"
proof -
  have "unat a * 256 + unat b < 65536"
    using unat_byte_less [of a] unat_byte_less [of b] by linarith
  then show ?thesis
    by (simp only: dec16_def be16_join unat_of_nat_16 mod_less)
qed

lemma dec24_eq: "dec24 a b c = unat a * 65536 + unat b * 256 + unat c"
proof -
  have "unat a * 65536 + unat b * 256 + unat c < 2 ^ LENGTH(32)"
    using unat_byte_less [of a] unat_byte_less [of b] unat_byte_less [of c]
    unfolding len_bit0 len_num1 by (simp del: unat_byte_less)
  then show ?thesis
    unfolding dec24_def be24_join unat_of_nat by (rule mod_less)
qed

lemma dec24_less [simp]: "dec24 a b c < 16777216"
proof -
  have "unat a * 65536 + unat b * 256 + unat c < 16777216"
    using unat_byte_less [of a] unat_byte_less [of b] unat_byte_less [of c] by linarith
  then show ?thesis by (simp only: dec24_eq)
qed

lemma dec16_be16 [simp]: "dec16 (ucast (drop_bit 8 v)) (ucast v) = v"
proof -
  have "unat (dec16 (ucast (drop_bit 8 v)) (ucast v)) = unat v"
    unfolding unat_dec16 unat_hi16 by (simp only: unat_lo16 div_mult_mod_eq)
  then show ?thesis
    by (simp only: word_unat_eq_iff)
qed

lemma horner_24: "a * 256 + b = q \<Longrightarrow> q * 256 + c = n \<Longrightarrow> a * 65536 + b * 256 + c = (n :: nat)"
  by simp

lemma div_mod_24:
  fixes n :: nat
  assumes "n < 16777216"
  shows "n div 65536 mod 256 * 65536 + n div 256 mod 256 * 256 + n mod 256 = n"
proof (rule horner_24 [OF _ div_mult_mod_eq])
  have eq: "n div 65536 = n div 256 div 256"
    using div_mult2_eq [of n 256 256] by simp
  have "n div 65536 < 256"
    using assms by simp
  then have "n div 65536 mod 256 = n div 256 div 256"
    unfolding eq by (rule mod_less)
  then show "n div 65536 mod 256 * 256 + n div 256 mod 256 = n div 256"
    by (simp only: div_mult_mod_eq)
qed

lemma dec24_be24 [simp]:
  "n < 16777216 \<Longrightarrow> dec24 (of_nat (n div 65536)) (of_nat (n div 256)) (of_nat n) = n"
  unfolding dec24_eq unat_of_nat_byte by (rule div_mod_24)

end
