(* ===== verification/Msg.thy ===== *)
theory Msg
  imports Prelude
begin

section \<open>Wire encode and decode primitives (wn_msg.c)\<close>

text \<open>
  The writer and the reader of \<^verbatim>\<open>src/wn_msg.h\<close> with their sticky error flag. The
  positions are 32-bit values: each addition of the C text is \<open>u32\<close>. The field \<open>woob\<close>
  (\<open>roob\<close>) is not in the C structure: it records that a store (a load) went outside the
  buffer, which the bounds theorems show never happens while the buffer is below 2 GB.

  \<open>wabs\<close> is the abstract writer, the bytes written so far, or \<open>None\<close> once the error
  has latched; every operation refines an append to it.
\<close>

subsection \<open>The writer\<close>

record writer =
  wbuf :: bytes
  wcap :: nat
  wlen :: nat
  werr :: bool
  woob :: bool

definition wn_Writer_Init :: "bytes \<Rightarrow> nat \<Rightarrow> writer" where
  "wn_Writer_Init buf cap = \<lparr>wbuf = buf, wcap = cap, wlen = 0, werr = False, woob = False\<rparr>"

text \<open>A store \<open>buf[i] = v\<close>, and the copy of \<open>n\<close> bytes.\<close>

definition put_byte :: "nat \<Rightarrow> byte \<Rightarrow> writer \<Rightarrow> writer" where
  "put_byte i v w =
     (if i < length (wbuf w) then w\<lparr>wbuf := (wbuf w)[i := v]\<rparr> else w\<lparr>woob := True\<rparr>)"

definition put_bytes :: "nat \<Rightarrow> bytes \<Rightarrow> nat \<Rightarrow> writer \<Rightarrow> writer" where
  "put_bytes off src n w =
     (if off + n \<le> length (wbuf w) \<and> n \<le> length src
      then w\<lparr>wbuf := mem_put (wbuf w) off (take n src)\<rparr> else w\<lparr>woob := True\<rparr>)"

definition wn_Write_U8 :: "byte \<Rightarrow> writer \<Rightarrow> writer" where
  "wn_Write_U8 v w =
     (if \<not> werr w \<and> wlen w < wcap w
      then (put_byte (wlen w) v w)\<lparr>wlen := u32 (wlen w + 1)\<rparr>
      else w\<lparr>werr := True\<rparr>)"

definition wn_Write_U16 :: "word16 \<Rightarrow> writer \<Rightarrow> writer" where
  "wn_Write_U16 v w =
     (if \<not> werr w \<and> u32 (wlen w + 2) \<le> wcap w
      then (put_byte (u32 (wlen w + 1)) (ucast (v AND 0xff))
             (put_byte (wlen w) (ucast (drop_bit 8 v)) w))\<lparr>wlen := u32 (wlen w + 2)\<rparr>
      else w\<lparr>werr := True\<rparr>)"

definition wn_Write_U24 :: "32 word \<Rightarrow> writer \<Rightarrow> writer" where
  "wn_Write_U24 v w =
     (if \<not> werr w \<and> u32 (wlen w + 3) \<le> wcap w
      then (put_byte (u32 (wlen w + 2)) (ucast (v AND 0xff))
             (put_byte (u32 (wlen w + 1)) (ucast (drop_bit 8 v AND 0xff))
               (put_byte (wlen w) (ucast (drop_bit 16 v AND 0xff)) w)))\<lparr>wlen := u32 (wlen w + 3)\<rparr>
      else w\<lparr>werr := True\<rparr>)"

text \<open>\<open>p\<close> is \<open>None\<close> for a null pointer.\<close>

definition wn_Write_Bytes :: "bytes option \<Rightarrow> nat \<Rightarrow> writer \<Rightarrow> writer" where
  "wn_Write_Bytes p n w =
     (if \<not> werr w \<and> u32 (wlen w + n) \<le> wcap w \<and> (p \<noteq> None \<or> n = 0)
      then (if n \<noteq> 0 then put_bytes (wlen w) (the p) n w else w)\<lparr>wlen := u32 (wlen w + n)\<rparr>
      else w\<lparr>werr := True\<rparr>)"

text \<open>Reserve a length of \<open>k\<close> bytes: the offset to backfill, and the writer.\<close>

definition wn_Write_LenStart :: "nat \<Rightarrow> writer \<Rightarrow> nat \<times> writer" where
  "wn_Write_LenStart k w = (let w' = (wn_Write_U8 0 ^^ k) w in (wlen w', w'))"

fun put_len :: "nat \<Rightarrow> nat \<Rightarrow> nat \<Rightarrow> nat \<Rightarrow> nat \<Rightarrow> writer \<Rightarrow> writer" where
  "put_len lenPos contentLen k i 0 w = w"
| "put_len lenPos contentLen k i (Suc m) w =
     put_len lenPos contentLen k (Suc i) m
       (put_byte (u32 (lenPos + i)) (of_nat (contentLen div 2 ^ (8 * (k - 1 - i)))) w)"

definition wn_Write_LenEnd :: "nat \<Rightarrow> nat \<Rightarrow> writer \<Rightarrow> writer" where
  "wn_Write_LenEnd off k w =
     (if \<not> werr w
      then put_len (u32_sub off k) (u32_sub (wlen w) off) k 0 k w
      else w)"

subsection \<open>The writer's invariant and its abstraction\<close>

definition wok :: "writer \<Rightarrow> bool" where
  "wok w \<longleftrightarrow> wlen w \<le> wcap w \<and> wcap w \<le> length (wbuf w) \<and> wcap w < 2147483648 \<and> \<not> woob w"

definition wabs :: "writer \<Rightarrow> bytes option" where
  "wabs w = (if werr w then None else Some (take (wlen w) (wbuf w)))"

text \<open>The abstract operations: append within a capacity, and backfill a length.\<close>

definition aput :: "nat \<Rightarrow> bytes option \<Rightarrow> bytes \<Rightarrow> bytes option" where
  "aput cap a bs =
     (case a of None \<Rightarrow> None
      | Some xs \<Rightarrow> if length xs + length bs \<le> cap then Some (xs @ bs) else None)"

fun be_len :: "nat \<Rightarrow> nat \<Rightarrow> bytes" where
  "be_len 0 n = []"
| "be_len (Suc k) n = of_nat (n div 256 ^ k) # be_len k n"

definition alen :: "nat \<Rightarrow> nat \<Rightarrow> bytes option \<Rightarrow> bytes option" where
  "alen off k a =
     map_option (\<lambda>xs. take (off - k) xs @ be_len k (length xs - off) @ drop off xs) a"

lemma length_be_len [simp]: "length (be_len k n) = k"
  by (induction k) simp_all

lemma aput_None [simp]: "aput cap None bs = None"
  by (simp add: aput_def)

lemma aput_Some [simp]:
  "aput cap (Some xs) bs = (if length xs + length bs \<le> cap then Some (xs @ bs) else None)"
  by (simp add: aput_def)

lemma aput_aput: "aput cap (aput cap a xs) ys = aput cap a (xs @ ys)"
  by (cases a) (auto simp: aput_def)

lemma alen_None [simp]: "alen off k None = None"
  by (simp add: alen_def)

lemma wok_Init: "cap \<le> length buf \<Longrightarrow> cap < 2147483648 \<Longrightarrow> wok (wn_Writer_Init buf cap)"
  by (simp add: wok_def wn_Writer_Init_def)

lemma wok_safe: "wok w \<Longrightarrow> \<not> woob w"
  by (simp add: wok_def)

lemma wabs_Init: "wabs (wn_Writer_Init buf cap) = Some []"
  by (simp add: wabs_def wn_Writer_Init_def)

text \<open>
  Every operation on an unlatched writer with room is one copy of the encoded bytes at
  \<open>wlen\<close>; on any other writer it latches the error and leaves the rest alone.
\<close>

definition wwrite :: "bytes \<Rightarrow> writer \<Rightarrow> writer" where
  "wwrite bs w =
     (if \<not> werr w \<and> wlen w + length bs \<le> wcap w
      then w\<lparr>wbuf := mem_put (wbuf w) (wlen w) bs, wlen := wlen w + length bs\<rparr>
      else w\<lparr>werr := True\<rparr>)"

lemma put_byte_in:
  "i < length (wbuf w) \<Longrightarrow> put_byte i v w = w\<lparr>wbuf := mem_put (wbuf w) i [v]\<rparr>"
  by (simp add: put_byte_def mem_put_one)

lemma ucast_drop_bit_32:
  "(ucast (drop_bit n (v :: 32 word)) :: byte) = of_nat (unat v div 2 ^ n)"
proof -
  have "(ucast (drop_bit n v) :: byte) = of_nat (unat (drop_bit n v))"
    by simp
  also have "unat (drop_bit n v) = unat v div 2 ^ n"
    by (simp only: unat_drop_bit_eq) (simp add: drop_bit_eq_div)
  finally show ?thesis .
qed

lemma mem_put_step1:
  "Suc off + length ys \<le> length buf \<Longrightarrow> mem_put (mem_put buf off [x]) (Suc off) ys = mem_put buf off (x # ys)"
  using mem_put_app [of off "[x]" ys buf] by simp

lemma mem_put_step2:
  "Suc (Suc off) + length ys \<le> length buf \<Longrightarrow>
   mem_put (mem_put buf off [x, y]) (Suc (Suc off)) ys = mem_put buf off (x # y # ys)"
  using mem_put_app [of off "[x, y]" ys buf] by simp

lemmas mem_put_steps = mem_put_step1 mem_put_step2

lemma U8_wwrite: "wok w \<Longrightarrow> wn_Write_U8 v w = wwrite [v] w"
  by (auto simp: wok_def wn_Write_U8_def wwrite_def put_byte_in)

lemma U16_wwrite: "wok w \<Longrightarrow> wn_Write_U16 v w = wwrite (be16 v) w"
  by (auto simp: wok_def wn_Write_U16_def wwrite_def put_byte_in be16_def mem_put_steps)

lemma U24_wwrite: "wok w \<Longrightarrow> wn_Write_U24 v w = wwrite (be24 (unat v)) w"
  by (auto simp: wok_def wn_Write_U24_def wwrite_def put_byte_in be24_def ucast_drop_bit_32
      mem_put_steps numeral_3_eq_3)

lemma Bytes_wwrite:
  "wok w \<Longrightarrow> n < 2147483648 \<Longrightarrow> n \<le> length bs \<Longrightarrow> wn_Write_Bytes (Some bs) n w = wwrite (take n bs) w"
  by (auto simp: wok_def wn_Write_Bytes_def wwrite_def put_bytes_def)

lemma Bytes_null: "wok w \<Longrightarrow> wn_Write_Bytes None 0 w = wwrite [] w"
  by (auto simp: wok_def wn_Write_Bytes_def wwrite_def)

lemma wok_wwrite: "wok w \<Longrightarrow> wok (wwrite bs w)"
  by (auto simp: wok_def wwrite_def)

lemma wcap_wwrite [simp]: "wcap (wwrite bs w) = wcap w"
  by (simp add: wwrite_def)

lemma wabs_wwrite: "wok w \<Longrightarrow> wabs (wwrite bs w) = aput (wcap w) (wabs w) bs"
  by (auto simp: wok_def wabs_def wwrite_def take_mem_put aput_def)

subsection \<open>Building a message: what a sequence of writes emits\<close>

text \<open>
  \<open>emits f bs\<close>: on every well-formed writer the code \<open>f\<close> keeps the writer well formed,
  never stores outside the buffer and appends exactly \<open>bs\<close>, or latches the error when
  they do not fit. It is what a builder owes its caller, and it composes.
\<close>

definition emits :: "(writer \<Rightarrow> writer) \<Rightarrow> bytes \<Rightarrow> bool" where
  "emits f bs \<longleftrightarrow>
     (\<forall>w. wok w \<longrightarrow> wok (f w) \<and> wcap (f w) = wcap w \<and> wabs (f w) = aput (wcap w) (wabs w) bs)"

lemma emitsD:
  assumes "emits f bs" and "wok w"
  shows "wok (f w)" "wcap (f w) = wcap w" "wabs (f w) = aput (wcap w) (wabs w) bs"
  using assms by (auto simp: emits_def)

lemma emits_wwrite: "(\<And>w. wok w \<Longrightarrow> f w = wwrite bs w) \<Longrightarrow> emits f bs"
  by (simp add: emits_def wok_wwrite wabs_wwrite)

lemma emits_U8 [intro]: "emits (wn_Write_U8 v) [v]"
  by (rule emits_wwrite) (rule U8_wwrite)

lemma emits_U16 [intro]: "emits (wn_Write_U16 v) (be16 v)"
  by (rule emits_wwrite) (rule U16_wwrite)

lemma emits_U24 [intro]: "emits (wn_Write_U24 v) (be24 (unat v))"
  by (rule emits_wwrite) (rule U24_wwrite)

lemma emits_Bytes:
  "n < 2147483648 \<Longrightarrow> n \<le> length bs \<Longrightarrow> emits (wn_Write_Bytes (Some bs) n) (take n bs)"
  by (rule emits_wwrite) (rule Bytes_wwrite)

lemma emits_Bytes_all [intro]:
  "length bs = n \<Longrightarrow> n < 2147483648 \<Longrightarrow> emits (wn_Write_Bytes (Some bs) n) bs"
  using emits_Bytes [of n bs] by simp

lemma emits_id [intro]: "emits (\<lambda>w. w) []"
  by (auto simp: emits_def wok_def aput_def wabs_def)

lemma emits_comp [intro]: "emits f xs \<Longrightarrow> emits g ys \<Longrightarrow> emits (\<lambda>w. g (f w)) (xs @ ys)"
  by (simp add: emits_def aput_aput)

lemma emits_if: "(c \<Longrightarrow> emits f xs) \<Longrightarrow> (\<not> c \<Longrightarrow> emits g ys) \<Longrightarrow>
    emits (\<lambda>w. if c then f w else g w) (if c then xs else ys)"
  by auto

lemma wabs_SomeD: "wok w \<Longrightarrow> wabs w = Some xs \<Longrightarrow> wlen w = length xs \<and> take (length xs) (wbuf w) = xs \<and> \<not> werr w"
  by (auto simp: wok_def wabs_def split: if_splits)

lemma wabs_None: "wabs w = None \<longleftrightarrow> werr w"
  by (simp add: wabs_def)

lemma emits_zeros: "emits (wn_Write_U8 0 ^^ k) (replicate k 0)"
proof (induction k)
  case 0
  show ?case by (simp add: id_def emits_id)
next
  case (Suc k)
  show ?case
    using emits_comp [OF Suc emits_U8 [of 0]]
    by (simp add: comp_def replicate_append_same)
qed

lemma put_len_mem_put:
  assumes "lenPos + i + m \<le> length (wbuf w)" "length (wbuf w) < 4294967296 \<or> lenPos + k < 4294967296" "i + m = k"
  shows "put_len lenPos c k i m w = w\<lparr>wbuf := mem_put (wbuf w) (lenPos + i) (be_len m c)\<rparr>"
  using assms
proof (induction m arbitrary: i w)
  case 0
  then show ?case by simp
next
  case (Suc m)
  have idx: "u32 (lenPos + i) = lenPos + i" "k - 1 - i = m"
    using Suc.prems by (auto simp: u32_def)
  have pw: "(2::nat) ^ (8 * m) = 256 ^ m"
    by (simp add: power_mult)
  let ?w = "put_byte (lenPos + i) (of_nat (c div 256 ^ m)) w"
  have w: "?w = w\<lparr>wbuf := mem_put (wbuf w) (lenPos + i) [of_nat (c div 256 ^ m)]\<rparr>"
    using Suc.prems by (intro put_byte_in) simp
  have "put_len lenPos c k i (Suc m) w = put_len lenPos c k (Suc i) m ?w"
    by (simp only: put_len.simps idx pw)
  also have "\<dots> = ?w\<lparr>wbuf := mem_put (wbuf ?w) (lenPos + Suc i) (be_len m c)\<rparr>"
    using Suc.prems by (intro Suc.IH) (auto simp: w)
  finally show ?case
    using Suc.prems by (simp add: w mem_put_step1)
qed

lemma LenEnd_mem_put:
  assumes "wok w" "\<not> werr w" "k \<le> off" "off \<le> wlen w"
  shows "wn_Write_LenEnd off k w = w\<lparr>wbuf := mem_put (wbuf w) (off - k) (be_len k (wlen w - off))\<rparr>"
proof -
  have small: "off < 4294967296" "wlen w < 4294967296" "off \<le> length (wbuf w)"
    using assms by (auto simp: wok_def)
  then have "u32_sub off k = off - k" "u32_sub (wlen w) off = wlen w - off"
    using assms by (simp_all add: u32_sub_ge)
  then show ?thesis
    using assms small by (simp add: wn_Write_LenEnd_def put_len_mem_put)
qed

lemma mem_put_backfill:
  assumes "take (length xs + k + length bs) buf = xs @ replicate k 0 @ bs"
    and "length xs + k + length bs \<le> length buf" "length ls = k"
  shows "take (length xs + k + length bs) (mem_put buf (length xs) ls) = xs @ ls @ bs"
proof -
  obtain rest where buf: "buf = (xs @ replicate k 0 @ bs) @ rest"
    using assms(1) append_take_drop_id by metis
  show ?thesis
    using assms(3) by (simp add: buf mem_put_def)
qed

text \<open>A vector: reserve the length, write the body, backfill the length.\<close>

theorem emits_vector:
  assumes "emits f bs"
  shows "emits (\<lambda>w. case wn_Write_LenStart k w of (off, w') \<Rightarrow> wn_Write_LenEnd off k (f w'))
           (be_len k (length bs) @ bs)"
  unfolding emits_def
proof (intro allI impI)
  fix w assume w: "wok w"
  define w1 where "w1 = (wn_Write_U8 0 ^^ k) w"
  note z = emitsD [OF emits_zeros w, of k, folded w1_def]
  note b = emitsD [OF assms z(1)]
  have code: "(case wn_Write_LenStart k w of (off, w') \<Rightarrow> wn_Write_LenEnd off k (f w'))
      = wn_Write_LenEnd (wlen w1) k (f w1)"
    by (simp add: wn_Write_LenStart_def w1_def Let_def)
  have all: "wabs (f w1) = aput (wcap w) (wabs w) (replicate k 0 @ bs)"
    using z b by (simp add: aput_aput)
  show "wok (case wn_Write_LenStart k w of (off, w') \<Rightarrow> wn_Write_LenEnd off k (f w')) \<and>
    wcap (case wn_Write_LenStart k w of (off, w') \<Rightarrow> wn_Write_LenEnd off k (f w')) = wcap w \<and>
    wabs (case wn_Write_LenStart k w of (off, w') \<Rightarrow> wn_Write_LenEnd off k (f w')) =
      aput (wcap w) (wabs w) (be_len k (length bs) @ bs)"
    unfolding code
  proof (cases "werr (f w1)")
    case True
    then have "aput (wcap w) (wabs w) (replicate k 0 @ bs) = None"
      using all wabs_None [of "f w1"] by simp
    then have "aput (wcap w) (wabs w) (be_len k (length bs) @ bs) = None"
      by (cases "wabs w") (auto split: if_splits)
    then show "wok (wn_Write_LenEnd (wlen w1) k (f w1)) \<and>
      wcap (wn_Write_LenEnd (wlen w1) k (f w1)) = wcap w \<and>
      wabs (wn_Write_LenEnd (wlen w1) k (f w1)) = aput (wcap w) (wabs w) (be_len k (length bs) @ bs)"
      using True b z wabs_None [of "f w1"] by (simp add: wn_Write_LenEnd_def)
  next
    case False
    then obtain xs where xs: "wabs w = Some xs"
      using all wabs_None [of "f w1"] by (cases "wabs w") auto
    have "wabs (f w1) \<noteq> None" using False by (simp add: wabs_None)
    then have fw: "wabs (f w1) = Some (xs @ replicate k 0 @ bs)"
        and fit: "length xs + (k + length bs) \<le> wcap w"
      using all xs by (auto split: if_splits)
    have w1: "wabs w1 = Some (xs @ replicate k 0)"
      using z xs fit by simp
    have l1: "wlen w1 = length xs + k"
      using wabs_SomeD [OF z(1) w1] by simp
    have lf: "wlen (f w1) = length xs + k + length bs"
      and tk: "take (length xs + k + length bs) (wbuf (f w1)) = xs @ replicate k 0 @ bs"
      using wabs_SomeD [OF b(1) fw] by (simp_all add: add.assoc)
    have room: "length xs + k + length bs \<le> length (wbuf (f w1))"
      using b(1) lf by (simp add: wok_def)
    have le: "wn_Write_LenEnd (wlen w1) k (f w1)
        = (f w1)\<lparr>wbuf := mem_put (wbuf (f w1)) (length xs) (be_len k (length bs))\<rparr>"
      using LenEnd_mem_put [OF b(1) False, of k "wlen w1"] by (simp add: l1 lf)
    show "wok (wn_Write_LenEnd (wlen w1) k (f w1)) \<and>
      wcap (wn_Write_LenEnd (wlen w1) k (f w1)) = wcap w \<and>
      wabs (wn_Write_LenEnd (wlen w1) k (f w1)) = aput (wcap w) (wabs w) (be_len k (length bs) @ bs)"
      using b z False room fit mem_put_backfill [OF tk room, of "be_len k (length bs)"]
      by (simp add: le wok_def wabs_def [of "f w1\<lparr>wbuf := _\<rparr>"] xs lf)
  qed
qed

subsection \<open>The reader\<close>

record reader =
  rbuf :: bytes
  rlen :: nat
  rpos :: nat
  rerr :: bool
  roob :: bool

definition wn_Reader_Init :: "bytes \<Rightarrow> nat \<Rightarrow> reader" where
  "wn_Reader_Init buf n = \<lparr>rbuf = buf, rlen = n, rpos = 0, rerr = False, roob = False\<rparr>"

text \<open>A load \<open>buf[i]\<close>, and the record that the range \<open>i .. i+n\<close> was asked for.\<close>

definition get_byte :: "nat \<Rightarrow> reader \<Rightarrow> byte" where
  "get_byte i r = (if i < length (rbuf r) then rbuf r ! i else 0)"

definition touch :: "nat \<Rightarrow> nat \<Rightarrow> reader \<Rightarrow> reader" where
  "touch i n r = (if i + n \<le> length (rbuf r) then r else r\<lparr>roob := True\<rparr>)"

definition wn_Read_U8 :: "reader \<Rightarrow> byte \<times> reader" where
  "wn_Read_U8 r =
     (if \<not> rerr r \<and> rpos r < rlen r
      then (get_byte (rpos r) r, (touch (rpos r) 1 r)\<lparr>rpos := u32 (rpos r + 1)\<rparr>)
      else (0, r\<lparr>rerr := True\<rparr>))"

definition wn_Read_U16 :: "reader \<Rightarrow> word16 \<times> reader" where
  "wn_Read_U16 r =
     (if \<not> rerr r \<and> u32 (rpos r + 2) \<le> rlen r
      then (push_bit 8 (ucast (get_byte (rpos r) r)) OR ucast (get_byte (u32 (rpos r + 1)) r),
            (touch (rpos r) 1 (touch (u32 (rpos r + 1)) 1 r))\<lparr>rpos := u32 (rpos r + 2)\<rparr>)
      else (0, r\<lparr>rerr := True\<rparr>))"

definition wn_Read_U24 :: "reader \<Rightarrow> nat \<times> reader" where
  "wn_Read_U24 r =
     (if \<not> rerr r \<and> u32 (rpos r + 3) \<le> rlen r
      then (unat (push_bit 16 (ucast (get_byte (rpos r) r)) OR
                  push_bit 8 (ucast (get_byte (u32 (rpos r + 1)) r)) OR
                  ucast (get_byte (u32 (rpos r + 2)) r) :: 32 word),
            (touch (rpos r) 1 (touch (u32 (rpos r + 1)) 1 (touch (u32 (rpos r + 2)) 1 r)))
              \<lparr>rpos := u32 (rpos r + 3)\<rparr>)
      else (0, r\<lparr>rerr := True\<rparr>))"

text \<open>
  The pointer \<open>r->buf + r->pos\<close> is the offset into the reader's buffer, \<open>None\<close> for NULL.
  The caller may read the \<open>n\<close> bytes behind it, so the whole range is recorded.
\<close>

definition wn_Read_Bytes :: "nat \<Rightarrow> reader \<Rightarrow> nat option \<times> reader" where
  "wn_Read_Bytes n r =
     (if \<not> rerr r \<and> u32 (rpos r + n) \<le> rlen r
      then (Some (rpos r), (touch (rpos r) n r)\<lparr>rpos := u32 (rpos r + n)\<rparr>)
      else (None, r\<lparr>rerr := True\<rparr>))"

lemmas read_defs = wn_Read_U8_def wn_Read_U16_def wn_Read_U24_def wn_Read_Bytes_def

subsection \<open>The reader's invariant\<close>

definition rok :: "reader \<Rightarrow> bool" where
  "rok r \<longleftrightarrow> rpos r \<le> rlen r \<and> rlen r \<le> length (rbuf r) \<and> rlen r < 2147483648 \<and> \<not> roob r"

lemma rok_Init [simp]: "n \<le> length buf \<Longrightarrow> n < 2147483648 \<Longrightarrow> rok (wn_Reader_Init buf n)"
  by (simp add: rok_def wn_Reader_Init_def)

lemma Init_sel [simp]:
  "rbuf (wn_Reader_Init buf n) = buf" "rlen (wn_Reader_Init buf n) = n"
  "rpos (wn_Reader_Init buf n) = 0" "\<not> rerr (wn_Reader_Init buf n)"
  "\<not> roob (wn_Reader_Init buf n)"
  by (simp_all add: wn_Reader_Init_def)

lemma rok_U8: "rok r \<Longrightarrow> wn_Read_U8 r = (v, r') \<Longrightarrow> rok r'"
  by (auto simp: rok_def read_defs touch_def split: if_splits)

lemma rok_U16: "rok r \<Longrightarrow> wn_Read_U16 r = (v, r') \<Longrightarrow> rok r'"
  by (auto simp: rok_def read_defs touch_def split: if_splits)

lemma rok_U24: "rok r \<Longrightarrow> wn_Read_U24 r = (v, r') \<Longrightarrow> rok r'"
  by (auto simp: rok_def read_defs touch_def split: if_splits)

lemma rok_Bytes: "rok r \<Longrightarrow> n < 2147483648 \<Longrightarrow> wn_Read_Bytes n r = (p, r') \<Longrightarrow> rok r'"
  by (auto simp: rok_def read_defs touch_def split: if_splits)

lemmas rok_read = rok_U8 rok_U16 rok_U24 rok_Bytes

lemma read_sel:
  "wn_Read_U8 r = (v8, r') \<Longrightarrow> rbuf r' = rbuf r \<and> rlen r' = rlen r"
  "wn_Read_U16 r = (v16, r') \<Longrightarrow> rbuf r' = rbuf r \<and> rlen r' = rlen r"
  "wn_Read_U24 r = (v24, r') \<Longrightarrow> rbuf r' = rbuf r \<and> rlen r' = rlen r"
  "wn_Read_Bytes n r = (p, r') \<Longrightarrow> rbuf r' = rbuf r \<and> rlen r' = rlen r"
  by (auto simp: read_defs touch_def split: if_splits)

text \<open>The error is sticky, and a latched reader yields zeros and NULL.\<close>

lemma read_latched:
  assumes "rerr r"
  shows "wn_Read_U8 r = (0, r)" "wn_Read_U16 r = (0, r)" "wn_Read_U24 r = (0, r)"
    "wn_Read_Bytes n r = (None, r)"
  using assms by (simp_all add: read_defs)

lemma read_err_sticky:
  "wn_Read_U8 r = (v8, r') \<Longrightarrow> \<not> rerr r' \<Longrightarrow> \<not> rerr r"
  "wn_Read_U16 r = (v16, r') \<Longrightarrow> \<not> rerr r' \<Longrightarrow> \<not> rerr r"
  "wn_Read_U24 r = (v24, r') \<Longrightarrow> \<not> rerr r' \<Longrightarrow> \<not> rerr r"
  "wn_Read_Bytes n r = (p, r') \<Longrightarrow> \<not> rerr r' \<Longrightarrow> \<not> rerr r"
  by (auto simp: read_defs touch_def split: if_splits)

text \<open>What a successful read of \<open>n\<close> bytes promises its caller.\<close>

lemma Bytes_range:
  assumes "rok r" "n < 2147483648" "wn_Read_Bytes n r = (p, r')" "\<not> rerr r'"
  shows "p = Some (rpos r)" "rpos r + n \<le> rlen r" "rpos r' = rpos r + n"
  using assms by (auto simp: rok_def read_defs touch_def split: if_splits)

lemma U24_bound: "wn_Read_U24 r = (n, r') \<Longrightarrow> n < 16777216"
  using dec24_less by (auto simp: read_defs dec24_def split: if_splits)

subsection \<open>Stepping through a known message\<close>

text \<open>
  \<open>rz pre post\<close> is the reader of the buffer \<open>pre @ post\<close> that has consumed \<open>pre\<close>: the
  rules below move one field from \<open>post\<close> to \<open>pre\<close>.
\<close>

definition rz :: "bytes \<Rightarrow> bytes \<Rightarrow> reader" where
  "rz pre post = \<lparr>rbuf = pre @ post, rlen = length pre + length post, rpos = length pre,
                  rerr = False, roob = False\<rparr>"

lemma rz_sel [simp]:
  "rbuf (rz pre post) = pre @ post" "rlen (rz pre post) = length pre + length post"
  "rpos (rz pre post) = length pre" "\<not> rerr (rz pre post)" "\<not> roob (rz pre post)"
  by (simp_all add: rz_def)

lemma Init_rz: "n = length buf \<Longrightarrow> wn_Reader_Init buf n = rz [] buf"
  by (simp add: rz_def wn_Reader_Init_def)

lemma rz_U8:
  "length pre + length post < 2147483647 \<Longrightarrow> wn_Read_U8 (rz pre (b # post)) = (b, rz (pre @ [b]) post)"
  by (simp add: read_defs rz_def get_byte_def touch_def)

lemma rz_U16:
  "length pre + length post < 2147483646 \<Longrightarrow>
   wn_Read_U16 (rz pre (a # b # post)) = (dec16 a b, rz (pre @ [a, b]) post)"
  by (simp add: read_defs rz_def get_byte_def touch_def nth_append dec16_def)

lemma rz_U24:
  "length pre + length post < 2147483645 \<Longrightarrow>
   wn_Read_U24 (rz pre (a # b # c # post)) = (dec24 a b c, rz (pre @ [a, b, c]) post)"
  by (simp add: read_defs rz_def get_byte_def touch_def nth_append dec24_def)

lemma rz_Bytes:
  "length xs = n \<Longrightarrow> length pre + length xs + length post < 2147483648 \<Longrightarrow>
   wn_Read_Bytes n (rz pre (xs @ post)) = (Some (length pre), rz (pre @ xs) post)"
  by (auto simp: read_defs rz_def touch_def)

lemmas rz_steps = rz_U8 rz_U16 rz_U24 rz_Bytes

lemma rz_short:
  "length pre < 2147483648 \<Longrightarrow> wn_Read_U8 (rz pre []) = (0, (rz pre [])\<lparr>rerr := True\<rparr>)"
  "length pre + length post < 2147483648 \<Longrightarrow> length post < n \<Longrightarrow> n < 2147483648 \<Longrightarrow>
   wn_Read_Bytes n (rz pre post) = (None, (rz pre post)\<lparr>rerr := True\<rparr>)"
  by (simp_all add: read_defs rz_def)

lemma be16_Cons: "be16 v @ xs = ucast (drop_bit 8 v) # ucast v # xs"
  by (simp add: be16_def)

lemma be24_Cons: "be24 n @ xs = of_nat (n div 65536) # of_nat (n div 256) # of_nat n # xs"
  by (simp add: be24_def)

lemma rz_be16:
  "length pre + length post < 2147483646 \<Longrightarrow>
   wn_Read_U16 (rz pre (be16 v @ post)) = (v, rz (pre @ be16 v) post)"
  unfolding be16_Cons by (subst rz_U16) (simp_all add: be16_def)

lemma rz_be24:
  "n < 16777216 \<Longrightarrow> length pre + length post < 2147483645 \<Longrightarrow>
   wn_Read_U24 (rz pre (be24 n @ post)) = (n, rz (pre @ be24 n) post)"
  unfolding be24_Cons by (subst rz_U24) (simp_all add: be24_def)

lemma be_len_1: "be_len 1 n = [of_nat n]"
  by simp

lemma be_len_2: "be_len 2 n = be16 (of_nat n)"
proof -
  have "(of_nat (n div 256) :: byte) = ucast (drop_bit 8 (of_nat n :: word16))"
  proof (rule word_unat_eq_iff [THEN iffD2])
    have "n div 256 mod 256 = n mod 65536 div 256"
      using mod_mult2_eq [of n 256 256] by simp
    then show "unat (of_nat (n div 256) :: byte) = unat (ucast (drop_bit 8 (of_nat n :: word16)) :: byte)"
      unfolding unat_hi16 unat_of_nat_16 unat_of_nat_byte .
  qed
  moreover have "(of_nat n :: byte) = ucast (of_nat n :: word16)"
    by (rule word_unat_eq_iff [THEN iffD2])
       (simp only: unat_lo16 unat_of_nat_16 unat_of_nat_byte, simp add: mod_mod_cancel)
  ultimately show ?thesis
    by (simp add: be16_def numeral_2_eq_2)
qed

lemma be_len_3: "be_len 3 n = be24 n"
  by (simp add: be24_def numeral_3_eq_3)

subsection \<open>Builders and vectors\<close>

text \<open>
  A builder is a list of writes run in order; \<open>wn_vec k f\<close> brackets the writes \<open>f\<close> with
  \<open>wn_Write_LenStart(w, k)\<close> and the matching \<open>wn_Write_LenEnd\<close>.
\<close>

definition run_w :: "(writer \<Rightarrow> writer) list \<Rightarrow> writer \<Rightarrow> writer" where
  "run_w fs w = fold (\<lambda>f. f) fs w"

lemma run_w_app: "run_w (xs @ ys) w = run_w ys (run_w xs w)"
  by (simp add: run_w_def)

lemma run_w_one: "run_w [f] w = f w" "run_w (f # fs) w = run_w fs (f w)" "run_w [] w = w"
  by (simp_all add: run_w_def)

definition wn_vec :: "nat \<Rightarrow> (writer \<Rightarrow> writer) \<Rightarrow> writer \<Rightarrow> writer" where
  "wn_vec k f w = (case wn_Write_LenStart k w of (off, w') \<Rightarrow> wn_Write_LenEnd off k (f w'))"

text \<open>A finished message: its length and the buffer, or the error the caller maps \<open>w.err\<close> to.\<close>

definition finish_w :: "wn_err \<Rightarrow> writer \<Rightarrow> (wn_err + nat) \<times> bytes" where
  "finish_w e w = (if woob w then Inl Oob else if werr w then Inl e else Inr (wlen w), wbuf w)"

lemma emits_run_Nil [intro]: "emits (run_w []) []"
  using emits_id by (simp add: run_w_def [abs_def] id_def)

lemma emits_run_Cons [intro]: "emits f xs \<Longrightarrow> emits (run_w fs) ys \<Longrightarrow> emits (run_w (f # fs)) (xs @ ys)"
  using emits_comp [of f xs "run_w fs" ys] by (simp add: run_w_def [abs_def] comp_def)

lemma emits_vec [intro]: "emits f bs \<Longrightarrow> emits (wn_vec k f) (be_len k (length bs) @ bs)"
  using emits_vector [of f bs k] by (simp add: wn_vec_def [abs_def] case_prod_unfold)

lemma emits_when: "emits f xs \<Longrightarrow> emits (\<lambda>w. if c then f w else w) (if c then xs else [])"
  using emits_if [of c f xs "\<lambda>w. w" "[]"] emits_id by simp

text \<open>A builder that emits \<open>bs\<close> into a buffer of \<open>cap\<close> bytes.\<close>

lemma finish_emits:
  assumes "emits f bs" "cap \<le> length buf" "cap < 2147483648"
  shows "length bs \<le> cap \<Longrightarrow> \<exists>buf'. finish_w e (f (wn_Writer_Init buf cap)) = (Inr (length bs), buf') \<and> take (length bs) buf' = bs"
    "\<not> length bs \<le> cap \<Longrightarrow> fst (finish_w e (f (wn_Writer_Init buf cap))) = Inl e"
proof -
  let ?w = "f (wn_Writer_Init buf cap)"
  note E = emitsD [OF assms(1) wok_Init [OF assms(2,3)]]
  have "wcap (wn_Writer_Init buf cap) = cap"
    by (simp add: wn_Writer_Init_def)
  then have a: "wabs ?w = aput cap (Some []) bs"
    using E(3) by (simp only: wabs_Init)
  show "\<exists>buf'. finish_w e ?w = (Inr (length bs), buf') \<and> take (length bs) buf' = bs" if "length bs \<le> cap"
    using wabs_SomeD [OF E(1), of bs] a that wok_safe [OF E(1)] by (simp add: finish_w_def)
  show "fst (finish_w e ?w) = Inl e" if "\<not> length bs \<le> cap"
    using a that wok_safe [OF E(1)] wabs_None [of ?w] by (simp add: finish_w_def)
qed

subsection \<open>Loops over a reader\<close>

text \<open>
  \<open>while ((r.pos < en) && (r.err == 0)) { body }\<close>. Every body of the parsers moves the reader
  forward or latches the error, so fuel for the bytes before \<open>en\<close> is enough; a loop that
  used it up would be marked as a stray access.
\<close>

fun read_while :: "nat \<Rightarrow> nat \<Rightarrow> (reader \<times> 's \<Rightarrow> reader \<times> 's) \<Rightarrow> reader \<times> 's \<Rightarrow> reader \<times> 's" where
  "read_while 0 en body (r, s) =
     (if rpos r < en \<and> \<not> rerr r then (r\<lparr>rerr := True, roob := True\<rparr>, s) else (r, s))"
| "read_while (Suc k) en body (r, s) =
     (if rpos r < en \<and> \<not> rerr r then read_while k en body (body (r, s)) else (r, s))"

lemma read_while_done: "\<not> (rpos r < en \<and> \<not> rerr r) \<Longrightarrow> read_while k en body (r, s) = (r, s)"
  by (cases k) (auto simp: read_while.simps)

lemma read_while_step:
  "rpos r < en \<Longrightarrow> \<not> rerr r \<Longrightarrow> 0 < k \<Longrightarrow> read_while k en body (r, s) = read_while (k - 1) en body (body (r, s))"
  by (cases k) (auto simp: read_while.simps)

declare read_while.simps [simp del]

text \<open>The contract of such a loop: an invariant of reader and state, kept by a body that advances.\<close>

locale read_loop =
  fixes inv :: "'e \<Rightarrow> reader \<Rightarrow> 's \<Rightarrow> bool" and en :: "'e \<Rightarrow> nat"
    and body :: "'e \<Rightarrow> reader \<times> 's \<Rightarrow> reader \<times> 's"
  assumes step: "inv e r s \<Longrightarrow> rpos r < en e \<Longrightarrow> \<not> rerr r \<Longrightarrow> body e (r, s) = (r', s') \<Longrightarrow>
      inv e r' s' \<and> (rerr r' \<or> rpos r < rpos r')"
begin

lemma loop_inv:
  "inv e r s \<Longrightarrow> en e - rpos r \<le> k \<Longrightarrow> read_while k (en e) (body e) (r, s) = (r', s') \<Longrightarrow>
   inv e r' s' \<and> (rerr r' \<or> en e \<le> rpos r')"
proof (induction k arbitrary: r s)
  case 0
  then show ?case by (auto simp: read_while.simps split: if_splits)
next
  case (Suc k)
  obtain r1 s1 where b: "body e (r, s) = (r1, s1)" by force
  show ?case
  proof (cases "rpos r < en e \<and> \<not> rerr r")
    case True
    then have st: "inv e r1 s1" "rerr r1 \<or> rpos r < rpos r1"
      using step [OF Suc.prems(1) _ _ b] by auto
    show ?thesis
    proof (cases "rerr r1")
      case True': True
      then show ?thesis
        using Suc.prems(3) True b st(1) by (simp add: read_while.simps read_while_done)
    next
      case False
      then have "en e - rpos r1 \<le> k" using st Suc.prems(2) by linarith
      then show ?thesis using Suc.IH [OF st(1)] Suc.prems(3) True b by (simp add: read_while.simps)
    qed
  next
    case False
    then show ?thesis using Suc.prems by (auto simp: read_while_done)
  qed
qed

end

subsection \<open>The device contract\<close>

text \<open>
  What a caller that validates once, at the end, relies on: steps keep the device well
  formed, a latched device does not move, and a well-formed device never strayed.
\<close>

locale latched =
  fixes ok :: "'s \<Rightarrow> bool" and err :: "'s \<Rightarrow> bool" and stray :: "'s \<Rightarrow> bool"
    and step :: "'o \<Rightarrow> 's \<Rightarrow> 's" and valid :: "'o \<Rightarrow> bool"
  assumes ok_step: "ok s \<Longrightarrow> valid x \<Longrightarrow> ok (step x s)"
    and inert: "err s \<Longrightarrow> step x s = s"
    and safe: "ok s \<Longrightarrow> \<not> stray s"
begin

lemma run_ok: "ok s \<Longrightarrow> list_all valid xs \<Longrightarrow> ok (fold step xs s)"
  by (induction xs arbitrary: s) (simp_all add: ok_step)

lemma run_safe: "ok s \<Longrightarrow> list_all valid xs \<Longrightarrow> \<not> stray (fold step xs s)"
  by (intro safe run_ok)

lemma run_inert: "err s \<Longrightarrow> fold step xs s = s"
  by (induction xs) (simp_all add: inert)

lemma validate_once: "\<not> err (fold step (xs @ ys) s) \<Longrightarrow> \<not> err (fold step xs s)"
  by (auto simp: run_inert)

end

datatype field = F8 byte | F16 word16 | F24 nat | FB bytes
datatype shape = S8 | S16 | S24 | SB nat

fun shape_of :: "field \<Rightarrow> shape" where
  "shape_of (F8 _) = S8"
| "shape_of (F16 _) = S16"
| "shape_of (F24 _) = S24"
| "shape_of (FB bs) = SB (length bs)"

fun enc_field :: "field \<Rightarrow> bytes" where
  "enc_field (F8 v) = [v]"
| "enc_field (F16 v) = be16 v"
| "enc_field (F24 n) = be24 n"
| "enc_field (FB bs) = bs"

fun valid_field :: "field \<Rightarrow> bool" where
  "valid_field (F24 n) = (n < 16777216)"
| "valid_field (FB bs) = (length bs < 2147483648)"
| "valid_field _ = True"

fun valid_shape :: "shape \<Rightarrow> bool" where
  "valid_shape (SB n) = (n < 2147483648)"
| "valid_shape _ = True"

fun write_field :: "field \<Rightarrow> writer \<Rightarrow> writer" where
  "write_field (F8 v) w = wn_Write_U8 v w"
| "write_field (F16 v) w = wn_Write_U16 v w"
| "write_field (F24 n) w = wn_Write_U24 (of_nat n) w"
| "write_field (FB bs) w = wn_Write_Bytes (Some bs) (length bs) w"

fun read_field :: "shape \<Rightarrow> reader \<Rightarrow> field \<times> reader" where
  "read_field S8 r = (case wn_Read_U8 r of (v, r') \<Rightarrow> (F8 v, r'))"
| "read_field S16 r = (case wn_Read_U16 r of (v, r') \<Rightarrow> (F16 v, r'))"
| "read_field S24 r = (case wn_Read_U24 r of (v, r') \<Rightarrow> (F24 v, r'))"
| "read_field (SB n) r =
     (case wn_Read_Bytes n r of (p, r') \<Rightarrow>
        (FB (case p of None \<Rightarrow> [] | Some off \<Rightarrow> slice off n (rbuf r)), r'))"

fun read_fields :: "shape list \<Rightarrow> reader \<Rightarrow> field list \<times> reader" where
  "read_fields [] r = ([], r)"
| "read_fields (s # ss) r =
     (case read_field s r of (v, r') \<Rightarrow>
        (case read_fields ss r' of (vs, r'') \<Rightarrow> (v # vs, r'')))"

lemma unat_of_nat_24: "n < 16777216 \<Longrightarrow> unat (of_nat n :: 32 word) = n"
  by (simp add: unat_of_nat)

lemma write_field_wwrite: "wok w \<Longrightarrow> valid_field f \<Longrightarrow> write_field f w = wwrite (enc_field f) w"
  by (cases f) (simp_all add: U8_wwrite U16_wwrite U24_wwrite Bytes_wwrite unat_of_nat_24)

lemma emits_field: "valid_field f \<Longrightarrow> emits (write_field f) (enc_field f)"
  by (rule emits_wwrite) (rule write_field_wwrite)

lemma write_field_inert: "werr w \<Longrightarrow> write_field f w = w"
  by (cases f) (simp_all add: wn_Write_U8_def wn_Write_U16_def wn_Write_U24_def wn_Write_Bytes_def)

lemma read_field_inert: "rerr r \<Longrightarrow> snd (read_field s r) = r"
  by (cases s) (simp_all add: read_latched)

lemma read_field_rok: "rok r \<Longrightarrow> valid_shape s \<Longrightarrow> rok (snd (read_field s r))"
  by (cases s) (auto split: prod.splits dest: rok_read)

lemma rok_safe: "rok r \<Longrightarrow> \<not> roob r"
  by (simp add: rok_def)

interpretation wdev: latched wok werr woob write_field valid_field
  by unfold_locales
     (simp_all add: emitsD(1) [OF emits_field] write_field_inert wok_safe)

interpretation rdev: latched rok rerr roob "\<lambda>s r. snd (read_field s r)" valid_shape
  by unfold_locales (simp_all add: read_field_rok read_field_inert rok_safe)

lemma emits_fields:
  "list_all valid_field fs \<Longrightarrow> emits (fold write_field fs) (concat (map enc_field fs))"
proof (induction fs)
  case Nil
  then show ?case by (simp add: id_def emits_id)
next
  case (Cons f fs)
  then show ?case
    using emits_comp [OF emits_field [of f], of "fold write_field fs"] by (simp add: comp_def)
qed

lemma read_field_rz:
  assumes "valid_field f" "length pre + length (enc_field f) + length post < 2147483648"
  shows "read_field (shape_of f) (rz pre (enc_field f @ post)) = (f, rz (pre @ enc_field f) post)"
  using assms by (cases f) (simp_all add: rz_U8 rz_be16 rz_be24 rz_Bytes slice_def)

lemma read_fields_rz:
  assumes "list_all valid_field fs"
    and "length pre + length (concat (map enc_field fs)) + length post < 2147483648"
  shows "read_fields (map shape_of fs) (rz pre (concat (map enc_field fs) @ post))
         = (fs, rz (pre @ concat (map enc_field fs)) post)"
  using assms
proof (induction fs arbitrary: pre)
  case Nil
  then show ?case by simp
next
  case (Cons f fs)
  then show ?case by (simp add: read_field_rz)
qed

subsection \<open>Properties\<close>

text \<open>C23. Any sequence of writes into a buffer below 2 GB stays inside it: no store leaves the
  buffer, the length never passes the capacity, and what is written is exactly the
  concatenation of the encoded fields, or the error latched because they do not fit.\<close>

theorem writer_run_refines:
  assumes "cap \<le> length buf" "cap < 2147483648" "list_all valid_field fs"
  shows "let w = fold write_field fs (wn_Writer_Init buf cap); bs = concat (map enc_field fs) in
         \<not> woob w \<and> wlen w \<le> cap \<and>
         (if length bs \<le> cap then \<not> werr w \<and> take (wlen w) (wbuf w) = bs else werr w)"
proof -
  let ?w = "fold write_field fs (wn_Writer_Init buf cap)"
  have ok: "wok (wn_Writer_Init buf cap)"
    using assms by (simp add: wok_Init)
  have cap: "wcap (wn_Writer_Init buf cap) = cap"
    by (simp add: wn_Writer_Init_def)
  have "\<not> woob ?w" using wdev.run_safe [OF ok assms(3)] .
  moreover have "wlen ?w \<le> cap"
    using emitsD(1,2) [OF emits_fields [OF assms(3)] ok] cap by (simp add: wok_def)
  moreover have "wabs ?w = aput cap (Some []) (concat (map enc_field fs))"
    using emitsD(3) [OF emits_fields [OF assms(3)] ok] cap by (simp add: wabs_Init)
  ultimately show ?thesis
    by (auto simp: Let_def wabs_def split: if_splits)
qed

theorem writer_run_refines_witness:
  "let w = fold write_field [F8 3, F16 0x0304, FB [1, 2]] (wn_Writer_Init [0, 0, 0, 0, 0, 0] 6);
       bs = concat (map enc_field [F8 3, F16 0x0304, FB [1, 2]]) in
   \<not> woob w \<and> wlen w \<le> 6 \<and> (if length bs \<le> 6 then \<not> werr w \<and> take (wlen w) (wbuf w) = bs else werr w)"
  by (rule writer_run_refines) simp_all

text \<open>A length-prefixed vector: on a writer with room, reserving \<open>k\<close> length bytes, writing
  a body and backfilling leaves exactly the big-endian body length followed by the body.\<close>

theorem vector_backfilled:
  assumes "wok w" "emits body bs" "wabs w = Some xs" "length xs + k + length bs \<le> wcap w"
  shows "(case wn_Write_LenStart k w of (off, w') \<Rightarrow> wabs (wn_Write_LenEnd off k (body w')))
         = Some (xs @ be_len k (length bs) @ bs)"
  using emitsD(3) [OF emits_vector [OF assms(2), of k] assms(1)] assms(3,4)
  by (simp add: case_prod_unfold)

theorem vector_backfilled_witness:
  "(case wn_Write_LenStart 2 (wn_Writer_Init [0, 0, 0, 0] 4) of (off, w') \<Rightarrow>
      wabs (wn_Write_LenEnd off 2 (wn_Write_U8 7 w'))) = Some ([] @ be_len 2 (length [7 :: byte]) @ [7])"
  by (rule vector_backfilled) (auto simp: wok_def wabs_def wn_Writer_Init_def)

text \<open>C24. Round trip: reading a written message back by the shapes of its fields returns the
  fields, consumes the whole message and leaves the error clear.\<close>

theorem write_read_roundtrip:
  assumes "list_all valid_field fs" "cap \<le> length buf" "cap < 2147483648"
    and "w = fold write_field fs (wn_Writer_Init buf cap)" "\<not> werr w"
  shows "\<exists>r. read_fields (map shape_of fs) (wn_Reader_Init (take (wlen w) (wbuf w)) (wlen w)) = (fs, r)
             \<and> \<not> rerr r \<and> rpos r = rlen r \<and> \<not> roob r"
proof -
  have ok: "wok (wn_Writer_Init buf cap)"
    using assms by (simp add: wok_Init)
  note e = emitsD [OF emits_fields [OF assms(1)] ok, folded assms(4)]
  have ab: "wabs w = Some (concat (map enc_field fs))"
    using e(3) assms(5) wabs_None [of w]
    by (auto simp: wabs_Init aput_def split: option.splits if_splits)
  have len: "wlen w = length (concat (map enc_field fs))"
    and msg: "take (wlen w) (wbuf w) = concat (map enc_field fs)"
    using wabs_SomeD [OF e(1) ab] by simp_all
  have small: "length (concat (map enc_field fs)) < 2147483648"
    using e(1,2) assms(3) len by (simp add: wok_def wn_Writer_Init_def)
  show ?thesis
    unfolding msg
    using read_fields_rz [OF assms(1), of "[]" "[]"] small by (simp add: Init_rz len)
qed

theorem write_read_roundtrip_witness:
  "\<exists>r. read_fields (map shape_of [F24 70000, FB [9]])
         (wn_Reader_Init (take 4 [1, 17, 112, 9]) 4) = ([F24 70000, FB [9]], r)
       \<and> \<not> rerr r \<and> rpos r = rlen r \<and> \<not> roob r"
proof -
  have "fold write_field [F24 70000, FB [9]] (wn_Writer_Init [0, 0, 0, 0] 4)
      = \<lparr>wbuf = [1, 17, 112, 9], wcap = 4, wlen = 4, werr = False, woob = False\<rparr>"
    by (simp add: wn_Writer_Init_def wn_Write_U24_def put_byte_def wn_Write_Bytes_def put_bytes_def
        mem_put_def)
  then show ?thesis
    using write_read_roundtrip [of "[F24 70000, FB [9]]" 4 "[0, 0, 0, 0]"] by simp
qed

text \<open>The latch hides nothing: a run of reads that ends with the error clear had it clear
  after every prefix, and no read of a run strayed outside the buffer.\<close>

theorem reader_validate_once:
  assumes "n \<le> length buf" "n < 2147483648" "list_all valid_shape (ss @ ts)"
    and "\<not> rerr (fold (\<lambda>s r. snd (read_field s r)) (ss @ ts) (wn_Reader_Init buf n))"
  shows "\<not> rerr (fold (\<lambda>s r. snd (read_field s r)) ss (wn_Reader_Init buf n)) \<and>
         \<not> roob (fold (\<lambda>s r. snd (read_field s r)) (ss @ ts) (wn_Reader_Init buf n))"
  using rdev.validate_once [OF assms(4)] rdev.run_safe [OF rok_Init [OF assms(1,2)] assms(3)] by blast

theorem reader_validate_once_witness:
  "\<not> rerr (fold (\<lambda>s r. snd (read_field s r)) [S8] (wn_Reader_Init [1, 2, 3] 3)) \<and>
   \<not> roob (fold (\<lambda>s r. snd (read_field s r)) ([S8] @ [S16]) (wn_Reader_Init [1, 2, 3] 3))"
  by (rule reader_validate_once) (simp_all add: Init_rz rz_U8 rz_U16)

text \<open>The bounds check is a 32-bit sum: a requested length close to \<open>2^32\<close> wraps past it, and
  the reader then returns a pointer with a range outside the buffer and moves backwards.
  No caller passes such a length, every one of them comes from an 8-, 16- or 24-bit field.\<close>

theorem read_bytes_wraps:
  "let (_, r1) = wn_Read_U16 (wn_Reader_Init [1, 2, 3] 3); (p, r) = wn_Read_Bytes 0xFFFFFFFF r1 in
   p = Some 2 \<and> rpos r = 1 \<and> \<not> rerr r \<and> roob r"
  by (simp add: read_defs wn_Reader_Init_def touch_def u32_def)

end
