(* ===== verification/Errors.thy ===== *)
theory Errors
  imports Prelude
begin

section \<open>Return codes, their strings and their alerts (wn_error.c, wn_alert.h)\<close>

text \<open>
  The total functions over C \<open>int\<close> that turn a return code into a log string and into a
  TLS 1.3 alert description. The codes themselves are \<open>wn_err\<close> and \<open>err_code\<close> of the
  prelude.
\<close>

definition wn_ErrorToString :: "int \<Rightarrow> string" where
  "wn_ErrorToString err =
     (if err = WOLFNANO_SUCCESS then ''success''
      else if err = err_code E_INVALID_ARG then ''invalid argument''
      else if err = err_code E_CRYPTO then ''crypto operation failed''
      else if err = err_code E_UNSUPPORTED then ''unsupported''
      else if err = err_code E_BAD_STATE then ''bad handshake state''
      else if err = err_code E_UNEXPECTED_MSG then ''unexpected message''
      else if err = err_code E_DECODE then ''malformed message''
      else if err = err_code E_BAD_MAC then ''authentication failure''
      else if err = err_code E_ILLEGAL_PARAM then ''illegal parameter''
      else if err = err_code E_BAD_CERT then ''certificate failure''
      else if err = err_code E_CLOSED then ''connection closed''
      else if err = err_code E_X509_DECODE then ''malformed x509 certificate''
      else if err = err_code E_X509_CRITEXT then ''unhandled critical extension''
      else ''unknown error'')"

definition wn_ErrToAlert :: "int \<Rightarrow> byte" where
  "wn_ErrToAlert ret =
     (if ret = err_code E_UNEXPECTED_MSG then 10
      else if ret = err_code E_BAD_MAC then 20
      else if ret = err_code E_DECODE then 50
      else if ret = err_code E_ILLEGAL_PARAM then 47
      else if ret = err_code E_BAD_CERT then 42
      else 80)"

text \<open>A result as the C return value.\<close>

definition ret_code :: "wn_err + 'a \<Rightarrow> int" where
  "ret_code m = (case m of Inl e \<Rightarrow> err_code e | Inr _ \<Rightarrow> WOLFNANO_SUCCESS)"

lemma ret_code_success: "ret_code m = WOLFNANO_SUCCESS \<longleftrightarrow> is_ok m"
  using err_code_neg by (cases m) (auto simp: ret_code_def less_le)

text \<open>The codes of \<open>wolfnano.h\<close>, success included.\<close>

definition wn_codes :: "int set" where
  "wn_codes = insert WOLFNANO_SUCCESS (err_code ` {e. e \<noteq> Oob})"

lemma wn_err_UNIV:
  "{e. e \<noteq> Oob} = {E_INVALID_ARG, E_CRYPTO, E_UNSUPPORTED, E_BAD_STATE, E_UNEXPECTED_MSG, E_DECODE,
     E_BAD_MAC, E_ILLEGAL_PARAM, E_BAD_CERT, E_CLOSED, E_X509_DECODE, E_X509_CRITEXT}"
  using wn_err.exhaust by auto

lemma wn_codes_eq: "wn_codes = {0, -1, -2, -3, -4, -5, -6, -7, -8, -9, -10, -11, -12}"
  by (simp add: wn_codes_def wn_err_UNIV WOLFNANO_SUCCESS_def insert_commute)

lemma wn_ErrorToString_unknown: "c \<notin> wn_codes \<Longrightarrow> wn_ErrorToString c = ''unknown error''"
  by (simp add: wn_codes_eq wn_ErrorToString_def WOLFNANO_SUCCESS_def)

lemma wn_ErrorToString_inj: "inj_on wn_ErrorToString wn_codes"
  unfolding wn_codes_eq
  by (simp add: inj_on_def wn_ErrorToString_def WOLFNANO_SUCCESS_def)

text \<open>Diagnostics never confuse two outcomes: two integers have the same string only if they
  are equal or neither is a return code of the library.\<close>

theorem error_strings_distinct:
  "wn_ErrorToString c = wn_ErrorToString d \<longleftrightarrow> c = d \<or> (c \<notin> wn_codes \<and> d \<notin> wn_codes)"
proof -
  have known: "x \<in> wn_codes \<Longrightarrow> wn_ErrorToString x \<noteq> ''unknown error''" for x
    by (auto simp: wn_codes_eq wn_ErrorToString_def WOLFNANO_SUCCESS_def)
  show ?thesis
    using wn_ErrorToString_inj [THEN inj_onD, of c d] wn_ErrorToString_unknown [of c]
      wn_ErrorToString_unknown [of d] known [of c] known [of d]
    by (cases "c \<in> wn_codes"; cases "d \<in> wn_codes") auto
qed

end
