(* ===== verification/Flight.thy ===== *)
theory Flight
  imports Prelude
begin

section \<open>The server-flight ordering gate (wn_flight.h)\<close>

text \<open>
  The three flags of the gate, its transition function on one handshake message type, the
  run of the gate over a flight, and the language it accepts. The flags are updated on the
  error branches as well, as in the code.
\<close>

record flight =
  gotEE :: bool
  gotCert :: bool
  gotCv :: bool

definition flight_init :: flight where
  "flight_init = \<lparr>gotEE = False, gotCert = False, gotCv = False\<rparr>"

definition wn_FlightOrder :: "byte \<Rightarrow> flight \<Rightarrow> (wn_err + unit) \<times> flight" where
  "wn_FlightOrder mType f =
     (if mType = 8 then
        (guardE (\<not> gotEE f) E_UNEXPECTED_MSG, f\<lparr>gotEE := True\<rparr>)
      else if mType = 13 then (Inl E_UNSUPPORTED, f)
      else if mType = 11 then
        (guardE (gotEE f \<and> \<not> gotCert f) E_UNEXPECTED_MSG, f\<lparr>gotCert := True\<rparr>)
      else if mType = 15 then
        (guardE (gotCert f \<and> \<not> gotCv f) E_UNEXPECTED_MSG, f\<lparr>gotCv := True\<rparr>)
      else if mType = 20 then
        (guardE (gotCv f) E_UNEXPECTED_MSG, f)
      else (Inl E_UNEXPECTED_MSG, f))"

text \<open>The driver's loop over a flight stops at the first error.\<close>

fun flight_run :: "byte list \<Rightarrow> flight \<Rightarrow> (wn_err + unit) \<times> flight" where
  "flight_run [] f = (Inr (), f)"
| "flight_run (m # ms) f =
     (case wn_FlightOrder m f of
        (Inl e, f') \<Rightarrow> (Inl e, f')
      | (Inr _, f') \<Rightarrow> flight_run ms f')"

subsection \<open>Gates that follow a script\<close>

text \<open>
  A gate with a script accepts its messages one by one, in order, and afterwards any number
  of repetitions of the final message.
\<close>

locale script_gate =
  fixes step :: "'m \<Rightarrow> 's \<Rightarrow> 's option"
    and inv :: "'s \<Rightarrow> bool" and pos :: "'s \<Rightarrow> nat"
    and script :: "'m list" and final :: 'm
  assumes inv_step: "inv s \<Longrightarrow> step m s = Some s' \<Longrightarrow> inv s'"
    and pos_le: "inv s \<Longrightarrow> pos s \<le> length script"
    and step_next: "inv s \<Longrightarrow> pos s < length script \<Longrightarrow>
        \<exists>s'. step (script ! pos s) s = Some s' \<and> pos s' = Suc (pos s)"
    and step_final: "inv s \<Longrightarrow> pos s = length script \<Longrightarrow> step final s = Some s"
    and step_next_only: "inv s \<Longrightarrow> pos s < length script \<Longrightarrow> step m s = Some s' \<Longrightarrow> m = script ! pos s"
    and step_final_only: "inv s \<Longrightarrow> pos s = length script \<Longrightarrow> step m s = Some s' \<Longrightarrow> m = final \<and> s' = s"
begin

fun run :: "'m list \<Rightarrow> 's \<Rightarrow> 's option" where
  "run [] s = Some s"
| "run (m # ms) s = (case step m s of None \<Rightarrow> None | Some s' \<Rightarrow> run ms s')"

lemma step_pos: "inv s \<Longrightarrow> pos s < length script \<Longrightarrow> step m s = Some s' \<Longrightarrow> pos s' = Suc (pos s)"
  using step_next step_next_only by force

lemma run_sound:
  "inv s \<Longrightarrow> run ms s = Some s' \<Longrightarrow>
   inv s' \<and> pos s \<le> pos s' \<and>
   (\<exists>n. ms = drop (pos s) (take (pos s') script) @ replicate n final \<and> (n = 0 \<or> pos s' = length script))"
proof (induction ms arbitrary: s)
  case Nil
  then show ?case by auto
next
  case (Cons m ms)
  then obtain t where t: "step m s = Some t" "run ms t = Some s'"
    by (auto split: option.splits)
  have "inv t" using inv_step Cons.prems t by blast
  from Cons.IH [OF this t(2)] obtain n where IH: "inv s'" "pos t \<le> pos s'"
    "ms = drop (pos t) (take (pos s') script) @ replicate n final" "n = 0 \<or> pos s' = length script"
    by blast
  show ?case
  proof (cases "pos s < length script")
    case True
    have st: "pos t = Suc (pos s)" "m = script ! pos s"
      using step_pos step_next_only True t(1) Cons.prems(1) by blast+
    have "pos s < length (take (pos s') script)"
      using True IH(2) st by simp
    then have "m # drop (Suc (pos s)) (take (pos s') script) = drop (pos s) (take (pos s') script)"
      using IH(2) st by (simp flip: Cons_nth_drop_Suc)
    then have "m # ms = drop (pos s) (take (pos s') script) @ replicate n final"
      using IH(3) st by simp
    then show ?thesis
      using IH(1,2,4) st(1) by (intro conjI exI [of _ n]) simp_all
  next
    case False
    then have eq: "pos s = length script" "t = s" "m = final"
      using pos_le step_final_only t(1) Cons.prems(1) by (metis le_less)+
    have "pos s' = length script"
      using IH(2) pos_le [OF IH(1)] eq by simp
    then have "m # ms = drop (pos s) (take (pos s') script) @ replicate (Suc n) final"
      using IH(3) eq by simp
    then show ?thesis
      using IH \<open>pos s' = length script\<close> eq by blast
  qed
qed

lemma run_script:
  "inv s \<Longrightarrow> pos s \<le> k \<Longrightarrow> k \<le> length script \<Longrightarrow>
   \<exists>s'. run (drop (pos s) (take k script)) s = Some s' \<and> inv s' \<and> pos s' = k"
proof (induction "k - pos s" arbitrary: s)
  case 0
  then show ?case by auto
next
  case (Suc d)
  then have lt: "pos s < length script" "pos s < k" by auto
  obtain t where t: "step (script ! pos s) s = Some t" "pos t = Suc (pos s)"
    using step_next [OF Suc.prems(1) lt(1)] by blast
  have "drop (pos s) (take k script) = script ! pos s # drop (Suc (pos s)) (take k script)"
    using lt by (simp flip: Cons_nth_drop_Suc)
  moreover obtain u where "run (drop (pos t) (take k script)) t = Some u" "inv u" "pos u = k"
    using Suc.hyps(1) [of t] Suc.hyps(2) Suc.prems t inv_step by fastforce
  ultimately show ?case using t by simp
qed

lemma run_finals: "inv s \<Longrightarrow> pos s = length script \<Longrightarrow> run (replicate n final) s = Some s"
  by (induction n) (simp_all add: step_final)

lemma run_append: "run (xs @ ys) s = (case run xs s of None \<Rightarrow> None | Some t \<Rightarrow> run ys t)"
  by (induction xs arbitrary: s) (auto split: option.splits)

end

definition flight_step :: "byte \<Rightarrow> flight \<Rightarrow> flight option" where
  "flight_step m f = (case wn_FlightOrder m f of (Inl _, _) \<Rightarrow> None | (Inr _, f') \<Rightarrow> Some f')"

text \<open>The flags are always a prefix of EncryptedExtensions, Certificate, CertificateVerify.\<close>

definition flight_inv :: "flight \<Rightarrow> bool" where
  "flight_inv f \<longleftrightarrow> (gotCv f \<longrightarrow> gotCert f) \<and> (gotCert f \<longrightarrow> gotEE f)"

definition flight_pos :: "flight \<Rightarrow> nat" where
  "flight_pos f = of_bool (gotEE f) + of_bool (gotCert f) + of_bool (gotCv f)"

definition flight_script :: "byte list" where
  "flight_script = [8, 11, 15]"

lemmas flight_defs = flight_step_def wn_FlightOrder_def flight_inv_def flight_pos_def
  flight_script_def guardE_def

lemma flight_step_inv: "flight_inv f \<Longrightarrow> flight_step m f = Some f' \<Longrightarrow> flight_inv f'"
  by (auto simp: flight_defs split: if_splits)

interpretation fg: script_gate flight_step flight_inv flight_pos flight_script 20
proof unfold_locales
  fix f f' m
  assume inv: "flight_inv f"
  show "flight_pos f \<le> length flight_script"
    by (simp add: flight_defs)
  show "flight_step m f = Some f' \<Longrightarrow> flight_inv f'"
    using flight_step_inv inv .
  show "\<exists>s'. flight_step (flight_script ! flight_pos f) f = Some s' \<and> flight_pos s' = Suc (flight_pos f)"
    if "flight_pos f < length flight_script"
    using that inv by (cases "gotEE f"; cases "gotCert f"; cases "gotCv f") (auto simp: flight_defs)
  show "flight_step 20 f = Some f" if "flight_pos f = length flight_script"
    using that inv by (cases "gotEE f"; cases "gotCert f"; cases "gotCv f") (auto simp: flight_defs)
  show "m = flight_script ! flight_pos f" if "flight_pos f < length flight_script" "flight_step m f = Some f'"
    using that inv by (cases "gotEE f"; cases "gotCert f"; cases "gotCv f")
      (auto simp: flight_defs split: if_splits)
  show "m = 20 \<and> f' = f" if "flight_pos f = length flight_script" "flight_step m f = Some f'"
    using that inv by (cases "gotEE f"; cases "gotCert f"; cases "gotCv f")
      (auto simp: flight_defs split: if_splits)
qed

lemma flight_run_ok: "is_ok (fst (flight_run ms f)) \<longleftrightarrow> (\<exists>f'. fg.run ms f = Some f')"
  by (induction ms arbitrary: f) (auto simp: flight_step_def split: prod.splits sum.splits)

lemma flight_accepts:
  "is_ok (fst (flight_run ms flight_init)) \<longleftrightarrow>
   (\<exists>k. ms = take k [8, 11, 15]) \<or> (\<exists>n. ms = [8, 11, 15] @ replicate n 20)"
proof
  have i: "flight_inv flight_init" "flight_pos flight_init = 0"
    by (simp_all add: flight_init_def flight_defs)
  show "(\<exists>k. ms = take k [8, 11, 15]) \<or> (\<exists>n. ms = [8, 11, 15] @ replicate n 20)"
    if "is_ok (fst (flight_run ms flight_init))"
  proof -
    from that obtain f' where "fg.run ms flight_init = Some f'"
      by (auto simp: flight_run_ok)
    from fg.run_sound [OF i(1) this] obtain n where
      "ms = drop 0 (take (flight_pos f') [8, 11, 15]) @ replicate n 20"
      "n = 0 \<or> flight_pos f' = length ([8, 11, 15] :: byte list)"
      using i(2) by (auto simp: flight_script_def)
    then show ?thesis
      by (cases "n = 0") auto
  qed
  show "(\<exists>k. ms = take k [8, 11, 15]) \<or> (\<exists>n. ms = [8, 11, 15] @ replicate n 20) \<Longrightarrow>
      is_ok (fst (flight_run ms flight_init))"
  proof (elim disjE exE)
    fix k assume ms: "ms = take k [8, 11, 15]"
    define k' where "k' = min k 3"
    have k': "k' \<le> 3" by (simp add: k'_def)
    have "ms = drop 0 (take k' flight_script)"
      by (cases "k \<le> 3") (simp_all add: ms flight_script_def k'_def min_def)
    then show ?thesis
      using fg.run_script [OF i(1), of k'] i k' by (auto simp: flight_run_ok flight_script_def)
  next
    fix n assume ms: "ms = [8, 11, 15] @ replicate n 20"
    obtain f where "fg.run [8, 11, 15] flight_init = Some f" "flight_inv f" "flight_pos f = 3"
      using fg.run_script [OF i(1), of 3] i by (auto simp: flight_script_def)
    then have "fg.run ms flight_init = Some f"
      using fg.run_finals [of f n] unfolding ms fg.run_append by (simp add: flight_script_def)
    then show ?thesis
      unfolding flight_run_ok by blast
  qed
qed

text \<open>C15. The gate accepts a sequence of messages exactly when it is a prefix of EncryptedExtensions (8),
  Certificate (11), CertificateVerify (15), or all three followed only by Finished (20), any number of
  times: nothing may be skipped, repeated or reordered before Finished. The driver stops at the first
  Finished; a flight that ends there is accepted exactly when it is these four messages in order.\<close>

theorem flight_language:
  "(is_ok (fst (flight_run ms flight_init)) \<longleftrightarrow>
     (\<exists>k. ms = take k [8, 11, 15]) \<or> (\<exists>n. ms = [8, 11, 15] @ replicate n 20)) \<and>
   (is_ok (fst (flight_run (ms @ [20]) flight_init)) \<and> 20 \<notin> set ms \<longleftrightarrow> ms = [8, 11, 15])"
proof
  show "is_ok (fst (flight_run (ms @ [20]) flight_init)) \<and> 20 \<notin> set ms \<longleftrightarrow> ms = [8, 11, 15]"
  proof
    assume a: "is_ok (fst (flight_run (ms @ [20]) flight_init)) \<and> 20 \<notin> set ms"
    have "ms @ [20] \<noteq> take k [8, 11, 15]" for k
    proof
      assume "ms @ [20] = take k [8, 11, 15]"
      then have "20 \<in> set (take k [8, 11, 15 :: byte])" by (metis in_set_conv_decomp)
      then show False using set_take_subset [of k "[8, 11, 15 :: byte]"] by auto
    qed
    then obtain n where n: "ms @ [20] = [8, 11, 15] @ replicate n 20" using a unfolding flight_accepts by blast
    show "ms = [8, 11, 15]"
    proof (cases n)
      case 0
      then have "last (ms @ [20]) = last [8, 11, 15 :: byte]" using n by simp
      then show ?thesis by simp
    next
      case (Suc m)
      then have "ms @ [20] = ([8, 11, 15] @ replicate m 20) @ [20]" using n by (simp flip: replicate_append_same)
      then have ms: "ms = [8, 11, 15] @ replicate m 20" by blast
      then show ?thesis using a by (cases m) auto
    qed
  next
    assume ms: "ms = [8, 11, 15]"
    have "ms @ [20] = [8, 11, 15] @ replicate 1 20" by (simp add: ms)
    then have "is_ok (fst (flight_run (ms @ [20]) flight_init))" unfolding flight_accepts by blast
    then show "is_ok (fst (flight_run (ms @ [20]) flight_init)) \<and> 20 \<notin> set ms" by (simp add: ms)
  qed
qed (rule flight_accepts)

text \<open>Client authentication is refused wherever it is asked for: CertificateRequest is an
  \<open>E_UNSUPPORTED\<close> error in every state of the gate and leaves the flags alone.\<close>

theorem flight_no_client_auth: "wn_FlightOrder 13 f = (Inl E_UNSUPPORTED, f)"
  by (simp add: wn_FlightOrder_def)

end
