(* ===== verification/Crypto.thy ===== *)
theory Crypto
  imports Prelude
begin

section \<open>The provider seam (wolfnano_crypto.h)\<close>

text \<open>
  The shell reaches cryptography only through wolfCrypt's \<open>wc_*\<close> functions, which are not
  part of the repository. They are a record of functions, a parameter of every definition
  that calls one: each returns the C status and what it wrote. Provider objects (a hash, an
  HMAC or an AES context) are the abstract type \<open>'x\<close>. What the proofs rely on are the
  named predicates at the end, which state the documented behaviour of those functions.

  The digest argument is one of wolfCrypt's two identifiers or any other integer;
  \<open>have_sha384\<close> is the build switch \<^verbatim>\<open>WOLFSSL_SHA384\<close>.
\<close>

datatype wc_digest = WC_SHA256 | WC_SHA384 | WC_OTHER int

record 'x crypto =
  have_sha384 :: bool
  wc_InitSha256 :: "int \<times> 'x"
  wc_Sha256Update :: "'x \<Rightarrow> bytes \<Rightarrow> int \<times> 'x"
  wc_Sha256GetHash :: "'x \<Rightarrow> int \<times> bytes"
  wc_Sha256Hash :: "bytes \<Rightarrow> int \<times> bytes"
  wc_InitSha384 :: "int \<times> 'x"
  wc_Sha384Update :: "'x \<Rightarrow> bytes \<Rightarrow> int \<times> 'x"
  wc_Sha384GetHash :: "'x \<Rightarrow> int \<times> bytes"
  wc_Tls13_HKDF_Extract :: "bytes \<Rightarrow> bytes \<Rightarrow> wc_digest \<Rightarrow> int \<times> bytes"
  wc_Tls13_HKDF_Expand_Label ::
    "nat \<Rightarrow> bytes \<Rightarrow> bytes \<Rightarrow> bytes \<Rightarrow> bytes \<Rightarrow> wc_digest \<Rightarrow> int \<times> bytes"
  wc_HmacInit :: "int \<times> 'x"
  wc_HmacSetKey :: "'x \<Rightarrow> wc_digest \<Rightarrow> bytes \<Rightarrow> int \<times> 'x"
  wc_HmacUpdate :: "'x \<Rightarrow> bytes \<Rightarrow> int \<times> 'x"
  wc_HmacFinal :: "'x \<Rightarrow> int \<times> bytes"
  wc_AesInit :: "int \<times> 'x"
  wc_AesGcmSetKey :: "'x \<Rightarrow> bytes \<Rightarrow> int \<times> 'x"
  wc_AesGcmEncrypt :: "'x \<Rightarrow> bytes \<Rightarrow> bytes \<Rightarrow> nat \<Rightarrow> bytes \<Rightarrow> int \<times> bytes \<times> bytes"
  wc_AesGcmDecrypt :: "'x \<Rightarrow> bytes \<Rightarrow> bytes \<Rightarrow> bytes \<Rightarrow> bytes \<Rightarrow> int \<times> bytes"

text \<open>
  A C string literal as its bytes, and the transport callbacks: \<open>recv\<close> is asked for \<open>n\<close>
  bytes and yields \<open>None\<close> for a negative result or the bytes it stored (an empty list is the
  result 0), \<open>send\<close> yields the C result. Both move the world \<open>'w\<close> behind \<open>ctx\<close>.
\<close>

definition cstr :: "string \<Rightarrow> bytes" where
  "cstr s = map of_char s"

type_synonym 'w io_recv = "'w \<Rightarrow> nat \<Rightarrow> bytes option \<times> 'w"
type_synonym 'w io_send = "'w \<Rightarrow> bytes \<Rightarrow> int \<times> 'w"

subsection \<open>Documented behaviour of the provider\<close>

text \<open>The functions that write a buffer of a known size write exactly that many bytes.\<close>

definition kdf_ok :: "'x crypto \<Rightarrow> bool" where
  "kdf_ok C \<longleftrightarrow>
     (\<forall>salt ikm. fst (wc_Tls13_HKDF_Extract C salt ikm WC_SHA256) = 0 \<and>
                length (snd (wc_Tls13_HKDF_Extract C salt ikm WC_SHA256)) = 32) \<and>
     (\<forall>n secret p l info. fst (wc_Tls13_HKDF_Expand_Label C n secret p l info WC_SHA256) = 0 \<and>
                length (snd (wc_Tls13_HKDF_Expand_Label C n secret p l info WC_SHA256)) = n)"

text \<open>
  AES-GCM on 16-byte keys: the ciphertext has the plaintext's length, the tag the length
  asked for, and decrypting what was encrypted under the same key, nonce and additional
  data gives the plaintext back. Decryption never stores more than the ciphertext's
  length, and exactly that much when it succeeds.
\<close>

definition aead_ok :: "'x crypto \<Rightarrow> bool" where
  "aead_ok C \<longleftrightarrow> fst (wc_AesInit C) = 0 \<and>
     (\<forall>x key. length key = 16 \<longrightarrow> fst (wc_AesGcmSetKey C x key) = 0) \<and>
     (\<forall>x ct nonce tag aad. length (snd (wc_AesGcmDecrypt C x ct nonce tag aad)) \<le> length ct \<and>
        (fst (wc_AesGcmDecrypt C x ct nonce tag aad) = 0 \<longrightarrow>
           length (snd (wc_AesGcmDecrypt C x ct nonce tag aad)) = length ct)) \<and>
     (\<forall>x x' key pt nonce aad. length key = 16 \<longrightarrow> length nonce = 12 \<longrightarrow>
        (case wc_AesGcmEncrypt C (snd (wc_AesGcmSetKey C x key)) pt nonce 16 aad of
           (rc, ct, tag) \<Rightarrow> rc = 0 \<and> length ct = length pt \<and> length tag = 16 \<and>
             wc_AesGcmDecrypt C (snd (wc_AesGcmSetKey C x' key)) ct nonce tag aad = (0, pt)))"

text \<open>
  The incremental SHA-256: an invariant \<open>R x m\<close>, the context \<open>x\<close> has absorbed \<open>m\<close>, such
  that initialising, updating and reading the hash behave as the one-shot function \<open>H\<close>.
\<close>

definition sha256_ok :: "'x crypto \<Rightarrow> (bytes \<Rightarrow> bytes) \<Rightarrow> ('x \<Rightarrow> bytes \<Rightarrow> bool) \<Rightarrow> bool" where
  "sha256_ok C H R \<longleftrightarrow> (\<forall>m. length (H m) = 32 \<and> wc_Sha256Hash C m = (0, H m)) \<and>
     fst (wc_InitSha256 C) = 0 \<and> R (snd (wc_InitSha256 C)) [] \<and>
     (\<forall>x m b. R x m \<longrightarrow> fst (wc_Sha256Update C x b) = 0 \<and> R (snd (wc_Sha256Update C x b)) (m @ b)) \<and>
     (\<forall>x m. R x m \<longrightarrow> wc_Sha256GetHash C x = (0, H m))"

text \<open>HMAC-SHA256 in three calls is the one-shot function \<open>M\<close>.\<close>

definition hmac_ok :: "'x crypto \<Rightarrow> (bytes \<Rightarrow> bytes \<Rightarrow> bytes) \<Rightarrow> bool" where
  "hmac_ok C M \<longleftrightarrow> fst (wc_HmacInit C) = 0 \<and> (\<forall>k m. length (M k m) = 32) \<and>
     (\<forall>x k m. case wc_HmacSetKey C x WC_SHA256 k of (r1, x1) \<Rightarrow> r1 = 0 \<and>
        (case wc_HmacUpdate C x1 m of (r2, x2) \<Rightarrow> r2 = 0 \<and> wc_HmacFinal C x2 = (0, M k m)))"

subsection \<open>A concrete provider\<close>

text \<open>
  A provider for the witnesses: it satisfies every predicate above and evaluates. Its
  context is a list of bytes; it offers no secrecy, only the documented equations.
\<close>

definition fit :: "nat \<Rightarrow> bytes \<Rightarrow> bytes" where
  "fit n bs = take n (bs @ replicate n 0)"

definition toy_mix :: "byte \<Rightarrow> bytes \<Rightarrow> bytes" where
  "toy_mix k bs = map (\<lambda>b. b XOR k) bs"

definition toy_hash :: "bytes \<Rightarrow> bytes" where
  "toy_hash m = fit 32 (of_nat (length m) # m)"

definition toy_provider :: "bytes crypto" where
  "toy_provider = \<lparr>
     have_sha384 = False,
     wc_InitSha256 = (0, []),
     wc_Sha256Update = (\<lambda>x b. (0, x @ b)),
     wc_Sha256GetHash = (\<lambda>x. (0, toy_hash x)),
     wc_Sha256Hash = (\<lambda>m. (0, toy_hash m)),
     wc_InitSha384 = (0, []),
     wc_Sha384Update = (\<lambda>x b. (0, x @ b)),
     wc_Sha384GetHash = (\<lambda>x. (0, fit 48 x)),
     wc_Tls13_HKDF_Extract = (\<lambda>salt ikm d. (0, toy_hash (take 4 salt @ ikm))),
     wc_Tls13_HKDF_Expand_Label = (\<lambda>n secret p l info d. (0, fit n (take 1 l @ take 2 info @ secret))),
     wc_HmacInit = (0, []),
     wc_HmacSetKey = (\<lambda>x d k. (0, k)),
     wc_HmacUpdate = (\<lambda>x b. (0, b @ x)),
     wc_HmacFinal = (\<lambda>x. (0, toy_hash x)),
     wc_AesInit = (0, []),
     wc_AesGcmSetKey = (\<lambda>x k. (if length k = 16 then 0 else -173, k)),
     wc_AesGcmEncrypt = (\<lambda>x pt nonce n aad. (0, toy_mix (hd (x @ [1])) pt, fit n (nonce @ x))),
     wc_AesGcmDecrypt = (\<lambda>x ct nonce tag aad.
        if tag = fit (length tag) (nonce @ x) then (0, toy_mix (hd (x @ [1])) ct) else (-180, []))\<rparr>"

lemma length_fit [simp]: "length (fit n bs) = n"
  by (simp add: fit_def)

lemma length_toy_mix [simp]: "length (toy_mix k bs) = length bs"
  by (simp add: toy_mix_def)

lemma toy_mix_mix [simp]: "toy_mix k (toy_mix k bs) = bs"
  by (induction bs) (simp_all add: toy_mix_def xor.assoc)

lemma length_toy_hash [simp]: "length (toy_hash m) = 32"
  by (simp add: toy_hash_def)

lemma toy_kdf_ok: "kdf_ok toy_provider"
  by (simp add: kdf_ok_def toy_provider_def)

lemma toy_aead_ok: "aead_ok toy_provider"
  by (simp add: aead_ok_def toy_provider_def)

lemma toy_hmac_ok: "hmac_ok toy_provider (\<lambda>k m. toy_hash (m @ k))"
  by (simp add: hmac_ok_def toy_provider_def)

lemma toy_sha256_ok: "sha256_ok toy_provider toy_hash (=)"
  by (simp add: sha256_ok_def toy_provider_def)

end
