(* ===== verification/Transcript.thy ===== *)
theory Transcript
  imports Crypto
begin

section \<open>The handshake transcript hash (wn_transcript.c)\<close>

text \<open>
  The running hash over the handshake messages. A transcript keeps the provider's context
  and its digest identifier; the functions return the C status and the new transcript.
\<close>

record 'x transcript =
  thash :: 'x
  tdigest :: wc_digest

text \<open>The status mapping shared by the operations: any provider error but \<open>E_UNSUPPORTED\<close>.\<close>

definition hash_status :: "int \<Rightarrow> int" where
  "hash_status ret = (if ret \<noteq> 0 \<and> ret \<noteq> err_code E_UNSUPPORTED then err_code E_CRYPTO else ret)"

definition wn_Transcript_Init ::
  "'x crypto \<Rightarrow> 'x transcript \<Rightarrow> wc_digest \<Rightarrow> int \<times> 'x transcript" where
  "wn_Transcript_Init C t digest =
     (let t = t\<lparr>tdigest := digest\<rparr> in
      if digest = WC_SHA256 then
        (case wc_InitSha256 C of (rc, x) \<Rightarrow> (hash_status rc, t\<lparr>thash := x\<rparr>))
      else if have_sha384 C \<and> digest = WC_SHA384 then
        (case wc_InitSha384 C of (rc, x) \<Rightarrow> (hash_status rc, t\<lparr>thash := x\<rparr>))
      else (err_code E_UNSUPPORTED, t))"

definition wn_Transcript_Update ::
  "'x crypto \<Rightarrow> 'x transcript \<Rightarrow> bytes option \<Rightarrow> nat \<Rightarrow> int \<times> 'x transcript" where
  "wn_Transcript_Update C t msg msgLen =
     (if msg = None \<and> msgLen \<noteq> 0 then (err_code E_INVALID_ARG, t)
      else let bs = (case msg of None \<Rightarrow> [] | Some m \<Rightarrow> take msgLen m) in
        if tdigest t = WC_SHA256 then
          (case wc_Sha256Update C (thash t) bs of (rc, x) \<Rightarrow> (hash_status rc, t\<lparr>thash := x\<rparr>))
        else if have_sha384 C \<and> tdigest t = WC_SHA384 then
          (case wc_Sha384Update C (thash t) bs of (rc, x) \<Rightarrow> (hash_status rc, t\<lparr>thash := x\<rparr>))
        else (err_code E_UNSUPPORTED, t))"

text \<open>The interim hash does not end the transcript: only \<open>out\<close> and \<open>outLen\<close> are results.\<close>

definition wn_Transcript_GetHash ::
  "'x crypto \<Rightarrow> 'x transcript \<Rightarrow> bytes \<Rightarrow> nat \<Rightarrow> int \<times> bytes \<times> nat" where
  "wn_Transcript_GetHash C t out outLen =
     (if tdigest t = WC_SHA256 then
        (case wc_Sha256GetHash C (thash t) of (rc, h) \<Rightarrow> (hash_status rc, h, 32))
      else if have_sha384 C \<and> tdigest t = WC_SHA384 then
        (case wc_Sha384GetHash C (thash t) of (rc, h) \<Rightarrow> (hash_status rc, h, 48))
      else (err_code E_UNSUPPORTED, out, outLen))"

lemmas transcript_defs = wn_Transcript_Init_def wn_Transcript_Update_def wn_Transcript_GetHash_def
  hash_status_def

text \<open>Only the octets that are read count.\<close>

lemma update_take: "wn_Transcript_Update C t (Some (take n b)) (length (take n b)) = wn_Transcript_Update C t (Some b) n"
proof -
  have "take (length (take n b)) (take n b) = take n b" by (rule take_all) simp
  then show ?thesis by (simp only: wn_Transcript_Update_def option.case Let_def option.distinct simp_thms if_False)
qed

subsection \<open>The hashing contract\<close>

text \<open>
  What the handshake relies on: a state that has absorbed \<open>m\<close> absorbs \<open>m @ b\<close> after an
  update with \<open>b\<close>, and reading the hash yields \<open>H m\<close> and changes nothing.
\<close>

locale hasher =
  fixes absorbed :: "'s \<Rightarrow> bytes \<Rightarrow> bool" and upd :: "'s \<Rightarrow> bytes \<Rightarrow> int \<times> 's"
    and get :: "'s \<Rightarrow> int \<times> bytes \<times> nat" and H :: "'s \<Rightarrow> bytes \<Rightarrow> bytes"
  assumes upd_absorbs: "absorbed s m \<Longrightarrow> fst (upd s b) = 0 \<and> absorbed (snd (upd s b)) (m @ b)"
    and upd_H: "absorbed s m \<Longrightarrow> H (snd (upd s b)) = H s"
    and get_hash: "absorbed s m \<Longrightarrow> get s = (0, H s m, 32)"
begin

lemma absorb_all:
  "absorbed s m \<Longrightarrow>
   absorbed (fold (\<lambda>b s. snd (upd s b)) bs s) (m @ concat bs) \<and> H (fold (\<lambda>b s. snd (upd s b)) bs s) = H s"
proof (induction bs arbitrary: s m)
  case Nil
  then show ?case by simp
next
  case (Cons b bs)
  have "absorbed (snd (upd s b)) (m @ b)" "H (snd (upd s b)) = H s"
    using upd_absorbs upd_H Cons.prems by blast+
  then show ?case
    using Cons.IH [of "snd (upd s b)" "m @ b"] by simp
qed

lemma hash_all: "absorbed s m \<Longrightarrow> get (fold (\<lambda>b s. snd (upd s b)) bs s) = (0, H s (m @ concat bs), 32)"
  using absorb_all get_hash by metis

lemma split_irrelevant:
  "absorbed s m \<Longrightarrow> concat as = concat bs \<Longrightarrow>
   get (fold (\<lambda>b s. snd (upd s b)) as s) = get (fold (\<lambda>b s. snd (upd s b)) bs s)"
  using hash_all by metis

end

text \<open>A SHA-256 transcript over a provider with a correct hash; the state carries both.\<close>

definition tr_absorbed ::
  "('x crypto \<times> (bytes \<Rightarrow> bytes) \<times> ('x \<Rightarrow> bytes \<Rightarrow> bool)) \<times> 'x transcript \<Rightarrow> bytes \<Rightarrow> bool" where
  "tr_absorbed s m =
     (case s of ((C, H, R), t) \<Rightarrow> sha256_ok C H R \<and> tdigest t = WC_SHA256 \<and> R (thash t) m)"

definition tr_upd ::
  "('x crypto \<times> 'p) \<times> 'x transcript \<Rightarrow> bytes \<Rightarrow> int \<times> ('x crypto \<times> 'p) \<times> 'x transcript" where
  "tr_upd s b = (case s of (env, t) \<Rightarrow>
     (case wn_Transcript_Update (fst env) t (Some b) (length b) of (rc, t') \<Rightarrow> (rc, env, t')))"

definition tr_get :: "('x crypto \<times> 'p) \<times> 'x transcript \<Rightarrow> int \<times> bytes \<times> nat" where
  "tr_get s = (case s of (env, t) \<Rightarrow> wn_Transcript_GetHash (fst env) t [] 0)"

lemma Transcript_Init_ok:
  "sha256_ok C H R \<Longrightarrow>
   fst (wn_Transcript_Init C t WC_SHA256) = 0 \<and>
   tr_absorbed ((C, H, R), snd (wn_Transcript_Init C t WC_SHA256)) []"
  by (auto simp: sha256_ok_def transcript_defs tr_absorbed_def split: prod.splits)

lemma Transcript_Update_ok:
  assumes "tr_absorbed ((C, H, R), t) m" "n \<le> length b"
  shows "fst (wn_Transcript_Update C t (Some b) n) = 0"
    "tr_absorbed ((C, H, R), snd (wn_Transcript_Update C t (Some b) n)) (m @ take n b)"
proof -
  have "fst (wc_Sha256Update C (thash t) (take n b)) = 0 \<and>
      R (snd (wc_Sha256Update C (thash t) (take n b))) (m @ take n b)"
    using assms by (auto simp: tr_absorbed_def sha256_ok_def)
  then show "fst (wn_Transcript_Update C t (Some b) n) = 0"
    "tr_absorbed ((C, H, R), snd (wn_Transcript_Update C t (Some b) n)) (m @ take n b)"
    using assms by (auto simp: tr_absorbed_def transcript_defs split: prod.splits)
qed

lemma Transcript_GetHash_ok:
  "tr_absorbed ((C, H, R), t) m \<Longrightarrow> wn_Transcript_GetHash C t out n = (0, H m, 32)"
  by (auto simp: tr_absorbed_def sha256_ok_def transcript_defs)

interpretation th: hasher tr_absorbed tr_upd tr_get "\<lambda>s. fst (snd (fst s))"
proof unfold_locales
  fix s :: "('x crypto \<times> (bytes \<Rightarrow> bytes) \<times> ('x \<Rightarrow> bytes \<Rightarrow> bool)) \<times> 'x transcript" and m b
  assume a: "tr_absorbed s m"
  obtain C H R t where s: "s = ((C, H, R), t)"
    by (cases s) auto
  show "fst (tr_upd s b) = 0 \<and> tr_absorbed (snd (tr_upd s b)) (m @ b)"
    using Transcript_Update_ok [of C H R t m "length b" b] a
    by (auto simp: s tr_upd_def split: prod.splits)
  show "fst (snd (fst (snd (tr_upd s b)))) = fst (snd (fst s))"
    by (simp add: s tr_upd_def split: prod.splits)
  show "tr_get s = (0, fst (snd (fst s)) m, 32)"
    using Transcript_GetHash_ok a by (simp add: s tr_get_def)
qed

subsection \<open>Properties\<close>

text \<open>C25. The transcript hash depends only on the concatenation of the messages: feeding them
  in any pieces, with interim hashes read in between, gives the SHA-256 of all bytes so far.\<close>

theorem transcript_is_hash_of_messages:
  assumes "sha256_ok C H R"
  shows "tr_get (fold (\<lambda>b s. snd (tr_upd s b)) bs ((C, H, R), snd (wn_Transcript_Init C t WC_SHA256)))
         = (WOLFNANO_SUCCESS, H (concat bs), 32)"
  using th.hash_all [OF Transcript_Init_ok [OF assms, THEN conjunct2]]
  by (simp add: WOLFNANO_SUCCESS_def)

theorem transcript_is_hash_of_messages_witness:
  "tr_get (fold (\<lambda>b s. snd (tr_upd s b)) [[1, 2], [3]]
     ((toy_provider, toy_hash, ((=) :: bytes \<Rightarrow> bytes \<Rightarrow> bool)),
       snd (wn_Transcript_Init toy_provider \<lparr>thash = [], tdigest = WC_OTHER 0\<rparr> WC_SHA256)))
   = (WOLFNANO_SUCCESS, toy_hash (concat [[1, 2], [3]]), 32)"
  by (rule transcript_is_hash_of_messages) (rule toy_sha256_ok)

end
