(* ===== verification/KeySchedule.thy ===== *)
theory KeySchedule
  imports Crypto
begin

section \<open>The TLS 1.3 key schedule (wn_keyschedule.c)\<close>

text \<open>
  The HKDF and HMAC steps over the provider. Each function returns the C status, an \<open>int\<close>,
  and the new contents of its output buffer; the old contents are an argument, and come
  back when the function does not write. A nullable input is an option. Statuses stay
  integers here because the callers combine them with \<open>|=\<close>.
\<close>

fun wn_DigestSize :: "'x crypto \<Rightarrow> wc_digest \<Rightarrow> nat" where
  "wn_DigestSize C WC_SHA256 = 32"
| "wn_DigestSize C WC_SHA384 = (if have_sha384 C then 48 else 0)"
| "wn_DigestSize C (WC_OTHER _) = 0"

definition wn_Tls13_Extract ::
  "'x crypto \<Rightarrow> bytes \<Rightarrow> bytes \<Rightarrow> bytes option \<Rightarrow> wc_digest \<Rightarrow> int \<times> bytes" where
  "wn_Tls13_Extract C prk salt ikm digest =
     (if ikm = None \<or> wn_DigestSize C digest = 0 then (err_code E_INVALID_ARG, prk)
      else case wc_Tls13_HKDF_Extract C salt (the ikm) digest of
        (rc, out) \<Rightarrow> (if rc \<noteq> 0 then err_code E_CRYPTO else WOLFNANO_SUCCESS, out))"

definition wn_Tls13_ExpandLabel ::
  "'x crypto \<Rightarrow> bytes \<Rightarrow> nat \<Rightarrow> bytes option \<Rightarrow> string \<Rightarrow> bytes option \<Rightarrow> nat \<Rightarrow> wc_digest \<Rightarrow> int \<times> bytes" where
  "wn_Tls13_ExpandLabel C okm okmLen secret label info infoLen digest =
     (let hashLen = wn_DigestSize C digest in
      if secret = None \<or> hashLen = 0 \<or> (info = None \<and> infoLen > 0)
      then (err_code E_INVALID_ARG, okm)
      else case wc_Tls13_HKDF_Expand_Label C okmLen (take hashLen (the secret)) (cstr ''tls13 '')
                  (cstr label) (case info of None \<Rightarrow> [] | Some i \<Rightarrow> take infoLen i) digest of
        (rc, out) \<Rightarrow> (if rc \<noteq> 0 then err_code E_CRYPTO else WOLFNANO_SUCCESS, out))"

definition wn_Tls13_DeriveSecret ::
  "'x crypto \<Rightarrow> bytes \<Rightarrow> bytes option \<Rightarrow> string \<Rightarrow> bytes option \<Rightarrow> nat \<Rightarrow> wc_digest \<Rightarrow> int \<times> bytes" where
  "wn_Tls13_DeriveSecret C out secret label transcriptHash hashLen digest =
     (if hashLen \<noteq> wn_DigestSize C digest then (err_code E_INVALID_ARG, out)
      else wn_Tls13_ExpandLabel C out hashLen secret label transcriptHash hashLen digest)"

text \<open>The HMAC context only exists after \<open>wc_HmacInit\<close>; the three calls short-circuit.\<close>

definition hmac_once ::
  "'x crypto \<Rightarrow> bytes \<Rightarrow> 'x \<Rightarrow> wc_digest \<Rightarrow> bytes \<Rightarrow> bytes \<Rightarrow> int \<times> bytes" where
  "hmac_once C out h digest key msg =
     (case wc_HmacSetKey C h digest key of (r1, h1) \<Rightarrow>
        if r1 \<noteq> 0 then (err_code E_CRYPTO, out)
        else case wc_HmacUpdate C h1 msg of (r2, h2) \<Rightarrow>
          if r2 \<noteq> 0 then (err_code E_CRYPTO, out)
          else case wc_HmacFinal C h2 of (r3, mac) \<Rightarrow>
            (if r3 \<noteq> 0 then err_code E_CRYPTO else WOLFNANO_SUCCESS, mac))"

definition wn_Tls13_FinishedMac ::
  "'x crypto \<Rightarrow> bytes \<Rightarrow> bytes option \<Rightarrow> bytes option \<Rightarrow> nat \<Rightarrow> wc_digest \<Rightarrow> int \<times> bytes" where
  "wn_Tls13_FinishedMac C out baseKey transcriptHash hashLen digest =
     (if baseKey = None \<or> transcriptHash = None \<or> hashLen = 0 \<or> hashLen \<noteq> wn_DigestSize C digest
         \<or> hashLen > 64
      then (err_code E_INVALID_ARG, out)
      else case wn_Tls13_ExpandLabel C [] hashLen baseKey ''finished'' None 0 digest of
        (rc, finishedKey) \<Rightarrow>
          if rc \<noteq> WOLFNANO_SUCCESS then (rc, out)
          else case wc_HmacInit C of (r0, h) \<Rightarrow>
            if r0 \<noteq> 0 then (err_code E_CRYPTO, out)
            else hmac_once C out h digest (take hashLen finishedKey) (take hashLen (the transcriptHash)))"

text \<open>
  The rekeying of one direction: the secret is replaced first, key and IV are derived from
  the new one. What each step wrote stays when a later step fails.
\<close>

definition wn_Tls13_KeyUpdate ::
  "'x crypto \<Rightarrow> bytes \<Rightarrow> bytes \<Rightarrow> bytes \<Rightarrow> wc_digest \<Rightarrow> int \<times> bytes \<times> bytes \<times> bytes" where
  "wn_Tls13_KeyUpdate C secret key iv digest =
     (let hashLen = wn_DigestSize C digest in
      if hashLen = 0 \<or> hashLen > 64 then (err_code E_INVALID_ARG, secret, key, iv)
      else case wn_Tls13_ExpandLabel C [] hashLen (Some secret) ''traffic upd'' None 0 digest of
        (r1, newSecret) \<Rightarrow>
          if r1 \<noteq> WOLFNANO_SUCCESS then (r1, secret, key, iv)
          else let secret' = mem_put secret 0 (take hashLen newSecret) in
            case wn_Tls13_ExpandLabel C key 16 (Some secret') ''key'' None 0 digest of
              (r2, key') \<Rightarrow>
                if r2 \<noteq> WOLFNANO_SUCCESS then (r2, secret', key', iv)
                else case wn_Tls13_ExpandLabel C iv 12 (Some secret') ''iv'' None 0 digest of
                  (r3, iv') \<Rightarrow> (r3, secret', key', iv'))"

subsection \<open>What the steps compute\<close>

text \<open>
  RFC 8446 7.1 over the provider: \<open>hkdf_expand\<close> is HKDF-Expand-Label with the protocol
  prefix, SHA-256 and 32-byte secrets.
\<close>

definition hkdf_expand :: "'x crypto \<Rightarrow> nat \<Rightarrow> bytes \<Rightarrow> string \<Rightarrow> bytes \<Rightarrow> bytes" where
  "hkdf_expand C n secret label info =
     snd (wc_Tls13_HKDF_Expand_Label C n secret (cstr ''tls13 '') (cstr label) info WC_SHA256)"

definition hkdf_extract :: "'x crypto \<Rightarrow> bytes \<Rightarrow> bytes \<Rightarrow> bytes" where
  "hkdf_extract C salt ikm = snd (wc_Tls13_HKDF_Extract C salt ikm WC_SHA256)"

lemma length_hkdf [simp]:
  "kdf_ok C \<Longrightarrow> length (hkdf_expand C n secret label info) = n"
  "kdf_ok C \<Longrightarrow> length (hkdf_extract C salt ikm) = 32"
  by (simp_all add: kdf_ok_def hkdf_expand_def hkdf_extract_def)

lemma Extract_ok:
  "kdf_ok C \<Longrightarrow> wn_Tls13_Extract C prk salt (Some ikm) WC_SHA256 = (0, hkdf_extract C salt ikm)"
  by (simp add: wn_Tls13_Extract_def kdf_ok_def hkdf_extract_def WOLFNANO_SUCCESS_def
      split: prod.splits) (metis fst_conv)

lemma ExpandLabel_ok:
  "kdf_ok C \<Longrightarrow> length secret = 32 \<Longrightarrow>
   wn_Tls13_ExpandLabel C okm n (Some secret) label None 0 WC_SHA256 = (0, hkdf_expand C n secret label [])"
  by (simp add: wn_Tls13_ExpandLabel_def kdf_ok_def hkdf_expand_def WOLFNANO_SUCCESS_def
      split: prod.splits) (metis fst_conv)

lemma DeriveSecret_ok:
  "kdf_ok C \<Longrightarrow> length secret = 32 \<Longrightarrow> length th = 32 \<Longrightarrow>
   wn_Tls13_DeriveSecret C out (Some secret) label (Some th) 32 WC_SHA256
   = (0, hkdf_expand C 32 secret label th)"
  by (simp add: wn_Tls13_DeriveSecret_def wn_Tls13_ExpandLabel_def kdf_ok_def hkdf_expand_def
      WOLFNANO_SUCCESS_def split: prod.splits) (metis fst_conv)

text \<open>The Finished MAC is the HMAC of the transcript hash under the finished key (RFC 8446 4.4.4).\<close>

lemma FinishedMac_ok:
  assumes "kdf_ok C" "hmac_ok C M" "length secret = 32" "length th = 32"
  shows "wn_Tls13_FinishedMac C out (Some secret) (Some th) 32 WC_SHA256 =
    (0, M (hkdf_expand C 32 secret ''finished'' []) th)"
proof -
  let ?k = "hkdf_expand C 32 secret ''finished'' []"
  obtain h where h: "wc_HmacInit C = (0, h)" using assms(2) by (cases "wc_HmacInit C") (simp add: hmac_ok_def)
  obtain r1 h1 where h1: "wc_HmacSetKey C h WC_SHA256 ?k = (r1, h1)" by fastforce
  obtain r2 h2 where h2: "wc_HmacUpdate C h1 th = (r2, h2)" by fastforce
  have "r1 = 0 \<and> r2 = 0 \<and> wc_HmacFinal C h2 = (0, M ?k th)"
    using assms(2) [unfolded hmac_ok_def, THEN conjunct2, THEN conjunct2, THEN spec [of _ h], THEN spec [of _ ?k],
        THEN spec [of _ th]] by (simp add: h1 h2)
  moreover have "take 32 ?k = ?k" using assms(1) by simp
  ultimately show ?thesis
    using assms(4) by (simp add: wn_Tls13_FinishedMac_def ExpandLabel_ok [OF assms(1,3)] h h1 h2 hmac_once_def
        WOLFNANO_SUCCESS_def)
qed

lemmas kdf_steps = Extract_ok ExpandLabel_ok DeriveSecret_ok

lemma DeriveSecret_bad_len:
  "hashLen \<noteq> wn_DigestSize C digest \<Longrightarrow>
   wn_Tls13_DeriveSecret C out secret label th hashLen digest = (err_code E_INVALID_ARG, out)"
  by (simp add: wn_Tls13_DeriveSecret_def)

lemma KeyUpdate_steps:
  assumes "kdf_ok C" "length secret = 32"
  shows "wn_Tls13_KeyUpdate C secret key iv WC_SHA256 =
    (let s' = hkdf_expand C 32 secret ''traffic upd'' [] in
     (0, s', hkdf_expand C 16 s' ''key'' [], hkdf_expand C 12 s' ''iv'' []))"
  using assms
  by (simp add: wn_Tls13_KeyUpdate_def ExpandLabel_ok Let_def mem_put_def WOLFNANO_SUCCESS_def)

text \<open>C26. KeyUpdate is RFC 8446 7.2: the next traffic secret is
  HKDF-Expand-Label(secret, "traffic upd", "", 32) and the key and IV are derived from it,
  whatever the old key and IV were, so that two peers with equal secrets rekey alike.\<close>

theorem key_update_rfc8446:
  assumes "kdf_ok C" "length secret = 32"
  shows "wn_Tls13_KeyUpdate C secret key iv WC_SHA256 =
    (let s' = hkdf_expand C 32 secret ''traffic upd'' [] in
     (WOLFNANO_SUCCESS, s', hkdf_expand C 16 s' ''key'' [], hkdf_expand C 12 s' ''iv'' []))"
  using KeyUpdate_steps [OF assms] by (simp add: WOLFNANO_SUCCESS_def)

theorem key_update_rfc8446_witness:
  "wn_Tls13_KeyUpdate toy_provider (replicate 32 5) [] [] WC_SHA256 =
    (let s' = hkdf_expand toy_provider 32 (replicate 32 5) ''traffic upd'' [] in
     (WOLFNANO_SUCCESS, s', hkdf_expand toy_provider 16 s' ''key'' [], hkdf_expand toy_provider 12 s' ''iv'' []))"
  by (rule key_update_rfc8446) (simp_all add: toy_kdf_ok)

end
