(* ===== verification/RecordLayer.thy ===== *)
theory RecordLayer
  imports Crypto
begin

section \<open>The TLS 1.3 record layer (wn_record.c)\<close>

text \<open>
  Reading one record from the transport, and AEAD protection and deprotection with the
  per-record nonce. A function that writes into a caller's buffer takes its old contents
  and returns the new ones; a store outside it is the error \<open>Oob\<close>. Results are a sum,
  with what the code stores through its output pointers on the success side. A nullable
  input is an option; a buffer and its length argument are one list.
\<close>

subsection \<open>Reading a record\<close>

text \<open>
  The loop of \<open>io_recv_exact\<close>: \<open>acc\<close> is what \<open>buf\<close> holds of the \<open>n\<close> bytes so far. A
  callback that stores more than it was asked for has overrun the buffer.
\<close>

function io_recv_exact :: "'w io_recv \<Rightarrow> 'w \<Rightarrow> nat \<Rightarrow> bytes \<Rightarrow> (wn_err + unit) \<times> bytes \<times> 'w" where
  "io_recv_exact recv w n acc =
     (if length acc < n then
        (case recv w (n - length acc) of
           (None, w') \<Rightarrow> (Inl E_CRYPTO, acc, w')
         | (Some bs, w') \<Rightarrow>
             if bs = [] then (Inl E_CRYPTO, acc, w')
             else if length bs > n - length acc then (Inl Oob, acc, w')
             else io_recv_exact recv w' n (acc @ bs))
      else (Inr (), acc, w))"
  by pat_completeness auto
termination
  by (relation "measure (\<lambda>(_, _, n, acc). n - length acc)") (auto simp: neq_Nil_conv)

declare io_recv_exact.simps [simp del]

text \<open>The 16-bit length field of a record header.\<close>

definition frag_len :: "bytes \<Rightarrow> nat" where
  "frag_len rec = unat (push_bit 8 (ucast (rec ! 3)) OR ucast (rec ! 4) :: 32 word)"

definition wn_RecvRecord ::
  "'w io_recv \<Rightarrow> 'w \<Rightarrow> bytes \<Rightarrow> nat \<Rightarrow> (wn_err + byte \<times> nat) \<times> bytes \<times> 'w" where
  "wn_RecvRecord recv w rec cap =
     (if length rec < 5 then (Inl Oob, rec, w) else
      case io_recv_exact recv w 5 [] of
        (Inl e, hdr, w1) \<Rightarrow> (Inl e, mem_put rec 0 hdr, w1)
      | (Inr _, hdr, w1) \<Rightarrow>
          let rec1 = mem_put rec 0 hdr; frag = frag_len rec1 in
          if frag = 0 \<or> frag + 5 > cap \<or> frag > 16384 + 256 then (Inl E_CRYPTO, rec1, w1)
          else if length rec1 < 5 + frag then (Inl Oob, rec1, w1)
          else case io_recv_exact recv w1 frag [] of
            (Inl e, body, w2) \<Rightarrow> (Inl e, mem_put rec1 5 body, w2)
          | (Inr _, body, w2) \<Rightarrow>
              let rec2 = mem_put rec1 5 body in
              if rec1 ! 0 = 20 \<and> (frag \<noteq> 1 \<or> rec2 ! 5 \<noteq> 1) then (Inl E_DECODE, rec2, w2)
              else (Inr (rec1 ! 0, frag + 5), rec2, w2))"

subsection \<open>Protection\<close>

definition wn_BuildNonce :: "bytes \<Rightarrow> word64 \<Rightarrow> bytes" where
  "wn_BuildNonce iv sq =
     fold (\<lambda>i nonce. nonce[11 - i := nonce ! (11 - i) XOR ucast (drop_bit (8 * i) sq)]) [0..<8] (take 12 iv)"

definition record_header :: "nat \<Rightarrow> bytes" where
  "record_header ctLen = [23, 3, 3, of_nat (ctLen div 256), of_nat ctLen]"

definition wn_Record_Protect ::
  "'x crypto \<Rightarrow> bytes \<Rightarrow> bytes option \<Rightarrow> bytes option \<Rightarrow> word64 \<Rightarrow> byte \<Rightarrow> bytes option \<Rightarrow>
   (wn_err + nat) \<times> bytes" where
  "wn_Record_Protect C rec key iv sq contentType content =
     (if key = None \<or> iv = None \<or> content = None then (Inl E_INVALID_ARG, rec)
      else if length (the content) > 16384 then (Inl E_INVALID_ARG, rec)
      else
        let innerLen = length (the content) + 1; ctLen = innerLen + 16;
            nonce = wn_BuildNonce (the iv) sq;
            wipe = (\<lambda>r. mem_put r 5 (replicate innerLen 0)) in
        if length rec < 5 + ctLen then (Inl Oob, rec)
        else
          let rec1 = mem_put rec 0 (record_header ctLen @ the content @ [contentType]) in
          case wc_AesInit C of (r0, a0) \<Rightarrow>
            if r0 \<noteq> 0 then (Inl E_CRYPTO, wipe rec1)
            else case wc_AesGcmSetKey C a0 (the key) of (r1, a1) \<Rightarrow>
              if r1 \<noteq> 0 then (Inl E_CRYPTO, wipe rec1)
              else case wc_AesGcmEncrypt C a1 (slice 5 innerLen rec1) nonce 16 (take 5 rec1) of
                (r2, ct, tag) \<Rightarrow>
                  let rec2 = mem_put (mem_put rec1 5 ct) (5 + innerLen) tag in
                  if r2 \<noteq> 0 then (Inl E_CRYPTO, wipe rec2) else (Inr (5 + ctLen), rec2))"

text \<open>The backward scan over the zero padding: the length of what precedes it.\<close>

fun unpad :: "bytes \<Rightarrow> nat \<Rightarrow> nat" where
  "unpad content 0 = 0"
| "unpad content (Suc n) = (if content ! n = 0 then unpad content n else Suc n)"

text \<open>
  The second result is what was stored at \<open>content\<close>, nothing when the decryption was not
  reached. \<open>recLen\<close> is the length of \<open>rec\<close>.
\<close>

definition wn_Record_Unprotect ::
  "'x crypto \<Rightarrow> bytes option \<Rightarrow> bytes option \<Rightarrow> word64 \<Rightarrow> bytes option \<Rightarrow> (wn_err + nat \<times> byte) \<times> bytes" where
  "wn_Record_Unprotect C key iv sq rec =
     (if key = None \<or> iv = None \<or> rec = None then (Inl E_INVALID_ARG, [])
      else if length (the rec) < 5 + 16 + 1 then (Inl E_INVALID_ARG, [])
      else
        let innerLen = length (the rec) - 5 - 16; nonce = wn_BuildNonce (the iv) sq in
        case wc_AesInit C of (r0, a0) \<Rightarrow>
          if r0 \<noteq> 0 then (Inl E_CRYPTO, [])
          else case wc_AesGcmSetKey C a0 (the key) of (r1, a1) \<Rightarrow>
            if r1 \<noteq> 0 then (Inl E_CRYPTO, [])
            else case wc_AesGcmDecrypt C a1 (slice 5 innerLen (the rec)) nonce
                        (slice (5 + innerLen) 16 (the rec)) (take 5 (the rec)) of
              (r2, content) \<Rightarrow>
                if r2 \<noteq> 0 then (Inl E_BAD_MAC, content)
                else let n = unpad content innerLen in
                  if n = 0 then (Inl E_DECODE, content)
                  else (Inr (n - 1, content ! (n - 1)), content))"

subsection \<open>The nonce\<close>

lemma BuildNonce_unfold:
  assumes "length iv = 12"
  shows "wn_BuildNonce iv sq =
    [iv ! 0, iv ! 1, iv ! 2, iv ! 3] @
    map (\<lambda>k. iv ! (4 + k) XOR ucast (drop_bit (8 * (7 - k)) sq)) [0..<8]"
proof -
  obtain a b c d e f g h i j k l where "iv = [a, b, c, d, e, f, g, h, i, j, k, l]"
    using assms by (auto simp: length_Suc_conv numeral_eq_Suc)
  then show ?thesis
    by (simp add: wn_BuildNonce_def upt_rec)
qed

lemma length_BuildNonce [simp]: "length iv = 12 \<Longrightarrow> length (wn_BuildNonce iv sq) = 12"
  by (simp add: BuildNonce_unfold)

text \<open>A 64-bit value is determined by its eight bytes.\<close>

lemma word64_bytes_eqI:
  assumes "\<And>i. i < 8 \<Longrightarrow> (ucast (drop_bit (8 * i) (s :: word64)) :: byte) = ucast (drop_bit (8 * i) t)"
  shows "s = t"
proof (rule bit_word_eqI)
  fix n assume n: "n < LENGTH(64)"
  have "bit (ucast (drop_bit (8 * (n div 8)) s) :: byte) (n mod 8)
      = bit (ucast (drop_bit (8 * (n div 8)) t) :: byte) (n mod 8)"
    using assms [of "n div 8"] n by simp
  then show "bit s n = bit t n"
    by (simp add: bit_simps)
qed

lemma BuildNonce_inj:
  assumes "length iv = 12" "wn_BuildNonce iv s = wn_BuildNonce iv t"
  shows "s = t"
proof (rule word64_bytes_eqI)
  fix i :: nat assume i: "i < 8"
  have "wn_BuildNonce iv s ! (11 - i) = wn_BuildNonce iv t ! (11 - i)"
    using assms by simp
  then show "(ucast (drop_bit (8 * i) s) :: byte) = ucast (drop_bit (8 * i) t)"
    using i assms(1) nth_upt [of 0 "7 - i" 8]
    by (simp add: BuildNonce_unfold nth_append xor_left_cancel)
qed

subsection \<open>Padding\<close>

lemma unpad_le: "unpad c n \<le> n"
  by (induction n) (simp_all add: le_Suc_eq)

lemma unpad_0: "unpad c n = 0 \<longleftrightarrow> (\<forall>i<n. c ! i = 0)"
  by (induction n) (auto simp: less_Suc_eq)

lemma unpad_last: "unpad c n = Suc m \<Longrightarrow> c ! m \<noteq> 0"
  by (induction n) (auto split: if_splits)

lemma unpad_zeros: "i < n \<Longrightarrow> unpad c n \<le> i \<Longrightarrow> c ! i = 0"
  by (induction n) (auto simp: less_Suc_eq split: if_splits)

lemma unpad_inner:
  assumes "t \<noteq> 0"
  shows "unpad (content @ t # replicate k 0) (length content + 1 + k) = length content + 1"
proof (induction k)
  case 0
  then show ?case using assms by simp
next
  case (Suc k)
  have ext: "n \<le> length c \<Longrightarrow> unpad (c @ [0]) n = unpad c n" for n and c :: bytes
    by (induction n) (simp_all add: nth_append)
  have "unpad ((content @ t # replicate k 0) @ [0]) (length content + 1 + k) = length content + 1"
    using Suc ext [of "length content + 1 + k" "content @ t # replicate k 0"] by simp
  moreover have "((content @ t # replicate k 0) @ [0]) ! (length content + 1 + k) = 0"
    by (simp add: nth_append)
  ultimately show ?case
    by (simp add: replicate_append_same)
qed

subsection \<open>Sealing and opening\<close>

text \<open>
  The bytes of a protected record, as a function of the keys, the sequence number, the
  content type and the content; \<open>wn_Record_Protect\<close> stores exactly these.
\<close>

definition aead_ctx :: "'x crypto \<Rightarrow> bytes \<Rightarrow> 'x" where
  "aead_ctx C key = snd (wc_AesGcmSetKey C (snd (wc_AesInit C)) key)"

definition seal :: "'x crypto \<Rightarrow> bytes \<Rightarrow> bytes \<Rightarrow> word64 \<Rightarrow> byte \<Rightarrow> bytes \<Rightarrow> bytes" where
  "seal C key iv sq t content =
     (let hdr = record_header (length content + 17) in
      case wc_AesGcmEncrypt C (aead_ctx C key) (content @ [t]) (wn_BuildNonce iv sq) 16 hdr of
        (_, ct, tag) \<Rightarrow> hdr @ ct @ tag)"

lemma length_record_header [simp]: "length (record_header n) = 5"
  by (simp add: record_header_def)

lemma aead_enc:
  assumes "aead_ok C" "length key = 16" "length nonce = 12"
  obtains ct tag where
    "wc_AesGcmEncrypt C (aead_ctx C key) pt nonce 16 aad = (0, ct, tag)"
    "length ct = length pt" "length tag = 16"
    "wc_AesGcmDecrypt C (aead_ctx C key) ct nonce tag aad = (0, pt)"
proof -
  obtain rc ct tag where e: "wc_AesGcmEncrypt C (aead_ctx C key) pt nonce 16 aad = (rc, ct, tag)"
    by (metis prod_cases3)
  have "case wc_AesGcmEncrypt C (aead_ctx C key) pt nonce 16 aad of
      (rc, ct, tag) \<Rightarrow> rc = 0 \<and> length ct = length pt \<and> length tag = 16 \<and>
        wc_AesGcmDecrypt C (aead_ctx C key) ct nonce tag aad = (0, pt)"
    unfolding aead_ctx_def
    by (rule assms(1) [unfolded aead_ok_def, THEN conjunct2, THEN conjunct2, THEN conjunct2, rule_format, OF assms(2,3)])
  with e have "rc = 0" "length ct = length pt" "length tag = 16"
    "wc_AesGcmDecrypt C (aead_ctx C key) ct nonce tag aad = (0, pt)"
    by simp_all
  with e show thesis by (intro that) simp_all
qed

lemma aead_setup:
  assumes "aead_ok C" "length key = 16"
  obtains a0 where "wc_AesInit C = (0, a0)" "wc_AesGcmSetKey C a0 key = (0, aead_ctx C key)"
  using assms by (cases "wc_AesInit C") (auto simp: aead_ok_def aead_ctx_def prod_eq_iff)

lemma length_seal:
  assumes "aead_ok C" "length key = 16" "length iv = 12"
  shows "length (seal C key iv sq t content) = length content + 22"
proof -
  obtain ct tag where "wc_AesGcmEncrypt C (aead_ctx C key)
      (content @ [t]) (wn_BuildNonce iv sq) 16 (record_header (length content + 17)) = (0, ct, tag)"
    "length ct = length (content @ [t])" "length tag = 16"
    by (rule aead_enc [OF assms(1,2) length_BuildNonce [OF assms(3)]])
  then show ?thesis
    by (simp add: seal_def)
qed

lemma seal_header:
  assumes "aead_ok C" "length key = 16" "length iv = 12"
  shows "take 5 (seal C key iv sq t content) = record_header (length content + 17)"
  by (simp add: seal_def Let_def split: prod.splits)

lemma mem_put_mem_put_tail:
  "length ys = length zs \<Longrightarrow> off + length xs + length ys \<le> length buf \<Longrightarrow>
   mem_put (mem_put buf off (xs @ ys)) (off + length xs) zs = mem_put buf off (xs @ zs)"
  by (simp add: mem_put_def min_absorb2)

lemma Protect_seal:
  assumes "aead_ok C" "length key = 16" "length iv = 12" "length content \<le> 16384"
    and "length content + 22 \<le> length rec"
  shows "wn_Record_Protect C rec (Some key) (Some iv) sq t (Some content)
         = (Inr (length content + 22), mem_put rec 0 (seal C key iv sq t content))"
proof -
  define hdr where "hdr = record_header (length content + 17)"
  obtain ct tag where enc: "wc_AesGcmEncrypt C (aead_ctx C key)
      (content @ [t]) (wn_BuildNonce iv sq) 16 hdr = (0, ct, tag)"
    "length ct = length (content @ [t])" "length tag = 16"
    by (rule aead_enc [OF assms(1,2) length_BuildNonce [OF assms(3)]])
  have hdr: "record_header (Suc (length content + 16)) = hdr" "length hdr = 5"
      "record_header (17 + length content) = hdr"
    by (simp_all add: hdr_def add.commute)
  have rec1: "slice 5 (Suc (length content)) (mem_put rec 0 (hdr @ content @ [t])) = content @ [t]"
      "take 5 (mem_put rec 0 (hdr @ content @ [t])) = hdr"
    by (simp_all add: mem_put_def slice_def hdr)
  have s: "seal C key iv sq t content = hdr @ ct @ tag"
    using enc by (simp add: seal_def hdr_def)
  have "mem_put (mem_put rec 0 (hdr @ content @ [t])) 5 ct = mem_put rec 0 (hdr @ ct)"
    using mem_put_mem_put_tail [of "content @ [t]" ct 0 hdr rec] enc(2) assms(5) hdr(2)
    by (simp del: append.assoc)
  moreover have "mem_put (mem_put rec 0 (hdr @ ct)) (6 + length content) tag = mem_put rec 0 (hdr @ ct @ tag)"
    using mem_put_app [of 0 "hdr @ ct" tag rec] enc(2,3) assms(5) hdr(2) by simp
  moreover obtain a0 where "wc_AesInit C = (0, a0)" "wc_AesGcmSetKey C a0 key = (0, aead_ctx C key)"
    by (rule aead_setup [OF assms(1,2)])
  ultimately show ?thesis
    using assms(4,5) enc(1) rec1 by (simp add: wn_Record_Protect_def Let_def hdr s)
qed

lemma Unprotect_seal:
  assumes "aead_ok C" "length key = 16" "length iv = 12" "t \<noteq> 0"
  shows "wn_Record_Unprotect C (Some key) (Some iv) sq (Some (seal C key iv sq t content))
         = (Inr (length content, t), content @ [t])"
proof -
  define hdr where "hdr = record_header (length content + 17)"
  obtain ct tag where enc: "wc_AesGcmEncrypt C (aead_ctx C key)
      (content @ [t]) (wn_BuildNonce iv sq) 16 hdr = (0, ct, tag)"
    "length ct = length (content @ [t])" "length tag = 16"
    and dec: "wc_AesGcmDecrypt C (aead_ctx C key) ct (wn_BuildNonce iv sq) tag hdr = (0, content @ [t])"
    by (rule aead_enc [OF assms(1,2) length_BuildNonce [OF assms(3)]])
  have s: "seal C key iv sq t content = hdr @ ct @ tag" "length hdr = 5"
    using enc by (simp_all add: seal_def hdr_def)
  have sl: "slice 5 (Suc (length content)) (hdr @ ct @ tag) = ct"
      "slice (Suc (length content + 5)) 16 (hdr @ ct @ tag) = tag"
      "slice (6 + length content) 16 (hdr @ ct @ tag) = tag"
    using enc s by (simp_all add: slice_def)
  obtain a0 where "wc_AesInit C = (0, a0)" "wc_AesGcmSetKey C a0 key = (0, aead_ctx C key)"
    by (rule aead_setup [OF assms(1,2)])
  then show ?thesis
    using dec enc(2,3) sl s(2) assms(4)
    by (simp add: wn_Record_Unprotect_def Let_def s(1) nth_append)
qed

text \<open>
  Any inner plaintext, padded or not: what the deprotection returns is fixed by the last
  non-zero byte of what the AEAD decrypted.
\<close>

lemma Unprotect_inner:
  assumes "aead_ok C" "length key = 16" "length rec = length inner + 21" "inner \<noteq> []"
    and "wc_AesGcmDecrypt C (aead_ctx C key) (slice 5 (length inner) rec) (wn_BuildNonce iv sq)
           (slice (5 + length inner) 16 rec) (take 5 rec) = (0, inner)"
  shows "wn_Record_Unprotect C (Some key) (Some iv) sq (Some rec) =
    (if unpad inner (length inner) = 0 then (Inl E_DECODE, inner)
     else (Inr (unpad inner (length inner) - 1, inner ! (unpad inner (length inner) - 1)), inner))"
proof -
  obtain a0 where "wc_AesInit C = (0, a0)" "wc_AesGcmSetKey C a0 key = (0, aead_ctx C key)"
    by (rule aead_setup [OF assms(1,2)])
  moreover have "\<not> length rec < 22" "length rec - 21 = length inner"
    using assms(3,4) by (cases inner; simp)+
  ultimately show ?thesis
    using assms(5) by (simp add: wn_Record_Unprotect_def Let_def)
qed

text \<open>What is stored at \<open>content\<close> fits behind the header, and holds the content returned.\<close>

lemma Unprotect_bounds:
  assumes "aead_ok C" "wn_Record_Unprotect C key iv sq (Some rec) = (res, out)"
  shows "length out \<le> length rec - 21" "res \<noteq> Inl Oob"
    "res = Inr (n, t) \<Longrightarrow> 22 \<le> length rec \<and> length out = length rec - 21 \<and> n < length out \<and> t = out ! n \<and> t \<noteq> 0"
proof -
  obtain a0 r0 where 0: "wc_AesInit C = (r0, a0)" by force
  obtain a1 r1 where 1: "wc_AesGcmSetKey C a0 (the key) = (r1, a1)" by force
  obtain c r2 where 2: "wc_AesGcmDecrypt C a1 (slice 5 (length rec - 21) rec) (wn_BuildNonce (the iv) sq)
      (slice (5 + (length rec - 21)) 16 rec) (take 5 rec) = (r2, c)" by force
  have len: "length c \<le> length (slice 5 (length rec - 21) rec)"
      "r2 = 0 \<Longrightarrow> length c = length (slice 5 (length rec - 21) rec)"
    using assms(1) [unfolded aead_ok_def, THEN conjunct2, THEN conjunct2, THEN conjunct1, rule_format,
        of a1 "slice 5 (length rec - 21) rec" "wn_BuildNonce (the iv) sq"
        "slice (5 + (length rec - 21)) 16 rec" "take 5 rec", unfolded 2] by simp_all
  have sl: "22 \<le> length rec \<Longrightarrow> length (slice 5 (length rec - 21) rec) = length rec - 21"
    by simp
  define u where "u = unpad c (length rec - 21)"
  have un: "u \<noteq> 0 \<Longrightarrow> u - 1 < length rec - 21 \<and> c ! (u - 1) \<noteq> 0"
    using unpad_le [of c "length rec - 21"] unpad_last [of c "length rec - 21" "u - 1"]
    by (cases u) (simp_all add: u_def)
  note code = assms(2) [unfolded wn_Record_Unprotect_def option.sel Let_def 0 1 prod.case]
  have res: "(res, out) = (if key = None \<or> iv = None \<or> length rec < 22 then (Inl E_INVALID_ARG, [])
      else if r0 \<noteq> 0 then (Inl E_CRYPTO, []) else if r1 \<noteq> 0 then (Inl E_CRYPTO, [])
      else if r2 \<noteq> 0 then (Inl E_BAD_MAC, c)
      else if u = 0 then (Inl E_DECODE, c) else (Inr (u - 1, c ! (u - 1)), c))"
    using code 2
    by (cases "key = None \<or> iv = None"; cases "length rec < 22"; cases "r0 = 0"; cases "r1 = 0";
        cases "r2 = 0"; cases "u = 0") (auto simp: u_def)
  consider "length out = 0 \<or> out = c" "res \<noteq> Inl Oob" "\<not> is_ok res" "22 \<le> length rec \<or> length out = 0"
    | "22 \<le> length rec" "out = c" "res = Inr (u - 1, c ! (u - 1))" "r2 = 0" "u \<noteq> 0"
    using res by (simp split: if_splits)
  note cs = this
  show "length out \<le> length rec - 21" "res \<noteq> Inl Oob"
    using cs len(1) sl by (cases, auto)+
  show "22 \<le> length rec \<and> length out = length rec - 21 \<and> n < length out \<and> t = out ! n \<and> t \<noteq> 0"
    if "res = Inr (n, t)"
    using cs by cases (use that len(2) sl un in simp_all)
qed

subsection \<open>Reading from a stream\<close>

lemma frag_len_eq: "frag_len rec = unat (rec ! 3) * 256 + unat (rec ! 4)"
proof -
  have "frag_len rec = dec24 0 (rec ! 3) (rec ! 4)"
    by (simp add: frag_len_def dec24_def)
  then show ?thesis by (simp add: dec24_eq)
qed

lemma frag_len_header: "n < 65536 \<Longrightarrow> frag_len (record_header n @ xs) = n"
  unfolding frag_len_eq record_header_def by (simp add: unat_of_nat_byte)

text \<open>A callback never stores more than it was asked for.\<close>

definition recv_bounded :: "'w io_recv \<Rightarrow> bool" where
  "recv_bounded recv \<longleftrightarrow> (\<forall>w n. case recv w n of (None, _) \<Rightarrow> True | (Some bs, _) \<Rightarrow> length bs \<le> n)"

text \<open>
  A stream transport with \<open>pend w\<close> still to deliver yields some of it, at least a byte, in
  whatever chunks it likes.
\<close>

definition recv_stream :: "'w io_recv \<Rightarrow> ('w \<Rightarrow> bytes) \<Rightarrow> bool" where
  "recv_stream recv pend \<longleftrightarrow>
     (\<forall>w n. 0 < n \<longrightarrow> pend w \<noteq> [] \<longrightarrow>
        (\<exists>bs w'. recv w n = (Some bs, w') \<and> bs \<noteq> [] \<and> length bs \<le> n \<and> pend w = bs @ pend w'))"

lemma recv_exact_cases:
  "n \<le> length acc \<Longrightarrow> io_recv_exact recv w n acc = (Inr (), acc, w)"
  "length acc < n \<Longrightarrow> recv w (n - length acc) = (None, w1) \<Longrightarrow>
   io_recv_exact recv w n acc = (Inl E_CRYPTO, acc, w1)"
  "length acc < n \<Longrightarrow> recv w (n - length acc) = (Some [], w1) \<Longrightarrow>
   io_recv_exact recv w n acc = (Inl E_CRYPTO, acc, w1)"
  "length acc < n \<Longrightarrow> recv w (n - length acc) = (Some bs, w1) \<Longrightarrow> n - length acc < length bs \<Longrightarrow>
   io_recv_exact recv w n acc = (Inl Oob, acc, w1)"
  "length acc < n \<Longrightarrow> recv w (n - length acc) = (Some bs, w1) \<Longrightarrow> bs \<noteq> [] \<Longrightarrow> length bs \<le> n - length acc \<Longrightarrow>
   io_recv_exact recv w n acc = io_recv_exact recv w1 n (acc @ bs)"
  by (subst io_recv_exact.simps, auto)+

lemma recv_exact_bounds:
  assumes "io_recv_exact recv w n acc = (res, out, w')" "length acc \<le> n"
  shows "length out \<le> n \<and> (res = Inr () \<longrightarrow> length out = n) \<and> (recv_bounded recv \<longrightarrow> res \<noteq> Inl Oob)"
  using assms
proof (induction recv w n acc rule: io_recv_exact.induct)
  case (1 recv w n acc)
  show ?case
  proof (cases "length acc < n")
    case False
    then show ?thesis using 1(2,3) by (auto simp: recv_exact_cases)
  next
    case True
    obtain r w1 where r: "recv w (n - length acc) = (r, w1)" by force
    show ?thesis
    proof (cases r)
      case None
      then show ?thesis using 1(2,3) True r by (auto simp: recv_exact_cases)
    next
      case (Some bs)
      consider "bs = []" | "length bs > n - length acc" | "bs \<noteq> []" "length bs \<le> n - length acc"
        by linarith
      then show ?thesis
      proof cases
        case 1
        then show ?thesis using \<open>io_recv_exact recv w n acc = _\<close> True r Some
          by (auto simp: recv_exact_cases)
      next
        case 2
        then have "\<not> recv_bounded recv"
          using r Some by (auto simp: recv_bounded_def intro!: exI [of _ w] exI [of _ "n - length acc"])
        then show ?thesis
          using \<open>io_recv_exact recv w n acc = _\<close> True r Some 2 by (auto simp: recv_exact_cases)
      next
        case 3
        then show ?thesis
          using "1.IH" [OF True r [symmetric] Some] \<open>io_recv_exact recv w n acc = _\<close> True r Some
          by (simp add: recv_exact_cases(5))
      qed
    qed
  qed
qed

lemma recv_exact_stream:
  assumes "recv_stream recv pend" "pend w = xs @ rest" "length acc + length xs = n"
  shows "\<exists>w'. io_recv_exact recv w n acc = (Inr (), acc @ xs, w') \<and> pend w' = rest"
  using assms(2,3)
proof (induction "length xs" arbitrary: xs acc w rule: less_induct)
  case less
  show ?case
  proof (cases "xs = []")
    case True
    then show ?thesis using less.prems by (simp add: recv_exact_cases)
  next
    case False
    then have "0 < n - length acc" "pend w \<noteq> []"
      using less.prems by (auto simp flip: length_greater_0_conv)
    then obtain bs w1 where step: "recv w (n - length acc) = (Some bs, w1)" "bs \<noteq> []"
        "length bs \<le> n - length acc" "pend w = bs @ pend w1"
      using assms(1) unfolding recv_stream_def by blast
    have le: "length bs \<le> length xs"
      using step(3) less.prems by simp
    have eq: "bs @ pend w1 = xs @ rest"
      using step(4) less.prems(1) by simp
    have "bs = take (length bs) xs"
      using arg_cong [OF eq, of "take (length bs)"] le by simp
    then have xs: "xs = bs @ drop (length bs) xs"
      by (metis append_take_drop_id)
    have rest: "pend w1 = drop (length bs) xs @ rest"
      using arg_cong [OF eq, of "drop (length bs)"] le by simp
    have "\<exists>w'. io_recv_exact recv w1 n (acc @ bs) = (Inr (), (acc @ bs) @ drop (length bs) xs, w') \<and> pend w' = rest"
      using less.prems step(2) le False rest by (intro less.hyps) simp_all
    then show ?thesis
      using step \<open>0 < n - length acc\<close> xs by (simp add: recv_exact_cases(5))
  qed
qed

lemma RecvRecord_stream:
  assumes "recv_stream recv pend" "pend w = hdr @ body @ rest" "length hdr = 5"
    and "frag_len hdr = length body" "body \<noteq> []" "length body \<le> 16640"
    and "length body + 5 \<le> cap" "cap \<le> length rec" "hdr ! 0 = 20 \<longrightarrow> body = [1]"
  shows "\<exists>w'. wn_RecvRecord recv w rec cap
           = (Inr (hdr ! 0, length body + 5), mem_put rec 0 (hdr @ body), w') \<and> pend w' = rest"
proof -
  obtain w1 where w1: "io_recv_exact recv w 5 [] = (Inr (), hdr, w1)" "pend w1 = body @ rest"
    using recv_exact_stream [OF assms(1,2), of "[]" 5] assms(3) by auto
  obtain w2 where w2: "io_recv_exact recv w1 (length body) [] = (Inr (), body, w2)" "pend w2 = rest"
    using recv_exact_stream [OF assms(1) w1(2), of "[]"] by auto
  have hd: "mem_put rec 0 hdr ! i = hdr ! i" if "i < 5" for i
    using that assms(3) by (simp add: mem_put_def nth_append)
  have frag: "frag_len (mem_put rec 0 hdr) = length body"
    using assms(4) hd by (simp add: frag_len_def)
  have two: "mem_put (mem_put rec 0 hdr) 5 body = mem_put rec 0 (hdr @ body)"
    using mem_put_app [of 0 hdr body rec] assms(3,7,8) by simp
  have "body = [1] \<Longrightarrow> mem_put rec 0 (hdr @ body) ! 5 = 1"
    using assms(3) by (simp add: mem_put_def nth_append)
  moreover have "length hdr + length body \<le> length rec"
    using assms(3,7,8) by simp
  ultimately show ?thesis
    using w1 w2 assms(5-9) hd frag two assms(3)
    by (auto simp: wn_RecvRecord_def Let_def)
qed

lemma RecvRecord_ok:
  assumes "wn_RecvRecord recv w rec cap = (res, rec', w')" "5 \<le> cap" "cap \<le> length rec"
  shows "length rec' = length rec" "recv_bounded recv \<Longrightarrow> res \<noteq> Inl Oob"
    "res = Inr (t, n) \<Longrightarrow> 6 \<le> n \<and> n \<le> cap \<and> n \<le> 16645 \<and> t = rec' ! 0 \<and> n = frag_len rec' + 5 \<and>
        (t = 20 \<longrightarrow> n = 6 \<and> rec' ! 5 = 1)"
proof -
  obtain r1 hdr w1 where e1: "io_recv_exact recv w 5 [] = (r1, hdr, w1)"
    by (metis prod_cases3)
  note b1 = recv_exact_bounds [OF e1, simplified]
  define rec1 where "rec1 = mem_put rec 0 hdr"
  have l1: "length rec1 = length rec"
    using b1 assms(2,3) by (simp add: rec1_def)
  define frag where "frag = frag_len rec1"
  obtain r2 body w2 where e2: "io_recv_exact recv w1 frag [] = (r2, body, w2)"
    by (metis prod_cases3)
  note b2 = recv_exact_bounds [OF e2, simplified]
  have l2: "frag + 5 \<le> cap \<Longrightarrow> length (mem_put rec1 5 body) = length rec"
    using b2 l1 assms(3) by simp
  have low: "i < 5 \<Longrightarrow> mem_put rec1 5 body ! i = rec1 ! i" for i
    using l1 assms(2,3) by (simp add: mem_put_def nth_append)
  have frag': "frag_len (mem_put rec1 5 body) = frag"
    by (simp add: frag_def frag_len_def low)
  have room: "\<not> length rec < 5"
    using assms(2,3) by simp
  have r1: "r1 = Inr () \<or> (\<exists>e. r1 = Inl e)" and r2: "r2 = Inr () \<or> (\<exists>e. r2 = Inl e)"
    by (cases r1; cases r2; simp)+
  note code = assms(1) [unfolded wn_RecvRecord_def e1 Let_def prod.case if_not_P [OF room]
      rec1_def [symmetric] frag_def [symmetric] e2]
  show "length rec' = length rec"
    using code r1 r2 l1 l2 by (auto split: if_splits)
  show "recv_bounded recv \<Longrightarrow> res \<noteq> Inl Oob"
    using code r1 r2 b1 b2 l1 assms(3) by (auto split: if_splits)
  show "6 \<le> n \<and> n \<le> cap \<and> n \<le> 16645 \<and> t = rec' ! 0 \<and> n = frag_len rec' + 5 \<and>
      (t = 20 \<longrightarrow> n = 6 \<and> rec' ! 5 = 1)" if "res = Inr (t, n)"
    using that code r1 r2 low [of 0] frag' by (auto split: if_splits)
qed

text \<open>A transport that hands out only what is pending.\<close>

definition takes_from :: "'w io_recv \<Rightarrow> ('w \<Rightarrow> bytes) \<Rightarrow> bool" where
  "takes_from recv pend \<longleftrightarrow> (\<forall>w n bs w'. recv w n = (Some bs, w') \<longrightarrow> pend w = bs @ pend w')"

lemma recv_exact_takes:
  assumes "io_recv_exact recv w n acc = (Inr (), out, w')" "takes_from recv pend"
  shows "acc @ pend w = out @ pend w'"
  using assms
proof (induction recv w n acc rule: io_recv_exact.induct)
  case (1 recv w n acc)
  show ?case
  proof (cases "length acc < n")
    case True
    obtain r w1 where r: "recv w (n - length acc) = (r, w1)" by force
    note code = "1.prems"(1) [unfolded io_recv_exact.simps [of recv w n acc] r]
    obtain bs where bs: "r = Some bs" "bs \<noteq> []" "length bs \<le> n - length acc" "io_recv_exact recv w1 n (acc @ bs) = (Inr (), out, w')"
      using code True by (cases r) (auto split: if_splits)
    have "pend w = bs @ pend w1" using "1.prems"(2) r bs(1) unfolding takes_from_def by blast
    then show ?thesis
      using "1.IH" [OF True r [symmetric] bs(1,2) _ bs(4) "1.prems"(2)] bs(3) by simp
  qed (use 1 in \<open>simp add: recv_exact_cases(1)\<close>)
qed

text \<open>A record that is read is the next octets of the transport, and nothing beyond \<open>cap\<close> is stored.\<close>

lemma RecvRecord_takes:
  assumes "wn_RecvRecord recv w rec cap = (Inr (t, n), rec', w')" "5 \<le> cap" "cap \<le> length rec" "takes_from recv pend"
  shows "pend w = take n rec' @ pend w'"
proof -
  obtain r1 hdr w1 where e1: "io_recv_exact recv w 5 [] = (r1, hdr, w1)" by (metis prod_cases3)
  note b1 = recv_exact_bounds [OF e1, simplified]
  define frag where "frag = frag_len (mem_put rec 0 hdr)"
  obtain r2 body w2 where e2: "io_recv_exact recv w1 frag [] = (r2, body, w2)" by (metis prod_cases3)
  note b2 = recv_exact_bounds [OF e2, simplified]
  have room: "\<not> length rec < 5" using assms(2,3) by simp
  note code = assms(1) [unfolded wn_RecvRecord_def e1 Let_def prod.case if_not_P [OF room] frag_def [symmetric] e2]
  have r: "r1 = Inr ()" "r2 = Inr ()" "rec' = mem_put (mem_put rec 0 hdr) 5 body" "n = frag + 5" "w' = w2" "frag + 5 \<le> cap"
    using code by (cases r1; cases r2; simp split: if_splits)+
  have l: "length hdr = 5" "length body = frag" using b1 b2 r by simp_all
  have "rec' = mem_put rec 0 (hdr @ body)"
    using mem_put_app [of 0 hdr body rec] l r(3,6) assms(3) by simp
  then have "take n rec' = hdr @ body" using l r(4) by (simp add: mem_put_def)
  then show ?thesis
    using recv_exact_takes [OF e1 [unfolded r(1)] assms(4)] recv_exact_takes [OF e2 [unfolded r(2)] assms(4)] r(5) by simp
qed

lemma RecvRecord_tail:
  assumes "wn_RecvRecord recv w rec cap = (res, rec', w')" "5 \<le> cap" "cap \<le> length rec"
  shows "drop cap rec' = drop cap rec"
proof -
  have put: "drop cap (mem_put b off d) = drop cap b" if "off + length d \<le> cap" "cap \<le> length b" for b off d
    using that by (simp add: mem_put_def)
  obtain r1 hdr w1 where e1: "io_recv_exact recv w 5 [] = (r1, hdr, w1)" by (metis prod_cases3)
  note b1 = recv_exact_bounds [OF e1, simplified]
  define frag where "frag = frag_len (mem_put rec 0 hdr)"
  obtain r2 body w2 where e2: "io_recv_exact recv w1 frag [] = (r2, body, w2)" by (metis prod_cases3)
  note b2 = recv_exact_bounds [OF e2, simplified]
  have room: "\<not> length rec < 5" using assms(2,3) by simp
  note code = assms(1) [unfolded wn_RecvRecord_def e1 Let_def prod.case if_not_P [OF room] frag_def [symmetric] e2]
  have h: "drop cap (mem_put rec 0 hdr) = drop cap rec" "cap \<le> length (mem_put rec 0 hdr)"
    using b1 assms(2,3) by (simp_all add: put)
  have "frag + 5 \<le> cap \<Longrightarrow> drop cap (mem_put (mem_put rec 0 hdr) 5 body) = drop cap rec"
    using put [of 5 body "mem_put rec 0 hdr"] h b2 by simp
  then show ?thesis using code h by (cases r1; cases r2) (auto split: if_splits)
qed

subsection \<open>What a record says\<close>

text \<open>
  What a record says under a key, an IV and a counter (RFC 8446 5.2 and 5.3): the AEAD opens it, with the
  five octets of the header as additional data and the IV with the counter added in as nonce, to the content, its type
  and zeros.
\<close>

definition rfc_nonce :: "bytes \<Rightarrow> word64 \<Rightarrow> bytes" where
  "rfc_nonce iv sq = map2 (XOR) iv ([0, 0, 0, 0] @ map (\<lambda>k. ucast (drop_bit (8 * (7 - k)) sq)) [0..<8])"

definition opens_to :: "'x crypto \<Rightarrow> bytes \<Rightarrow> bytes \<Rightarrow> word64 \<Rightarrow> bytes \<Rightarrow> byte \<Rightarrow> bytes \<Rightarrow> bool" where
  "opens_to C key iv sq rec t m \<longleftrightarrow> 22 \<le> length rec \<and> t \<noteq> 0 \<and>
     (\<exists>z. wc_AesGcmDecrypt C (aead_ctx C key) (slice 5 (length rec - 21) rec) (rfc_nonce iv sq) (drop (length rec - 16) rec) (take 5 rec) =
        (0, m @ [t] @ replicate z 0))"

lemma BuildNonce_rfc: "length iv = 12 \<Longrightarrow> wn_BuildNonce iv sq = rfc_nonce iv sq"
  by (cases iv) (auto simp: BuildNonce_unfold rfc_nonce_def upt_rec length_Suc_conv numeral_eq_Suc)

lemma unpad_split:
  assumes "unpad c (length c) = Suc k"
  shows "c = take k c @ [c ! k] @ replicate (length c - Suc k) 0"
proof -
  have k: "k < length c" using unpad_le [of c "length c"] assms by simp
  have "drop (Suc k) c = replicate (length c - Suc k) 0"
    using unpad_zeros [where c = c and n = "length c"] assms by (auto intro!: nth_equalityI)
  then show ?thesis using id_take_nth_drop [OF k] by simp
qed

lemma Unprotect_opens:
  assumes "aead_ok C" "length key = 16" "length iv = 12"
    and un: "wn_Record_Unprotect C (Some key) (Some iv) sq (Some rec) = (Inr (n, t), inner)"
  shows "opens_to C key iv sq rec t (take n inner)"
proof -
  have b: "22 \<le> length rec" "length inner = length rec - 21" "n < length inner" "t = inner ! n" "t \<noteq> 0"
    using Unprotect_bounds(3) [OF assms(1) un refl] by blast+
  obtain a0 where a: "wc_AesInit C = (0, a0)" "wc_AesGcmSetKey C a0 key = (0, aead_ctx C key)"
    by (rule aead_setup [OF assms(1,2)])
  obtain r2 c where d: "wc_AesGcmDecrypt C (aead_ctx C key) (slice 5 (length rec - 21) rec) (wn_BuildNonce iv sq)
      (slice (length rec - 16) 16 rec) (take 5 rec) = (r2, c)" by force
  have "r2 = 0 \<and> c = inner \<and> unpad inner (length inner) = Suc n"
    using un b(1-3) by (auto simp: wn_Record_Unprotect_def a d Let_def split: if_splits)
  then have "r2 = 0" "c = take n inner @ [t] @ replicate (length inner - Suc n) 0"
    using unpad_split [of inner n] b(4) by simp_all
  moreover have "slice (length rec - 16) 16 rec = drop (length rec - 16) rec" using b(1) by (simp add: slice_def)
  ultimately show ?thesis
    using d b(1,5) BuildNonce_rfc [OF assms(3)] unfolding opens_to_def by metis
qed

subsection \<open>The record channel\<close>

text \<open>
  What the session relies on: a record sealed under a good key and a sequence number opens
  under the same pair. A sender and a receiver that count their records alike then agree on
  the whole sequence of messages.
\<close>

locale record_channel =
  fixes sealf :: "'k \<Rightarrow> word64 \<Rightarrow> byte \<times> bytes \<Rightarrow> bytes"
    and openf :: "'k \<Rightarrow> word64 \<Rightarrow> bytes \<Rightarrow> (byte \<times> bytes) option"
    and good :: "'k \<Rightarrow> bool" and fits :: "byte \<times> bytes \<Rightarrow> bool"
  assumes open_sealed: "good k \<Longrightarrow> fits m \<Longrightarrow> openf k s (sealf k s m) = Some m"
begin

fun send_all :: "'k \<Rightarrow> word64 \<Rightarrow> (byte \<times> bytes) list \<Rightarrow> bytes list" where
  "send_all k s [] = []"
| "send_all k s (m # ms) = sealf k s m # send_all k (s + 1) ms"

fun recv_all :: "'k \<Rightarrow> word64 \<Rightarrow> bytes list \<Rightarrow> (byte \<times> bytes) option list" where
  "recv_all k s [] = []"
| "recv_all k s (r # rs) = openf k s r # recv_all k (s + 1) rs"

lemma in_order: "good k \<Longrightarrow> list_all fits ms \<Longrightarrow> recv_all k s (send_all k s ms) = map Some ms"
  by (induction ms arbitrary: s) (simp_all add: open_sealed)

end

text \<open>The channel of the code: protect into a fresh buffer, and deprotect.\<close>

definition protect_one :: "'x crypto \<times> bytes \<times> bytes \<Rightarrow> word64 \<Rightarrow> byte \<times> bytes \<Rightarrow> bytes" where
  "protect_one k sq m = (case k of (C, key, iv) \<Rightarrow> case m of (t, content) \<Rightarrow>
     (case wn_Record_Protect C (replicate (length content + 22) 0) (Some key) (Some iv) sq t (Some content) of
        (Inr n, rec) \<Rightarrow> take n rec | (Inl _, _) \<Rightarrow> []))"

definition unprotect_one :: "'x crypto \<times> bytes \<times> bytes \<Rightarrow> word64 \<Rightarrow> bytes \<Rightarrow> (byte \<times> bytes) option" where
  "unprotect_one k sq rec = (case k of (C, key, iv) \<Rightarrow>
     (case wn_Record_Unprotect C (Some key) (Some iv) sq (Some rec) of
        (Inr (n, t), out) \<Rightarrow> Some (t, take n out) | (Inl _, _) \<Rightarrow> None))"

definition good_key :: "'x crypto \<times> bytes \<times> bytes \<Rightarrow> bool" where
  "good_key k = (case k of (C, key, iv) \<Rightarrow> aead_ok C \<and> length key = 16 \<and> length iv = 12)"

definition record_fits :: "byte \<times> bytes \<Rightarrow> bool" where
  "record_fits m \<longleftrightarrow> fst m \<noteq> 0 \<and> length (snd m) \<le> 16384"

lemma protect_one_seal:
  assumes "good_key (C, key, iv)" "length content \<le> 16384"
  shows "protect_one (C, key, iv) sq (t, content) = seal C key iv sq t content"
  using assms Protect_seal [of C key iv content "replicate (length content + 22) 0" sq t]
    length_seal [of C key iv sq t content]
  by (simp add: protect_one_def good_key_def mem_put_def)

interpretation rc: record_channel protect_one unprotect_one good_key record_fits
proof unfold_locales
  fix k :: "'x crypto \<times> bytes \<times> bytes" and m s
  assume "good_key k" "record_fits m"
  then show "unprotect_one k s (protect_one k s m) = Some m"
    by (cases k; cases m)
       (simp add: protect_one_seal record_fits_def, simp add: unprotect_one_def good_key_def Unprotect_seal)
qed

subsection \<open>Properties\<close>

text \<open>C7. Round trip of the record layer: a record that \<open>wn_Record_Protect\<close> built, with any
  content type but zero and at most \<open>2^14\<close> bytes, has the TLSCiphertext header with its own
  length, and \<open>wn_Record_Unprotect\<close> under the same key, IV and sequence number returns the
  content and its type; bytes of the buffer behind the record are not touched.\<close>

theorem record_roundtrip:
  assumes "aead_ok C" "length key = 16" "length iv = 12" "t \<noteq> 0" "length content \<le> 16384"
    and "length content + 22 \<le> length rec"
  shows "\<exists>rec'. wn_Record_Protect C rec (Some key) (Some iv) sq t (Some content) = (Inr (length content + 22), rec')
     \<and> take 5 rec' = record_header (length content + 17)
     \<and> drop (length content + 22) rec' = drop (length content + 22) rec
     \<and> wn_Record_Unprotect C (Some key) (Some iv) sq (Some (take (length content + 22) rec'))
       = (Inr (length content, t), content @ [t])"
proof -
  let ?r = "seal C key iv sq t content"
  have len: "length ?r = length content + 22"
    using assms by (simp add: length_seal)
  have "take (length content + 22) (mem_put rec 0 ?r) = ?r"
      "drop (length content + 22) (mem_put rec 0 ?r) = drop (length content + 22) rec"
    using len assms(6) by (simp_all add: mem_put_def)
  moreover have "take 5 (mem_put rec 0 ?r) = take 5 ?r"
    using len by (simp add: mem_put_def)
  ultimately show ?thesis
    using assms by (simp add: Protect_seal Unprotect_seal seal_header)
qed

theorem record_roundtrip_witness:
  "\<exists>rec'. wn_Record_Protect toy_provider (replicate 30 7) (Some (replicate 16 1)) (Some (replicate 12 2)) 5 23
        (Some [1, 2, 3]) = (Inr (length [1 :: byte, 2, 3] + 22), rec')
     \<and> take 5 rec' = record_header (length [1 :: byte, 2, 3] + 17)
     \<and> drop (length [1 :: byte, 2, 3] + 22) rec' = drop (length [1 :: byte, 2, 3] + 22) (replicate 30 7)
     \<and> wn_Record_Unprotect toy_provider (Some (replicate 16 1)) (Some (replicate 12 2)) 5
         (Some (take (length [1 :: byte, 2, 3] + 22) rec'))
       = (Inr (length [1 :: byte, 2, 3], 23), [1, 2, 3] @ [23])"
  by (rule record_roundtrip) (simp_all add: toy_aead_ok)

text \<open>Nonces are never shared: under one 12-byte IV two sequence numbers give the same
  nonce only if they are equal, over the whole 64-bit range.\<close>

theorem nonce_unique:
  assumes "length iv = 12"
  shows "wn_BuildNonce iv s = wn_BuildNonce iv t \<longleftrightarrow> s = t"
  using BuildNonce_inj [OF assms] by blast

theorem nonce_unique_witness:
  "wn_BuildNonce (replicate 12 9) 1 = wn_BuildNonce (replicate 12 9) 2 \<longleftrightarrow> (1 :: word64) = 2"
  by (rule nonce_unique) simp

text \<open>C19. Padding: whatever the authenticated inner plaintext is, its trailing zeros are
  padding, the last non-zero byte is the content type and the bytes before it the content;
  an inner plaintext of zeros only has no type and is a decode error.\<close>

theorem inner_plaintext_padding:
  assumes "aead_ok C" "length key = 16" "length rec = length inner + 21"
    and "wc_AesGcmDecrypt C (aead_ctx C key) (slice 5 (length inner) rec) (wn_BuildNonce iv sq)
           (slice (5 + length inner) 16 rec) (take 5 rec) = (0, inner)"
    and "inner = body @ replicate k 0" "body = [] \<and> k \<noteq> 0 \<or> body \<noteq> [] \<and> last body \<noteq> 0"
  shows "wn_Record_Unprotect C (Some key) (Some iv) sq (Some rec) =
    (if body = [] then Inl E_DECODE else Inr (length body - 1, last body), inner)"
proof -
  have ne: "inner \<noteq> []"
    using assms(5,6) by auto
  note u = Unprotect_inner [OF assms(1-3) ne assms(4)]
  show ?thesis
  proof (cases "body = []")
    case True
    then have "unpad inner (length inner) = 0"
      unfolding unpad_0 using assms(5) by simp
    then show ?thesis using u True by simp
  next
    case False
    then have b: "body = butlast body @ [last body]" "last body \<noteq> 0"
      using assms(6) by auto
    then have "inner = butlast body @ last body # replicate k 0"
      using assms(5) by (metis append.assoc append_Cons append_Nil)
    moreover have "length inner = length (butlast body) + 1 + k"
      using False assms(5) by (cases body) simp_all
    ultimately have n: "unpad inner (length inner) = length (butlast body) + 1"
      using unpad_inner [OF b(2), of "butlast body" k] by simp
    have "inner ! (length body - 1) = last body"
      using False assms(5) by (simp add: nth_append last_conv_nth)
    then show ?thesis using u n False by simp
  qed
qed

theorem inner_plaintext_padding_witness:
  "wn_Record_Unprotect toy_provider (Some (replicate 16 0)) (Some (replicate 12 0)) 0
     (Some (record_header 19 @ [8, 23, 0] @ fit 16 (replicate 12 0 @ replicate 16 0)))
   = (if [8 :: byte, 23] = [] then Inl E_DECODE else Inr (length [8 :: byte, 23] - 1, last [8, 23]), [8, 23, 0])"
proof (rule inner_plaintext_padding [where k = 1])
  have "wn_BuildNonce (replicate 12 0) 0 = replicate 12 0"
    by (simp add: BuildNonce_unfold numeral_eq_Suc)
  then show "wc_AesGcmDecrypt toy_provider (aead_ctx toy_provider (replicate 16 0))
      (slice 5 (length [8, 23, 0]) (record_header 19 @ [8, 23, 0] @ fit 16 (replicate 12 0 @ replicate 16 0)))
      (wn_BuildNonce (replicate 12 0) 0)
      (slice (5 + length [8, 23, 0]) 16 (record_header 19 @ [8, 23, 0] @ fit 16 (replicate 12 0 @ replicate 16 0)))
      (take 5 (record_header 19 @ [8, 23, 0] @ fit 16 (replicate 12 0 @ replicate 16 0))) = (0, [8, 23, 0])"
    by (simp add: toy_provider_def aead_ctx_def slice_def toy_mix_def)
qed (simp_all add: toy_aead_ok)

text \<open>C18. Reading a record never writes outside the record buffer, whatever the transport
  delivers within what it was asked for, and a record it accepts is between 6 bytes and
  the buffer's capacity, at most \<open>2^14 + 256 + 5\<close>, its length field is its length, and a
  ChangeCipherSpec is the single byte 1.\<close>

theorem recv_record_bounds:
  assumes "recv_bounded recv" "5 \<le> cap" "cap \<le> length rec"
  shows "case wn_RecvRecord recv w rec cap of (res, rec', w') \<Rightarrow>
    length rec' = length rec \<and>
    (case res of Inl e \<Rightarrow> e \<noteq> Oob
     | Inr (t, n) \<Rightarrow> 6 \<le> n \<and> n \<le> cap \<and> n \<le> 16645 \<and> t = rec' ! 0 \<and> n = frag_len rec' + 5 \<and>
         (if t = 20 then n = 6 \<and> rec' ! 5 = 1 else True))"
proof (cases "wn_RecvRecord recv w rec cap")
  case (fields res rec' w')
  show ?thesis
    using RecvRecord_ok [OF fields assms(2,3)] assms(1) by (cases res) (auto simp: fields)
qed

text \<open>C17. The chunking of the transport is irrelevant: if the stream starts with a well-formed
  record that fits, then however the transport splits it the record buffer ends up holding
  exactly that record and the stream is left at the byte after it.\<close>

theorem recv_record_chunking:
  assumes "recv_stream recv pend" "pend w = hdr @ body @ rest" "length hdr = 5"
    and "frag_len hdr = length body" "body \<noteq> []" "length body \<le> 16640"
    and "length body + 5 \<le> cap" "cap \<le> length rec" "hdr ! 0 \<noteq> 20 \<or> body = [1]"
  shows "\<exists>w'. wn_RecvRecord recv w rec cap
           = (Inr (hdr ! 0, length body + 5), mem_put rec 0 (hdr @ body), w') \<and> pend w' = rest"
  using RecvRecord_stream [OF assms(1-8)] assms(9) by blast

text \<open>The transport of the witnesses holds the bytes to deliver and yields one at a time.\<close>

definition byte_recv :: "bytes io_recv" where
  "byte_recv w n = (case w of [] \<Rightarrow> (None, []) | b # bs \<Rightarrow> if n = 0 then (Some [], w) else (Some [b], bs))"

lemma byte_recv_stream: "recv_stream byte_recv (\<lambda>w. w)"
  by (auto simp: recv_stream_def byte_recv_def neq_Nil_conv)

lemma byte_recv_bounded: "recv_bounded byte_recv"
  by (auto simp: recv_bounded_def byte_recv_def split: list.split)

theorem recv_record_bounds_witness:
  "case wn_RecvRecord byte_recv [20, 3, 3, 0, 1, 1] (replicate 8 0) 8 of (res, rec', w') \<Rightarrow>
    length rec' = length (replicate 8 (0 :: byte)) \<and>
    (case res of Inl e \<Rightarrow> e \<noteq> Oob
     | Inr (t, n) \<Rightarrow> 6 \<le> n \<and> n \<le> 8 \<and> n \<le> 16645 \<and> t = rec' ! 0 \<and> n = frag_len rec' + 5 \<and>
         (if t = 20 then n = 6 \<and> rec' ! 5 = 1 else True))"
  by (rule recv_record_bounds) (simp_all add: byte_recv_bounded)

theorem recv_record_chunking_witness:
  "\<exists>w'. wn_RecvRecord byte_recv ([23, 3, 3, 0, 2] @ [8, 9] @ [4]) (replicate 8 0) 8
     = (Inr ([23, 3, 3, 0, 2] ! 0, length [8 :: byte, 9] + 5), mem_put (replicate 8 0) 0 ([23, 3, 3, 0, 2] @ [8, 9]), w')
     \<and> w' = [4]"
  by (rule recv_record_chunking [where pend = "\<lambda>w. w"]) (simp_all add: byte_recv_stream frag_len_eq)

end
