(* ===== verification/Session.thy ===== *)
theory Session
  imports Msg KeySchedule RecordLayer
begin

section \<open>The application-data session (wn_session.c)\<close>

text \<open>
  The established connection: the traffic secrets, keys and counters of both directions,
  the caller's scratch buffer, and the operations send, receive and close with the
  post-handshake messages. \<open>ioCtx\<close> is the world \<open>'w\<close> that the callbacks move; calling a
  null callback is \<open>Oob\<close>. Every operation returns its result, the new session and the new
  world. The receive loop ends only if the peer lets it, so it is a partial function.
\<close>

record 'w session =
  ioSend :: "'w io_send option"
  ioRecv :: "'w io_recv option"
  scratch :: bytes
  scratchLen :: nat
  cAppSecret :: bytes
  sAppSecret :: bytes
  cKey :: bytes
  cIv :: bytes
  sKey :: bytes
  sIv :: bytes
  cSeq :: word64
  sSeq :: word64
  sdigest :: wc_digest
  sflags :: "32 word"

text \<open>The flag bits \<open>WN_SESS_ESTABLISHED\<close> (1) and \<open>WN_SESS_CLOSED\<close> (2).\<close>

definition sess_established :: "'w session \<Rightarrow> bool" where
  "sess_established s \<longleftrightarrow> sflags s AND 1 \<noteq> 0"

definition sess_closed :: "'w session \<Rightarrow> bool" where
  "sess_closed s \<longleftrightarrow> sflags s AND 2 \<noteq> 0"

text \<open>\<open>s->ioSend(s->ioCtx, rec, recLen) != (int)recLen\<close>.\<close>

definition session_send :: "'w session \<Rightarrow> 'w \<Rightarrow> bytes \<Rightarrow> (wn_err + unit) \<times> 'w" where
  "session_send s w bs =
     (case ioSend s of None \<Rightarrow> (Inl Oob, w)
      | Some send \<Rightarrow> (case send w bs of
          (r, w') \<Rightarrow> (if r \<noteq> int (length bs) then Inl E_CRYPTO else Inr (), w')))"

subsection \<open>Post-handshake messages\<close>

definition wn_session_send_key_update ::
  "'x crypto \<Rightarrow> 'w session \<Rightarrow> 'w \<Rightarrow> (wn_err + unit) \<times> 'w session \<times> 'w" where
  "wn_session_send_key_update C s w =
     (case wn_Record_Protect C (replicate 27 0) (Some (cKey s)) (Some (cIv s)) (cSeq s) 22
             (Some [24, 0, 0, 1, 0]) of
        (Inl e, _) \<Rightarrow> (Inl e, s, w)
      | (Inr recLen, rec) \<Rightarrow>
          let s1 = s\<lparr>cSeq := cSeq s + 1\<rparr> in
          case session_send s1 w (take recLen rec) of
            (Inl e, w') \<Rightarrow> (Inl e, s1, w')
          | (Inr _, w') \<Rightarrow>
              case wn_Tls13_KeyUpdate C (cAppSecret s1) (cKey s1) (cIv s1) (sdigest s1) of
                (rc, secret, key, iv) \<Rightarrow>
                  let s2 = s1\<lparr>cAppSecret := secret, cKey := key, cIv := iv\<rparr> in
                  if rc \<noteq> WOLFNANO_SUCCESS then (Inl (code_err rc), s2, w')
                  else (Inr (), s2\<lparr>cSeq := 0\<rparr>, w'))"

text \<open>The read side of a KeyUpdate: \<open>wn_Tls13_KeyUpdate\<close> on the peer's keys and counter reset.\<close>

definition rekey_read :: "'x crypto \<Rightarrow> 'w session \<Rightarrow> (wn_err + unit) \<times> 'w session" where
  "rekey_read C s =
     (case wn_Tls13_KeyUpdate C (sAppSecret s) (sKey s) (sIv s) (sdigest s) of
        (rc, secret, key, iv) \<Rightarrow>
          let s1 = s\<lparr>sAppSecret := secret, sKey := key, sIv := iv\<rparr> in
          if rc \<noteq> WOLFNANO_SUCCESS then (Inl (code_err rc), s1) else (Inr (), s1\<lparr>sSeq := 0\<rparr>))"

text \<open>One message of a decrypted handshake record: the reader behind it, or the error.\<close>

definition posths_step ::
  "'x crypto \<Rightarrow> reader \<Rightarrow> 'w session \<Rightarrow> 'w \<Rightarrow> (wn_err + reader) \<times> 'w session \<times> 'w" where
  "posths_step C r s w =
     (case wn_Read_U8 r of (mType, r1) \<Rightarrow> case wn_Read_U24 r1 of (mLen, r2) \<Rightarrow>
        if mType = 4 then
          (case wn_Read_Bytes mLen r2 of (_, r3) \<Rightarrow> (if rerr r3 then Inl E_DECODE else Inr r3, s, w))
        else if mType = 24 then
          (case wn_Read_U8 r2 of (req, r3) \<Rightarrow>
             if rerr r3 \<or> mLen \<noteq> 1 \<or> req > 1 then (Inl E_DECODE, s, w)
             else case rekey_read C s of
               (Inl e, s1) \<Rightarrow> (Inl e, s1, w)
             | (Inr _, s1) \<Rightarrow>
                 if req = 1 then
                   (case wn_session_send_key_update C s1 w of
                      (Inl e, s2, w') \<Rightarrow> (Inl e, s2, w')
                    | (Inr _, s2, w') \<Rightarrow> (Inr r3, s2, w'))
                 else (Inr r3, s1, w))
        else (Inl E_UNEXPECTED_MSG, s, w))"

text \<open>
  The loop. Each turn consumes at least four bytes or ends, so fuel of one more than the
  record's length is never used up; running out of it would be \<open>Oob\<close>.
\<close>

fun posths_loop ::
  "'x crypto \<Rightarrow> nat \<Rightarrow> reader \<Rightarrow> 'w session \<Rightarrow> 'w \<Rightarrow> (wn_err + unit) \<times> 'w session \<times> 'w" where
  "posths_loop C 0 r s w = (Inl Oob, s, w)"
| "posths_loop C (Suc k) r s w =
     (if \<not> rpos r < rlen r then (Inr (), s, w)
      else case posths_step C r s w of
        (Inl e, s', w') \<Rightarrow> (Inl e, s', w')
      | (Inr r', s', w') \<Rightarrow> posths_loop C k r' s' w')"

definition wn_session_posths ::
  "'x crypto \<Rightarrow> 'w session \<Rightarrow> 'w \<Rightarrow> bytes \<Rightarrow> (wn_err + unit) \<times> 'w session \<times> 'w" where
  "wn_session_posths C s w msg =
     posths_loop C (length msg + 1) (wn_Reader_Init msg (length msg)) s w"

subsection \<open>Send\<close>

definition wn_Send ::
  "'x crypto \<Rightarrow> 'w session \<Rightarrow> bytes option \<Rightarrow> 'w \<Rightarrow> (wn_err + unit) \<times> 'w session \<times> 'w" where
  "wn_Send C s data w =
     (if data = None then (Inl E_INVALID_ARG, s, w)
      else if sess_closed s then (Inl E_CLOSED, s, w)
      else if \<not> sess_established s then (Inl E_BAD_STATE, s, w)
      else if length (the data) > 16384 \<or> scratchLen s < 22 \<or> length (the data) > scratchLen s - 22
      then (Inl E_INVALID_ARG, s, w)
      else case wn_Record_Protect C (scratch s) (Some (cKey s)) (Some (cIv s)) (cSeq s) 23 data of
          (Inl e, sc) \<Rightarrow> (Inl e, s\<lparr>scratch := sc\<rparr>, w)
        | (Inr recLen, sc) \<Rightarrow>
            let s1 = s\<lparr>scratch := sc, cSeq := cSeq s + 1\<rparr> in
            case session_send s1 w (take recLen sc) of (r, w') \<Rightarrow> (r, s1, w'))"

subsection \<open>Receive\<close>

text \<open>
  What one decrypted record does: \<open>Inr True\<close> when application data was delivered into
  \<open>out\<close> (and \<open>outLen\<close>), \<open>Inr False\<close> when the loop goes on.
\<close>

definition recv_dispatch ::
  "'x crypto \<Rightarrow> byte \<Rightarrow> bytes \<Rightarrow> bytes \<Rightarrow> nat \<Rightarrow> 'w session \<Rightarrow> 'w \<Rightarrow>
   (wn_err + bool) \<times> bytes \<times> nat \<times> 'w session \<times> 'w" where
  "recv_dispatch C ctype plain out outLen s w =
     (if ctype = 23 then
        (if length plain > length out then (Inl E_INVALID_ARG, out, outLen, s, w)
         else (Inr True, mem_put out 0 plain, length plain, s, w))
      else if ctype = 22 then
        (case wn_session_posths C s w plain of
           (Inl e, s', w') \<Rightarrow> (Inl e, out, outLen, s', w')
         | (Inr _, s', w') \<Rightarrow> (Inr False, out, outLen, s', w'))
      else if ctype = 21 then
        (if length plain \<ge> 2 \<and> plain ! 1 = 0
         then (Inl E_CLOSED, out, outLen, s\<lparr>sflags := sflags s OR 2\<rparr>, w)
         else (Inl E_CRYPTO, out, outLen, s, w))
      else (Inl E_UNEXPECTED_MSG, out, outLen, s, w))"

text \<open>\<open>ForceZero(plain, plainLen)\<close> on the plaintext staged behind the record header.\<close>

definition wipe_plain :: "nat \<Rightarrow> 'w session \<Rightarrow> 'w session" where
  "wipe_plain n s = s\<lparr>scratch := mem_put (scratch s) 5 (replicate n 0)\<rparr>"

definition recv_step ::
  "'x crypto \<Rightarrow> 'w session \<Rightarrow> bytes \<Rightarrow> nat \<Rightarrow> 'w \<Rightarrow>
   (wn_err + bool) \<times> bytes \<times> nat \<times> 'w session \<times> 'w" where
  "recv_step C s out outLen w =
     (case ioRecv s of None \<Rightarrow> (Inl Oob, out, outLen, s, w)
      | Some recv \<Rightarrow>
      case wn_RecvRecord recv w (scratch s) (scratchLen s) of
        (Inl e, sc, w1) \<Rightarrow> (Inl e, out, outLen, s\<lparr>scratch := sc\<rparr>, w1)
      | (Inr (rtype, recLen), sc, w1) \<Rightarrow>
          if rtype = 20 then (Inl E_UNEXPECTED_MSG, out, outLen, s\<lparr>scratch := sc\<rparr>, w1)
          else case wn_Record_Unprotect C (Some (sKey s)) (Some (sIv s)) (sSeq s) (Some (take recLen sc)) of
            (Inl e, inner) \<Rightarrow> (Inl e, out, outLen, s\<lparr>scratch := mem_put sc 5 inner\<rparr>, w1)
          | (Inr (plainLen, ctype), inner) \<Rightarrow>
              case recv_dispatch C ctype (take plainLen inner) out outLen
                     (s\<lparr>scratch := mem_put sc 5 inner, sSeq := sSeq s + 1\<rparr>) w1 of
                (r, out', outLen', s', w') \<Rightarrow> (r, out', outLen', wipe_plain plainLen s', w'))"

partial_function (option) recv_loop ::
  "'x crypto \<Rightarrow> 'w session \<Rightarrow> bytes \<Rightarrow> nat \<Rightarrow> 'w \<Rightarrow>
   ((wn_err + unit) \<times> bytes \<times> nat \<times> 'w session \<times> 'w) option" where
  "recv_loop C s out outLen w =
     (case recv_step C s out outLen w of
        (Inl e, out', outLen', s', w') \<Rightarrow> Some (Inl e, out', outLen', s', w')
      | (Inr fin, out', outLen', s', w') \<Rightarrow>
          if fin then Some (Inr (), out', outLen', s', w')
          else recv_loop C s' out' outLen' w')"

text \<open>\<open>None\<close>: the call never returns, the peer sends post-handshake records for ever.\<close>

definition wn_Recv ::
  "'x crypto \<Rightarrow> 'w session \<Rightarrow> bytes option \<Rightarrow> nat \<Rightarrow> 'w \<Rightarrow>
   ((wn_err + unit) \<times> bytes \<times> nat \<times> 'w session \<times> 'w) option" where
  "wn_Recv C s out outLen w =
     (case out of None \<Rightarrow> Some (Inl E_INVALID_ARG, [], outLen, s, w)
      | Some buf \<Rightarrow>
        if sess_closed s then Some (Inl E_CLOSED, buf, outLen, s, w)
        else if \<not> sess_established s then Some (Inl E_BAD_STATE, buf, outLen, s, w)
        else recv_loop C s buf 0 w)"

subsection \<open>Close\<close>

text \<open>\<open>ForceZero(s, sizeof(*s))\<close>: every field is zero, the pointers are null.\<close>

definition session_zero :: "'w session" where
  "session_zero =
     \<lparr>ioSend = None, ioRecv = None, scratch = [], scratchLen = 0,
      cAppSecret = replicate 32 0, sAppSecret = replicate 32 0,
      cKey = replicate 16 0, cIv = replicate 12 0, sKey = replicate 16 0, sIv = replicate 12 0,
      cSeq = 0, sSeq = 0, sdigest = WC_OTHER 0, sflags = 0\<rparr>"

definition wn_Close :: "'x crypto \<Rightarrow> 'w session \<Rightarrow> 'w \<Rightarrow> (wn_err + unit) \<times> 'w session \<times> 'w" where
  "wn_Close C s w =
     (if \<not> sess_closed s \<and> sess_established s \<and> ioSend s \<noteq> None then
        (case wn_Record_Protect C (replicate 24 0) (Some (cKey s)) (Some (cIv s)) (cSeq s) 21 (Some [1, 0]) of
           (Inl e, _) \<Rightarrow> (Inl e, session_zero, w)
         | (Inr recLen, rec) \<Rightarrow> (Inr (), session_zero, snd (the (ioSend s) w (take recLen rec))))
      else (Inr (), session_zero, w))"

subsection \<open>The session invariant\<close>

definition sess_ok :: "'w session \<Rightarrow> bool" where
  "sess_ok s \<longleftrightarrow>
     length (cAppSecret s) = 32 \<and> length (sAppSecret s) = 32 \<and>
     length (cKey s) = 16 \<and> length (sKey s) = 16 \<and> length (cIv s) = 12 \<and> length (sIv s) = 12 \<and>
     sdigest s = WC_SHA256 \<and> 22 \<le> scratchLen s \<and> scratchLen s \<le> length (scratch s) \<and>
     ioSend s \<noteq> None \<and> ioRecv s \<noteq> None"

text \<open>What the reads and rekeyings of a session leave alone.\<close>

definition same_frame :: "'w session \<Rightarrow> 'w session \<Rightarrow> bool" where
  "same_frame s t \<longleftrightarrow> ioSend t = ioSend s \<and> ioRecv t = ioRecv s \<and> scratch t = scratch s \<and>
     scratchLen t = scratchLen s \<and> sdigest t = sdigest s \<and> sflags t = sflags s"

lemma same_frame_refl [simp]: "same_frame s s"
  by (simp add: same_frame_def)

lemma same_frame_trans: "same_frame s t \<Longrightarrow> same_frame t u \<Longrightarrow> same_frame s u"
  by (simp add: same_frame_def)

text \<open>The two rekeyings as functions of the session.\<close>

definition next_secret :: "'x crypto \<Rightarrow> bytes \<Rightarrow> bytes" where
  "next_secret C secret = hkdf_expand C 32 secret ''traffic upd'' []"

definition rekey_r :: "'x crypto \<Rightarrow> 'w session \<Rightarrow> 'w session" where
  "rekey_r C s = (let n = next_secret C (sAppSecret s) in
     s\<lparr>sAppSecret := n, sKey := hkdf_expand C 16 n ''key'' [], sIv := hkdf_expand C 12 n ''iv'' [], sSeq := 0\<rparr>)"

definition rekey_w :: "'x crypto \<Rightarrow> 'w session \<Rightarrow> 'w session" where
  "rekey_w C s = (let n = next_secret C (cAppSecret s) in
     s\<lparr>cAppSecret := n, cKey := hkdf_expand C 16 n ''key'' [], cIv := hkdf_expand C 12 n ''iv'' [], cSeq := 0\<rparr>)"

lemma rekey_ok:
  "kdf_ok C \<Longrightarrow> sess_ok s \<Longrightarrow> sess_ok (rekey_r C s)" "kdf_ok C \<Longrightarrow> sess_ok s \<Longrightarrow> sess_ok (rekey_w C s)"
  by (simp_all add: sess_ok_def rekey_r_def rekey_w_def next_secret_def Let_def)

lemma rekey_read_eq: "kdf_ok C \<Longrightarrow> sess_ok s \<Longrightarrow> rekey_read C s = (Inr (), rekey_r C s)"
  by (simp add: rekey_read_def sess_ok_def KeyUpdate_steps Let_def WOLFNANO_SUCCESS_def rekey_r_def
      next_secret_def)

text \<open>The KeyUpdate record.\<close>

definition ku_record :: "'x crypto \<Rightarrow> 'w session \<Rightarrow> bytes" where
  "ku_record C s = seal C (cKey s) (cIv s) (cSeq s) 22 [24, 0, 0, 1, 0]"

lemma send_key_update_eq:
  assumes "aead_ok C" "kdf_ok C" "sess_ok s"
  shows "wn_session_send_key_update C s w =
    (case session_send (s\<lparr>cSeq := cSeq s + 1\<rparr>) w (ku_record C s) of
       (Inl e, w') \<Rightarrow> (Inl e, s\<lparr>cSeq := cSeq s + 1\<rparr>, w')
     | (Inr _, w') \<Rightarrow> (Inr (), rekey_w C s, w'))"
proof -
  have k: "length (cKey s) = 16" "length (cIv s) = 12" "length (cAppSecret s) = 32" "sdigest s = WC_SHA256"
    using assms(3) by (simp_all add: sess_ok_def)
  have p: "wn_Record_Protect C (replicate 27 0) (Some (cKey s)) (Some (cIv s)) (cSeq s) 22
      (Some [24, 0, 0, 1, 0]) = (Inr 27, mem_put (replicate 27 0) 0 (ku_record C s))"
    using Protect_seal [OF assms(1) k(1,2), of "[24, 0, 0, 1, 0]" "replicate 27 0"]
    by (simp add: ku_record_def)
  have "length (ku_record C s) = 27"
    using length_seal [OF assms(1) k(1,2)] by (simp add: ku_record_def)
  then have t: "take 27 (mem_put (replicate 27 0) 0 (ku_record C s)) = ku_record C s"
    by (simp add: mem_put_def)
  show ?thesis
    unfolding wn_session_send_key_update_def p
    by (simp add: t KeyUpdate_steps [OF assms(2)] k Let_def rekey_w_def next_secret_def
        WOLFNANO_SUCCESS_def split: prod.split sum.split)
qed

lemma sess_ok_seq [simp]: "sess_ok (s\<lparr>cSeq := n\<rparr>) = sess_ok s" "sess_ok (s\<lparr>sSeq := n\<rparr>) = sess_ok s"
  by (simp_all add: sess_ok_def)

lemma send_key_update_ok:
  assumes "aead_ok C" "kdf_ok C" "sess_ok s" "wn_session_send_key_update C s w = (r, s', w')"
  shows "sess_ok s'" "same_frame s s'" "r \<noteq> Inl Oob"
  using assms(4) assms(3) rekey_ok(2) [OF assms(2,3)] unfolding send_key_update_eq [OF assms(1-3)]
  by (auto simp: rekey_w_def same_frame_def Let_def session_send_def sess_ok_def
      split: prod.splits sum.splits if_splits option.splits)

lemma rekey_read_ok:
  assumes "kdf_ok C" "sess_ok s" "rekey_read C s = (r, s')"
  shows "sess_ok s'" "same_frame s s'" "r = Inr ()"
  using assms rekey_ok(1) [OF assms(1,2)]
  by (auto simp: rekey_read_eq) (simp add: rekey_r_def same_frame_def Let_def)

text \<open>
  Anything that both rekeyings keep, the loop over the post-handshake messages keeps; and
  with fuel for the bytes left it does not run out.
\<close>

lemma posths_step_inv:
  assumes "posths_step C r s w = (res, s', w')" "P s"
    and "\<And>s r s'. P s \<Longrightarrow> rekey_read C s = (r, s') \<Longrightarrow> P s'"
    and "\<And>s w r s' w'. P s \<Longrightarrow> wn_session_send_key_update C s w = (r, s', w') \<Longrightarrow> P s'"
  shows "P s'"
proof -
  obtain x1 s1 where k: "rekey_read C s = (x1, s1)" by force
  obtain x2 s2 v where u: "wn_session_send_key_update C s1 w = (x2, s2, v)" by (metis prod_cases3)
  have "P s1" using assms(3) [OF assms(2) k] .
  moreover from this have "P s2" using assms(4) u by blast
  ultimately show ?thesis
    using assms(1,2) by (simp add: posths_step_def k u split: prod.splits if_splits sum.splits)
qed

lemma posths_inv:
  assumes "\<And>s r s'. P s \<Longrightarrow> rekey_read C s = (r, s') \<Longrightarrow> P s'"
    and "\<And>s w r s' w'. P s \<Longrightarrow> wn_session_send_key_update C s w = (r, s', w') \<Longrightarrow> P s'"
    and "P s" "posths_loop C k r s w = (res, s', w')"
  shows "P s'"
  using assms(3,4)
proof (induction k arbitrary: r s w)
  case 0
  then show ?case by simp
next
  case (Suc k)
  obtain x t v where st: "posths_step C r s w = (x, t, v)" by (metis prod_cases3)
  have "P t" using posths_step_inv [where P = P, OF st Suc.prems(1)] assms(1,2) by blast
  then show ?case
    using Suc.prems Suc.IH by (cases x) (auto simp: st split: if_splits)
qed

lemma posths_ok:
  assumes "aead_ok C" "kdf_ok C" "sess_ok s" "posths_loop C k r s w = (res, s', w')"
  shows "sess_ok s' \<and> same_frame s s'"
proof (rule posths_inv [where P = "\<lambda>t. sess_ok t \<and> same_frame s t", OF _ _ _ assms(4)])
  show "sess_ok t' \<and> same_frame s t'" if "sess_ok t \<and> same_frame s t" "rekey_read C t = (x, t')" for t x t'
    using that rekey_read_ok [OF assms(2)] same_frame_trans by metis
  show "sess_ok t' \<and> same_frame s t'"
    if "sess_ok t \<and> same_frame s t" "wn_session_send_key_update C t v = (x, t', v')" for t v x t' v'
    using that send_key_update_ok [OF assms(1,2)] same_frame_trans by metis
qed (use assms(3) in simp)

text \<open>A message that is accepted moves the reader forward.\<close>

lemma posths_step_adv:
  assumes "posths_step C r s w = (Inr r', s', w')" "rok r"
  shows "rok r' \<and> rlen r' = rlen r \<and> rpos r + 4 \<le> rpos r'"
proof -
  obtain t r1 where r1: "wn_Read_U8 r = (t, r1)" by force
  obtain n r2 where r2: "wn_Read_U24 r1 = (n, r2)" by force
  obtain p r3 where r3: "wn_Read_Bytes n r2 = (p, r3)" by force
  obtain q r4 where r4: "wn_Read_U8 r2 = (q, r4)" by force
  have n: "n < 2147483648" using U24_bound [OF r2] by simp
  have rok: "rok r1" "rok r2" "rok r3" "rok r4"
    using assms(2) rok_U8 [OF _ r1] rok_U24 [OF _ r2] rok_Bytes [OF _ n r3] rok_U8 [OF _ r4] by blast+
  have len: "rlen r4 = rlen r" "rlen r3 = rlen r"
    using read_sel(1) [OF r1] read_sel(3) [OF r2] read_sel(4) [OF r3] read_sel(1) [OF r4] by simp_all
  have adv: "\<not> rerr r2 \<Longrightarrow> rpos r2 = rpos r + 4"
    using assms(2) r1 r2 by (auto simp: rok_def read_defs touch_def u32_def split: if_splits)
  have "\<not> rerr r3 \<Longrightarrow> rpos r + 4 \<le> rpos r3" "\<not> rerr r4 \<Longrightarrow> rpos r + 4 \<le> rpos r4"
    using adv rok(2) r3 r4 n read_err_sticky(1) [OF r4] read_err_sticky(4) [OF r3]
    by (auto simp: rok_def read_defs touch_def split: if_splits)
  then show ?thesis
    using assms(1) rok len by (auto simp: posths_step_def r1 r2 r3 r4 split: if_splits prod.splits sum.splits)
qed

lemma posths_step_not_Oob:
  assumes "aead_ok C" "kdf_ok C" "sess_ok s"
  shows "fst (posths_step C r s w) \<noteq> Inl Oob"
proof -
  obtain s1 where s1: "rekey_read C s = (Inr (), s1)" "sess_ok s1"
    using rekey_read_eq [OF assms(2,3)] rekey_ok(1) [OF assms(2,3)] by simp
  obtain x s2 w2 where ku: "wn_session_send_key_update C s1 w = (x, s2, w2)" by (metis prod_cases3)
  then show ?thesis
    using send_key_update_ok(3) [OF assms(1,2) s1(2) ku]
    by (auto simp: posths_step_def s1 split: prod.split sum.split)
qed

lemma posths_fuel:
  assumes "aead_ok C" "kdf_ok C"
  shows "sess_ok s \<Longrightarrow> rok r \<Longrightarrow> rlen r - rpos r < k \<Longrightarrow> fst (posths_loop C k r s w) \<noteq> Inl Oob"
proof (induction k arbitrary: r s w)
  case 0
  then show ?case by simp
next
  case (Suc k)
  obtain x t v where st: "posths_step C r s w = (x, t, v)" by (metis prod_cases3)
  have "sess_ok t"
    using posths_step_inv [where P = sess_ok, OF st Suc.prems(1)] rekey_read_ok(1) [OF assms(2)]
      send_key_update_ok(1) [OF assms] by metis
  then have ok: "sess_ok t" .
  show ?case
  proof (cases x)
    case (Inl e)
    then show ?thesis
      using posths_step_not_Oob [OF assms Suc.prems(1), of r w] by (simp add: st)
  next
    case (Inr r')
    note adv = posths_step_adv [OF st [unfolded Inr] Suc.prems(2)]
    show ?thesis
    proof (cases "rpos r < rlen r")
      case True
      then have "rlen r' - rpos r' < k"
        using adv Suc.prems(3) by linarith
      then show ?thesis
        using Suc.IH [OF ok] adv True by (simp add: st Inr)
    qed simp
  qed
qed

lemma posths_result:
  assumes "aead_ok C" "kdf_ok C" "sess_ok s" "length msg < 2147483648"
    and "wn_session_posths C s w msg = (res, s', w')"
  shows "sess_ok s'" "same_frame s s'" "res \<noteq> Inl Oob"
  using posths_ok [OF assms(1-3) assms(5) [unfolded wn_session_posths_def]]
    posths_fuel [OF assms(1-3) rok_Init [of "length msg" msg], of "length msg + 1" w] assms(4,5)
  by (simp_all add: wn_session_posths_def)

subsection \<open>Every operation keeps the invariant\<close>

lemma session_send_ok: "sess_ok s \<Longrightarrow> session_send s w bs = (r, w') \<Longrightarrow> r \<noteq> Inl Oob"
  by (auto simp: session_send_def sess_ok_def split: option.splits prod.splits if_splits)

lemma session_send_upd [simp]:
  "session_send (s\<lparr>scratch := sc\<rparr>) w bs = session_send s w bs"
  "session_send (s\<lparr>cSeq := n\<rparr>) w bs = session_send s w bs"
  by (simp_all add: session_send_def)

text \<open>On an open session \<open>wn_Send\<close> seals the data under the write key and counter.\<close>

lemma Send_eq:
  assumes "aead_ok C" "sess_ok s" "\<not> sess_closed s" "sess_established s"
    and "length data \<le> 16384" "length data + 22 \<le> scratchLen s"
  shows "wn_Send C s (Some data) w =
    (case session_send s w (seal C (cKey s) (cIv s) (cSeq s) 23 data) of
       (r, w') \<Rightarrow> (r, s\<lparr>scratch := mem_put (scratch s) 0 (seal C (cKey s) (cIv s) (cSeq s) 23 data),
                        cSeq := cSeq s + 1\<rparr>, w'))"
proof -
  have k: "length (cKey s) = 16" "length (cIv s) = 12" "length data + 22 \<le> length (scratch s)"
    using assms(2,6) by (simp_all add: sess_ok_def)
  have room: "\<not> scratchLen s < 22" "\<not> scratchLen s - 22 < length data"
    using assms(6) by simp_all
  have "length (seal C (cKey s) (cIv s) (cSeq s) 23 data) = length data + 22"
    by (rule length_seal [OF assms(1) k(1,2)])
  then have t: "take (length data + 22) (mem_put (scratch s) 0 (seal C (cKey s) (cIv s) (cSeq s) 23 data))
      = seal C (cKey s) (cIv s) (cSeq s) 23 data"
    by (simp add: mem_put_def)
  show ?thesis
    using assms(3-5) room Protect_seal [OF assms(1) k(1,2) assms(5) k(3)]
    by (simp add: wn_Send_def t Let_def)
qed

lemma Send_refused:
  assumes "\<not> (\<not> sess_closed s \<and> sess_established s \<and> length data \<le> 16384 \<and> length data + 22 \<le> scratchLen s)"
  shows "\<exists>e. wn_Send C s (Some data) w = (Inl e, s, w) \<and> e \<noteq> Oob"
  using assms by (auto simp: wn_Send_def)

lemma sess_ok_scratch:
  "sess_ok s \<Longrightarrow> length sc = length (scratch s) \<Longrightarrow> sess_ok (s\<lparr>scratch := sc\<rparr>)"
  by (simp add: sess_ok_def)

text \<open>The scratch buffer: the octets behind its stated length are the caller's.\<close>

definition same_buffer :: "'w session \<Rightarrow> 'w session \<Rightarrow> bool" where
  "same_buffer s t \<longleftrightarrow> scratchLen t = scratchLen s \<and> length (scratch t) = length (scratch s) \<and>
     drop (scratchLen s) (scratch t) = drop (scratchLen s) (scratch s)"

lemma same_buffer_refl [simp]: "same_buffer s s"
  by (simp add: same_buffer_def)

lemma same_buffer_trans: "same_buffer s t \<Longrightarrow> same_buffer t u \<Longrightarrow> same_buffer s u"
  by (simp add: same_buffer_def)

lemma drop_mem_put: "off + length d \<le> n \<Longrightarrow> n \<le> length b \<Longrightarrow> drop n (mem_put b off d) = drop n b"
  by (simp add: mem_put_def)

lemma Send_ok:
  assumes "aead_ok C" "sess_ok s" "wn_Send C s (Some data) w = (r, s', w')"
  shows "sess_ok s'" "r \<noteq> Inl Oob" "same_buffer s s'"
proof -
  have "sess_ok s' \<and> r \<noteq> Inl Oob \<and> same_buffer s s'"
  proof (cases "\<not> sess_closed s \<and> sess_established s \<and> length data \<le> 16384 \<and> length data + 22 \<le> scratchLen s")
    case True
    let ?rec = "seal C (cKey s) (cIv s) (cSeq s) 23 data"
    have n: "length ?rec \<le> scratchLen s" "scratchLen s \<le> length (scratch s)"
      using assms(1,2) True length_seal [of C "cKey s" "cIv s"] by (simp_all add: sess_ok_def)
    then have l: "length (mem_put (scratch s) 0 ?rec) = length (scratch s)" by simp
    show ?thesis
      using assms(3) True session_send_ok [OF assms(2)] sess_ok_scratch [OF assms(2) l] l n
      by (auto simp: Send_eq [OF assms(1,2)] same_buffer_def drop_mem_put split: prod.splits)
  next
    case False
    then show ?thesis
      using Send_refused [OF False, of C w] assms(2,3) by auto
  qed
  then show "sess_ok s'" "r \<noteq> Inl Oob" "same_buffer s s'" by simp_all
qed

lemma dispatch_ok:
  assumes "aead_ok C" "kdf_ok C" "sess_ok s" "length plain < 2147483648"
    and "recv_dispatch C ctype plain out ol s w = (r, out', ol', s', w')"
  shows "sess_ok s'" "r \<noteq> Inl Oob" "length out' = length out" "scratch s' = scratch s" "scratchLen s' = scratchLen s"
    "ioRecv s' = ioRecv s" "ioSend s' = ioSend s"
    "r = Inr True \<Longrightarrow> ctype = 23 \<and> out' = mem_put out 0 plain \<and> ol' = length plain \<and> s' = s \<and> w' = w \<and>
       length plain \<le> length out"
    "r = Inr False \<Longrightarrow> ctype = 22 \<and> out' = out \<and> ol' = ol \<and> wn_session_posths C s w plain = (Inr (), s', w')"
    "r = Inl e \<Longrightarrow> out' = out \<and> ol' = ol"
proof -
  obtain x t v where p: "wn_session_posths C s w plain = (x, t, v)" by (metis prod_cases3)
  note ph = posths_result [OF assms(1-4) p]
  note code = assms(5) [unfolded recv_dispatch_def p]
  show "sess_ok s'" "r \<noteq> Inl Oob" "length out' = length out" "scratch s' = scratch s" "scratchLen s' = scratchLen s"
    "ioRecv s' = ioRecv s" "ioSend s' = ioSend s"
    "r = Inr True \<Longrightarrow> ctype = 23 \<and> out' = mem_put out 0 plain \<and> ol' = length plain \<and> s' = s \<and> w' = w \<and>
       length plain \<le> length out"
    "r = Inr False \<Longrightarrow> ctype = 22 \<and> out' = out \<and> ol' = ol \<and> wn_session_posths C s w plain = (Inr (), s', w')"
    "r = Inl e \<Longrightarrow> out' = out \<and> ol' = ol"
    using code ph assms(3) p
    by (auto simp: same_frame_def sess_ok_def split: if_splits sum.splits)
qed

lemma wipe_plain_sel [simp]:
  "ioSend (wipe_plain n s) = ioSend s" "ioRecv (wipe_plain n s) = ioRecv s"
  "scratchLen (wipe_plain n s) = scratchLen s" "cAppSecret (wipe_plain n s) = cAppSecret s"
  "sAppSecret (wipe_plain n s) = sAppSecret s" "cKey (wipe_plain n s) = cKey s"
  "sKey (wipe_plain n s) = sKey s" "cIv (wipe_plain n s) = cIv s" "sIv (wipe_plain n s) = sIv s"
  "cSeq (wipe_plain n s) = cSeq s" "sSeq (wipe_plain n s) = sSeq s"
  "sdigest (wipe_plain n s) = sdigest s" "sflags (wipe_plain n s) = sflags s"
  "scratch (wipe_plain n s) = mem_put (scratch s) 5 (replicate n 0)"
  by (simp_all add: wipe_plain_def)

text \<open>
  One step of the receive loop that gets as far as a record: the record read, opened under the
  reading key, and dispatched on.
\<close>

lemma recv_step_cases:
  assumes "aead_ok C" "sess_ok s" "recv_step C s out ol w = (r, out', ol', s', w')"
  obtains (fails) e sc where "r = Inl e" "recv_bounded (the (ioRecv s)) \<Longrightarrow> e \<noteq> Oob" "out' = out" "ol' = ol"
      "s' = s\<lparr>scratch := sc\<rparr>" "same_buffer s s'"
  | (opened) n m ct sc inner w1 s1 s2 where
      "wn_RecvRecord (the (ioRecv s)) w (scratch s) (scratchLen s) = (Inr (sc ! 0, n), sc, w1)" "22 \<le> n" "n \<le> scratchLen s"
      "n = frag_len sc + 5" "m + 22 \<le> n" "length sc = length (scratch s)" "length inner = n - 21"
      "wn_Record_Unprotect C (Some (sKey s)) (Some (sIv s)) (sSeq s) (Some (take n sc)) = (Inr (m, ct), inner)"
      "s1 = s\<lparr>scratch := mem_put sc 5 inner, sSeq := sSeq s + 1\<rparr>" "same_buffer s s1" "sess_ok s1"
      "recv_dispatch C ct (take m inner) out ol s1 w1 = (r, out', ol', s2, w')" "s' = wipe_plain m s2"
proof -
  obtain recv where recv: "ioRecv s = Some recv"
    using assms(2) by (auto simp: sess_ok_def)
  obtain r1 sc w1 where rr: "wn_RecvRecord recv w (scratch s) (scratchLen s) = (r1, sc, w1)"
    by (metis prod_cases3)
  have cap: "5 \<le> scratchLen s" "scratchLen s \<le> length (scratch s)"
    using assms(2) by (simp_all add: sess_ok_def)
  note ro = RecvRecord_ok [OF rr cap] and tl = RecvRecord_tail [OF rr cap]
  have buf: "same_buffer s (s\<lparr>scratch := sc\<rparr>)" using ro(1) tl by (simp add: same_buffer_def)
  show thesis
  proof (cases r1)
    case (Inl e)
    have "out' = out" "ol' = ol" "r = Inl e" "s' = s\<lparr>scratch := sc\<rparr>" using assms(3) recv rr Inl by (simp_all add: recv_step_def)
    then show thesis using fails [of e sc] ro(2) recv Inl buf by auto
  next
    case (Inr p)
    then obtain t n where r1: "r1 = Inr (t, n)" by (cases p) simp
    note n = ro(3) [OF r1]
    obtain u inner where un: "wn_Record_Unprotect C (Some (sKey s)) (Some (sIv s)) (sSeq s) (Some (take n sc)) = (u, inner)"
      by force
    note ub = Unprotect_bounds [OF assms(1) un]
    have len_n: "length (take n sc) = n" using n ro(1) cap by simp
    have room: "5 + length inner \<le> scratchLen s" using ub(1) len_n n by linarith
    have l: "length (mem_put sc 5 inner) = length sc" using room ro(1) cap(2) by simp
    have buf2: "same_buffer s (s\<lparr>scratch := mem_put sc 5 inner\<rparr>)"
      using l ro(1) tl drop_mem_put [OF room, of sc] cap(2) by (simp add: same_buffer_def)
    consider (ccs) "t = 20" | (bad) e where "t \<noteq> 20" "u = Inl e" | (ok) m ct where "t \<noteq> 20" "u = Inr (m, ct)" by (cases u) auto
    then show thesis
    proof cases
      case ccs
      have "out' = out" "ol' = ol" "r = Inl E_UNEXPECTED_MSG" "s' = s\<lparr>scratch := sc\<rparr>" using assms(3) recv rr r1 ccs by (simp_all add: recv_step_def)
      then show thesis using fails [of E_UNEXPECTED_MSG sc] buf by auto
    next
      case bad
      have "out' = out" "ol' = ol" "r = Inl e" "s' = s\<lparr>scratch := mem_put sc 5 inner\<rparr>" using assms(3) recv rr r1 un bad by (simp_all add: recv_step_def)
      then show thesis using fails [of e "mem_put sc 5 inner"] ub(2) bad buf2 by auto
    next
      case ok
      note mb = ub(3) [OF ok(2), unfolded len_n]
      define s1 where "s1 = s\<lparr>scratch := mem_put sc 5 inner, sSeq := sSeq s + 1\<rparr>"
      have ok1: "sess_ok s1"
        using sess_ok_scratch [OF assms(2), of "mem_put sc 5 inner"] l ro(1) by (simp add: s1_def)
      have b1: "same_buffer s s1" using buf2 by (simp add: s1_def same_buffer_def)
      obtain r2 out2 ol2 s2 w2 where d: "recv_dispatch C ct (take m inner) out ol s1 w1 = (r2, out2, ol2, s2, w2)"
        by (metis prod_cases5)
      have res: "(r, out', ol', s', w') = (r2, out2, ol2, wipe_plain m s2, w2)"
        using assms(3) recv rr r1 un ok d by (simp add: recv_step_def s1_def)
      have "22 \<le> n" "m + 22 \<le> n" "length inner = n - 21" using mb by auto
      then show thesis
        using opened [of sc n w1 m inner ct s1 s2] rr r1 recv n ro(1) un ok(2) s1_def b1 ok1 d res by auto
    qed
  qed
qed

lemma sess_ok_wipe: "sess_ok s \<Longrightarrow> 5 + n \<le> scratchLen s \<Longrightarrow> sess_ok (wipe_plain n s) \<and> same_buffer s (wipe_plain n s)"
  by (auto simp: sess_ok_def same_buffer_def drop_mem_put)

lemma recv_step_ok:
  assumes "aead_ok C" "kdf_ok C" "sess_ok s" "recv_step C s out ol w = (r, out', ol', s', w')"
  shows "sess_ok s' \<and> ioRecv s' = ioRecv s \<and> ioSend s' = ioSend s \<and> same_buffer s s' \<and> length out' = length out \<and>
    (recv_bounded (the (ioRecv s)) \<longrightarrow> r \<noteq> Inl Oob) \<and> (r \<noteq> Inr True \<longrightarrow> out' = out)"
  using assms(1,3,4)
proof (cases rule: recv_step_cases)
  case (fails e sc)
  then show ?thesis using sess_ok_scratch [OF assms(3), of sc] by (auto simp: same_buffer_def)
next
  case (opened n m ct sc inner w1 s1 s2)
  have len: "length (take m inner) < 2147483648"
    using RecvRecord_ok(3) [OF opened(1)] opened(3,4,7) assms(3) by (auto simp: sess_ok_def)
  note d = dispatch_ok [OF assms(1,2) opened(11) len opened(12)]
  have fr: "scratchLen s2 = scratchLen s" "same_buffer s s2"
    using d(4,5) opened(10) by (auto simp: same_buffer_def)
  have "5 + m \<le> scratchLen s2" using opened(3,5) fr(1) by simp
  from sess_ok_wipe [OF d(1) this] have w: "sess_ok s'" "same_buffer s s'"
    using fr(2) same_buffer_trans opened(13) by blast+
  have io: "ioRecv s' = ioRecv s" "ioSend s' = ioSend s" using d(6,7) opened(9,13) by simp_all
  have "r \<noteq> Inr True \<Longrightarrow> out' = out"
    using d(9,10) by (cases r) (metis (full_types), metis (full_types))
  then show ?thesis using w io d(2,3) by blast
qed

text \<open>What every step of the receive loop keeps, the loop keeps, and its result has the
  property of the last step.\<close>

lemma recv_loop_inv:
  assumes "recv_loop C s out ol w = Some res" "P s out ol w"
    and step: "\<And>s out ol w r out' ol' s' w'. P s out ol w \<Longrightarrow> recv_step C s out ol w = (r, out', ol', s', w') \<Longrightarrow>
      (r = Inr False \<longrightarrow> P s' out' ol' w') \<and> (r = Inr True \<longrightarrow> Q (Inr ()) out' ol' s' w') \<and>
      (\<forall>e. r = Inl e \<longrightarrow> Q (Inl e) out' ol' s' w')"
  shows "case res of (r, out', ol', s', w') \<Rightarrow> Q r out' ol' s' w'"
proof -
  have "C = C \<longrightarrow> P s out ol w \<longrightarrow> (case res of (r, out', ol', s', w') \<Rightarrow> Q r out' ol' s' w')"
  proof (rule recv_loop.raw_induct [where P = "\<lambda>D s out ol w res.
      D = C \<longrightarrow> P s out ol w \<longrightarrow> (case res of (r, out', ol', s', w') \<Rightarrow> Q r out' ol' s' w')", OF _ assms(1)],
      intro impI)
    fix loop D s out ol w res
    assume IH: "\<And>D s out ol w res. loop D s out ol w = Some res \<Longrightarrow>
        D = C \<longrightarrow> P s out ol w \<longrightarrow> (case res of (r, out', ol', s', w') \<Rightarrow> Q r out' ol' s' w')"
      and body: "(case recv_step D s out ol w of
        (Inl e, out', outLen', s', w') \<Rightarrow> Some (Inl e, out', outLen', s', w')
      | (Inr fin, out', outLen', s', w') \<Rightarrow>
          if fin then Some (Inr (), out', outLen', s', w') else loop D s' out' outLen' w') = Some res"
      and D: "D = C" and P: "P s out ol w"
    obtain r out' ol' s' w' where st: "recv_step C s out ol w = (r, out', ol', s', w')"
      by (metis prod_cases5)
    show "case res of (r, out', ol', s', w') \<Rightarrow> Q r out' ol' s' w'"
      using body step [OF P st] IH [of C s' out' ol' w' res] by (auto simp: D st split: sum.splits if_splits)
  qed
  then show ?thesis using assms(2) by simp
qed

lemma Recv_ok:
  assumes "aead_ok C" "kdf_ok C" "sess_ok s" "recv_bounded (the (ioRecv s))"
    and "wn_Recv C s (Some out) ol w = Some (r, out', ol', s', w')"
  shows "sess_ok s'" "r \<noteq> Inl Oob" "length out' = length out" "same_buffer s s'" "r = Inl e \<Longrightarrow> out' = out"
proof -
  let ?P = "\<lambda>t o' (l :: nat) (v :: 'b). sess_ok t \<and> ioRecv t = ioRecv s \<and> same_buffer s t \<and> o' = out"
  let ?Q = "\<lambda>r o' (l :: nat) t (v :: 'b). sess_ok t \<and> r \<noteq> Inl Oob \<and> length o' = length out \<and> same_buffer s t \<and>
    (\<forall>e. r = Inl e \<longrightarrow> o' = out)"
  have "?Q r out' ol' s' w'"
  proof (cases "sess_closed s \<or> \<not> sess_established s")
    case True
    then show ?thesis using assms(3,5) by (auto simp: wn_Recv_def split: if_splits)
  next
    case False
    then have loop: "recv_loop C s out 0 w = Some (r, out', ol', s', w')"
      using assms(5) by (simp add: wn_Recv_def)
    have "case (r, out', ol', s', w') of (r, out', ol', s', w') \<Rightarrow> ?Q r out' ol' s' w'"
    proof (rule recv_loop_inv [where P = ?P, OF loop])
      show "?P s out 0 w" using assms(3) by simp
      fix t o1 l v x o2 l2 t2 v2
      assume "?P t o1 l v" "recv_step C t o1 l v = (x, o2, l2, t2, v2)"
      then show "(x = Inr False \<longrightarrow> ?P t2 o2 l2 v2) \<and> (x = Inr True \<longrightarrow> ?Q (Inr ()) o2 l2 t2 v2) \<and>
          (\<forall>e. x = Inl e \<longrightarrow> ?Q (Inl e) o2 l2 t2 v2)"
        using recv_step_ok [OF assms(1,2), of t o1 l v x o2 l2 t2 v2] assms(4) same_buffer_trans [of s t t2] by auto
    qed
    then show ?thesis by simp
  qed
  then show "sess_ok s'" "r \<noteq> Inl Oob" "length out' = length out" "same_buffer s s'" "r = Inl e \<Longrightarrow> out' = out"
    by simp_all
qed

subsection \<open>What is delivered\<close>

text \<open>
  \<open>reads_on C s k j t\<close>: \<open>t\<close> reads with the keys of \<open>s\<close> after \<open>k\<close> rekeyings, and without one at the
  counter \<open>j\<close> further on.
\<close>

definition reads_on :: "'x crypto \<Rightarrow> 'w session \<Rightarrow> nat \<Rightarrow> nat \<Rightarrow> 'w session \<Rightarrow> bool" where
  "reads_on C s k j t \<longleftrightarrow> (let u = (rekey_r C ^^ k) s in
     sAppSecret t = sAppSecret u \<and> sKey t = sKey u \<and> sIv t = sIv u \<and> (k = 0 \<longrightarrow> sSeq t = sSeq s + of_nat j))"

lemma reads_on_refl: "reads_on C s 0 0 s"
  by (simp add: reads_on_def)

lemma reads_on_rekey: "reads_on C s k j t \<Longrightarrow> reads_on C s (Suc k) i (rekey_r C t)"
  by (simp add: reads_on_def rekey_r_def Let_def)

lemma reads_on_frame:
  "reads_on C s k j t \<Longrightarrow> sAppSecret u = sAppSecret t \<Longrightarrow> sKey u = sKey t \<Longrightarrow> sIv u = sIv t \<Longrightarrow> sSeq u = sSeq t + of_nat i \<Longrightarrow>
   reads_on C s k (j + i) u"
  by (simp add: reads_on_def Let_def)

text \<open>Post-handshake messages rekey, and take nothing off the transport.\<close>

lemma send_key_update_frame:
  assumes "aead_ok C" "kdf_ok C" "sess_ok s" "wn_session_send_key_update C s w = (r, s', w')"
  shows "sAppSecret s' = sAppSecret s" "sKey s' = sKey s" "sIv s' = sIv s" "sSeq s' = sSeq s"
  using assms(4) unfolding send_key_update_eq [OF assms(1-3)]
  by (auto simp: rekey_w_def Let_def split: prod.splits sum.splits)

lemma posths_reads:
  assumes "aead_ok C" "kdf_ok C" "sess_ok t" "reads_on C s k j t" "wn_session_posths C t w msg = (res, t', w')"
  shows "\<exists>k. reads_on C s k j t'"
proof -
  let ?P = "\<lambda>u. sess_ok u \<and> (\<exists>k. reads_on C s k j u)"
  have "?P t'"
  proof (rule posths_inv [where P = ?P, OF _ _ _ assms(5) [unfolded wn_session_posths_def]])
    show "?P u'" if "?P u" "rekey_read C u = (x, u')" for u x u'
      using that rekey_read_ok(1) [OF assms(2), of u x u'] reads_on_rekey by (fastforce simp: rekey_read_eq [OF assms(2)])
    show "?P u'" if "?P u" "wn_session_send_key_update C u v = (x, u', v')" for u v x u' v'
      using that send_key_update_ok(1) [OF assms(1,2) _ that(2)] send_key_update_frame [OF assms(1,2) _ that(2)]
        reads_on_frame [where i = 0] by fastforce
    show "?P t" using assms(3,4) by blast
  qed
  then show ?thesis by blast
qed

lemma posths_step_world:
  assumes "\<And>send v bs. ioSend t = Some send \<Longrightarrow> f (snd (send v bs)) = f v"
    and "aead_ok C" "kdf_ok C" "sess_ok t" "posths_step C r t w = (x, t', w')"
  shows "f w' = f w"
proof -
  obtain t1 where t1: "rekey_read C t = (Inr (), t1)" "sess_ok t1" "ioSend t1 = ioSend t"
    using rekey_read_eq [OF assms(3,4)] rekey_ok(1) [OF assms(3,4)] by (simp add: rekey_r_def Let_def)
  obtain y t2 v where k: "wn_session_send_key_update C t1 w = (y, t2, v)" by (metis prod_cases3)
  have "f v = f w"
    using k assms(1) t1(3) unfolding send_key_update_eq [OF assms(2,3) t1(2)]
    by (auto simp: session_send_def split: prod.splits sum.splits option.splits if_splits) (metis snd_conv)+
  then show ?thesis
    using assms(5) by (auto simp: posths_step_def t1(1) k split: prod.splits if_splits sum.splits)
qed

lemma posths_world:
  assumes "aead_ok C" "kdf_ok C"
  shows "sess_ok t \<Longrightarrow> (\<And>send v bs. ioSend t = Some send \<Longrightarrow> f (snd (send v bs)) = f v) \<Longrightarrow>
    posths_loop C n r t w = (res, t', w') \<Longrightarrow> f w' = f w"
proof (induction n arbitrary: r t w)
  case 0
  then show ?case by simp
next
  case (Suc n)
  obtain x t1 w1 where st: "posths_step C r t w = (x, t1, w1)" by (metis prod_cases3)
  have f1: "f w1 = f w" using posths_step_world [where f = f, OF _ assms Suc.prems(1) st] Suc.prems(2) by blast
  have "sess_ok t1 \<and> same_frame t t1"
    using posths_step_inv [where P = "\<lambda>u. sess_ok u \<and> same_frame t u", OF st] Suc.prems(1) rekey_read_ok [OF assms(2)]
      send_key_update_ok [OF assms] same_frame_trans by (metis same_frame_refl)
  then have "sess_ok t1" "ioSend t1 = ioSend t" by (simp_all add: same_frame_def)
  then show ?case
    using Suc.IH [of t1] Suc.prems(2,3) f1 by (cases x) (auto simp: st split: if_splits)
qed

text \<open>
  What a delivery means: the octets taken off the transport are whole records, of which the last opens
  under the reading key and counter of the session to application data; these data are the first octets of \<open>out\<close>,
  the others are as they were, and no octet of the data is left in the scratch buffer.
\<close>

definition whole_record :: "bytes \<Rightarrow> bool" where
  "whole_record rec \<longleftrightarrow> 5 < length rec \<and> length rec = 5 + frag_len rec"

definition delivered ::
  "'x crypto \<Rightarrow> ('w \<Rightarrow> bytes) \<Rightarrow> 'w session \<Rightarrow> 'w \<Rightarrow> bytes \<Rightarrow> bytes \<Rightarrow> nat \<Rightarrow> 'w session \<Rightarrow> 'w \<Rightarrow> bool" where
  "delivered C pend s w out out' n s' w' \<longleftrightarrow>
     (\<exists>recs rec k m. pend w = concat recs @ rec @ pend w' \<and> list_all whole_record recs \<and> whole_record rec \<and>
        reads_on C s k (Suc (length recs)) s' \<and> opens_to C (sKey s') (sIv s') (sSeq s' - 1) rec 23 m \<and>
        n = length m \<and> n \<le> length out \<and> out' = m @ drop n out \<and> slice 5 n (scratch s') = replicate n 0)"

text \<open>What is sent does not change what is pending.\<close>

definition sends_apart :: "'w io_send \<Rightarrow> ('w \<Rightarrow> bytes) \<Rightarrow> bool" where
  "sends_apart send pend \<longleftrightarrow> (\<forall>w bs. pend (snd (send w bs)) = pend w)"

text \<open>What the loop has taken so far: whole records, and the reading keys moved on.\<close>

definition read_so_far :: "'x crypto \<Rightarrow> ('w \<Rightarrow> bytes) \<Rightarrow> 'w session \<Rightarrow> 'w \<Rightarrow> 'w session \<Rightarrow> 'w \<Rightarrow> bool" where
  "read_so_far C pend s w t v \<longleftrightarrow>
     (\<exists>recs k. pend w = concat recs @ pend v \<and> list_all whole_record recs \<and> reads_on C s k (length recs) t)"

lemma recv_step_delivers:
  assumes ok: "aead_ok C" "kdf_ok C" "sess_ok t"
    and io: "takes_from (the (ioRecv t)) pend" "sends_apart (the (ioSend t)) pend"
    and "read_so_far C pend s w t v" "recv_step C t out ol v = (r, out', ol', t', v')"
  shows "(r = Inr False \<longrightarrow> read_so_far C pend s w t' v') \<and> (r = Inr True \<longrightarrow> delivered C pend s w out out' ol' t' v')"
  using ok(1,3) assms(7)
proof (cases rule: recv_step_cases)
  case (fails e sc)
  then show ?thesis by simp
next
  case (opened n m ct sc inner w1 s1 s2)
  let ?rec = "take n sc"
  have cap: "5 \<le> scratchLen t" "scratchLen t \<le> length (scratch t)" "length (sKey t) = 16" "length (sIv t) = 12"
    using ok(3) by (simp_all add: sess_ok_def)
  have rec: "pend v = ?rec @ pend w1" by (rule RecvRecord_takes [OF opened(1) cap(1,2) io(1)])
  have len: "length ?rec = n" using opened(3,6) cap(2) by simp
  have "frag_len ?rec = frag_len sc" using opened(2) by (simp add: frag_len_def)
  then have whole: "whole_record ?rec" using len opened(2,4) by (simp add: whole_record_def)
  have op: "opens_to C (sKey t) (sIv t) (sSeq t) ?rec ct (take m inner)" by (rule Unprotect_opens [OF ok(1) cap(3,4) opened(8)])
  obtain recs k where so: "pend w = concat recs @ pend v" "list_all whole_record recs" "reads_on C s k (length recs) t"
    using assms(6) unfolding read_so_far_def by blast
  have r1: "reads_on C s k (Suc (length recs)) s1"
    using reads_on_frame [OF so(3), of s1 1] by (simp add: opened(9))
  have pl: "length (take m inner) < 2147483648" "length (take m inner) = m"
    using RecvRecord_ok(3) [OF opened(1) cap(1,2) refl] opened(3,5,7) by auto
  note d = dispatch_ok [OF ok(1,2) opened(11) pl(1) opened(12)]
  show ?thesis
  proof (intro conjI impI)
    assume "r = Inr False"
    note f = d(9) [OF this]
    then have ph: "wn_session_posths C s1 w1 (take m inner) = (Inr (), s2, v')" by blast
    obtain k' where "reads_on C s k' (Suc (length recs)) s2" using posths_reads [OF ok(1,2) opened(11) r1 ph] by blast
    then have k': "reads_on C s k' (Suc (length recs)) t'" by (simp add: opened(13) reads_on_def)
    have sp: "pend (snd (send x bs)) = pend x" if "ioSend s1 = Some send" for send x bs
      using io(2) that by (simp add: opened(9) sends_apart_def)
    have "pend v' = pend w1"
      by (rule posths_world [OF ok(1,2) opened(11) _ ph [unfolded wn_session_posths_def]]) (rule sp)
    with k' show "read_so_far C pend s w t' v'"
      unfolding read_so_far_def using so(1,2) rec whole by (intro exI [of _ "recs @ [?rec]"] exI [of _ k']) simp
  next
    assume "r = Inr True"
    note f = d(8) [OF this]
    have "slice 5 m (scratch t') = replicate m 0"
      using slice_mem_put [of 5 "replicate m 0" "scratch s2"] opened(3,5,9,10) cap(2) f by (simp add: opened(13) same_buffer_def)
    moreover have "reads_on C s k (Suc (length recs)) t'" using r1 f by (simp add: opened(13) reads_on_def)
    moreover have "opens_to C (sKey t') (sIv t') (sSeq t' - 1) ?rec 23 (take m inner)" using op f by (simp add: opened(9,13))
    moreover have "out' = take m inner @ drop m out" "ol' = m" "m \<le> length out" using f pl(2) by (simp_all add: mem_put_def)
    ultimately show "delivered C pend s w out out' ol' t' v'"
      unfolding delivered_def using so(1,2) rec whole pl(2) f
      by (intro exI [of _ recs] exI [of _ ?rec] exI [of _ k] exI [of _ "take m inner"]) simp
  qed
qed

lemma Recv_delivers:
  assumes ok: "aead_ok C" "kdf_ok C" "sess_ok s"
    and io: "takes_from (the (ioRecv s)) pend" "sends_apart (the (ioSend s)) pend"
    and "wn_Recv C s (Some out) ol w = Some (Inr (), out', ol', s', w')"
  shows "delivered C pend s w out out' ol' s' w'"
proof -
  have loop: "recv_loop C s out 0 w = Some (Inr (), out', ol', s', w')"
    using assms(6) by (auto simp: wn_Recv_def split: if_splits)
  let ?P = "\<lambda>t o' (l :: nat) v. sess_ok t \<and> ioRecv t = ioRecv s \<and> ioSend t = ioSend s \<and> o' = out \<and> read_so_far C pend s w t v"
  let ?Q = "\<lambda>(r :: wn_err + unit) o' l t v. r = Inr () \<longrightarrow> delivered C pend s w out o' l t v"
  have "case (Inr (), out', ol', s', w') of (r, out', ol', s', w') \<Rightarrow> ?Q r out' ol' s' w'"
  proof (rule recv_loop_inv [where P = ?P and Q = ?Q, OF loop])
    show "?P s out 0 w" using ok(3) reads_on_refl [of C s] by (auto simp: read_so_far_def intro!: exI [of _ "[]"])
    fix t o1 l v x o2 l2 t2 v2
    assume P: "?P t o1 l v" and st: "recv_step C t o1 l v = (x, o2, l2, t2, v2)"
    have t: "sess_ok t" "takes_from (the (ioRecv t)) pend" "sends_apart (the (ioSend t)) pend" "read_so_far C pend s w t v" using P io by simp_all
    from recv_step_delivers [OF ok(1,2) t st] recv_step_ok [OF ok(1,2) t(1) st] P
    show "(x = Inr False \<longrightarrow> ?P t2 o2 l2 v2) \<and> (x = Inr True \<longrightarrow> ?Q (Inr ()) o2 l2 t2 v2) \<and> (\<forall>e. x = Inl e \<longrightarrow> ?Q (Inl e) o2 l2 t2 v2)"
      by auto
  qed
  then show ?thesis by simp
qed

subsection \<open>Two sessions, end to end\<close>

text \<open>
  \<open>in_sync a b\<close>: what \<open>a\<close> writes with is what \<open>b\<close> reads with. A reliable send appends to
  the wire, and the receiver's transport is a stream with that wire pending.
\<close>

definition in_sync :: "'w session \<Rightarrow> 'v session \<Rightarrow> bool" where
  "in_sync a b \<longleftrightarrow> sAppSecret b = cAppSecret a \<and> sKey b = cKey a \<and> sIv b = cIv a \<and> sSeq b = cSeq a"

definition send_stream :: "'w io_send \<Rightarrow> ('w \<Rightarrow> bytes) \<Rightarrow> bool" where
  "send_stream send wire \<longleftrightarrow>
     (\<forall>w bs. fst (send w bs) = int (length bs) \<and> wire (snd (send w bs)) = wire w @ bs)"

lemma recv_step_record:
  assumes "aead_ok C" "sess_ok b" "ioRecv b = Some recv" "recv_stream recv pend"
    and "pend w = seal C (sKey b) (sIv b) (sSeq b) t m @ rest" "t \<noteq> 0"
    and "length m \<le> 16384" "length m + 22 \<le> scratchLen b"
  shows "\<exists>w1 sc. pend w1 = rest \<and> length sc = length (scratch b) \<and>
    recv_step C b out ol w =
      (case recv_dispatch C t m out ol (b\<lparr>scratch := sc, sSeq := sSeq b + 1\<rparr>) w1 of
         (r, out', ol', s', w') \<Rightarrow> (r, out', ol', wipe_plain (length m) s', w'))"
proof -
  have k: "length (sKey b) = 16" "length (sIv b) = 12" and cap: "scratchLen b \<le> length (scratch b)"
    using assms(2) by (simp_all add: sess_ok_def)
  define rec where "rec = seal C (sKey b) (sIv b) (sSeq b) t m"
  define hdr where "hdr = record_header (length m + 17)"
  define body where "body = drop 5 rec"
  have len: "length rec = length m + 22"
    unfolding rec_def by (rule length_seal [OF assms(1) k])
  have split: "rec = hdr @ body"
    using seal_header [OF assms(1) k, of "sSeq b" t m] append_take_drop_id [of 5 rec]
    by (simp add: hdr_def body_def rec_def)
  have h: "length hdr = 5" "hdr ! 0 = 23" "frag_len hdr = length body" "length body = length m + 17"
    using frag_len_header [of "length m + 17" "[]"] len assms(7)
    by (simp_all add: hdr_def body_def) (simp add: record_header_def)
  have ne: "body \<noteq> []"
    using h(4) by auto
  have "pend w = hdr @ body @ rest"
    using assms(5) split by (simp add: rec_def)
  moreover have "length body \<le> 16640" "length body + 5 \<le> scratchLen b" "hdr ! 0 \<noteq> 20"
    using h(4) assms(7,8) by (simp_all add: hdr_def record_header_def)
  ultimately obtain w1 where
    w1: "wn_RecvRecord recv w (scratch b) (scratchLen b)
      = (Inr (23, length m + 22), mem_put (scratch b) 0 rec, w1)" "pend w1 = rest"
    using RecvRecord_stream [OF assms(4) _ h(1,3) ne _ _ cap] h(2,4) split
    by (fastforce simp: add.commute)
  have t: "take (length m + 22) (mem_put (scratch b) 0 rec) = rec"
    using len by (simp add: mem_put_def)
  have un: "wn_Record_Unprotect C (Some (sKey b)) (Some (sIv b)) (sSeq b) (Some rec)
      = (Inr (length m, t), m @ [t])"
    unfolding rec_def by (rule Unprotect_seal [OF assms(1) k assms(6)])
  show ?thesis
  proof (intro exI conjI)
    show "pend w1 = rest" by (rule w1(2))
    show "length (mem_put (mem_put (scratch b) 0 rec) 5 (m @ [t])) = length (scratch b)"
      using len assms(8) cap by simp
    show "recv_step C b out ol w =
      (case recv_dispatch C t m out ol
         (b\<lparr>scratch := mem_put (mem_put (scratch b) 0 rec) 5 (m @ [t]), sSeq := sSeq b + 1\<rparr>) w1 of
         (r, out', ol', s', w') \<Rightarrow> (r, out', ol', wipe_plain (length m) s', w'))"
      by (simp add: recv_step_def assms(3) w1(1) t un)
  qed
qed

text \<open>The peer's KeyUpdate, not asking for one in return, only rekeys the read side.\<close>

lemma posths_key_update:
  assumes "kdf_ok C" "sess_ok s"
  shows "wn_session_posths C s w [24, 0, 0, 1, 0] = (Inr (), rekey_r C s, w)"
proof -
  have "posths_step C (rz [] [24, 0, 0, 1, 0]) s w = (Inr (rz [24, 0, 0, 1, 0] []), rekey_r C s, w)"
    by (simp add: posths_step_def rz_U8 rz_U24 rekey_read_eq [OF assms] dec24_eq)
  then show ?thesis
    by (simp add: wn_session_posths_def Init_rz numeral_eq_Suc)
qed

lemma session_send_stream:
  assumes "ioSend s = Some send" "send_stream send wire"
  shows "\<exists>w1. session_send s w bs = (Inr (), w1) \<and> wire w1 = wire w @ bs"
proof -
  have "fst (send w bs) = int (length bs)" "wire (snd (send w bs)) = wire w @ bs"
    using assms(2) unfolding send_stream_def by blast+
  then show ?thesis
    by (cases "send w bs") (simp add: session_send_def assms(1))
qed

text \<open>What the writing side does: send data, or announce new keys and rekey.\<close>

datatype sent = Data bytes | Rekey

definition send_one :: "'x crypto \<Rightarrow> sent \<Rightarrow> 'w session \<times> 'w \<Rightarrow> 'w session \<times> 'w" where
  "send_one C e sw =
     (case e of Data m \<Rightarrow> snd (wn_Send C (fst sw) (Some m) (snd sw))
      | Rekey \<Rightarrow> snd (wn_session_send_key_update C (fst sw) (snd sw)))"

fun datas :: "sent list \<Rightarrow> bytes list" where
  "datas [] = []"
| "datas (Data m # es) = m # datas es"
| "datas (Rekey # es) = datas es"

text \<open>The reading side calls \<open>wn_Recv\<close> with a buffer of \<open>cap\<close> bytes, \<open>n\<close> times.\<close>

fun recv_many :: "'x crypto \<Rightarrow> nat \<Rightarrow> nat \<Rightarrow> 'w session \<Rightarrow> 'w \<Rightarrow> (bytes list \<times> 'w session \<times> 'w) option" where
  "recv_many C cap 0 s w = Some ([], s, w)"
| "recv_many C cap (Suc n) s w =
     (case wn_Recv C s (Some (replicate cap 0)) 0 w of
        Some (Inr _, out, outLen, s', w') \<Rightarrow>
          (case recv_many C cap n s' w' of
             Some (ms, s'', w'') \<Rightarrow> Some (take outLen out # ms, s'', w'')
           | None \<Rightarrow> None)
      | _ \<Rightarrow> None)"

definition open_session :: "nat \<Rightarrow> 'w session \<Rightarrow> bool" where
  "open_session cap s \<longleftrightarrow> sess_ok s \<and> sess_established s \<and> \<not> sess_closed s \<and> cap + 22 \<le> scratchLen s"

lemma send_one_Data:
  assumes "aead_ok C" "open_session cap a" "ioSend a = Some send" "send_stream send wire"
    and "length m \<le> 16384" "length m \<le> cap" "send_one C (Data m) (a, w) = (a', w')"
  shows "open_session cap a'" "ioSend a' = Some send"
    "wire w' = wire w @ seal C (cKey a) (cIv a) (cSeq a) 23 m"
    "cKey a' = cKey a" "cIv a' = cIv a" "cSeq a' = cSeq a + 1" "cAppSecret a' = cAppSecret a"
proof -
  have a: "sess_ok a" "\<not> sess_closed a" "sess_established a" "length m + 22 \<le> scratchLen a"
    using assms(2,6) by (simp_all add: open_session_def)
  have l: "length (mem_put (scratch a) 0 (seal C (cKey a) (cIv a) (cSeq a) 23 m)) = length (scratch a)"
    using a(1,4) length_seal [OF assms(1), of "cKey a" "cIv a"] by (simp add: sess_ok_def)
  obtain w1 where "session_send a w (seal C (cKey a) (cIv a) (cSeq a) 23 m) = (Inr (), w1)"
      "wire w1 = wire w @ seal C (cKey a) (cIv a) (cSeq a) 23 m"
    using session_send_stream [OF assms(3,4)] by blast
  then show "open_session cap a'" "ioSend a' = Some send"
    "wire w' = wire w @ seal C (cKey a) (cIv a) (cSeq a) 23 m"
    "cKey a' = cKey a" "cIv a' = cIv a" "cSeq a' = cSeq a + 1" "cAppSecret a' = cAppSecret a"
    using assms(2,3,7) sess_ok_scratch [OF a(1) l] Send_eq [OF assms(1) a(1-3) assms(5) a(4), of w]
    by (auto simp: send_one_def open_session_def sess_closed_def sess_established_def)
qed

lemma Send_succeeds:
  assumes "aead_ok C" "send_stream send wire" "open_session cap a" "ioSend a = Some send" "length m \<le> 16384" "length m \<le> cap"
    and "wn_Send C a (Some m) w = (r, a', w')"
  shows "r = Inr ()"
  using assms(3,6,7) session_send_stream [OF assms(4,2), of w "seal C (cKey a) (cIv a) (cSeq a) 23 m"]
    Send_eq [OF assms(1) _ _ _ assms(5), of a w]
  by (auto simp: open_session_def split: prod.splits)

lemma send_one_Rekey:
  assumes "aead_ok C" "kdf_ok C" "open_session cap a" "ioSend a = Some send" "send_stream send wire"
    and "send_one C Rekey (a, w) = (a', w')"
  shows "open_session cap a'" "ioSend a' = Some send" "wire w' = wire w @ ku_record C a" "a' = rekey_w C a"
proof -
  have a: "sess_ok a" using assms(3) by (simp add: open_session_def)
  obtain w1 where "session_send a w (ku_record C a) = (Inr (), w1)" "wire w1 = wire w @ ku_record C a"
    using session_send_stream [OF assms(4,5)] by blast
  then show "open_session cap a'" "ioSend a' = Some send" "wire w' = wire w @ ku_record C a" "a' = rekey_w C a"
    using assms(3,4,6) send_key_update_eq [OF assms(1,2) a, of w] rekey_ok(2) [OF assms(2) a]
    by (auto simp: send_one_def open_session_def sess_closed_def sess_established_def rekey_w_def Let_def)
qed

text \<open>The reader of one written record.\<close>

definition reads :: "nat \<Rightarrow> 'w io_recv \<Rightarrow> ('w \<Rightarrow> bytes) \<Rightarrow> 'w session \<Rightarrow> bool" where
  "reads cap recv pend b \<longleftrightarrow> open_session cap b \<and> ioRecv b = Some recv \<and> recv_stream recv pend"

lemma recv_Data:
  assumes "aead_ok C" "reads cap recv pend b" "in_sync a b"
    and "pend w = seal C (cKey a) (cIv a) (cSeq a) 23 m @ rest"
    and "length m \<le> 16384" "length m \<le> cap" "length m \<le> length out"
  shows "\<exists>b' w'. recv_loop C b out ol w = Some (Inr (), mem_put out 0 m, length m, b', w') \<and> pend w' = rest \<and>
    reads cap recv pend b' \<and> sAppSecret b' = cAppSecret a \<and> sKey b' = cKey a \<and> sIv b' = cIv a \<and>
    sSeq b' = cSeq a + 1"
proof -
  have b: "sess_ok b" "ioRecv b = Some recv" "recv_stream recv pend" "length m + 22 \<le> scratchLen b"
    using assms(2,6) by (simp_all add: reads_def open_session_def)
  have p: "pend w = seal C (sKey b) (sIv b) (sSeq b) 23 m @ rest"
    using assms(3,4) by (simp add: in_sync_def)
  have nz: "(23 :: byte) \<noteq> 0" by simp
  obtain w1 sc where st: "pend w1 = rest" "length sc = length (scratch b)"
    "recv_step C b out ol w =
      (case recv_dispatch C 23 m out ol (b\<lparr>scratch := sc, sSeq := sSeq b + 1\<rparr>) w1 of
         (r, out', ol', s', w') \<Rightarrow> (r, out', ol', wipe_plain (length m) s', w'))"
    using recv_step_record [OF assms(1) b(1-3) p nz assms(5) b(4), of out ol] by blast
  define b' where "b' = wipe_plain (length m) (b\<lparr>scratch := sc, sSeq := sSeq b + 1\<rparr>)"
  have "recv_step C b out ol w = (Inr True, mem_put out 0 m, length m, b', w1)"
    using st(3) assms(7) by (simp add: recv_dispatch_def b'_def)
  then have "recv_loop C b out ol w = Some (Inr (), mem_put out 0 m, length m, b', w1)"
    by (subst recv_loop.simps) simp
  moreover have "reads cap recv pend b'"
    using assms(2) b(4) st(2)
    by (simp add: reads_def open_session_def sess_ok_def sess_closed_def sess_established_def b'_def)
  moreover have "sAppSecret b' = cAppSecret a \<and> sKey b' = cKey a \<and> sIv b' = cIv a \<and> sSeq b' = cSeq a + 1"
    using assms(3) by (simp add: in_sync_def b'_def)
  ultimately show ?thesis using st(1) by blast
qed

lemma recv_Rekey:
  assumes "aead_ok C" "kdf_ok C" "reads cap recv pend b" "5 \<le> cap" "in_sync a b"
    and "pend w = ku_record C a @ rest"
  shows "\<exists>b' w'. recv_loop C b out ol w = recv_loop C b' out ol w' \<and> pend w' = rest \<and>
    reads cap recv pend b' \<and> in_sync (rekey_w C a) b'"
proof -
  have b: "sess_ok b" "ioRecv b = Some recv" "recv_stream recv pend" "length [24 :: byte, 0, 0, 1, 0] + 22 \<le> scratchLen b"
    using assms(3,4) by (simp_all add: reads_def open_session_def)
  have p: "pend w = seal C (sKey b) (sIv b) (sSeq b) 22 [24, 0, 0, 1, 0] @ rest"
    using assms(5,6) by (simp add: in_sync_def ku_record_def)
  have nz: "(22 :: byte) \<noteq> 0" and short: "length [24 :: byte, 0, 0, 1, 0] \<le> 16384" by simp_all
  obtain w1 sc where st: "pend w1 = rest" "length sc = length (scratch b)"
    "recv_step C b out ol w =
      (case recv_dispatch C 22 [24, 0, 0, 1, 0] out ol (b\<lparr>scratch := sc, sSeq := sSeq b + 1\<rparr>) w1 of
         (r, out', ol', s', w') \<Rightarrow> (r, out', ol', wipe_plain (length [24 :: byte, 0, 0, 1, 0]) s', w'))"
    using recv_step_record [OF assms(1) b(1-3) p nz short b(4), of out ol] by blast
  define b1 where "b1 = b\<lparr>scratch := sc, sSeq := sSeq b + 1\<rparr>"
  have ok1: "sess_ok b1"
    using sess_ok_scratch [OF b(1) st(2)] by (simp add: b1_def)
  define b' where "b' = wipe_plain (length [24 :: byte, 0, 0, 1, 0]) (rekey_r C b1)"
  have "recv_step C b out ol w = (Inr False, out, ol, b', w1)"
    using st(3) posths_key_update [OF assms(2) ok1, of w1] by (simp add: recv_dispatch_def b'_def b1_def)
  then have "recv_loop C b out ol w = recv_loop C b' out ol w1"
    by (subst recv_loop.simps) simp
  moreover have "sess_ok b'"
    unfolding b'_def wipe_plain_def using b(4) st(2) b(1)
    by (intro sess_ok_scratch [OF rekey_ok(1) [OF assms(2) ok1]])
       (simp add: rekey_r_def b1_def Let_def sess_ok_def)
  then have "reads cap recv pend b'"
    using assms(3) by (simp add: reads_def open_session_def sess_closed_def sess_established_def b'_def
        rekey_r_def b1_def Let_def)
  moreover have "in_sync (rekey_w C a) b'"
    using assms(5) by (simp add: in_sync_def b'_def b1_def rekey_r_def rekey_w_def Let_def)
  ultimately show ?thesis using st(1) by blast
qed

text \<open>Data that fits the peers' buffers.\<close>

fun sendable :: "nat \<Rightarrow> sent \<Rightarrow> bool" where
  "sendable cap (Data m) = (length m \<le> 16384 \<and> length m \<le> cap)"
| "sendable cap Rekey = True"

lemma wn_Recv_open: "reads cap recv pend b \<Longrightarrow> wn_Recv C b (Some out) ol w = recv_loop C b out 0 w"
  by (simp add: reads_def open_session_def wn_Recv_def)

lemma sends_append:
  assumes "aead_ok C" "kdf_ok C" "send_stream send wire"
  shows "open_session cap a \<Longrightarrow> ioSend a = Some send \<Longrightarrow> list_all (sendable cap) es \<Longrightarrow>
    \<exists>bs. wire (snd (fold (send_one C) es (a, w))) = wire w @ bs"
proof (induction es arbitrary: a w)
  case Nil
  then show ?case by simp
next
  case (Cons e es)
  obtain a' w' where st: "send_one C e (a, w) = (a', w')" by force
  have "open_session cap a' \<and> ioSend a' = Some send \<and> (\<exists>bs. wire w' = wire w @ bs)"
  proof (cases e)
    case (Data m)
    then show ?thesis
      using send_one_Data [OF assms(1) Cons.prems(1,2) assms(3) _ _ st [unfolded Data]] Cons.prems(3) by auto
  next
    case Rekey
    then show ?thesis
      using send_one_Rekey [OF assms(1,2) Cons.prems(1,2) assms(3) st [unfolded Rekey]] by auto
  qed
  then show ?case
    using Cons.IH [of a' w'] Cons.prems(3) st by fastforce
qed

lemma end_to_end:
  assumes "aead_ok C" "kdf_ok C" "send_stream send wire" "5 \<le> cap"
  shows "open_session cap a \<Longrightarrow> ioSend a = Some send \<Longrightarrow> reads cap recv pend b \<Longrightarrow> in_sync a b \<Longrightarrow>
    list_all (sendable cap) es \<Longrightarrow> es = [] \<or> (\<exists>m. last es = Data m) \<Longrightarrow>
    fold (send_one C) es (a, wa) = (a', wa') \<Longrightarrow> wire wa' = wire wa @ bs \<Longrightarrow> pend wb = bs @ rest \<Longrightarrow>
    \<exists>b' wb'. recv_many C cap (length (datas es)) b wb = Some (datas es, b', wb') \<and> pend wb' = rest \<and> in_sync a' b'"
proof (induction es arbitrary: a b wa wb bs)
  case Nil
  then show ?case by simp
next
  case (Cons e es)
  obtain a1 w1 where st: "send_one C e (a, wa) = (a1, w1)" by force
  have fold: "fold (send_one C) es (a1, w1) = (a', wa')"
    using Cons.prems(7) st by simp
  show ?case
  proof (cases e)
    case (Data m)
    have m: "length m \<le> 16384" "length m \<le> cap"
      using Cons.prems(5) Data by simp_all
    note s = send_one_Data [OF assms(1) Cons.prems(1,2) assms(3) m st [unfolded Data]]
    obtain bs' where bs': "wire wa' = wire w1 @ bs'"
      using sends_append [OF assms(1-3) s(1,2), of es w1] Cons.prems(5) fold by auto
    then have bs: "bs = seal C (cKey a) (cIv a) (cSeq a) 23 m @ bs'"
      using s(3) Cons.prems(8) by simp
    obtain b1 v1 where r: "recv_loop C b (replicate cap 0) 0 wb = Some (Inr (), mem_put (replicate cap 0) 0 m, length m, b1, v1)"
      "pend v1 = bs' @ rest" "reads cap recv pend b1" "sAppSecret b1 = cAppSecret a" "sKey b1 = cKey a"
      "sIv b1 = cIv a" "sSeq b1 = cSeq a + 1"
      using recv_Data [OF assms(1) Cons.prems(3,4) _ m, of wb "bs' @ rest" "replicate cap 0" 0]
        Cons.prems(9) bs m by auto
    have "in_sync a1 b1"
      using s r by (simp add: in_sync_def)
    from Cons.IH [OF s(1,2) r(3) this _ _ fold bs' r(2)] obtain b' wb' where
      "recv_many C cap (length (datas es)) b1 v1 = Some (datas es, b', wb')" "pend wb' = rest" "in_sync a' b'"
      using Cons.prems(5,6) by (auto split: if_splits)
    moreover have "take (length m) (mem_put (replicate cap 0) 0 m) = m"
      using m by (simp add: mem_put_def)
    ultimately show ?thesis
      using r(1) by (simp add: Data wn_Recv_open [OF Cons.prems(3)])
  next
    case Rekey
    note s = send_one_Rekey [OF assms(1,2) Cons.prems(1,2) assms(3) st [unfolded Rekey]]
    obtain bs' where bs': "wire wa' = wire w1 @ bs'"
      using sends_append [OF assms(1-3) s(1,2), of es w1] Cons.prems(5) fold by auto
    then have bs: "bs = ku_record C a @ bs'"
      using s(3) Cons.prems(8) by simp
    obtain b1 v1 where r: "recv_loop C b (replicate cap 0) 0 wb = recv_loop C b1 (replicate cap 0) 0 v1"
      "pend v1 = bs' @ rest" "reads cap recv pend b1" "in_sync a1 b1"
      using recv_Rekey [OF assms(1,2) Cons.prems(3) assms(4) Cons.prems(4), of wb "bs' @ rest"
          "replicate cap 0" 0] Cons.prems(9) bs s(4) by auto
    have es: "es \<noteq> []" "\<exists>m. last es = Data m"
      using Cons.prems(6) Rekey by (auto split: if_splits)
    have "\<exists>b' wb'. recv_many C cap (length (datas es)) b1 v1 = Some (datas es, b', wb') \<and> pend wb' = rest \<and> in_sync a' b'"
      using Cons.IH [OF s(1,2) r(3,4) _ _ fold bs' r(2)] Cons.prems(5) es by simp
    moreover have "datas es \<noteq> []"
      using es by (induction es rule: datas.induct) (auto split: if_splits)
    then obtain n where "length (datas es) = Suc n" by (cases "datas es") auto
    ultimately show ?thesis
      using r(1) by (simp add: Rekey wn_Recv_open [OF Cons.prems(3)] wn_Recv_open [OF r(3)])
  qed
qed

subsection \<open>Properties\<close>

text \<open>Two sessions for the witnesses: the writer's wire and the reader's transport are lists.\<close>

definition list_send :: "bytes io_send" where
  "list_send w bs = (int (length bs), w @ bs)"

definition toy_session :: "bytes session" where
  "toy_session =
     \<lparr>ioSend = Some list_send, ioRecv = Some byte_recv, scratch = replicate 40 0, scratchLen = 40,
      cAppSecret = replicate 32 1, sAppSecret = replicate 32 1,
      cKey = replicate 16 2, cIv = replicate 12 3, sKey = replicate 16 2, sIv = replicate 12 3,
      cSeq = 0, sSeq = 0, sdigest = WC_SHA256, sflags = 1\<rparr>"

lemma toy_session_open: "cap \<le> 18 \<Longrightarrow> open_session cap toy_session"
  by (simp add: toy_session_def open_session_def sess_ok_def sess_established_def sess_closed_def)

lemma list_send_stream: "send_stream list_send (\<lambda>w. w)"
  by (simp add: send_stream_def list_send_def)

text \<open>C6. End to end: whatever mix of application data and KeyUpdates one side of a connection
  sends, a peer in step with it that keeps calling \<open>wn_Recv\<close> gets exactly the data, in
  order, however the transport splits the stream, with the KeyUpdates followed silently;
  afterwards the two are still in step.\<close>

theorem session_end_to_end:
  assumes "aead_ok C" "kdf_ok C" "send_stream send wire" "recv_stream recv pend" "5 \<le> cap"
    and "open_session cap a" "open_session cap b" "ioSend a = Some send" "ioRecv b = Some recv" "in_sync a b"
    and "list_all (sendable cap) es" "es = [] \<or> (\<exists>m. last es = Data m)"
    and "wire wa = []" "fold (send_one C) es (a, wa) = (a', wa')" "pend wb = wire wa' @ rest"
  shows "\<exists>b' wb'. recv_many C cap (length (datas es)) b wb = Some (datas es, b', wb') \<and>
           pend wb' = rest \<and> in_sync a' b'"
proof (rule end_to_end [OF assms(1-3,5,6,8) _ assms(10-12,14)])
  show "reads cap recv pend b"
    using assms by (simp add: reads_def)
  show "wire wa' = wire wa @ wire wa'"
    using assms(13) by simp
qed (rule assms(15))

theorem session_end_to_end_witness:
  "\<exists>b' wb'. recv_many toy_provider 8 (length (datas [Rekey, Data [7, 8]])) toy_session
       (snd (fold (send_one toy_provider) [Rekey, Data [7, 8]] (toy_session, [])) @ [5])
     = Some (datas [Rekey, Data [7, 8]], b', wb') \<and> wb' = [5] \<and>
     in_sync (fst (fold (send_one toy_provider) [Rekey, Data [7, 8]] (toy_session, []))) b'"
  by (rule session_end_to_end [OF toy_aead_ok toy_kdf_ok list_send_stream byte_recv_stream _
        toy_session_open toy_session_open _ _ _ _ _ _ prod.collapse [symmetric] refl])
     (simp_all add: toy_session_def in_sync_def)

text \<open>C14. Only authenticated data is delivered. When \<open>wn_Recv\<close> succeeds, the octets it took off the
  transport are whole records; the last one opens, under the peer's key after the KeyUpdates before it and
  the counter just used, to application data; the caller's buffer holds these data and is otherwise as it
  was, and their copy in the scratch buffer is zeroed. When it fails, the caller's buffer is
  untouched. The transport is one that hands out what is pending, and sending does not change that.\<close>

theorem recv_authenticated:
  assumes "aead_ok C" "kdf_ok C" "sess_ok s" "recv_bounded (the (ioRecv s))"
    and "takes_from (the (ioRecv s)) pend" "sends_apart (the (ioSend s)) pend"
    and "wn_Recv C s (Some out) ol w = Some (r, out', ol', s', w')"
  shows "case r of Inl _ \<Rightarrow> out' = out | Inr _ \<Rightarrow> delivered C pend s w out out' ol' s' w'"
  using Recv_ok(5) [OF assms(1-4,7)] Recv_delivers [OF assms(1-3,5,6), of out ol w out' ol' s' w'] assms(7) by (cases r) auto

text \<open>A session whose peer has sent one record, and one whose writes go elsewhere.\<close>

definition sink_send :: "bytes io_send" where
  "sink_send w bs = (int (length bs), w)"

lemma toy_session_ok: "sess_ok toy_session" "sess_ok (toy_session\<lparr>ioSend := Some sink_send\<rparr>)"
  "recv_bounded (the (ioRecv toy_session))"
  by (simp_all add: sess_ok_def toy_session_def byte_recv_bounded)

lemma byte_recv_takes: "takes_from byte_recv (\<lambda>w. w)"
  by (auto simp: takes_from_def byte_recv_def split: list.splits if_splits)

lemma toy_recv_data:
  "\<exists>s'. wn_Recv toy_provider (toy_session\<lparr>ioSend := Some sink_send\<rparr>) (Some [9, 9, 9]) 0
     (seal toy_provider (cKey toy_session) (cIv toy_session) 0 23 [7, 8]) = Some (Inr (), [7, 8, 9], 2, s', [])"
proof -
  let ?b = "toy_session\<lparr>ioSend := Some sink_send\<rparr>"
  have "open_session 8 ?b" using toy_session_ok(2) by (simp add: open_session_def toy_session_def sess_established_def sess_closed_def)
  then have r: "reads 8 byte_recv (\<lambda>w. w) ?b" by (simp add: reads_def toy_session_def byte_recv_stream)
  have sy: "in_sync toy_session ?b" by (simp add: in_sync_def toy_session_def)
  have "\<exists>b' w'. recv_loop toy_provider ?b [9, 9, 9] 0 (seal toy_provider (cKey toy_session) (cIv toy_session) (cSeq toy_session) 23 [7, 8]) =
      Some (Inr (), mem_put [9, 9, 9] 0 [7, 8], length [7 :: byte, 8], b', w') \<and> w' = [] \<and>
      reads 8 byte_recv (\<lambda>w. w) b' \<and> sAppSecret b' = cAppSecret toy_session \<and> sKey b' = cKey toy_session \<and>
      sIv b' = cIv toy_session \<and> sSeq b' = cSeq toy_session + 1"
    by (rule recv_Data [OF toy_aead_ok r sy]) simp_all
  then show ?thesis unfolding wn_Recv_open [OF r] by (auto simp: mem_put_def toy_session_def)
qed

theorem recv_authenticated_witness:
  "\<exists>s'. wn_Recv toy_provider (toy_session\<lparr>ioSend := Some sink_send\<rparr>) (Some [9, 9, 9]) 0
     (seal toy_provider (cKey toy_session) (cIv toy_session) 0 23 [7, 8]) = Some (Inr (), [7, 8, 9], 2, s', []) \<and>
   delivered toy_provider (\<lambda>w. w) (toy_session\<lparr>ioSend := Some sink_send\<rparr>)
     (seal toy_provider (cKey toy_session) (cIv toy_session) 0 23 [7, 8]) [9, 9, 9] [7, 8, 9] 2 s' []"
proof -
  obtain s' where r: "wn_Recv toy_provider (toy_session\<lparr>ioSend := Some sink_send\<rparr>) (Some [9, 9, 9]) 0
     (seal toy_provider (cKey toy_session) (cIv toy_session) 0 23 [7, 8]) = Some (Inr (), [7, 8, 9], 2, s', [])"
    using toy_recv_data by blast
  have io: "recv_bounded (the (ioRecv (toy_session\<lparr>ioSend := Some sink_send\<rparr>)))"
      "takes_from (the (ioRecv (toy_session\<lparr>ioSend := Some sink_send\<rparr>))) (\<lambda>w. w)"
      "sends_apart (the (ioSend (toy_session\<lparr>ioSend := Some sink_send\<rparr>))) (\<lambda>w. w)"
    by (simp_all add: toy_session_def byte_recv_bounded byte_recv_takes sends_apart_def sink_send_def)
  from recv_authenticated [OF toy_aead_ok toy_kdf_ok toy_session_ok(2) io r] r show ?thesis by auto
qed

text \<open>C21. The session invariant (key, IV and secret sizes, digest, a scratch buffer as large as
  it says, callbacks set) is kept by sending and receiving on every path, errors included, and
  neither of them ever leaves a buffer: the octets of the scratch buffer behind its stated length stay as they
  were, and neither it nor the caller's buffer grows.\<close>

theorem session_invariant:
  assumes "aead_ok C" "kdf_ok C" "sess_ok s" "recv_bounded (the (ioRecv s))"
  shows "(case wn_Send C s (Some data) w of (r, s', _) \<Rightarrow> sess_ok s' \<and> same_buffer s s' \<and> r \<noteq> Inl Oob) \<and>
    (case wn_Recv C s (Some out) ol w of None \<Rightarrow> True
     | Some (r, out', _, s', _) \<Rightarrow> sess_ok s' \<and> same_buffer s s' \<and> length out' = length out \<and> r \<noteq> Inl Oob)"
  using Send_ok [OF assms(1,3)] Recv_ok(1-4) [OF assms] by (auto split: prod.split option.split)

theorem session_invariant_witness:
  "(case wn_Send toy_provider toy_session (Some [1]) [] of (r, s', _) \<Rightarrow> sess_ok s' \<and> same_buffer toy_session s' \<and> r \<noteq> Inl Oob) \<and>
    (case wn_Recv toy_provider toy_session (Some [0]) 0 [] of None \<Rightarrow> True
     | Some (r, out', _, s', _) \<Rightarrow> sess_ok s' \<and> same_buffer toy_session s' \<and> length out' = length [0 :: byte] \<and> r \<noteq> Inl Oob)"
  by (rule session_invariant [OF toy_aead_ok toy_kdf_ok toy_session_ok(1,3)])

lemma sends_wire:
  assumes "aead_ok C" "send_stream send wire"
  shows "open_session cap a \<Longrightarrow> ioSend a = Some send \<Longrightarrow> list_all (\<lambda>m. length m \<le> 16384 \<and> length m \<le> cap) ms \<Longrightarrow>
    wire (snd (fold (send_one C) (map Data ms) (a, w))) =
    wire w @ concat (map (\<lambda>i. seal C (cKey a) (cIv a) (cSeq a + of_nat i) 23 (ms ! i)) [0..<length ms])"
proof (induction ms arbitrary: a w)
  case Nil
  then show ?case by simp
next
  case (Cons m ms)
  obtain a1 w1 where st: "send_one C (Data m) (a, w) = (a1, w1)" by force
  have m: "length m \<le> 16384" "length m \<le> cap" using Cons.prems(3) by simp_all
  note s = send_one_Data [OF assms(1) Cons.prems(1,2) assms(2) m st]
  have "[0..<length (m # ms)] = 0 # map Suc [0..<length ms]"
    by (simp add: upt_conv_Cons map_Suc_upt del: upt_Suc)
  then show ?case
    using Cons.IH [OF s(1,2), of w1] Cons.prems(3) st s(3-6)
    by (simp add: comp_def add.assoc del: upt_Suc)
qed

lemma word64_of_nat_inj: "inj_on (\<lambda>i. s + of_nat i :: word64) {0..<18446744073709551616}"
proof (rule inj_onI)
  fix i j assume ij: "i \<in> {0..<18446744073709551616}" "j \<in> {0..<18446744073709551616}"
    and "s + of_nat i = s + (of_nat j :: word64)"
  then have "unat (of_nat i :: word64) = unat (of_nat j :: word64)" by simp
  then show "i = j" using ij by (simp add: unat_of_nat)
qed

text \<open>C16. Nonces on the wire: sending \<open>n\<close> messages on a session puts on the wire, in order, the
  records sealed under the counters \<open>cSeq, cSeq + 1, ...\<close>, and as long as \<open>n\<close> is at most
  \<open>2^64\<close> no two of these records share a nonce.\<close>

theorem nonces_on_wire_distinct:
  assumes "aead_ok C" "send_stream send wire" "open_session cap a" "ioSend a = Some send"
    and "list_all (\<lambda>m. length m \<le> 16384 \<and> length m \<le> cap) ms" "length ms \<le> 18446744073709551616"
  shows "wire (snd (fold (send_one C) (map Data ms) (a, w))) =
      wire w @ concat (map (\<lambda>i. seal C (cKey a) (cIv a) (cSeq a + of_nat i) 23 (ms ! i)) [0..<length ms]) \<and>
    distinct (map (\<lambda>i. wn_BuildNonce (cIv a) (cSeq a + of_nat i)) [0..<length ms])"
proof
  have "inj_on (\<lambda>i. cSeq a + of_nat i :: word64) {0..<length ms}"
    using word64_of_nat_inj by (rule inj_on_subset) (use assms(6) in auto)
  moreover have iv: "length (cIv a) = 12"
    using assms(3) by (simp add: open_session_def sess_ok_def)
  ultimately show "distinct (map (\<lambda>i. wn_BuildNonce (cIv a) (cSeq a + of_nat i)) [0..<length ms])"
    by (auto simp: distinct_map inj_on_def dest!: BuildNonce_inj [OF iv])
qed (rule sends_wire [OF assms(1-5)])

theorem nonces_on_wire_distinct_witness:
  "snd (fold (send_one toy_provider) (map Data [[1], [2]]) (toy_session, [9])) =
      [9] @ concat (map (\<lambda>i. seal toy_provider (cKey toy_session) (cIv toy_session)
                                (cSeq toy_session + of_nat i) 23 ([[1], [2]] ! i)) [0..<length [[1 :: byte], [2]]]) \<and>
    distinct (map (\<lambda>i. wn_BuildNonce (cIv toy_session) (cSeq toy_session + of_nat i)) [0..<length [[1 :: byte], [2]]])"
  by (rule nonces_on_wire_distinct [OF toy_aead_ok list_send_stream toy_session_open [of 8]])
     (simp_all add: toy_session_def)

text \<open>C22. Closing: whatever the state, \<open>wn_Close\<close> leaves a session with every key, IV, secret
  and counter zero and no callback, on which sending and receiving are refused without
  any effect; a \<open>close_notify\<close> record is sent only on an open session.\<close>

theorem close_wipes:
  "case wn_Close C s w of (r, s', w') \<Rightarrow>
     s' = session_zero \<and> (if w' = w then True else sess_established s \<and> \<not> sess_closed s) \<and>
     wn_Send C s' (Some data) w' = (Inl E_BAD_STATE, s', w') \<and>
     wn_Recv C s' (Some out) ol w' = Some (Inl E_BAD_STATE, out, ol, s', w')"
  by (simp add: wn_Close_def wn_Send_def wn_Recv_def session_zero_def sess_closed_def
      sess_established_def split: prod.split sum.split)

text \<open>On a session the peer has already closed, \<open>wn_Recv\<close> returns \<open>E_CLOSED\<close> and does not
  write \<open>*outLen\<close>: its old value stays, where the header promises 0.\<close>

theorem recv_closed_keeps_outLen:
  assumes "sess_closed s"
  shows "wn_Recv C s (Some out) ol w = Some (Inl E_CLOSED, out, ol, s, w)"
  using assms by (simp add: wn_Recv_def)

theorem recv_closed_keeps_outLen_witness:
  "wn_Recv toy_provider (toy_session\<lparr>sflags := 3\<rparr>) (Some [4]) 9 [] =
   Some (Inl E_CLOSED, [4], 9, toy_session\<lparr>sflags := 3\<rparr>, [])"
  by (rule recv_closed_keeps_outLen) (simp add: sess_closed_def)

text \<open>C27. The write counter wraps. On every open session at the counter \<open>2^64 - 1\<close>, whatever the provider
  and the data, two more messages are sent under the same key and IV, the second under counter 0, that of
  the first record of the session; RFC 8446 5.3 asks to rekey or terminate instead.\<close>

theorem send_counter_wraps:
  assumes "aead_ok C" "send_stream send wire" "open_session cap s" "ioSend s = Some send" "cSeq s = 0xFFFFFFFFFFFFFFFF"
    and "length m \<le> 16384" "length m \<le> cap" "length n \<le> 16384" "length n \<le> cap"
  shows "case wn_Send C s (Some m) w of (r1, s1, w1) \<Rightarrow> case wn_Send C s1 (Some n) w1 of (r2, s2, w2) \<Rightarrow>
    r1 = Inr () \<and> r2 = Inr () \<and> cSeq s1 = 0 \<and> cSeq s2 = 1 \<and> cKey s2 = cKey s \<and> cIv s2 = cIv s \<and> cAppSecret s2 = cAppSecret s \<and>
    wire w2 = wire w @ seal C (cKey s) (cIv s) 0xFFFFFFFFFFFFFFFF 23 m @ seal C (cKey s) (cIv s) 0 23 n"
proof -
  obtain r1 s1 w1 where 1: "wn_Send C s (Some m) w = (r1, s1, w1)" by (metis prod_cases3)
  obtain r2 s2 w2 where 2: "wn_Send C s1 (Some n) w1 = (r2, s2, w2)" by (metis prod_cases3)
  note a = send_one_Data [OF assms(1,3,4,2,6,7), unfolded send_one_def sent.case fst_conv snd_conv, of w s1 w1, unfolded 1 snd_conv, OF refl]
  note b = send_one_Data [OF assms(1) a(1,2) assms(2,8,9), unfolded send_one_def sent.case fst_conv snd_conv, of w1 s2 w2, unfolded 2 snd_conv, OF refl]
  have "r1 = Inr ()" by (rule Send_succeeds [OF assms(1-4,6,7) 1])
  moreover have "r2 = Inr ()" by (rule Send_succeeds [OF assms(1,2) a(1,2) assms(8,9) 2])
  moreover have q: "cSeq s1 = 0" using a(6) assms(5) by simp
  moreover have "cSeq s2 = 1" using b(6) q by simp
  moreover have "wire w2 = wire w @ seal C (cKey s) (cIv s) 0xFFFFFFFFFFFFFFFF 23 m @ seal C (cKey s) (cIv s) 0 23 n"
    using a(3) b(3) unfolding a(4,5) q assms(5) by simp
  ultimately show ?thesis using a(4,5,7) b(4,5,7) by (simp add: 1 2)
qed

theorem send_counter_wraps_witness:
  "case wn_Send toy_provider (toy_session\<lparr>cSeq := 0xFFFFFFFFFFFFFFFF\<rparr>) (Some [1]) [] of (r1, s1, w1) \<Rightarrow>
   case wn_Send toy_provider s1 (Some [2, 3]) w1 of (r2, s2, w2) \<Rightarrow>
    r1 = Inr () \<and> r2 = Inr () \<and> cSeq s1 = 0 \<and> cSeq s2 = 1 \<and> cKey s2 = cKey (toy_session\<lparr>cSeq := 0xFFFFFFFFFFFFFFFF\<rparr>) \<and>
    cIv s2 = cIv (toy_session\<lparr>cSeq := 0xFFFFFFFFFFFFFFFF\<rparr>) \<and> cAppSecret s2 = cAppSecret (toy_session\<lparr>cSeq := 0xFFFFFFFFFFFFFFFF\<rparr>) \<and>
    w2 = [] @ seal toy_provider (cKey (toy_session\<lparr>cSeq := 0xFFFFFFFFFFFFFFFF\<rparr>)) (cIv (toy_session\<lparr>cSeq := 0xFFFFFFFFFFFFFFFF\<rparr>)) 0xFFFFFFFFFFFFFFFF 23 [1] @
      seal toy_provider (cKey (toy_session\<lparr>cSeq := 0xFFFFFFFFFFFFFFFF\<rparr>)) (cIv (toy_session\<lparr>cSeq := 0xFFFFFFFFFFFFFFFF\<rparr>)) 0 23 [2, 3]"
proof (rule send_counter_wraps [OF toy_aead_ok list_send_stream, where cap = 8])
  show "open_session 8 (toy_session\<lparr>cSeq := 0xFFFFFFFFFFFFFFFF\<rparr>)"
    by (simp add: toy_session_def open_session_def sess_ok_def sess_established_def sess_closed_def)
qed (simp_all add: toy_session_def)

end
