(* ===== verification/Handshake.thy ===== *)
theory Handshake
  imports Session
begin

section \<open>Shared handshake helpers (wn_handshake.c)\<close>

text \<open>
  What the client and the server drivers share: plaintext records, the reassembly of one
  handshake message from records, the handshake keys and the establishment of the session.
  The reassembly loop ends only if the peer lets it (ChangeCipherSpec records are skipped),
  so it is a partial function. The key derivations combine their statuses with \<open>|=\<close> and do
  not stop at the first error, as in the code.
\<close>

subsection \<open>Plaintext records\<close>

text \<open>\<open>(word32)r != bodyLen\<close> compares the status as an unsigned value.\<close>

definition wn_SendPlainRecord :: "'w io_send \<Rightarrow> 'w \<Rightarrow> byte \<Rightarrow> bytes \<Rightarrow> (wn_err + unit) \<times> 'w" where
  "wn_SendPlainRecord send w t body =
     (let bodyLen = length body; hdr = [t, 3, 3, of_nat (bodyLen div 256), of_nat bodyLen] in
      case send w hdr of (r, w1) \<Rightarrow>
        if r \<noteq> 5 then (Inl E_CRYPTO, w1)
        else case send w1 body of (r2, w2) \<Rightarrow>
          (if nat (r2 mod 4294967296) \<noteq> bodyLen then Inl E_CRYPTO else Inr (), w2))"

definition wn_SendCcs :: "'w io_send \<Rightarrow> 'w \<Rightarrow> (wn_err + unit) \<times> 'w" where
  "wn_SendCcs send w = wn_SendPlainRecord send w 20 [1]"

subsection \<open>Reassembly of a handshake message\<close>

text \<open>The length field of the message header.\<close>

definition hs_len :: "bytes \<Rightarrow> nat" where
  "hs_len acc = dec24 (acc ! 1) (acc ! 2) (acc ! 3)"

text \<open>
  One turn of the loop: \<open>Inr None\<close> goes on, \<open>Inr (Some mLen)\<close> ends it with a message whose
  header announces \<open>mLen\<close> bytes. \<open>acc\<close> and \<open>tmp\<close> are the whole buffers, so that their
  capacities are their lengths.
\<close>

definition recv_hs_step ::
  "'w io_recv \<Rightarrow> bytes \<Rightarrow> nat \<Rightarrow> bytes \<Rightarrow> 'w \<Rightarrow> (wn_err + nat option) \<times> bytes \<times> nat \<times> bytes \<times> 'w" where
  "recv_hs_step recv acc accLen tmp w =
     (case wn_RecvRecord recv w tmp (length tmp) of
        (Inl e, tmp', w') \<Rightarrow> (Inl e, acc, accLen, tmp', w')
      | (Inr (rtype, recLen), tmp', w') \<Rightarrow>
          if rtype = 20 then (Inr None, acc, accLen, tmp', w')
          else if rtype \<noteq> 22 \<or> recLen \<le> 5 then (Inl E_UNEXPECTED_MSG, acc, accLen, tmp', w')
          else if recLen - 5 > u32_sub (length acc) accLen then (Inl E_DECODE, acc, accLen, tmp', w')
          else
            let acc' = mem_put acc accLen (slice 5 (recLen - 5) tmp'); accLen' = u32 (accLen + (recLen - 5)) in
            if accLen' \<ge> 4 then
              (if u32 (4 + hs_len acc') > length acc then (Inl E_DECODE, acc', accLen', tmp', w')
               else if accLen' \<ge> u32 (4 + hs_len acc') then (Inr (Some (hs_len acc')), acc', accLen', tmp', w')
               else (Inr None, acc', accLen', tmp', w'))
            else (Inr None, acc', accLen', tmp', w'))"

partial_function (option) recv_hs_loop ::
  "'w io_recv \<Rightarrow> bytes \<Rightarrow> nat \<Rightarrow> bytes \<Rightarrow> 'w \<Rightarrow> ((wn_err + nat) \<times> bytes \<times> bytes \<times> 'w) option" where
  "recv_hs_loop recv acc accLen tmp w =
     (case recv_hs_step recv acc accLen tmp w of
        (Inl e, acc', accLen', tmp', w') \<Rightarrow> Some (Inl e, acc', tmp', w')
      | (Inr q, acc', accLen', tmp', w') \<Rightarrow>
          (case q of
             None \<Rightarrow> recv_hs_loop recv acc' accLen' tmp' w'
           | Some mLen \<Rightarrow>
               Some (if accLen' \<noteq> u32 (4 + mLen) then Inl E_DECODE else Inr accLen', acc', tmp', w')))"

definition wn_RecvHandshake ::
  "'w io_recv option \<Rightarrow> 'w \<Rightarrow> bytes \<Rightarrow> bytes \<Rightarrow> ((wn_err + nat) \<times> bytes \<times> bytes \<times> 'w) option" where
  "wn_RecvHandshake cb w acc tmp =
     (case cb of None \<Rightarrow> Some (Inl E_INVALID_ARG, acc, tmp, w)
      | Some recv \<Rightarrow> recv_hs_loop recv acc 0 tmp w)"

subsection \<open>Handshake keys\<close>

record hs_keys =
  hk_hs :: bytes
  hk_cHs :: bytes
  hk_sHs :: bytes
  hk_cKey :: bytes
  hk_cIv :: bytes
  hk_sKey :: bytes
  hk_sIv :: bytes

text \<open>Stack arrays before anything is written to them; their values are never used.\<close>

definition stack32 :: bytes where
  "stack32 = replicate 32 0"

definition stack_keys :: hs_keys where
  "stack_keys = \<lparr>hk_hs = stack32, hk_cHs = stack32, hk_sHs = stack32, hk_cKey = replicate 16 0, hk_cIv = replicate 12 0,
     hk_sKey = replicate 16 0, hk_sIv = replicate 12 0\<rparr>"

definition wn_DeriveHsKeys ::
  "'x crypto \<Rightarrow> hs_keys \<Rightarrow> bytes \<Rightarrow> bytes \<Rightarrow> bytes \<Rightarrow> bytes \<Rightarrow> int \<times> hs_keys" where
  "wn_DeriveHsKeys C k early ecdhe emptyHash th =
     (case wn_Tls13_DeriveSecret C stack32 (Some early) ''derived'' (Some emptyHash) 32 WC_SHA256 of (r1, derived) \<Rightarrow>
      case wn_Tls13_Extract C (hk_hs k) derived (Some ecdhe) WC_SHA256 of (r2, hs) \<Rightarrow>
      case wn_Tls13_DeriveSecret C (hk_cHs k) (Some hs) ''c hs traffic'' (Some th) 32 WC_SHA256 of (r3, cHs) \<Rightarrow>
      case wn_Tls13_DeriveSecret C (hk_sHs k) (Some hs) ''s hs traffic'' (Some th) 32 WC_SHA256 of (r4, sHs) \<Rightarrow>
      case wn_Tls13_ExpandLabel C (hk_cKey k) 16 (Some cHs) ''key'' None 0 WC_SHA256 of (r5, ck) \<Rightarrow>
      case wn_Tls13_ExpandLabel C (hk_cIv k) 12 (Some cHs) ''iv'' None 0 WC_SHA256 of (r6, ci) \<Rightarrow>
      case wn_Tls13_ExpandLabel C (hk_sKey k) 16 (Some sHs) ''key'' None 0 WC_SHA256 of (r7, sk) \<Rightarrow>
      case wn_Tls13_ExpandLabel C (hk_sIv k) 12 (Some sHs) ''iv'' None 0 WC_SHA256 of (r8, si) \<Rightarrow>
        (r1 OR r2 OR r3 OR r4 OR r5 OR r6 OR r7 OR r8,
         \<lparr>hk_hs = hs, hk_cHs = cHs, hk_sHs = sHs, hk_cKey = ck, hk_cIv = ci, hk_sKey = sk, hk_sIv = si\<rparr>))"

datatype role = Client | Server

text \<open>Our write secret is our own side's.\<close>

fun our_label :: "role \<Rightarrow> string" where
  "our_label Server = ''s ap traffic''"
| "our_label Client = ''c ap traffic''"

fun peer_label :: "role \<Rightarrow> string" where
  "peer_label Server = ''c ap traffic''"
| "peer_label Client = ''s ap traffic''"

definition wn_SessionEstablish ::
  "'x crypto \<Rightarrow> role \<Rightarrow> 'w session \<Rightarrow> bytes \<Rightarrow> bytes \<Rightarrow> bytes \<Rightarrow> bytes \<Rightarrow> 'w io_send option \<Rightarrow>
   'w io_recv option \<Rightarrow> bytes \<Rightarrow> nat \<Rightarrow> int \<times> 'w session" where
  "wn_SessionEstablish C rl sess hs emptyHash zeros th send recv scr scrLen =
     (case wn_Tls13_DeriveSecret C stack32 (Some hs) ''derived'' (Some emptyHash) 32 WC_SHA256 of (r1, derived) \<Rightarrow>
      case wn_Tls13_Extract C stack32 derived (Some zeros) WC_SHA256 of (r2, master) \<Rightarrow>
      case wn_Tls13_DeriveSecret C (cAppSecret sess) (Some master) (our_label rl) (Some th) 32 WC_SHA256 of (r3, cApp) \<Rightarrow>
      case wn_Tls13_DeriveSecret C (sAppSecret sess) (Some master) (peer_label rl) (Some th) 32 WC_SHA256 of (r4, sApp) \<Rightarrow>
      case wn_Tls13_ExpandLabel C (cKey sess) 16 (Some cApp) ''key'' None 0 WC_SHA256 of (r5, ck) \<Rightarrow>
      case wn_Tls13_ExpandLabel C (cIv sess) 12 (Some cApp) ''iv'' None 0 WC_SHA256 of (r6, ci) \<Rightarrow>
      case wn_Tls13_ExpandLabel C (sKey sess) 16 (Some sApp) ''key'' None 0 WC_SHA256 of (r7, sk) \<Rightarrow>
      case wn_Tls13_ExpandLabel C (sIv sess) 12 (Some sApp) ''iv'' None 0 WC_SHA256 of (r8, si) \<Rightarrow>
        let ret = r1 OR r2 OR r3 OR r4 OR r5 OR r6 OR r7 OR r8;
            sess1 = sess\<lparr>cAppSecret := cApp, sAppSecret := sApp, cKey := ck, cIv := ci, sKey := sk, sIv := si\<rparr> in
        (ret,
         if ret = WOLFNANO_SUCCESS
         then sess1\<lparr>ioSend := send, ioRecv := recv, scratch := scr, scratchLen := scrLen,
                     cSeq := 0, sSeq := 0, sdigest := WC_SHA256, sflags := 1\<rparr>
         else sess1))"

subsection \<open>What the derivations compute\<close>

text \<open>RFC 8446 7.1, over the provider.\<close>

definition derived_secret :: "'x crypto \<Rightarrow> bytes \<Rightarrow> bytes \<Rightarrow> bytes" where
  "derived_secret C s emptyHash = hkdf_expand C 32 s ''derived'' emptyHash"

definition hs_secret :: "'x crypto \<Rightarrow> bytes \<Rightarrow> bytes \<Rightarrow> bytes \<Rightarrow> bytes" where
  "hs_secret C early emptyHash ecdhe = hkdf_extract C (derived_secret C early emptyHash) ecdhe"

definition traffic_key :: "'x crypto \<Rightarrow> bytes \<Rightarrow> bytes" where
  "traffic_key C s = hkdf_expand C 16 s ''key'' []"

definition traffic_iv :: "'x crypto \<Rightarrow> bytes \<Rightarrow> bytes" where
  "traffic_iv C s = hkdf_expand C 12 s ''iv'' []"

definition app_secret :: "'x crypto \<Rightarrow> bytes \<Rightarrow> bytes \<Rightarrow> bytes \<Rightarrow> bytes \<Rightarrow> string \<Rightarrow> bytes" where
  "app_secret C hs emptyHash zeros th label =
     hkdf_expand C 32 (hkdf_extract C (derived_secret C hs emptyHash) zeros) label th"

lemmas schedule_defs = derived_secret_def hs_secret_def traffic_key_def traffic_iv_def app_secret_def

lemma DeriveHsKeys_eq:
  assumes "kdf_ok C" "length early = 32" "length emptyHash = 32" "length th = 32"
  shows "wn_DeriveHsKeys C k early ecdhe emptyHash th =
    (let hs = hs_secret C early emptyHash ecdhe;
         cHs = hkdf_expand C 32 hs ''c hs traffic'' th; sHs = hkdf_expand C 32 hs ''s hs traffic'' th in
     (0, \<lparr>hk_hs = hs, hk_cHs = cHs, hk_sHs = sHs, hk_cKey = traffic_key C cHs, hk_cIv = traffic_iv C cHs,
          hk_sKey = traffic_key C sHs, hk_sIv = traffic_iv C sHs\<rparr>))"
  by (simp add: wn_DeriveHsKeys_def kdf_steps assms schedule_defs Let_def)

lemma SessionEstablish_eq:
  assumes "kdf_ok C" "length hs = 32" "length emptyHash = 32" "length th = 32"
  shows "wn_SessionEstablish C rl sess hs emptyHash zeros th send recv scr scrLen =
    (let ours = app_secret C hs emptyHash zeros th (our_label rl);
         theirs = app_secret C hs emptyHash zeros th (peer_label rl) in
     (0, sess\<lparr>ioSend := send, ioRecv := recv, scratch := scr, scratchLen := scrLen,
          cAppSecret := ours, sAppSecret := theirs, cKey := traffic_key C ours, cIv := traffic_iv C ours,
          sKey := traffic_key C theirs, sIv := traffic_iv C theirs,
          cSeq := 0, sSeq := 0, sdigest := WC_SHA256, sflags := 1\<rparr>))"
  by (simp add: wn_SessionEstablish_def kdf_steps assms schedule_defs Let_def WOLFNANO_SUCCESS_def)

subsection \<open>The two sides establish matching sessions\<close>

lemma kdf_len: "kdf_ok C \<Longrightarrow> length (traffic_key C s) = 16" "kdf_ok C \<Longrightarrow> length (traffic_iv C s) = 12"
  "kdf_ok C \<Longrightarrow> length (app_secret C hs e z th l) = 32" "kdf_ok C \<Longrightarrow> length (hs_secret C a b c) = 32"
  by (simp_all add: schedule_defs)

lemma established_open:
  assumes "kdf_ok C" "length hs = 32" "length emptyHash = 32" "length th = 32"
    and "cap + 22 \<le> scrLen" "scrLen \<le> length scr"
    and "wn_SessionEstablish C rl sess hs emptyHash zeros th (Some send) (Some recv) scr scrLen = (ret, s)"
  shows "ret = WOLFNANO_SUCCESS" "open_session cap s" "ioSend s = Some send" "ioRecv s = Some recv"
    "cSeq s = 0" "sSeq s = 0"
  using assms
  by (auto simp: SessionEstablish_eq Let_def kdf_len WOLFNANO_SUCCESS_def open_session_def sess_ok_def
      sess_established_def sess_closed_def)

lemma established_in_sync:
  assumes "kdf_ok C" "length hs = 32" "length emptyHash = 32" "length th = 32"
    and "wn_SessionEstablish C Client sess1 hs emptyHash zeros th send1 recv1 scr1 len1 = (r1, c)"
    and "wn_SessionEstablish C Server sess2 hs emptyHash zeros th send2 recv2 scr2 len2 = (r2, s)"
  shows "in_sync c s" "in_sync s c"
  using assms(5,6) by (auto simp: SessionEstablish_eq [OF assms(1-4)] Let_def in_sync_def)

subsection \<open>Reassembly\<close>

text \<open>The records of a flight that carries one message: its fragments, with compatibility
  ChangeCipherSpec records in between.\<close>

datatype hs_rec = Ccs | Frag bytes

fun rec_bytes :: "hs_rec \<Rightarrow> bytes" where
  "rec_bytes Ccs = [20, 3, 3, 0, 1, 1]"
| "rec_bytes (Frag f) = [22, 3, 3, of_nat (length f div 256), of_nat (length f)] @ f"

fun frag_of :: "hs_rec \<Rightarrow> bytes" where
  "frag_of Ccs = []"
| "frag_of (Frag f) = f"

fun frag_fits :: "nat \<Rightarrow> hs_rec \<Rightarrow> bool" where
  "frag_fits cap Ccs = (6 \<le> cap)"
| "frag_fits cap (Frag f) = (f \<noteq> [] \<and> length f \<le> 16640 \<and> length f + 5 \<le> cap)"

lemma Suc5: "Suc (Suc (Suc (Suc (Suc n)))) = n + 5"
  by simp

lemma recv_rec:
  assumes "recv_stream recv pend" "frag_fits (length tmp) r" "pend w = rec_bytes r @ rest"
  shows "\<exists>w'. wn_RecvRecord recv w tmp (length tmp) =
      (Inr (case r of Ccs \<Rightarrow> 20 | Frag _ \<Rightarrow> 22, length (rec_bytes r)), mem_put tmp 0 (rec_bytes r), w') \<and> pend w' = rest"
proof (cases r)
  case Ccs
  then show ?thesis
    using RecvRecord_stream [OF assms(1), of w "[20, 3, 3, 0, 1]" "[1]" rest "length tmp" tmp] assms(2,3)
    by (simp add: frag_len_eq numeral_eq_Suc)
next
  case (Frag f)
  have "length f div 256 < 256"
    using assms(2) Frag by auto
  then have "frag_len [22, 3, 3, of_nat (length f div 256), of_nat (length f)] = length f"
    by (simp add: frag_len_eq unat_of_nat_byte)
  then show ?thesis
    using RecvRecord_stream [OF assms(1), of w "[22, 3, 3, of_nat (length f div 256), of_nat (length f)]" f
        rest "length tmp" tmp] assms(2,3) Frag
    by (simp add: add.commute Suc5)
qed

lemma slice_rec:
  "frag_fits (length tmp) (Frag f) \<Longrightarrow>
   slice 5 (length (rec_bytes (Frag f)) - 5) (mem_put tmp 0 (rec_bytes (Frag f))) = f"
  by (simp add: mem_put_def slice_def)

lemma hs_loop_assembles:
  assumes "recv_stream recv pend" "4 \<le> length msg" "hs_len msg + 4 = length msg" "length msg \<le> length acc"
    and "length acc < 2147483648"
  shows "list_all (frag_fits (length tmp)) rs \<Longrightarrow> msg = done @ concat (map frag_of rs) \<Longrightarrow>
    done \<noteq> msg \<Longrightarrow> take (length done) acc' = done \<Longrightarrow> length acc' = length acc \<Longrightarrow>
    last rs \<noteq> Ccs \<Longrightarrow> pend w = concat (map rec_bytes rs) @ rest \<Longrightarrow>
    \<exists>acc'' tmp' w'. recv_hs_loop recv acc' (length done) tmp w = Some (Inr (length msg), acc'', tmp', w') \<and>
      take (length msg) acc'' = msg \<and> length acc'' = length acc \<and> pend w' = rest"
proof (induction rs arbitrary: "done" acc' tmp w)
  case Nil
  then show ?case by simp
next
  case (Cons r rs)
  obtain w1 where rr: "wn_RecvRecord recv w tmp (length tmp) =
      (Inr (case r of Ccs \<Rightarrow> 20 | Frag _ \<Rightarrow> 22, length (rec_bytes r)), mem_put tmp 0 (rec_bytes r), w1)"
      "pend w1 = concat (map rec_bytes rs) @ rest"
    using recv_rec [OF assms(1), of tmp r w "concat (map rec_bytes rs) @ rest"] Cons.prems(1,7) by auto
  have tl: "length (mem_put tmp 0 (rec_bytes r)) = length tmp"
    using Cons.prems(1) by (cases r) simp_all
  show ?case
  proof (cases r)
    case Ccs
    then have "rs \<noteq> []" "last rs \<noteq> Ccs"
      using Cons.prems(6) by (auto split: if_splits)
    then show ?thesis
      using Cons.IH [of "mem_put tmp 0 (rec_bytes r)" "done" acc' w1] Cons.prems(1-5) rr tl Ccs
      by (subst recv_hs_loop.simps) (simp add: recv_hs_step_def)
  next
    case (Frag f)
    define don where "don = done @ f"
    have msg: "msg = don @ concat (map frag_of rs)"
      using Cons.prems(2) Frag by (simp add: don_def)
    define ac where "ac = mem_put acc' (length done) f"
    have fit: "length done + length f \<le> length acc'"
      using Cons.prems(2,5) assms(4) Frag by simp
    have ac: "take (length don) ac = don" "length ac = length acc"
      using take_mem_put [OF fit] fit Cons.prems(4,5) by (simp_all add: ac_def don_def)
    have u: "u32_sub (length acc') (length done) = length acc' - length done"
      "u32 (length done + length f) = length don"
      using fit Cons.prems(5) assms(5) by (simp_all add: u32_sub_ge don_def)
    have f: "f \<noteq> []" "slice 5 (length (rec_bytes r) - 5) (mem_put tmp 0 (rec_bytes r)) = f"
        "length (rec_bytes r) - 5 = length f" "\<not> length (rec_bytes r) \<le> 5"
      using slice_rec [of tmp f] Cons.prems(1) Frag by simp_all
    have hl: "4 \<le> length don \<Longrightarrow> hs_len ac = hs_len msg"
    proof -
      assume 4: "4 \<le> length don"
      have "ac ! i = msg ! i" if "i < 4" for i
      proof -
        have "ac ! i = take (length don) ac ! i" using 4 that by simp
        also have "\<dots> = msg ! i" using ac(1) msg 4 that by (simp add: nth_append)
        finally show ?thesis .
      qed
      then show ?thesis by (simp add: hs_len_def)
    qed
    have m4: "u32 (4 + hs_len msg) = length msg"
      using assms(3-5) by (simp add: add.commute)
    have "length don \<le> length msg"
      using msg by simp
    then consider "don = msg" | "don \<noteq> msg" "length don < length msg"
      using msg by (cases "concat (map frag_of rs) = []") auto
    then show ?thesis
    proof cases
      case 1
      have rs: "rs = []"
      proof (rule ccontr)
        assume "rs \<noteq> []"
        then have "last rs \<in> set rs" "last rs \<noteq> Ccs" using Cons.prems(6) by auto
        then obtain g where "Frag g \<in> set rs" by (metis hs_rec.exhaust)
        moreover from this have "g \<noteq> []" using Cons.prems(1) by (auto simp: list_all_iff)
        ultimately have "concat (map frag_of rs) \<noteq> []" by force
        then show False using 1 msg by simp
      qed
      have "recv_hs_step recv acc' (length done) tmp w
          = (Inr (Some (hs_len msg)), ac, length don, mem_put tmp 0 (rec_bytes r), w1)"
        using rr(1) Frag f u fit hl m4 1 assms(2,4) Cons.prems(5)
        by (simp add: recv_hs_step_def ac_def [symmetric] Let_def del: rec_bytes.simps)
      then show ?thesis
        using 1 m4 ac rr(2) rs by (subst recv_hs_loop.simps) simp
    next
      case 2
      have "recv_hs_step recv acc' (length done) tmp w = (Inr None, ac, length don, mem_put tmp 0 (rec_bytes r), w1)"
        using rr(1) Frag f u fit hl m4 2 assms(4) Cons.prems(5)
        by (simp add: recv_hs_step_def ac_def [symmetric] Let_def del: rec_bytes.simps)
      moreover have "rs \<noteq> []" using 2 msg by auto
      ultimately show ?thesis
        using Cons.IH [of "mem_put tmp 0 (rec_bytes r)" don ac w1] Cons.prems(1,6) msg 2(1) ac rr(2) tl
        by (subst recv_hs_loop.simps) simp
    qed
  qed
qed

lemma recv_hs_step_ok:
  assumes "recv_hs_step recv acc n tmp w = (r, acc', n', tmp', w')" "n \<le> length acc" "length acc < 2147483648"
    and "5 \<le> length tmp"
  shows "length acc' = length acc \<and> n' \<le> length acc \<and> length tmp' = length tmp \<and>
    (recv_bounded recv \<longrightarrow> r \<noteq> Inl Oob) \<and>
    (\<forall>m. r = Inr (Some m) \<longrightarrow> m = hs_len acc' \<and> 4 \<le> n' \<and> 4 + m \<le> n')"
proof -
  obtain x tmp1 w1 where rr: "wn_RecvRecord recv w tmp (length tmp) = (x, tmp1, w1)" by (metis prod_cases3)
  note ro = RecvRecord_ok [OF rr assms(4) order_refl]
  show ?thesis
  proof (cases x)
    case (Inl e)
    then show ?thesis using assms rr ro by (auto simp: recv_hs_step_def)
  next
    case (Inr p)
    then obtain t k where x: "x = Inr (t, k)" by (cases p) simp
    define acc1 where "acc1 = mem_put acc n (slice 5 (k - 5) tmp1)"
    have k: "6 \<le> k" "k \<le> length tmp" using ro(3) [OF x] by simp_all
    have sub: "u32_sub (length acc) n = length acc - n"
      using assms(2,3) by (simp add: u32_sub_ge)
    have len: "length (slice 5 (k - 5) tmp1) = k - 5"
      using k ro(1) by simp
    have fit: "k - 5 \<le> length acc - n \<Longrightarrow> length acc1 = length acc \<and> u32 (n + (k - 5)) = n + (k - 5)"
      using assms(2,3) len by (simp add: acc1_def)
    have u4: "hs_len acc1 < 16777216"
      by (simp add: hs_len_def)
    show ?thesis
    proof (cases "t = 20 \<or> t \<noteq> 22 \<or> k \<le> 5 \<or> k - 5 > length acc - n")
      case True
      then show ?thesis
        using assms(1,2) rr x ro(1) sub by (auto simp: recv_hs_step_def split: if_splits)
    next
      case False
      have e: "u32 (n + (k - 5)) = n + (k - 5)" "u32 (4 + hs_len acc1) = 4 + hs_len acc1" "length acc1 = length acc"
        using fit u4 False by simp_all
      have "(r, acc', n', tmp', w') =
        (if n + (k - 5) \<ge> 4 then
          (if 4 + hs_len acc1 > length acc then (Inl E_DECODE, acc1, n + (k - 5), tmp1, w1)
           else if n + (k - 5) \<ge> 4 + hs_len acc1 then (Inr (Some (hs_len acc1)), acc1, n + (k - 5), tmp1, w1)
           else (Inr None, acc1, n + (k - 5), tmp1, w1))
         else (Inr None, acc1, n + (k - 5), tmp1, w1))"
        using assms(1) [unfolded recv_hs_step_def rr x sum.case prod.case sub acc1_def [symmetric] Let_def e(1,2)]
          False by simp
      then show ?thesis
        using False e(3) ro(1) assms(2) by (auto split: if_splits)
    qed
  qed
qed

lemma hs_loop_ok:
  assumes "recv_hs_loop recv acc n tmp w = Some res" "n \<le> length acc" "length acc < 2147483648" "5 \<le> length tmp"
  shows "case res of (r, acc', tmp', w') \<Rightarrow> length acc' = length acc \<and> length tmp' = length tmp \<and>
    (recv_bounded recv \<longrightarrow> r \<noteq> Inl Oob) \<and> (\<forall>m. r = Inr m \<longrightarrow> m = 4 + hs_len acc' \<and> m \<le> length acc')"
proof -
  have "n \<le> length acc \<longrightarrow> length acc < 2147483648 \<longrightarrow> 5 \<le> length tmp \<longrightarrow>
    (case res of (r, acc', tmp', w') \<Rightarrow> length acc' = length acc \<and> length tmp' = length tmp \<and>
    (recv_bounded recv \<longrightarrow> r \<noteq> Inl Oob) \<and> (\<forall>m. r = Inr m \<longrightarrow> m = 4 + hs_len acc' \<and> m \<le> length acc'))"
  proof (rule recv_hs_loop.raw_induct [OF _ assms(1)], intro impI)
    fix loop recv acc n tmp w res
    assume IH: "\<And>recv acc n tmp w res. loop recv acc n tmp w = Some res \<Longrightarrow>
        n \<le> length acc \<longrightarrow> length acc < 2147483648 \<longrightarrow> 5 \<le> length tmp \<longrightarrow>
        (case res of (r, acc', tmp', w') \<Rightarrow> length acc' = length acc \<and> length tmp' = length tmp \<and>
         (recv_bounded recv \<longrightarrow> r \<noteq> Inl Oob) \<and> (\<forall>m. r = Inr m \<longrightarrow> m = 4 + hs_len acc' \<and> m \<le> length acc'))"
      and body: "(case recv_hs_step recv acc n tmp w of
          (Inl e, acc', accLen', tmp', w') \<Rightarrow> Some (Inl e, acc', tmp', w')
        | (Inr q, acc', accLen', tmp', w') \<Rightarrow>
            (case q of None \<Rightarrow> loop recv acc' accLen' tmp' w'
             | Some mLen \<Rightarrow>
                 Some (if accLen' \<noteq> u32 (4 + mLen) then Inl E_DECODE else Inr accLen', acc', tmp', w'))) = Some res"
      and pre: "n \<le> length acc" "length acc < 2147483648" "5 \<le> length tmp"
    obtain r acc1 n1 tmp1 w1 where st: "recv_hs_step recv acc n tmp w = (r, acc1, n1, tmp1, w1)"
      by (metis prod_cases5)
    note ok = recv_hs_step_ok [OF st pre]
    show "case res of (r, acc', tmp', w') \<Rightarrow> length acc' = length acc \<and> length tmp' = length tmp \<and>
         (recv_bounded recv \<longrightarrow> r \<noteq> Inl Oob) \<and> (\<forall>m. r = Inr m \<longrightarrow> m = 4 + hs_len acc' \<and> m \<le> length acc')"
    proof (cases r)
      case (Inl e)
      then show ?thesis using body ok by (auto simp: st)
    next
      case (Inr q)
      show ?thesis
      proof (cases q)
        case None
        then show ?thesis using body ok pre Inr IH [of recv acc1 n1 tmp1 w1 res] by (auto simp: st)
      next
        case (Some m)
        then show ?thesis using body ok pre(2) Inr by (auto simp: st split: if_splits)
      qed
    qed
  qed
  then show ?thesis using assms(2-4) by simp
qed

subsection \<open>Properties\<close>

text \<open>C13. Reassembly: a handshake message split over any number of non-empty records, with
  compatibility ChangeCipherSpec records anywhere before its last fragment and the stream
  chunked at will, is assembled exactly, and the transport is left right behind it.\<close>

theorem handshake_reassembled:
  assumes "recv_stream recv pend" "4 \<le> length msg" "hs_len msg + 4 = length msg"
    and "length msg \<le> length acc" "length acc < 2147483648"
    and "list_all (frag_fits (length tmp)) rs" "concat (map frag_of rs) = msg" "last rs \<noteq> Ccs"
    and "pend w = concat (map rec_bytes rs) @ rest"
  shows "\<exists>acc' tmp' w'. wn_RecvHandshake (Some recv) w acc tmp = Some (Inr (length msg), acc', tmp', w') \<and>
           take (length msg) acc' = msg \<and> length acc' = length acc \<and> pend w' = rest"
  using hs_loop_assembles [OF assms(1-5) assms(6), of "[]" acc w rest] assms(2,7-9)
  by (fastforce simp: wn_RecvHandshake_def)

theorem handshake_reassembled_witness:
  "\<exists>acc' tmp' w'. wn_RecvHandshake (Some byte_recv)
      (concat (map rec_bytes [Frag [2, 0], Ccs, Frag [0, 1, 9]]) @ [5]) (replicate 8 0) (replicate 10 0)
      = Some (Inr (length [2 :: byte, 0, 0, 1, 9]), acc', tmp', w') \<and>
    take (length [2 :: byte, 0, 0, 1, 9]) acc' = [2, 0, 0, 1, 9] \<and> length acc' = length (replicate 8 (0 :: byte)) \<and> w' = [5]"
  by (rule handshake_reassembled [where pend = "\<lambda>w. w" and rs = "[Frag [2, 0], Ccs, Frag [0, 1, 9]]"])
     (simp_all add: byte_recv_stream hs_len_def dec24_eq)

text \<open>C20. Whatever the peer sends, the reassembly stays inside its two buffers, and a message it
  accepts fits the buffer and is exactly as long as its own header says.\<close>

theorem handshake_reassembly_safe:
  assumes "recv_bounded recv" "length acc < 2147483648" "5 \<le> length tmp"
    and "wn_RecvHandshake (Some recv) w acc tmp = Some (r, acc', tmp', w')"
  shows "length acc' = length acc \<and> length tmp' = length tmp \<and>
    (case r of Inl e \<Rightarrow> e \<noteq> Oob | Inr m \<Rightarrow> m = 4 + hs_len acc' \<and> m \<le> length acc')"
proof -
  have "recv_hs_loop recv acc 0 tmp w = Some (r, acc', tmp', w')"
    using assms(4) by (simp add: wn_RecvHandshake_def)
  from hs_loop_ok [OF this le0 assms(2,3)] show ?thesis
    using assms(1) by (cases r) auto
qed

theorem handshake_reassembly_safe_witness:
  "length [0 :: byte] = length [0 :: byte] \<and> length (replicate 5 (0 :: byte)) = length (replicate 5 (0 :: byte)) \<and>
   (case (Inl E_CRYPTO :: wn_err + nat) of Inl e \<Rightarrow> e \<noteq> Oob | Inr m \<Rightarrow> m = 4 + hs_len [0] \<and> m \<le> length [0 :: byte])"
proof (rule handshake_reassembly_safe [where recv = byte_recv and w = "[]" and w' = "[]"])
  show "wn_RecvHandshake (Some byte_recv) [] [0] (replicate 5 0) = Some (Inl E_CRYPTO, [0], replicate 5 0, [])"
    by (simp add: wn_RecvHandshake_def recv_hs_loop.simps recv_hs_step_def wn_RecvRecord_def
        recv_exact_cases(2) byte_recv_def)
qed (simp_all add: byte_recv_bounded)

text \<open>C8. Key agreement of the two roles: from the same handshake secret and transcript hash the
  client's and the server's sessions come out open, with counters at zero and in step in
  both directions; what one writes with is what the other reads with.\<close>

theorem sessions_mirror:
  assumes "kdf_ok C" "length hs = 32" "length emptyHash = 32" "length th = 32"
    and "cap + 22 \<le> len1" "len1 \<le> length scr1" "cap + 22 \<le> len2" "len2 \<le> length scr2"
  shows "case wn_SessionEstablish C Client sess1 hs emptyHash zeros th (Some send1) (Some recv1) scr1 len1 of
    (r1, c) \<Rightarrow> case wn_SessionEstablish C Server sess2 hs emptyHash zeros th (Some send2) (Some recv2) scr2 len2 of
    (r2, s) \<Rightarrow> r1 = WOLFNANO_SUCCESS \<and> r2 = WOLFNANO_SUCCESS \<and> open_session cap c \<and> open_session cap s \<and>
      in_sync c s \<and> in_sync s c \<and> cSeq c = 0 \<and> cSeq s = 0"
proof -
  obtain r1 c where c: "wn_SessionEstablish C Client sess1 hs emptyHash zeros th (Some send1) (Some recv1) scr1 len1
      = (r1, c)" by force
  obtain r2 s where s: "wn_SessionEstablish C Server sess2 hs emptyHash zeros th (Some send2) (Some recv2) scr2 len2
      = (r2, s)" by force
  show ?thesis
    using established_open [OF assms(1-6) c] established_open [OF assms(1-4,7,8) s]
      established_in_sync [OF assms(1-4) c s] by (simp add: c s)
qed

theorem sessions_mirror_witness:
  "case wn_SessionEstablish toy_provider Client session_zero (replicate 32 1) (replicate 32 2) (replicate 32 0)
      (replicate 32 3) (Some list_send) (Some byte_recv) (replicate 40 0) 40 of
    (r1, c) \<Rightarrow> case wn_SessionEstablish toy_provider Server session_zero (replicate 32 1) (replicate 32 2)
      (replicate 32 0) (replicate 32 3) (Some list_send) (Some byte_recv) (replicate 40 0) 40 of
    (r2, s) \<Rightarrow> r1 = WOLFNANO_SUCCESS \<and> r2 = WOLFNANO_SUCCESS \<and> open_session 18 c \<and> open_session 18 s \<and>
      in_sync c s \<and> in_sync s c \<and> cSeq c = 0 \<and> cSeq s = 0"
  by (rule sessions_mirror) (simp_all add: toy_kdf_ok)

end
