(* ===== verification/ServerHello.thy ===== *)
theory ServerHello
  imports Msg
begin

section \<open>ServerHello, HelloRetryRequest, EncryptedExtensions (wn_serverhello.c)\<close>

text \<open>
  The parser of a ServerHello and the builders of the server's first messages. A pointer
  into the message is an offset. The parser's result is what \<open>out\<close> holds on success; on an
  error the caller does not read it.
\<close>

record server_hello =
  sh_random :: "nat option"
  sh_keyShare :: "nat option"
  sh_sessionId :: "nat option"
  sh_keyShareLen :: nat
  sh_cipher :: word16
  sh_group :: word16
  sh_version :: word16
  sh_pskSelected :: int
  sh_isHelloRetry :: bool
  sh_sessionIdLen :: nat

definition server_hello_init :: server_hello where
  "server_hello_init =
     \<lparr>sh_random = None, sh_keyShare = None, sh_sessionId = None, sh_keyShareLen = 0, sh_cipher = 0,
      sh_group = 0, sh_version = 0, sh_pskSelected = -1, sh_isHelloRetry = False, sh_sessionIdLen = 0\<rparr>"

text \<open>The HelloRetryRequest random (RFC 8446 4.1.3) and the comparison without early exit.\<close>

definition wn_hrr_random :: bytes where
  "wn_hrr_random =
     [0xCF, 0x21, 0xAD, 0x74, 0xE5, 0x9A, 0x61, 0x11, 0xBE, 0x1D, 0x8C, 0x02, 0x1E, 0x65, 0xB8, 0x91,
      0xC2, 0xA2, 0x11, 0x16, 0x7A, 0xBB, 0x8C, 0x5E, 0x07, 0x9E, 0x09, 0xE2, 0xC8, 0xA8, 0x33, 0x9C]"

definition ct_diff :: "bytes \<Rightarrow> bytes \<Rightarrow> byte" where
  "ct_diff xs ys = fold (\<lambda>(x, y) d. d OR (x XOR y)) (zip xs ys) 0"

subsection \<open>The parser\<close>

definition set_err :: "bool \<Rightarrow> reader \<Rightarrow> reader" where
  "set_err c r = (if c then r\<lparr>rerr := True\<rparr> else r)"

record sh_state =
  ss_out :: server_hello
  seenKs :: bool
  seenVer :: bool
  seenPsk :: bool

text \<open>One extension.\<close>

definition sh_ext :: "nat \<Rightarrow> reader \<times> sh_state \<Rightarrow> reader \<times> sh_state" where
  "sh_ext extEnd rs = (case rs of (r, s) \<Rightarrow>
     case wn_Read_U16 r of (et, r1) \<Rightarrow> case wn_Read_U16 r1 of (el, r2) \<Rightarrow>
     let eEnd = u32 (rpos r2 + unat el) in
     if eEnd > extEnd then (set_err True r2, s)
     else if et = 51 then
       (case wn_Read_U16 (set_err (seenKs s) r2) of (g, r3) \<Rightarrow>
        case wn_Read_U16 r3 of (klen, r4) \<Rightarrow>
        case wn_Read_Bytes (unat klen) r4 of (p, r5) \<Rightarrow>
          (set_err (rpos r5 \<noteq> eEnd) r5,
           s\<lparr>seenKs := True,
             ss_out := (ss_out s)\<lparr>sh_group := g, sh_keyShare := p, sh_keyShareLen := unat klen\<rparr>\<rparr>))
     else if et = 43 then
       (case wn_Read_U16 (set_err (seenVer s) r2) of (v, r3) \<Rightarrow>
          (set_err (rpos r3 \<noteq> eEnd) r3, s\<lparr>seenVer := True, ss_out := (ss_out s)\<lparr>sh_version := v\<rparr>\<rparr>))
     else if et = 41 then
       (case wn_Read_U16 (set_err (seenPsk s) r2) of (k, r3) \<Rightarrow>
          (set_err (rpos r3 \<noteq> eEnd) r3,
           s\<lparr>seenPsk := True, ss_out := (ss_out s)\<lparr>sh_pskSelected := int (unat k)\<rparr>\<rparr>))
     else (set_err True r2, s))"

text \<open>From the session id on: what follows the random in a ServerHello that is no retry.\<close>

definition sh_tail :: "nat \<Rightarrow> byte \<Rightarrow> nat \<Rightarrow> word16 \<Rightarrow> server_hello \<Rightarrow> reader \<Rightarrow> wn_err + server_hello" where
  "sh_tail msgLen t hsLen lver out r =
     (case wn_Read_U8 r of (sidLen, r1) \<Rightarrow>
      case wn_Read_Bytes (unat sidLen) r1 of (sid, r2) \<Rightarrow>
      case wn_Read_U16 r2 of (cph, r3) \<Rightarrow>
      case wn_Read_U8 r3 of (cmpr, r4) \<Rightarrow>
      case wn_Read_U16 r4 of (extLen, r5) \<Rightarrow>
      let extEnd0 = u32 (rpos r5 + unat extLen);
          extEnd = (if extEnd0 > msgLen then msgLen else extEnd0);
          r6 = set_err (extEnd0 > msgLen) r5;
          out1 = out\<lparr>sh_sessionId := sid, sh_sessionIdLen := unat sidLen, sh_cipher := cph\<rparr> in
      case read_while (msgLen + 1) extEnd (sh_ext extEnd)
             (r6, \<lparr>ss_out = out1, seenKs = False, seenVer = False, seenPsk = False\<rparr>) of
        (r7, s) \<Rightarrow>
          if roob r7 then Inl Oob
          else if rerr r7 \<or> t \<noteq> 2 \<or> hsLen \<noteq> u32_sub msgLen 4 \<or> sh_random (ss_out s) = None \<or>
                  lver \<noteq> 0x0303 \<or> cmpr \<noteq> 0 \<or> extEnd \<noteq> msgLen
          then Inl E_INVALID_ARG
          else Inr (ss_out s))"

definition wn_ServerHello_Parse :: "bytes option \<Rightarrow> wn_err + server_hello" where
  "wn_ServerHello_Parse m =
     (case m of None \<Rightarrow> Inl E_INVALID_ARG
      | Some msg \<Rightarrow>
        let msgLen = length msg; r = wn_Reader_Init msg msgLen in
        case wn_Read_U8 r of (t, r1) \<Rightarrow>
        case wn_Read_U24 r1 of (hsLen, r2) \<Rightarrow>
        case wn_Read_U16 r2 of (lver, r3) \<Rightarrow>
        case wn_Read_Bytes 32 r3 of (rnd, r4) \<Rightarrow>
        let out = server_hello_init\<lparr>sh_random := rnd\<rparr> in
        if roob r4 then Inl Oob
        else if \<not> rerr r4 \<and> rnd \<noteq> None \<and> t = 2 \<and> ct_diff (slice (the rnd) 32 msg) wn_hrr_random = 0
        then Inr (out\<lparr>sh_isHelloRetry := True\<rparr>)
        else sh_tail msgLen t hsLen lver out r4)"

subsection \<open>The builders\<close>

text \<open>
  Session id and its one-byte length are one list of at most 255 bytes; \<open>srvPub\<close> is the
  server's key share.
\<close>

definition wn_ServerHello_Build ::
  "bytes \<Rightarrow> bytes option \<Rightarrow> bytes \<Rightarrow> word16 \<Rightarrow> word16 \<Rightarrow> bytes option \<Rightarrow> word16 \<Rightarrow> bool \<Rightarrow> (wn_err + nat) \<times> bytes" where
  "wn_ServerHello_Build out random32 sessionId cph grp srvPub pskIdentity includePsk =
     (if random32 = None \<or> srvPub = None then (Inl E_INVALID_ARG, out)
      else let srvPubLen = length (the srvPub) in
        finish_w E_CRYPTO
          (run_w
            [wn_Write_U8 2,
             wn_vec 3 (run_w
               [wn_Write_U16 0x0303,
                wn_Write_Bytes random32 32,
                wn_Write_U8 (of_nat (length sessionId)),
                wn_Write_Bytes (Some sessionId) (length sessionId),
                wn_Write_U16 cph,
                wn_Write_U8 0,
                wn_vec 2 (run_w
                  [wn_Write_U16 43, wn_Write_U16 2, wn_Write_U16 0x0304,
                   wn_Write_U16 51, wn_Write_U16 (of_nat (4 + srvPubLen)),
                   wn_Write_U16 grp, wn_Write_U16 (of_nat srvPubLen), wn_Write_Bytes srvPub srvPubLen,
                   (\<lambda>w. if includePsk
                        then run_w [wn_Write_U16 41, wn_Write_U16 2, wn_Write_U16 pskIdentity] w else w)])])]
            (wn_Writer_Init out (length out))))"

definition wn_HelloRetryRequest_Build ::
  "bytes \<Rightarrow> bytes \<Rightarrow> word16 \<Rightarrow> word16 \<Rightarrow> (wn_err + nat) \<times> bytes" where
  "wn_HelloRetryRequest_Build out sessionId cph grp =
     finish_w E_CRYPTO
       (run_w
         [wn_Write_U8 2,
          wn_vec 3 (run_w
            [wn_Write_U16 0x0303,
             wn_Write_Bytes (Some wn_hrr_random) 32,
             wn_Write_U8 (of_nat (length sessionId)),
             wn_Write_Bytes (Some sessionId) (length sessionId),
             wn_Write_U16 cph,
             wn_Write_U8 0,
             wn_vec 2 (run_w
               [wn_Write_U16 43, wn_Write_U16 2, wn_Write_U16 0x0304,
                wn_Write_U16 51, wn_Write_U16 2, wn_Write_U16 grp])])]
         (wn_Writer_Init out (length out)))"

definition wn_EncExt_Build :: "bytes \<Rightarrow> (wn_err + nat) \<times> bytes" where
  "wn_EncExt_Build out =
     finish_w E_CRYPTO
       (run_w [wn_Write_U8 8, wn_vec 3 (wn_Write_U16 0)] (wn_Writer_Init out (length out)))"

subsection \<open>The parser is safe on every input\<close>

lemma rok_set_err [simp]: "rok (set_err c r) = rok r" "rlen (set_err c r) = rlen r"
  "rpos (set_err c r) = rpos r" "rbuf (set_err c r) = rbuf r" "roob (set_err c r) = roob r"
  "rerr (set_err c r) \<longleftrightarrow> c \<or> rerr r"
  by (simp_all add: set_err_def rok_def)

text \<open>A read keeps the reader well formed, its buffer and length, and advances or latches.\<close>

lemma U8_adv: "rok r \<Longrightarrow> wn_Read_U8 r = (v, r') \<Longrightarrow>
    rok r' \<and> rlen r' = rlen r \<and> rbuf r' = rbuf r \<and> (rerr r' \<or> rpos r' = rpos r + 1) \<and> (rerr r \<longrightarrow> rerr r')"
  by (auto simp: rok_def read_defs touch_def split: if_splits)

lemma U16_adv: "rok r \<Longrightarrow> wn_Read_U16 r = (v, r') \<Longrightarrow>
    rok r' \<and> rlen r' = rlen r \<and> rbuf r' = rbuf r \<and> (rerr r' \<or> rpos r' = rpos r + 2) \<and> (rerr r \<longrightarrow> rerr r')"
  by (auto simp: rok_def read_defs touch_def split: if_splits)

lemma U24_adv: "rok r \<Longrightarrow> wn_Read_U24 r = (v, r') \<Longrightarrow>
    rok r' \<and> rlen r' = rlen r \<and> rbuf r' = rbuf r \<and> (rerr r' \<or> rpos r' = rpos r + 3) \<and> (rerr r \<longrightarrow> rerr r')"
  by (auto simp: rok_def read_defs touch_def split: if_splits)

lemma Bytes_adv: "rok r \<Longrightarrow> n < 2147483648 \<Longrightarrow> wn_Read_Bytes n r = (p, r') \<Longrightarrow>
    rok r' \<and> rlen r' = rlen r \<and> rbuf r' = rbuf r \<and> (rerr r \<longrightarrow> rerr r') \<and>
    (rerr r' \<or> rpos r' = rpos r + n \<and> p = Some (rpos r) \<and> rpos r + n \<le> rlen r)"
  by (auto simp: rok_def read_defs touch_def split: if_splits)

lemmas read_adv = U8_adv U16_adv U24_adv Bytes_adv

lemma unat16_small [simp]: "unat (v :: word16) < 2147483648" "unat (b :: byte) < 2147483648"
  using unat_word16_less [of v] unat_byte_less [of b] by (simp_all del: unat_word16_less unat_byte_less)

text \<open>A pointer with its length, inside a message of \<open>n\<close> bytes.\<close>

definition in_msg :: "nat \<Rightarrow> nat option \<Rightarrow> nat \<Rightarrow> bool" where
  "in_msg n p k \<longleftrightarrow> (case p of None \<Rightarrow> k = 0 | Some off \<Rightarrow> off + k \<le> n)"

definition sh_inv :: "nat \<times> nat \<Rightarrow> reader \<Rightarrow> sh_state \<Rightarrow> bool" where
  "sh_inv e r s \<longleftrightarrow> rok r \<and> rlen r = snd e \<and>
     (rerr r \<or> in_msg (snd e) (sh_keyShare (ss_out s)) (sh_keyShareLen (ss_out s)) \<and>
               in_msg (snd e) (sh_sessionId (ss_out s)) (sh_sessionIdLen (ss_out s)) \<and>
               in_msg (snd e) (sh_random (ss_out s)) 32)"

lemma sh_ext_step:
  assumes "sh_inv e r s" "\<not> rerr r" "sh_ext en (r, s) = (r', s')"
  shows "sh_inv e r' s' \<and> (rerr r' \<or> rpos r < rpos r')"
proof -
  obtain et r1 where r1: "wn_Read_U16 r = (et, r1)" by force
  obtain el r2 where r2: "wn_Read_U16 r1 = (el, r2)" by force
  define b where "b = (if et = 51 then seenKs s else if et = 43 then seenVer s else seenPsk s)"
  obtain g r3 where r3: "wn_Read_U16 (set_err b r2) = (g, r3)" by force
  obtain kl r4 where r4: "wn_Read_U16 r3 = (kl, r4)" by force
  obtain p r5 where r5: "wn_Read_Bytes (unat kl) r4 = (p, r5)" by force
  have ok: "rok r" using assms(1) by (simp add: sh_inv_def)
  note a1 = U16_adv [OF ok r1]
  note a2 = U16_adv [OF conjunct1 [OF a1] r2]
  note a3 = U16_adv [OF _ r3, simplified, OF conjunct1 [OF a2]]
  note a4 = U16_adv [OF conjunct1 [OF a3] r4]
  note a5 = Bytes_adv [OF conjunct1 [OF a4] unat16_small(1) r5]
  note code = assms(3) [unfolded sh_ext_def prod.case r1 r2 Let_def]
  have len: "rlen r2 = snd e" "rlen r3 = snd e" "rlen r5 = snd e"
    using a1 a2 a3 a4 a5 assms(1) by (simp_all add: sh_inv_def)
  consider (err) "r' = set_err True r2" "s' = s"
    | (ks) "et = 51" "r' = set_err (rpos r5 \<noteq> u32 (rpos r2 + unat el)) r5" "s' = s\<lparr>seenKs := True,
             ss_out := (ss_out s)\<lparr>sh_group := g, sh_keyShare := p, sh_keyShareLen := unat kl\<rparr>\<rparr>"
    | (other) "r' = set_err (rpos r3 \<noteq> u32 (rpos r2 + unat el)) r3"
      "sh_keyShare (ss_out s') = sh_keyShare (ss_out s)" "sh_keyShareLen (ss_out s') = sh_keyShareLen (ss_out s)"
      "sh_sessionId (ss_out s') = sh_sessionId (ss_out s)" "sh_sessionIdLen (ss_out s') = sh_sessionIdLen (ss_out s)"
      "sh_random (ss_out s') = sh_random (ss_out s)"
    using code r3 r4 r5 by (auto simp: b_def split: if_splits)
  then show ?thesis
  proof cases
    case err
    then show ?thesis using a2 len by (simp add: sh_inv_def)
  next
    case ks
    have "rerr r5 \<or> in_msg (snd e) p (unat kl)" "rerr r5 \<or> rpos r < rpos r5"
      using a1 a2 a3 a4 a5 len by (auto simp: in_msg_def)
    then show ?thesis
      using assms(1,2) a5 len ks(2,3) by (auto simp: sh_inv_def)
  next
    case other
    then show ?thesis
      using assms(1,2) a1 a2 a3 len by (auto simp: sh_inv_def)
  qed
qed

interpretation shl: read_loop sh_inv fst "\<lambda>e. sh_ext (fst e)"
  by unfold_locales (use sh_ext_step in blast)

lemma sh_tail_safe:
  assumes "sh_inv (0, msgLen) r \<lparr>ss_out = out, seenKs = False, seenVer = False, seenPsk = False\<rparr>"
    and "sh_tail msgLen t hsLen lver out r = res" "sh_sessionIdLen out = 0" "sh_sessionId out = None"
  shows "case res of Inl e \<Rightarrow> e \<noteq> Oob
    | Inr sh \<Rightarrow> sh_random sh \<noteq> None \<and> in_msg msgLen (sh_random sh) 32 \<and>
        in_msg msgLen (sh_keyShare sh) (sh_keyShareLen sh) \<and> in_msg msgLen (sh_sessionId sh) (sh_sessionIdLen sh)"
proof -
  obtain sl r1 where r1: "wn_Read_U8 r = (sl, r1)" by force
  obtain sid r2 where r2: "wn_Read_Bytes (unat sl) r1 = (sid, r2)" by force
  obtain cp r3 where r3: "wn_Read_U16 r2 = (cp, r3)" by force
  obtain cm r4 where r4: "wn_Read_U8 r3 = (cm, r4)" by force
  obtain el r5 where r5: "wn_Read_U16 r4 = (el, r5)" by force
  have ok: "rok r" "rlen r = msgLen" using assms(1) by (simp_all add: sh_inv_def)
  note a1 = U8_adv [OF ok(1) r1]
  note a2 = Bytes_adv [OF conjunct1 [OF a1] unat16_small(2) r2]
  note a3 = U16_adv [OF conjunct1 [OF a2] r3]
  note a4 = U8_adv [OF conjunct1 [OF a3] r4]
  note a5 = U16_adv [OF conjunct1 [OF a4] r5]
  define e0 where "e0 = u32 (rpos r5 + unat el)"
  define en where "en = (if e0 > msgLen then msgLen else e0)"
  define out1 where "out1 = out\<lparr>sh_sessionId := sid, sh_sessionIdLen := unat sl, sh_cipher := cp\<rparr>"
  define s0 where "s0 = \<lparr>ss_out = out1, seenKs = False, seenVer = False, seenPsk = False\<rparr>"
  have sidm: "rerr r5 \<or> in_msg msgLen sid (unat sl)"
    using a1 a2 a3 a4 a5 ok by (auto simp: in_msg_def)
  have errs: "rerr r \<longrightarrow> rerr r5"
    using a1 a2 a3 a4 a5 by blast
  have inv: "sh_inv (en, msgLen) (set_err (e0 > msgLen) r5) s0"
    using assms(1) a1 a2 a3 a4 a5 ok sidm errs by (auto simp: sh_inv_def s0_def out1_def)
  obtain r7 s7 where lp: "read_while (msgLen + 1) en (sh_ext en) (set_err (e0 > msgLen) r5, s0) = (r7, s7)" by force
  have le: "en \<le> msgLen" by (simp add: en_def)
  have "sh_inv (en, msgLen) r7 s7"
    using shl.loop_inv [OF inv, of "msgLen + 1" r7 s7] lp le by simp
  then have 7: "\<not> roob r7" "rerr r7 \<or> in_msg msgLen (sh_keyShare (ss_out s7)) (sh_keyShareLen (ss_out s7)) \<and>
      in_msg msgLen (sh_sessionId (ss_out s7)) (sh_sessionIdLen (ss_out s7)) \<and> in_msg msgLen (sh_random (ss_out s7)) 32"
    using rok_safe by (auto simp: sh_inv_def)
  have "res = (if rerr r7 \<or> t \<noteq> 2 \<or> hsLen \<noteq> u32_sub msgLen 4 \<or> sh_random (ss_out s7) = None \<or>
      lver \<noteq> 0x0303 \<or> cm \<noteq> 0 \<or> en \<noteq> msgLen then Inl E_INVALID_ARG else Inr (ss_out s7))"
    using assms(2) [unfolded sh_tail_def r1 r2 r3 r4 r5 prod.case Let_def, folded e0_def, folded en_def,
        folded out1_def, folded s0_def, unfolded lp prod.case] 7(1) by simp
  then show ?thesis using 7(2) by auto
qed

subsection \<open>What the builders emit and how the parser reads it\<close>

lemma emits_eq: "emits f xs \<Longrightarrow> xs = ys \<Longrightarrow> emits f ys"
  by simp

definition sh_exts :: "word16 \<Rightarrow> bytes \<Rightarrow> bool \<Rightarrow> word16 \<Rightarrow> bytes" where
  "sh_exts grp pub incl psk =
     be16 43 @ be16 2 @ be16 0x0304 @ be16 51 @ be16 (of_nat (4 + length pub)) @ be16 grp @
     be16 (of_nat (length pub)) @ pub @ (if incl then be16 41 @ be16 2 @ be16 psk else [])"

definition sh_body :: "bytes \<Rightarrow> bytes \<Rightarrow> word16 \<Rightarrow> bytes \<Rightarrow> bytes" where
  "sh_body rnd sid cph exts =
     be16 0x0303 @ rnd @ [of_nat (length sid)] @ sid @ be16 cph @ [0] @ be16 (of_nat (length exts)) @ exts"

definition sh_msg :: "bytes \<Rightarrow> bytes" where
  "sh_msg body = 2 # be24 (length body) @ body"

lemma Build_emits:
  assumes "length rnd = 32" "length sid < 256" "length pub < 2147483648"
  shows "emits (run_w
            [wn_Write_U8 2,
             wn_vec 3 (run_w
               [wn_Write_U16 0x0303, wn_Write_Bytes (Some rnd) 32, wn_Write_U8 (of_nat (length sid)),
                wn_Write_Bytes (Some sid) (length sid), wn_Write_U16 cph, wn_Write_U8 0,
                wn_vec 2 (run_w
                  [wn_Write_U16 43, wn_Write_U16 2, wn_Write_U16 0x0304,
                   wn_Write_U16 51, wn_Write_U16 (of_nat (4 + length pub)),
                   wn_Write_U16 grp, wn_Write_U16 (of_nat (length pub)), wn_Write_Bytes (Some pub) (length pub),
                   (\<lambda>w. if incl then run_w [wn_Write_U16 41, wn_Write_U16 2, wn_Write_U16 psk] w else w)])])])
     (sh_msg (sh_body rnd sid cph (sh_exts grp pub incl psk)))"
proof -
  have b: "emits (wn_Write_Bytes (Some rnd) 32) rnd" "emits (wn_Write_Bytes (Some sid) (length sid)) sid"
      "emits (wn_Write_Bytes (Some pub) (length pub)) pub"
    using assms by (auto intro!: emits_Bytes_all)
  show ?thesis
    by (rule emits_eq, (rule emits_run_Cons emits_run_Nil emits_vec emits_U8 emits_U16 emits_when b)+)
       (simp add: sh_msg_def sh_body_def sh_exts_def be_len_2 be_len_3)
qed

lemma HRR_emits:
  assumes "length sid < 256"
  shows "emits (run_w
         [wn_Write_U8 2,
          wn_vec 3 (run_w
            [wn_Write_U16 0x0303, wn_Write_Bytes (Some wn_hrr_random) 32, wn_Write_U8 (of_nat (length sid)),
             wn_Write_Bytes (Some sid) (length sid), wn_Write_U16 cph, wn_Write_U8 0,
             wn_vec 2 (run_w
               [wn_Write_U16 43, wn_Write_U16 2, wn_Write_U16 0x0304,
                wn_Write_U16 51, wn_Write_U16 2, wn_Write_U16 grp])])])
     (sh_msg (sh_body wn_hrr_random sid cph (be16 43 @ be16 2 @ be16 0x0304 @ be16 51 @ be16 2 @ be16 grp)))"
proof -
  have b: "emits (wn_Write_Bytes (Some wn_hrr_random) 32) wn_hrr_random"
      "emits (wn_Write_Bytes (Some sid) (length sid)) sid"
    using assms by (auto intro!: emits_Bytes_all simp: wn_hrr_random_def)
  show ?thesis
    by (rule emits_eq, (rule emits_run_Cons emits_run_Nil emits_vec emits_U8 emits_U16 b)+)
       (simp add: sh_msg_def sh_body_def be_len_2 be_len_3)
qed

lemma ct_diff_0: "length xs = length ys \<Longrightarrow> ct_diff xs ys = 0 \<longleftrightarrow> xs = ys"
proof -
  have "length xs = length ys \<Longrightarrow> fold (\<lambda>(x, y) d. d OR (x XOR y)) (zip xs ys) d = 0 \<longleftrightarrow> d = 0 \<and> xs = ys" for d
    by (induction xs ys arbitrary: d rule: list_induct2) (auto simp: or_eq_0_iff word_xor_eq_0)
  then show "length xs = length ys \<Longrightarrow> ct_diff xs ys = 0 \<longleftrightarrow> xs = ys"
    by (simp add: ct_diff_def)
qed

lemma set_err_False [simp]: "set_err False r = r"
  by (simp add: set_err_def)

lemma ext_version:
  assumes "\<not> seenVer s" "length pre + length post < 2147483000" "length pre + 6 \<le> en"
  shows "sh_ext en (rz pre (be16 43 @ be16 2 @ be16 v @ post), s) =
    (rz (pre @ be16 43 @ be16 2 @ be16 v) post, s\<lparr>seenVer := True, ss_out := (ss_out s)\<lparr>sh_version := v\<rparr>\<rparr>)"
  using assms by (simp add: sh_ext_def rz_be16 Let_def)

lemma ext_psk:
  assumes "\<not> seenPsk s" "length pre + length post < 2147483000" "length pre + 6 \<le> en"
  shows "sh_ext en (rz pre (be16 41 @ be16 2 @ be16 k @ post), s) =
    (rz (pre @ be16 41 @ be16 2 @ be16 k) post,
     s\<lparr>seenPsk := True, ss_out := (ss_out s)\<lparr>sh_pskSelected := int (unat k)\<rparr>\<rparr>)"
  using assms by (simp add: sh_ext_def rz_be16 Let_def)

lemma ext_key_share:
  assumes "\<not> seenKs s" "length pre + length pub + length post < 2147483000" "length pub < 65000"
    and "length pre + 8 + length pub \<le> en"
  shows "sh_ext en (rz pre (be16 51 @ be16 (of_nat (4 + length pub)) @ be16 g @ be16 (of_nat (length pub)) @ pub @ post), s) =
    (rz (pre @ be16 51 @ be16 (of_nat (4 + length pub)) @ be16 g @ be16 (of_nat (length pub)) @ pub) post,
     s\<lparr>seenKs := True,
       ss_out := (ss_out s)\<lparr>sh_group := g, sh_keyShare := Some (length pre + 8), sh_keyShareLen := length pub\<rparr>\<rparr>)"
proof -
  have u: "unat (of_nat (length pub) :: word16) = length pub" "unat (of_nat (4 + length pub) :: word16) = 4 + length pub"
    using assms(3) unfolding unat_of_nat_16 by simp_all
  show ?thesis
    using assms by (simp add: sh_ext_def rz_be16 rz_Bytes Let_def u del: of_nat_add)
qed

lemma tail_parses:
  assumes "length sid < 256" "length pub < 65000" "msgLen = length pre + 6 + length sid + length exts"
    and "exts = sh_exts grp pub incl psk" "length pre < 1000"
  shows "sh_tail msgLen 2 (msgLen - 4) 0x0303 (server_hello_init\<lparr>sh_random := Some p\<rparr>)
      (rz pre ([of_nat (length sid)] @ sid @ be16 cph @ [0] @ be16 (of_nat (length exts)) @ exts)) =
    Inr \<lparr>sh_random = Some p, sh_keyShare = Some (length pre + 20 + length sid), sh_sessionId = Some (length pre + 1),
      sh_keyShareLen = length pub, sh_cipher = cph, sh_group = grp, sh_version = 0x0304,
      sh_pskSelected = (if incl then int (unat psk) else -1), sh_isHelloRetry = False,
      sh_sessionIdLen = length sid\<rparr>"
proof -
  have el: "length exts < 65200" "length exts = 14 + length pub + (if incl then 6 else 0)"
    using assms(2) by (simp_all add: assms(4) sh_exts_def)
  have u: "unat (of_nat (length sid) :: byte) = length sid" "unat (of_nat (length exts) :: word16) = length exts"
    using assms(1) el unfolding unat_of_nat_16 unat_of_nat_byte by simp_all
  define pre5 where "pre5 = pre @ [of_nat (length sid)] @ sid @ be16 cph @ [0] @ be16 (of_nat (length exts))"
  have l5: "length pre5 = length pre + 6 + length sid"
    by (simp add: pre5_def)
  define s0 where "s0 = \<lparr>ss_out = (server_hello_init\<lparr>sh_random := Some p\<rparr>)\<lparr>sh_sessionId := Some (length pre + 1),
      sh_sessionIdLen := length sid, sh_cipher := cph\<rparr>, seenKs = False, seenVer = False, seenPsk = False\<rparr>"
  define s3 where "s3 = s0\<lparr>seenVer := True, seenKs := True,
      ss_out := (ss_out s0)\<lparr>sh_version := 0x0304, sh_group := grp, sh_keyShare := Some (length pre5 + 6 + 8),
        sh_keyShareLen := length pub\<rparr>\<rparr>"
  have one: "read_while (msgLen + 1) msgLen (sh_ext msgLen) (rz pre5 exts, s0) =
      read_while (msgLen - 1) msgLen (sh_ext msgLen)
        (rz (pre5 @ be16 43 @ be16 2 @ be16 0x0304 @ be16 51 @ be16 (of_nat (4 + length pub)) @ be16 grp @
             be16 (of_nat (length pub)) @ pub) (if incl then be16 41 @ be16 2 @ be16 psk else []), s3)"
    using l5 assms el
    by (subst read_while_step, simp, simp, simp, simp only: sh_exts_def, subst ext_version, simp add: s0_def, simp,
        simp, subst read_while_step, simp, simp, simp, subst ext_key_share, simp add: s0_def, simp, simp, simp,
        simp add: s3_def)
  define s4 where "s4 = (if incl then s3\<lparr>seenPsk := True, ss_out := (ss_out s3)\<lparr>sh_pskSelected := int (unat psk)\<rparr>\<rparr> else s3)"
  define pre7 where "pre7 = pre5 @ be16 43 @ be16 2 @ be16 0x0304 @ be16 51 @ be16 (of_nat (4 + length pub)) @ be16 grp @
             be16 (of_nat (length pub)) @ pub"
  have l7: "length pre7 = length pre5 + 14 + length pub"
    by (simp add: pre7_def)
  have "read_while (msgLen - 1) msgLen (sh_ext msgLen)
        (rz pre7 (if incl then be16 41 @ be16 2 @ be16 psk else []), s3) = (rz (pre5 @ exts) [], s4)"
  proof (cases incl)
    case True
    have "sh_ext msgLen (rz pre7 (be16 41 @ be16 2 @ be16 psk), s3) = (rz (pre7 @ be16 41 @ be16 2 @ be16 psk) [], s4)"
      using ext_psk [of s3 pre7 "[]" msgLen psk] True l7 l5 el assms(1-3,5)
      by (simp add: s3_def s0_def s4_def)
    moreover have "pre7 @ be16 41 @ be16 2 @ be16 psk = pre5 @ exts"
      using True by (simp add: pre7_def assms(4) sh_exts_def)
    moreover have "length (pre5 @ exts) = msgLen"
      using l5 assms(3) by simp
    ultimately show ?thesis
      using True l7 l5 el assms(3) by (simp add: read_while_step read_while_done)
  next
    case False
    moreover have "pre7 = pre5 @ exts"
      using False by (simp add: pre7_def assms(4) sh_exts_def)
    moreover have "length (pre5 @ exts) = msgLen"
      using l5 assms(3) by simp
    ultimately show ?thesis
      by (simp add: read_while_done s4_def)
  qed
  then have loop: "read_while (msgLen + 1) msgLen (sh_ext msgLen) (rz pre5 exts, s0) = (rz (pre5 @ exts) [], s4)"
    using one by (simp only: pre7_def)
  have e: "u32 (length pre5 + length exts) = msgLen" "msgLen < 2147483000" "u32_sub msgLen 4 = msgLen - 4"
    using l5 el assms(1,3,5) by (simp_all add: u32_sub_ge)
  have reads: "wn_Read_U8 (rz pre ([of_nat (length sid)] @ sid @ be16 cph @ [0] @ be16 (of_nat (length exts)) @ exts))
      = (of_nat (length sid), rz (pre @ [of_nat (length sid)]) (sid @ be16 cph @ [0] @ be16 (of_nat (length exts)) @ exts))"
    "wn_Read_Bytes (length sid) (rz (pre @ [of_nat (length sid)]) (sid @ be16 cph @ [0] @ be16 (of_nat (length exts)) @ exts))
      = (Some (length pre + 1), rz ((pre @ [of_nat (length sid)]) @ sid) (be16 cph @ [0] @ be16 (of_nat (length exts)) @ exts))"
    "wn_Read_U16 (rz ((pre @ [of_nat (length sid)]) @ sid) (be16 cph @ [0] @ be16 (of_nat (length exts)) @ exts))
      = (cph, rz (((pre @ [of_nat (length sid)]) @ sid) @ be16 cph) ([0] @ be16 (of_nat (length exts)) @ exts))"
    "wn_Read_U8 (rz (((pre @ [of_nat (length sid)]) @ sid) @ be16 cph) ([0] @ be16 (of_nat (length exts)) @ exts))
      = (0, rz ((((pre @ [of_nat (length sid)]) @ sid) @ be16 cph) @ [0]) (be16 (of_nat (length exts)) @ exts))"
    "wn_Read_U16 (rz ((((pre @ [of_nat (length sid)]) @ sid) @ be16 cph) @ [0]) (be16 (of_nat (length exts)) @ exts))
      = (of_nat (length exts), rz pre5 exts)"
    using el assms(1,5) by (simp_all add: rz_U8 rz_Bytes rz_be16 pre5_def)
  show ?thesis
    unfolding sh_tail_def reads prod.case u Let_def
    using loop e by (simp add: s0_def [symmetric]) (simp add: s4_def s3_def s0_def server_hello_init_def l5)
qed

text \<open>The header of a message with this body, up to the random.\<close>

lemma head_parses:
  assumes "length rnd = 32" "length body < 16777216" "body = be16 0x0303 @ rnd @ rest"
  shows "wn_ServerHello_Parse (Some (sh_msg body)) =
    (if rnd = wn_hrr_random
     then Inr (server_hello_init\<lparr>sh_random := Some 6, sh_isHelloRetry := True\<rparr>)
     else sh_tail (length body + 4) 2 (length body) 0x0303 (server_hello_init\<lparr>sh_random := Some 6\<rparr>)
            (rz (2 # be24 (length body) @ be16 0x0303 @ rnd) rest))"
proof -
  have l: "length (sh_msg body) = length body + 4" "length body = 34 + length rest"
    using assms(1,3) by (simp_all add: sh_msg_def)
  have msg: "sh_msg body = [2] @ be24 (length body) @ be16 0x0303 @ rnd @ rest"
    by (simp add: sh_msg_def assms(3))
  have reads: "wn_Read_U8 (wn_Reader_Init (sh_msg body) (length (sh_msg body)))
      = (2, rz [2] (be24 (length body) @ be16 0x0303 @ rnd @ rest))"
    "wn_Read_U24 (rz [2] (be24 (length body) @ be16 0x0303 @ rnd @ rest))
      = (length body, rz (2 # be24 (length body)) (be16 0x0303 @ rnd @ rest))"
    "wn_Read_U16 (rz (2 # be24 (length body)) (be16 0x0303 @ rnd @ rest))
      = (0x0303, rz (2 # be24 (length body) @ be16 0x0303) (rnd @ rest))"
    "wn_Read_Bytes 32 (rz (2 # be24 (length body) @ be16 0x0303) (rnd @ rest))
      = (Some 6, rz (2 # be24 (length body) @ be16 0x0303 @ rnd) rest)"
    using l assms(1,2) rz_U8 [of "[]" "be24 (length body) @ be16 0x0303 @ rnd @ rest" 2]
      rz_be24 [of "length body" "[2]" "be16 0x0303 @ rnd @ rest"]
      rz_be16 [of "2 # be24 (length body)" "rnd @ rest" "0x0303"]
      rz_Bytes [of rnd 32 "2 # be24 (length body) @ be16 0x0303" rest]
    by (simp_all add: Init_rz msg)
  have "slice 6 32 (sh_msg body) = rnd"
    using slice_at [of "[2] @ be24 (length body) @ be16 0x0303" 6 rnd 32 rest] assms(1) by (simp add: msg)
  moreover have "ct_diff rnd wn_hrr_random = 0 \<longleftrightarrow> rnd = wn_hrr_random"
    by (rule ct_diff_0) (simp add: assms(1) wn_hrr_random_def)
  ultimately show ?thesis
    unfolding wn_ServerHello_Parse_def option.case Let_def reads prod.case by (simp add: l(1))
qed

lemma server_hello_parses:
  assumes "length rnd = 32" "rnd \<noteq> wn_hrr_random" "length sid < 256" "length pub < 65000"
  shows "wn_ServerHello_Parse (Some (sh_msg (sh_body rnd sid cph (sh_exts grp pub incl psk)))) =
    Inr \<lparr>sh_random = Some 6, sh_keyShare = Some (58 + length sid), sh_sessionId = Some 39,
      sh_keyShareLen = length pub, sh_cipher = cph, sh_group = grp, sh_version = 0x0304,
      sh_pskSelected = (if incl then int (unat psk) else -1), sh_isHelloRetry = False,
      sh_sessionIdLen = length sid\<rparr>"
proof -
  define exts where "exts = sh_exts grp pub incl psk"
  define body where "body = sh_body rnd sid cph exts"
  have el: "length exts < 65200"
    using assms(4) by (simp add: exts_def sh_exts_def)
  have bl: "length body = 40 + length sid + length exts"
    using assms(1) by (simp add: body_def sh_body_def)
  have b: "body = be16 0x0303 @ rnd @ [of_nat (length sid)] @ sid @ be16 cph @ [0] @ be16 (of_nat (length exts)) @ exts"
    by (simp add: body_def sh_body_def)
  have h: "wn_ServerHello_Parse (Some (sh_msg body)) =
     sh_tail (length body + 4) 2 (length body) 0x0303 (server_hello_init\<lparr>sh_random := Some 6\<rparr>)
       (rz (2 # be24 (length body) @ be16 0x0303 @ rnd)
         ([of_nat (length sid)] @ sid @ be16 cph @ [0] @ be16 (of_nat (length exts)) @ exts))"
    using head_parses [OF assms(1) _ b] bl el assms(2,3) by simp
  have "length body + 4 = length (2 # be24 (length body) @ be16 0x0303 @ rnd) + 6 + length sid + length exts"
    using bl assms(1) by simp
  from tail_parses [OF assms(3,4) this exts_def, where cph = cph and p = 6] h show ?thesis
    using assms(1) by (simp add: body_def exts_def)
qed

subsection \<open>Properties\<close>

text \<open>C31. The ServerHello parser is memory safe on every input below 2 GB: it never reads outside
  the message, and on success each pointer it hands out, with its length, lies inside it.\<close>

theorem server_hello_parse_safe:
  assumes "length msg < 2147483648"
  shows "case wn_ServerHello_Parse (Some msg) of Inl e \<Rightarrow> e \<noteq> Oob
    | Inr sh \<Rightarrow> sh_random sh \<noteq> None \<and> in_msg (length msg) (sh_random sh) 32 \<and>
        in_msg (length msg) (sh_keyShare sh) (sh_keyShareLen sh) \<and>
        in_msg (length msg) (sh_sessionId sh) (sh_sessionIdLen sh)"
proof -
  obtain t r1 where r1: "wn_Read_U8 (wn_Reader_Init msg (length msg)) = (t, r1)" by force
  obtain hl r2 where r2: "wn_Read_U24 r1 = (hl, r2)" by force
  obtain lv r3 where r3: "wn_Read_U16 r2 = (lv, r3)" by force
  obtain rn r4 where r4: "wn_Read_Bytes 32 r3 = (rn, r4)" by force
  note a1 = U8_adv [OF rok_Init [OF order_refl assms] r1]
  note a2 = U24_adv [OF conjunct1 [OF a1] r2]
  note a3 = U16_adv [OF conjunct1 [OF a2] r3]
  note a4 = Bytes_adv [OF conjunct1 [OF a3] _ r4, simplified]
  define out where "out = server_hello_init\<lparr>sh_random := rn\<rparr>"
  have len: "rlen r4 = length msg" "rlen r3 = length msg"
    using a1 a2 a3 a4 by simp_all
  have rnd: "rerr r4 \<or> in_msg (length msg) rn 32"
    using a4 len by (auto simp: in_msg_def)
  have inv: "sh_inv (0, length msg) r4 \<lparr>ss_out = out, seenKs = False, seenVer = False, seenPsk = False\<rparr>"
    using a4 len rnd by (auto simp: sh_inv_def out_def server_hello_init_def in_msg_def)
  have not_oob: "\<not> roob r4" using a4 rok_safe by blast
  show ?thesis
  proof (cases "\<not> rerr r4 \<and> rn \<noteq> None \<and> t = 2 \<and> ct_diff (slice (the rn) 32 msg) wn_hrr_random = 0")
    case True
    then have "wn_ServerHello_Parse (Some msg) = Inr (out\<lparr>sh_isHelloRetry := True\<rparr>)"
      using not_oob by (simp add: wn_ServerHello_Parse_def r1 r2 r3 r4 Let_def out_def)
    then show ?thesis
      using True rnd by (simp add: out_def server_hello_init_def in_msg_def)
  next
    case False
    then have "wn_ServerHello_Parse (Some msg) = sh_tail (length msg) t hl lv out r4"
      using not_oob by (auto simp: wn_ServerHello_Parse_def r1 r2 r3 r4 Let_def out_def)
    then show ?thesis
      using sh_tail_safe [OF inv] by (simp add: out_def server_hello_init_def)
  qed
qed

theorem server_hello_parse_safe_witness:
  "case wn_ServerHello_Parse (Some [2, 0, 0, 1]) of Inl e \<Rightarrow> e \<noteq> Oob
    | Inr sh \<Rightarrow> sh_random sh \<noteq> None \<and> in_msg (length [2 :: byte, 0, 0, 1]) (sh_random sh) 32 \<and>
        in_msg (length [2 :: byte, 0, 0, 1]) (sh_keyShare sh) (sh_keyShareLen sh) \<and>
        in_msg (length [2 :: byte, 0, 0, 1]) (sh_sessionId sh) (sh_sessionIdLen sh)"
  by (rule server_hello_parse_safe) simp

text \<open>C29. Round trip of the ServerHello: what \<open>wn_ServerHello_Build\<close> writes, with or without a
  selected PSK, \<open>wn_ServerHello_Parse\<close> reads back: cipher, group, version 1.3 and PSK index
  as given, and random, session id and key share where the pointers say.\<close>

theorem server_hello_roundtrip:
  assumes "length rnd = 32" "rnd \<noteq> wn_hrr_random" "length sid < 256" "length pub < 65000"
    and "length sid + length pub + 64 \<le> length out" "length out < 2147483648"
  shows "case wn_ServerHello_Build out (Some rnd) sid cph grp (Some pub) psk incl of
    (Inl _, _) \<Rightarrow> False
  | (Inr n, buf) \<Rightarrow>
      (case wn_ServerHello_Parse (Some (take n buf)) of Inl _ \<Rightarrow> False
       | Inr sh \<Rightarrow> slice (the (sh_random sh)) 32 buf = rnd \<and>
           slice (the (sh_sessionId sh)) (sh_sessionIdLen sh) buf = sid \<and>
           slice (the (sh_keyShare sh)) (sh_keyShareLen sh) buf = pub \<and>
           sh_cipher sh = cph \<and> sh_group sh = grp \<and> sh_version sh = 0x0304 \<and>
           sh_pskSelected sh = (if incl then int (unat psk) else -1) \<and> \<not> sh_isHelloRetry sh)"
proof -
  define m where "m = sh_msg (sh_body rnd sid cph (sh_exts grp pub incl psk))"
  have len: "length m = 58 + length sid + length pub + (if incl then 6 else 0)"
    using assms(1) by (simp add: m_def sh_msg_def sh_body_def sh_exts_def)
  have "length pub < 2147483648" using assms(4) by simp
  note E = Build_emits [OF assms(1,3) this, of cph grp incl psk, folded m_def]
  have "length m \<le> length out" using assms(5) len by simp
  from finish_emits(1) [OF E order_refl assms(6) this, of E_CRYPTO]
  obtain buf where buf: "wn_ServerHello_Build out (Some rnd) sid cph grp (Some pub) psk incl = (Inr (length m), buf)"
    "take (length m) buf = m"
    by (auto simp: wn_ServerHello_Build_def Let_def)
  have at: "slice off k buf = slice off k m" if "off + k \<le> length m" for off k
    using that buf(2) by (metis append_take_drop_id slice_append_left)
  define l where "l = length (sh_body rnd sid cph (sh_exts grp pub incl psk))"
  define P where "P = [2] @ be24 l @ be16 0x0303 @ rnd @ [of_nat (length sid)] @ sid @ be16 cph @ [0] @
      be16 (of_nat (length (sh_exts grp pub incl psk))) @ be16 43 @ be16 2 @ be16 0x0304 @ be16 51 @
      be16 (of_nat (4 + length pub)) @ be16 grp @ be16 (of_nat (length pub))"
  have m: "m = P @ pub @ (if incl then be16 41 @ be16 2 @ be16 psk else [])"
    by (simp add: m_def sh_msg_def l_def P_def) (simp add: sh_body_def sh_exts_def)
  have "length P = 58 + length sid" using assms(1) by (simp add: P_def)
  then have p3: "slice (58 + length sid) (length pub) m = pub"
    unfolding m by (intro slice_at) simp_all
  have parts: "slice 6 32 m = rnd" "slice 39 (length sid) m = sid"
    using assms(1) by (simp_all add: m_def sh_msg_def sh_body_def slice_def)
  show ?thesis
    using server_hello_parses [OF assms(1-4), of cph grp incl psk] buf at len parts p3
    by (simp add: m_def)
qed

theorem server_hello_roundtrip_witness:
  "case wn_ServerHello_Build (replicate 80 0) (Some (0 # replicate 31 7)) [1, 2] 0x1301 0x001d (Some [3, 4, 5]) 0 True of
    (Inl _, _) \<Rightarrow> False
  | (Inr n, buf) \<Rightarrow>
      (case wn_ServerHello_Parse (Some (take n buf)) of Inl _ \<Rightarrow> False
       | Inr sh \<Rightarrow> slice (the (sh_random sh)) 32 buf = 0 # replicate 31 7 \<and>
           slice (the (sh_sessionId sh)) (sh_sessionIdLen sh) buf = [1, 2] \<and>
           slice (the (sh_keyShare sh)) (sh_keyShareLen sh) buf = [3, 4, 5] \<and>
           sh_cipher sh = 0x1301 \<and> sh_group sh = 0x001d \<and> sh_version sh = 0x0304 \<and>
           sh_pskSelected sh = (if True then int (unat (0 :: word16)) else -1) \<and> \<not> sh_isHelloRetry sh)"
  by (rule server_hello_roundtrip) (simp_all add: wn_hrr_random_def)

text \<open>A HelloRetryRequest from \<open>wn_HelloRetryRequest_Build\<close> is recognised as one by the
  client's parser, whatever its group.\<close>

theorem hello_retry_recognised:
  assumes "length sid < 256" "length sid + 60 \<le> length out" "length out < 2147483648"
  shows "case wn_HelloRetryRequest_Build out sid cph grp of
    (Inl _, _) \<Rightarrow> False
  | (Inr n, buf) \<Rightarrow>
      (case wn_ServerHello_Parse (Some (take n buf)) of Inl _ \<Rightarrow> False | Inr sh \<Rightarrow> sh_isHelloRetry sh)"
proof -
  define body where "body = sh_body wn_hrr_random sid cph (be16 43 @ be16 2 @ be16 0x0304 @ be16 51 @ be16 2 @ be16 grp)"
  have h32: "length wn_hrr_random = 32" by (simp add: wn_hrr_random_def)
  have bl: "length body = 52 + length sid"
    by (simp add: body_def sh_body_def h32)
  have "length (sh_msg body) = 56 + length sid"
    by (simp add: sh_msg_def bl)
  then obtain buf where buf: "wn_HelloRetryRequest_Build out sid cph grp = (Inr (length (sh_msg body)), buf)"
    "take (length (sh_msg body)) buf = sh_msg body"
    using finish_emits(1) [OF HRR_emits [OF assms(1)] order_refl assms(3), of cph grp E_CRYPTO] assms(2)
    by (auto simp: wn_HelloRetryRequest_Build_def body_def)
  have "wn_ServerHello_Parse (Some (sh_msg body)) =
      Inr (server_hello_init\<lparr>sh_random := Some 6, sh_isHelloRetry := True\<rparr>)"
    using head_parses [OF h32, of body] bl assms(1) by (simp add: body_def sh_body_def)
  then show ?thesis
    using buf by simp
qed

theorem hello_retry_recognised_witness:
  "case wn_HelloRetryRequest_Build (replicate 64 0) [9] 0x1301 0x0017 of
    (Inl _, _) \<Rightarrow> False
  | (Inr n, buf) \<Rightarrow>
      (case wn_ServerHello_Parse (Some (take n buf)) of Inl _ \<Rightarrow> False | Inr sh \<Rightarrow> sh_isHelloRetry sh)"
  by (rule hello_retry_recognised) simp_all

end
