(* ===== verification/Config.thy ===== *)
theory Config
  imports Prelude
begin

section \<open>The build configuration (wn_keyshare.h, user_settings.h)\<close>

text \<open>
  The preprocessor switches the code is compiled under, a parameter of every definition
  that depends on one: the key-exchange group, the signature primitives and the options of
  the X.509 parser. The hybrid
  group wins over P-256, P-256 over X25519, as the \<^verbatim>\<open>#if\<close> chain has it.
\<close>

datatype kex = X25519 | P256 | Hybrid

record build =
  b_kex :: kex
  have_mldsa :: "nat option"   \<comment> \<open>the level 2, 3 or 5\<close>
  have_ed25519 :: bool
  have_ecc :: bool
  have_ecc384 :: bool
  have_sha384_sig :: bool
  have_sha512_sig :: bool
  have_rsa :: bool
  rsa_full :: bool   \<comment> \<open>WOLFNANO_RSA_FULL: RSA keys can sign\<close>
  mldsa_sign :: bool   \<comment> \<open>WOLFNANO_MLDSA_SIGN\<close>
  send_alerts :: bool   \<comment> \<open>WOLFNANO_SEND_ALERTS\<close>
  x509_hostname :: bool   \<comment> \<open>WOLFNANO_X509_HOSTNAME\<close>
  x509_cn :: bool   \<comment> \<open>not WOLFNANO_NO_X509_CN\<close>
  x509_time :: bool   \<comment> \<open>not WOLFNANO_NO_X509_TIME\<close>
  x509_gentime :: bool   \<comment> \<open>not WOLFNANO_NO_X509_GENTIME\<close>
  x509_pathlen :: bool   \<comment> \<open>not WOLFNANO_NO_X509_PATHLEN\<close>

fun kex_group :: "kex \<Rightarrow> word16" where
  "kex_group X25519 = 0x001d"
| "kex_group P256 = 0x0017"
| "kex_group Hybrid = 0x11ec"

fun kex_pub_sz :: "kex \<Rightarrow> nat" where
  "kex_pub_sz X25519 = 32"
| "kex_pub_sz P256 = 65"
| "kex_pub_sz Hybrid = 1216"

fun kex_srv_share_sz :: "kex \<Rightarrow> nat" where
  "kex_srv_share_sz X25519 = 32"
| "kex_srv_share_sz P256 = 65"
| "kex_srv_share_sz Hybrid = 1120"

fun kex_secret_sz :: "kex \<Rightarrow> nat" where
  "kex_secret_sz X25519 = 32"
| "kex_secret_sz P256 = 32"
| "kex_secret_sz Hybrid = 64"

definition WN_DEFAULT_GROUP :: "build \<Rightarrow> word16" where
  "WN_DEFAULT_GROUP B = kex_group (b_kex B)"

definition WN_DEFAULT_PUB_SZ :: "build \<Rightarrow> nat" where
  "WN_DEFAULT_PUB_SZ B = kex_pub_sz (b_kex B)"

definition WN_DEFAULT_SRV_SHARE_SZ :: "build \<Rightarrow> nat" where
  "WN_DEFAULT_SRV_SHARE_SZ B = kex_srv_share_sz (b_kex B)"

definition WN_DEFAULT_SECRET_SZ :: "build \<Rightarrow> nat" where
  "WN_DEFAULT_SECRET_SZ B = kex_secret_sz (b_kex B)"

definition WN_KEYSHARE_MAX_PUB :: "build \<Rightarrow> nat" where
  "WN_KEYSHARE_MAX_PUB B = (case b_kex B of Hybrid \<Rightarrow> 1216 | P256 \<Rightarrow> 65 | X25519 \<Rightarrow> 32)"

text \<open>The ML-DSA signature scheme of the configured level.\<close>

fun mldsa_scheme :: "nat \<Rightarrow> word16" where
  "mldsa_scheme n = (if n = 2 then 0x0904 else if n = 3 then 0x0905 else 0x0906)"

definition toy_build :: build where
  "toy_build = \<lparr>b_kex = X25519, have_mldsa = None, have_ed25519 = True, have_ecc = True, have_ecc384 = True,
     have_sha384_sig = True, have_sha512_sig = True, have_rsa = True, rsa_full = True, mldsa_sign = True, send_alerts = True,
     x509_hostname = True, x509_cn = True, x509_time = True, x509_gentime = True, x509_pathlen = True\<rparr>"

lemma pub_sz_bounds: "0 < WN_DEFAULT_PUB_SZ B \<and> WN_DEFAULT_PUB_SZ B \<le> 1216"
  by (cases "b_kex B") (simp_all add: WN_DEFAULT_PUB_SZ_def)

end
