(* ===== verification/ClientHello.thy ===== *)
theory ClientHello
  imports ServerHello Config
begin

section \<open>ClientHello (wn_clienthello.c)\<close>

text \<open>
  The certificate-mode ClientHello a client builds and the server's parser of any
  ClientHello. A pointer into the message is an offset; the parser's result is what \<open>out\<close>
  holds on success. The parser latches an error code in \<open>ret\<close> and stops; in the model the
  loop over the extensions also latches \<open>r.err\<close> then, which ends the loop the same way and
  is not looked at afterwards.
\<close>

subsection \<open>The builder\<close>

text \<open>The offered signature schemes, a function of the build.\<close>

definition sig_alg_writes :: "build \<Rightarrow> (writer \<Rightarrow> writer) list" where
  "sig_alg_writes B =
     (case have_mldsa B of Some n \<Rightarrow> [wn_Write_U16 (mldsa_scheme n)] | None \<Rightarrow> []) @
     (if have_ed25519 B then [wn_Write_U16 0x0807] else []) @
     (if have_ecc384 B \<and> have_sha384_sig B then [wn_Write_U16 0x0503] else []) @
     (if have_ecc B then [wn_Write_U16 0x0403] else []) @
     (if have_rsa B then
        (if have_sha512_sig B then [wn_Write_U16 0x0806] else []) @
        (if have_sha384_sig B then [wn_Write_U16 0x0805] else []) @
        [wn_Write_U16 0x0804]
      else [])"

text \<open>The server name is a C string, its bytes up to the terminator.\<close>

definition wn_ClientHello_Build_ex ::
  "build \<Rightarrow> bytes \<Rightarrow> bytes option \<Rightarrow> bytes \<Rightarrow> bytes option \<Rightarrow> bytes option \<Rightarrow> (wn_err + nat) \<times> bytes" where
  "wn_ClientHello_Build_ex B out random32 sessionId pub serverName =
     (let nameLen = (case serverName of None \<Rightarrow> 0 | Some s \<Rightarrow> length s) in
      if random32 = None \<or> pub = None \<or> length (the pub) \<noteq> WN_DEFAULT_PUB_SZ B \<or> length sessionId > 32 \<or>
         nameLen > 255
      then (Inl E_INVALID_ARG, out)
      else let pubLen = length (the pub) in
        finish_w E_INVALID_ARG
          (run_w
            [wn_Write_U8 1,
             wn_vec 3 (run_w
               [wn_Write_U16 0x0303,
                wn_Write_Bytes random32 32,
                wn_Write_U8 (of_nat (length sessionId)),
                (\<lambda>w. if length sessionId > 0 then wn_Write_Bytes (Some sessionId) (length sessionId) w else w),
                wn_Write_U16 2, wn_Write_U16 0x1301,
                wn_Write_U8 1, wn_Write_U8 0,
                wn_vec 2 (run_w
                  [(\<lambda>w. if nameLen > 0
                        then run_w [wn_Write_U16 0, wn_Write_U16 (of_nat (2 + 1 + 2 + nameLen)),
                                    wn_Write_U16 (of_nat (1 + 2 + nameLen)), wn_Write_U8 0,
                                    wn_Write_U16 (of_nat nameLen), wn_Write_Bytes serverName nameLen] w
                        else w),
                   wn_Write_U16 43, wn_Write_U16 3, wn_Write_U8 2, wn_Write_U16 0x0304,
                   wn_Write_U16 10, wn_Write_U16 4, wn_Write_U16 2, wn_Write_U16 (WN_DEFAULT_GROUP B),
                   wn_Write_U16 13, wn_vec 2 (wn_vec 2 (run_w (sig_alg_writes B))),
                   wn_Write_U16 51, wn_Write_U16 (of_nat (2 + 2 + 2 + pubLen)),
                   wn_Write_U16 (of_nat (2 + 2 + pubLen)), wn_Write_U16 (WN_DEFAULT_GROUP B),
                   wn_Write_U16 (of_nat pubLen), wn_Write_Bytes pub pubLen])])]
            (wn_Writer_Init out (length out))))"

definition wn_ClientHello_Build ::
  "build \<Rightarrow> bytes \<Rightarrow> bytes option \<Rightarrow> bytes \<Rightarrow> bytes option \<Rightarrow> (wn_err + nat) \<times> bytes" where
  "wn_ClientHello_Build B out random32 sessionId pub =
     wn_ClientHello_Build_ex B out random32 sessionId pub None"

subsection \<open>The parsed message\<close>

record client_hello =
  ch_sessionId :: "nat option"
  ch_keyShare :: "nat option"
  ch_pskIdentity :: "nat option"
  ch_binder :: "nat option"
  ch_sigAlgs :: "nat option"
  ch_keyShareLen :: nat
  ch_pskIdentityLen :: nat
  ch_binderLen :: nat
  ch_binderTruncLen :: nat
  ch_sigAlgsLen :: nat
  ch_cipher :: word16
  ch_group :: word16
  ch_sessionIdLen :: nat
  ch_haveKeyShare :: bool
  ch_havePsk :: bool

definition client_hello_zero :: client_hello where
  "client_hello_zero =
     \<lparr>ch_sessionId = None, ch_keyShare = None, ch_pskIdentity = None, ch_binder = None, ch_sigAlgs = None,
      ch_keyShareLen = 0, ch_pskIdentityLen = 0, ch_binderLen = 0, ch_binderTruncLen = 0, ch_sigAlgsLen = 0,
      ch_cipher = 0, ch_group = 0, ch_sessionIdLen = 0, ch_haveKeyShare = False, ch_havePsk = False\<rparr>"

text \<open>
  \<open>wn_ClientHello_HasSigAlg\<close>: \<open>sigAlgs\<close> is the list behind the pointer, \<open>None\<close> when it is
  null; the loop runs over all pairs and does not stop at a match.
\<close>

fun has_sig_loop :: "bytes \<Rightarrow> word16 \<Rightarrow> bool \<Rightarrow> bool" where
  "has_sig_loop (a # b # rest) scheme found = has_sig_loop rest scheme (found \<or> dec16 a b = scheme)"
| "has_sig_loop _ scheme found = found"

definition wn_ClientHello_HasSigAlg :: "bytes option \<Rightarrow> word16 \<Rightarrow> bool" where
  "wn_ClientHello_HasSigAlg sigAlgs scheme =
     (case sigAlgs of None \<Rightarrow> False | Some l \<Rightarrow> has_sig_loop l scheme False)"

subsection \<open>The parser\<close>

text \<open>
  The locals of the loop over the extensions. \<open>cs_seen\<close> is the filled part of the array \<open>seenExt\<close> of 40
  elements; \<open>cs_stray\<close> records a store behind its end.
\<close>

record ch_state =
  cs_out :: client_hello
  cs_seen :: "word16 list"
  cs_stray :: bool
  cs_seenPsk :: bool
  haveTls13 :: bool
  havePskDhe :: bool
  haveGroups :: bool
  groupOffered :: bool

text \<open>One entry of the client's key shares.\<close>

definition ks_entry :: "build \<Rightarrow> reader \<times> client_hello \<Rightarrow> reader \<times> client_hello" where
  "ks_entry B rs = (case rs of (r, out) \<Rightarrow>
     case wn_Read_U16 r of (g, r1) \<Rightarrow> case wn_Read_U16 r1 of (klen, r2) \<Rightarrow>
     case wn_Read_Bytes (unat klen) r2 of (p, r3) \<Rightarrow>
       (r3, if g = WN_DEFAULT_GROUP B \<and> p \<noteq> None
            then out\<lparr>ch_keyShare := p, ch_keyShareLen := unat klen, ch_group := g, ch_haveKeyShare := True\<rparr>
            else out))"

definition ext_key_shares :: "build \<Rightarrow> nat \<Rightarrow> reader \<Rightarrow> client_hello \<Rightarrow> reader \<times> client_hello" where
  "ext_key_shares B eEnd r out =
     (case wn_Read_U16 r of (ksVec, r1) \<Rightarrow>
      let ksEnd = u32 (rpos r1 + unat ksVec) in
      read_while (unat ksVec + 1) ksEnd (ks_entry B) (set_err (ksEnd > eEnd) r1, out))"

text \<open>\<open>(r.pos + 2) <= ksEnd\<close> is \<open>r.pos < ksEnd - 1\<close>.\<close>

definition group_entry :: "build \<Rightarrow> reader \<times> bool \<Rightarrow> reader \<times> bool" where
  "group_entry B rs = (case rs of (r, offered) \<Rightarrow>
     case wn_Read_U16 r of (g, r1) \<Rightarrow> (r1, offered \<or> g = WN_DEFAULT_GROUP B))"

definition ext_groups :: "build \<Rightarrow> reader \<Rightarrow> bool \<Rightarrow> reader \<times> bool" where
  "ext_groups B r offered =
     (case wn_Read_U16 r of (glen, r1) \<Rightarrow>
      let ksEnd = u32 (rpos r1 + unat glen) in
      read_while (unat glen + 1) (ksEnd - 1) (group_entry B) (r1, offered))"

text \<open>\<open>for (j = 0; (j + 1) < nver; j += 2)\<close> runs \<open>nver div 2\<close> times.\<close>

definition version_entry :: "reader \<times> bool \<Rightarrow> reader \<times> bool" where
  "version_entry rs = (case rs of (r, tls13) \<Rightarrow>
     case wn_Read_U16 r of (sv, r1) \<Rightarrow> (r1, tls13 \<or> sv = 0x0304))"

definition ext_versions :: "reader \<Rightarrow> bool \<Rightarrow> reader \<times> bool" where
  "ext_versions r tls13 =
     (case wn_Read_U8 r of (nver, r1) \<Rightarrow> (version_entry ^^ (unat nver div 2)) (r1, tls13))"

definition mode_entry :: "reader \<times> bool \<Rightarrow> reader \<times> bool" where
  "mode_entry rs = (case rs of (r, dhe) \<Rightarrow>
     case wn_Read_U8 r of (m, r1) \<Rightarrow> (r1, dhe \<or> m = 1))"

definition ext_psk_modes :: "reader \<Rightarrow> bool \<Rightarrow> reader \<times> bool" where
  "ext_psk_modes r dhe =
     (case wn_Read_U8 r of (pmLen, r1) \<Rightarrow> (mode_entry ^^ unat pmLen) (r1, dhe))"

text \<open>Identities and binders of a pre_shared_key extension, with their counters.\<close>

definition identity_entry :: "reader \<times> client_hello \<times> nat \<Rightarrow> reader \<times> client_hello \<times> nat" where
  "identity_entry rs = (case rs of (r, out, nId) \<Rightarrow>
     case wn_Read_U16 r of (idLen, r1) \<Rightarrow> case wn_Read_Bytes (unat idLen) r1 of (p, r2) \<Rightarrow>
     case wn_Read_Bytes 4 r2 of (_, r3) \<Rightarrow>
       (set_err (idLen = 0) r3,
        if nId = 0 then out\<lparr>ch_pskIdentity := p, ch_pskIdentityLen := unat idLen\<rparr> else out,
        (nId + 1) mod 65536))"

definition binder_entry :: "reader \<times> client_hello \<times> nat \<Rightarrow> reader \<times> client_hello \<times> nat" where
  "binder_entry rs = (case rs of (r, out, nBnd) \<Rightarrow>
     case wn_Read_U8 r of (blen, r1) \<Rightarrow> case wn_Read_Bytes (unat blen) r1 of (p, r2) \<Rightarrow>
       (r2, if nBnd = 0 then out\<lparr>ch_binder := p, ch_binderLen := unat blen\<rparr> else out,
        (nBnd + 1) mod 65536))"

definition ext_psk_list :: "nat \<Rightarrow> reader \<Rightarrow> client_hello \<Rightarrow> reader \<times> client_hello" where
  "ext_psk_list eEnd r out =
     (case wn_Read_U16 r of (idsLen, r1) \<Rightarrow>
      let idsEnd = u32 (rpos r1 + unat idsLen) in
      case read_while (unat idsLen + 1) idsEnd identity_entry (set_err (idsEnd > eEnd) r1, out, 0) of (r2, out1, nId) \<Rightarrow>
      let r3 = set_err (rpos r2 \<noteq> idsEnd) r2; out2 = out1\<lparr>ch_binderTruncLen := rpos r3\<rparr> in
      case wn_Read_U16 r3 of (bndLen, r4) \<Rightarrow>
      let bndEnd = u32 (rpos r4 + unat bndLen) in
      case read_while (unat bndLen + 1) bndEnd binder_entry (set_err (bndEnd \<noteq> eEnd) r4, out2, 0) of (r5, out3, nBnd) \<Rightarrow>
        (set_err (rpos r5 \<noteq> bndEnd \<or> nId = 0 \<or> nId \<noteq> nBnd) r5, out3\<lparr>ch_havePsk := True\<rparr>))"

text \<open>The body of one extension by its type.\<close>

definition ch_ext_body :: "build \<Rightarrow> word16 \<Rightarrow> word16 \<Rightarrow> nat \<Rightarrow> reader \<Rightarrow> ch_state \<Rightarrow> reader \<times> ch_state" where
  "ch_ext_body B et el eEnd r s =
     (if et = 51 then
        (case ext_key_shares B eEnd r (cs_out s) of (r', out) \<Rightarrow> (r', s\<lparr>cs_out := out\<rparr>))
      else if et = 13 then
        (case wn_Read_U16 r of (n, r1) \<Rightarrow> case wn_Read_Bytes (unat n) r1 of (p, r2) \<Rightarrow>
           (r2, s\<lparr>cs_out := (cs_out s)\<lparr>ch_sigAlgs := p, ch_sigAlgsLen := unat n\<rparr>\<rparr>))
      else if et = 10 then
        (case ext_groups B r (groupOffered s) of (r', g) \<Rightarrow> (r', s\<lparr>haveGroups := True, groupOffered := g\<rparr>))
      else if et = 43 then
        (case ext_versions r (haveTls13 s) of (r', v) \<Rightarrow> (r', s\<lparr>haveTls13 := v\<rparr>))
      else if et = 45 then
        (case ext_psk_modes r (havePskDhe s) of (r', d) \<Rightarrow> (r', s\<lparr>havePskDhe := d\<rparr>))
      else if et = 41 then
        (case ext_psk_list eEnd r (cs_out s) of (r', out) \<Rightarrow> (r', s\<lparr>cs_seenPsk := True, cs_out := out\<rparr>))
      else (case wn_Read_Bytes (unat el) r of (_, r') \<Rightarrow> (r', s)))"

text \<open>\<open>seenExt[nSeen++] = et\<close>.\<close>

definition see_ext :: "word16 \<Rightarrow> ch_state \<Rightarrow> ch_state" where
  "see_ext et s = s\<lparr>cs_seen := cs_seen s @ [et], cs_stray := cs_stray s \<or> 40 \<le> length (cs_seen s)\<rparr>"

definition ch_ext :: "build \<Rightarrow> nat \<Rightarrow> reader \<times> ch_state \<Rightarrow> reader \<times> ch_state" where
  "ch_ext B extEnd rs = (case rs of (r, s) \<Rightarrow>
     case wn_Read_U16 r of (et, r1) \<Rightarrow> case wn_Read_U16 r1 of (el, r2) \<Rightarrow>
     let eEnd = u32 (rpos r2 + unat el) in
     if rerr r2 \<or> eEnd > extEnd \<or> cs_seenPsk s \<or> et \<in> set (cs_seen s) \<or> length (cs_seen s) \<ge> 40
     then (set_err True r2, s)
     else case ch_ext_body B et el eEnd r2 s of (r3, s1) \<Rightarrow>
       (set_err (rpos r3 \<noteq> eEnd) r3, see_ext et s1))"

text \<open>The cipher suites: the last match wins, there is only one supported suite.\<close>

definition cipher_entry :: "reader \<times> word16 \<Rightarrow> reader \<times> word16" where
  "cipher_entry rs = (case rs of (r, c) \<Rightarrow>
     case wn_Read_U16 r of (suite, r1) \<Rightarrow> (r1, if suite = 0x1301 then suite else c))"

definition no_stray :: "reader \<Rightarrow> wn_err + 'a \<Rightarrow> wn_err + 'a" where
  "no_stray r res = (if roob r then Inl Oob else res)"

text \<open>From the extensions block on.\<close>

definition ch_tail :: "build \<Rightarrow> nat \<Rightarrow> client_hello \<Rightarrow> reader \<Rightarrow> wn_err + client_hello" where
  "ch_tail B msgLen out r =
     (case wn_Read_U16 r of (vecLen, r1) \<Rightarrow>
      let extEnd = u32 (rpos r1 + unat vecLen) in
      if rerr r1 \<or> extEnd \<noteq> msgLen then no_stray r1 (Inl E_DECODE)
      else case read_while (msgLen + 1) extEnd (ch_ext B extEnd)
             (r1, \<lparr>cs_out = out, cs_seen = [], cs_stray = False, cs_seenPsk = False, haveTls13 = False, havePskDhe = False,
                   haveGroups = False, groupOffered = False\<rparr>) of
        (r2, s) \<Rightarrow> if cs_stray s then Inl Oob else no_stray r2
          (if rerr r2 then Inl E_DECODE
           else let o1 = cs_out s in
             if ch_cipher o1 = 0 \<or> \<not> haveTls13 s \<or> \<not> haveGroups s \<or> \<not> groupOffered s \<or>
                ch_haveKeyShare o1 \<and> ch_keyShareLen o1 \<noteq> WN_DEFAULT_PUB_SZ B \<or>
                ch_havePsk o1 \<and> (ch_binderLen o1 \<noteq> 32 \<or> \<not> havePskDhe s)
             then Inl E_ILLEGAL_PARAM
             else Inr o1))"

definition wn_ClientHello_Parse :: "build \<Rightarrow> bytes option \<Rightarrow> wn_err + client_hello" where
  "wn_ClientHello_Parse B m =
     (case m of None \<Rightarrow> Inl E_INVALID_ARG
      | Some msg \<Rightarrow>
        let msgLen = length msg in
        case wn_Read_U8 (wn_Reader_Init msg msgLen) of (t, r1) \<Rightarrow>
        case wn_Read_U24 r1 of (hsLen, r2) \<Rightarrow>
        if t \<noteq> 1 then no_stray r2 (Inl E_UNEXPECTED_MSG)
        else if u32 (rpos r2 + hsLen) \<noteq> msgLen then no_stray r2 (Inl E_DECODE)
        else
          case wn_Read_U16 r2 of (lver, r3) \<Rightarrow>
          case wn_Read_Bytes 32 r3 of (_, r4) \<Rightarrow>
          case wn_Read_U8 r4 of (sidLen, r5) \<Rightarrow>
          case wn_Read_Bytes (unat sidLen) r5 of (sid, r6) \<Rightarrow>
          case wn_Read_U16 r6 of (csLen, r7) \<Rightarrow>
          if lver \<noteq> 0x0303 \<or> sidLen > 32 \<or> odd (unat csLen) then no_stray r7 (Inl E_DECODE)
          else
            case (cipher_entry ^^ (unat csLen div 2)) (r7, 0) of (r8, cph) \<Rightarrow>
            case wn_Read_U8 r8 of (compLen, r9) \<Rightarrow>
            case wn_Read_U8 r9 of (cmpr, r10) \<Rightarrow>
            if compLen \<noteq> 1 \<or> cmpr \<noteq> 0 then no_stray r10 (Inl E_DECODE)
            else ch_tail B msgLen
                   (client_hello_zero\<lparr>ch_sessionId := sid, ch_sessionIdLen := unat sidLen, ch_cipher := cph\<rparr>) r10)"

subsection \<open>The parser is safe on every input\<close>

text \<open>\<open>rin n r\<close>: a well-formed reader of an \<open>n\<close>-byte message; \<open>ch_ptrs\<close>: every pointer of the
  result lies in it with its length, and the suite is the supported one or still unset.\<close>

definition rin :: "nat \<Rightarrow> reader \<Rightarrow> bool" where
  "rin n r \<longleftrightarrow> rok r \<and> rlen r = n"

definition ch_ptrs :: "nat \<Rightarrow> client_hello \<Rightarrow> bool" where
  "ch_ptrs n c \<longleftrightarrow> in_msg n (ch_sessionId c) (ch_sessionIdLen c) \<and> in_msg n (ch_keyShare c) (ch_keyShareLen c) \<and>
     in_msg n (ch_pskIdentity c) (ch_pskIdentityLen c) \<and> in_msg n (ch_binder c) (ch_binderLen c) \<and>
     in_msg n (ch_sigAlgs c) (ch_sigAlgsLen c) \<and> ch_binderTruncLen c \<le> n \<and>
     (ch_cipher c = 0 \<or> ch_cipher c = 0x1301)"

lemma rin_set_err [simp]: "rin n (set_err c r) = rin n r"
  by (simp add: rin_def)

lemma rin_pos: "rin n r \<Longrightarrow> rpos r \<le> n \<and> n < 2147483648 \<and> \<not> roob r"
  by (auto simp: rin_def rok_def)

lemma rin_U8: "rin n r \<Longrightarrow> wn_Read_U8 r = (v, r') \<Longrightarrow> rin n r' \<and> (rerr r' \<or> \<not> rerr r \<and> rpos r' = rpos r + 1)"
  using U8_adv by (auto simp: rin_def)

lemma rin_U16: "rin n r \<Longrightarrow> wn_Read_U16 r = (v, r') \<Longrightarrow> rin n r' \<and> (rerr r' \<or> \<not> rerr r \<and> rpos r' = rpos r + 2)"
  using U16_adv by (auto simp: rin_def)

lemma rin_U24: "rin n r \<Longrightarrow> wn_Read_U24 r = (v, r') \<Longrightarrow> rin n r' \<and> (rerr r' \<or> \<not> rerr r \<and> rpos r' = rpos r + 3)"
  using U24_adv by (auto simp: rin_def)

lemma rin_Bytes: "rin n r \<Longrightarrow> k < 2147483648 \<Longrightarrow> wn_Read_Bytes k r = (p, r') \<Longrightarrow>
    rin n r' \<and> (rerr r' \<or> \<not> rerr r \<and> rpos r' = rpos r + k \<and> in_msg n p k)"
  using Bytes_adv [of r k p r'] by (auto simp: rin_def in_msg_def)

lemmas rin_reads = rin_U8 rin_U16 rin_U24 rin_Bytes

definition ks_inv :: "nat \<times> nat \<times> build \<Rightarrow> reader \<Rightarrow> client_hello \<Rightarrow> bool" where
  "ks_inv e r c \<longleftrightarrow> rin (fst (snd e)) r \<and> (rerr r \<or> ch_ptrs (fst (snd e)) c)"

definition cnt_inv :: "nat \<times> nat \<Rightarrow> reader \<Rightarrow> client_hello \<times> nat \<Rightarrow> bool" where
  "cnt_inv e r s \<longleftrightarrow> rin (snd e) r \<and> (rerr r \<or> ch_ptrs (snd e) (fst s))"

lemma ks_entry_step:
  assumes "ks_inv e r c" "\<not> rerr r" "ks_entry B (r, c) = (r', c')"
  shows "ks_inv e r' c' \<and> (rerr r' \<or> rpos r < rpos r')"
proof -
  obtain g r1 where 1: "wn_Read_U16 r = (g, r1)" by force
  obtain k r2 where 2: "wn_Read_U16 r1 = (k, r2)" by force
  obtain p r3 where 3: "wn_Read_Bytes (unat k) r2 = (p, r3)" by force
  have i: "rin (fst (snd e)) r" "ch_ptrs (fst (snd e)) c"
    using assms(1,2) by (auto simp: ks_inv_def)
  note a1 = rin_U16 [OF i(1) 1]
  note a2 = rin_U16 [OF conjunct1 [OF a1] 2]
  note a3 = rin_Bytes [OF conjunct1 [OF a2] unat16_small(1) 3]
  have c': "r' = r3" "c' = c \<or> c' = c\<lparr>ch_keyShare := p, ch_keyShareLen := unat k, ch_group := g, ch_haveKeyShare := True\<rparr>"
    using assms(3) by (auto simp: ks_entry_def 1 2 3 split: if_splits)
  have "rerr r3 \<or> in_msg (fst (snd e)) p (unat k) \<and> rpos r < rpos r3"
    using a1 a2 a3 by auto
  then show ?thesis
    using a3 c' i(2) unfolding ks_inv_def ch_ptrs_def by auto
qed

interpretation ksl: read_loop ks_inv fst "\<lambda>e. ks_entry (snd (snd e))"
  by unfold_locales (use ks_entry_step in blast)

lemma identity_step:
  assumes "cnt_inv e r s" "\<not> rerr r" "identity_entry (r, s) = (r', s')"
  shows "cnt_inv e r' s' \<and> (rerr r' \<or> rpos r < rpos r')"
proof -
  obtain c m where s: "s = (c, m)" by force
  obtain k r1 where 1: "wn_Read_U16 r = (k, r1)" by force
  obtain p r2 where 2: "wn_Read_Bytes (unat k) r1 = (p, r2)" by force
  obtain q r3 where 3: "wn_Read_Bytes 4 r2 = (q, r3)" by force
  have i: "rin (snd e) r" "ch_ptrs (snd e) c"
    using assms(1,2) by (auto simp: cnt_inv_def s)
  note a1 = rin_U16 [OF i(1) 1]
  note a2 = rin_Bytes [OF conjunct1 [OF a1] unat16_small(1) 2]
  note a3 = rin_Bytes [OF conjunct1 [OF a2] _ 3, simplified]
  have c': "r' = set_err (k = 0) r3"
      "fst s' = c \<or> fst s' = c\<lparr>ch_pskIdentity := p, ch_pskIdentityLen := unat k\<rparr>"
    using assms(3) by (auto simp: identity_entry_def s 1 2 3 split: if_splits)
  have "rerr r3 \<or> in_msg (snd e) p (unat k) \<and> rpos r < rpos r3"
    using a1 a2 a3 by auto
  then show ?thesis
    using a3 c' i(2) unfolding cnt_inv_def ch_ptrs_def by auto
qed

interpretation idl: read_loop cnt_inv fst "\<lambda>e. identity_entry"
  by unfold_locales (use identity_step in blast)

lemma binder_step:
  assumes "cnt_inv e r s" "\<not> rerr r" "binder_entry (r, s) = (r', s')"
  shows "cnt_inv e r' s' \<and> (rerr r' \<or> rpos r < rpos r')"
proof -
  obtain c m where s: "s = (c, m)" by force
  obtain k r1 where 1: "wn_Read_U8 r = (k, r1)" by force
  obtain p r2 where 2: "wn_Read_Bytes (unat k) r1 = (p, r2)" by force
  have i: "rin (snd e) r" "ch_ptrs (snd e) c"
    using assms(1,2) by (auto simp: cnt_inv_def s)
  note a1 = rin_U8 [OF i(1) 1]
  note a2 = rin_Bytes [OF conjunct1 [OF a1] unat16_small(2) 2]
  have c': "r' = r2" "fst s' = c \<or> fst s' = c\<lparr>ch_binder := p, ch_binderLen := unat k\<rparr>"
    using assms(3) by (auto simp: binder_entry_def s 1 2 split: if_splits)
  have "rerr r2 \<or> in_msg (snd e) p (unat k) \<and> rpos r < rpos r2"
    using a1 a2 by auto
  then show ?thesis
    using a2 c' i(2) unfolding cnt_inv_def ch_ptrs_def by auto
qed

interpretation bdl: read_loop cnt_inv fst "\<lambda>e. binder_entry"
  by unfold_locales (use binder_step in blast)

text \<open>The list entries that only move the reader.\<close>

definition only_reader :: "(reader \<times> 's \<Rightarrow> reader \<times> 's) \<Rightarrow> bool" where
  "only_reader f \<longleftrightarrow> (\<forall>n r s. rin n r \<longrightarrow> (case f (r, s) of (r', s') \<Rightarrow>
     rin n r' \<and> (rerr r' \<or> \<not> rerr r \<and> rpos r < rpos r')))"

lemma only_reader_entries:
  "only_reader (group_entry B)" "only_reader version_entry" "only_reader mode_entry" "only_reader cipher_entry"
  by (auto simp: only_reader_def group_entry_def version_entry_def mode_entry_def cipher_entry_def
      split: prod.splits dest: rin_U16 rin_U8)

lemma only_reader_funpow:
  "only_reader f \<Longrightarrow> rin n r \<Longrightarrow> (f ^^ k) (r, s) = (r', s') \<Longrightarrow> rin n r' \<and> (rerr r' \<or> \<not> rerr r)"
proof (induction k arbitrary: r' s')
  case 0
  then show ?case by auto
next
  case (Suc k)
  obtain r1 s1 where "(f ^^ k) (r, s) = (r1, s1)" by force
  then show ?case
    using Suc unfolding only_reader_def by (fastforce split: prod.splits)
qed

definition grp_inv :: "nat \<times> nat \<times> build \<Rightarrow> reader \<Rightarrow> bool \<Rightarrow> bool" where
  "grp_inv e r b \<longleftrightarrow> rin (fst (snd e)) r"

interpretation grl: read_loop grp_inv fst "\<lambda>e. group_entry (snd (snd e))"
proof unfold_locales
  fix e r s r' s'
  assume "grp_inv e r s" "group_entry (snd (snd e)) (r, s) = (r', s')"
  then show "grp_inv e r' s' \<and> (rerr r' \<or> rpos r < rpos r')"
    using only_reader_entries(1) [of "snd (snd e)", unfolded only_reader_def, rule_format, of "fst (snd e)" r s]
    by (auto simp: grp_inv_def)
qed

lemma rin_u32: "rin n r \<Longrightarrow> k < 2147483648 \<Longrightarrow> u32 (rpos r + k) = rpos r + k"
  using rin_pos by fastforce

lemma ext_key_shares_ok:
  assumes "rin n r" "ch_ptrs n c" "ext_key_shares B eEnd r c = (r', c')"
  shows "rin n r' \<and> (rerr r' \<or> ch_ptrs n c')"
proof -
  obtain v r1 where 1: "wn_Read_U16 r = (v, r1)" by force
  note a1 = rin_U16 [OF assms(1) 1]
  define en where "en = u32 (rpos r1 + unat v)"
  have en: "en - rpos r1 \<le> unat v + 1"
    using rin_u32 [OF conjunct1 [OF a1], of "unat v"] by (simp add: en_def)
  have "ks_inv (en, n, B) (set_err (en > eEnd) r1) c"
    using a1 assms(2) by (simp add: ks_inv_def)
  from ksl.loop_inv [OF this, of "unat v + 1" r' c'] show ?thesis
    using assms(3) en by (simp add: ext_key_shares_def 1 Let_def en_def [symmetric] ks_inv_def)
qed

lemma ext_groups_ok:
  assumes "rin n r" "ext_groups B r b = (r', b')"
  shows "rin n r'"
proof -
  obtain v r1 where 1: "wn_Read_U16 r = (v, r1)" by force
  note a1 = rin_U16 [OF assms(1) 1]
  define en where "en = u32 (rpos r1 + unat v) - 1"
  have en: "en - rpos r1 \<le> unat v + 1"
    using rin_u32 [OF conjunct1 [OF a1], of "unat v"] by (simp add: en_def)
  have "grp_inv (en, n, B) r1 b"
    using a1 by (simp add: grp_inv_def)
  from grl.loop_inv [OF this, of "unat v + 1" r' b'] show ?thesis
    using assms(2) [unfolded ext_groups_def 1 prod.case Let_def, folded en_def] en by (simp add: grp_inv_def)
qed

lemma ext_versions_ok: "rin n r \<Longrightarrow> ext_versions r b = (r', b') \<Longrightarrow> rin n r'"
  unfolding ext_versions_def
  by (cases "wn_Read_U8 r") (auto dest: rin_U8 only_reader_funpow [OF only_reader_entries(2)])

lemma ext_psk_modes_ok: "rin n r \<Longrightarrow> ext_psk_modes r b = (r', b') \<Longrightarrow> rin n r'"
  unfolding ext_psk_modes_def
  by (cases "wn_Read_U8 r") (auto dest: rin_U8 only_reader_funpow [OF only_reader_entries(3)])

lemma ext_psk_list_ok:
  assumes "rin n r" "ch_ptrs n c" "ext_psk_list eEnd r c = (r', c')"
  shows "rin n r' \<and> (rerr r' \<or> ch_ptrs n c')"
proof -
  obtain v r1 where 1: "wn_Read_U16 r = (v, r1)" by force
  note a1 = rin_U16 [OF assms(1) 1]
  define en where "en = u32 (rpos r1 + unat v)"
  have en: "en - rpos r1 \<le> unat v + 1"
    using rin_u32 [OF conjunct1 [OF a1], of "unat v"] by (simp add: en_def)
  obtain r2 c2 m where 2: "read_while (unat v + 1) en identity_entry (set_err (en > eEnd) r1, c, 0) = (r2, c2, m)"
    by (metis prod_cases3)
  have "cnt_inv (en, n) (set_err (en > eEnd) r1) (c, 0)"
    using a1 assms(2) by (simp add: cnt_inv_def)
  from idl.loop_inv [OF this, of "unat v + 1" r2 "(c2, m)"]
  have a2: "rin n r2" "rerr r2 \<or> ch_ptrs n c2"
    using 2 en by (simp_all add: cnt_inv_def)
  define r3 where "r3 = set_err (rpos r2 \<noteq> en) r2"
  define c3 where "c3 = c2\<lparr>ch_binderTruncLen := rpos r3\<rparr>"
  have a3: "rin n r3" "rerr r3 \<or> ch_ptrs n c3"
    using a2 rin_pos [OF a2(1)] by (auto simp: r3_def c3_def ch_ptrs_def)
  obtain w r4 where 4: "wn_Read_U16 r3 = (w, r4)" by force
  note a4 = rin_U16 [OF a3(1) 4]
  define bn where "bn = u32 (rpos r4 + unat w)"
  have bn: "bn - rpos r4 \<le> unat w + 1"
    using rin_u32 [OF conjunct1 [OF a4], of "unat w"] by (simp add: bn_def)
  obtain r5 c5 k where 5: "read_while (unat w + 1) bn binder_entry (set_err (bn \<noteq> eEnd) r4, c3, 0) = (r5, c5, k)"
    by (metis prod_cases3)
  have "cnt_inv (bn, n) (set_err (bn \<noteq> eEnd) r4) (c3, 0)"
    using a4 a3 by (auto simp: cnt_inv_def)
  from bdl.loop_inv [OF this, of "unat w + 1" r5 "(c5, k)"]
  have a5: "rin n r5" "rerr r5 \<or> ch_ptrs n c5"
    using 5 bn by (simp_all add: cnt_inv_def)
  have "r' = set_err (rpos r5 \<noteq> bn \<or> m = 0 \<or> m \<noteq> k) r5" "c' = c5\<lparr>ch_havePsk := True\<rparr>"
    using assms(3) [unfolded ext_psk_list_def 1 prod.case Let_def, folded en_def, unfolded 2 prod.case,
        folded r3_def, folded c3_def, unfolded 4 prod.case, folded bn_def, unfolded 5 prod.case] by simp_all
  then show ?thesis
    using a5 by (auto simp: ch_ptrs_def)
qed

lemma ch_ext_body_ok:
  assumes "rin n r" "ch_ptrs n (cs_out s)" "ch_ext_body B et el eEnd r s = (r', s')"
  shows "rin n r' \<and> (rerr r' \<or> ch_ptrs n (cs_out s'))"
proof -
  obtain k r1 where 1: "wn_Read_U16 r = (k, r1)" by force
  obtain b r2 where 2: "wn_Read_Bytes (unat k) r1 = (b, r2)" by force
  obtain q r3 where 3: "wn_Read_Bytes (unat el) r = (q, r3)" by force
  note a1 = rin_U16 [OF assms(1) 1]
  note a2 = rin_Bytes [OF conjunct1 [OF a1] unat16_small(1) 2]
  note a3 = rin_Bytes [OF assms(1) unat16_small(1) 3]
  obtain rk ck where k: "ext_key_shares B eEnd r (cs_out s) = (rk, ck)" by force
  obtain rg g where g: "ext_groups B r (groupOffered s) = (rg, g)" by force
  obtain rv v where v: "ext_versions r (haveTls13 s) = (rv, v)" by force
  obtain rm m where m: "ext_psk_modes r (havePskDhe s) = (rm, m)" by force
  obtain rp cp where p: "ext_psk_list eEnd r (cs_out s) = (rp, cp)" by force
  note oks = ext_key_shares_ok [OF assms(1,2) k] ext_groups_ok [OF assms(1) g] ext_versions_ok [OF assms(1) v]
    ext_psk_modes_ok [OF assms(1) m] ext_psk_list_ok [OF assms(1,2) p]
  consider (shares) "r' = rk" "cs_out s' = ck"
    | (sigs) "r' = r2" "cs_out s' = (cs_out s)\<lparr>ch_sigAlgs := b, ch_sigAlgsLen := unat k\<rparr>"
    | (rest) "r' = rg \<or> r' = rv \<or> r' = rm \<or> r' = r3" "cs_out s' = cs_out s"
    | (psk) "r' = rp" "cs_out s' = cp"
    using assms(3) unfolding ch_ext_body_def 1 2 3 k g v m p prod.case by (auto split: if_splits simp: 2)
  then show ?thesis
  proof cases
    case sigs
    then show ?thesis using a2 assms(2) by (auto simp: ch_ptrs_def)
  next
    case rest
    then show ?thesis using oks a3 assms(2) by auto
  qed (use oks in auto)
qed

lemma ch_ext_body_keeps:
  "ch_ext_body B et el eEnd r s = (r', s') \<Longrightarrow> cs_seen s' = cs_seen s \<and> cs_stray s' = cs_stray s"
  by (auto simp: ch_ext_body_def split: prod.splits if_splits)

definition cs_inv :: "nat \<times> nat \<times> build \<Rightarrow> reader \<Rightarrow> ch_state \<Rightarrow> bool" where
  "cs_inv e r s \<longleftrightarrow> rin (fst (snd e)) r \<and> \<not> cs_stray s \<and> (rerr r \<or> ch_ptrs (fst (snd e)) (cs_out s))"

lemma ch_ext_step:
  assumes "cs_inv e r s" "\<not> rerr r" "ch_ext B en (r, s) = (r', s')"
  shows "cs_inv e r' s' \<and> (rerr r' \<or> rpos r < rpos r')"
proof -
  obtain et r1 where 1: "wn_Read_U16 r = (et, r1)" by force
  obtain el r2 where 2: "wn_Read_U16 r1 = (el, r2)" by force
  have i: "rin (fst (snd e)) r" "ch_ptrs (fst (snd e)) (cs_out s)" "\<not> cs_stray s"
    using assms(1,2) by (auto simp: cs_inv_def)
  note a1 = rin_U16 [OF i(1) 1]
  note a2 = rin_U16 [OF conjunct1 [OF a1] 2]
  define eEnd where "eEnd = u32 (rpos r2 + unat el)"
  have e: "eEnd = rpos r2 + unat el"
    unfolding eEnd_def by (rule rin_u32 [OF conjunct1 [OF a2] unat16_small(1)])
  obtain r3 s3 where 3: "ch_ext_body B et el eEnd r2 s = (r3, s3)" by force
  note a3 = ch_ext_body_ok [OF conjunct1 [OF a2] i(2) 3]
  note code = assms(3) [unfolded ch_ext_def prod.case 1 2 Let_def, folded eEnd_def, unfolded 3 prod.case]
  show ?thesis
    using code a1 a2 a3 e i(2,3) ch_ext_body_keeps [OF 3] by (auto simp: cs_inv_def see_ext_def split: if_splits)
qed

interpretation chl: read_loop cs_inv fst "\<lambda>e. ch_ext (snd (snd e)) (fst e)"
  by unfold_locales (use ch_ext_step in blast)

lemma ch_tail_safe:
  assumes "rin n r" "rerr r \<or> ch_ptrs n c"
  shows "case ch_tail B n c r of Inl e \<Rightarrow> e \<noteq> Oob
    | Inr ch \<Rightarrow> ch_ptrs n ch \<and> ch_cipher ch \<noteq> 0 \<and>
        (\<not> ch_haveKeyShare ch \<or> ch_keyShareLen ch = WN_DEFAULT_PUB_SZ B) \<and>
        (\<not> ch_havePsk ch \<or> ch_binderLen ch = 32)"
proof -
  obtain v r1 where 1: "wn_Read_U16 r = (v, r1)" by force
  note a1 = rin_U16 [OF assms(1) 1]
  define s0 where "s0 = \<lparr>cs_out = c, cs_seen = [], cs_stray = False, cs_seenPsk = False, haveTls13 = False, havePskDhe = False,
                   haveGroups = False, groupOffered = False\<rparr>"
  obtain r2 s where 2: "read_while (n + 1) n (ch_ext B n) (r1, s0) = (r2, s)" by force
  have "cs_inv (n, n, B) r1 s0"
    using a1 assms(2) by (auto simp: cs_inv_def s0_def)
  from chl.loop_inv [OF this, of "n + 1" r2 s]
  have "rin n r2" "\<not> cs_stray s" "rerr r2 \<or> ch_ptrs n (cs_out s)"
    using 2 by (simp_all add: cs_inv_def)
  then show ?thesis
    using a1 2 rin_pos by (auto simp: ch_tail_def 1 Let_def s0_def [symmetric] no_stray_def)
qed

lemma cipher_loop:
  "(cipher_entry ^^ k) (r, 0) = (r', c) \<Longrightarrow> c = 0 \<or> c = 0x1301"
  by (induction k arbitrary: r' c) (auto simp: cipher_entry_def split: prod.splits if_splits)

lemma client_hello_inside:
  assumes "length msg < 2147483648"
  shows "case wn_ClientHello_Parse B (Some msg) of Inl e \<Rightarrow> e \<noteq> Oob
    | Inr ch \<Rightarrow> ch_cipher ch = 0x1301 \<and>
        (\<not> ch_haveKeyShare ch \<or> ch_keyShareLen ch = WN_DEFAULT_PUB_SZ B) \<and>
        (\<not> ch_havePsk ch \<or> ch_binderLen ch = 32) \<and>
        in_msg (length msg) (ch_sessionId ch) (ch_sessionIdLen ch) \<and>
        in_msg (length msg) (ch_keyShare ch) (ch_keyShareLen ch) \<and>
        in_msg (length msg) (ch_pskIdentity ch) (ch_pskIdentityLen ch) \<and>
        in_msg (length msg) (ch_binder ch) (ch_binderLen ch) \<and>
        in_msg (length msg) (ch_sigAlgs ch) (ch_sigAlgsLen ch) \<and> ch_binderTruncLen ch \<le> length msg"
proof -
  obtain t r1 where 1: "wn_Read_U8 (wn_Reader_Init msg (length msg)) = (t, r1)" by force
  obtain hl r2 where 2: "wn_Read_U24 r1 = (hl, r2)" by force
  obtain lv r3 where 3: "wn_Read_U16 r2 = (lv, r3)" by force
  obtain rn r4 where 4: "wn_Read_Bytes 32 r3 = (rn, r4)" by force
  obtain sl r5 where 5: "wn_Read_U8 r4 = (sl, r5)" by force
  obtain sid r6 where 6: "wn_Read_Bytes (unat sl) r5 = (sid, r6)" by force
  obtain cl r7 where 7: "wn_Read_U16 r6 = (cl, r7)" by force
  obtain r8 cph where 8: "(cipher_entry ^^ (unat cl div 2)) (r7, 0) = (r8, cph)" by force
  obtain ml r9 where 9: "wn_Read_U8 r8 = (ml, r9)" by force
  obtain mt r10 where 10: "wn_Read_U8 r9 = (mt, r10)" by force
  have "rin (length msg) (wn_Reader_Init msg (length msg))"
    using rok_Init [OF order_refl assms] by (simp add: rin_def)
  note a1 = rin_U8 [OF this 1]
  note a2 = rin_U24 [OF conjunct1 [OF a1] 2]
  note a3 = rin_U16 [OF conjunct1 [OF a2] 3]
  note a4 = rin_Bytes [OF conjunct1 [OF a3] _ 4, simplified]
  note a5 = rin_U8 [OF conjunct1 [OF a4] 5]
  note a6 = rin_Bytes [OF conjunct1 [OF a5] unat16_small(2) 6]
  note a7 = rin_U16 [OF conjunct1 [OF a6] 7]
  note a8 = only_reader_funpow [OF only_reader_entries(4) conjunct1 [OF a7] 8]
  note a9 = rin_U8 [OF conjunct1 [OF a8] 9]
  note a10 = rin_U8 [OF conjunct1 [OF a9] 10]
  define c where "c = client_hello_zero\<lparr>ch_sessionId := sid, ch_sessionIdLen := unat sl, ch_cipher := cph\<rparr>"
  have "rerr r10 \<or> in_msg (length msg) sid (unat sl)"
    using a6 a7 a8 a9 a10 by blast
  then have "rerr r10 \<or> ch_ptrs (length msg) c"
    using cipher_loop [OF 8] by (auto simp: ch_ptrs_def c_def client_hello_zero_def in_msg_def)
  note tail = ch_tail_safe [OF conjunct1 [OF a10] this, of B]
  have "\<not> roob r2" "\<not> roob r7" "\<not> roob r10"
    using a2 a7 a10 rin_pos by blast+
  then have "wn_ClientHello_Parse B (Some msg) \<in> {Inl E_UNEXPECTED_MSG, Inl E_DECODE, ch_tail B (length msg) c r10}"
    unfolding wn_ClientHello_Parse_def option.case Let_def 1 2 3 4 5 6 7 8 9 10 prod.case
    by (simp add: no_stray_def c_def)
  then show ?thesis
    using tail by (auto simp: ch_ptrs_def split: sum.splits)
qed

text \<open>C30. The server's ClientHello parser is memory safe on every input below 2 GB: it reads nothing
  outside the message and stores nothing behind its array of 40 extension types. A ClientHello it
  accepts has the supported suite, a key share of the size of the build's group if it has one for that
  group, a 32-byte binder if it offers a PSK, and pointers that lie inside the message.\<close>

theorem client_hello_parse_safe:
  assumes "length msg < 2147483648"
  shows "case wn_ClientHello_Parse B (Some msg) of Inl e \<Rightarrow> e \<noteq> Oob
    | Inr ch \<Rightarrow> ch_cipher ch = 0x1301 \<and>
        (\<not> ch_haveKeyShare ch \<or> ch_keyShareLen ch = WN_DEFAULT_PUB_SZ B) \<and>
        (\<not> ch_havePsk ch \<or> ch_binderLen ch = 32) \<and>
        in_msg (length msg) (ch_sessionId ch) (ch_sessionIdLen ch) \<and>
        in_msg (length msg) (ch_keyShare ch) (ch_keyShareLen ch) \<and>
        in_msg (length msg) (ch_pskIdentity ch) (ch_pskIdentityLen ch) \<and>
        in_msg (length msg) (ch_binder ch) (ch_binderLen ch) \<and>
        in_msg (length msg) (ch_sigAlgs ch) (ch_sigAlgsLen ch) \<and> ch_binderTruncLen ch \<le> length msg"
  by (rule client_hello_inside [OF assms])

theorem client_hello_parse_safe_witness:
  "case wn_ClientHello_Parse (toy_build) (Some [1, 0, 0, 0]) of Inl e \<Rightarrow> e \<noteq> Oob
    | Inr ch \<Rightarrow> ch_cipher ch = 0x1301 \<and>
        (\<not> ch_haveKeyShare ch \<or> ch_keyShareLen ch = WN_DEFAULT_PUB_SZ toy_build) \<and>
        (\<not> ch_havePsk ch \<or> ch_binderLen ch = 32) \<and>
        in_msg (length [1 :: byte, 0, 0, 0]) (ch_sessionId ch) (ch_sessionIdLen ch) \<and>
        in_msg (length [1 :: byte, 0, 0, 0]) (ch_keyShare ch) (ch_keyShareLen ch) \<and>
        in_msg (length [1 :: byte, 0, 0, 0]) (ch_pskIdentity ch) (ch_pskIdentityLen ch) \<and>
        in_msg (length [1 :: byte, 0, 0, 0]) (ch_binder ch) (ch_binderLen ch) \<and>
        in_msg (length [1 :: byte, 0, 0, 0]) (ch_sigAlgs ch) (ch_sigAlgsLen ch) \<and>
        ch_binderTruncLen ch \<le> length [1 :: byte, 0, 0, 0]"
  by (rule client_hello_parse_safe) simp

end
