(* ===== verification/ClientHelloRound.thy ===== *)
theory ClientHelloRound
  imports ClientHello
begin

section \<open>What a client offers, the server reads\<close>

text \<open>
  The bytes \<open>wn_ClientHello_Build_ex\<close> emits, and the parser's run over them: one lemma per
  extension, each moving the reader over the extension it is named after.
\<close>

definition enc_ext :: "word16 \<Rightarrow> bytes \<Rightarrow> bytes" where
  "enc_ext et b = be16 et @ be16 (of_nat (length b)) @ b"

lemma length_enc_ext [simp]: "length (enc_ext et b) = 4 + length b"
  by (simp add: enc_ext_def)

definition sig_alg_list :: "build \<Rightarrow> word16 list" where
  "sig_alg_list B =
     (case have_mldsa B of Some n \<Rightarrow> [mldsa_scheme n] | None \<Rightarrow> []) @
     (if have_ed25519 B then [0x0807] else []) @
     (if have_ecc384 B \<and> have_sha384_sig B then [0x0503] else []) @
     (if have_ecc B then [0x0403] else []) @
     (if have_rsa B then
        (if have_sha512_sig B then [0x0806] else []) @ (if have_sha384_sig B then [0x0805] else []) @ [0x0804]
      else [])"

lemma sig_alg_writes_map: "sig_alg_writes B = map wn_Write_U16 (sig_alg_list B)"
  by (simp add: sig_alg_writes_def sig_alg_list_def split: option.split)

lemma length_sig_alg_list: "length (sig_alg_list B) \<le> 7"
  by (simp add: sig_alg_list_def split: option.split)

definition sig_bytes :: "build \<Rightarrow> bytes" where
  "sig_bytes B = concat (map be16 (sig_alg_list B))"

lemma length_concat_be16 [simp]: "length (concat (map be16 xs)) = 2 * length xs"
  by (induction xs) simp_all

lemma length_sig_bytes: "length (sig_bytes B) \<le> 14"
  using length_sig_alg_list [of B] by (simp add: sig_bytes_def)

lemma has_sig_loop_list:
  "has_sig_loop (concat (map be16 xs)) v found \<longleftrightarrow> found \<or> v \<in> set xs"
proof (induction xs arbitrary: found)
  case (Cons x xs)
  have "dec16 (ucast (drop_bit 8 x)) (ucast x) = x"
    using rz_be16 [of "[]" "[]" x] rz_U16 [of "[]" "[]"] by (simp add: be16_def)
  then show ?case
    using Cons by (auto simp: be16_def)
qed simp

definition sni_ext :: "bytes option \<Rightarrow> bytes" where
  "sni_ext name = (case name of None \<Rightarrow> [] | Some s \<Rightarrow>
     if s = [] then [] else enc_ext 0 (be16 (of_nat (1 + 2 + length s)) @ [0] @ be16 (of_nat (length s)) @ s))"

definition share_ext :: "word16 \<Rightarrow> bytes \<Rightarrow> bytes" where
  "share_ext g pub = enc_ext 51 (be16 (of_nat (2 + 2 + length pub)) @ be16 g @ be16 (of_nat (length pub)) @ pub)"

definition ch_exts :: "build \<Rightarrow> bytes option \<Rightarrow> bytes \<Rightarrow> bytes" where
  "ch_exts B name pub =
     sni_ext name @ enc_ext 43 ([2] @ be16 0x0304) @ enc_ext 10 (be16 2 @ be16 (WN_DEFAULT_GROUP B)) @
     enc_ext 13 (be16 (of_nat (length (sig_bytes B))) @ sig_bytes B) @ share_ext (WN_DEFAULT_GROUP B) pub"

definition ch_body :: "bytes \<Rightarrow> bytes \<Rightarrow> bytes \<Rightarrow> bytes" where
  "ch_body rnd sid exts =
     be16 0x0303 @ rnd @ [of_nat (length sid)] @ sid @ be16 2 @ be16 0x1301 @ [1, 0] @
     be16 (of_nat (length exts)) @ exts"

definition ch_msg :: "bytes \<Rightarrow> bytes" where
  "ch_msg body = 1 # be24 (length body) @ body"

lemma emits_u16s: "emits (run_w (map wn_Write_U16 xs)) (concat (map be16 xs))"
proof (induction xs)
  case Nil
  then show ?case by (simp add: emits_run_Nil)
next
  case (Cons x xs)
  then show ?case using emits_run_Cons [OF emits_U16] by simp
qed

lemma ClientHello_emits:
  assumes "length rnd = 32" "length sid \<le> 32" "length pub \<le> 1216"
    and "case name of None \<Rightarrow> True | Some s \<Rightarrow> length s \<le> 255"
    and "nameLen = (case name of None \<Rightarrow> 0 | Some s \<Rightarrow> length s)"
  shows "emits (run_w
            [wn_Write_U8 1,
             wn_vec 3 (run_w
               [wn_Write_U16 0x0303,
                wn_Write_Bytes (Some rnd) 32,
                wn_Write_U8 (of_nat (length sid)),
                (\<lambda>w. if length sid > 0 then wn_Write_Bytes (Some sid) (length sid) w else w),
                wn_Write_U16 2, wn_Write_U16 0x1301,
                wn_Write_U8 1, wn_Write_U8 0,
                wn_vec 2 (run_w
                  [(\<lambda>w. if nameLen > 0
                        then run_w [wn_Write_U16 0, wn_Write_U16 (of_nat (2 + 1 + 2 + nameLen)),
                                    wn_Write_U16 (of_nat (1 + 2 + nameLen)), wn_Write_U8 0,
                                    wn_Write_U16 (of_nat nameLen), wn_Write_Bytes name nameLen] w
                        else w),
                   wn_Write_U16 43, wn_Write_U16 3, wn_Write_U8 2, wn_Write_U16 0x0304,
                   wn_Write_U16 10, wn_Write_U16 4, wn_Write_U16 2, wn_Write_U16 (WN_DEFAULT_GROUP B),
                   wn_Write_U16 13, wn_vec 2 (wn_vec 2 (run_w (sig_alg_writes B))),
                   wn_Write_U16 51, wn_Write_U16 (of_nat (2 + 2 + 2 + length pub)),
                   wn_Write_U16 (of_nat (2 + 2 + length pub)), wn_Write_U16 (WN_DEFAULT_GROUP B),
                   wn_Write_U16 (of_nat (length pub)), wn_Write_Bytes (Some pub) (length pub)])])])
    (ch_msg (ch_body rnd sid (ch_exts B name pub)))"
proof -
  have b: "emits (wn_Write_Bytes (Some rnd) 32) rnd" "emits (wn_Write_Bytes (Some sid) (length sid)) sid"
      "emits (wn_Write_Bytes (Some pub) (length pub)) pub"
    using assms by (auto intro!: emits_Bytes_all)
  have sni: "emits (\<lambda>w. if nameLen > 0
                        then run_w [wn_Write_U16 0, wn_Write_U16 (of_nat (2 + 1 + 2 + nameLen)),
                                    wn_Write_U16 (of_nat (1 + 2 + nameLen)), wn_Write_U8 0,
                                    wn_Write_U16 (of_nat nameLen), wn_Write_Bytes name nameLen] w
                        else w) (sni_ext name)"
  proof (cases name)
    case None
    then show ?thesis using assms(5) emits_id by (simp add: sni_ext_def)
  next
    case (Some s)
    then have s: "emits (wn_Write_Bytes (Some s) nameLen) s" "nameLen = length s"
      using assms(4,5) by (auto intro!: emits_Bytes_all)
    show ?thesis
      unfolding Some
      by (rule emits_eq, (rule emits_when emits_run_Cons emits_run_Nil emits_U8 emits_U16 s(1))+)
         (auto simp: sni_ext_def enc_ext_def s(2) ac_simps)
  qed
  show ?thesis
    unfolding sig_alg_writes_map
    by (rule emits_eq, (rule sni emits_u16s emits_run_Cons emits_run_Nil emits_vec emits_U8 emits_U16 emits_when b)+)
       (simp add: ch_msg_def ch_body_def ch_exts_def share_ext_def enc_ext_def sig_bytes_def be_len_2 be_len_3 ac_simps)
qed

subsection \<open>The parser over one extension\<close>

lemma ch_ext_rz:
  assumes "et \<notin> set (cs_seen s)" "length (cs_seen s) < 40" "\<not> cs_seenPsk s" "length b < 65536"
    and "length P + 4 + length b \<le> en" "length P + 4 + length b + length R < 2147483000"
    and "ch_ext_body B et (of_nat (length b)) (length P + 4 + length b)
           (rz (P @ be16 et @ be16 (of_nat (length b))) (b @ R)) s = (rz (P @ enc_ext et b) R, s1)"
  shows "read_while (Suc k) en (ch_ext B en) (rz P (enc_ext et b @ R), s) =
    read_while k en (ch_ext B en) (rz (P @ enc_ext et b) R, s1\<lparr>cs_seen := cs_seen s1 @ [et]\<rparr>)"
proof -
  have u: "unat (of_nat (length b) :: word16) = length b"
    using assms(4) by (simp add: unat_of_nat_16)
  have p: "u32 (length P + 4 + length b) = length P + 4 + length b"
    using assms(6) by simp
  have 1: "wn_Read_U16 (rz P (enc_ext et b @ R)) = (et, rz (P @ be16 et) (be16 (of_nat (length b)) @ b @ R))"
    using assms(6) by (simp add: enc_ext_def rz_be16)
  have 2: "wn_Read_U16 (rz (P @ be16 et) (be16 (of_nat (length b)) @ b @ R))
      = (of_nat (length b), rz (P @ be16 et @ be16 (of_nat (length b))) (b @ R))"
    using assms(6) by (simp add: rz_be16)
  have "length (cs_seen s1) < 40" using ch_ext_body_keeps [OF assms(7)] assms(2) by simp
  then have see: "see_ext et s1 = s1\<lparr>cs_seen := cs_seen s1 @ [et]\<rparr>" by (simp add: see_ext_def)
  have "ch_ext B en (rz P (enc_ext et b @ R), s) = (rz (P @ enc_ext et b) R, s1\<lparr>cs_seen := cs_seen s1 @ [et]\<rparr>)"
    unfolding ch_ext_def prod.case 1 2 u Let_def using assms(1-3,5,7) p see by (simp add: ac_simps)
  then show ?thesis
    using assms(5) by (simp add: read_while.simps)
qed

lemma body_sni:
  assumes "length P + length b + length R < 2147483000" "length b < 65536"
  shows "ch_ext_body B 0 (of_nat (length b)) eEnd (rz P (b @ R)) s = (rz (P @ b) R, s)"
  using assms by (simp add: ch_ext_body_def unat_of_nat_16 rz_Bytes)

lemma body_versions:
  assumes "length P + length R < 2147483000"
  shows "ch_ext_body B 43 el eEnd (rz P ((2 # be16 0x0304) @ R)) s =
    (rz (P @ 2 # be16 0x0304) R, s\<lparr>haveTls13 := True\<rparr>)"
  using assms by (simp add: ch_ext_body_def ext_versions_def version_entry_def rz_U8 rz_be16)

lemma body_groups:
  assumes "length P + length R < 2147483000"
  shows "ch_ext_body B 10 el eEnd (rz P ((be16 2 @ be16 (WN_DEFAULT_GROUP B)) @ R)) s =
    (rz (P @ be16 2 @ be16 (WN_DEFAULT_GROUP B)) R, s\<lparr>haveGroups := True, groupOffered := True\<rparr>)"
  using assms
  by (simp add: ch_ext_body_def ext_groups_def group_entry_def rz_be16 Let_def read_while_step read_while_done)

lemma body_sigs:
  assumes "length P + length sa + length R < 2147483000" "length sa < 65536"
  shows "ch_ext_body B 13 el eEnd (rz P ((be16 (of_nat (length sa)) @ sa) @ R)) s =
    (rz (P @ be16 (of_nat (length sa)) @ sa) R,
     s\<lparr>cs_out := (cs_out s)\<lparr>ch_sigAlgs := Some (length P + 2), ch_sigAlgsLen := length sa\<rparr>\<rparr>)"
  using assms by (simp add: ch_ext_body_def rz_be16 rz_Bytes unat_of_nat_16)

lemma body_share:
  assumes "length P + length pub + length R < 2147483000" "length pub < 60000"
    and "eEnd = length P + 6 + length pub"
  shows "ch_ext_body B 51 el eEnd (rz P ((be16 (of_nat (2 + 2 + length pub)) @ be16 (WN_DEFAULT_GROUP B) @
      be16 (of_nat (length pub)) @ pub) @ R)) s =
    (rz (P @ be16 (of_nat (2 + 2 + length pub)) @ be16 (WN_DEFAULT_GROUP B) @ be16 (of_nat (length pub)) @ pub) R,
     s\<lparr>cs_out := (cs_out s)\<lparr>ch_keyShare := Some (length P + 6), ch_keyShareLen := length pub,
        ch_group := WN_DEFAULT_GROUP B, ch_haveKeyShare := True\<rparr>\<rparr>)"
proof -
  have u: "unat (of_nat (length pub) :: word16) = length pub"
    "unat (of_nat (2 + 2 + length pub) :: word16) = 4 + length pub"
    using assms(2) unfolding unat_of_nat_16 by simp_all
  have r: "wn_Read_U16 (rz P ((be16 (of_nat (2 + 2 + length pub)) @ be16 (WN_DEFAULT_GROUP B) @
        be16 (of_nat (length pub)) @ pub) @ R)) = (of_nat (2 + 2 + length pub),
        rz (P @ be16 (of_nat (2 + 2 + length pub))) (be16 (WN_DEFAULT_GROUP B) @ be16 (of_nat (length pub)) @ pub @ R))"
    using assms(1) by (simp add: rz_be16)
  have k: "ks_entry B (rz Q (be16 (WN_DEFAULT_GROUP B) @ be16 (of_nat (length pub)) @ pub @ R), c) =
     (rz (Q @ be16 (WN_DEFAULT_GROUP B) @ be16 (of_nat (length pub)) @ pub) R,
      c\<lparr>ch_keyShare := Some (length Q + 4), ch_keyShareLen := length pub, ch_group := WN_DEFAULT_GROUP B,
        ch_haveKeyShare := True\<rparr>)" if "length Q = length P + 2" for Q c
    using that assms(1) by (simp add: ks_entry_def rz_be16 rz_Bytes u)
  show ?thesis
    using assms unfolding ch_ext_body_def ext_key_shares_def r prod.case u Let_def
    by (simp add: read_while_step k read_while_done)
qed

subsection \<open>The parser over all extensions\<close>

definition ch_seen :: "client_hello \<Rightarrow> word16 list \<Rightarrow> bool \<Rightarrow> bool \<Rightarrow> ch_state" where
  "ch_seen c seen tls grp = \<lparr>cs_out = c, cs_seen = seen, cs_stray = False, cs_seenPsk = False, haveTls13 = tls, havePskDhe = False,
     haveGroups = grp, groupOffered = grp\<rparr>"

definition parsed_out :: "build \<Rightarrow> nat \<Rightarrow> bytes \<Rightarrow> client_hello \<Rightarrow> client_hello" where
  "parsed_out B at pub c = c\<lparr>ch_sigAlgs := Some (at + 21), ch_sigAlgsLen := length (sig_bytes B),
     ch_keyShare := Some (at + 31 + length (sig_bytes B)), ch_keyShareLen := length pub,
     ch_group := WN_DEFAULT_GROUP B, ch_haveKeyShare := True\<rparr>"

definition sni_ok :: "bytes option \<Rightarrow> bool" where
  "sni_ok name = (case name of None \<Rightarrow> True | Some h \<Rightarrow> length h \<le> 255)"

lemma length_sni: "sni_ok name \<Longrightarrow> length (sni_ext name) \<le> 264"
  by (auto simp: sni_ok_def sni_ext_def split: option.splits)

lemma walk_sni:
  assumes "sni_ok name" "length P + length (sni_ext name) + length R < 2147483000" "length P + length (sni_ext name) \<le> n"
    and "k > n"
  shows "\<exists>seen k'. read_while k n (ch_ext B n) (rz P (sni_ext name @ R), ch_seen c [] False False) =
    read_while k' n (ch_ext B n) (rz (P @ sni_ext name) R, ch_seen c seen False False) \<and>
    set seen \<subseteq> {0} \<and> length seen \<le> 1 \<and> k' + 1 \<ge> k"
proof (cases "sni_ext name = []")
  case True
  show ?thesis
    by (intro exI [of _ "[]"] exI [of _ k]) (simp add: True)
next
  case False
  then obtain h where h: "name = Some h" "h \<noteq> []"
    by (auto simp: sni_ext_def split: option.splits if_splits)
  define b where "b = be16 (of_nat (1 + 2 + length h)) @ [0] @ be16 (of_nat (length h)) @ h"
  have e: "sni_ext name = enc_ext 0 b" "length b = 5 + length h"
    using h by (simp_all add: sni_ext_def b_def)
  have lb: "length b < 65536" using e(2) h assms(1) by (simp add: sni_ok_def)
  have "read_while (Suc (k - 1)) n (ch_ext B n) (rz P (enc_ext 0 b @ R), ch_seen c [] False False) =
    read_while (k - 1) n (ch_ext B n) (rz (P @ enc_ext 0 b) R,
      ch_seen c [] False False\<lparr>cs_seen := cs_seen (ch_seen c [] False False) @ [0]\<rparr>)"
    using assms(2,3) e(1) lb
    by (intro ch_ext_rz) (simp_all add: ch_seen_def body_sni enc_ext_def)
  then show ?thesis
    using assms(4)
    by (intro exI [of _ "[0]"] exI [of _ "k - 1"]) (simp add: e(1) ch_seen_def)
qed

lemma step_versions:
  assumes "43 \<notin> set seen" "length seen < 40" "length P + 7 \<le> n" "length P + length R < 2147480000"
  shows "read_while (Suc k) n (ch_ext B n) (rz P (enc_ext 43 (2 # be16 0x0304) @ R), ch_seen c seen t g) =
    read_while k n (ch_ext B n) (rz (P @ enc_ext 43 (2 # be16 0x0304)) R, ch_seen c (seen @ [43]) True g)"
  by (rule trans [OF ch_ext_rz [where ?s1.0 = "ch_seen c seen True g"]])
     (use assms body_versions [of "P @ be16 43 @ be16 3" R] in \<open>simp_all add: ch_seen_def enc_ext_def\<close>)

lemma step_groups:
  assumes "10 \<notin> set seen" "length seen < 40" "length P + 8 \<le> n" "length P + length R < 2147480000"
  shows "read_while (Suc k) n (ch_ext B n)
      (rz P (enc_ext 10 (be16 2 @ be16 (WN_DEFAULT_GROUP B)) @ R), ch_seen c seen t False) =
    read_while k n (ch_ext B n)
      (rz (P @ enc_ext 10 (be16 2 @ be16 (WN_DEFAULT_GROUP B))) R, ch_seen c (seen @ [10]) t True)"
  by (rule trans [OF ch_ext_rz [where ?s1.0 = "ch_seen c seen t True"]])
     (use assms body_groups [of "P @ be16 10 @ be16 4" R] in \<open>simp_all add: ch_seen_def enc_ext_def\<close>)

lemma step_sigs:
  assumes "13 \<notin> set seen" "length seen < 40" "length P + 6 + length sa \<le> n" "length P + length R < 2147480000"
    and "length sa < 100"
  shows "read_while (Suc k) n (ch_ext B n)
      (rz P (enc_ext 13 (be16 (of_nat (length sa)) @ sa) @ R), ch_seen c seen t g) =
    read_while k n (ch_ext B n) (rz (P @ enc_ext 13 (be16 (of_nat (length sa)) @ sa)) R,
      ch_seen (c\<lparr>ch_sigAlgs := Some (length P + 6), ch_sigAlgsLen := length sa\<rparr>) (seen @ [13]) t g)"
  by (rule trans [OF ch_ext_rz [where ?s1.0 = "ch_seen (c\<lparr>ch_sigAlgs := Some (length P + 6), ch_sigAlgsLen := length sa\<rparr>) seen t g"]])
     (use assms body_sigs [of "P @ be16 13 @ be16 (of_nat (length (be16 (of_nat (length sa)) @ sa)))" sa R]
       in \<open>simp_all add: ch_seen_def enc_ext_def\<close>)

lemma step_share:
  assumes "51 \<notin> set seen" "length seen < 40" "length P + 10 + length pub \<le> n" "length P + length R < 2147400000"
    and "length pub < 60000"
  shows "read_while (Suc k) n (ch_ext B n) (rz P (share_ext (WN_DEFAULT_GROUP B) pub @ R), ch_seen c seen t g) =
    read_while k n (ch_ext B n) (rz (P @ share_ext (WN_DEFAULT_GROUP B) pub) R,
      ch_seen (c\<lparr>ch_keyShare := Some (length P + 10), ch_keyShareLen := length pub,
        ch_group := WN_DEFAULT_GROUP B, ch_haveKeyShare := True\<rparr>) (seen @ [51]) t g)"
proof -
  define b where "b = be16 (of_nat (2 + 2 + length pub)) @ be16 (WN_DEFAULT_GROUP B) @ be16 (of_nat (length pub)) @ pub"
  have lb: "length b = 6 + length pub" by (simp add: b_def)
  have bs: "ch_ext_body B 51 el (length P + 4 + length b) (rz (P @ be16 51 @ be16 (of_nat (length b))) (b @ R)) s' =
      (rz (P @ enc_ext 51 b) R, s'\<lparr>cs_out := (cs_out s')\<lparr>ch_keyShare := Some (length P + 10), ch_keyShareLen := length pub,
        ch_group := WN_DEFAULT_GROUP B, ch_haveKeyShare := True\<rparr>\<rparr>)" for el s'
    using body_share [of "P @ be16 51 @ be16 (of_nat (length b))" pub R "length P + 4 + length b" B el s',
        folded b_def] assms(4,5) lb by (simp add: enc_ext_def)
  show ?thesis
    unfolding share_ext_def b_def [symmetric]
    by (rule trans [OF ch_ext_rz [OF _ _ _ _ _ _ bs]]) (use assms lb in \<open>simp_all add: ch_seen_def\<close>)
qed

lemma ch_exts_walk:
  assumes "sni_ok name" "length pub \<le> 1216" "length P < 100000" "n = length P + length (ch_exts B name pub)"
  shows "\<exists>seen. read_while (n + 1) n (ch_ext B n) (rz P (ch_exts B name pub), ch_seen c [] False False) =
    (rz (P @ ch_exts B name pub) [],
     ch_seen (parsed_out B (length P + length (sni_ext name)) pub c) seen True True)"
proof -
  define R where "R = enc_ext 43 (2 # be16 0x0304) @ enc_ext 10 (be16 2 @ be16 (WN_DEFAULT_GROUP B)) @
     enc_ext 13 (be16 (of_nat (length (sig_bytes B))) @ sig_bytes B) @ share_ext (WN_DEFAULT_GROUP B) pub"
  define P1 where "P1 = P @ sni_ext name"
  have E: "ch_exts B name pub = sni_ext name @ R"
    by (simp add: ch_exts_def R_def)
  have s: "length (sig_bytes B) \<le> 14" "length (sni_ext name) \<le> 264"
    using length_sig_bytes length_sni [OF assms(1)] by auto
  have R: "length R = 31 + length (sig_bytes B) + length pub"
    by (simp add: R_def share_ext_def)
  have n: "n = length P1 + 31 + length (sig_bytes B) + length pub"
    by (simp add: assms(4) E R P1_def)
  have P1: "length P1 < 101000" using s(2) assms(3) by (simp add: P1_def)
  obtain seen k where w: "read_while (n + 1) n (ch_ext B n) (rz P (ch_exts B name pub), ch_seen c [] False False) =
    read_while k n (ch_ext B n) (rz P1 R, ch_seen c seen False False)" "set seen \<subseteq> {0}" "length seen \<le> 1" "n \<le> k"
    using walk_sni [OF assms(1), of P R n "n + 1" B c] R s assms(2-4) unfolding E P1_def by auto
  obtain j where "k = 4 + j"
    using le_Suc_ex [of 4 k] w(4) n by auto
  then have k: "k = Suc (Suc (Suc (Suc j)))" by simp
  have d: "43 \<notin> set seen" "10 \<notin> set (seen @ [43])" "13 \<notin> set ((seen @ [43]) @ [10])"
      "51 \<notin> set (((seen @ [43]) @ [10]) @ [13])"
    using w(2) by auto
  have "read_while k n (ch_ext B n) (rz P1 R, ch_seen c seen False False) =
     read_while j n (ch_ext B n) (rz (P @ ch_exts B name pub) [],
        ch_seen (parsed_out B (length P1) pub c) (seen @ [43, 10, 13, 51]) True True)"
    unfolding k R_def
    apply (subst step_versions [OF d(1)])
    subgoal using w(3) by simp
    subgoal using n by simp
    subgoal using P1 s assms(2) by (simp add: share_ext_def)
    apply (subst step_groups [OF d(2)])
    subgoal using w(3) by simp
    subgoal using n by simp
    subgoal using P1 s assms(2) by (simp add: share_ext_def)
    apply (subst step_sigs [OF d(3)])
    subgoal using w(3) by simp
    subgoal using n by simp
    subgoal using P1 s assms(2) by (simp add: share_ext_def)
    subgoal using s by simp
    apply (subst step_share [OF d(4), where R = "[]", simplified append_Nil2])
    subgoal using w(3) by simp
    subgoal using n by simp
    subgoal using P1 s assms(2) by simp
    subgoal using assms(2) by simp
    by (simp add: E R_def P1_def parsed_out_def ac_simps)
  also have "\<dots> = (rz (P @ ch_exts B name pub) [], ch_seen (parsed_out B (length P1) pub c) (seen @ [43, 10, 13, 51]) True True)"
    by (rule read_while_done) (simp add: assms(4))
  finally show ?thesis
    using w(1) by (auto simp: P1_def)
qed

lemma ch_tail_parses:
  assumes "sni_ok name" "length pub = WN_DEFAULT_PUB_SZ B" "length P < 90000" "ch_cipher c \<noteq> 0" "\<not> ch_havePsk c"
    and "exts = ch_exts B name pub" "n = length P + 2 + length exts"
  shows "ch_tail B n c (rz P (be16 (of_nat (length exts)) @ exts)) =
    Inr (parsed_out B (length P + 2 + length (sni_ext name)) pub c)"
proof -
  have pub: "length pub \<le> 1216" using pub_sz_bounds assms(2) by metis
  have s: "length (sig_bytes B) \<le> 14" "length (sni_ext name) \<le> 264"
    using length_sig_bytes length_sni [OF assms(1)] by auto
  have le: "length exts < 3000"
    using s pub by (simp add: assms(6) ch_exts_def share_ext_def)
  define P2 where "P2 = P @ be16 (of_nat (length exts))"
  have p2: "length P2 = length P + 2" by (simp add: P2_def)
  obtain seen where w: "read_while (n + 1) n (ch_ext B n) (rz P2 exts, ch_seen c [] False False) =
    (rz (P2 @ exts) [], ch_seen (parsed_out B (length P2 + length (sni_ext name)) pub c) seen True True)"
    using ch_exts_walk [OF assms(1) pub, of P2 n B c] assms(3,6,7) p2 by auto
  have 1: "wn_Read_U16 (rz P (be16 (of_nat (length exts)) @ exts)) = (of_nat (length exts), rz P2 exts)"
    using le assms(3) by (simp add: rz_be16 P2_def)
  have u: "u32 (rpos (rz P2 exts) + unat (of_nat (length exts) :: word16)) = n"
    using le assms(3,7) p2 by (simp add: unat_of_nat_16)
  show ?thesis
    unfolding ch_tail_def 1 prod.case Let_def u
    using w p2 assms(2,4,5) by (simp add: ch_seen_def no_stray_def parsed_out_def)
qed

text \<open>The parser up to the extensions.\<close>

lemma client_hello_front:
  assumes "length rnd = 32" "length sid \<le> 32" "length exts < 60000"
  defines "c \<equiv> client_hello_zero\<lparr>ch_sessionId := Some 39, ch_sessionIdLen := length sid, ch_cipher := 0x1301\<rparr>"
  shows "\<exists>P. length P = 45 + length sid \<and> ch_msg (ch_body rnd sid exts) = P @ be16 (of_nat (length exts)) @ exts \<and>
    wn_ClientHello_Parse B (Some (ch_msg (ch_body rnd sid exts))) =
      ch_tail B (47 + length sid + length exts) c (rz P (be16 (of_nat (length exts)) @ exts))"
proof -
  define body where "body = ch_body rnd sid exts"
  have bl: "length body = 43 + length sid + length exts"
    by (simp add: assms(1) body_def ch_body_def)
  define E where "E = be16 (of_nat (length exts)) @ exts"
  have lE: "length E < 60002" using assms(3) by (simp add: E_def)
  define P2 where "P2 = 1 # be24 (length body)"
  define P4 where "P4 = P2 @ be16 0x0303 @ rnd"
  define P6 where "P6 = P4 @ [of_nat (length sid)] @ sid"
  define P8 where "P8 = P6 @ be16 2 @ be16 0x1301"
  have pl: "length P2 = 4" "length P4 = 38" "length P6 = 39 + length sid" "length P8 = 43 + length sid"
    using assms(1) by (simp_all add: P2_def P4_def P6_def P8_def)
  have m: "ch_msg body = [1] @ be24 (length body) @ be16 0x0303 @ rnd @ [of_nat (length sid)] @ sid @ be16 2 @ be16 0x1301 @ [1, 0] @ E"
    by (simp add: ch_msg_def body_def ch_body_def E_def)
  have mP: "ch_msg body = (P8 @ [1, 0]) @ E" by (simp add: m P8_def P6_def P4_def P2_def)
  have lm: "length (ch_msg body) = 47 + length sid + length exts" by (simp add: ch_msg_def bl)
  have u: "unat (of_nat (length sid) :: byte) = length sid" "(of_nat (length sid) :: byte) \<le> 32"
    using assms(2) by (simp_all add: unat_of_nat_byte word_le_nat_alt)
  have r1: "wn_Read_U8 (wn_Reader_Init (ch_msg body) (length (ch_msg body)))
      = (1, rz [1] (be24 (length body) @ be16 0x0303 @ rnd @ [of_nat (length sid)] @ sid @ be16 2 @ be16 0x1301 @ [1, 0] @ E))"
    using assms(1,2) lE rz_U8 [of "[]" "be24 (length body) @ be16 0x0303 @ rnd @ [of_nat (length sid)] @ sid @ be16 2 @ be16 0x1301 @ [1, 0] @ E" 1]
    by (simp add: Init_rz m)
  have r2: "wn_Read_U24 (rz [1] (be24 (length body) @ be16 0x0303 @ rnd @ [of_nat (length sid)] @ sid @ be16 2 @ be16 0x1301 @ [1, 0] @ E))
      = (length body, rz P2 (be16 0x0303 @ rnd @ [of_nat (length sid)] @ sid @ be16 2 @ be16 0x1301 @ [1, 0] @ E))"
    using assms(1-3) lE bl by (subst rz_be24) (simp_all add: P2_def)
  have r3: "wn_Read_U16 (rz P2 (be16 0x0303 @ rnd @ [of_nat (length sid)] @ sid @ be16 2 @ be16 0x1301 @ [1, 0] @ E))
      = (0x0303, rz (P2 @ be16 0x0303) (rnd @ [of_nat (length sid)] @ sid @ be16 2 @ be16 0x1301 @ [1, 0] @ E))"
    using assms(1,2) lE pl by (subst rz_be16) simp_all
  have r4: "wn_Read_Bytes 32 (rz (P2 @ be16 0x0303) (rnd @ [of_nat (length sid)] @ sid @ be16 2 @ be16 0x1301 @ [1, 0] @ E))
      = (Some 6, rz P4 ([of_nat (length sid)] @ sid @ be16 2 @ be16 0x1301 @ [1, 0] @ E))"
    using assms(1,2) lE pl by (subst rz_Bytes) (simp_all add: P4_def)
  have r5: "wn_Read_U8 (rz P4 ([of_nat (length sid)] @ sid @ be16 2 @ be16 0x1301 @ [1, 0] @ E))
      = (of_nat (length sid), rz (P4 @ [of_nat (length sid)]) (sid @ be16 2 @ be16 0x1301 @ [1, 0] @ E))"
    using assms(2) lE pl by (simp add: rz_U8)
  have r6: "wn_Read_Bytes (length sid) (rz (P4 @ [of_nat (length sid)]) (sid @ be16 2 @ be16 0x1301 @ [1, 0] @ E))
      = (Some 39, rz P6 (be16 2 @ be16 0x1301 @ [1, 0] @ E))"
    using assms(2) lE pl by (subst rz_Bytes) (simp_all add: P6_def)
  have r7: "wn_Read_U16 (rz P6 (be16 2 @ be16 0x1301 @ [1, 0] @ E)) = (2, rz (P6 @ be16 2) (be16 0x1301 @ [1, 0] @ E))"
    using assms(2) lE pl by (simp add: rz_be16)
  have r8: "cipher_entry (rz (P6 @ be16 2) (be16 0x1301 @ [1, 0] @ E), 0) = (rz P8 ([1, 0] @ E), 0x1301)"
    using assms(2) lE pl by (simp add: cipher_entry_def rz_be16 P8_def)
  have r9: "wn_Read_U8 (rz P8 ([1, 0] @ E)) = (1, rz (P8 @ [1]) (0 # E))"
    using assms(2) lE pl by (simp add: rz_U8)
  have r10: "wn_Read_U8 (rz (P8 @ [1]) (0 # E)) = (0, rz (P8 @ [1, 0]) E)"
    using assms(2) lE pl by (simp add: rz_U8)
  have v: "u32 (rpos (rz P2 (be16 0x0303 @ rnd @ [of_nat (length sid)] @ sid @ be16 2 @ be16 0x1301 @ [1, 0] @ E)) + length body) =
      47 + length sid + length exts"
    using bl assms(2,3) pl by simp
  note rs = r1 [unfolded lm] r2 r3 r4 r5 r6 r7 r8 r9 r10
  have two: "unat (2 :: word16) div 2 = Suc 0" "\<not> odd (unat (2 :: word16))" by simp_all
  have le32: "\<not> (of_nat (length sid) :: byte) > 32" using u(2) by simp
  have "wn_ClientHello_Parse B (Some (ch_msg body)) = ch_tail B (47 + length sid + length exts) c (rz (P8 @ [1, 0]) E)"
    unfolding wn_ClientHello_Parse_def option.case Let_def lm c_def
    by (simp only: rs prod.case v u(1) two funpow.simps comp_apply id_apply) (simp add: le32)
  then show ?thesis using pl(4) mP unfolding body_def E_def by (intro exI [of _ "P8 @ [1, 0]"]) simp
qed

lemma client_hello_parses:
  assumes "length rnd = 32" "length sid \<le> 32" "sni_ok name" "length pub = WN_DEFAULT_PUB_SZ B"
    and "exts = ch_exts B name pub" "body = ch_body rnd sid exts"
  shows "wn_ClientHello_Parse B (Some (ch_msg body)) =
    Inr (parsed_out B (47 + length sid + length (sni_ext name)) pub
      (client_hello_zero\<lparr>ch_sessionId := Some 39, ch_sessionIdLen := length sid, ch_cipher := 0x1301\<rparr>))"
proof -
  have pub: "length pub \<le> 1216" using pub_sz_bounds assms(4) by metis
  have s: "length (sig_bytes B) \<le> 14" "length (sni_ext name) \<le> 264"
    using length_sig_bytes length_sni [OF assms(3)] by auto
  have le: "length exts < 60000"
    using s pub by (simp add: assms(5) ch_exts_def share_ext_def)
  let ?c = "client_hello_zero\<lparr>ch_sessionId := Some 39, ch_sessionIdLen := length sid, ch_cipher := 0x1301\<rparr>"
  obtain P where P: "length P = 45 + length sid" "wn_ClientHello_Parse B (Some (ch_msg body)) =
      ch_tail B (47 + length sid + length exts) ?c (rz P (be16 (of_nat (length exts)) @ exts))"
    using client_hello_front [OF assms(1,2) le, of B] unfolding assms(6) by blast
  have l: "length P < 90000" "47 + length sid + length exts = length P + 2 + length exts"
      "length P + 2 + length (sni_ext name) = 47 + length sid + length (sni_ext name)"
    using P(1) assms(2) by simp_all
  show ?thesis
    unfolding P(2) by (rule ch_tail_parses [OF assms(3,4) l(1) _ _ assms(5) l(2), of ?c, unfolded l(3)])
      (simp_all add: client_hello_zero_def)
qed

subsection \<open>The built message and its fields\<close>

lemma ClientHello_built:
  assumes "length rnd = 32" "length sid \<le> 32" "length pub = WN_DEFAULT_PUB_SZ B" "sni_ok name"
    and "2000 \<le> length out" "length out < 2147483648"
    and m: "m = ch_msg (ch_body rnd sid (ch_exts B name pub))" and at: "at = 47 + length sid + length (sni_ext name)"
  shows "\<exists>buf. wn_ClientHello_Build_ex B out (Some rnd) sid (Some pub) name = (Inr (length m), buf) \<and> take (length m) buf = m"
    "slice 39 (length sid) m = sid" "slice (at + 21) (length (sig_bytes B)) m = sig_bytes B"
    "slice (at + 31 + length (sig_bytes B)) (length pub) m = pub"
    "length m = at + 31 + length (sig_bytes B) + length pub" "length m \<le> 1700"
    "length (ch_body rnd sid (ch_exts B name pub)) = length m - 4"
proof -
  define exts where "exts = ch_exts B name pub"
  define body where "body = ch_body rnd sid exts"
  have pub: "length pub \<le> 1216" using pub_sz_bounds assms(3) by metis
  have s: "length (sig_bytes B) \<le> 14" "length (sni_ext name) \<le> 264"
    using length_sig_bytes length_sni [OF assms(4)] by auto
  have lens: "length exts = length (sni_ext name) + 31 + length (sig_bytes B) + length pub"
    "length m = 47 + length sid + length exts" "length body = length m - 4"
    using assms(1) by (simp_all add: exts_def ch_exts_def share_ext_def m ch_msg_def body_def ch_body_def)
  then show "length m = at + 31 + length (sig_bytes B) + length pub" "length m \<le> 1700"
      "length (ch_body rnd sid (ch_exts B name pub)) = length m - 4"
    using s pub assms(2) by (simp_all add: at body_def exts_def)
  define nameLen where "nameLen = (case name of None \<Rightarrow> 0 | Some h \<Rightarrow> length h)"
  have nm: "case name of None \<Rightarrow> True | Some h \<Rightarrow> length h \<le> 255" "nameLen \<le> 255"
    using assms(4) by (auto simp: sni_ok_def nameLen_def split: option.splits)
  have le: "length m \<le> length out" using lens s pub assms(2,5) by simp
  note fin = finish_emits(1) [OF ClientHello_emits [OF assms(1,2) pub nm(1) nameLen_def, of B] order_refl assms(6)]
  have cond: "\<not> (Some rnd = None \<or> Some pub = None \<or> length pub \<noteq> WN_DEFAULT_PUB_SZ B \<or>
      length sid > 32 \<or> nameLen > 255)"
    using assms(2,3) nm(2) by simp
  show "\<exists>buf. wn_ClientHello_Build_ex B out (Some rnd) sid (Some pub) name = (Inr (length m), buf) \<and> take (length m) buf = m"
    unfolding wn_ClientHello_Build_ex_def nameLen_def [symmetric] Let_def option.sel if_not_P [OF cond]
    by (rule fin [folded m, OF le])
  define A where "A = (1 # be24 (length body) @ be16 0x0303 @ rnd @ [of_nat (length sid)]) @ sid @ be16 2 @ be16 0x1301 @ [1, 0] @
     be16 (of_nat (length exts)) @ sni_ext name @ enc_ext 43 ([2] @ be16 0x0304) @ enc_ext 10 (be16 2 @ be16 (WN_DEFAULT_GROUP B)) @
     be16 13 @ be16 (of_nat (2 + length (sig_bytes B))) @ be16 (of_nat (length (sig_bytes B)))"
  define D where "D = be16 51 @ be16 (of_nat (6 + length pub)) @ be16 (of_nat (2 + 2 + length pub)) @
     be16 (WN_DEFAULT_GROUP B) @ be16 (of_nat (length pub))"
  have m1: "m = A @ sig_bytes B @ D @ pub"
    by (simp add: m ch_msg_def body_def ch_body_def exts_def ch_exts_def share_ext_def A_def D_def)
       (simp add: enc_ext_def)
  have l: "length A = 68 + length sid + length (sni_ext name)" "length D = 10"
    using assms(1) by (simp_all add: A_def D_def)
  show "slice (at + 21) (length (sig_bytes B)) m = sig_bytes B"
    unfolding m1 by (rule slice_at) (simp_all add: l at)
  show "slice (at + 31 + length (sig_bytes B)) (length pub) m = pub"
    using slice_at [of "A @ sig_bytes B @ D" _ pub _ "[]"] l by (simp add: m1 at)
  show "slice 39 (length sid) m = sid"
    unfolding m1 A_def append_assoc by (rule slice_at) (simp_all add: assms(1))
qed

lemma slice_of_take: "take n buf = m \<Longrightarrow> n = length m \<Longrightarrow> off + k \<le> length m \<Longrightarrow> slice off k buf = slice off k m"
  by (metis append_take_drop_id slice_append_left)

lemma sig_bytes_loop: "has_sig_loop (sig_bytes B) scheme False = (scheme \<in> set (sig_alg_list B))"
  by (simp add: sig_bytes_def has_sig_loop_list)

subsection \<open>Properties\<close>

text \<open>C28. Round trip of the ClientHello: what \<open>wn_ClientHello_Build_ex\<close> writes for a build is accepted by
  the parser of a server of that build, which finds the session id, the key share of the build's
  group and the one cipher suite, no PSK, and offers exactly the build's signature schemes.\<close>

theorem client_hello_roundtrip:
  assumes "length rnd = 32" "length sid \<le> 32" "length pub = WN_DEFAULT_PUB_SZ B" "sni_ok name"
    and "2000 \<le> length out" "length out < 2147483648"
  shows "case wn_ClientHello_Build_ex B out (Some rnd) sid (Some pub) name of
    (Inl _, _) \<Rightarrow> False
  | (Inr n, buf) \<Rightarrow>
      (case wn_ClientHello_Parse B (Some (take n buf)) of Inl _ \<Rightarrow> False
       | Inr ch \<Rightarrow> slice (the (ch_sessionId ch)) (ch_sessionIdLen ch) buf = sid \<and>
           ch_haveKeyShare ch \<and> ch_group ch = WN_DEFAULT_GROUP B \<and>
           slice (the (ch_keyShare ch)) (ch_keyShareLen ch) buf = pub \<and>
           ch_cipher ch = 0x1301 \<and> \<not> ch_havePsk ch \<and>
           wn_ClientHello_HasSigAlg (Some (slice (the (ch_sigAlgs ch)) (ch_sigAlgsLen ch) buf)) scheme =
             (scheme \<in> set (sig_alg_list B)))"
proof -
  define m where "m = ch_msg (ch_body rnd sid (ch_exts B name pub))"
  note F = ClientHello_built [OF assms(1-6) m_def refl]
  obtain buf where buf: "wn_ClientHello_Build_ex B out (Some rnd) sid (Some pub) name = (Inr (length m), buf)"
    "take (length m) buf = m" using F(1) by blast
  note at = slice_of_take [OF buf(2) refl]
  show ?thesis
    using client_hello_parses [OF assms(1,2,4,3) refl refl, folded m_def] buf F(2-5)
    by (simp add: parsed_out_def at sig_bytes_loop wn_ClientHello_HasSigAlg_def client_hello_zero_def)
qed

theorem client_hello_roundtrip_witness:
  "case wn_ClientHello_Build_ex toy_build (replicate 2000 0) (Some (replicate 32 5)) [1, 2, 3]
      (Some (replicate 32 9)) (Some [97, 46, 98]) of
    (Inl _, _) \<Rightarrow> False
  | (Inr n, buf) \<Rightarrow>
      (case wn_ClientHello_Parse toy_build (Some (take n buf)) of Inl _ \<Rightarrow> False
       | Inr ch \<Rightarrow> slice (the (ch_sessionId ch)) (ch_sessionIdLen ch) buf = [1, 2, 3] \<and>
           ch_haveKeyShare ch \<and> ch_group ch = WN_DEFAULT_GROUP toy_build \<and>
           slice (the (ch_keyShare ch)) (ch_keyShareLen ch) buf = replicate 32 9 \<and>
           ch_cipher ch = 0x1301 \<and> \<not> ch_havePsk ch \<and>
           wn_ClientHello_HasSigAlg (Some (slice (the (ch_sigAlgs ch)) (ch_sigAlgsLen ch) buf)) 0x0807 =
             (0x0807 \<in> set (sig_alg_list toy_build)))"
  by (rule client_hello_roundtrip) (simp_all add: sni_ok_def WN_DEFAULT_PUB_SZ_def toy_build_def)

end
