(* ===== verification/Der.thy ===== *)
theory Der
  imports Prelude
begin

section \<open>DER headers (wn_x509.c, first part)\<close>

text \<open>
  The primitives every parser of \<^verbatim>\<open>wn_x509.c\<close> is made of: a length, a header of an expected
  tag, a header that fills its parent, a BIT STRING. An index into the buffer is a natural
  number and is returned instead of written through a pointer; C's negative \<open>rc\<close> is \<open>Inl\<close>.

  \<open>safeE m P\<close> is the contract language of the parsers: \<open>m\<close> never reads outside its buffer, and
  if it succeeds, its result satisfies \<open>P\<close>. Its rules (\<open>safe_rules\<close>) follow the code.
\<close>

subsection \<open>Contracts\<close>

named_theorems safe_rules \<open>contracts of parsers and their combinators\<close>

definition safeE :: "wn_err + 'a \<Rightarrow> ('a \<Rightarrow> bool) \<Rightarrow> bool" where
  "safeE m P = (case m of Inl e \<Rightarrow> e \<noteq> Oob | Inr x \<Rightarrow> P x)"

lemma safeE_Inr [safe_rules]: "P x \<Longrightarrow> safeE (Inr x) P"
  by (simp add: safeE_def)

lemma safeE_Inl [safe_rules]: "e \<noteq> Oob \<Longrightarrow> safeE (Inl e) P"
  by (simp add: safeE_def)

lemma safeE_bind: "safeE m Q \<Longrightarrow> (\<And>x. m = Inr x \<Longrightarrow> Q x \<Longrightarrow> safeE (f x) P) \<Longrightarrow> safeE (bindE m f) P"
  by (cases m) (simp_all add: safeE_def)

lemma safeE_if [safe_rules]: "(c \<Longrightarrow> safeE a P) \<Longrightarrow> (\<not> c \<Longrightarrow> safeE b P) \<Longrightarrow> safeE (if c then a else b) P"
  by simp

lemma safeE_conseq: "safeE m P \<Longrightarrow> (\<And>x. m = Inr x \<Longrightarrow> P x \<Longrightarrow> Q x) \<Longrightarrow> safeE m Q"
  by (cases m) (simp_all add: safeE_def)

lemma safeE_rd [safe_rules]: "i < length bs \<Longrightarrow> P (bs ! i) \<Longrightarrow> safeE (rd_byte bs i) P"
  by (simp add: safeE_def)

lemma safeE_rd_bind: "i < length bs \<Longrightarrow> safeE (f (bs ! i)) P \<Longrightarrow> safeE (bindE (rd_byte bs i) f) P"
  by simp

lemma safeE_Inr_iff: "safeE m P \<Longrightarrow> m = Inr x \<Longrightarrow> P x"
  by (simp add: safeE_def)

lemma safeE_no_oob: "safeE m P \<Longrightarrow> m \<noteq> Inl Oob"
  by (auto simp: safeE_def)

text \<open>A call whose failure ends a search instead of the parse; a stray read still counts.\<close>

definition tryE :: "wn_err + 'a \<Rightarrow> wn_err + 'a option" where
  "tryE m = (case m of Inl e \<Rightarrow> if e = Oob then Inl Oob else Inr None | Inr x \<Rightarrow> Inr (Some x))"

lemma safeE_try: "safeE m P \<Longrightarrow> safeE (tryE m) (\<lambda>r. case r of None \<Rightarrow> True | Some x \<Rightarrow> P x)"
  by (cases m) (auto simp: tryE_def safeE_def)

text \<open>
  A loop \<open>while ((rc >= 0) && (idx < end) && !stop)\<close>. The fuel is a bound on the number of
  rounds; a loop that used it up would return \<open>Oob\<close>, so that safety includes termination.
\<close>

fun der_while :: "nat \<Rightarrow> nat \<Rightarrow> ('s \<Rightarrow> bool) \<Rightarrow> (nat \<times> 's \<Rightarrow> wn_err + nat \<times> 's) \<Rightarrow> nat \<times> 's \<Rightarrow> wn_err + nat \<times> 's" where
  "der_while 0 en stop body (i, s) = (if i < en \<and> \<not> stop s then Inl Oob else Inr (i, s))"
| "der_while (Suc k) en stop body (i, s) =
     (if i < en \<and> \<not> stop s then bindE (body (i, s)) (der_while k en stop body) else Inr (i, s))"

lemma der_while_done: "\<not> (i < en \<and> \<not> stop s) \<Longrightarrow> der_while k en stop body (i, s) = Inr (i, s)"
  by (cases k) auto

text \<open>The contract of such a loop: an invariant, kept by a body that advances the index or stops.\<close>

locale der_loop =
  fixes inv :: "'e \<Rightarrow> nat \<Rightarrow> 's \<Rightarrow> bool" and en :: "'e \<Rightarrow> nat" and stop :: "'s \<Rightarrow> bool"
    and body :: "'e \<Rightarrow> nat \<times> 's \<Rightarrow> wn_err + nat \<times> 's"
  assumes step: "inv e i s \<Longrightarrow> i < en e \<Longrightarrow> \<not> stop s \<Longrightarrow> safeE (body e (i, s)) (\<lambda>(i', s'). (i < i' \<or> stop s') \<and> inv e i' s')"
begin

lemma loop_safe:
  "inv e i s \<Longrightarrow> en e - i \<le> k \<Longrightarrow>
   safeE (der_while k (en e) stop (body e) (i, s)) (\<lambda>(i', s'). inv e i' s' \<and> (en e \<le> i' \<or> stop s'))"
proof (induction k arbitrary: i s)
  case 0
  then show ?case by (auto simp: safeE_def)
next
  case (Suc k)
  show ?case
  proof (cases "i < en e \<and> \<not> stop s")
    case True
    have "safeE (bindE (body e (i, s)) (der_while k (en e) stop (body e)))
        (\<lambda>(i', s'). inv e i' s' \<and> (en e \<le> i' \<or> stop s'))"
    proof (rule safeE_bind [OF step [OF Suc.prems(1)]])
      fix x
      assume "case x of (i', s') \<Rightarrow> (i < i' \<or> stop s') \<and> inv e i' s'"
      then show "safeE (der_while k (en e) stop (body e) x) (\<lambda>(i', s'). inv e i' s' \<and> (en e \<le> i' \<or> stop s'))"
        using Suc.IH [of "fst x" "snd x"] Suc.prems(2)
        by (cases x; cases "stop (snd x)") (auto simp: der_while_done safeE_Inr)
    qed (use True in auto)
    then show ?thesis using True by simp
  next
    case False
    then show ?thesis using Suc.prems(1) by (auto simp: safeE_def)
  qed
qed

end

subsection \<open>The code\<close>

primrec len_octets :: "bytes \<Rightarrow> nat \<Rightarrow> nat \<Rightarrow> nat \<Rightarrow> wn_err + nat \<times> nat" where
  "len_octets inp 0 idx acc = Inr (idx, acc)"
| "len_octets inp (Suc n) idx acc =
     bindE (rd_byte inp idx) (\<lambda>b. len_octets inp n (u32 (idx + 1)) (acc * 256 + unat b))"

definition wn_Asn_GetLength :: "bytes \<Rightarrow> nat \<Rightarrow> nat \<Rightarrow> bool \<Rightarrow> wn_err + nat \<times> nat" where
  "wn_Asn_GetLength inp idx maxIdx check =
     (if u32 (idx + 1) > maxIdx then Inl E_X509_DECODE
      else bindE (rd_byte inp idx) (\<lambda>b.
        let idx1 = u32 (idx + 1) in
        bindE
          (if b \<ge> 0x80 then
             let n = unat (b AND 0x7F) in
             if n = 0 \<or> n > 3 \<or> u32 (idx1 + n) > maxIdx then Inl E_X509_DECODE
             else bindE (rd_byte inp idx1) (\<lambda>z.
               if z = 0 then Inl E_X509_DECODE
               else bindE (len_octets inp n idx1 0) (\<lambda>(idx2, len).
                 if len < 0x80 then Inl E_X509_DECODE else Inr (idx2, len)))
           else Inr (idx1, unat b))
          (\<lambda>(idx2, len). if check \<and> u32 (idx2 + len) > maxIdx then Inl E_X509_DECODE else Inr (idx2, len))))"

definition wn_Asn_GetHeader :: "bytes \<Rightarrow> byte \<Rightarrow> nat \<Rightarrow> nat \<Rightarrow> wn_err + nat \<times> nat" where
  "wn_Asn_GetHeader inp tag idx maxIdx =
     (if u32 (idx + 1) > maxIdx then Inl E_X509_DECODE
      else bindE (rd_byte inp idx) (\<lambda>t.
        if t \<noteq> tag then Inl E_X509_DECODE else wn_Asn_GetLength inp (u32 (idx + 1)) maxIdx True))"

definition wn_Asn_GetHeaderExact :: "bytes \<Rightarrow> byte \<Rightarrow> nat \<Rightarrow> nat \<Rightarrow> wn_err + nat \<times> nat" where
  "wn_Asn_GetHeaderExact inp tag idx maxIdx =
     bindE (wn_Asn_GetHeader inp tag idx maxIdx) (\<lambda>(i, len).
       if u32 (i + len) \<noteq> maxIdx then Inl E_X509_DECODE else Inr (i, len))"

text \<open>The result is the content's offset and length, and the index after the value.\<close>

definition wn_Asn_GetBitString :: "bytes \<Rightarrow> nat \<Rightarrow> nat \<Rightarrow> wn_err + nat \<times> nat \<times> nat" where
  "wn_Asn_GetBitString der idx en =
     bindE (wn_Asn_GetHeader der 0x03 idx en) (\<lambda>(i, len).
       if len < 1 then Inl E_X509_DECODE
       else bindE (rd_byte der i) (\<lambda>z.
         if z \<noteq> 0 then Inl E_X509_DECODE
         else Inr (u32 (i + 1), len - 1, u32 (u32 (i + 1) + (len - 1)))))"

definition wn_MemEq :: "bytes \<Rightarrow> nat \<Rightarrow> bytes \<Rightarrow> wn_err + bool" where
  "wn_MemEq a at want =
     (if at + length want \<le> length a then Inr (slice at (length want) a = want) else Inl Oob)"

definition wn_OidEq :: "bytes \<Rightarrow> nat \<Rightarrow> nat \<Rightarrow> bytes \<Rightarrow> wn_err + bool" where
  "wn_OidEq p at len want = (if len = length want then wn_MemEq p at want else Inr False)"

subsection \<open>The decoder accepts exactly the DER encoding of a length\<close>

definition enc_len :: "nat \<Rightarrow> bytes" where
  "enc_len n =
     (if n < 128 then [of_nat n]
      else if n < 256 then [0x81, of_nat n]
      else if n < 65536 then [0x82, of_nat (n div 256), of_nat n]
      else [0x83, of_nat (n div 65536), of_nat (n div 256), of_nat n])"

definition tlv :: "byte \<Rightarrow> bytes \<Rightarrow> bytes" where
  "tlv tag v = tag # enc_len (length v) @ v"

lemma length_enc_len: "1 \<le> length (enc_len n)" "length (enc_len n) \<le> 4"
  by (simp_all add: enc_len_def)

lemma div256: "b < 256 \<Longrightarrow> (a * 256 + b) div 256 = (a :: nat)"
  by simp

lemma byte_and_7f: "(b :: byte) \<ge> 0x80 \<Longrightarrow> unat (b AND 0x7F) = unat b - 128"
proof -
  assume "b \<ge> 0x80"
  then have a: "128 \<le> unat b" "unat b < 256" by (simp_all add: word_le_nat_alt)
  obtain k where k: "unat b = 128 + k" using le_Suc_ex [OF a(1)] by blast
  have m: "(0x7F :: byte) = mask 7" by (simp add: mask_eq_decr_exp)
  have "unat (b AND mask 7) = take_bit 7 (unat b)"
    unfolding take_bit_eq_mask [symmetric] by (rule unsigned_take_bit_eq)
  also have "\<dots> = unat b mod 128" by (simp add: take_bit_eq_mod)
  also have "\<dots> = unat b - 128" using a(2) unfolding k by simp
  finally show ?thesis unfolding m .
qed

lemma slice_Suc: "i < length xs \<Longrightarrow> slice i (Suc n) xs = xs ! i # slice (Suc i) n xs"
  by (simp add: slice_def Cons_nth_drop_Suc [symmetric])

lemma of_nat_bytes:
  "of_nat (unat (a :: byte) * 256 + unat (b :: byte)) = b"
  "of_nat ((unat (a :: byte) * 256 + unat (b :: byte)) * 256 + unat (c :: byte)) = c"
proof -
  have z: "(256 :: byte) = 0" "(65536 :: byte) = 0" by simp_all
  show "of_nat (unat a * 256 + unat b) = b" by (simp add: z)
  show "of_nat ((unat a * 256 + unat b) * 256 + unat c) = c" by (simp add: z)
qed

lemma of_nat_unat_byte: "of_nat (unat b) = (b :: byte)"
  by simp

lemma byte_shape: "(b :: byte) \<ge> 0x80 \<Longrightarrow> unat (b AND 0x7F) = n \<Longrightarrow> b = of_nat (128 + n)"
proof -
  assume a: "b \<ge> 0x80" "unat (b AND 0x7F) = n"
  then have "unat b = 128 + n"
    using byte_and_7f by (simp add: word_le_nat_alt)
  then show ?thesis by (metis of_nat_unat_byte)
qed

lemma len_octets_num:
  "len_octets inp 1 idx acc = bindE (rd_byte inp idx) (\<lambda>b. Inr (u32 (idx + 1), acc * 256 + unat b))"
  "len_octets inp 2 idx acc = bindE (rd_byte inp idx) (\<lambda>b. len_octets inp 1 (u32 (idx + 1)) (acc * 256 + unat b))"
  "len_octets inp 3 idx acc = bindE (rd_byte inp idx) (\<lambda>b. len_octets inp 2 (u32 (idx + 1)) (acc * 256 + unat b))"
  by (simp_all add: numeral_2_eq_2 numeral_3_eq_3)

text \<open>The header's octets, when the decoder succeeds.\<close>

lemma GetLength_sound:
  assumes "wn_Asn_GetLength inp idx maxIdx True = Inr (i, len)" "idx \<le> maxIdx" "maxIdx \<le> length inp"
    "length inp < 2147483648"
  shows "len < 16777216 \<and> i = idx + length (enc_len len) \<and> i + len \<le> maxIdx \<and>
    slice idx (length (enc_len len)) inp = enc_len len"
proof -
  have le: "idx + 1 \<le> maxIdx"
    using assms by (auto simp: wn_Asn_GetLength_def split: if_splits)
  define b where "b = inp ! idx"
  have rb: "rd_byte inp idx = Inr b" using le assms(3) by (simp add: b_def)
  have u1: "u32 (idx + 1) = idx + 1" using le assms(3,4) by simp
  show ?thesis
  proof (cases "b \<ge> 0x80")
    case False
    then have "unat b < 128" by (simp add: word_le_nat_alt)
    then show ?thesis
      using False assms le by (auto simp: wn_Asn_GetLength_def rb u1 Let_def enc_len_def slice_Suc b_def split: if_splits)
  next
    case True
    define n where "n = unat (b AND 0x7F)"
    have n: "0 < n" "n \<le> 3" "idx + 1 + n \<le> maxIdx" and nz: "inp ! (idx + 1) \<noteq> 0" and
      oc: "len_octets inp n (idx + 1) 0 = Inr (i, len)" "\<not> len < 128" "u32 (i + len) \<le> maxIdx"
      using assms(1,3,4) True le by (auto simp: wn_Asn_GetLength_def rb u1 Let_def n_def [symmetric] bindE_eq_Inr rd_byte_eq_Inr
          split: if_splits)
    have bn: "b = of_nat (128 + n)" by (rule byte_shape [OF True n_def [symmetric]])
    define c where "c = inp ! (idx + 1)"
    define d where "d = inp ! (idx + 2)"
    define f where "f = inp ! (idx + 3)"
    have c0: "0 < unat c" using nz by (simp add: c_def unat_gt_0)
    have lt: "unat c < 256" "unat d < 256" "unat f < 256" by simp_all
    have il: "i + len \<le> maxIdx" if "i + len < 4294967296" using that oc(3) by simp
    consider "n = 1" | "n = 2" | "n = 3" using n by linarith
    then show ?thesis
    proof cases
      case 1
      then have "i = idx + 2" "len = unat c"
        using oc(1) n(3) assms(3,4) by (auto simp: c_def)
      then have "i + len \<le> maxIdx \<and> len < 16777216"
        using il lt(1) n(3) assms(3,4) by linarith
      with \<open>i = idx + 2\<close> \<open>len = unat c\<close> show ?thesis
        using 1 bn oc(2) lt n(3) assms(3,4) il
        by (auto simp: enc_len_def slice_Suc b_def [symmetric] c_def)
    next
      case 2
      then have r: "i = idx + 3" "len = unat c * 256 + unat d"
        using oc(1) n(3) assms(3,4) by (auto simp: c_def d_def numeral_2_eq_2 numeral_3_eq_3)
      then have "len < 65536" "256 \<le> len" using lt c0 by linarith+
      moreover have "len div 256 = unat c" by (simp add: r(2))
      ultimately show ?thesis
        using 2 bn r n(3) assms(3,4) il of_nat_bytes(1) [of c d]
        by (auto simp: enc_len_def slice_Suc b_def [symmetric] c_def d_def)
    next
      case 3
      then have r: "i = idx + 4" "len = (unat c * 256 + unat d) * 256 + unat f"
        using oc(1) n(3) assms(3,4) by (auto simp: c_def d_def f_def numeral_2_eq_2 numeral_3_eq_3)
      then have "len = 65536 * unat c + 256 * unat d + unat f" by simp
      then have "len < 16777216" "65536 \<le> len" using lt c0 by linarith+
      moreover have "len div 256 = unat c * 256 + unat d"
        unfolding r(2) by (rule div256) (rule lt(3))
      moreover from this have "len div 65536 = unat c"
        using div_mult2_eq [of len 256 256] by simp
      ultimately have el: "enc_len len = [0x83, c, d, f]"
        using of_nat_bytes(1) [of c d] of_nat_bytes(2) [of c d f] r(2) by (simp add: enc_len_def)
      have b: "b = 0x83" using bn 3 by simp
      have "slice idx 4 inp = [0x83, c, d, f]"
        using n(3) 3 assms(3) b by (simp add: slice_Suc numeral_eq_Suc b_def c_def d_def f_def)
      moreover have "length (enc_len len) = 4" by (simp add: el)
      ultimately show ?thesis
        using el r(1) il \<open>len < 16777216\<close> n(3) assms(3,4) 3 by (simp only:)
    qed
  qed
qed

lemma GetLength_complete:
  assumes "len < 16777216" "i = idx + length (enc_len len)" "i + len \<le> maxIdx" "maxIdx \<le> length inp"
    "length inp < 2147483648" "slice idx (length (enc_len len)) inp = enc_len len"
  shows "wn_Asn_GetLength inp idx maxIdx True = Inr (i, len)"
proof -
  consider "len < 128" | "128 \<le> len" "len < 256" | "256 \<le> len" "len < 65536" | "65536 \<le> len" by linarith
  then show ?thesis
  proof cases
    case 1
    then have "inp ! idx = of_nat len" "i = idx + 1"
      using assms by (auto simp: enc_len_def slice_Suc)
    moreover have "\<not> 128 \<le> (of_nat len :: byte)" "unat (of_nat len :: byte) = len"
      using 1 by (simp_all add: word_le_nat_alt unat_of_nat_byte)
    ultimately show ?thesis
      using assms(3-5) by (simp add: wn_Asn_GetLength_def)
  next
    case 2
    then have "inp ! idx = 0x81" "inp ! (idx + 1) = of_nat len" "i = idx + 2"
      using assms by (auto simp: enc_len_def slice_Suc)
    moreover have "(of_nat len :: byte) \<noteq> 0" "unat (of_nat len :: byte) = len"
      using 2 by (auto simp: unat_of_nat_byte unat_eq_zero [symmetric] simp del: unat_eq_zero)
    ultimately show ?thesis
      using assms(3-5) 2 by (simp add: wn_Asn_GetLength_def)
  next
    case 3
    then have "inp ! idx = 0x82" "inp ! (idx + 1) = of_nat (len div 256)" "inp ! (idx + 2) = of_nat len" "i = idx + 3"
      using assms by (auto simp: enc_len_def slice_Suc)
    moreover have "(of_nat (len div 256) :: byte) \<noteq> 0" "unat (of_nat (len div 256) :: byte) * 256 + unat (of_nat len :: byte) = len"
      using 3 by (auto simp: unat_of_nat_byte unat_eq_zero [symmetric] simp del: unat_eq_zero)
    ultimately show ?thesis
      using assms(3-5) 3 by (simp add: wn_Asn_GetLength_def len_octets_num [simplified])
  next
    case 4
    then have "inp ! idx = 0x83" "inp ! (idx + 1) = of_nat (len div 65536)" "inp ! (idx + 2) = of_nat (len div 256)"
      "inp ! Suc (Suc (Suc idx)) = of_nat len" "i = idx + 4"
      using assms by (auto simp: enc_len_def slice_Suc numeral_3_eq_3 numeral_2_eq_2)
    moreover have "(of_nat (len div 65536) :: byte) \<noteq> 0"
      "(unat (of_nat (len div 65536) :: byte) * 256 + unat (of_nat (len div 256) :: byte)) * 256 + unat (of_nat len :: byte) = len"
      using 4 assms(1) div_mult2_eq [of len 256 256]
      by (auto simp: unat_of_nat_byte unat_eq_zero [symmetric] simp del: unat_eq_zero)
    ultimately show ?thesis
      using assms(3-5) 4 by (simp add: wn_Asn_GetLength_def len_octets_num [simplified])
  qed
qed

text \<open>The header decoder and the DER encoding of tag and length agree.\<close>

lemma GetHeader_iff:
  assumes "idx \<le> maxIdx" "maxIdx \<le> length inp" "length inp < 2147483648"
  shows "wn_Asn_GetHeader inp tag idx maxIdx = Inr (i, len) \<longleftrightarrow>
    len < 16777216 \<and> i = idx + 1 + length (enc_len len) \<and> i + len \<le> maxIdx \<and>
    slice idx (1 + length (enc_len len)) inp = tag # enc_len len"
proof
  assume h: "wn_Asn_GetHeader inp tag idx maxIdx = Inr (i, len)"
  then have le: "idx + 1 \<le> maxIdx" and t: "inp ! idx = tag" and g: "wn_Asn_GetLength inp (idx + 1) maxIdx True = Inr (i, len)"
    using assms by (auto simp: wn_Asn_GetHeader_def bindE_eq_Inr rd_byte_eq_Inr split: if_splits)
  show "len < 16777216 \<and> i = idx + 1 + length (enc_len len) \<and> i + len \<le> maxIdx \<and>
    slice idx (1 + length (enc_len len)) inp = tag # enc_len len"
    using GetLength_sound [OF g le assms(2,3)] t le assms(2) by (simp add: slice_Suc)
next
  assume r: "len < 16777216 \<and> i = idx + 1 + length (enc_len len) \<and> i + len \<le> maxIdx \<and>
    slice idx (1 + length (enc_len len)) inp = tag # enc_len len"
  then have le: "idx + 1 \<le> maxIdx" by simp
  have "idx < length inp" using le assms(2) by simp
  then have t: "inp ! idx = tag" "slice (idx + 1) (length (enc_len len)) inp = enc_len len"
    using r by (simp_all add: slice_Suc)
  show "wn_Asn_GetHeader inp tag idx maxIdx = Inr (i, len)"
    using GetLength_complete [of len i "idx + 1" maxIdx inp] r t le assms by (simp add: wn_Asn_GetHeader_def)
qed

subsection \<open>Contracts of the primitives\<close>

text \<open>\<open>hdr_at inp tag idx en i len\<close>: a header of this tag stands at \<open>idx\<close>, its value is \<open>len\<close> bytes
  from \<open>i\<close> on and ends by \<open>en\<close>.\<close>

definition hdr_at :: "bytes \<Rightarrow> byte \<Rightarrow> nat \<Rightarrow> nat \<Rightarrow> nat \<Rightarrow> nat \<Rightarrow> bool" where
  "hdr_at inp tag idx en i len \<longleftrightarrow> len < 16777216 \<and> i = idx + 1 + length (enc_len len) \<and> i + len \<le> en \<and>
     slice idx (1 + length (enc_len len)) inp = tag # enc_len len"

lemma hdr_atD: "hdr_at inp tag idx en i len \<Longrightarrow> idx + 2 \<le> i \<and> i \<le> idx + 5 \<and> i + len \<le> en \<and> len < 16777216"
  using length_enc_len [of len] by (simp add: hdr_at_def)

text \<open>The bound a caller gives is inside the buffer: the standing hypothesis.\<close>

definition der_ok :: "bytes \<Rightarrow> nat \<Rightarrow> bool" where
  "der_ok inp en \<longleftrightarrow> en \<le> length inp \<and> length inp < 2147483648"

lemma safe_len_octets: "idx + n \<le> length inp \<Longrightarrow> length inp < 2147483648 \<Longrightarrow> safeE (len_octets inp n idx acc) (\<lambda>_. True)"
  by (induction n arbitrary: idx acc) (auto simp: safeE_def)

lemma safe_GetLength:
  assumes "en \<le> length inp" "length inp < 2147483648" "idx \<le> en"
  shows "safeE (wn_Asn_GetLength inp idx en True) (\<lambda>_. True)"
proof -
  have oct: "safeE (if b \<ge> 0x80 then
             let n = unat (b AND 0x7F) in
             if n = 0 \<or> n > 3 \<or> u32 (u32 (idx + 1) + n) > en then Inl E_X509_DECODE
             else bindE (rd_byte inp (u32 (idx + 1))) (\<lambda>z.
               if z = 0 then Inl E_X509_DECODE
               else bindE (len_octets inp n (u32 (idx + 1)) 0) (\<lambda>(idx2, len).
                 if len < 0x80 then Inl E_X509_DECODE else Inr (idx2, len)))
           else Inr (u32 (idx + 1), unat b)) (\<lambda>_. True)" if "idx + 1 \<le> en" for b :: byte
  proof -
    define n where "n = unat (b AND 0x7F)"
    have "safeE (bindE (len_octets inp n (u32 (idx + 1)) 0) (\<lambda>(idx2, len).
                 if len < 0x80 then Inl E_X509_DECODE else Inr (idx2, len))) (\<lambda>_. True)"
      if "n \<le> 3" "u32 (u32 (idx + 1) + n) \<le> en"
      using that \<open>idx + 1 \<le> en\<close> assms
      by (intro safeE_bind [OF safe_len_octets]) (auto split: prod.split intro!: safe_rules)
    then show ?thesis
      unfolding Let_def n_def [symmetric] using that assms by (auto intro!: safe_rules safeE_rd_bind)
  qed
  show ?thesis
    using assms unfolding wn_Asn_GetLength_def Let_def
    by (intro safe_rules safeE_rd_bind safeE_bind [OF oct [unfolded Let_def]]) (auto split: prod.split intro!: safe_rules)
qed

lemma safe_GetHeader:
  assumes "der_ok inp en" "idx \<le> en"
  shows "safeE (wn_Asn_GetHeader inp tag idx en) (\<lambda>(i, len). hdr_at inp tag idx en i len)"
proof -
  have b: "en \<le> length inp" "length inp < 2147483648" using assms(1) by (simp_all add: der_ok_def)
  have "safeE (wn_Asn_GetHeader inp tag idx en) (\<lambda>_. True)"
  proof (cases "idx + 1 \<le> en")
    case True
    then show ?thesis
      using b safe_GetLength [OF b True] unfolding wn_Asn_GetHeader_def by (simp add: safeE_Inl)
  next
    case False
    then show ?thesis
      using b assms(2) unfolding wn_Asn_GetHeader_def by (simp add: safeE_Inl)
  qed
  then show ?thesis
  proof (rule safeE_conseq)
    fix x
    assume "wn_Asn_GetHeader inp tag idx en = Inr x"
    then show "case x of (i, len) \<Rightarrow> hdr_at inp tag idx en i len"
      using GetHeader_iff [OF assms(2) b, of tag "fst x" "snd x"] by (cases x) (simp add: hdr_at_def)
  qed
qed

lemma safe_hdr_bind:
  assumes "der_ok inp en" "idx \<le> en" "\<And>i len. hdr_at inp tag idx en i len \<Longrightarrow> safeE (f (i, len)) P"
  shows "safeE (bindE (wn_Asn_GetHeader inp tag idx en) f) P"
  by (rule safeE_bind [OF safe_GetHeader [OF assms(1,2)]]) (use assms(3) in auto)

lemma safe_GetHeaderExact:
  assumes "der_ok inp en" "idx \<le> en"
  shows "safeE (wn_Asn_GetHeaderExact inp tag idx en) (\<lambda>(i, len). hdr_at inp tag idx en i len \<and> i + len = en)"
  unfolding wn_Asn_GetHeaderExact_def
proof (rule safe_hdr_bind [OF assms], unfold prod.case)
  fix i len
  assume h: "hdr_at inp tag idx en i len"
  then show "safeE (if u32 (i + len) \<noteq> en then Inl E_X509_DECODE else Inr (i, len))
      (\<lambda>(i, len). hdr_at inp tag idx en i len \<and> i + len = en)"
    using hdr_atD [OF h] assms(1) by (auto simp: der_ok_def intro!: safe_rules)
qed

lemma safe_GetBitString:
  assumes "der_ok inp en" "idx \<le> en"
  shows "safeE (wn_Asn_GetBitString inp idx en) (\<lambda>(off, n, i). hdr_at inp 0x03 idx en (off - 1) (n + 1) \<and>
    0 < off \<and> inp ! (off - 1) = 0 \<and> i = off + n)"
  unfolding wn_Asn_GetBitString_def
proof (rule safe_hdr_bind [OF assms], unfold prod.case)
  fix i len
  assume h: "hdr_at inp 0x03 idx en i len"
  note b = hdr_atD [OF h]
  show "safeE (if len < 1 then Inl E_X509_DECODE
       else bindE (rd_byte inp i) (\<lambda>z. if z \<noteq> 0 then Inl E_X509_DECODE
         else Inr (u32 (i + 1), len - 1, u32 (u32 (i + 1) + (len - 1)))))
    (\<lambda>(off, n, i). hdr_at inp 0x03 idx en (off - 1) (n + 1) \<and> 0 < off \<and> inp ! (off - 1) = 0 \<and> i = off + n)"
    using h b assms(1) by (auto simp: der_ok_def intro!: safe_rules safeE_rd_bind)
qed

lemma safe_MemEq: "at + length want \<le> length a \<Longrightarrow> safeE (wn_MemEq a at want) (\<lambda>b. b \<longleftrightarrow> slice at (length want) a = want)"
  by (simp add: wn_MemEq_def safeE_def)

lemma safe_OidEq: "at + len \<le> length p \<Longrightarrow> safeE (wn_OidEq p at len want) (\<lambda>b. b \<longleftrightarrow> slice at len p = want)"
  by (auto simp: wn_OidEq_def wn_MemEq_def safeE_def)

end
