(* ===== verification/X509.thy ===== *)
theory X509
  imports Der Config
begin

section \<open>The X.509 parser (wn_x509.c)\<close>

text \<open>
  A certificate is parsed in place: \<open>wn_X509_Parse\<close> fills a record of offsets into the DER
  buffer. On an error the source zeroes the record, so the result is the error alone.
  Indices are 32-bit, \<open>u32\<close> marks every addition. The build's switches (\<open>WOLFNANO_X509_HOSTNAME\<close>
  and the others) are fields of \<open>build\<close>.
\<close>

subsection \<open>Algorithms and their object identifiers\<close>

datatype x509_key = KEY_UNKNOWN | KEY_ECDSA | KEY_RSA | KEY_ED25519
datatype x509_curve = CURVE_NONE | CURVE_P256 | CURVE_P384
datatype x509_sig =
    SIG_UNKNOWN | SIG_ECDSA_SHA256 | SIG_ECDSA_SHA384 | SIG_RSA_SHA256 | SIG_RSA_SHA384 | SIG_RSA_SHA512 | SIG_ED25519

text \<open>An \<open>if / else if\<close> chain of \<open>wn_OidEq\<close> tests.\<close>

primrec oid_chain :: "bytes \<Rightarrow> nat \<Rightarrow> nat \<Rightarrow> 'a \<Rightarrow> (bytes \<times> 'a) list \<Rightarrow> wn_err + 'a" where
  "oid_chain der at len dflt [] = Inr dflt"
| "oid_chain der at len dflt (t # ts) =
     bindE (wn_OidEq der at len (fst t)) (\<lambda>b. if b then Inr (snd t) else oid_chain der at len dflt ts)"

definition key_oids :: "build \<Rightarrow> (bytes \<times> x509_key) list" where
  "key_oids B =
     [([0x2A, 0x86, 0x48, 0xCE, 0x3D, 0x02, 0x01], KEY_ECDSA)] @
     (if have_rsa B then [([0x2A, 0x86, 0x48, 0x86, 0xF7, 0x0D, 0x01, 0x01, 0x01], KEY_RSA)] else []) @
     (if have_ed25519 B then [([0x2B, 0x65, 0x70], KEY_ED25519)] else [])"

definition curve_oids :: "build \<Rightarrow> (bytes \<times> x509_curve) list" where
  "curve_oids B =
     [([0x2A, 0x86, 0x48, 0xCE, 0x3D, 0x03, 0x01, 0x07], CURVE_P256)] @
     (if have_ecc384 B then [([0x2B, 0x81, 0x04, 0x00, 0x22], CURVE_P384)] else [])"

definition sig_oids :: "build \<Rightarrow> (bytes \<times> x509_sig) list" where
  "sig_oids B =
     [([0x2A, 0x86, 0x48, 0xCE, 0x3D, 0x04, 0x03, 0x02], SIG_ECDSA_SHA256)] @
     (if have_ecc384 B \<and> have_sha384_sig B
      then [([0x2A, 0x86, 0x48, 0xCE, 0x3D, 0x04, 0x03, 0x03], SIG_ECDSA_SHA384)] else []) @
     (if have_rsa B then [([0x2A, 0x86, 0x48, 0x86, 0xF7, 0x0D, 0x01, 0x01, 0x0B], SIG_RSA_SHA256)] else []) @
     (if have_rsa B \<and> have_sha384_sig B
      then [([0x2A, 0x86, 0x48, 0x86, 0xF7, 0x0D, 0x01, 0x01, 0x0C], SIG_RSA_SHA384)] else []) @
     (if have_rsa B \<and> have_sha512_sig B
      then [([0x2A, 0x86, 0x48, 0x86, 0xF7, 0x0D, 0x01, 0x01, 0x0D], SIG_RSA_SHA512)] else []) @
     (if have_ed25519 B then [([0x2B, 0x65, 0x70], SIG_ED25519)] else [])"

definition wn_KeyAlgFromOid :: "build \<Rightarrow> bytes \<Rightarrow> nat \<Rightarrow> nat \<Rightarrow> wn_err + x509_key" where
  "wn_KeyAlgFromOid B p at len = oid_chain p at len KEY_UNKNOWN (key_oids B)"

definition wn_CurveFromOid :: "build \<Rightarrow> bytes \<Rightarrow> nat \<Rightarrow> nat \<Rightarrow> wn_err + x509_curve" where
  "wn_CurveFromOid B p at len = oid_chain p at len CURVE_NONE (curve_oids B)"

definition wn_SigAlgFromOid :: "build \<Rightarrow> bytes \<Rightarrow> nat \<Rightarrow> nat \<Rightarrow> wn_err + x509_sig" where
  "wn_SigAlgFromOid B p at len = oid_chain p at len SIG_UNKNOWN (sig_oids B)"

definition wn_SigAlgNoParams :: "x509_sig \<Rightarrow> bool" where
  "wn_SigAlgNoParams a = (a = SIG_ECDSA_SHA256 \<or> a = SIG_ECDSA_SHA384 \<or> a = SIG_ED25519)"

definition wn_SigAlgIsRsa :: "x509_sig \<Rightarrow> bool" where
  "wn_SigAlgIsRsa a = (a = SIG_RSA_SHA256 \<or> a = SIG_RSA_SHA384 \<or> a = SIG_RSA_SHA512)"

text \<open>The result is the index after the identifiers, the key type and the curve.\<close>

definition wn_ParseAlgIdOids :: "build \<Rightarrow> bytes \<Rightarrow> nat \<Rightarrow> nat \<Rightarrow> wn_err + nat \<times> x509_key \<times> x509_curve" where
  "wn_ParseAlgIdOids B der idx algEnd =
     bindE (wn_Asn_GetHeader der 0x06 idx algEnd) (\<lambda>(i, oidLen).
     bindE (wn_KeyAlgFromOid B der i oidLen) (\<lambda>alg.
       let i1 = u32 (i + oidLen) in
       if alg = KEY_ECDSA then
         bindE (wn_Asn_GetHeader der 0x06 i1 algEnd) (\<lambda>(j, oidLen).
         bindE (wn_CurveFromOid B der j oidLen) (\<lambda>curve.
           let j1 = u32 (j + oidLen) in
           if j1 \<noteq> algEnd then Inl E_X509_DECODE else Inr (j1, alg, curve)))
       else if alg = KEY_RSA then
         bindE (wn_Asn_GetHeader der 0x05 i1 algEnd) (\<lambda>(j, oidLen).
           if oidLen \<noteq> 0 \<or> j \<noteq> algEnd then Inl E_X509_DECODE else Inr (j, alg, CURVE_NONE))
       else if alg = KEY_ED25519 then
         if i1 \<noteq> algEnd then Inl E_X509_DECODE else Inr (i1, alg, CURVE_NONE)
       else Inr (i1, alg, CURVE_NONE)))"

subsection \<open>SubjectPublicKeyInfo on its own\<close>

definition wn_X509_SpkiRawKey :: "bytes option \<Rightarrow> wn_err + nat \<times> nat" where
  "wn_X509_SpkiRawKey spki =
     (case spki of None \<Rightarrow> Inl E_INVALID_ARG
      | Some s \<Rightarrow>
        bindE (wn_Asn_GetHeader s 0x30 0 (length s)) (\<lambda>(i, len).
        bindE (wn_Asn_GetHeader s 0x30 i (length s)) (\<lambda>(j, algLen).
        bindE (wn_Asn_GetBitString s (u32 (j + algLen)) (length s)) (\<lambda>(key, keyLen, _).
          Inr (key, keyLen)))))"

definition wn_X509_SpkiKeyInfo :: "build \<Rightarrow> bytes option \<Rightarrow> wn_err + x509_key \<times> x509_curve" where
  "wn_X509_SpkiKeyInfo B spki =
     (case spki of None \<Rightarrow> Inl E_INVALID_ARG
      | Some s \<Rightarrow>
        bindE (wn_Asn_GetHeader s 0x30 0 (length s)) (\<lambda>(i, len).
        bindE (wn_Asn_GetHeader s 0x30 i (length s)) (\<lambda>(j, algLen).
        bindE (wn_ParseAlgIdOids B s j (u32 (j + algLen))) (\<lambda>(_, keyAlg, curve).
          Inr (keyAlg, curve)))))"

text \<open>\<open>wn_X509_RsaRawNE\<close>: modulus and exponent of an RSAPublicKey, as offset and length.\<close>

definition positive_int :: "bytes \<Rightarrow> nat \<Rightarrow> nat \<Rightarrow> wn_err + nat \<times> nat" where
  "positive_int inp idx seqEnd =
     (case wn_Asn_GetHeader inp 0x02 idx seqEnd of
        Inl e \<Rightarrow> Inl (if e = Oob then Oob else E_X509_DECODE)
      | Inr (i, len) \<Rightarrow>
          if len < 1 then Inl E_X509_DECODE
          else bindE (rd_byte inp i) (\<lambda>b. if b AND 0x80 \<noteq> 0 then Inl E_X509_DECODE else Inr (i, len)))"

definition wn_X509_RsaRawNE :: "bytes option \<Rightarrow> wn_err + (nat \<times> nat) \<times> (nat \<times> nat)" where
  "wn_X509_RsaRawNE m =
     (case m of None \<Rightarrow> Inl E_INVALID_ARG
      | Some inp \<Rightarrow>
        bindE (wn_Asn_GetHeader inp 0x30 0 (length inp)) (\<lambda>(i, len).
          let seqEnd = u32 (i + len) in
          if seqEnd \<noteq> length inp then Inl E_X509_DECODE
          else bindE (positive_int inp i seqEnd) (\<lambda>(n, nLen).
               bindE (positive_int inp (u32 (n + nLen)) seqEnd) (\<lambda>(e, eLen).
                 if u32 (e + eLen) \<noteq> seqEnd then Inl E_X509_DECODE else Inr ((n, nLen), (e, eLen))))))"

subsection \<open>The certificate\<close>

record x509_cert =
  c_tbs :: "nat option"
  c_tbsLen :: nat
  c_sig :: "nat option"
  c_sigLen :: nat
  c_pubKey :: "nat option"
  c_pubKeyLen :: nat
  c_spki :: "nat option"
  c_spkiLen :: nat
  c_notBefore :: "nat option"
  c_notBeforeLen :: nat
  c_notAfter :: "nat option"
  c_notAfterLen :: nat
  c_subjectCN :: "nat option"
  c_subjectCNLen :: nat
  c_sigAlg :: x509_sig
  c_keyAlg :: x509_key
  c_curve :: x509_curve
  c_flags :: word16
  c_keyUsage :: word16
  c_extKeyUsage :: word16
  c_san :: "(nat \<times> nat) list"   \<comment> \<open>the first \<open>sanCount\<close> entries of \<open>san\<close>\<close>

definition x509_zero :: x509_cert where
  "x509_zero =
     \<lparr>c_tbs = None, c_tbsLen = 0, c_sig = None, c_sigLen = 0, c_pubKey = None, c_pubKeyLen = 0,
      c_spki = None, c_spkiLen = 0, c_notBefore = None, c_notBeforeLen = 0, c_notAfter = None, c_notAfterLen = 0,
      c_subjectCN = None, c_subjectCNLen = 0, c_sigAlg = SIG_UNKNOWN, c_keyAlg = KEY_UNKNOWN, c_curve = CURVE_NONE,
      c_flags = 0, c_keyUsage = 0, c_extKeyUsage = 0, c_san = []\<rparr>"

definition WN_X509_MAX_SAN :: nat where
  "WN_X509_MAX_SAN = 16"

definition WN_X509_MAX_DNS_NAME :: nat where
  "WN_X509_MAX_DNS_NAME = 255"

text \<open>A Time: its whole TLV, whose length the record keeps in 16 bits.\<close>

definition wn_GetTime :: "bytes \<Rightarrow> nat \<Rightarrow> nat \<Rightarrow> wn_err + nat \<times> nat \<times> nat" where
  "wn_GetTime der idx maxIdx =
     (if idx \<ge> maxIdx then Inl E_X509_DECODE
      else bindE (rd_byte der idx) (\<lambda>tag.
        if tag \<noteq> 0x17 \<and> tag \<noteq> 0x18 then Inl E_X509_DECODE
        else bindE (wn_Asn_GetHeader der tag idx maxIdx) (\<lambda>(i, len).
          Inr (idx, u32 (u32_sub i idx + len) mod 65536, u32 (i + len)))))"

subsection \<open>The common name\<close>

definition wn_HasNul :: "bytes \<Rightarrow> nat \<Rightarrow> nat \<Rightarrow> wn_err + bool" where
  "wn_HasNul p at n = (if at + n \<le> length p then Inr (0 \<in> set (slice at n p)) else Inl Oob)"

definition cn_value :: "bytes \<Rightarrow> nat \<Rightarrow> nat \<Rightarrow> (nat \<times> nat) option \<Rightarrow> wn_err + (nat \<times> nat) option" where
  "cn_value der idx atvEnd cn =
     (if idx < atvEnd then
        bindE (rd_byte der idx) (\<lambda>valTag.
          if valTag = 0x0C \<or> valTag = 0x13 \<or> valTag = 0x14 \<or> valTag = 0x16 then
            bindE (tryE (wn_Asn_GetHeader der valTag idx atvEnd)) (\<lambda>h. case h of
              None \<Rightarrow> Inr cn
            | Some (i, valLen) \<Rightarrow>
                if 1 \<le> valLen \<and> valLen \<le> WN_X509_MAX_DNS_NAME
                then bindE (wn_HasNul der i valLen) (\<lambda>nul. Inr (if nul then cn else Some (i, valLen)))
                else Inr cn)
          else Inr cn)
      else Inr cn)"

text \<open>
  The two nested loops. The state is the name found and whether a \<open>break\<close> was taken; both end
  the loop.
\<close>

definition cn_stop :: "(nat \<times> nat) option \<times> bool \<Rightarrow> bool" where
  "cn_stop s = (fst s \<noteq> None \<or> snd s)"

definition cn_atv :: "bytes \<Rightarrow> nat \<Rightarrow> nat \<times> (nat \<times> nat) option \<times> bool \<Rightarrow> wn_err + nat \<times> (nat \<times> nat) option \<times> bool" where
  "cn_atv der rdnEnd st = (case st of (idx, cn, _) \<Rightarrow>
     bindE (tryE (wn_Asn_GetHeader der 0x30 idx rdnEnd)) (\<lambda>h. case h of
       None \<Rightarrow> Inr (idx, cn, True)
     | Some (i, atvLen) \<Rightarrow>
         let atvEnd = u32 (i + atvLen) in
         bindE (tryE (wn_Asn_GetHeader der 0x06 i atvEnd)) (\<lambda>h. case h of
           None \<Rightarrow> Inr (i, cn, True)
         | Some (j, oidLen) \<Rightarrow>
             bindE (wn_OidEq der j oidLen [0x55, 0x04, 0x03]) (\<lambda>isCN.
             bindE (if isCN then cn_value der (u32 (j + oidLen)) atvEnd cn else Inr cn) (\<lambda>cn'.
               Inr (atvEnd, cn', False))))))"

definition cn_rdn :: "bytes \<Rightarrow> nat \<Rightarrow> nat \<times> (nat \<times> nat) option \<times> bool \<Rightarrow> wn_err + nat \<times> (nat \<times> nat) option \<times> bool" where
  "cn_rdn der en st = (case st of (idx, cn, _) \<Rightarrow>
     bindE (tryE (wn_Asn_GetHeader der 0x31 idx en)) (\<lambda>h. case h of
       None \<Rightarrow> Inr (idx, cn, True)
     | Some (i, rdnLen) \<Rightarrow>
         let rdnEnd = u32 (i + rdnLen) in
         bindE (der_while rdnEnd rdnEnd cn_stop (cn_atv der rdnEnd) (i, cn, False)) (\<lambda>(_, cn', _).
           Inr (rdnEnd, cn', False))))"

definition wn_FindCN :: "bytes \<Rightarrow> nat \<Rightarrow> nat \<Rightarrow> wn_err + (nat \<times> nat) option" where
  "wn_FindCN der idx en =
     bindE (der_while en en cn_stop (cn_rdn der en) (idx, None, False)) (\<lambda>(_, cn, _). Inr cn)"

end
