(* ===== verification/X509Parse.thy ===== *)
theory X509Parse
  imports X509
begin

section \<open>Extensions and the certificate parser (wn_x509.c)\<close>

text \<open>
  The four recognised extensions, the walk over the extensions block, and \<open>wn_X509_Parse\<close> cut
  at the fields of the tbsCertificate. Each extension handler gets the certificate so far and
  returns it updated.
\<close>

subsection \<open>The recognised extensions\<close>

definition set_flags :: "word16 \<Rightarrow> word16 \<Rightarrow> bool \<Rightarrow> x509_cert \<Rightarrow> x509_cert" where
  "set_flags f fcrit crit cert =
     cert\<lparr>c_flags := c_flags cert OR f OR (if crit then fcrit else 0)\<rparr>"

definition bc_ca :: "bytes \<Rightarrow> nat \<Rightarrow> nat \<Rightarrow> x509_cert \<Rightarrow> wn_err + nat \<times> x509_cert" where
  "bc_ca der idx e cert =
     (if idx < e then
        bindE (rd_byte der idx) (\<lambda>t.
          if t = 0x01 then
            bindE (wn_Asn_GetHeader der 0x01 idx e) (\<lambda>(i, bLen).
              if bLen \<noteq> 1 then Inl E_X509_DECODE
              else bindE (rd_byte der i) (\<lambda>v.
                if v = 0xFF then Inr (u32 (i + bLen), cert\<lparr>c_flags := c_flags cert OR 0x0001\<rparr>)
                else Inl E_X509_DECODE))
          else Inr (idx, cert))
      else Inr (idx, cert))"

definition wn_ExtBasicConstraints ::
  "build \<Rightarrow> bytes \<Rightarrow> nat \<Rightarrow> nat \<Rightarrow> x509_cert \<Rightarrow> bool \<Rightarrow> wn_err + x509_cert" where
  "wn_ExtBasicConstraints B der idx en cert crit =
     bindE (wn_Asn_GetHeader der 0x30 idx en) (\<lambda>(i, seqLen).
       let e = u32 (i + seqLen) in
       if e \<noteq> en then Inl E_X509_DECODE
       else bindE (bc_ca der i e (set_flags 0x0002 0x0004 crit cert)) (\<lambda>(j, cert1).
            bindE (if x509_pathlen B \<and> j < e
                   then bindE (wn_Asn_GetHeader der 0x02 j e) (\<lambda>(k, bLen). Inr (u32 (k + bLen)))
                   else Inr j) (\<lambda>k.
              if k \<noteq> e then Inl E_X509_DECODE else Inr cert1)))"

definition ku_padding :: "bytes \<Rightarrow> nat \<Rightarrow> nat \<Rightarrow> byte \<Rightarrow> wn_err + unit" where
  "ku_padding der idx kuLen unused =
     (if kuLen \<ge> 2 then
        bindE (rd_byte der (u32_sub (u32 (idx + kuLen)) 1)) (\<lambda>last.
          guardE (last AND (push_bit (unat unused) 1 - 1) = 0) E_X509_DECODE)
      else Inr ())"

definition ku_bits :: "bytes \<Rightarrow> nat \<Rightarrow> nat \<Rightarrow> word16 \<Rightarrow> wn_err + word16" where
  "ku_bits der idx kuLen ku =
     bindE (if kuLen \<ge> 2 then bindE (rd_byte der (u32 (idx + 1))) (\<lambda>b. Inr (ucast b)) else Inr ku) (\<lambda>ku1.
       if kuLen \<ge> 3 then bindE (rd_byte der (u32 (idx + 2))) (\<lambda>b. Inr (ku1 OR push_bit 8 (ucast b)))
       else Inr ku1)"

definition wn_ExtKeyUsage :: "bytes \<Rightarrow> nat \<Rightarrow> nat \<Rightarrow> x509_cert \<Rightarrow> bool \<Rightarrow> wn_err + x509_cert" where
  "wn_ExtKeyUsage der idx en cert crit =
     bindE (wn_Asn_GetHeaderExact der 0x03 idx en) (\<lambda>(i, kuLen).
       if kuLen < 1 then Inl E_X509_DECODE
       else bindE (rd_byte der i) (\<lambda>unused.
         if unused > 7 then Inl E_X509_DECODE
         else bindE (ku_padding der i kuLen unused) (\<lambda>_.
              bindE (ku_bits der i kuLen (c_keyUsage cert)) (\<lambda>ku.
                if ku = 0 then Inl E_X509_DECODE
                else Inr ((set_flags 0x0010 0x0020 crit cert)\<lparr>c_keyUsage := ku\<rparr>)))))"

definition eku_step :: "bytes \<Rightarrow> nat \<Rightarrow> nat \<times> x509_cert \<Rightarrow> wn_err + nat \<times> x509_cert" where
  "eku_step der e st = (case st of (idx, cert) \<Rightarrow>
     bindE (wn_Asn_GetHeader der 0x06 idx e) (\<lambda>(i, oidLen).
     bindE (oid_chain der i oidLen 0
              [([0x2B, 0x06, 0x01, 0x05, 0x05, 0x07, 0x03, 0x01], 0x02), ([0x55, 0x1D, 0x25, 0x00], 0x01)]) (\<lambda>use.
       Inr (u32 (i + oidLen), cert\<lparr>c_extKeyUsage := c_extKeyUsage cert OR use\<rparr>))))"

definition wn_ExtExtKeyUsage :: "bytes \<Rightarrow> nat \<Rightarrow> nat \<Rightarrow> x509_cert \<Rightarrow> bool \<Rightarrow> wn_err + x509_cert" where
  "wn_ExtExtKeyUsage der idx en cert crit =
     bindE (wn_Asn_GetHeader der 0x30 idx en) (\<lambda>(i, seqLen).
       let e = u32 (i + seqLen) in
       if e \<noteq> en \<or> seqLen = 0 then Inl E_X509_DECODE
       else bindE (der_while e e (\<lambda>_. False) (eku_step der e) (i, set_flags 0x0040 0x0080 crit cert)) (\<lambda>(_, cert1).
              Inr cert1))"

definition san_step :: "bytes \<Rightarrow> nat \<Rightarrow> nat \<times> x509_cert \<Rightarrow> wn_err + nat \<times> x509_cert" where
  "san_step der e st = (case st of (idx, cert) \<Rightarrow>
     bindE (rd_byte der idx) (\<lambda>tag.
     bindE (wn_Asn_GetHeader der tag idx e) (\<lambda>(i, nameLen).
     bindE (if tag = 0x82 then
              if nameLen < 1 \<or> nameLen > WN_X509_MAX_DNS_NAME then Inl E_X509_DECODE
              else bindE (wn_HasNul der i nameLen) (\<lambda>nul.
                if nul then Inl E_X509_DECODE
                else Inr (if length (c_san cert) < WN_X509_MAX_SAN
                          then cert\<lparr>c_san := c_san cert @ [(i, nameLen)]\<rparr> else cert))
            else Inr cert) (\<lambda>cert1.
       Inr (u32 (i + nameLen), cert1)))))"

definition wn_ExtAltName :: "bytes \<Rightarrow> nat \<Rightarrow> nat \<Rightarrow> x509_cert \<Rightarrow> bool \<Rightarrow> wn_err + x509_cert" where
  "wn_ExtAltName der idx en cert crit =
     bindE (wn_Asn_GetHeader der 0x30 idx en) (\<lambda>(i, seqLen).
       let e = u32 (i + seqLen) in
       if e \<noteq> en \<or> seqLen = 0 then Inl E_X509_DECODE
       else bindE (der_while e e (\<lambda>_. False) (san_step der e) (i, set_flags 0x0100 0x0200 crit cert)) (\<lambda>(_, cert1).
              Inr cert1))"

subsection \<open>The extensions block\<close>

text \<open>The header of one Extension, and its criticality.\<close>

definition ext_critical :: "bytes \<Rightarrow> nat \<Rightarrow> nat \<Rightarrow> wn_err + nat \<times> bool" where
  "ext_critical der idx exEnd =
     (if idx < exEnd then
        bindE (rd_byte der idx) (\<lambda>t.
          if t = 0x01 then
            bindE (wn_Asn_GetHeader der 0x01 idx exEnd) (\<lambda>(i, bLen).
              if bLen \<noteq> 1 then Inl E_X509_DECODE
              else bindE (rd_byte der i) (\<lambda>v.
                if v \<noteq> 0xFF then Inl E_X509_DECODE else Inr (u32 (i + bLen), True)))
          else Inr (idx, False))
      else Inr (idx, False))"

record x509_ext =
  x_end :: nat
  x_oidAt :: nat
  x_oidLen :: nat
  x_crit :: bool
  x_val :: nat
  x_valLen :: nat

definition ext_head :: "bytes \<Rightarrow> nat \<Rightarrow> nat \<Rightarrow> wn_err + x509_ext" where
  "ext_head der idx extEnd =
     bindE (wn_Asn_GetHeader der 0x30 idx extEnd) (\<lambda>(i, len).
       let exEnd = u32 (i + len) in
     bindE (wn_Asn_GetHeader der 0x06 i exEnd) (\<lambda>(oidAt, oidLen).
     bindE (ext_critical der (u32 (oidAt + oidLen)) exEnd) (\<lambda>(k, crit).
     bindE (wn_Asn_GetHeader der 0x04 k exEnd) (\<lambda>(v, valLen).
       if u32 (v + valLen) \<noteq> exEnd then Inl E_X509_DECODE
       else Inr \<lparr>x_end = exEnd, x_oidAt = oidAt, x_oidLen = oidLen, x_crit = crit, x_val = v, x_valLen = valLen\<rparr>))))"

datatype ext_kind = EXT_BC | EXT_KU | EXT_EKU | EXT_SAN

fun seen_bit :: "ext_kind \<Rightarrow> word16" where
  "seen_bit EXT_BC = 0x01"
| "seen_bit EXT_KU = 0x02"
| "seen_bit EXT_EKU = 0x04"
| "seen_bit EXT_SAN = 0x08"

definition ext_oids :: "(bytes \<times> ext_kind option) list" where
  "ext_oids = [([0x55, 0x1D, 0x13], Some EXT_BC), ([0x55, 0x1D, 0x0F], Some EXT_KU),
     ([0x55, 0x1D, 0x25], Some EXT_EKU), ([0x55, 0x1D, 0x11], Some EXT_SAN)]"

definition ext_handler ::
  "build \<Rightarrow> ext_kind \<Rightarrow> bytes \<Rightarrow> nat \<Rightarrow> nat \<Rightarrow> x509_cert \<Rightarrow> bool \<Rightarrow> wn_err + x509_cert" where
  "ext_handler B k der idx en cert crit =
     (case k of
        EXT_BC \<Rightarrow> wn_ExtBasicConstraints B der idx en cert crit
      | EXT_KU \<Rightarrow> wn_ExtKeyUsage der idx en cert crit
      | EXT_EKU \<Rightarrow> wn_ExtExtKeyUsage der idx en cert crit
      | EXT_SAN \<Rightarrow> if x509_hostname B then wn_ExtAltName der idx en cert crit else Inr cert)"

definition ext_dispatch :: "build \<Rightarrow> bytes \<Rightarrow> x509_ext \<Rightarrow> word16 \<Rightarrow> x509_cert \<Rightarrow> wn_err + nat \<times> word16 \<times> x509_cert" where
  "ext_dispatch B der x seen cert =
     bindE (oid_chain der (x_oidAt x) (x_oidLen x) None ext_oids) (\<lambda>kind.
       case kind of
         Some k \<Rightarrow>
           if seen AND seen_bit k \<noteq> 0 then Inl E_X509_DECODE
           else bindE (ext_handler B k der (x_val x) (u32 (x_val x + x_valLen x)) cert (x_crit x)) (\<lambda>cert1.
                  Inr (x_end x, seen OR seen_bit k, cert1))
       | None \<Rightarrow> if x_crit x then Inl E_X509_CRITEXT else Inr (x_end x, seen, cert))"

definition ext_step :: "build \<Rightarrow> bytes \<Rightarrow> nat \<Rightarrow> nat \<times> word16 \<times> x509_cert \<Rightarrow> wn_err + nat \<times> word16 \<times> x509_cert" where
  "ext_step B der extEnd st = (case st of (idx, seen, cert) \<Rightarrow>
     bindE (ext_head der idx extEnd) (\<lambda>x. ext_dispatch B der x seen cert))"

text \<open>The unique identifiers in front of the block; \<open>True\<close> in the state is the \<open>break\<close>.\<close>

definition uid_step :: "bytes \<Rightarrow> nat \<Rightarrow> nat \<Rightarrow> nat \<times> bool \<Rightarrow> wn_err + nat \<times> bool" where
  "uid_step der tbsEnd version st = (case st of (idx, _) \<Rightarrow>
     bindE (rd_byte der idx) (\<lambda>t.
       if t = 0xA3 then Inr (idx, True)
       else if (t \<noteq> 0x81 \<and> t \<noteq> 0x82) \<or> version < 1 then Inl E_X509_DECODE
       else bindE (wn_Asn_GetHeader der t idx tbsEnd) (\<lambda>(i, len). Inr (u32 (i + len), False))))"

definition wn_ParseExtensions :: "build \<Rightarrow> bytes \<Rightarrow> nat \<Rightarrow> nat \<Rightarrow> x509_cert \<Rightarrow> nat \<Rightarrow> wn_err + x509_cert" where
  "wn_ParseExtensions B der idx tbsEnd cert version =
     bindE (der_while tbsEnd tbsEnd (\<lambda>b. b) (uid_step der tbsEnd version) (idx, False)) (\<lambda>(i, _).
       if i < tbsEnd then
         if version \<noteq> 2 then Inl E_X509_DECODE
         else
           bindE (wn_Asn_GetHeader der 0xA3 i tbsEnd) (\<lambda>(j, len).
             let ctx3End = u32 (j + len) in
             if ctx3End \<noteq> tbsEnd then Inl E_X509_DECODE
             else bindE (wn_Asn_GetHeader der 0x30 j ctx3End) (\<lambda>(k, len).
               let extEnd = u32 (k + len) in
               if extEnd \<noteq> ctx3End \<or> len = 0 then Inl E_X509_DECODE
               else bindE (der_while extEnd extEnd (\<lambda>_. False) (ext_step B der extEnd) (k, 0, cert)) (\<lambda>(_, _, cert1).
                      Inr cert1)))
       else Inr cert)"

subsection \<open>The certificate, field by field\<close>

text \<open>version [0], absent for v1.\<close>

definition p_version :: "bytes \<Rightarrow> nat \<Rightarrow> nat \<Rightarrow> wn_err + nat \<times> nat" where
  "p_version der idx tbsEnd =
     (if idx < tbsEnd then
        bindE (rd_byte der idx) (\<lambda>t.
          if t = 0xA0 then
            bindE (wn_Asn_GetHeader der 0xA0 idx tbsEnd) (\<lambda>(i, len).
              let verEnd = u32 (i + len) in
            bindE (wn_Asn_GetHeader der 0x02 i verEnd) (\<lambda>(j, len).
              if len \<noteq> 1 then Inl E_X509_DECODE
              else bindE (rd_byte der j) (\<lambda>v.
                if v < 1 \<or> v > 2 \<or> u32 (j + 1) \<noteq> verEnd then Inl E_X509_DECODE
                else Inr (verEnd, unat v))))
          else Inr (idx, 0))
      else Inr (idx, 0))"

text \<open>serialNumber, signature (its offset and length) and issuer.\<close>

definition p_serial_issuer :: "bytes \<Rightarrow> nat \<Rightarrow> nat \<Rightarrow> wn_err + nat \<times> nat \<times> nat" where
  "p_serial_issuer der idx tbsEnd =
     bindE (wn_Asn_GetHeader der 0x02 idx tbsEnd) (\<lambda>(i, len).
       if len < 1 then Inl E_X509_DECODE
       else
         let innerBegin = u32 (i + len) in
         bindE (wn_Asn_GetHeader der 0x30 innerBegin tbsEnd) (\<lambda>(j, len).
           let innerLen = u32 (len + u32_sub j innerBegin) in
         bindE (wn_Asn_GetHeader der 0x30 (u32 (j + len)) tbsEnd) (\<lambda>(k, len).
           Inr (innerBegin, innerLen, u32 (k + len)))))"

definition p_validity :: "build \<Rightarrow> bytes \<Rightarrow> nat \<Rightarrow> nat \<Rightarrow> x509_cert \<Rightarrow> wn_err + nat \<times> x509_cert" where
  "p_validity B der idx tbsEnd cert =
     bindE (wn_Asn_GetHeader der 0x30 idx tbsEnd) (\<lambda>(i, len).
       let valEnd = u32 (i + len) in
       if x509_time B then
         bindE (wn_GetTime der i valEnd) (\<lambda>(nb, nbLen, j).
         bindE (wn_GetTime der j valEnd) (\<lambda>(na, naLen, k).
           if k \<noteq> valEnd then Inl E_X509_DECODE
           else Inr (valEnd, cert\<lparr>c_notBefore := Some nb, c_notBeforeLen := nbLen,
                                  c_notAfter := Some na, c_notAfterLen := naLen\<rparr>)))
       else Inr (valEnd, cert))"

definition p_subject :: "build \<Rightarrow> bytes \<Rightarrow> nat \<Rightarrow> nat \<Rightarrow> x509_cert \<Rightarrow> wn_err + nat \<times> x509_cert" where
  "p_subject B der idx tbsEnd cert =
     bindE (wn_Asn_GetHeader der 0x30 idx tbsEnd) (\<lambda>(i, len).
       bindE (if x509_hostname B \<and> x509_cn B then wn_FindCN der i (u32 (i + len)) else Inr None) (\<lambda>cn.
         Inr (u32 (i + len),
              case cn of None \<Rightarrow> cert | Some (c, cLen) \<Rightarrow> cert\<lparr>c_subjectCN := Some c, c_subjectCNLen := cLen\<rparr>)))"

definition p_spki :: "build \<Rightarrow> bytes \<Rightarrow> nat \<Rightarrow> nat \<Rightarrow> x509_cert \<Rightarrow> wn_err + nat \<times> x509_cert" where
  "p_spki B der spkiBegin tbsEnd cert =
     bindE (wn_Asn_GetHeader der 0x30 spkiBegin tbsEnd) (\<lambda>(i, len).
       let spkiEnd = u32 (i + len) in
     bindE (wn_Asn_GetHeader der 0x30 i spkiEnd) (\<lambda>(j, algLen).
       let algEnd = u32 (j + algLen) in
     bindE (wn_ParseAlgIdOids B der j algEnd) (\<lambda>(_, keyAlg, curve).
     bindE (wn_Asn_GetBitString der algEnd spkiEnd) (\<lambda>(pk, pkLen, k).
       if k \<noteq> spkiEnd then Inl E_X509_DECODE
       else Inr (k, cert\<lparr>c_spki := Some spkiBegin, c_spkiLen := u32 (len + u32_sub i spkiBegin),
                         c_keyAlg := keyAlg, c_curve := curve, c_pubKey := Some pk, c_pubKeyLen := pkLen\<rparr>)))))"

text \<open>signatureAlgorithm, which must repeat the inner one, and signatureValue.\<close>

definition same_bytes :: "bytes \<Rightarrow> nat \<Rightarrow> nat \<Rightarrow> nat \<Rightarrow> wn_err + bool" where
  "same_bytes der a b n = (if a + n \<le> length der then wn_MemEq der b (slice a n der) else Inl Oob)"

definition alg_params :: "bytes \<Rightarrow> x509_sig \<Rightarrow> nat \<Rightarrow> nat \<Rightarrow> wn_err + unit" where
  "alg_params der alg oidEnd algEnd =
     (if wn_SigAlgNoParams alg then guardE (oidEnd = algEnd) E_X509_DECODE
      else if wn_SigAlgIsRsa alg then
        if u32 (oidEnd + 2) \<noteq> algEnd then Inl E_X509_DECODE
        else bindE (rd_byte der oidEnd) (\<lambda>a.
          if a \<noteq> 0x05 then Inl E_X509_DECODE
          else bindE (rd_byte der (u32 (oidEnd + 1))) (\<lambda>b. guardE (b = 0) E_X509_DECODE))
      else Inr ())"

definition p_signature ::
  "build \<Rightarrow> bytes \<Rightarrow> nat \<Rightarrow> nat \<Rightarrow> nat \<Rightarrow> nat \<Rightarrow> x509_cert \<Rightarrow> wn_err + nat \<times> x509_cert" where
  "p_signature B der outerBegin maxIdx innerBegin innerLen cert =
     bindE (wn_Asn_GetHeader der 0x30 outerBegin maxIdx) (\<lambda>(i, len).
     bindE (wn_Asn_GetHeader der 0x06 i (u32 (i + len))) (\<lambda>(oid, oidLen).
     bindE (wn_SigAlgFromOid B der oid oidLen) (\<lambda>alg.
       if u32 (len + u32_sub i outerBegin) \<noteq> innerLen then Inl E_X509_DECODE
       else bindE (same_bytes der innerBegin outerBegin innerLen) (\<lambda>same.
         if \<not> same then Inl E_X509_DECODE
         else bindE (alg_params der alg (u32 (oid + oidLen)) (u32 (i + len))) (\<lambda>_.
              bindE (wn_Asn_GetBitString der (u32 (i + len)) maxIdx) (\<lambda>(sg, sgLen, k).
                Inr (k, cert\<lparr>c_sigAlg := alg, c_sig := Some sg, c_sigLen := sgLen\<rparr>)))))))"

text \<open>From the first field of the tbsCertificate to the end of the signature.\<close>

definition p_fields :: "build \<Rightarrow> bytes \<Rightarrow> nat \<Rightarrow> nat \<Rightarrow> x509_cert \<Rightarrow> wn_err + nat \<times> x509_cert" where
  "p_fields B der idx tbsEnd cert =
     bindE (p_version der idx tbsEnd) (\<lambda>(i1, version).
     bindE (p_serial_issuer der i1 tbsEnd) (\<lambda>(innerBegin, innerLen, i2).
     bindE (p_validity B der i2 tbsEnd cert) (\<lambda>(i3, cert1).
     bindE (p_subject B der i3 tbsEnd cert1) (\<lambda>(i4, cert2).
     bindE (p_spki B der i4 tbsEnd cert2) (\<lambda>(i5, cert3).
     bindE (wn_ParseExtensions B der i5 tbsEnd cert3 version) (\<lambda>cert4.
       p_signature B der tbsEnd (length der) innerBegin innerLen cert4))))))"

definition wn_X509_Parse :: "build \<Rightarrow> bytes option \<Rightarrow> wn_err + x509_cert" where
  "wn_X509_Parse B m =
     (case m of None \<Rightarrow> Inl E_INVALID_ARG
      | Some der \<Rightarrow>
        let derLen = length der in
        if derLen < 2 \<or> derLen > 0x7FFFFFFF then Inl E_INVALID_ARG
        else
          bindE (wn_Asn_GetHeader der 0x30 0 derLen) (\<lambda>(certBegin, totLen).
            let certEnd = u32 (certBegin + totLen) in
            if certEnd \<noteq> derLen then Inl E_X509_DECODE
            else
          bindE (wn_Asn_GetHeader der 0x30 certBegin derLen) (\<lambda>(i, certLen).
            let tbsLen = u32 (certLen + u32_sub i certBegin) in
          bindE (p_fields B der i (u32 (certBegin + tbsLen))
                   (x509_zero\<lparr>c_tbs := Some certBegin, c_tbsLen := tbsLen\<rparr>)) (\<lambda>(i6, cert5).
            if i6 \<noteq> certEnd then Inl E_X509_DECODE else Inr cert5))))"

end
