(* ===== verification/X509Safe.thy ===== *)
theory X509Safe
  imports X509Parse
begin

section \<open>The certificate parser is safe\<close>

text \<open>
  Contracts of every parser of \<^verbatim>\<open>wn_x509.c\<close>, bottom up: on any buffer below 2 GB none reads
  outside the buffer or loops, and each hands out offsets inside it.
\<close>

lemma der_ok_le: "der_ok der en \<Longrightarrow> e \<le> en \<Longrightarrow> der_ok der e"
  by (simp add: der_ok_def)

lemma der_okD: "der_ok der en \<Longrightarrow> en \<le> length der \<and> length der < 2147483648"
  by (simp add: der_ok_def)

lemma safe_hdr:
  assumes "der_ok der en" "idx \<le> en"
    and "\<And>i len. hdr_at der tag idx en i len \<Longrightarrow> idx + 2 \<le> i \<Longrightarrow> i + len \<le> en \<Longrightarrow> u32 (i + len) = i + len \<Longrightarrow>
      u32 (len + u32_sub i idx) = len + (i - idx) \<Longrightarrow> der_ok der (i + len) \<Longrightarrow> safeE (f (i, len)) P"
  shows "safeE (bindE (wn_Asn_GetHeader der tag idx en) f) P"
proof (rule safe_hdr_bind [OF assms(1,2)])
  fix i len
  assume h: "hdr_at der tag idx en i len"
  note b = hdr_atD [OF h] der_okD [OF assms(1)]
  have "len + (i - idx) < 4294967296" "idx \<le> i" "i < 4294967296" "i + len < 4294967296"
    using b by linarith+
  then show "safeE (f (i, len)) P"
    using b by (intro assms(3) [OF h] der_ok_le [OF assms(1)]) (simp_all only: u32_sub_ge u32_small)
qed

lemma safe_oid_chain:
  assumes "at + len \<le> length der"
  shows "safeE (oid_chain der at len dflt ts)
    (\<lambda>v. v = (case map_of ts (slice at len der) of None \<Rightarrow> dflt | Some v \<Rightarrow> v))"
proof (induction ts)
  case Nil
  then show ?case by (simp add: safeE_def)
next
  case (Cons t ts)
  show ?case
    unfolding oid_chain.simps
    by (rule safeE_bind [OF safe_OidEq [OF assms, of "fst t"]])
       (use Cons in \<open>cases t; auto simp: safeE_def split: sum.splits\<close>)
qed

lemma safe_chain_bind:
  assumes "at + len \<le> length der"
    and "\<And>v. v = (case map_of ts (slice at len der) of None \<Rightarrow> dflt | Some v \<Rightarrow> v) \<Longrightarrow> safeE (f v) P"
  shows "safeE (bindE (oid_chain der at len dflt ts) f) P"
  by (rule safeE_bind [OF safe_oid_chain [OF assms(1)]]) (rule assms(2))

lemma safe_AlgIdOids:
  assumes "der_ok der en" "idx \<le> en"
  shows "safeE (wn_ParseAlgIdOids B der idx en) (\<lambda>(i, _). idx \<le> i \<and> i \<le> en)"
  unfolding wn_ParseAlgIdOids_def wn_KeyAlgFromOid_def wn_CurveFromOid_def Let_def
  using assms der_okD [OF assms(1)] by (auto intro!: safe_rules safe_hdr safe_chain_bind)

lemma safe_GetTime:
  assumes "der_ok der en" "idx \<le> en"
  shows "safeE (wn_GetTime der idx en) (\<lambda>(t, tLen, i). t = idx \<and> t + tLen \<le> en \<and> idx < i \<and> i \<le> en)"
  unfolding wn_GetTime_def add.commute [of "u32_sub _ _"]
  using assms der_okD [OF assms(1)]
  by (auto intro!: safe_rules safe_hdr safeE_rd_bind order_trans [OF add_left_mono [OF mod_less_eq_dividend]])

text \<open>The search for the common name.\<close>

definition name_in :: "nat \<Rightarrow> nat \<Rightarrow> (nat \<times> nat) option \<Rightarrow> bool" where
  "name_in lo hi cn = (case cn of None \<Rightarrow> True
     | Some (a, k) \<Rightarrow> lo \<le> a \<and> a + k \<le> hi \<and> 0 < k \<and> k \<le> WN_X509_MAX_DNS_NAME)"

lemma safe_try_hdr:
  assumes "der_ok der en" "idx \<le> en" "safeE (f None) P"
    and "\<And>i len. hdr_at der tag idx en i len \<Longrightarrow> idx + 2 \<le> i \<Longrightarrow> i + len \<le> en \<Longrightarrow> u32 (i + len) = i + len \<Longrightarrow>
      der_ok der (i + len) \<Longrightarrow> safeE (f (Some (i, len))) P"
  shows "safeE (bindE (tryE (wn_Asn_GetHeader der tag idx en)) f) P"
proof (rule safeE_bind [OF safeE_try [OF safe_GetHeader [OF assms(1,2)]]])
  fix r
  assume r: "case r of None \<Rightarrow> True | Some x \<Rightarrow> case x of (i, len) \<Rightarrow> hdr_at der tag idx en i len"
  show "safeE (f r) P"
  proof (cases r)
    case None
    then show ?thesis using assms(3) by simp
  next
    case (Some x)
    then obtain i len where x: "r = Some (i, len)" "hdr_at der tag idx en i len" using r by (cases x) auto
    note b = hdr_atD [OF x(2)] der_okD [OF assms(1)]
    show ?thesis
      unfolding x(1) using b by (intro assms(4) [OF x(2)] der_ok_le [OF assms(1)]) simp_all
  qed
qed

lemma safe_HasNul: "at + n \<le> length der \<Longrightarrow> (\<And>b. safeE (f b) P) \<Longrightarrow> safeE (bindE (wn_HasNul der at n) f) P"
  by (simp add: wn_HasNul_def)

lemma safe_cn_value:
  assumes "der_ok der en" "lo \<le> idx" "en \<le> hi" "name_in lo hi cn"
  shows "safeE (cn_value der idx en cn) (name_in lo hi)"
  unfolding cn_value_def
  using assms der_okD [OF assms(1)]
  by (auto simp: name_in_def intro!: safe_rules safe_try_hdr safeE_rd_bind safe_HasNul)

lemma safe_cn_value_bind:
  assumes "der_ok der en" "lo \<le> idx" "en \<le> hi" "name_in lo hi cn" "\<And>c. name_in lo hi c \<Longrightarrow> safeE (f c) P"
  shows "safeE (bindE (cn_value der idx en cn) f) P"
  by (rule safeE_bind [OF safe_cn_value [OF assms(1-4)]]) (rule assms(5))

text \<open>The window \<open>lo\<close>, \<open>hi\<close> is the tbsCertificate; the inner loops end before it does.\<close>

definition cn_inv :: "nat \<times> bytes \<times> nat \<times> nat \<Rightarrow> nat \<Rightarrow> (nat \<times> nat) option \<times> bool \<Rightarrow> bool" where
  "cn_inv e i s = (case e of (en, der, lo, hi) \<Rightarrow>
     der_ok der en \<and> en \<le> hi \<and> (lo \<le> i \<and> i \<le> en \<or> cn_stop s) \<and> name_in lo hi (fst s))"

lemma cn_atv_step:
  assumes "cn_inv e i s" "i < fst e" "\<not> cn_stop s"
  shows "safeE (cn_atv (fst (snd e)) (fst e) (i, s)) (\<lambda>(i', s'). (i < i' \<or> cn_stop s') \<and> cn_inv e i' s')"
proof -
  obtain en der lo hi where e: "e = (en, der, lo, hi)" using prod_cases4 by blast
  obtain cn b where s: "s = (cn, b)" by force
  have a: "der_ok der en" "i \<le> en" "lo \<le> i" "en \<le> hi" "name_in lo hi cn"
    using assms by (auto simp: cn_inv_def e s)
  show ?thesis
    unfolding cn_atv_def e s prod.case Let_def fst_conv snd_conv
    using a der_okD [OF a(1)]
    by (auto simp: cn_stop_def cn_inv_def intro!: safe_rules safe_try_hdr safeE_bind [OF safe_OidEq]
      safe_cn_value_bind [of _ _ lo _ hi])
qed

interpretation atvs: der_loop cn_inv fst cn_stop "\<lambda>e. cn_atv (fst (snd e)) (fst e)"
  by unfold_locales (rule cn_atv_step)

lemma safe_atvs_bind:
  assumes "der_ok der en" "i \<le> en" "lo \<le> i" "en \<le> hi" "name_in lo hi cn"
    and "\<And>j c b. name_in lo hi c \<Longrightarrow> safeE (f (j, c, b)) P"
  shows "safeE (bindE (der_while en en cn_stop (cn_atv der en) (i, cn, False)) f) P"
  by (rule safeE_bind [OF atvs.loop_safe [of "(en, der, lo, hi)" i "(cn, False)" en, simplified]])
     (use assms in \<open>auto simp: cn_inv_def\<close>)

lemma cn_rdn_step:
  assumes "cn_inv e i s" "i < fst e" "\<not> cn_stop s"
  shows "safeE (cn_rdn (fst (snd e)) (fst e) (i, s)) (\<lambda>(i', s'). (i < i' \<or> cn_stop s') \<and> cn_inv e i' s')"
proof -
  obtain en der lo hi where e: "e = (en, der, lo, hi)" using prod_cases4 by blast
  obtain cn b where s: "s = (cn, b)" by force
  have a: "der_ok der en" "i \<le> en" "lo \<le> i" "en \<le> hi" "name_in lo hi cn"
    using assms by (auto simp: cn_inv_def e s)
  show ?thesis
    unfolding cn_rdn_def e s prod.case Let_def fst_conv snd_conv
    using a der_okD [OF a(1)]
    by (auto simp: cn_stop_def cn_inv_def intro!: safe_rules safe_try_hdr safe_atvs_bind [of _ _ _ lo hi])
qed

interpretation rdns: der_loop cn_inv fst cn_stop "\<lambda>e. cn_rdn (fst (snd e)) (fst e)"
  by unfold_locales (rule cn_rdn_step)

lemma safe_FindCN_bind:
  assumes "der_ok der en" "idx \<le> en" "lo \<le> idx" "en \<le> hi" "\<And>c. name_in lo hi c \<Longrightarrow> safeE (f c) P"
  shows "safeE (bindE (wn_FindCN der idx en) f) P"
proof -
  have "safeE (wn_FindCN der idx en) (name_in lo hi)"
    unfolding wn_FindCN_def
    by (rule safeE_bind [OF rdns.loop_safe [of "(en, der, lo, hi)" idx "(None, False)" en, simplified]])
       (use assms in \<open>auto simp: cn_inv_def name_in_def intro!: safe_rules\<close>)
  then show ?thesis
    by (rule safeE_bind) (rule assms(5))
qed

subsection \<open>Extensions\<close>

text \<open>What the extension handlers keep: the names collected lie in the buffer, and the fields
  that are not theirs do not change.\<close>

definition san_ok :: "nat \<Rightarrow> nat \<Rightarrow> x509_cert \<Rightarrow> bool" where
  "san_ok lo hi c \<longleftrightarrow> length (c_san c) \<le> WN_X509_MAX_SAN \<and> list_all (\<lambda>s. name_in lo hi (Some s)) (c_san c)"

definition ext_core :: "x509_cert \<Rightarrow> x509_cert" where
  "ext_core c = c\<lparr>c_flags := 0, c_keyUsage := 0, c_extKeyUsage := 0, c_san := []\<rparr>"

definition ext_keeps :: "nat \<times> nat \<Rightarrow> x509_cert \<Rightarrow> x509_cert \<Rightarrow> bool" where
  "ext_keeps w c c' \<longleftrightarrow> (san_ok (fst w) (snd w) c \<longrightarrow> san_ok (fst w) (snd w) c') \<and> ext_core c' = ext_core c"

lemma ext_keeps_refl [simp]: "ext_keeps w c c"
  by (simp add: ext_keeps_def)

lemma ext_keeps_trans: "ext_keeps w a b \<Longrightarrow> ext_keeps w b c \<Longrightarrow> ext_keeps w a c"
  by (simp add: ext_keeps_def)

lemma ext_keeps_upd [simp]:
  "ext_keeps w c (c'\<lparr>c_flags := f\<rparr>) = ext_keeps w c c'"
  "ext_keeps w c (c'\<lparr>c_keyUsage := u\<rparr>) = ext_keeps w c c'"
  "ext_keeps w c (c'\<lparr>c_extKeyUsage := u\<rparr>) = ext_keeps w c c'"
  by (simp_all add: ext_keeps_def ext_core_def san_ok_def)

lemma ext_keeps_set_flags [simp]:
  "ext_keeps w c (set_flags f g b c') = ext_keeps w c c'"
  "ext_keeps w (set_flags f g b c) c' = ext_keeps w c c'"
  by (simp_all add: set_flags_def ext_keeps_def ext_core_def san_ok_def)

lemma ext_keeps_san:
  "ext_keeps w c c' \<Longrightarrow> length (c_san c') < WN_X509_MAX_SAN \<Longrightarrow> name_in (fst w) (snd w) (Some s) \<Longrightarrow>
   ext_keeps w c (c'\<lparr>c_san := c_san c' @ [s]\<rparr>)"
  by (simp add: ext_keeps_def ext_core_def san_ok_def)

lemma safe_bc_ca:
  assumes "der_ok der en" "idx \<le> en"
  shows "safeE (bc_ca der idx en cert) (\<lambda>(i, c). i \<le> en \<and> ext_keeps w cert c)"
  unfolding bc_ca_def using assms der_okD [OF assms(1)] by (auto intro!: safe_rules safe_hdr safeE_rd_bind)

lemma safe_BasicConstraints:
  assumes "der_ok der en" "idx \<le> en"
  shows "safeE (wn_ExtBasicConstraints B der idx en cert crit) (ext_keeps w cert)"
  unfolding wn_ExtBasicConstraints_def Let_def
  using assms der_okD [OF assms(1)]
  by (auto simp: bindE_assoc intro!: safe_rules safe_hdr safeE_bind [OF safe_bc_ca])

lemma safe_ku_padding:
  assumes "der_ok der en" "0 < kuLen" "i + kuLen \<le> en"
  shows "safeE (ku_padding der i kuLen u) (\<lambda>_. True)"
  unfolding ku_padding_def using assms der_okD [OF assms(1)]
  by (auto simp: guardE_def u32_sub_ge intro!: safe_rules safeE_rd_bind)

lemma safe_ku_bits:
  assumes "der_ok der en" "0 < kuLen" "i + kuLen \<le> en"
  shows "safeE (ku_bits der i kuLen ku) (\<lambda>_. True)"
  unfolding ku_bits_def using assms der_okD [OF assms(1)]
  by (auto intro!: safeE_bind [where Q = "\<lambda>_. True"] safe_rules safeE_rd_bind)

lemma safe_exact_bind:
  assumes "der_ok der en" "idx \<le> en" "\<And>i len. idx + 2 \<le> i \<Longrightarrow> i + len = en \<Longrightarrow> safeE (f (i, len)) P"
  shows "safeE (bindE (wn_Asn_GetHeaderExact der tag idx en) f) P"
proof (rule safeE_bind [OF safe_GetHeaderExact [OF assms(1,2)]])
  fix x
  assume "case x of (i, len) \<Rightarrow> hdr_at der tag idx en i len \<and> i + len = en"
  then show "safeE (f x) P"
    using assms(3) [of "fst x" "snd x"] by (cases x) (auto dest: hdr_atD)
qed

lemma safe_KeyUsage:
  assumes "der_ok der en" "idx \<le> en"
  shows "safeE (wn_ExtKeyUsage der idx en cert crit) (ext_keeps w cert)"
  unfolding wn_ExtKeyUsage_def
  using assms der_okD [OF assms(1)]
  by (auto intro!: safe_rules safe_exact_bind safeE_rd_bind safeE_bind [OF safe_ku_padding] safeE_bind [OF safe_ku_bits])

text \<open>The two extensions that are lists.\<close>

definition keep_inv :: "nat \<times> bytes \<times> (nat \<times> nat) \<times> x509_cert \<Rightarrow> nat \<Rightarrow> x509_cert \<Rightarrow> bool" where
  "keep_inv e i c = (case e of (en, der, w, c0) \<Rightarrow>
     der_ok der en \<and> fst w \<le> i \<and> i \<le> en \<and> en \<le> snd w \<and> ext_keeps w c0 c)"

lemma eku_step_safe:
  assumes "keep_inv e i c" "i < fst e" "\<not> False"
  shows "safeE (eku_step (fst (snd e)) (fst e) (i, c)) (\<lambda>(i', c'). (i < i' \<or> False) \<and> keep_inv e i' c')"
proof -
  obtain en der w c0 where e: "e = (en, der, w, c0)" using prod_cases4 by blast
  have a: "der_ok der en" "i \<le> en" "ext_keeps w c0 c" "fst w \<le> i" "en \<le> snd w"
    using assms(1) by (auto simp: keep_inv_def e)
  show ?thesis
    unfolding eku_step_def e prod.case fst_conv snd_conv
    using a der_okD [OF a(1)]
    by (auto simp: keep_inv_def simp del: oid_chain.simps intro!: safe_rules safe_hdr safe_chain_bind)
qed

interpretation ekus: der_loop keep_inv fst "\<lambda>_. False" "\<lambda>e. eku_step (fst (snd e)) (fst e)"
  by unfold_locales (rule eku_step_safe)

lemma san_step_safe:
  assumes "keep_inv e i c" "i < fst e" "\<not> False"
  shows "safeE (san_step (fst (snd e)) (fst e) (i, c)) (\<lambda>(i', c'). (i < i' \<or> False) \<and> keep_inv e i' c')"
proof -
  obtain en der w c0 where e: "e = (en, der, w, c0)" using prod_cases4 by blast
  have a: "der_ok der en" "i \<le> en" "ext_keeps w c0 c" "fst w \<le> i" "en \<le> snd w"
    using assms(1) by (auto simp: keep_inv_def e)
  have put: "safeE (bindE (if der ! i = 0x82 then
              if nameLen < 1 \<or> nameLen > WN_X509_MAX_DNS_NAME then Inl E_X509_DECODE
              else bindE (wn_HasNul der j nameLen) (\<lambda>nul.
                if nul then Inl E_X509_DECODE
                else Inr (if length (c_san c) < WN_X509_MAX_SAN
                          then c\<lparr>c_san := c_san c @ [(j, nameLen)]\<rparr> else c))
            else Inr c) f) P"
    if "fst w \<le> j" "j + nameLen \<le> en" "\<And>c'. ext_keeps w c0 c' \<Longrightarrow> safeE (f c') P"
    for j nameLen f and P :: "nat \<times> x509_cert \<Rightarrow> bool"
    using that a der_okD [OF a(1)]
    by (auto simp: name_in_def intro!: safeE_bind [where Q = "ext_keeps w c0"] safe_rules safe_HasNul ext_keeps_san)
  show ?thesis
    unfolding san_step_def e prod.case fst_conv snd_conv
    using a assms(2) der_okD [OF a(1)]
    by (auto simp: keep_inv_def e intro!: safe_rules safe_hdr safeE_rd_bind put)
qed

interpretation sans: der_loop keep_inv fst "\<lambda>_. False" "\<lambda>e. san_step (fst (snd e)) (fst e)"
  by unfold_locales (rule san_step_safe)

lemma safe_list_bind:
  assumes "der_ok der en" "i \<le> en" "fst w \<le> i" "en \<le> snd w" "ext_keeps w c0 c" "\<And>j c. ext_keeps w c0 c \<Longrightarrow> safeE (f (j, c)) P"
  shows "safeE (bindE (der_while en en (\<lambda>_. False) (eku_step der en) (i, c)) f) P"
    "safeE (bindE (der_while en en (\<lambda>_. False) (san_step der en) (i, c)) f) P"
proof -
  have inv: "keep_inv (en, der, w, c0) i c" using assms(1-5) by (simp add: keep_inv_def)
  have k: "safeE (f x) P" if "case x of (j, c) \<Rightarrow> keep_inv (en, der, w, c0) j c \<and> (fst (en, der, w, c0) \<le> j \<or> False)" for x
    using that assms(6) [of "snd x" "fst x"] by (cases x) (auto simp: keep_inv_def)
  show "safeE (bindE (der_while en en (\<lambda>_. False) (eku_step der en) (i, c)) f) P"
    using ekus.loop_safe [OF inv, of en] k by (auto intro: safeE_bind)
  show "safeE (bindE (der_while en en (\<lambda>_. False) (san_step der en) (i, c)) f) P"
    using sans.loop_safe [OF inv, of en] k by (auto intro: safeE_bind)
qed

lemma safe_ExtKeyUsage:
  assumes "der_ok der en" "idx \<le> en" "fst w \<le> idx" "en \<le> snd w"
  shows "safeE (wn_ExtExtKeyUsage der idx en cert crit) (ext_keeps w cert)"
  unfolding wn_ExtExtKeyUsage_def Let_def
  using assms der_okD [OF assms(1)]
  by (auto intro!: safe_rules safe_hdr safe_list_bind(1) [of _ _ _ _ cert])

lemma safe_AltName:
  assumes "der_ok der en" "idx \<le> en" "fst w \<le> idx" "en \<le> snd w"
  shows "safeE (wn_ExtAltName der idx en cert crit) (ext_keeps w cert)"
  unfolding wn_ExtAltName_def Let_def
  using assms der_okD [OF assms(1)]
  by (auto intro!: safe_rules safe_hdr safe_list_bind(2) [of _ _ _ _ cert])

lemma safe_handler:
  assumes "der_ok der en" "idx \<le> en" "fst w \<le> idx" "en \<le> snd w"
  shows "safeE (ext_handler B k der idx en cert crit) (ext_keeps w cert)"
  using safe_BasicConstraints safe_KeyUsage safe_ExtKeyUsage safe_AltName assms
  by (auto simp: ext_handler_def safeE_Inr split: ext_kind.split)

subsection \<open>The extensions block\<close>

lemma safe_critical_bind:
  assumes "der_ok der en" "idx \<le> en" "\<And>i b. idx \<le> i \<Longrightarrow> i \<le> en \<Longrightarrow> safeE (f (i, b)) P"
  shows "safeE (bindE (ext_critical der idx en) f) P"
proof -
  have "safeE (ext_critical der idx en) (\<lambda>(i, _). idx \<le> i \<and> i \<le> en)"
    unfolding ext_critical_def
    using assms(1,2) der_okD [OF assms(1)] by (auto intro!: safe_rules safe_hdr safeE_rd_bind)
  then show ?thesis
    by (rule safeE_bind) (use assms(3) in auto)
qed

definition ext_in :: "nat \<Rightarrow> nat \<Rightarrow> x509_ext \<Rightarrow> bool" where
  "ext_in idx en x \<longleftrightarrow> idx < x_end x \<and> x_end x \<le> en \<and> x_oidAt x + x_oidLen x \<le> x_end x \<and>
     idx \<le> x_val x \<and> x_val x + x_valLen x = x_end x"

lemma safe_ext_head:
  assumes "der_ok der en" "idx \<le> en"
  shows "safeE (ext_head der idx en) (ext_in idx en)"
  unfolding ext_head_def Let_def
proof (rule safe_hdr [OF assms], unfold prod.case)
  fix i len
  assume e: "idx + 2 \<le> i" "i + len \<le> en" "u32 (i + len) = i + len" "der_ok der (i + len)"
  show "safeE (bindE (wn_Asn_GetHeader der 6 i (u32 (i + len))) (\<lambda>(oidAt, oidLen).
     bindE (ext_critical der (u32 (oidAt + oidLen)) (u32 (i + len))) (\<lambda>(k, crit).
     bindE (wn_Asn_GetHeader der 4 k (u32 (i + len))) (\<lambda>(v, valLen).
       if u32 (v + valLen) \<noteq> u32 (i + len) then Inl E_X509_DECODE
       else Inr \<lparr>x_end = u32 (i + len), x_oidAt = oidAt, x_oidLen = oidLen, x_crit = crit, x_val = v,
                 x_valLen = valLen\<rparr>)))) (ext_in idx en)"
    unfolding e(3)
  proof (rule safe_hdr [OF e(4)], simp, unfold prod.case, rule safe_critical_bind [OF e(4)], simp, unfold prod.case,
      rule safe_hdr [OF e(4)], assumption, unfold prod.case)
    fix oidAt oidLen v valLen k :: nat and b
    assume "i + 2 \<le> oidAt" "oidAt + oidLen \<le> i + len" "u32 (oidAt + oidLen) = oidAt + oidLen" "u32 (oidAt + oidLen) \<le> k"
      "k + 2 \<le> v" "u32 (v + valLen) = v + valLen"
    then show "safeE (if u32 (v + valLen) \<noteq> i + len then Inl E_X509_DECODE
       else Inr \<lparr>x_end = i + len, x_oidAt = oidAt, x_oidLen = oidLen, x_crit = b, x_val = v, x_valLen = valLen\<rparr>) (ext_in idx en)"
      using e(1,2) by (auto simp: ext_in_def intro!: safe_rules)
  qed
qed

definition ext_inv :: "nat \<times> bytes \<times> (nat \<times> nat) \<times> x509_cert \<times> build \<Rightarrow> nat \<Rightarrow> word16 \<times> x509_cert \<Rightarrow> bool" where
  "ext_inv e i s = (case e of (en, der, w, c0, B) \<Rightarrow>
     der_ok der en \<and> fst w \<le> i \<and> i \<le> en \<and> en \<le> snd w \<and> ext_keeps w c0 (snd s))"

lemma safe_dispatch:
  assumes "der_ok der en" "ext_in i en x" "ext_keeps w c0 c" "fst w \<le> i" "en \<le> snd w"
  shows "safeE (ext_dispatch B der x seen c) (\<lambda>(i', s'). i < i' \<and> i' \<le> en \<and> ext_keeps w c0 (snd s'))"
  unfolding ext_dispatch_def
proof (rule safe_chain_bind)
  show "x_oidAt x + x_oidLen x \<le> length der"
    using assms(2) der_okD [OF assms(1)] by (simp add: ext_in_def)
  have u: "u32 (x_val x + x_valLen x) = x_end x" "x_val x \<le> x_end x" "i < x_end x" "x_end x \<le> en"
    "fst w \<le> x_val x" "x_end x \<le> snd w"
    using assms(2,4,5) der_okD [OF assms(1)] by (simp_all add: ext_in_def)
  have h: "safeE (bindE (ext_handler B k der (x_val x) (x_end x) c b) (\<lambda>cert1. Inr (x_end x, seen OR seen_bit k, cert1)))
      (\<lambda>(i', s'). i < i' \<and> i' \<le> en \<and> ext_keeps w c0 (snd s'))" for k b
    by (rule safeE_bind [OF safe_handler [OF der_ok_le [OF assms(1) u(4)] u(2,5,6)]])
       (use u(3,4) ext_keeps_trans [OF assms(3)] in \<open>auto intro!: safe_rules\<close>)
  fix v :: "ext_kind option"
  show "safeE (case v of
         Some k \<Rightarrow>
           if seen AND seen_bit k \<noteq> 0 then Inl E_X509_DECODE
           else bindE (ext_handler B k der (x_val x) (u32 (x_val x + x_valLen x)) c (x_crit x)) (\<lambda>cert1.
                  Inr (x_end x, seen OR seen_bit k, cert1))
       | None \<Rightarrow> if x_crit x then Inl E_X509_CRITEXT else Inr (x_end x, seen, c))
       (\<lambda>(i', s'). i < i' \<and> i' \<le> en \<and> ext_keeps w c0 (snd s'))"
    using u(3,4) assms(3) h by (cases v) (simp_all add: u(1) safeE_Inl safeE_Inr)
qed

lemma ext_step_safe:
  assumes "ext_inv e i s" "i < fst e" "\<not> False"
  shows "safeE (ext_step (snd (snd (snd (snd e)))) (fst (snd e)) (fst e) (i, s)) (\<lambda>(i', s'). (i < i' \<or> False) \<and> ext_inv e i' s')"
proof -
  obtain en der w c0 B where e: "e = (en, der, w, c0, B)" using prod_cases5 by blast
  obtain seen c where s: "s = (seen, c)" by force
  have a: "der_ok der en" "i \<le> en" "ext_keeps w c0 c" "fst w \<le> i" "en \<le> snd w"
    using assms(1) by (auto simp: ext_inv_def e s)
  show ?thesis
    unfolding ext_step_def e s prod.case fst_conv snd_conv
    by (rule safeE_bind [OF safe_ext_head [OF a(1,2)]], rule safeE_conseq [OF safe_dispatch [OF a(1) _ a(3-5)]])
       (use a in \<open>auto simp: ext_inv_def\<close>)
qed

interpretation exts: der_loop ext_inv fst "\<lambda>_. False" "\<lambda>e. ext_step (snd (snd (snd (snd e)))) (fst (snd e)) (fst e)"
  by unfold_locales (rule ext_step_safe)

definition uid_inv :: "nat \<times> bytes \<times> nat \<times> nat \<Rightarrow> nat \<Rightarrow> bool \<Rightarrow> bool" where
  "uid_inv e i b = (case e of (en, der, lo, version) \<Rightarrow> der_ok der en \<and> lo \<le> i \<and> i \<le> en)"

lemma uid_step_safe:
  assumes "uid_inv e i b" "i < fst e" "\<not> b"
  shows "safeE (uid_step (fst (snd e)) (fst e) (snd (snd (snd e))) (i, b)) (\<lambda>(i', b'). (i < i' \<or> b') \<and> uid_inv e i' b')"
proof -
  obtain en der lo v where e: "e = (en, der, lo, v)" using prod_cases4 by blast
  have a: "der_ok der en" "i < en" "lo \<le> i" using assms(1,2) by (auto simp: uid_inv_def e)
  show ?thesis
    unfolding uid_step_def e prod.case fst_conv snd_conv
    using a der_okD [OF a(1)] by (auto simp: uid_inv_def intro!: safe_rules safe_hdr safeE_rd_bind)
qed

interpretation uids: der_loop uid_inv fst "\<lambda>b. b" "\<lambda>e. uid_step (fst (snd e)) (fst e) (snd (snd (snd e)))"
  by unfold_locales (rule uid_step_safe)

lemma safe_Extensions:
  assumes "der_ok der en" "idx \<le> en" "fst w \<le> idx" "en \<le> snd w"
  shows "safeE (wn_ParseExtensions B der idx en cert version) (ext_keeps w cert)"
proof -
  have uid: "safeE (bindE (der_while en en (\<lambda>b. b) (uid_step der en version) (idx, False)) f) P"
    if "\<And>i b. fst w \<le> i \<Longrightarrow> i \<le> en \<Longrightarrow> safeE (f (i, b)) P" for f and P :: "x509_cert \<Rightarrow> bool"
    by (rule safeE_bind [OF uids.loop_safe [of "(en, der, fst w, version)" idx False en, simplified]])
       (use that assms in \<open>auto simp: uid_inv_def\<close>)
  have ext: "safeE (bindE (der_while e e (\<lambda>_. False) (ext_step B der e) (k, 0, cert)) f) P"
    if "e \<le> en" "fst w \<le> k" "k \<le> e" "\<And>i s c. ext_keeps w cert c \<Longrightarrow> safeE (f (i, s, c)) P" for e k f and P :: "x509_cert \<Rightarrow> bool"
    by (rule safeE_bind [OF exts.loop_safe [of "(e, der, w, cert, B)" k "(0, cert)" e, simplified]])
       (use that assms(4) der_ok_le [OF assms(1)] in \<open>auto simp: ext_inv_def\<close>)
  show ?thesis
    unfolding wn_ParseExtensions_def Let_def
    using assms der_okD [OF assms(1)]
    by (auto intro!: uid ext safe_rules safe_hdr)
qed

end
