(* ===== verification/X509Cert.thy ===== *)
theory X509Cert
  imports X509Safe
begin

section \<open>What an accepted certificate looks like\<close>

text \<open>
  Contracts of the field parsers of \<open>wn_X509_Parse\<close> and, from them, the properties of the
  parser: safety on every input, the exact DER structure of what it accepts, and the
  agreement of the two SubjectPublicKeyInfo helpers with the parse.
\<close>

definition fld :: "nat \<Rightarrow> nat option \<Rightarrow> nat \<Rightarrow> bool" where
  "fld n p k = (case p of None \<Rightarrow> True | Some a \<Rightarrow> a + k \<le> n)"

lemma fld_simps [simp]: "fld n None k" "fld n (Some a) k \<longleftrightarrow> a + k \<le> n"
  by (simp_all add: fld_def)

text \<open>A field of \<open>k\<close> octets between the offsets \<open>lo\<close> and \<open>hi\<close>, when it is present.\<close>

definition inside :: "nat \<Rightarrow> nat \<Rightarrow> nat option \<Rightarrow> nat \<Rightarrow> bool" where
  "inside lo hi p k = (case p of None \<Rightarrow> True | Some a \<Rightarrow> lo \<le> a \<and> a + k \<le> hi)"

lemma inside_simps [simp]: "inside lo hi None k" "inside lo hi (Some a) k \<longleftrightarrow> lo \<le> a \<and> a + k \<le> hi"
  by (simp_all add: inside_def)

lemma inside_fld: "inside lo hi p k \<Longrightarrow> hi \<le> n \<Longrightarrow> fld n p k"
  by (cases p) auto

text \<open>The fields of the tbsCertificate lie in the window \<open>lo\<close>, \<open>hi\<close>, it and the signature in the input.\<close>

definition tbs_fields :: "nat \<Rightarrow> nat \<Rightarrow> x509_cert \<Rightarrow> bool" where
  "tbs_fields lo hi c \<longleftrightarrow> inside lo hi (c_pubKey c) (c_pubKeyLen c) \<and> inside lo hi (c_spki c) (c_spkiLen c) \<and>
     inside lo hi (c_notBefore c) (c_notBeforeLen c) \<and> inside lo hi (c_notAfter c) (c_notAfterLen c) \<and>
     inside lo hi (c_subjectCN c) (c_subjectCNLen c) \<and> san_ok lo hi c"

definition cert_ptrs :: "nat \<Rightarrow> nat \<times> nat \<Rightarrow> x509_cert \<Rightarrow> bool" where
  "cert_ptrs n w c \<longleftrightarrow> fld n (c_tbs c) (c_tbsLen c) \<and> fld n (c_sig c) (c_sigLen c) \<and> tbs_fields (fst w) (snd w) c"

lemmas ptrs_defs = cert_ptrs_def tbs_fields_def san_ok_def

lemma ext_core_eqD:
  assumes "ext_core c' = ext_core c"
  shows "c_tbs c' = c_tbs c" "c_tbsLen c' = c_tbsLen c" "c_sig c' = c_sig c" "c_sigLen c' = c_sigLen c"
    "c_pubKey c' = c_pubKey c" "c_pubKeyLen c' = c_pubKeyLen c" "c_spki c' = c_spki c" "c_spkiLen c' = c_spkiLen c"
    "c_notBefore c' = c_notBefore c" "c_notBeforeLen c' = c_notBeforeLen c"
    "c_notAfter c' = c_notAfter c" "c_notAfterLen c' = c_notAfterLen c"
    "c_subjectCN c' = c_subjectCN c" "c_subjectCNLen c' = c_subjectCNLen c"
    "c_keyAlg c' = c_keyAlg c" "c_curve c' = c_curve c"
  using assms by (cases c; cases c'; simp add: ext_core_def)+

lemma ext_keeps_ptrs: "ext_keeps w c c' \<Longrightarrow> cert_ptrs n w c \<Longrightarrow> cert_ptrs n w c'"
  using ext_core_eqD [of c' c] by (simp add: ext_keeps_def cert_ptrs_def tbs_fields_def)

lemma safe_bits:
  assumes "der_ok der en" "idx \<le> en"
    and "\<And>a k. hdr_at der 0x03 idx en a (k + 1) \<Longrightarrow> idx + 2 \<le> a \<Longrightarrow> a + 1 + k \<le> en \<Longrightarrow> der ! a = 0 \<Longrightarrow>
      wn_Asn_GetBitString der idx en = Inr (a + 1, k, a + 1 + k) \<Longrightarrow> safeE (f (a + 1, k, a + 1 + k)) P"
  shows "safeE (bindE (wn_Asn_GetBitString der idx en) f) P"
proof (rule safeE_bind [OF safe_GetBitString [OF assms(1,2)]])
  fix x
  assume x: "wn_Asn_GetBitString der idx en = Inr x" "case x of (off, n, i) \<Rightarrow> hdr_at der 0x03 idx en (off - 1) (n + 1) \<and>
      0 < off \<and> der ! (off - 1) = 0 \<and> i = off + n"
  obtain off k i where e: "x = (off, k, i)" using prod_cases3 by blast
  have h: "hdr_at der 0x03 idx en (off - 1) (k + 1)" "der ! (off - 1) = 0" "off - 1 + 1 = off" "i = off + k"
    using x(2) by (simp_all add: e)
  from assms(3) [of "off - 1" k] show "safeE (f x) P"
    using hdr_atD [OF h(1)] h x(1) by (simp add: e)
qed

subsection \<open>The fields\<close>

lemma safe_version:
  assumes "der_ok der en" "idx \<le> en"
  shows "safeE (p_version der idx en) (\<lambda>(i, v). idx \<le> i \<and> i \<le> en)"
  unfolding p_version_def Let_def
  using assms der_okD [OF assms(1)] by (auto intro!: safe_rules safe_hdr safeE_rd_bind)

lemma safe_serial_issuer:
  assumes "der_ok der en" "idx \<le> en"
  shows "safeE (p_serial_issuer der idx en) (\<lambda>(a, n, k). idx \<le> a \<and> a + n \<le> k \<and> k \<le> en)"
  unfolding p_serial_issuer_def Let_def
  using assms der_okD [OF assms(1)] by (auto intro!: safe_rules safe_hdr)

lemma safe_time_bind:
  assumes "der_ok der en" "idx \<le> en"
    and "\<And>k i. idx + k \<le> en \<Longrightarrow> idx \<le> i \<Longrightarrow> i \<le> en \<Longrightarrow> safeE (f (idx, k, i)) P"
  shows "safeE (bindE (wn_GetTime der idx en) f) P"
  by (rule safeE_bind [OF safe_GetTime [OF assms(1,2)]]) (use assms(3) in auto)

text \<open>What each step does to the certificate.\<close>

definition time_set :: "nat \<Rightarrow> nat \<times> nat \<Rightarrow> x509_cert \<Rightarrow> x509_cert \<Rightarrow> bool" where
  "time_set n w c c' \<longleftrightarrow> (cert_ptrs n w c \<longrightarrow> cert_ptrs n w c') \<and> c_tbs c' = c_tbs c \<and> c_tbsLen c' = c_tbsLen c"

lemma safe_validity:
  assumes "der_ok der en" "idx \<le> en" "fst w \<le> idx" "en \<le> snd w"
  shows "safeE (p_validity B der idx en c) (\<lambda>(i, c'). idx \<le> i \<and> i \<le> en \<and> time_set (length der) w c c')"
  unfolding p_validity_def Let_def
  using assms der_okD [OF assms(1)]
  by (auto simp: time_set_def ptrs_defs intro!: safe_rules safe_hdr safe_time_bind)

lemma safe_subject:
  assumes "der_ok der en" "idx \<le> en" "fst w \<le> idx" "en \<le> snd w"
  shows "safeE (p_subject B der idx en c) (\<lambda>(i, c'). idx \<le> i \<and> i \<le> en \<and> time_set (length der) w c c')"
proof -
  have cn: "safeE (bindE (if b then wn_FindCN der i e else Inr None) (\<lambda>cn. Inr (e,
        case cn of None \<Rightarrow> c | Some (k, kLen) \<Rightarrow> c\<lparr>c_subjectCN := Some k, c_subjectCNLen := kLen\<rparr>)))
      (\<lambda>(i, c'). idx \<le> i \<and> i \<le> en \<and> time_set (length der) w c c')"
    if "der_ok der e" "i \<le> e" "e \<le> en" "idx \<le> i" for b i e
  proof (cases b)
    case True
    show ?thesis
      by (subst if_P [OF True], rule safe_FindCN_bind [OF that(1,2), of "fst w" "snd w"])
         (use that assms(3,4) in \<open>auto simp: name_in_def time_set_def ptrs_defs split: option.split intro!: safe_rules\<close>)
  next
    case False
    then show ?thesis using that(2-4) by (simp add: safeE_Inr time_set_def)
  qed
  show ?thesis
    unfolding p_subject_def
    apply (rule safe_hdr [OF assms(1,2)], unfold prod.case)
    subgoal premises p for i len
      unfolding p(4) by (rule cn) (use p in auto)
    done
qed

text \<open>The SubjectPublicKeyInfo at \<open>a\<close>: both headers, the algorithm and the BIT STRING that fills it.\<close>

definition spki_at :: "build \<Rightarrow> bytes \<Rightarrow> nat \<Rightarrow> nat \<Rightarrow> nat \<Rightarrow> x509_cert \<Rightarrow> bool" where
  "spki_at B der a en e c \<longleftrightarrow> (\<exists>i len j algLen t pk.
     hdr_at der 0x30 a en i len \<and> e = i + len \<and> hdr_at der 0x30 i e j algLen \<and>
     wn_ParseAlgIdOids B der j (j + algLen) = Inr (t, c_keyAlg c, c_curve c) \<and>
     wn_Asn_GetBitString der (j + algLen) e = Inr (pk, c_pubKeyLen c, e) \<and>
     hdr_at der 0x03 (j + algLen) e (pk - 1) (c_pubKeyLen c + 1) \<and> 0 < pk \<and> pk + c_pubKeyLen c = e \<and> der ! (pk - 1) = 0 \<and>
     c_spki c = Some a \<and> c_spkiLen c = e - a \<and> c_pubKey c = Some pk)"

lemma safe_spki:
  assumes "der_ok der en" "a \<le> en" "fst w \<le> a" "en \<le> snd w"
  shows "safeE (p_spki B der a en c) (\<lambda>(i, c'). a \<le> i \<and> i \<le> en \<and> spki_at B der a en i c' \<and> time_set (length der) w c c')"
  unfolding p_spki_def Let_def
proof (rule safe_hdr [OF assms(1,2)], unfold prod.case)
  fix i len
  assume i: "hdr_at der 0x30 a en i len" "a + 2 \<le> i" "i + len \<le> en" "u32 (i + len) = i + len"
    "u32 (len + u32_sub i a) = len + (i - a)" "der_ok der (i + len)"
  have alg: "safeE (bindE (wn_ParseAlgIdOids B der j e) f) P"
    if "der_ok der e" "j \<le> e" "\<And>x. wn_ParseAlgIdOids B der j e = Inr x \<Longrightarrow> safeE (f x) P"
    for j e f and P :: "nat \<times> x509_cert \<Rightarrow> bool"
    using safe_AlgIdOids [OF that(1,2), of B] that(3) by (cases "wn_ParseAlgIdOids B der j e") (auto simp: safeE_def)
  show "safeE (bindE (wn_Asn_GetHeader der 0x30 i (u32 (i + len))) (\<lambda>(j, algLen).
     bindE (wn_ParseAlgIdOids B der j (u32 (j + algLen))) (\<lambda>(_, keyAlg, curve).
     bindE (wn_Asn_GetBitString der (u32 (j + algLen)) (u32 (i + len))) (\<lambda>(pk, pkLen, k).
       if k \<noteq> u32 (i + len) then Inl E_X509_DECODE
       else Inr (k, c\<lparr>c_spki := Some a, c_spkiLen := u32 (len + u32_sub i a),
                      c_keyAlg := keyAlg, c_curve := curve, c_pubKey := Some pk, c_pubKeyLen := pkLen\<rparr>)))))
     (\<lambda>(i, c'). a \<le> i \<and> i \<le> en \<and> spki_at B der a en i c' \<and> time_set (length der) w c c')"
    unfolding i(4,5)
  proof (rule safe_hdr [OF i(6)], simp, unfold prod.case, rule alg)
    fix j algLen x
    assume j: "hdr_at der 0x30 i (i + len) j algLen" "i + 2 \<le> j" "j + algLen \<le> i + len" "u32 (j + algLen) = j + algLen"
      "der_ok der (j + algLen)" "wn_ParseAlgIdOids B der j (u32 (j + algLen)) = Inr x"
    obtain t ka cu where x: "x = (t, ka, cu)" using prod_cases3 by blast
    show "safeE (case x of (_, keyAlg, curve) \<Rightarrow> bindE (wn_Asn_GetBitString der (u32 (j + algLen)) (i + len)) (\<lambda>(pk, pkLen, k).
       if k \<noteq> i + len then Inl E_X509_DECODE
       else Inr (k, c\<lparr>c_spki := Some a, c_spkiLen := len + (i - a),
                      c_keyAlg := keyAlg, c_curve := curve, c_pubKey := Some pk, c_pubKeyLen := pkLen\<rparr>)))
     (\<lambda>(i, c'). a \<le> i \<and> i \<le> en \<and> spki_at B der a en i c' \<and> time_set (length der) w c c')"
      unfolding x prod.case j(4)
    proof (rule safe_bits [OF i(6) j(3)], unfold prod.case)
      fix pk k
      assume p: "hdr_at der 0x03 (j + algLen) (i + len) pk (k + 1)" "j + algLen + 2 \<le> pk" "pk + 1 + k \<le> i + len" "der ! pk = 0"
        "wn_Asn_GetBitString der (j + algLen) (i + len) = Inr (pk + 1, k, pk + 1 + k)"
      have "spki_at B der a en (i + len) (c\<lparr>c_spki := Some a, c_spkiLen := len + (i - a),
                      c_keyAlg := ka, c_curve := cu, c_pubKey := Some (pk + 1), c_pubKeyLen := k\<rparr>)"
        if "pk + 1 + k = i + len"
        unfolding spki_at_def
        by (rule exI [of _ i], rule exI [of _ len], rule exI [of _ j], rule exI [of _ algLen], rule exI [of _ t],
            rule exI [of _ "pk + 1"]) (use i j p that x in simp)
      then show "safeE (if pk + 1 + k \<noteq> i + len then Inl E_X509_DECODE
         else Inr (pk + 1 + k, c\<lparr>c_spki := Some a, c_spkiLen := len + (i - a),
                      c_keyAlg := ka, c_curve := cu, c_pubKey := Some (pk + 1), c_pubKeyLen := k\<rparr>))
       (\<lambda>(i, c'). a \<le> i \<and> i \<le> en \<and> spki_at B der a en i c' \<and> time_set (length der) w c c')"
        using i j(2) p assms(3,4) der_okD [OF assms(1)]
        by (auto simp: time_set_def ptrs_defs intro!: safe_rules)
    qed
  qed simp_all
qed

text \<open>The signature: the algorithm at \<open>a\<close> repeats the \<open>n\<close> bytes at \<open>b\<close>, the BIT STRING follows it.\<close>

definition signed_at :: "bytes \<Rightarrow> nat \<Rightarrow> nat \<Rightarrow> nat \<Rightarrow> nat \<Rightarrow> nat \<Rightarrow> x509_cert \<Rightarrow> bool" where
  "signed_at der a en b n e c \<longleftrightarrow> (\<exists>sg. slice a n der = slice b n der \<and>
     hdr_at der 0x03 (a + n) en (sg - 1) (c_sigLen c + 1) \<and> 0 < sg \<and> der ! (sg - 1) = 0 \<and>
     e = sg + c_sigLen c \<and> c_sig c = Some sg)"

lemma safe_alg_params:
  assumes "der_ok der algEnd" "oidEnd \<le> algEnd"
  shows "safeE (alg_params der alg oidEnd algEnd) (\<lambda>_. True)"
  unfolding alg_params_def using assms der_okD [OF assms(1)]
  by (auto simp: guardE_def intro!: safe_rules safeE_rd_bind)

lemma safe_same_bytes:
  "a + n \<le> length der \<Longrightarrow> b + n \<le> length der \<Longrightarrow> safeE (same_bytes der a b n) (\<lambda>s. s \<longleftrightarrow> slice b n der = slice a n der)"
  using safe_MemEq [of b "slice a n der" der] by (simp add: same_bytes_def)

lemma safe_signature:
  assumes "der_ok der en" "a \<le> en" "b + n \<le> length der"
  shows "safeE (p_signature B der a en b n c) (\<lambda>(e, c'). e \<le> en \<and> signed_at der a en b n e c' \<and> time_set (length der) w c c' \<and>
    c_spki c' = c_spki c \<and> c_spkiLen c' = c_spkiLen c \<and> c_pubKey c' = c_pubKey c \<and> c_pubKeyLen c' = c_pubKeyLen c \<and>
    c_keyAlg c' = c_keyAlg c \<and> c_curve c' = c_curve c)"
  unfolding p_signature_def wn_SigAlgFromOid_def
proof (rule safe_hdr [OF assms(1,2)], unfold prod.case)
  fix i len
  assume i: "a + 2 \<le> i" "i + len \<le> en" "u32 (i + len) = i + len" "u32 (len + u32_sub i a) = len + (i - a)" "der_ok der (i + len)"
  show "safeE (bindE (wn_Asn_GetHeader der 6 i (u32 (i + len))) (\<lambda>(oid, oidLen).
     bindE (oid_chain der oid oidLen SIG_UNKNOWN (sig_oids B)) (\<lambda>alg.
       if u32 (len + u32_sub i a) \<noteq> n then Inl E_X509_DECODE
       else bindE (same_bytes der b a n) (\<lambda>same.
         if \<not> same then Inl E_X509_DECODE
         else bindE (alg_params der alg (u32 (oid + oidLen)) (u32 (i + len))) (\<lambda>_.
              bindE (wn_Asn_GetBitString der (u32 (i + len)) en) (\<lambda>(sg, sgLen, k).
                Inr (k, c\<lparr>c_sigAlg := alg, c_sig := Some sg, c_sigLen := sgLen\<rparr>)))))))
    (\<lambda>(e, c'). e \<le> en \<and> signed_at der a en b n e c' \<and> time_set (length der) w c c' \<and>
      c_spki c' = c_spki c \<and> c_spkiLen c' = c_spkiLen c \<and> c_pubKey c' = c_pubKey c \<and> c_pubKeyLen c' = c_pubKeyLen c \<and>
      c_keyAlg c' = c_keyAlg c \<and> c_curve c' = c_curve c)"
    unfolding i(3,4)
  proof (rule safe_hdr [OF i(5)], simp, unfold prod.case, rule safe_chain_bind)
    fix oid oidLen alg
    assume o: "oid + oidLen \<le> i + len" "u32 (oid + oidLen) = oid + oidLen"
    then show "oid + oidLen \<le> length der" using i(2) der_okD [OF assms(1)] by simp
    have fin: "safeE (bindE (wn_Asn_GetBitString der (i + len) en) (\<lambda>(sg, sgLen, k).
                Inr (k, c\<lparr>c_sigAlg := alg, c_sig := Some sg, c_sigLen := sgLen\<rparr>)))
      (\<lambda>(e, c'). e \<le> en \<and> signed_at der a en b n e c' \<and> time_set (length der) w c c' \<and>
      c_spki c' = c_spki c \<and> c_spkiLen c' = c_spkiLen c \<and> c_pubKey c' = c_pubKey c \<and> c_pubKeyLen c' = c_pubKeyLen c \<and>
      c_keyAlg c' = c_keyAlg c \<and> c_curve c' = c_curve c)"
      if eq: "slice a n der = slice b n der" "len + (i - a) = n"
    proof (rule safe_bits [OF assms(1) i(2)], unfold prod.case, rule safeE_Inr, unfold prod.case, intro conjI)
      fix x k
      assume h: "hdr_at der 3 (i + len) en x (k + 1)" "x + 1 + k \<le> en" "der ! x = 0"
      have "i + len = a + n" using eq(2) i(1) by linarith
      then have hdr_swap: "hdr_at der 3 (a + n) en x (k + 1)" using h(1) by simp
      show "signed_at der a en b n (x + 1 + k) (c\<lparr>c_sigAlg := alg, c_sig := Some (x + 1), c_sigLen := k\<rparr>)"
        using h(3) eq(1) hdr_swap by (auto simp: signed_at_def)
      show "time_set (length der) w c (c\<lparr>c_sigAlg := alg, c_sig := Some (x + 1), c_sigLen := k\<rparr>)"
        using h(2) der_okD [OF assms(1)] by (auto simp: time_set_def ptrs_defs)
    qed simp_all
    show "safeE (if len + (i - a) \<noteq> n then Inl E_X509_DECODE
       else bindE (same_bytes der b a n) (\<lambda>same.
         if \<not> same then Inl E_X509_DECODE
         else bindE (alg_params der alg (u32 (oid + oidLen)) (i + len)) (\<lambda>_.
              bindE (wn_Asn_GetBitString der (i + len) en) (\<lambda>(sg, sgLen, k).
                Inr (k, c\<lparr>c_sigAlg := alg, c_sig := Some sg, c_sigLen := sgLen\<rparr>)))))
      (\<lambda>(e, c'). e \<le> en \<and> signed_at der a en b n e c' \<and> time_set (length der) w c c' \<and>
      c_spki c' = c_spki c \<and> c_spkiLen c' = c_spkiLen c \<and> c_pubKey c' = c_pubKey c \<and> c_pubKeyLen c' = c_pubKeyLen c \<and>
      c_keyAlg c' = c_keyAlg c \<and> c_curve c' = c_curve c)"
    proof (cases "len + (i - a) = n")
      case True
      have an: "a + n \<le> length der" using True i(1,2) der_okD [OF assms(1)] by linarith
      show ?thesis
        unfolding o(2) True
        apply (simp only: not_True_eq_False if_False refl)
        apply (rule safeE_bind [OF safe_same_bytes [OF assms(3) an]])
        apply (rule safeE_if, rule safeE_Inl, simp)
        apply (rule safeE_bind [OF safe_alg_params [OF i(5) o(1)]])
        apply (rule fin)
        using True by simp_all
    qed (simp add: safeE_Inl)
  qed
qed

subsection \<open>The whole certificate\<close>

definition cert_shape :: "build \<Rightarrow> bytes \<Rightarrow> x509_cert \<Rightarrow> bool" where
  "cert_shape B der c \<longleftrightarrow> cert_ptrs (length der) (the (c_tbs c), the (c_tbs c) + c_tbsLen c) c \<and> (\<exists>a tot i cl sp e b n.
     hdr_at der 0x30 0 (length der) a tot \<and> a + tot = length der \<and>
     hdr_at der 0x30 a (length der) i cl \<and> c_tbs c = Some a \<and> c_tbsLen c = cl + (i - a) \<and>
     a \<le> sp \<and> spki_at B der sp (a + c_tbsLen c) e c \<and>
     a \<le> b \<and> b + n \<le> a + c_tbsLen c \<and> signed_at der (a + c_tbsLen c) (length der) b n (length der) c)"

lemma spki_at_cong:
  "spki_at B der a en e c \<Longrightarrow> c_spki c' = c_spki c \<Longrightarrow> c_spkiLen c' = c_spkiLen c \<Longrightarrow> c_pubKey c' = c_pubKey c \<Longrightarrow>
   c_pubKeyLen c' = c_pubKeyLen c \<Longrightarrow> c_keyAlg c' = c_keyAlg c \<Longrightarrow> c_curve c' = c_curve c \<Longrightarrow> spki_at B der a en e c'"
  by (simp add: spki_at_def)

lemma safeE_bind2:
  "safeE m Q \<Longrightarrow> (\<And>a b. Q (a, b) \<Longrightarrow> safeE (f (a, b)) P) \<Longrightarrow> safeE (bindE m f) P"
  using safeE_bind [of m Q f P] by auto

lemma safeE_bind3:
  "safeE m Q \<Longrightarrow> (\<And>a b c. Q (a, b, c) \<Longrightarrow> safeE (f (a, b, c)) P) \<Longrightarrow> safeE (bindE m f) P"
  using safeE_bind [of m Q f P] by auto

lemma cert_shapeI:
  "cert_ptrs (length der) (a, a + c_tbsLen c) c \<Longrightarrow> hdr_at der 0x30 0 (length der) a tot \<Longrightarrow> a + tot = length der \<Longrightarrow>
   hdr_at der 0x30 a (length der) i cl \<Longrightarrow> c_tbs c = Some a \<Longrightarrow> c_tbsLen c = cl + (i - a) \<Longrightarrow> a \<le> sp \<Longrightarrow>
   spki_at B der sp (a + c_tbsLen c) e c \<Longrightarrow> a \<le> b \<Longrightarrow> b + n \<le> a + c_tbsLen c \<Longrightarrow>
   signed_at der (a + c_tbsLen c) (length der) b n (length der) c \<Longrightarrow> cert_shape B der c"
  unfolding cert_shape_def by (rule conjI) (simp only: option.sel, blast)

lemma cert_shape_flds:
  assumes "cert_shape B der c"
  shows "fld (length der) (c_tbs c) (c_tbsLen c)" "fld (length der) (c_sig c) (c_sigLen c)"
    "fld (length der) (c_pubKey c) (c_pubKeyLen c)" "fld (length der) (c_spki c) (c_spkiLen c)"
    "fld (length der) (c_notBefore c) (c_notBeforeLen c)" "fld (length der) (c_notAfter c) (c_notAfterLen c)"
    "fld (length der) (c_subjectCN c) (c_subjectCNLen c)" "length (c_san c) \<le> WN_X509_MAX_SAN"
    "list_all (\<lambda>(a, k). a + k \<le> length der) (c_san c)"
proof -
  obtain a where t: "c_tbs c = Some a" using assms by (auto simp: cert_shape_def)
  have p: "cert_ptrs (length der) (a, a + c_tbsLen c) c" using assms t by (simp add: cert_shape_def)
  then have hi: "a + c_tbsLen c \<le> length der" by (simp add: cert_ptrs_def t)
  from p show "fld (length der) (c_tbs c) (c_tbsLen c)" "fld (length der) (c_sig c) (c_sigLen c)"
    "fld (length der) (c_pubKey c) (c_pubKeyLen c)" "fld (length der) (c_spki c) (c_spkiLen c)"
    "fld (length der) (c_notBefore c) (c_notBeforeLen c)" "fld (length der) (c_notAfter c) (c_notAfterLen c)"
    "fld (length der) (c_subjectCN c) (c_subjectCNLen c)" "length (c_san c) \<le> WN_X509_MAX_SAN"
    by (auto simp: ptrs_defs intro: inside_fld [OF _ hi])
  show "list_all (\<lambda>(a, k). a + k \<le> length der) (c_san c)"
    using p hi by (auto simp: ptrs_defs name_in_def elim!: list.pred_mono_strong)
qed

text \<open>From the tbsCertificate header on.\<close>

lemma safe_fields:
  assumes "der_ok der (length der)" "hdr_at der 0x30 a (length der) i cl" "cert = x509_zero\<lparr>c_tbs := Some a, c_tbsLen := cl + (i - a)\<rparr>"
    "te = i + cl"
  shows "safeE (p_fields B der i te cert) (\<lambda>(e, c). cert_ptrs (length der) (a, te) c \<and> c_tbs c = Some a \<and> c_tbsLen c = cl + (i - a) \<and>
    (\<exists>sp e2 b n. a \<le> sp \<and> spki_at B der sp te e2 c \<and> a \<le> b \<and> b + n \<le> te \<and> signed_at der te (length der) b n e c))"
proof -
  note h = hdr_atD [OF assms(2)]
  have te: "a \<le> i" "i \<le> te" "te \<le> length der" "te = a + (cl + (i - a))" using h assms(4) by simp_all
  note D = der_ok_le [OF assms(1) te(3)]
  have z: "cert_ptrs (length der) (a, te) cert"
    using te by (simp add: assms(3) ptrs_defs x509_zero_def)
  have t: "c_tbs cert = Some a" "c_tbsLen cert = cl + (i - a)" by (simp_all add: assms(3))
  have last: "safeE (bindE (wn_ParseExtensions B der i5 te c3 version) (\<lambda>cert4. p_signature B der te (length der) b n cert4))
      (\<lambda>(e, c). cert_ptrs (length der) (a, te) c \<and> c_tbs c = Some a \<and> c_tbsLen c = cl + (i - a) \<and>
        (\<exists>sp e2 b n. a \<le> sp \<and> spki_at B der sp te e2 c \<and> a \<le> b \<and> b + n \<le> te \<and> signed_at der te (length der) b n e c))"
    if "spki_at B der i4 te i5 c3" "i5 \<le> te" "cert_ptrs (length der) (a, te) c3" "c_tbs c3 = Some a" "c_tbsLen c3 = cl + (i - a)"
      "a \<le> i4" "a \<le> b" "b + n \<le> te" "a \<le> i5" for i4 i5 c3 version b n
  proof (rule safeE_bind [OF safe_Extensions [OF D that(2), of "(a, te)"]])
    show "fst (a, te) \<le> i5" "te \<le> snd (a, te)" using that(9) by simp_all
    fix c4
    assume k: "ext_keeps (a, te) c3 c4"
    then have "ext_core c4 = ext_core c3" by (simp add: ext_keeps_def)
    note core = ext_core_eqD [OF this]
    have c4: "cert_ptrs (length der) (a, te) c4" "c_tbs c4 = Some a" "c_tbsLen c4 = cl + (i - a)" "spki_at B der i4 te i5 c4"
      using ext_keeps_ptrs [OF k that(3)] that(4,5) core spki_at_cong [OF that(1), of c4] by simp_all
    have bn: "b + n \<le> length der" using that(8) te(3) by simp
    show "safeE (p_signature B der te (length der) b n c4)
      (\<lambda>(e, c). cert_ptrs (length der) (a, te) c \<and> c_tbs c = Some a \<and> c_tbsLen c = cl + (i - a) \<and>
        (\<exists>sp e2 b n. a \<le> sp \<and> spki_at B der sp te e2 c \<and> a \<le> b \<and> b + n \<le> te \<and> signed_at der te (length der) b n e c))"
    proof (rule safeE_conseq [OF safe_signature [OF assms(1) te(3) bn]])
      fix x
      assume s: "case x of (e, c') \<Rightarrow> e \<le> length der \<and> signed_at der te (length der) b n e c' \<and>
        time_set (length der) (a, te) c4 c' \<and> c_spki c' = c_spki c4 \<and> c_spkiLen c' = c_spkiLen c4 \<and>
        c_pubKey c' = c_pubKey c4 \<and> c_pubKeyLen c' = c_pubKeyLen c4 \<and> c_keyAlg c' = c_keyAlg c4 \<and> c_curve c' = c_curve c4"
      obtain e c5 where x: "x = (e, c5)" by force
      have "spki_at B der i4 te i5 c5"
        by (rule spki_at_cong [OF c4(4)]) (use s x in simp_all)
      moreover have "cert_ptrs (length der) (a, te) c5" "c_tbs c5 = Some a" "c_tbsLen c5 = cl + (i - a)" "signed_at der te (length der) b n e c5"
        using s c4 by (simp_all add: x time_set_def)
      ultimately show "case x of (e, c) \<Rightarrow> cert_ptrs (length der) (a, te) c \<and> c_tbs c = Some a \<and> c_tbsLen c = cl + (i - a) \<and>
        (\<exists>sp e2 b n. a \<le> sp \<and> spki_at B der sp te e2 c \<and> a \<le> b \<and> b + n \<le> te \<and> signed_at der te (length der) b n e c)"
        unfolding x prod.case using that(6,7,8) by blast
    qed
  qed
  have ver: "safeE (p_version der i te) (\<lambda>(k, _). a \<le> k \<and> k \<le> te)"
    by (rule safeE_conseq [OF safe_version [OF D te(2)]]) (use te(1) in auto)
  have ser: "safeE (p_serial_issuer der k te) (\<lambda>(b, n, l). a \<le> b \<and> b + n \<le> te \<and> a \<le> l \<and> l \<le> te)"
    if "a \<le> k" "k \<le> te" for k
    by (rule safeE_conseq [OF safe_serial_issuer [OF D that(2)]]) (use that(1) in auto)
  have val: "safeE (p_validity B der k te c) (\<lambda>(l, c'). a \<le> l \<and> l \<le> te \<and> time_set (length der) (a, te) c c')"
    if "a \<le> k" "k \<le> te" for k c
    by (rule safeE_conseq [OF safe_validity [OF D that(2), of "(a, te)"]]) (use that(1) in auto)
  have sub: "safeE (p_subject B der k te c) (\<lambda>(l, c'). a \<le> l \<and> l \<le> te \<and> time_set (length der) (a, te) c c')"
    if "a \<le> k" "k \<le> te" for k c
    by (rule safeE_conseq [OF safe_subject [OF D that(2), of "(a, te)"]]) (use that(1) in auto)
  have spk: "safeE (p_spki B der k te c) (\<lambda>(l, c'). a \<le> l \<and> l \<le> te \<and> spki_at B der k te l c' \<and>
      time_set (length der) (a, te) c c')" if "a \<le> k" "k \<le> te" for k c
    by (rule safeE_conseq [OF safe_spki [OF D that(2), of "(a, te)"]]) (use that(1) in auto)
  show ?thesis
    unfolding p_fields_def
  proof (rule safeE_bind2 [OF ver], unfold prod.case, elim conjE,
      rule safeE_bind3 [OF ser], assumption, assumption, unfold prod.case, elim conjE,
      rule safeE_bind2 [OF val], assumption, assumption, unfold prod.case, elim conjE,
      rule safeE_bind2 [OF sub], assumption, assumption, unfold prod.case, elim conjE,
      rule safeE_bind2 [OF spk], assumption, assumption, unfold prod.case, elim conjE, rule last, assumption, assumption)
    fix c1 c2 c3
    assume "time_set (length der) (a, te) cert c1" "time_set (length der) (a, te) c1 c2" "time_set (length der) (a, te) c2 c3"
    then show "cert_ptrs (length der) (a, te) c3" "c_tbs c3 = Some a" "c_tbsLen c3 = cl + (i - a)"
      using z t by (simp_all add: time_set_def)
  qed
qed

lemma parse_shape: "safeE (wn_X509_Parse B (Some der)) (cert_shape B der)"
proof (cases "2 \<le> length der \<and> length der < 2147483648")
  case False
  then show ?thesis by (auto simp: wn_X509_Parse_def safeE_Inl)
next
  case l: True
  have D: "der_ok der (length der)" using l by (simp add: der_ok_def)
  have rest: "safeE (bindE (wn_Asn_GetHeader der 0x30 a (length der)) (\<lambda>(i, certLen).
          bindE (p_fields B der i (u32 (a + u32 (certLen + u32_sub i a)))
                   (x509_zero\<lparr>c_tbs := Some a, c_tbsLen := u32 (certLen + u32_sub i a)\<rparr>)) (\<lambda>(i6, cert5).
            if i6 \<noteq> length der then Inl E_X509_DECODE else Inr cert5))) (cert_shape B der)"
    if a: "hdr_at der 0x30 0 (length der) a tot" "a + tot = length der" for a tot
  proof (rule safe_hdr [OF D], use a in simp, unfold prod.case)
    fix i cl
    assume i: "hdr_at der 0x30 a (length der) i cl" "a + 2 \<le> i" "u32 (i + cl) = i + cl" "u32 (cl + u32_sub i a) = cl + (i - a)"
    have e: "a + (cl + (i - a)) = i + cl" using i(2) by linarith
    then have t: "u32 (a + (cl + (i - a))) = i + cl" by (simp only: i(3))
    show "safeE (bindE (p_fields B der i (u32 (a + u32 (cl + u32_sub i a)))
                   (x509_zero\<lparr>c_tbs := Some a, c_tbsLen := u32 (cl + u32_sub i a)\<rparr>)) (\<lambda>(i6, cert5).
            if i6 \<noteq> length der then Inl E_X509_DECODE else Inr cert5)) (cert_shape B der)"
      unfolding i(4) t
    proof (rule safeE_bind2 [OF safe_fields [OF D i(1) refl refl]], unfold prod.case, elim conjE exE, rule safeE_if,
        rule safeE_Inl, simp, rule safeE_Inr)
      fix i6 c sp e2 b n
      assume "cert_ptrs (length der) (a, i + cl) c" "c_tbs c = Some a" "c_tbsLen c = cl + (i - a)" "a \<le> sp" "spki_at B der sp (i + cl) e2 c"
        "a \<le> b" "b + n \<le> i + cl" "signed_at der (i + cl) (length der) b n i6 c" "\<not> i6 \<noteq> length der"
      then show "cert_shape B der c"
        using cert_shapeI [OF _ a i(1), of c sp B e2 b n] e by (simp only: not_not)
    qed
  qed
  show ?thesis
    unfolding wn_X509_Parse_def option.case Let_def
  proof (rule safeE_if, rule safeE_Inl, simp, rule safe_hdr [OF D], simp, unfold prod.case, rule safeE_if, rule safeE_Inl, simp)
    fix a tot
    assume a: "hdr_at der 0x30 0 (length der) a tot" "\<not> u32 (a + tot) \<noteq> length der" "u32 (a + tot) = a + tot"
    then have e: "a + tot = length der" "u32 (a + tot) = length der" by simp_all
    show "safeE (bindE (wn_Asn_GetHeader der 0x30 a (length der)) (\<lambda>(i, certLen).
          bindE (p_fields B der i (u32 (a + u32 (certLen + u32_sub i a)))
                   (x509_zero\<lparr>c_tbs := Some a, c_tbsLen := u32 (certLen + u32_sub i a)\<rparr>)) (\<lambda>(i6, cert5).
            if i6 \<noteq> u32 (a + tot) then Inl E_X509_DECODE else Inr cert5))) (cert_shape B der)"
      unfolding e(2) by (rule rest [OF a(1) e(1)])
  qed
qed

lemma hdr_tlv:
  assumes "hdr_at der tag idx en i len" "en \<le> length der"
  shows "slice idx (i - idx + len) der = tlv tag (slice i len der)"
proof -
  have h: "i = idx + (1 + length (enc_len len))" "i + len \<le> en" "slice idx (1 + length (enc_len len)) der = tag # enc_len len"
    using assms(1) by (auto simp: hdr_at_def)
  have "slice idx ((1 + length (enc_len len)) + len) der = slice idx (1 + length (enc_len len)) der @ slice i len der"
    unfolding h(1) by (simp only: slice_def take_add drop_drop) (simp only: add.commute)
  then show ?thesis
    using h assms(2) by (simp add: tlv_def)
qed

text \<open>The octets behind the offsets.\<close>

lemma slice_cut: "slice x (j + k) der = slice x j der @ slice (x + j) k der"
  by (simp add: slice_def take_add add.commute)

lemma tbs_octets:
  assumes "cert_shape B der c" "c_tbs c = Some a"
  shows "\<exists>body. slice a (c_tbsLen c) der = tlv 0x30 body"
proof -
  obtain i cl where h: "hdr_at der 0x30 a (length der) i cl" "c_tbsLen c = cl + (i - a)"
    using assms unfolding cert_shape_def by auto
  then show ?thesis
    using hdr_tlv [OF h(1)] by (auto simp: add.commute)
qed

lemma bits_octets:
  assumes "hdr_at der 0x03 x en (pk - 1) (k + 1)" "en \<le> length der" "0 < pk" "der ! (pk - 1) = 0"
  shows "slice x (pk - 1 - x + (k + 1)) der = tlv 0x03 (0 # slice pk k der)"
proof -
  have "pk - 1 < length der" using hdr_atD [OF assms(1)] assms(2) by linarith
  then have "slice (pk - 1) (k + 1) der = 0 # slice pk k der"
    using slice_Suc [of "pk - 1" der k] assms(3,4) by simp
  then show ?thesis using hdr_tlv [OF assms(1,2)] by simp
qed

lemma spki_octets:
  assumes "spki_at B der sp en e c" "en \<le> length der"
  shows "\<exists>alg. slice (the (c_spki c)) (c_spkiLen c) der =
    tlv 0x30 (tlv 0x30 alg @ tlv 0x03 (0 # slice (the (c_pubKey c)) (c_pubKeyLen c) der))"
proof -
  obtain i len j n pk where h: "hdr_at der 0x30 sp en i len" "e = i + len" "hdr_at der 0x30 i e j n"
      "hdr_at der 0x03 (j + n) e (pk - 1) (c_pubKeyLen c + 1)" "0 < pk" "pk + c_pubKeyLen c = e" "der ! (pk - 1) = 0"
      "c_spki c = Some sp" "c_spkiLen c = e - sp" "c_pubKey c = Some pk"
    using assms(1) unfolding spki_at_def by blast
  note b = hdr_atD [OF h(1)] hdr_atD [OF h(3)] hdr_atD [OF h(4)]
  have e: "e \<le> length der" using b h(2) assms(2) by linarith
  have len: "len = (j - i + n) + (pk - 1 - (j + n) + (c_pubKeyLen c + 1))"
    using b h(2,5,6) by linarith
  have ij: "i + (j - i + n) = j + n" using b by linarith
  have "slice i len der = tlv 0x30 (slice j n der) @ tlv 0x03 (0 # slice pk (c_pubKeyLen c) der)"
    unfolding len slice_cut [of i "j - i + n"] ij hdr_tlv [OF h(3) e] bits_octets [OF h(4) e h(5,7)] by (rule refl)
  moreover have "e - sp = i - sp + len" using b h(2) by linarith
  ultimately show ?thesis
    using hdr_tlv [OF h(1) assms(2)] h(8-10) by auto
qed

lemma cert_octets:
  assumes "cert_shape B der c" "c_tbs c = Some a'"
  shows "\<exists>before alg after. slice a' (c_tbsLen c) der = before @ alg @ after \<and>
    der = tlv 0x30 (slice a' (c_tbsLen c) der @ alg @ tlv 0x03 (0 # slice (the (c_sig c)) (c_sigLen c) der))"
proof -
  obtain a tot b n sg where
    s: "hdr_at der 0x30 0 (length der) a tot" "a + tot = length der" "c_tbs c = Some a" "c_sig c = Some sg"
      "slice (a + c_tbsLen c) n der = slice b n der" "a \<le> b" "b + n \<le> a + c_tbsLen c" "0 < sg" "der ! (sg - 1) = 0"
      "hdr_at der 0x03 (a + c_tbsLen c + n) (length der) (sg - 1) (c_sigLen c + 1)" "length der = sg + c_sigLen c"
    using assms(1) unfolding cert_shape_def signed_at_def by blast
  define te where "te = a + c_tbsLen c"
  define alg where "alg = slice b n der"
  have a': "a' = a" using s(3) assms(2) by simp
  have h3: "te + n + 2 \<le> sg - 1" using hdr_atD [OF s(10)] by (simp add: te_def)
  have "slice 0 (a + tot) der = tlv 0x30 (slice a tot der)"
    using hdr_tlv [OF s(1)] by simp
  then have top: "der = tlv 0x30 (slice a tot der)"
    by (simp add: s(2) slice_def)
  define m where "m = sg - 1 - (te + n) + (c_sigLen c + 1)"
  have tot: "tot = c_tbsLen c + (n + m)"
    using s(2,8,11) h3 unfolding te_def m_def by linarith
  have bits: "slice (te + n) m der = tlv 0x03 (0 # slice sg (c_sigLen c) der)"
    unfolding m_def te_def by (rule bits_octets [OF s(10) order_refl s(8,9)])
  then have body: "slice a tot der = slice a (c_tbsLen c) der @ alg @ tlv 0x03 (0 # slice sg (c_sigLen c) der)"
    unfolding tot slice_cut [of a "c_tbsLen c" "n + m"] te_def [symmetric] slice_cut [of te n m] alg_def
    using s(5) by (simp add: te_def)
  have "c_tbsLen c = (b - a) + (n + (te - (b + n)))"
    using s(6,7) unfolding te_def by linarith
  then have "slice a (c_tbsLen c) der = slice a (b - a) der @ alg @ slice (b + n) (te - (b + n)) der"
    using slice_cut [of a "b - a" "n + (te - (b + n))" der] slice_cut [of b n "te - (b + n)" der] s(6) by (simp add: alg_def)
  then show ?thesis
    unfolding a' s(4) option.sel using top body by metis
qed

subsection \<open>A certificate\<close>

text \<open>
  A small v3 certificate: critical basicConstraints and keyUsage, extKeyUsage serverAuth, one
  dNSName, a P-256 key and an ecdsa-with-SHA256 signature (of two bytes), and its parse.
\<close>

definition sample_cert :: bytes where
  "sample_cert =
    [48, 129, 190, 48, 129, 170, 160, 3, 2, 1, 2, 2, 1, 5, 48, 10, 6, 8, 42, 134, 72, 206, 61, 4, 3, 2, 48, 0, 
     48, 30, 23, 13, 50, 54, 48, 49, 48, 49, 48, 48, 48, 48, 48, 48, 90, 23, 13, 51, 54, 48, 49, 48, 49, 48, 48, 
     48, 48, 48, 48, 90, 48, 12, 49, 10, 48, 8, 6, 3, 85, 4, 3, 12, 1, 110, 48, 26, 48, 19, 6, 7, 42, 134, 72, 
     206, 61, 2, 1, 6, 8, 42, 134, 72, 206, 61, 3, 1, 7, 3, 3, 0, 4, 9, 163, 72, 48, 70, 48, 15, 6, 3, 85, 29, 19, 
     1, 1, 255, 4, 5, 48, 3, 1, 1, 255, 48, 14, 6, 3, 85, 29, 15, 1, 1, 255, 4, 4, 3, 2, 7, 128, 48, 19, 6, 3, 85, 
     29, 37, 4, 12, 48, 10, 6, 8, 43, 6, 1, 5, 5, 7, 3, 1, 48, 14, 6, 3, 85, 29, 17, 4, 7, 48, 5, 130, 3, 97, 46, 
     98, 48, 10, 6, 8, 42, 134, 72, 206, 61, 4, 3, 2, 3, 3, 0, 170, 187]"

definition sample_parsed :: x509_cert where
  "sample_parsed =
     \<lparr>c_tbs = Some 3, c_tbsLen = 173, c_sig = Some 191, c_sigLen = 2, c_pubKey = Some 100, c_pubKeyLen = 2,
      c_spki = Some 74, c_spkiLen = 28, c_notBefore = Some 30, c_notBeforeLen = 15, c_notAfter = Some 45,
      c_notAfterLen = 15, c_subjectCN = Some 73, c_subjectCNLen = 1, c_sigAlg = SIG_ECDSA_SHA256,
      c_keyAlg = KEY_ECDSA, c_curve = CURVE_P256, c_flags = 375, c_keyUsage = 128, c_extKeyUsage = 2,
      c_san = [(173, 3)]\<rparr>"

lemma der_while_eval:
  "der_while k en stop body (i, s) =
    (if i < en \<and> \<not> stop s then (if k = 0 then Inl Oob else bindE (body (i, s)) (der_while (k - 1) en stop body)) else Inr (i, s))"
  by (cases k) auto

lemmas der_eval = wn_Asn_GetHeader_def wn_Asn_GetLength_def rd_byte_def len_octets_num [simplified] u32_def u32_sub_def
  wn_Asn_GetHeaderExact_def wn_Asn_GetBitString_def wn_OidEq_def wn_MemEq_def slice_def der_while_eval tryE_def guardE_def

lemmas x509_eval = bc_ca_def wn_ExtBasicConstraints_def ku_padding_def ku_bits_def wn_ExtKeyUsage_def eku_step_def
  wn_ExtExtKeyUsage_def san_step_def wn_ExtAltName_def ext_critical_def ext_head_def ext_oids_def ext_handler_def
  ext_dispatch_def ext_step_def uid_step_def wn_ParseExtensions_def p_version_def p_serial_issuer_def p_validity_def
  p_subject_def p_spki_def same_bytes_def alg_params_def p_signature_def p_fields_def wn_X509_Parse_def wn_FindCN_def
  cn_rdn_def cn_atv_def cn_value_def cn_stop_def wn_HasNul_def WN_X509_MAX_DNS_NAME_def WN_X509_MAX_SAN_def
  wn_GetTime_def wn_ParseAlgIdOids_def wn_KeyAlgFromOid_def wn_CurveFromOid_def wn_SigAlgFromOid_def key_oids_def
  curve_oids_def sig_oids_def wn_SigAlgNoParams_def set_flags_def x509_zero_def

lemma parse_sample: "wn_X509_Parse toy_build (Some sample_cert) = Inr sample_parsed"
proof -
  have one: "\<not> (128 :: byte) \<le> 1" by (simp add: word_le_nat_alt)
  show ?thesis
    by (simp add: sample_cert_def sample_parsed_def toy_build_def der_eval x509_eval one)
qed

subsection \<open>Properties\<close>

text \<open>C33. The certificate parser is memory safe and terminates on every input: no read is outside the
  DER buffer, and the fields of an accepted certificate, each subject alternative name included,
  lie inside it.\<close>

theorem x509_parse_safe:
  "case wn_X509_Parse B (Some der) of Inl e \<Rightarrow> e \<noteq> Oob
   | Inr c \<Rightarrow> c_tbs c \<noteq> None \<and> c_sig c \<noteq> None \<and> c_pubKey c \<noteq> None \<and> c_spki c \<noteq> None \<and>
       fld (length der) (c_tbs c) (c_tbsLen c) \<and> fld (length der) (c_sig c) (c_sigLen c) \<and>
       fld (length der) (c_pubKey c) (c_pubKeyLen c) \<and> fld (length der) (c_spki c) (c_spkiLen c) \<and>
       fld (length der) (c_notBefore c) (c_notBeforeLen c) \<and> fld (length der) (c_notAfter c) (c_notAfterLen c) \<and>
       fld (length der) (c_subjectCN c) (c_subjectCNLen c) \<and> length (c_san c) \<le> WN_X509_MAX_SAN \<and>
       list_all (\<lambda>(a, k). a + k \<le> length der) (c_san c)"
proof (cases "wn_X509_Parse B (Some der)")
  case (Inl e)
  then show ?thesis using parse_shape [of B der] by (simp add: safeE_def)
next
  case (Inr c)
  then have "cert_shape B der c" using parse_shape [of B der] by (simp add: safeE_def)
  then show ?thesis
    unfolding Inr sum.case
    using cert_shape_flds [OF \<open>cert_shape B der c\<close>] by (auto simp: cert_shape_def spki_at_def signed_at_def)
qed

text \<open>C32. What an accepted certificate is, octet for octet: a SEQUENCE of the tbsCertificate the parser
  reports, itself a SEQUENCE, of an AlgorithmIdentifier whose bytes occur inside that
  tbsCertificate, and of a BIT STRING of no unused bits around the reported signature. Nothing
  precedes or follows. The reported SubjectPublicKeyInfo is a SEQUENCE of an algorithm SEQUENCE and a
  BIT STRING around the reported key, and it, the validity dates, the common name and every
  alternative name lie inside the tbsCertificate, not merely inside the input.\<close>

theorem x509_der_structure:
  assumes "wn_X509_Parse B (Some der) = Inr c"
  shows "\<exists>tbs body before alg after spki_alg a te.
       c_tbs c = Some a \<and> te = a + c_tbsLen c \<and> te \<le> length der \<and>
       tbs = slice a (c_tbsLen c) der \<and> tbs = tlv 0x30 body \<and> tbs = before @ alg @ after \<and>
       der = tlv 0x30 (tbs @ alg @ tlv 0x03 (0 # slice (the (c_sig c)) (c_sigLen c) der)) \<and>
       c_spki c \<noteq> None \<and> c_pubKey c \<noteq> None \<and>
       slice (the (c_spki c)) (c_spkiLen c) der =
         tlv 0x30 (tlv 0x30 spki_alg @ tlv 0x03 (0 # slice (the (c_pubKey c)) (c_pubKeyLen c) der)) \<and>
       inside a te (c_spki c) (c_spkiLen c) \<and> inside a te (c_pubKey c) (c_pubKeyLen c) \<and>
       inside a te (c_notBefore c) (c_notBeforeLen c) \<and> inside a te (c_notAfter c) (c_notAfterLen c) \<and>
       inside a te (c_subjectCN c) (c_subjectCNLen c) \<and> list_all (\<lambda>(p, k). inside a te (Some p) k) (c_san c)"
proof -
  have shape: "cert_shape B der c" using parse_shape [of B der] assms by (simp add: safeE_def)
  then obtain a sp e where s: "c_tbs c = Some a" "spki_at B der sp (a + c_tbsLen c) e c"
    unfolding cert_shape_def by blast
  have p: "cert_ptrs (length der) (a, a + c_tbsLen c) c" using shape s(1) by (simp add: cert_shape_def)
  have te: "a + c_tbsLen c \<le> length der" using p s(1) by (simp add: cert_ptrs_def)
  obtain sa where sa: "slice (the (c_spki c)) (c_spkiLen c) der =
      tlv 0x30 (tlv 0x30 sa @ tlv 0x03 (0 # slice (the (c_pubKey c)) (c_pubKeyLen c) der))"
    using spki_octets [OF s(2) te] by blast
  obtain before alg after where o: "slice a (c_tbsLen c) der = before @ alg @ after"
      "der = tlv 0x30 (slice a (c_tbsLen c) der @ alg @ tlv 0x03 (0 # slice (the (c_sig c)) (c_sigLen c) der))"
    using cert_octets [OF shape s(1)] by blast
  obtain body where body: "slice a (c_tbsLen c) der = tlv 0x30 body" using tbs_octets [OF shape s(1)] by blast
  have some: "c_spki c \<noteq> None" "c_pubKey c \<noteq> None" using s(2) by (auto simp: spki_at_def)
  have san: "list_all (\<lambda>(p, k). inside a (a + c_tbsLen c) (Some p) k) (c_san c)"
    using p by (auto simp: ptrs_defs name_in_def elim!: list.pred_mono_strong)
  show ?thesis
    by (rule exI [of _ "slice a (c_tbsLen c) der"], rule exI [of _ body], rule exI [of _ before], rule exI [of _ alg],
        rule exI [of _ after], rule exI [of _ sa], rule exI [of _ a], rule exI [of _ "a + c_tbsLen c"], intro conjI)
       (use p s(1) te sa body o some san in \<open>simp_all only: ptrs_defs fst_conv snd_conv refl not_False_eq_True\<close>)
qed

theorem x509_der_structure_witness:
  "\<exists>body before alg after spki_alg.
     slice 3 173 sample_cert = tlv 0x30 body \<and> slice 3 173 sample_cert = before @ alg @ after \<and>
     sample_cert = tlv 0x30 (slice 3 173 sample_cert @ alg @ tlv 0x03 (0 # slice 191 2 sample_cert)) \<and>
     slice 74 28 sample_cert = tlv 0x30 (tlv 0x30 spki_alg @ tlv 0x03 (0 # slice 100 2 sample_cert))"
  using x509_der_structure [OF parse_sample] by (auto simp: sample_parsed_def)

end
