(* ===== verification/X509Spki.thy ===== *)
theory X509Spki
  imports X509Cert
begin

section \<open>The key helpers agree with the certificate parse\<close>

text \<open>
  \<open>wn_X509_SpkiKeyInfo\<close> and \<open>wn_X509_SpkiRawKey\<close> read a SubjectPublicKeyInfo on its own, the
  CertificateVerify path gives them the one the parser reported. They see a slice of the
  certificate, so their indices are shifted.
\<close>

lemma slice_slice: "x + m \<le> n \<Longrightarrow> slice x m (slice a n xs) = slice (a + x) m xs"
  by (simp add: slice_def drop_take min_def add.commute)

lemma hdr_shift:
  assumes "hdr_at der tag idx en i len" "a \<le> idx" "en \<le> a + n" "a + n \<le> length der"
  shows "hdr_at (slice a n der) tag (idx - a) (en - a) (i - a) len"
proof -
  have "(idx - a) + (1 + length (enc_len len)) \<le> n"
    using assms by (auto simp: hdr_at_def)
  then show ?thesis
    using assms slice_slice [of "idx - a" "1 + length (enc_len len)" n a der] by (auto simp: hdr_at_def)
qed

lemma hdr_decodes:
  assumes "hdr_at der tag idx en i len" "der_ok der en"
  shows "wn_Asn_GetHeader der tag idx en = Inr (i, len)"
proof -
  have "idx \<le> en" using hdr_atD [OF assms(1)] by simp
  then show ?thesis
    using assms GetHeader_iff [of idx en der tag i len] by (simp add: hdr_at_def der_ok_def)
qed

lemma hdr_decoded:
  assumes "wn_Asn_GetHeader der tag idx en = Inr (i, len)" "der_ok der en" "idx \<le> en"
  shows "hdr_at der tag idx en i len"
  using safe_GetHeader [OF assms(2,3), of tag] assms(1) by (simp add: safeE_def)

lemma header_shift:
  assumes "wn_Asn_GetHeader der tag idx en = Inr (i, len)" "der_ok der en" "idx \<le> en"
    and "a \<le> idx" "en \<le> a + n" "a + n \<le> length der" "idx' = idx - a" "en' = en - a"
  shows "wn_Asn_GetHeader (slice a n der) tag idx' en' = Inr (i - a, len)"
  unfolding assms(7,8)
  by (rule hdr_decodes [OF hdr_shift [OF hdr_decoded [OF assms(1-3)] assms(4-6)]])
     (use assms(2,5,6) in \<open>simp add: der_ok_def\<close>)

lemma oid_chain_eq:
  assumes "at + len \<le> length der"
  shows "oid_chain der at len d ts = Inr (case map_of ts (slice at len der) of None \<Rightarrow> d | Some v \<Rightarrow> v)"
proof (induction ts)
  case (Cons t ts)
  have "wn_OidEq der at len (fst t) = Inr (slice at len der = fst t)"
    using assms by (cases "len = length (fst t)") (auto simp: wn_OidEq_def wn_MemEq_def dest: arg_cong [where f = length])
  then show ?case using Cons by (cases t) auto
qed simp

lemma oid_chain_shift:
  assumes "at + len \<le> a + n" "a \<le> at" "a + n \<le> length der" "at' = at - a"
  shows "oid_chain (slice a n der) at' len d ts = oid_chain der at len d ts"
  using assms slice_slice [of "at - a" len n a der] by (simp add: oid_chain_eq)

lemma AlgIdOids_shift:
  assumes "wn_ParseAlgIdOids B der idx en = Inr (t, ka, cu)" "der_ok der en" "idx \<le> en"
    and "a \<le> idx" "en \<le> a + n" "a + n \<le> length der"
  shows "wn_ParseAlgIdOids B (slice a n der) (idx - a) (en - a) = Inr (t - a, ka, cu)"
proof -
  let ?s = "slice a n der"
  obtain i l where 1: "wn_Asn_GetHeader der 6 idx en = Inr (i, l)"
    using assms(1) by (cases "wn_Asn_GetHeader der 6 idx en") (auto simp: wn_ParseAlgIdOids_def)
  note c1 = assms(1) [unfolded wn_ParseAlgIdOids_def 1 bindE_Inr prod.case]
  note h1 = hdr_atD [OF hdr_decoded [OF 1 assms(2,3)]]
  note D = der_okD [OF assms(2)]
  have "i - a + l < 4294967296" "i - a + l = i + l - a" using h1 D assms(4) by linarith+
  then have u: "u32 (i + l) = i + l" "u32 (i - a + l) = i + l - a" "a \<le> i"
    using h1 D assms(4) u32_small [of "i - a + l"] by simp_all
  note s1 = header_shift [OF 1 assms(2-6) refl refl]
  have k: "wn_KeyAlgFromOid B ?s (i - a) l = wn_KeyAlgFromOid B der i l"
    unfolding wn_KeyAlgFromOid_def by (rule oid_chain_shift) (use h1 assms(4-6) in simp_all)
  obtain alg where alg: "wn_KeyAlgFromOid B der i l = Inr alg"
    unfolding wn_KeyAlgFromOid_def using oid_chain_eq [of i l der] h1 D by fastforce
  note c2 = c1 [unfolded alg bindE_Inr Let_def u(1)]
  have ui: "i + l \<le> en" "a \<le> i + l" using h1 u(3) by simp_all
  note sh = header_shift [OF _ assms(2) ui(1,2) assms(5,6) refl refl]
  show ?thesis
  proof (cases "alg = KEY_ECDSA")
    case True
    note c3 = c2 [unfolded if_P [OF True]]
    obtain j m where j: "wn_Asn_GetHeader der 6 (i + l) en = Inr (j, m)"
      using c3 by (cases "wn_Asn_GetHeader der 6 (i + l) en") auto
    note c4 = c3 [unfolded j bindE_Inr prod.case]
    obtain cv where v: "wn_CurveFromOid B der j m = Inr cv"
      unfolding wn_CurveFromOid_def using oid_chain_eq [of j m der] hdr_atD [OF hdr_decoded [OF j assms(2) ui(1)]] D
      by fastforce
    have 2: "wn_Asn_GetHeader der 6 (i + l) en = Inr (j, m)" "wn_CurveFromOid B der j m = Inr cv"
      "u32 (j + m) = en" "t = en" "ka = KEY_ECDSA" "cu = cv"
      using j v c4 [unfolded v bindE_Inr] True by (auto split: if_splits)
    note h2 = hdr_atD [OF hdr_decoded [OF 2(1) assms(2) ui(1)]]
    have "j + m = en" using h2 2(3) D by simp
    then have "j - a + m = en - a" "a \<le> j" "en - a < 4294967296" using h2 u(3) D by linarith+
    then have e: "u32 (j - a + m) = en - a" "a \<le> j" by simp_all
    have cv: "wn_CurveFromOid B ?s (j - a) m = Inr cv"
      unfolding 2(2) [symmetric] wn_CurveFromOid_def by (rule oid_chain_shift) (use h2 e assms(4-6) in simp_all)
    show ?thesis
      unfolding wn_ParseAlgIdOids_def s1 bindE_Inr prod.case k alg Let_def u(2) if_P [OF True] sh [OF 2(1)] cv
      using e 2(4-6) True by simp
  next
    case F1: False
    show ?thesis
    proof (cases "alg = KEY_RSA")
      case True
      note c3 = c2 [unfolded if_not_P [OF F1] if_P [OF True]]
      obtain j m where j: "wn_Asn_GetHeader der 5 (i + l) en = Inr (j, m)"
        using c3 by (cases "wn_Asn_GetHeader der 5 (i + l) en") auto
      have 2: "wn_Asn_GetHeader der 5 (i + l) en = Inr (j, 0)" "j = en" "t = en" "ka = KEY_RSA" "cu = CURVE_NONE"
        using c3 [unfolded j bindE_Inr prod.case] j True by (auto split: if_splits)
      show ?thesis
        unfolding wn_ParseAlgIdOids_def s1 bindE_Inr prod.case k alg Let_def u(2) if_not_P [OF F1] if_P [OF True] sh [OF 2(1)]
        using 2(2-5) True by simp
    next
      case F2: False
      then show ?thesis
        unfolding wn_ParseAlgIdOids_def
        unfolding s1 bindE_Inr prod.case k alg Let_def u(2) if_not_P [OF F1] if_not_P [OF F2]
        using c2 [unfolded if_not_P [OF F1] if_not_P [OF F2]] ui by (auto split: if_splits)
    qed
  qed
qed

lemma BitString_shift:
  assumes "wn_Asn_GetBitString der idx en = Inr (p, k, e)" "hdr_at der 0x03 idx en (p - 1) (k + 1)" "0 < p" "der ! (p - 1) = 0"
    and "e = p + k" "der_ok der en" "a \<le> idx" "en \<le> a + n" "a + n \<le> length der"
  shows "wn_Asn_GetBitString (slice a n der) (idx - a) (en - a) = Inr (p - a, k, e - a)"
proof -
  note h = hdr_atD [OF assms(2)]
  have D: "der_ok (slice a n der) (en - a)" using assms(6,8,9) by (simp add: der_ok_def)
  note g = hdr_decodes [OF hdr_shift [OF assms(2,7-9)] D]
  have x: "p - 1 - a < n" "a + (p - 1 - a) = p - 1" using h assms(3,7,8) by linarith+
  have z: "slice a n der ! (p - 1 - a) = 0"
    using nth_slice [OF x(1) assms(9)] x(2) assms(4) by simp
  have "p - 1 - a + 1 = p - a" "p - a + k = e - a" "p - a < 4294967296" "e - a < 4294967296"
    using h assms(3,5-8) x(2) der_okD [OF assms(6)] by linarith+
  then have u: "u32 (p - 1 - a + 1) = p - a" "u32 (p - a + k) = e - a" "p - 1 - a < length (slice a n der)"
    using assms(9) x(1) by simp_all
  show ?thesis
    unfolding wn_Asn_GetBitString_def using g z u by simp
qed

lemma spki_agree:
  assumes "wn_X509_Parse B (Some der) = Inr c" "spki = slice (the (c_spki c)) (c_spkiLen c) der"
  shows "wn_X509_SpkiKeyInfo B (Some spki) = Inr (c_keyAlg c, c_curve c) \<and>
    (case wn_X509_SpkiRawKey (Some spki) of Inl _ \<Rightarrow> False
     | Inr (off, n) \<Rightarrow> n = c_pubKeyLen c \<and> slice off n spki = slice (the (c_pubKey c)) (c_pubKeyLen c) der)"
proof -
  have "cert_shape B der c" using parse_shape [of B der] assms(1) by (simp add: safeE_def)
  then obtain a te e where sp: "spki_at B der a te e c" and te: "te \<le> length der"
    unfolding cert_shape_def cert_ptrs_def by (auto dest!: hdr_atD)
  from sp obtain i len j al t pk where s: "hdr_at der 0x30 a te i len" "e = i + len" "hdr_at der 0x30 i e j al"
     "wn_ParseAlgIdOids B der j (j + al) = Inr (t, c_keyAlg c, c_curve c)"
     "wn_Asn_GetBitString der (j + al) e = Inr (pk, c_pubKeyLen c, e)"
     "hdr_at der 0x03 (j + al) e (pk - 1) (c_pubKeyLen c + 1)" "0 < pk" "pk + c_pubKeyLen c = e" "der ! (pk - 1) = 0"
     "c_spki c = Some a" "c_spkiLen c = e - a" "c_pubKey c = Some pk"
    unfolding spki_at_def by blast
  note h1 = hdr_atD [OF s(1)]
  note h2 = hdr_atD [OF s(3)]
  note h3 = hdr_atD [OF s(6)]
  have len: "length der < 2147483648"
    using assms(1) by (auto simp: wn_X509_Parse_def Let_def split: if_splits)
  define n where "n = e - a"
  have ae: "a \<le> e" "a + n = e" "e \<le> length der" using h1 s(2) te by (simp_all add: n_def)
  have D: "der_ok der e" "der_ok der (j + al)" using ae(3) len h2 by (simp_all add: der_ok_def)
  have spki: "spki = slice a n der" "length spki = n"
    using assms(2) s(10,11) ae by (simp_all add: n_def)
  have De: "der_ok spki n" "der_ok spki (j + al - a)"
    using spki(2) ae len h2 diff_le_mono [of "j + al" e a] by (simp_all add: der_ok_def n_def)
  have a0: "hdr_at der 0x30 a e i len" using s(1,2) by (simp add: hdr_at_def)
  have g1: "wn_Asn_GetHeader spki 0x30 0 n = Inr (i - a, len)"
    using hdr_decodes [OF hdr_shift [OF a0 order_refl, of n]] ae De(1) spki(1) by (simp add: n_def)
  have g2: "wn_Asn_GetHeader spki 0x30 (i - a) n = Inr (j - a, al)"
    using hdr_decodes [OF hdr_shift [OF s(3), of a n]] ae De(1) spki(1) h1 by (simp add: n_def)
  have "j - a + al = j + al - a" "j + al - a < 4294967296" using h1 h2 len ae by linarith+
  then have u: "u32 (j - a + al) = j + al - a" by simp
  have g3: "wn_ParseAlgIdOids B spki (j - a) (j + al - a) = Inr (t - a, c_keyAlg c, c_curve c)"
    unfolding spki(1) by (rule AlgIdOids_shift [OF s(4) D(2)]) (use h1 h2 ae in simp_all)
  have g4: "wn_Asn_GetBitString spki (j + al - a) n = Inr (pk - a, c_pubKeyLen c, e - a)"
    using BitString_shift [OF s(5-7,9) s(8) [symmetric] D(1), of a n] ae h1 h2 spki(1) by (simp add: n_def)
  have "wn_X509_SpkiKeyInfo B (Some spki) = Inr (c_keyAlg c, c_curve c)"
    by (simp add: wn_X509_SpkiKeyInfo_def spki(2) g1 g2 u g3)
  moreover have "wn_X509_SpkiRawKey (Some spki) = Inr (pk - a, c_pubKeyLen c)"
    by (simp add: wn_X509_SpkiRawKey_def spki(2) g1 g2 u g4)
  moreover have "slice (pk - a) (c_pubKeyLen c) spki = slice pk (c_pubKeyLen c) der"
    unfolding spki(1) using slice_slice [of "pk - a" "c_pubKeyLen c" n a der] s(7,8) h1 h2 h3 ae by (simp add: n_def)
  ultimately show ?thesis
    by (simp add: s(12))
qed

subsection \<open>Property\<close>

text \<open>C34. The key a CertificateVerify is checked with is the certificate's: on the SubjectPublicKeyInfo
  of an accepted certificate, \<open>wn_X509_SpkiKeyInfo\<close> returns the key type and curve the parse
  recorded and \<open>wn_X509_SpkiRawKey\<close> the same public key bytes.\<close>

theorem spki_helpers_agree:
  assumes "wn_X509_Parse B (Some der) = Inr c" "spki = slice (the (c_spki c)) (c_spkiLen c) der"
  shows "wn_X509_SpkiKeyInfo B (Some spki) = Inr (c_keyAlg c, c_curve c) \<and>
    (case wn_X509_SpkiRawKey (Some spki) of Inl _ \<Rightarrow> False
     | Inr (off, n) \<Rightarrow> n = c_pubKeyLen c \<and> slice off n spki = slice (the (c_pubKey c)) (c_pubKeyLen c) der)"
  by (rule spki_agree [OF assms])

theorem spki_helpers_agree_witness:
  "wn_X509_SpkiKeyInfo toy_build (Some (slice (the (c_spki sample_parsed)) (c_spkiLen sample_parsed) sample_cert)) =
     Inr (c_keyAlg sample_parsed, c_curve sample_parsed) \<and>
   (case wn_X509_SpkiRawKey (Some (slice (the (c_spki sample_parsed)) (c_spkiLen sample_parsed) sample_cert)) of
      Inl _ \<Rightarrow> False
    | Inr (off, n) \<Rightarrow> n = c_pubKeyLen sample_parsed \<and>
        slice off n (slice (the (c_spki sample_parsed)) (c_spkiLen sample_parsed) sample_cert) =
        slice (the (c_pubKey sample_parsed)) (c_pubKeyLen sample_parsed) sample_cert)"
  by (rule spki_helpers_agree [OF parse_sample refl])

end
