(* ===== verification/X509Time.thy ===== *)
theory X509Time
  imports X509Cert "HOL-Library.Signed_Division"
begin

section \<open>Validity times (wn_x509.c, last part)\<close>

text \<open>
  The two Time values of a certificate are read as digits and turned into seconds since 1970.
  The C expressions keep their types: \<open>sdiv\<close> is C's division of signed integers, which
  truncates, and \<open>unsigned32\<close> the conversion to \<open>unsigned\<close>. The signed sums stay far inside
  their type, since a year has four digits.

  The calendar the arithmetic is compared with is \<open>next_day\<close>, the rule for the day after.
\<close>

subsection \<open>The code\<close>

definition unsigned32 :: "int \<Rightarrow> int" where
  "unsigned32 x = x mod 4294967296"

definition wn_DaysFromCivil :: "int \<Rightarrow> int \<Rightarrow> int \<Rightarrow> int" where
  "wn_DaysFromCivil y0 m d =
     (let y = (if m \<le> 2 then y0 - 1 else y0);
          era = (if y \<ge> 0 then y else y - 399) sdiv 400;
          yoe = unsigned32 (y - era * 400);
          doy = unsigned32 ((153 * (m + (if m > 2 then - 3 else 9)) + 2) sdiv 5 + d - 1);
          doe = unsigned32 (yoe * 365 + yoe div 4 - yoe div 100 + doy)
      in era * 146097 + doe - 719468)"

definition wn_DaysInMonth :: "int \<Rightarrow> int \<Rightarrow> int" where
  "wn_DaysInMonth y m =
     (let leap = (y mod 4 = 0 \<and> (y mod 100 \<noteq> 0 \<or> y mod 400 = 0))
      in if m = 2 \<and> leap then 29
         else [31, 28, 31, 30, 31, 30, 31, 31, 30, 31, 30, 31] ! nat (m - 1))"

definition wn_Dig2 :: "bytes \<Rightarrow> nat \<Rightarrow> wn_err + int" where
  "wn_Dig2 der p =
     bindE (rd_byte der p) (\<lambda>a.
       if a < 48 \<or> a > 57 then Inl E_X509_DECODE
       else bindE (rd_byte der (p + 1)) (\<lambda>b.
         if b < 48 \<or> b > 57 then Inl E_X509_DECODE
         else Inr ((int (unat a) - 48) * 10 + (int (unat b) - 48))))"

text \<open>The year, and the address of the month.\<close>

definition time_year :: "build \<Rightarrow> bytes \<Rightarrow> nat \<Rightarrow> byte \<Rightarrow> byte \<Rightarrow> wn_err + int \<times> nat" where
  "time_year B der p tag contentLen =
     (if tag = 0x17 \<and> contentLen = 13 then
        bindE (wn_Dig2 der p) (\<lambda>y. Inr (y + (if y < 50 then 2000 else 1900), p + 2))
      else if x509_gentime B \<and> tag = 0x18 \<and> contentLen = 15 then
        bindE (wn_Dig2 der p) (\<lambda>c. bindE (wn_Dig2 der (p + 2)) (\<lambda>y. Inr (y + c * 100, p + 4)))
      else Inl E_X509_DECODE)"

definition time_fields :: "bytes \<Rightarrow> nat \<Rightarrow> wn_err + int \<times> int \<times> int \<times> int \<times> int" where
  "time_fields der p =
     bindE (wn_Dig2 der p) (\<lambda>mo.
     bindE (wn_Dig2 der (p + 2)) (\<lambda>d.
     bindE (wn_Dig2 der (p + 4)) (\<lambda>h.
     bindE (wn_Dig2 der (p + 6)) (\<lambda>mi.
     bindE (wn_Dig2 der (p + 8)) (\<lambda>s.
     bindE (rd_byte der (p + 10)) (\<lambda>z.
       if z \<noteq> 0x5A then Inl E_X509_DECODE else Inr (mo, d, h, mi, s)))))))"

definition wn_CertTimeEpoch :: "build \<Rightarrow> bytes \<Rightarrow> nat option \<Rightarrow> nat \<Rightarrow> wn_err + int" where
  "wn_CertTimeEpoch B der tlvAt tlvLen =
     (case tlvAt of None \<Rightarrow> Inl E_X509_DECODE
      | Some at \<Rightarrow>
        if tlvLen < 2 then Inl E_X509_DECODE
        else bindE (rd_byte der (at + 1)) (\<lambda>contentLen.
          if unat contentLen + 2 \<noteq> tlvLen then Inl E_X509_DECODE
          else
        bindE (rd_byte der at) (\<lambda>tag.
        bindE (time_year B der (at + 2) tag contentLen) (\<lambda>(y, p).
        bindE (time_fields der p) (\<lambda>(mo, d, h, mi, s).
          if mo < 1 \<or> mo > 12 \<or> d < 1 \<or> d > wn_DaysInMonth y mo \<or> h > 23 \<or> mi > 59 \<or> s > 60
          then Inl E_X509_DECODE
          else Inr (wn_DaysFromCivil y mo d * 86400 + h * 3600 + mi * 60 + s))))))"

definition wn_X509_TimeValid :: "build \<Rightarrow> bytes \<Rightarrow> x509_cert option \<Rightarrow> int \<Rightarrow> wn_err + unit" where
  "wn_X509_TimeValid B der c now =
     (case c of None \<Rightarrow> Inl E_INVALID_ARG
      | Some cert \<Rightarrow>
        bindE (wn_CertTimeEpoch B der (c_notBefore cert) (c_notBeforeLen cert)) (\<lambda>nb.
        bindE (wn_CertTimeEpoch B der (c_notAfter cert) (c_notAfterLen cert)) (\<lambda>na.
          if now < nb \<or> now > na then Inl E_BAD_CERT else Inr ())))"

subsection \<open>The calendar\<close>

definition month_days :: "int \<Rightarrow> int \<Rightarrow> int" where
  "month_days y m =
     (if m = 2 then (if 4 dvd y \<and> (\<not> 100 dvd y \<or> 400 dvd y) then 29 else 28)
      else if m \<in> {4, 6, 9, 11} then 30 else 31)"

type_synonym date = "int \<times> int \<times> int"

fun valid_date :: "date \<Rightarrow> bool" where
  "valid_date (y, m, d) = (1 \<le> m \<and> m \<le> 12 \<and> 1 \<le> d \<and> d \<le> month_days y m)"

fun next_day :: "date \<Rightarrow> date" where
  "next_day (y, m, d) =
     (if d < month_days y m then (y, m, d + 1) else if m < 12 then (y, m + 1, 1) else (y + 1, 1, 1))"

fun day_number :: "date \<Rightarrow> int" where
  "day_number (y, m, d) = wn_DaysFromCivil y m d"

lemma month_cases: "1 \<le> m \<Longrightarrow> m \<le> 12 \<Longrightarrow>
  (m :: int) = 1 \<or> m = 2 \<or> m = 3 \<or> m = 4 \<or> m = 5 \<or> m = 6 \<or> m = 7 \<or> m = 8 \<or> m = 9 \<or> m = 10 \<or> m = 11 \<or> m = 12"
proof -
  assume m: "1 \<le> m" "m \<le> 12"
  then have "m \<le> 6 \<Longrightarrow> m = 1 \<or> m = 2 \<or> m = 3 \<or> m = 4 \<or> m = 5 \<or> m = 6"
    "\<not> m \<le> 6 \<Longrightarrow> m = 7 \<or> m = 8 \<or> m = 9 \<or> m = 10 \<or> m = 11 \<or> m = 12" by linarith+
  then show ?thesis by blast
qed

lemma div_split: "(a :: int) = b * q + r \<Longrightarrow> 0 \<le> r \<Longrightarrow> r < b \<Longrightarrow> a div b = q"
  by (rule int_div_pos_eq)

lemma DaysInMonth_eq: "1 \<le> m \<Longrightarrow> m \<le> 12 \<Longrightarrow> wn_DaysInMonth y m = month_days y m"
  by (drule (1) month_cases, elim disjE)
    (simp_all add: wn_DaysInMonth_def month_days_def Let_def dvd_eq_mod_eq_0 del: One_nat_def)

lemma month_days_pos: "28 \<le> month_days y m" "month_days y m \<le> 31"
  by (simp_all add: month_days_def)

lemma sdiv_pos: "0 \<le> a \<Longrightarrow> 0 < b \<Longrightarrow> a sdiv b = a div (b :: int)"
  by (cases "a = 0") (simp_all add: signed_divide_int_def)

text \<open>The truncating division of the code, with its \<open>- 399\<close>, rounds down.\<close>

lemma era_eq: "(if y \<ge> 0 then y else y - 399) sdiv 400 = (y :: int) div 400"
proof (cases "0 \<le> y")
  case False
  have "(399 - y) div 400 = - (y div 400)"
  proof (rule div_split)
    show "399 - y = 400 * - (y div 400) + (399 - y mod 400)"
      using mult_div_mod_eq [of 400 y] by linarith
  qed simp_all
  then show ?thesis using False by (simp add: signed_divide_int_def)
qed (simp add: sdiv_pos)

definition month_start :: "int \<Rightarrow> int" where
  "month_start m = (153 * (m + (if m > 2 then - 3 else 9)) + 2) div 5"

lemma days_closed:
  assumes "1 \<le> m" "m \<le> 12" "1 \<le> d" "d \<le> 31"
  shows "wn_DaysFromCivil y m d =
    (let z = (if m \<le> 2 then y - 1 else y) in 365 * z + z div 4 - z div 100 + z div 400 + month_start m + d - 719469)"
proof -
  define z where "z = (if m \<le> 2 then y - 1 else y)"
  define q where "q = z div 400"
  define r where "r = z mod 400"
  have zr: "z = q * 400 + r" "0 \<le> r" "r < 400" by (simp_all add: q_def r_def)
  have ms: "0 \<le> month_start m" "month_start m \<le> 337"
    using month_cases [OF assms(1,2)] by (auto simp: month_start_def)
  have "(153 * (m + (if m > 2 then - 3 else 9)) + 2) sdiv 5 = month_start m"
    unfolding month_start_def by (rule sdiv_pos) (use assms in auto)
  then have "wn_DaysFromCivil y m d = q * 146097 + unsigned32 (unsigned32 (z - q * 400) * 365 + unsigned32 (z - q * 400) div 4 -
      unsigned32 (z - q * 400) div 100 + unsigned32 (month_start m + d - 1)) - 719468"
    by (simp only: wn_DaysFromCivil_def Let_def z_def [symmetric] era_eq q_def)
  moreover have "unsigned32 (z - q * 400) = r" using zr by (simp add: unsigned32_def)
  moreover have "unsigned32 (month_start m + d - 1) = month_start m + d - 1"
    using ms assms(3,4) by (simp add: unsigned32_def)
  moreover have "0 \<le> r div 4" "r div 4 < 100" "0 \<le> r div 100" "r div 100 < 4" using zr(2,3) by auto
  then have "unsigned32 (r * 365 + r div 4 - r div 100 + (month_start m + d - 1)) = r * 365 + r div 4 - r div 100 + (month_start m + d - 1)"
    unfolding unsigned32_def using zr(2,3) ms assms(3,4) by (intro mod_pos_pos_trivial) linarith+
  ultimately have "wn_DaysFromCivil y m d = q * 146097 + (r * 365 + r div 4 - r div 100 + (month_start m + d - 1)) - 719468"
    by simp
  moreover have "z div 4 = 100 * q + r div 4" "z div 100 = 4 * q + r div 100"
    using div_mult_self3 [of 4 "100 * q" r] div_mult_self3 [of 100 "4 * q" r] zr(1) by simp_all
  ultimately show ?thesis
    unfolding Let_def z_def [symmetric] q_def [symmetric] using zr(1) by simp
qed

lemma next_valid: "valid_date D \<Longrightarrow> valid_date (next_day D)"
proof (cases D rule: valid_date.cases)
  case (1 y m d)
  assume "valid_date D"
  then show ?thesis
    using month_days_pos(1) [of y "m + 1"] month_days_pos(1) [of "y + 1" 1] unfolding 1 next_day.simps
    by (simp only: valid_date.simps split: if_split) auto
qed

lemma leap_step: "0 < n \<Longrightarrow> (y :: int) div n = (y - 1) div n + (if n dvd y then 1 else 0)"
proof -
  assume n: "0 < n"
  have y: "y = n * (y div n) + y mod n" "0 \<le> y mod n" "y mod n < n" using n by simp_all
  show ?thesis
  proof (cases "n dvd y")
    case True
    then have "(y - 1) div n = y div n - 1"
      using y n by (intro div_split [of _ _ _ "n - 1"]) (simp_all add: right_diff_distrib)
    then show ?thesis using True by simp
  next
    case False
    then have "0 < y mod n" using y(2) by (simp add: dvd_eq_mod_eq_0 order_less_le)
    then have "(y - 1) div n = y div n"
      using y by (intro div_split [of _ _ _ "y mod n - 1"]) simp_all
    then show ?thesis using False by simp
  qed
qed

lemma feb_leap: "400 dvd (y :: int) \<Longrightarrow> 100 dvd y" "100 dvd y \<Longrightarrow> 4 dvd y"
  by (erule dvd_trans [rotated], simp)+

lemma leap_rule:
  "(r \<Longrightarrow> q) \<Longrightarrow> (q \<Longrightarrow> p) \<Longrightarrow>
  (if p \<and> (\<not> q \<or> r) then 29 else 28) = 28 + (if p then 1 else 0) - (if q then 1 else 0) + (if r then 1 else (0 :: int))"
  by (cases p; cases q; cases r) simp_all

lemma feb_sum: "md = 28 + p - q + r \<Longrightarrow>
  365 * y + (A + p) - (B + q) + (C + r) - 719468 = 365 * (y - 1) + A - B + C + md - 719132 + (1 :: int)"
  by simp

lemma feb_end: "wn_DaysFromCivil y 3 1 = wn_DaysFromCivil y 2 (month_days y 2) + 1"
proof -
  have e: "wn_DaysFromCivil y 3 1 = 365 * y + y div 4 - y div 100 + y div 400 - 719468"
    by (simp add: days_closed month_start_def)
  have f: "wn_DaysFromCivil y 2 d = 365 * (y - 1) + (y - 1) div 4 - (y - 1) div 100 + (y - 1) div 400 + d - 719132"
    if "1 \<le> d" "d \<le> 31" for d using that by (simp only: days_closed Let_def) (simp add: month_start_def)
  have g: "month_days y 2 = 28 + (if 4 dvd y then 1 else 0) - (if 100 dvd y then 1 else 0) + (if 400 dvd y then 1 else 0)"
    unfolding month_days_def if_P [OF refl] by (rule leap_rule [OF feb_leap])
  have "1 \<le> month_days y 2" "month_days y 2 \<le> 31" using month_days_pos [of y 2] by simp_all
  note q = f [OF this]
  show ?thesis
    unfolding q e leap_step [of 4 y, simplified] leap_step [of 100 y, simplified] leap_step [of 400 y, simplified]
    by (rule feb_sum [OF g])
qed

lemma year_end: "wn_DaysFromCivil (y + 1) 1 1 = wn_DaysFromCivil y 12 (month_days y 12) + 1"
  by (simp add: days_closed month_start_def month_days_def)

lemma month_end:
  "1 \<le> m \<Longrightarrow> m < 12 \<Longrightarrow> wn_DaysFromCivil y (m + 1) 1 = wn_DaysFromCivil y m (month_days y m) + 1"
proof -
  assume "1 \<le> m" "m < 12"
  then have "m = 2 \<or> m = 1 \<or> m = 3 \<or> m = 4 \<or> m = 5 \<or> m = 6 \<or> m = 7 \<or> m = 8 \<or> m = 9 \<or> m = 10 \<or> m = 11"
    using month_cases [of m] by auto
  then show ?thesis
    by (elim disjE) (simp add: feb_end, simp_all add: days_closed month_start_def month_days_def Let_def)
qed

lemma next_number: "valid_date D \<Longrightarrow> day_number (next_day D) = day_number D + 1"
proof (cases D rule: valid_date.cases)
  case (1 y m d)
  assume v: "valid_date D"
  then have v: "1 \<le> m" "m \<le> 12" "1 \<le> d" "d \<le> month_days y m" "d \<le> 31"
    using month_days_pos(2) [of y m] by (auto simp: 1)
  show ?thesis
  proof (cases "d < month_days y m")
    case True
    then show ?thesis
      using v month_days_pos(2) [of y m] by (simp add: 1 days_closed Let_def)
  next
    case False
    then have d: "d = month_days y m" using v by simp
    show ?thesis
      unfolding 1 next_day.simps d using v(1,2) by (simp add: month_end year_end)
  qed
qed

lemma days_valid: "valid_date D \<Longrightarrow> valid_date ((next_day ^^ n) D) \<and> day_number ((next_day ^^ n) D) = day_number D + int n"
  by (induction n) (auto simp: next_number next_valid simp del: next_day.simps valid_date.simps day_number.simps)

lemma epoch_0: "wn_DaysFromCivil 1970 1 1 = 0"
  by (simp add: days_closed month_start_def)

subsection \<open>Reading a Time\<close>

text \<open>The two digits of a number, and the encodings of a time of day on a day.\<close>

definition two :: "nat \<Rightarrow> bytes" where
  "two n = [of_nat (48 + n div 10), of_nat (48 + n mod 10)]"

lemma length_two [simp]: "length (two n) = 2"
  by (simp add: two_def)

lemma digit_byte: "n < 10 \<Longrightarrow> unat (of_nat (48 + n) :: byte) = 48 + n"
  by (simp only: unat_of_nat_byte) simp

lemma digit_range: "n < 10 \<Longrightarrow> \<not> (of_nat (48 + n) :: byte) < 48 \<and> \<not> (of_nat (48 + n) :: byte) > 57"
  by (simp only: word_less_nat_alt digit_byte) simp

lemma Dig2_two:
  assumes "slice p 2 der = two n" "p + 2 \<le> length der" "n < 100"
  shows "wn_Dig2 der p = Inr (int n)"
proof -
  have d: "n div 10 < 10" "n mod 10 < 10" using assms(3) by simp_all
  have "der ! p = of_nat (48 + n div 10)" "der ! (p + 1) = of_nat (48 + n mod 10)"
    using assms nth_slice [of 0 2 p der] nth_slice [of 1 2 p der] by (simp_all add: two_def)
  then have r: "rd_byte der p = Inr (of_nat (48 + n div 10))" "rd_byte der (p + 1) = Inr (of_nat (48 + n mod 10))"
    using assms(2) by simp_all
  have "int (n div 10) * 10 + int (n mod 10) = int n"
    by (simp add: zdiv_int zmod_int)
  then show ?thesis
    unfolding wn_Dig2_def r bindE_Inr using digit_range [OF d(1)] digit_range [OF d(2)]
    by (simp only: digit_byte [OF d(1)] digit_byte [OF d(2)] if_False de_Morgan_disj simp_thms) simp
qed

lemma safe_Dig2: "p + 2 \<le> length der \<Longrightarrow> safeE (wn_Dig2 der p) (\<lambda>_. True)"
  unfolding wn_Dig2_def by (auto intro!: safe_rules safeE_rd_bind)

lemma safe_year:
  "p + unat n \<le> length der \<Longrightarrow> safeE (time_year B der p tag n) (\<lambda>(_, q). q + 11 \<le> length der)"
  unfolding time_year_def
  by (auto intro!: safe_rules safeE_bind [OF safe_Dig2])

lemma safe_time_fields: "p + 11 \<le> length der \<Longrightarrow> safeE (time_fields der p) (\<lambda>_. True)"
  unfolding time_fields_def by (intro safe_rules safeE_bind [OF safe_Dig2] safeE_rd_bind) simp_all

lemma safe_Epoch:
  assumes "fld (length der) at n"
  shows "safeE (wn_CertTimeEpoch B der at n) (\<lambda>_. True)"
proof (cases at)
  case (Some a)
  have "safeE (bindE (time_year B der (a + 2) tag m) (\<lambda>(y, p). bindE (time_fields der p) (\<lambda>(mo, d, h, mi, s).
      if mo < 1 \<or> mo > 12 \<or> d < 1 \<or> d > wn_DaysInMonth y mo \<or> h > 23 \<or> mi > 59 \<or> s > 60 then Inl E_X509_DECODE
      else Inr (wn_DaysFromCivil y mo d * 86400 + h * 3600 + mi * 60 + s)))) (\<lambda>_. True)"
    if "unat m + 2 = n" for tag m
    by (rule safeE_bind2 [OF safe_year], use assms that Some in simp, unfold prod.case)
      (auto intro!: safe_rules safeE_bind [OF safe_time_fields])
  then show ?thesis
    using assms unfolding wn_CertTimeEpoch_def Some option.case fld_simps
    by (auto intro!: safe_rules safeE_rd_bind)
qed (simp add: wn_CertTimeEpoch_def safe_rules)

text \<open>
  The time of day and the date in digits, as UTCTime (two digits of the year) and as
  GeneralizedTime (four). \<open>encodes_time B bs t\<close>: the octets denote the \<open>t\<close>-th second since
  1970-01-01; the date is found by counting days on the calendar.
\<close>

definition digits :: "nat \<Rightarrow> nat \<Rightarrow> nat \<Rightarrow> nat \<Rightarrow> nat \<Rightarrow> bytes" where
  "digits mo d h mi s = two mo @ two d @ two h @ two mi @ two s @ [0x5A]"

definition utc_time :: "nat \<Rightarrow> nat \<Rightarrow> nat \<Rightarrow> nat \<Rightarrow> nat \<Rightarrow> nat \<Rightarrow> bytes" where
  "utc_time y mo d h mi s = [0x17, 13] @ two (y mod 100) @ digits mo d h mi s"

definition gen_time :: "nat \<Rightarrow> nat \<Rightarrow> nat \<Rightarrow> nat \<Rightarrow> nat \<Rightarrow> nat \<Rightarrow> bytes" where
  "gen_time y mo d h mi s = [0x18, 15] @ two (y div 100) @ two (y mod 100) @ digits mo d h mi s"

definition encodes_time :: "build \<Rightarrow> bytes \<Rightarrow> nat \<Rightarrow> bool" where
  "encodes_time B bs t \<longleftrightarrow> (\<exists>n y mo d h mi s.
     (int y, int mo, int d) = (next_day ^^ n) (1970, 1, 1) \<and> h < 24 \<and> mi < 60 \<and> s \<le> 60 \<and>
     t = 86400 * n + 3600 * h + 60 * mi + s \<and>
     (y < 2050 \<and> bs = utc_time y mo d h mi s \<or> y < 10000 \<and> x509_gentime B \<and> bs = gen_time y mo d h mi s))"

lemma year_mono: "fst D \<le> fst ((next_day ^^ n) D)"
proof (induction n)
  case (Suc n)
  then show ?case by (cases "(next_day ^^ n) D") auto
qed simp

lemma fields_digits:
  assumes "slice p 11 der = digits mo d h mi s" "p + 11 \<le> length der" "mo < 100" "d < 100" "h < 100" "mi < 100" "s < 100"
  shows "time_fields der p = Inr (int mo, int d, int h, int mi, int s)"
proof -
  have a: "slice p 2 der = two mo \<and> slice (p + 2) 9 der = two d @ two h @ two mi @ two s @ [0x5A]"
    by (rule slice_app [OF assms(1) [unfolded digits_def] assms(2)]) simp_all
  have b: "slice (p + 2) 2 der = two d \<and> slice (p + 4) 7 der = two h @ two mi @ two s @ [0x5A]"
    by (rule slice_app [OF conjunct2 [OF a]]) (use assms(2) in simp_all)
  have c: "slice (p + 4) 2 der = two h \<and> slice (p + 6) 5 der = two mi @ two s @ [0x5A]"
    by (rule slice_app [OF conjunct2 [OF b]]) (use assms(2) in simp_all)
  have e: "slice (p + 6) 2 der = two mi \<and> slice (p + 8) 3 der = two s @ [0x5A]"
    by (rule slice_app [OF conjunct2 [OF c]]) (use assms(2) in simp_all)
  have f: "slice (p + 8) 2 der = two s \<and> slice (p + 10) 1 der = [0x5A]"
    by (rule slice_app [OF conjunct2 [OF e]]) (use assms(2) in simp_all)
  have "rd_byte der (p + 10) = Inr 0x5A"
    using f assms(2) nth_slice [of 0 1 "p + 10" der] by simp
  then show ?thesis
    unfolding time_fields_def
    using Dig2_two [of p der mo] Dig2_two [of "p + 2" der d] Dig2_two [of "p + 4" der h] Dig2_two [of "p + 6" der mi]
      Dig2_two [of "p + 8" der s] a b c e f assms by simp
qed

lemma pivot:
  assumes "1970 \<le> y" "y < 2050"
  shows "int (y mod 100) + (if int (y mod 100) < 50 then 2000 else 1900) = int y"
proof (cases "y < 2000")
  case True
  then have "y mod 100 = y - 1900"
    using mod_mult_self2 [of "y - 1900" 100 19] assms by simp
  then show ?thesis using True assms by simp
next
  case False
  then have "y mod 100 = y - 2000"
    using mod_mult_self2 [of "y - 2000" 100 20] assms by simp
  then show ?thesis using False assms by simp
qed

lemma Epoch_time:
  assumes "encodes_time B (slice a n der) t" "a + n \<le> length der"
  shows "wn_CertTimeEpoch B der (Some a) n = Inr (int t)"
proof -
  obtain k y mo d h mi s where
    D: "(int y, int mo, int d) = (next_day ^^ k) (1970, 1, 1)" and hms: "h < 24" "mi < 60" "s \<le> 60" and
    t: "t = 86400 * k + 3600 * h + 60 * mi + s" and
    bs: "y < 2050 \<and> slice a n der = utc_time y mo d h mi s \<or> y < 10000 \<and> x509_gentime B \<and> slice a n der = gen_time y mo d h mi s"
    using assms(1) unfolding encodes_time_def by blast
  have "valid_date (1970, 1, 1)" by (simp add: month_days_def)
  note V = days_valid [OF this, of k, unfolded D [symmetric], unfolded valid_date.simps day_number.simps epoch_0]
  have y: "1970 \<le> y" using year_mono [of "(1970, 1, 1)" k] D [symmetric] by simp
  have md: "1 \<le> mo" "mo \<le> 12" "1 \<le> d" "int d \<le> month_days (int y) (int mo)" "d \<le> 31"
    using V month_days_pos(2) [of "int y" "int mo"] by auto
  have fin: "bindE (time_fields der p) (\<lambda>(mo, d, h, mi, s).
      if mo < 1 \<or> mo > 12 \<or> d < 1 \<or> d > wn_DaysInMonth (int y) mo \<or> h > 23 \<or> mi > 59 \<or> s > 60 then Inl E_X509_DECODE
      else Inr (wn_DaysFromCivil (int y) mo d * 86400 + h * 3600 + mi * 60 + s)) = Inr (int t)"
    if "slice p 11 der = digits mo d h mi s" "p + 11 \<le> length der" for p
    using fields_digits [OF that] md hms V DaysInMonth_eq [of "int mo" "int y"] by (simp add: t)
  have two_bytes: "rd_byte der a = Inr x \<and> rd_byte der (a + 1) = Inr z \<and> slice (a + 2) (n - 2) der = r \<and> length r = n - 2"
    if "slice a n der = [x, z] @ r" for x z r
  proof -
    have l: "n = 2 + length r" using arg_cong [OF that, of length] assms(2) by simp
    then show ?thesis
      using that slice_app [of a n der "[x, z]" r 2 "a + 2" "n - 2"] assms(2) nth_slice [of 0 n a der] nth_slice [of 1 n a der] by simp
  qed
  from bs show ?thesis
  proof (elim disjE conjE)
    assume u: "y < 2050" "slice a n der = utc_time y mo d h mi s"
    have r: "rd_byte der a = Inr 0x17" "rd_byte der (a + 1) = Inr 13" "slice (a + 2) 13 der = two (y mod 100) @ digits mo d h mi s"
      "n = 15" using two_bytes [OF u(2) [unfolded utc_time_def]] by (auto simp: digits_def)
    have q: "slice (a + 2) 2 der = two (y mod 100)" "slice (a + 4) 11 der = digits mo d h mi s"
      using slice_app [OF r(3), of 2 "a + 4" 11] r(4) assms(2) by simp_all
    have "wn_Dig2 der (a + 2) = Inr (int (y mod 100))" by (rule Dig2_two [OF q(1)]) (use assms(2) r(4) in simp_all)
    moreover note pivot [OF y u(1)]
    ultimately have "time_year B der (a + 2) 0x17 13 = Inr (int y, a + 4)" by (simp add: time_year_def)
    then show ?thesis
      using r fin [OF q(2)] assms(2) by (simp add: wn_CertTimeEpoch_def)
  next
    assume u: "y < 10000" "x509_gentime B" "slice a n der = gen_time y mo d h mi s"
    have r: "rd_byte der a = Inr 0x18" "rd_byte der (a + 1) = Inr 15"
      "slice (a + 2) 15 der = two (y div 100) @ (two (y mod 100) @ digits mo d h mi s)"
      "n = 17" using two_bytes [OF u(3) [unfolded gen_time_def]] by (auto simp: digits_def)
    have q: "slice (a + 2) 2 der = two (y div 100)" "slice (a + 4) 13 der = two (y mod 100) @ digits mo d h mi s"
      using slice_app [OF r(3), of 2 "a + 4" 13] r(4) assms(2) by simp_all
    have q2: "slice (a + 4) 2 der = two (y mod 100)" "slice (a + 6) 11 der = digits mo d h mi s"
      using slice_app [OF q(2), of 2 "a + 6" 11] r(4) assms(2) by simp_all
    have "wn_Dig2 der (a + 2) = Inr (int (y div 100))" "wn_Dig2 der (a + 4) = Inr (int (y mod 100))"
      using Dig2_two [OF q(1)] Dig2_two [OF q2(1)] assms(2) r(4) u(1) by simp_all
    moreover have "int (y mod 100) + int (y div 100) * 100 = int y" by (simp add: zdiv_int zmod_int)
    ultimately have "time_year B der (a + 2) 0x18 15 = Inr (int y, a + 6)"
      using u(2) by (simp add: time_year_def add.assoc del: add_2_eq_Suc')
    then show ?thesis
      using r fin [OF q2(2)] assms(2) by (simp add: wn_CertTimeEpoch_def)
  qed
qed

lemma TimeValid_safe:
  assumes "wn_X509_Parse B (Some der) = Inr c"
  shows "wn_X509_TimeValid B der (Some c) now \<noteq> Inl Oob"
proof -
  have "cert_shape B der c" using parse_shape [of B der] assms by (simp add: safeE_def)
  note f = cert_shape_flds(5,6) [OF this]
  show ?thesis
    unfolding wn_X509_TimeValid_def option.case
    by (rule safeE_no_oob) (intro safe_rules safeE_bind [OF safe_Epoch [OF f(1)]] safeE_bind [OF safe_Epoch [OF f(2)]]; simp)
qed

subsection \<open>Properties\<close>

text \<open>C38. The civil-date arithmetic agrees with the calendar: 1970-01-01 is day 0, and \<open>n\<close> days after any
  date, leap years and centuries included, the day number is \<open>n\<close> more.\<close>

theorem days_count_the_calendar:
  assumes "valid_date D"
  shows "day_number ((next_day ^^ n) D) = day_number D + int n \<and> wn_DaysFromCivil 1970 1 1 = 0"
  using days_valid [OF assms] epoch_0 by simp

theorem days_count_the_calendar_witness:
  "wn_DaysFromCivil 2000 3 1 = wn_DaysFromCivil 2000 2 28 + 2"
  using days_count_the_calendar [of "(2000, 2, 28)" 2] by (simp add: month_days_def numeral_2_eq_2)

text \<open>C39. A certificate is valid exactly within its window: when the two Time fields are the encodings of two
  instants, counted in seconds on the calendar, the check succeeds if and only if the given time is
  not before the first and not after the second, and otherwise reports a bad certificate.\<close>

theorem validity_window:
  assumes "c_notBefore c = Some a" "fld (length der) (c_notBefore c) (c_notBeforeLen c)"
    "encodes_time B (slice a (c_notBeforeLen c) der) nb"
    "c_notAfter c = Some b" "fld (length der) (c_notAfter c) (c_notAfterLen c)"
    "encodes_time B (slice b (c_notAfterLen c) der) na"
  shows "wn_X509_TimeValid B der (Some c) now = (if int nb \<le> now \<and> now \<le> int na then Inr () else Inl E_BAD_CERT)"
  using assms Epoch_time [OF assms(3)] Epoch_time [OF assms(6)] by (auto simp: wn_X509_TimeValid_def)

definition two_times :: bytes where
  "two_times = utc_time 1970 1 1 0 0 0 @ gen_time 1970 1 2 12 0 30"

theorem validity_window_witness:
  "wn_X509_TimeValid toy_build two_times
     (Some (x509_zero\<lparr>c_notBefore := Some 0, c_notBeforeLen := 15, c_notAfter := Some 15, c_notAfterLen := 17\<rparr>)) 129631
   = Inl E_BAD_CERT"
proof -
  have a: "encodes_time toy_build (slice 0 15 two_times) 0"
    unfolding encodes_time_def
    by (rule exI [of _ 0], rule exI [of _ 1970], rule exI [of _ 1], rule exI [of _ 1], rule exI [of _ 0], rule exI [of _ 0],
        rule exI [of _ 0]) (simp add: two_times_def slice_def utc_time_def digits_def two_def)
  have b: "encodes_time toy_build (slice 15 17 two_times) 129630"
    unfolding encodes_time_def
    by (rule exI [of _ 1], rule exI [of _ 1970], rule exI [of _ 1], rule exI [of _ 2], rule exI [of _ 12], rule exI [of _ 0],
        rule exI [of _ 30]) (simp add: two_times_def slice_def utc_time_def gen_time_def digits_def two_def month_days_def toy_build_def)
  have l: "length two_times = 32" by (simp add: two_times_def utc_time_def gen_time_def digits_def)
  show ?thesis
    using validity_window [of "x509_zero\<lparr>c_notBefore := Some 0, c_notBeforeLen := 15, c_notAfter := Some 15, c_notAfterLen := 17\<rparr>"
        0 two_times toy_build 0 15 129630 129631] a b
    by (simp add: l)
qed

text \<open>The validity check never reads outside the certificate it is given: the Time fields the parser left
  behind, whose length it keeps in 16 bits, always contain what the check reads.\<close>

theorem validity_safe:
  assumes "wn_X509_Parse B (Some der) = Inr c"
  shows "wn_X509_TimeValid B der (Some c) now \<noteq> Inl Oob"
  by (rule TimeValid_safe [OF assms])

theorem validity_safe_witness:
  "wn_X509_TimeValid toy_build sample_cert (Some sample_parsed) 0 \<noteq> Inl Oob"
  by (rule validity_safe [OF parse_sample])

end
