(* ===== verification/PkCrypto.thy ===== *)
theory PkCrypto
  imports Config
begin

section \<open>The provider's public-key functions (wolfnano_crypto.h)\<close>

text \<open>
  The \<open>wc_*\<close> functions that verify signatures, as a record of functions over an abstract key
  object \<open>'k\<close>. Each returns the C status and what it wrote; a verification also the value it
  stored in \<open>*res\<close>. \<open>key_alloc\<close> is the outcome of the allocation of a key object, which
  cannot fail unless \<^verbatim>\<open>WOLFSSL_SMALL_STACK\<close> puts it on the heap.
\<close>

datatype wc_hash = WC_HASH_TYPE_NONE | WC_HASH_TYPE_SHA256 | WC_HASH_TYPE_SHA384 | WC_HASH_TYPE_SHA512
datatype ecc_curve = ECC_CURVE_INVALID | ECC_SECP256R1 | ECC_SECP384R1
datatype wc_mgf = WC_MGF1SHA256 | WC_MGF1SHA384 | WC_MGF1SHA512

record 'k pk_crypto =
  key_alloc :: bool
  wc_HashGetDigestSize :: "wc_hash \<Rightarrow> int"
  wc_HashGetOID :: "wc_hash \<Rightarrow> int"
  wc_Hash :: "wc_hash \<Rightarrow> bytes \<Rightarrow> int \<times> bytes"
  wc_ecc_init :: "int \<times> 'k"
  wc_ecc_import_x963_ex :: "bytes \<Rightarrow> 'k \<Rightarrow> ecc_curve \<Rightarrow> int \<times> 'k"
  wc_ecc_verify_hash :: "bytes \<Rightarrow> bytes \<Rightarrow> 'k \<Rightarrow> int \<times> int"
  wc_InitRsaKey :: "int \<times> 'k"
  wc_RsaPublicKeyDecodeRaw :: "bytes \<Rightarrow> bytes \<Rightarrow> 'k \<Rightarrow> int \<times> 'k"
  wc_EncodeSignature :: "bytes \<Rightarrow> int \<Rightarrow> bytes"
  wc_RsaSSL_Verify :: "bytes \<Rightarrow> nat \<Rightarrow> 'k \<Rightarrow> int \<times> bytes"
  wc_RsaPSS_VerifyCheck :: "bytes \<Rightarrow> bytes \<Rightarrow> wc_hash \<Rightarrow> wc_mgf \<Rightarrow> 'k \<Rightarrow> int"
  wc_ed25519_init :: "int \<times> 'k"
  wc_ed25519_import_public :: "bytes \<Rightarrow> 'k \<Rightarrow> int \<times> 'k"
  wc_ed25519_verify_msg :: "bytes \<Rightarrow> bytes \<Rightarrow> 'k \<Rightarrow> int \<times> int"
  wc_MlDsaKey_Init :: "int \<times> 'k"
  wc_MlDsaKey_SetParams :: "'k \<Rightarrow> nat \<Rightarrow> int \<times> 'k"
  wc_MlDsaKey_PublicKeyDecode :: "'k \<Rightarrow> bytes \<Rightarrow> int \<times> 'k"
  wc_MlDsaKey_VerifyCtx :: "'k \<Rightarrow> bytes \<Rightarrow> bytes \<Rightarrow> int \<times> int"

text \<open>\<open>if (f(...) != 0) ret = e\<close>, keeping what the call wrote.\<close>

definition stat :: "wn_err \<Rightarrow> int \<times> 'a \<Rightarrow> wn_err + 'a" where
  "stat e r = (if fst r \<noteq> 0 then Inl e else Inr (snd r))"

lemma stat_eq_Inr: "stat e r = Inr x \<longleftrightarrow> r = (0, x)"
  by (cases r) (auto simp: stat_def)

lemma stat_not_Oob: "e \<noteq> Oob \<Longrightarrow> stat e r \<noteq> Inl Oob"
  by (simp add: stat_def)

text \<open>The digest of a message: its size must be known and the hash succeed.\<close>

definition hash_ok :: "'k pk_crypto \<Rightarrow> wc_hash \<Rightarrow> bytes \<Rightarrow> bytes \<Rightarrow> bool" where
  "hash_ok P h m d \<longleftrightarrow> 0 < wc_HashGetDigestSize P h \<and> wc_Hash P h m = (0, d)"

subsection \<open>A concrete provider\<close>

text \<open>
  For the witnesses: a hash takes the first four octets, a key object is the octets it was
  imported from, and a signature is valid when it is the key followed by what was signed.
\<close>

definition toy_pk :: "bytes pk_crypto" where
  "toy_pk = \<lparr>key_alloc = True,
     wc_HashGetDigestSize = (\<lambda>h. if h = WC_HASH_TYPE_NONE then -1 else 4),
     wc_HashGetOID = (\<lambda>h. if h = WC_HASH_TYPE_NONE then -1 else 414),
     wc_Hash = (\<lambda>h m. (0, take 4 (m @ [0, 0, 0, 0]))),
     wc_ecc_init = (0, []),
     wc_ecc_import_x963_ex = (\<lambda>p k c. (0, p)),
     wc_ecc_verify_hash = (\<lambda>s h k. (0, if s = k @ h then 1 else 0)),
     wc_InitRsaKey = (0, []),
     wc_RsaPublicKeyDecodeRaw = (\<lambda>n e k. (0, n @ e)),
     wc_EncodeSignature = (\<lambda>h oid. 0x30 # h),
     wc_RsaSSL_Verify = (\<lambda>s cap k. (int (length s), s)),
     wc_RsaPSS_VerifyCheck = (\<lambda>s h t g k. if s = k @ h then int (length s) else -1),
     wc_ed25519_init = (0, []),
     wc_ed25519_import_public = (\<lambda>p k. (0, p)),
     wc_ed25519_verify_msg = (\<lambda>s m k. (0, if s = k @ m then 1 else 0)),
     wc_MlDsaKey_Init = (0, []),
     wc_MlDsaKey_SetParams = (\<lambda>k l. (0, k)),
     wc_MlDsaKey_PublicKeyDecode = (\<lambda>k p. (0, p)),
     wc_MlDsaKey_VerifyCtx = (\<lambda>k s m. (0, if s = k @ m then 1 else 0))\<rparr>"

end
