(* ===== verification/X509Verify.thy ===== *)
theory X509Verify
  imports X509Cert PkCrypto
begin

section \<open>Certificate signatures (wn_x509.c)\<close>

text \<open>
  A parsed certificate is its DER buffer with the record of offsets into it; \<open>ptr_bytes\<close> reads
  what a pointer field denotes. The key object of the provider is created, loaded and used in
  the order of the code; freeing it has no effect on the result and is not modelled.
\<close>

type_synonym cert_ref = "bytes \<times> x509_cert"

definition ptr_bytes :: "bytes \<Rightarrow> nat option \<Rightarrow> nat \<Rightarrow> wn_err + bytes" where
  "ptr_bytes der p n =
     (case p of None \<Rightarrow> Inl Oob
      | Some a \<Rightarrow> if a + n \<le> length der then Inr (slice a n der) else Inl Oob)"

subsection \<open>The code\<close>

definition wn_HashForSig :: "build \<Rightarrow> x509_sig \<Rightarrow> wc_hash" where
  "wn_HashForSig B a =
     (if a = SIG_ECDSA_SHA256 \<or> a = SIG_RSA_SHA256 then WC_HASH_TYPE_SHA256
      else if a = SIG_ECDSA_SHA384 \<and> have_ecc384 B \<and> have_sha384_sig B then WC_HASH_TYPE_SHA384
      else if a = SIG_RSA_SHA384 \<and> have_rsa B \<and> have_sha384_sig B then WC_HASH_TYPE_SHA384
      else if a = SIG_RSA_SHA512 \<and> have_rsa B \<and> have_sha512_sig B then WC_HASH_TYPE_SHA512
      else WC_HASH_TYPE_NONE)"

definition wn_CurveId :: "build \<Rightarrow> x509_curve \<Rightarrow> ecc_curve" where
  "wn_CurveId B c =
     (if c = CURVE_P256 then ECC_SECP256R1
      else if c = CURVE_P384 \<and> have_ecc384 B then ECC_SECP384R1
      else ECC_CURVE_INVALID)"

definition wn_VerifyEcdsa :: "build \<Rightarrow> 'k pk_crypto \<Rightarrow> cert_ref \<Rightarrow> cert_ref \<Rightarrow> wn_err + unit" where
  "wn_VerifyEcdsa B P child issuer = (case (child, issuer) of ((cder, c), (ider, i)) \<Rightarrow>
     let hashType = wn_HashForSig B (c_sigAlg c);
         curveId = wn_CurveId B (c_curve i)
     in bindE (guardE (key_alloc P) E_CRYPTO) (\<lambda>_.
        bindE (guardE (\<not> (curveId = ECC_CURVE_INVALID \<or> wc_HashGetDigestSize P hashType \<le> 0)) E_BAD_CERT) (\<lambda>_.
        bindE (ptr_bytes cder (c_tbs c) (c_tbsLen c)) (\<lambda>tbs.
        bindE (stat E_CRYPTO (wc_Hash P hashType tbs)) (\<lambda>hash.
        bindE (stat E_CRYPTO (wc_ecc_init P)) (\<lambda>key.
        bindE (ptr_bytes ider (c_pubKey i) (c_pubKeyLen i)) (\<lambda>pub.
        bindE (stat E_BAD_CERT (wc_ecc_import_x963_ex P pub key curveId)) (\<lambda>key.
        bindE (ptr_bytes cder (c_sig c) (c_sigLen c)) (\<lambda>sg.
        bindE (stat E_BAD_CERT (wc_ecc_verify_hash P sg hash key)) (\<lambda>res.
          guardE (res = 1) E_BAD_CERT))))))))))"

text \<open>The recovered block must be the DigestInfo, as long as it and equal to it.\<close>

definition wn_VerifyRsa :: "build \<Rightarrow> 'k pk_crypto \<Rightarrow> cert_ref \<Rightarrow> cert_ref \<Rightarrow> wn_err + unit" where
  "wn_VerifyRsa B P child issuer = (case (child, issuer) of ((cder, c), (ider, i)) \<Rightarrow>
     let hashType = wn_HashForSig B (c_sigAlg c);
         hashOID = wc_HashGetOID P hashType
     in bindE (guardE (key_alloc P) E_CRYPTO) (\<lambda>_.
        bindE (guardE (\<not> (wc_HashGetDigestSize P hashType \<le> 0 \<or> hashOID \<le> 0)) E_BAD_CERT) (\<lambda>_.
        bindE (ptr_bytes ider (c_pubKey i) (c_pubKeyLen i)) (\<lambda>pub.
        bindE (wn_X509_RsaRawNE (Some pub)) (\<lambda>((n, nLen), (e, eLen)).
        bindE (ptr_bytes cder (c_tbs c) (c_tbsLen c)) (\<lambda>tbs.
        bindE (stat E_CRYPTO (wc_Hash P hashType tbs)) (\<lambda>hash.
        bindE (stat E_CRYPTO (wc_InitRsaKey P)) (\<lambda>key.
        bindE (stat E_BAD_CERT (wc_RsaPublicKeyDecodeRaw P (slice n nLen pub) (slice e eLen pub) key)) (\<lambda>key.
        bindE (ptr_bytes cder (c_sig c) (c_sigLen c)) (\<lambda>sg.
          let encoded = wc_EncodeSignature P hash hashOID; (verSz, decoded) = wc_RsaSSL_Verify P sg 512 key
          in if verSz < 0 \<or> nat verSz \<noteq> length encoded then Inl E_BAD_CERT
             else bindE (wn_MemEq decoded 0 encoded) (\<lambda>same. guardE same E_BAD_CERT)))))))))))"

definition wn_VerifyEd25519 :: "'k pk_crypto \<Rightarrow> cert_ref \<Rightarrow> cert_ref \<Rightarrow> wn_err + unit" where
  "wn_VerifyEd25519 P child issuer = (case (child, issuer) of ((cder, c), (ider, i)) \<Rightarrow>
     bindE (guardE (key_alloc P) E_CRYPTO) (\<lambda>_.
     bindE (stat E_CRYPTO (wc_ed25519_init P)) (\<lambda>key.
     bindE (ptr_bytes ider (c_pubKey i) (c_pubKeyLen i)) (\<lambda>pub.
     bindE (stat E_BAD_CERT (wc_ed25519_import_public P pub key)) (\<lambda>key.
     bindE (ptr_bytes cder (c_sig c) (c_sigLen c)) (\<lambda>sg.
     bindE (ptr_bytes cder (c_tbs c) (c_tbsLen c)) (\<lambda>tbs.
     bindE (stat E_BAD_CERT (wc_ed25519_verify_msg P sg tbs key)) (\<lambda>res.
       guardE (res = 1) E_BAD_CERT))))))))"

definition wn_SigAlgMatchesKey :: "x509_key \<Rightarrow> x509_sig \<Rightarrow> bool" where
  "wn_SigAlgMatchesKey keyAlg sigAlg =
     (case keyAlg of
        KEY_ECDSA \<Rightarrow> sigAlg = SIG_ECDSA_SHA256 \<or> sigAlg = SIG_ECDSA_SHA384
      | KEY_RSA \<Rightarrow> wn_SigAlgIsRsa sigAlg
      | KEY_ED25519 \<Rightarrow> sigAlg = SIG_ED25519
      | KEY_UNKNOWN \<Rightarrow> False)"

definition wn_X509_VerifySignedBy ::
  "build \<Rightarrow> 'k pk_crypto \<Rightarrow> cert_ref option \<Rightarrow> cert_ref option \<Rightarrow> wn_err + unit" where
  "wn_X509_VerifySignedBy B P child issuer =
     (case (child, issuer) of
        (Some c, Some i) \<Rightarrow>
          if c_tbs (snd c) = None \<or> c_sig (snd c) = None \<or> c_pubKey (snd i) = None then Inl E_INVALID_ARG
          else if \<not> wn_SigAlgMatchesKey (c_keyAlg (snd i)) (c_sigAlg (snd c)) then Inl E_BAD_CERT
          else
            (case c_keyAlg (snd i) of
               KEY_ECDSA \<Rightarrow> if have_ecc B then wn_VerifyEcdsa B P c i else Inl E_UNSUPPORTED
             | KEY_RSA \<Rightarrow> if have_rsa B then wn_VerifyRsa B P c i else Inl E_UNSUPPORTED
             | KEY_ED25519 \<Rightarrow> if have_ed25519 B then wn_VerifyEd25519 P c i else Inl E_UNSUPPORTED
             | KEY_UNKNOWN \<Rightarrow> Inl E_UNSUPPORTED)
      | _ \<Rightarrow> Inl E_INVALID_ARG)"

subsection \<open>An RSAPublicKey\<close>

text \<open>
  Octets of an INTEGER that is not negative: at least one, the sign bit of the first clear. Zero and
  contents with needless leading zero octets, which DER forbids, are among them.
\<close>

definition unsigned_octets :: "bytes \<Rightarrow> bool" where
  "unsigned_octets N = (case N of [] \<Rightarrow> False | b # _ \<Rightarrow> b AND 0x80 = 0)"

lemma unsigned_octets_slice: "1 \<le> n \<Longrightarrow> a + n \<le> length xs \<Longrightarrow> unsigned_octets (slice a n xs) \<longleftrightarrow> xs ! a AND 0x80 = 0"
  by (cases n) (simp_all add: slice_Suc unsigned_octets_def)

lemma hdr_slice:
  assumes "hdr_at der tag idx en i len" "en \<le> length der"
  shows "slice idx (i + len - idx) der = tlv tag (slice i len der)"
proof -
  have "i + len - idx = i - idx + len" using hdr_atD [OF assms(1)] by linarith
  then show ?thesis using hdr_tlv [OF assms] by simp
qed

text \<open>A value encoded at an index is found there.\<close>

lemma hdr_found:
  assumes "slice idx (length (tlv tag V)) der = tlv tag V" "idx + length (tlv tag V) \<le> en" "der_ok der en"
    "length V < 16777216"
  shows "wn_Asn_GetHeader der tag idx en = Inr (idx + 1 + length (enc_len (length V)), length V)"
    and "slice (idx + 1 + length (enc_len (length V))) (length V) der = V"
proof -
  define k where "k = 1 + length (enc_len (length V))"
  have l: "length (tlv tag V) = k + length V" by (simp add: tlv_def k_def)
  have d: "en \<le> length der" "length der < 2147483648" using assms(3) by (simp_all add: der_ok_def)
  have "slice idx k der = tag # enc_len (length V) \<and> slice (idx + k) (length V) der = V"
    using slice_app [of idx "k + length V" der "tag # enc_len (length V)" V k "idx + k" "length V"] assms(1,2) d(1)
    unfolding l by (simp add: tlv_def k_def)
  then have s: "slice idx k der = tag # enc_len (length V)" "slice (idx + k) (length V) der = V" by simp_all
  show "slice (idx + 1 + length (enc_len (length V))) (length V) der = V"
    using s(2) by (simp add: k_def)
  show "wn_Asn_GetHeader der tag idx en = Inr (idx + 1 + length (enc_len (length V)), length V)"
    using GetHeader_iff [of idx en der tag "idx + 1 + length (enc_len (length V))" "length V"] s(1) d assms(2,4)
    unfolding l by (simp add: k_def)
qed

lemma positive_int_sound:
  assumes "positive_int inp idx en = Inr (i, n)" "der_ok inp en" "idx \<le> en"
  shows "hdr_at inp 0x02 idx en i n \<and> unsigned_octets (slice i n inp)"
proof (cases "wn_Asn_GetHeader inp 0x02 idx en")
  case (Inr x)
  then have x: "x = (i, n)" "1 \<le> n" "inp ! i AND 0x80 = 0"
    using assms(1) by (auto simp: positive_int_def bindE_eq_Inr rd_byte_eq_Inr split: if_splits prod.splits)
  have "hdr_at inp 0x02 idx en i n"
    using safe_GetHeader [OF assms(2,3), where tag = "0x02"] Inr x(1) by (simp add: safeE_def)
  then show ?thesis
    using unsigned_octets_slice [OF x(2), where a = i and xs = inp] x(3) hdr_atD assms(2) by (fastforce simp: der_ok_def)
qed (use assms(1) in \<open>simp add: positive_int_def\<close>)

lemma positive_int_found:
  assumes "slice idx (length (tlv 0x02 V)) der = tlv 0x02 V" "idx + length (tlv 0x02 V) \<le> en" "der_ok der en"
    "length V < 16777216" "unsigned_octets V"
  shows "positive_int der idx en = Inr (idx + 1 + length (enc_len (length V)), length V)"
proof -
  note f = hdr_found [OF assms(1-4)]
  have n: "1 \<le> length V" using assms(5) by (cases V) (simp_all add: unsigned_octets_def)
  have b: "idx + 1 + length (enc_len (length V)) + length V \<le> length der"
    using assms(2,3) by (simp add: tlv_def der_ok_def)
  then have "der ! (idx + 1 + length (enc_len (length V))) AND 0x80 = 0"
    using unsigned_octets_slice [OF n b] assms(5) f(2) by simp
  moreover have "idx + 1 + length (enc_len (length V)) < length der" using b n by linarith
  moreover have "V \<noteq> []" using n by auto
  ultimately show ?thesis
    using n unfolding positive_int_def f(1) by (simp add: not_less del: length_greater_0_conv)
qed

text \<open>The whole key: a SEQUENCE of the two INTEGERs and nothing else.\<close>

lemma RsaRawNE_sound:
  assumes "wn_X509_RsaRawNE (Some inp) = Inr ((a, n), (b, e))" "length inp < 2147483648"
  shows "inp = tlv 0x30 (tlv 0x02 (slice a n inp) @ tlv 0x02 (slice b e inp)) \<and>
    unsigned_octets (slice a n inp) \<and> unsigned_octets (slice b e inp) \<and> a + n \<le> length inp \<and> b + e \<le> length inp"
proof -
  have D: "der_ok inp (length inp)" using assms(2) by (simp add: der_ok_def)
  obtain i len where h: "wn_Asn_GetHeader inp 0x30 0 (length inp) = Inr (i, len)" "u32 (i + len) = length inp"
      "positive_int inp i (length inp) = Inr (a, n)" "positive_int inp (u32 (a + n)) (length inp) = Inr (b, e)"
      "u32 (b + e) = length inp"
    using assms(1) by (auto simp: wn_X509_RsaRawNE_def bindE_eq_Inr Let_def split: if_splits)
  have h0: "hdr_at inp 0x30 0 (length inp) i len"
    using safe_GetHeader [OF D, of 0 "0x30"] h(1) by (simp add: safeE_def)
  note p1 = positive_int_sound [OF h(3) D]
  have il: "i \<le> length inp" "i + len = length inp"
    using hdr_atD [OF h0] h(2) assms(2) by auto
  note p1 = p1 [OF il(1)]
  have an: "a + n \<le> length inp" "u32 (a + n) = a + n" "i \<le> a"
    using hdr_atD [OF conjunct1 [OF p1]] assms(2) by auto
  note p2 = positive_int_sound [OF h(4) D, unfolded an(2), OF an(1)]
  have be: "b + e = length inp" "a + n \<le> b"
    using hdr_atD [OF conjunct1 [OF p2]] h(5) assms(2) by auto
  have len: "length inp - i = len" using il(2) by simp
  have cut: "slice x (y - x) inp @ slice y (z - y) inp = slice x (z - x) inp" if "x \<le> y" "y \<le> z" for x y z
    using that take_add [of "y - x" "z - y" "drop x inp"] by (simp add: slice_def)
  have "slice 0 (length inp) inp = tlv 0x30 (slice i len inp)"
    using hdr_slice [OF h0] il(2) by simp
  moreover have "slice i (a + n - i) inp @ slice (a + n) (b + e - (a + n)) inp = slice i len inp"
    using cut [of i "a + n" "b + e"] an(3) be len by simp
  ultimately show ?thesis
    using hdr_slice [OF conjunct1 [OF p1]] hdr_slice [OF conjunct1 [OF p2]] p1 p2 an(1) be(1) by (simp add: slice_def [of 0])
qed

lemma RsaRawNE_found:
  assumes "inp = tlv 0x30 (tlv 0x02 N @ tlv 0x02 E)" "unsigned_octets N" "unsigned_octets E" "length inp < 16777216"
  shows "\<exists>a b. wn_X509_RsaRawNE (Some inp) = Inr ((a, length N), (b, length E)) \<and>
    slice a (length N) inp = N \<and> slice b (length E) inp = E"
proof -
  have D: "der_ok inp (length inp)" using assms(4) by (simp add: der_ok_def)
  define V where "V = tlv 0x02 N @ tlv 0x02 E"
  define k where "k = 1 + length (enc_len (length V))"
  define a where "a = k + 1 + length (enc_len (length N))"
  define b where "b = a + length N + 1 + length (enc_len (length E))"
  have l: "length V = length (tlv 0x02 N) + length (tlv 0x02 E)" "length inp = k + length V"
    by (simp add: V_def, simp add: assms(1) V_def [symmetric] k_def) (simp add: tlv_def)
  have ln: "length (tlv 0x02 N) = a - k + length N" "length (tlv 0x02 E) = b - a - length N + length E"
    by (simp_all add: tlv_def a_def b_def)
  have ord: "k \<le> a" "a + length N \<le> b" by (simp_all add: a_def b_def)
  have small: "length V < 16777216" "length N < 16777216" "length E < 16777216" using assms(4) l ln by simp_all
  have s0: "slice 0 (length (tlv 0x30 V)) inp = tlv 0x30 V" by (simp add: assms(1) V_def slice_def)
  have v: "slice k (length V) inp = V"
    using hdr_found(2) [OF s0 _ D small(1)] by (simp add: assms(1) V_def [symmetric] k_def)
  have s1: "slice k (length (tlv 0x02 N)) inp = tlv 0x02 N \<and> slice (a + length N) (length (tlv 0x02 E)) inp = tlv 0x02 E"
  proof (rule slice_app)
    show "slice k (length V) inp = tlv 0x02 N @ tlv 0x02 E" using v by (simp only: V_def)
    show "k + length V \<le> length inp" "a + length N = k + length (tlv 0x02 N)"
      "length (tlv 0x02 E) = length V - length (tlv 0x02 N)"
      using l ln ord by linarith+
  qed simp
  note s1 = conjunct1 [OF s1] conjunct2 [OF s1]
  have le: "k + length (tlv 0x02 N) \<le> length inp" "a + length N + length (tlv 0x02 E) \<le> length inp"
    using l ln ord by linarith+
  have "wn_Asn_GetHeader inp 0x30 0 (length inp) = Inr (k, length V)"
    using hdr_found(1) [OF s0 _ D small(1)] by (simp add: assms(1) V_def [symmetric] k_def)
  moreover have "positive_int inp k (length inp) = Inr (a, length N)"
    using positive_int_found [OF s1(1) le(1) D small(2) assms(2)] by (simp add: a_def)
  moreover have "positive_int inp (a + length N) (length inp) = Inr (b, length E)"
    using positive_int_found [OF s1(2) le(2) D small(3) assms(3)] by (simp add: b_def)
  moreover have "slice a (length N) inp = N"
    using hdr_found(2) [OF s1(1) le(1) D small(2)] by (simp add: a_def)
  moreover have "slice b (length E) inp = E"
    using hdr_found(2) [OF s1(2) le(2) D small(3)] by (simp add: b_def)
  moreover have "k + length V = length inp" "b + length E = length inp" "a + length N < 4294967296" "length inp < 4294967296"
    using l ln ord assms(4) by linarith+
  then have "u32 (k + length V) = length inp" "u32 (a + length N) = a + length N" "u32 (b + length E) = length inp"
    by simp_all
  ultimately show ?thesis by (intro exI [of _ a] exI [of _ b]) (simp add: wn_X509_RsaRawNE_def)
qed

lemma safe_positive_int:
  assumes "der_ok inp en" "idx \<le> en"
  shows "safeE (positive_int inp idx en) (\<lambda>(i, n). hdr_at inp 0x02 idx en i n)"
proof (cases "wn_Asn_GetHeader inp 0x02 idx en")
  case (Inr x)
  then have h: "hdr_at inp 0x02 idx en (fst x) (snd x)"
    using safe_GetHeader [OF assms, where tag = "0x02"] by (cases x) (simp add: safeE_def)
  then have "1 \<le> snd x \<Longrightarrow> fst x < length inp"
    using hdr_atD [OF h] assms(1) by (simp add: der_ok_def)
  then show ?thesis
    using h by (cases x) (auto simp: positive_int_def Inr not_less intro!: safe_rules safeE_rd_bind)
next
  case (Inl e)
  then show ?thesis
    using safe_GetHeader [OF assms, where tag = "0x02"] by (simp add: positive_int_def safeE_def)
qed

lemma safe_RsaRawNE:
  assumes "length inp < 2147483648"
  shows "safeE (wn_X509_RsaRawNE (Some inp)) (\<lambda>((a, n), (b, e)). a + n \<le> length inp \<and> b + e \<le> length inp)"
proof (rule safeE_conseq [where P = "\<lambda>_. True"])
  have D: "der_ok inp (length inp)" using assms by (simp add: der_ok_def)
  show "safeE (wn_X509_RsaRawNE (Some inp)) (\<lambda>_. True)"
    unfolding wn_X509_RsaRawNE_def option.case Let_def
  proof (rule safe_hdr [OF D], simp, unfold prod.case, rule safeE_if, rule safeE_Inl, simp)
    fix i len
    assume h: "hdr_at inp 0x30 0 (length inp) i len" "u32 (i + len) = i + len" "\<not> u32 (i + len) \<noteq> length inp"
    then have e: "u32 (i + len) = length inp" "i \<le> length inp" using hdr_atD [OF h(1)] by simp_all
    show "safeE (bindE (positive_int inp i (u32 (i + len))) (\<lambda>(n, nLen).
        bindE (positive_int inp (u32 (n + nLen)) (u32 (i + len))) (\<lambda>(e, eLen).
          if u32 (e + eLen) \<noteq> u32 (i + len) then Inl E_X509_DECODE else Inr ((n, nLen), (e, eLen))))) (\<lambda>_. True)"
      unfolding e(1)
    proof (rule safeE_bind [OF safe_positive_int [OF D e(2)]], clarify)
      fix n nLen
      assume "hdr_at inp 0x02 i (length inp) n nLen"
      then have "u32 (n + nLen) \<le> length inp" using hdr_atD assms by fastforce
      from safe_positive_int [OF D this]
      show "safeE (bindE (positive_int inp (u32 (n + nLen)) (length inp)) (\<lambda>(e, eLen).
          if u32 (e + eLen) \<noteq> length inp then Inl E_X509_DECODE else Inr ((n, nLen), (e, eLen)))) (\<lambda>_. True)"
        by (rule safeE_bind) (auto intro!: safe_rules)
    qed
  qed
  fix x
  assume "wn_X509_RsaRawNE (Some inp) = Inr x"
  then show "case x of (x, xa) \<Rightarrow> (case x of (a, n) \<Rightarrow> \<lambda>(b, e). a + n \<le> length inp \<and> b + e \<le> length inp) xa"
    using RsaRawNE_sound [OF _ assms] by (cases x) fastforce
qed

subsection \<open>What a verified signature means\<close>

text \<open>
  The provider's calls that must succeed, as a predicate on the octets involved: the issuer's
  key and curve, the algorithm the child names, the signed octets and the signature.
\<close>

definition ecdsa_accepts :: "build \<Rightarrow> 'k pk_crypto \<Rightarrow> x509_curve \<Rightarrow> bytes \<Rightarrow> x509_sig \<Rightarrow> bytes \<Rightarrow> bytes \<Rightarrow> bool" where
  "ecdsa_accepts B P curve pub alg tbs sg \<longleftrightarrow>
     (\<exists>d k0 k. wn_CurveId B curve \<noteq> ECC_CURVE_INVALID \<and> hash_ok P (wn_HashForSig B alg) tbs d \<and>
        wc_ecc_init P = (0, k0) \<and> wc_ecc_import_x963_ex P pub k0 (wn_CurveId B curve) = (0, k) \<and>
        wc_ecc_verify_hash P sg d k = (0, 1))"

definition rsa_accepts :: "build \<Rightarrow> 'k pk_crypto \<Rightarrow> bytes \<Rightarrow> x509_sig \<Rightarrow> bytes \<Rightarrow> bytes \<Rightarrow> bool" where
  "rsa_accepts B P pub alg tbs sg \<longleftrightarrow>
     (\<exists>N E d k0 k block. pub = tlv 0x30 (tlv 0x02 N @ tlv 0x02 E) \<and> unsigned_octets N \<and> unsigned_octets E \<and>
        hash_ok P (wn_HashForSig B alg) tbs d \<and> 0 < wc_HashGetOID P (wn_HashForSig B alg) \<and>
        wc_InitRsaKey P = (0, k0) \<and> wc_RsaPublicKeyDecodeRaw P N E k0 = (0, k) \<and>
        (let di = wc_EncodeSignature P d (wc_HashGetOID P (wn_HashForSig B alg))
         in wc_RsaSSL_Verify P sg 512 k = (int (length di), block) \<and> take (length di) block = di))"

definition ed25519_accepts :: "'k pk_crypto \<Rightarrow> bytes \<Rightarrow> bytes \<Rightarrow> bytes \<Rightarrow> bool" where
  "ed25519_accepts P pub tbs sg \<longleftrightarrow>
     (\<exists>k0 k. wc_ed25519_init P = (0, k0) \<and> wc_ed25519_import_public P pub k0 = (0, k) \<and>
        wc_ed25519_verify_msg P sg tbs k = (0, 1))"

definition signature_accepts ::
  "build \<Rightarrow> 'k pk_crypto \<Rightarrow> x509_key \<Rightarrow> x509_curve \<Rightarrow> bytes \<Rightarrow> x509_sig \<Rightarrow> bytes \<Rightarrow> bytes \<Rightarrow> bool" where
  "signature_accepts B P key curve pub alg tbs sg \<longleftrightarrow> key_alloc P \<and>
     (case key of
        KEY_ECDSA \<Rightarrow> have_ecc B \<and> alg \<in> {SIG_ECDSA_SHA256, SIG_ECDSA_SHA384} \<and> ecdsa_accepts B P curve pub alg tbs sg
      | KEY_RSA \<Rightarrow> have_rsa B \<and> alg \<in> {SIG_RSA_SHA256, SIG_RSA_SHA384, SIG_RSA_SHA512} \<and> rsa_accepts B P pub alg tbs sg
      | KEY_ED25519 \<Rightarrow> have_ed25519 B \<and> alg = SIG_ED25519 \<and> ed25519_accepts P pub tbs sg
      | KEY_UNKNOWN \<Rightarrow> False)"

text \<open>Documented behaviour: \<open>wc_RsaSSL_Verify\<close> stores as many octets as it returns.\<close>

definition rsa_ok :: "'k pk_crypto \<Rightarrow> bool" where
  "rsa_ok P \<longleftrightarrow> (\<forall>s cap k. fst (wc_RsaSSL_Verify P s cap k) \<le> int (length (snd (wc_RsaSSL_Verify P s cap k))))"

definition octets :: "bytes \<Rightarrow> nat option \<Rightarrow> nat \<Rightarrow> bytes" where
  "octets der p n = (case p of None \<Rightarrow> [] | Some a \<Rightarrow> slice a n der)"

lemma ptr_bytes_eq: "p \<noteq> None \<Longrightarrow> fld (length der) p n \<Longrightarrow> ptr_bytes der p n = Inr (octets der p n)"
  by (auto simp: ptr_bytes_def octets_def)

lemma stat_cases: "stat e r = (case r of (rc, x) \<Rightarrow> if rc = 0 then Inr x else Inl e)"
  by (simp add: stat_def case_prod_beta)

lemma VerifyEcdsa_iff:
  assumes "ptr_bytes cder (c_tbs c) (c_tbsLen c) = Inr tbs" "ptr_bytes cder (c_sig c) (c_sigLen c) = Inr sg"
    "ptr_bytes ider (c_pubKey i) (c_pubKeyLen i) = Inr pub"
  shows "wn_VerifyEcdsa B P (cder, c) (ider, i) = Inr () \<longleftrightarrow> key_alloc P \<and> ecdsa_accepts B P (c_curve i) pub (c_sigAlg c) tbs sg"
    and "wn_VerifyEcdsa B P (cder, c) (ider, i) \<noteq> Inl Oob"
  unfolding wn_VerifyEcdsa_def ecdsa_accepts_def hash_ok_def Let_def prod.case assms
  by (auto simp: bindE_eq_Inr bindE_eq_Inl stat_eq_Inr stat_not_Oob not_le)

lemma VerifyEd25519_iff:
  assumes "ptr_bytes cder (c_tbs c) (c_tbsLen c) = Inr tbs" "ptr_bytes cder (c_sig c) (c_sigLen c) = Inr sg"
    "ptr_bytes ider (c_pubKey i) (c_pubKeyLen i) = Inr pub"
  shows "wn_VerifyEd25519 P (cder, c) (ider, i) = Inr () \<longleftrightarrow> key_alloc P \<and> ed25519_accepts P pub tbs sg"
    and "wn_VerifyEd25519 P (cder, c) (ider, i) \<noteq> Inl Oob"
  unfolding wn_VerifyEd25519_def ed25519_accepts_def prod.case assms
  by (auto simp: bindE_eq_Inr bindE_eq_Inl stat_eq_Inr stat_not_Oob)

text \<open>The comparison of the recovered block.\<close>

lemma rsa_compare:
  assumes "rsa_ok P"
  shows "(case wc_RsaSSL_Verify P sg cap k of (verSz, decoded) \<Rightarrow>
      if verSz < 0 \<or> nat verSz \<noteq> length enc then Inl E_BAD_CERT
      else bindE (wn_MemEq decoded 0 enc) (\<lambda>same. guardE same E_BAD_CERT)) =
    (case wc_RsaSSL_Verify P sg cap k of (verSz, decoded) \<Rightarrow>
      if verSz = int (length enc) \<and> take (length enc) decoded = enc then Inr () else Inl E_BAD_CERT)"
proof (cases "wc_RsaSSL_Verify P sg cap k")
  case (Pair verSz decoded)
  have "verSz \<le> int (length decoded)"
    using assms Pair unfolding rsa_ok_def by (metis fst_conv snd_conv)
  then show ?thesis unfolding Pair by (auto simp: wn_MemEq_def slice_def guardE_def)
qed

lemma block_eq:
  "(case r of (v, d) \<Rightarrow> if v = n \<and> take m d = e then Inr () else Inl er) = Inr () \<longleftrightarrow> (\<exists>block. r = (n, block) \<and> take m block = e)"
  by (cases r) auto

lemma VerifyRsa_iff:
  assumes "ptr_bytes cder (c_tbs c) (c_tbsLen c) = Inr tbs" "ptr_bytes cder (c_sig c) (c_sigLen c) = Inr sg"
    "ptr_bytes ider (c_pubKey i) (c_pubKeyLen i) = Inr pub" "rsa_ok P" "length pub < 16777216"
  shows "wn_VerifyRsa B P (cder, c) (ider, i) = Inr () \<longleftrightarrow> key_alloc P \<and> rsa_accepts B P pub (c_sigAlg c) tbs sg"
    and "wn_VerifyRsa B P (cder, c) (ider, i) \<noteq> Inl Oob"
proof -
  have l: "length pub < 2147483648" using assms(5) by simp
  define chk where "chk = (\<lambda>N E. bindE (stat E_CRYPTO (wc_Hash P (wn_HashForSig B (c_sigAlg c)) tbs)) (\<lambda>hash.
        bindE (stat E_CRYPTO (wc_InitRsaKey P)) (\<lambda>key.
        bindE (stat E_BAD_CERT (wc_RsaPublicKeyDecodeRaw P N E key)) (\<lambda>key.
          let encoded = wc_EncodeSignature P hash (wc_HashGetOID P (wn_HashForSig B (c_sigAlg c)));
              (verSz, decoded) = wc_RsaSSL_Verify P sg 512 key
          in if verSz = int (length encoded) \<and> take (length encoded) decoded = encoded then Inr () else Inl E_BAD_CERT))))"
  have eq: "wn_VerifyRsa B P (cder, c) (ider, i) =
      bindE (guardE (key_alloc P) E_CRYPTO) (\<lambda>_.
      bindE (guardE (\<not> (wc_HashGetDigestSize P (wn_HashForSig B (c_sigAlg c)) \<le> 0 \<or>
        wc_HashGetOID P (wn_HashForSig B (c_sigAlg c)) \<le> 0)) E_BAD_CERT) (\<lambda>_.
      bindE (wn_X509_RsaRawNE (Some pub)) (\<lambda>((n, nLen), (e, eLen)). chk (slice n nLen pub) (slice e eLen pub))))"
    unfolding wn_VerifyRsa_def Let_def prod.case assms(1-3) bindE_Inr chk_def rsa_compare [OF assms(4)] ..
  have no_oob: "chk N E \<noteq> Inl Oob" for N E
    by (auto simp: chk_def bindE_eq_Inl stat_not_Oob Let_def split: prod.splits if_splits)
  show "wn_VerifyRsa B P (cder, c) (ider, i) \<noteq> Inl Oob"
    unfolding eq using safeE_no_oob [OF safe_RsaRawNE [OF l]] no_oob by (auto simp: bindE_eq_Inl)
  have chk_ok: "chk N E = Inr () \<longleftrightarrow> (\<exists>d k0 k block. wc_Hash P (wn_HashForSig B (c_sigAlg c)) tbs = (0, d) \<and>
        wc_InitRsaKey P = (0, k0) \<and> wc_RsaPublicKeyDecodeRaw P N E k0 = (0, k) \<and>
        (let di = wc_EncodeSignature P d (wc_HashGetOID P (wn_HashForSig B (c_sigAlg c)))
         in wc_RsaSSL_Verify P sg 512 k = (int (length di), block) \<and> take (length di) block = di))" for N E
    by (simp add: chk_def bindE_eq_Inr stat_eq_Inr Let_def block_eq)
  have key: "(\<exists>a n b e. wn_X509_RsaRawNE (Some pub) = Inr ((a, n), (b, e)) \<and> slice a n pub = N \<and> slice b e pub = E) \<longleftrightarrow>
      pub = tlv 0x30 (tlv 0x02 N @ tlv 0x02 E) \<and> unsigned_octets N \<and> unsigned_octets E" for N E
    using RsaRawNE_sound [OF _ l] RsaRawNE_found [of pub N E] assms(5) by blast
  show "wn_VerifyRsa B P (cder, c) (ider, i) = Inr () \<longleftrightarrow> key_alloc P \<and> rsa_accepts B P pub (c_sigAlg c) tbs sg"
  proof -
    define sz where "sz \<longleftrightarrow> 0 < wc_HashGetDigestSize P (wn_HashForSig B (c_sigAlg c))"
    define oid where "oid \<longleftrightarrow> 0 < wc_HashGetOID P (wn_HashForSig B (c_sigAlg c))"
    have "rsa_accepts B P pub (c_sigAlg c) tbs sg \<longleftrightarrow> sz \<and> oid \<and>
        (\<exists>N E. (pub = tlv 0x30 (tlv 0x02 N @ tlv 0x02 E) \<and> unsigned_octets N \<and> unsigned_octets E) \<and> chk N E = Inr ())"
      unfolding rsa_accepts_def hash_ok_def chk_ok sz_def [symmetric] oid_def [symmetric] by blast
    also have "\<dots> \<longleftrightarrow> sz \<and> oid \<and>
        (\<exists>a n b e. wn_X509_RsaRawNE (Some pub) = Inr ((a, n), (b, e)) \<and> chk (slice a n pub) (slice b e pub) = Inr ())"
      unfolding key [symmetric] by blast
    finally show ?thesis
      unfolding eq bindE_eq_Inr sz_def oid_def by (auto simp: not_le)
  qed
qed

lemma VerifySignedBy_iff:
  assumes "wn_X509_Parse B (Some cder) = Inr c" "wn_X509_Parse B (Some ider) = Inr i" "rsa_ok P"
  shows "wn_X509_VerifySignedBy B P (Some (cder, c)) (Some (ider, i)) \<noteq> Inl Oob \<and>
    (wn_X509_VerifySignedBy B P (Some (cder, c)) (Some (ider, i)) = Inr () \<longleftrightarrow>
      signature_accepts B P (c_keyAlg i) (c_curve i) (octets ider (c_pubKey i) (c_pubKeyLen i)) (c_sigAlg c)
        (octets cder (c_tbs c) (c_tbsLen c)) (octets cder (c_sig c) (c_sigLen c)))"
proof -
  have cs: "cert_shape B cder c" "cert_shape B ider i"
    using parse_shape [of B cder] parse_shape [of B ider] assms(1,2) by (simp_all add: safeE_def)
  have n: "c_tbs c \<noteq> None" "c_sig c \<noteq> None" "c_pubKey i \<noteq> None"
    using cs by (auto simp: cert_shape_def spki_at_def signed_at_def)
  note f = cert_shape_flds(1,2) [OF cs(1)] cert_shape_flds(3) [OF cs(2)]
  note p = ptr_bytes_eq [OF n(1) f(1)] ptr_bytes_eq [OF n(2) f(2)] ptr_bytes_eq [OF n(3) f(3)]
  have "c_pubKeyLen i + 1 < 16777216"
    using cs(2) hdr_atD [of ider "0x03"] unfolding cert_shape_def spki_at_def by blast
  then have "length (octets ider (c_pubKey i) (c_pubKeyLen i)) < 16777216"
    by (auto simp: octets_def slice_def split: option.split)
  note V = VerifyEcdsa_iff [OF p, of B P] VerifyRsa_iff [OF p assms(3) this, of B] VerifyEd25519_iff [OF p, of P]
  show ?thesis
    using n V by (cases "c_keyAlg i")
      (auto simp: wn_X509_VerifySignedBy_def signature_accepts_def wn_SigAlgMatchesKey_def wn_SigAlgIsRsa_def)
qed

text \<open>The sample certificate with a signature that the toy provider made with its key.\<close>

definition self_signed :: bytes where
  "self_signed =
    [48, 129, 194, 48, 129, 170, 160, 3, 2, 1, 2, 2, 1, 5, 48, 10, 6, 8, 42, 134, 72, 206, 61, 4, 3, 2, 48, 0,
     48, 30, 23, 13, 50, 54, 48, 49, 48, 49, 48, 48, 48, 48, 48, 48, 90, 23, 13, 51, 54, 48, 49, 48, 49, 48, 48,
     48, 48, 48, 48, 90, 48, 12, 49, 10, 48, 8, 6, 3, 85, 4, 3, 12, 1, 110, 48, 26, 48, 19, 6, 7, 42, 134, 72,
     206, 61, 2, 1, 6, 8, 42, 134, 72, 206, 61, 3, 1, 7, 3, 3, 0, 4, 9, 163, 72, 48, 70, 48, 15, 6, 3, 85, 29, 19,
     1, 1, 255, 4, 5, 48, 3, 1, 1, 255, 48, 14, 6, 3, 85, 29, 15, 1, 1, 255, 4, 4, 3, 2, 7, 128, 48, 19, 6, 3, 85,
     29, 37, 4, 12, 48, 10, 6, 8, 43, 6, 1, 5, 5, 7, 3, 1, 48, 14, 6, 3, 85, 29, 17, 4, 7, 48, 5, 130, 3, 97, 46,
     98, 48, 10, 6, 8, 42, 134, 72, 206, 61, 4, 3, 2, 3, 7, 0, 4, 9, 48, 129, 170, 160]"

definition self_parsed :: x509_cert where
  "self_parsed = sample_parsed\<lparr>c_sigLen := 6\<rparr>"

lemma parse_self_signed: "wn_X509_Parse toy_build (Some self_signed) = Inr self_parsed"
proof -
  have one: "\<not> (128 :: byte) \<le> 1" by (simp add: word_le_nat_alt)
  show ?thesis
    by (simp add: self_signed_def self_parsed_def sample_parsed_def toy_build_def der_eval x509_eval one)
qed

subsection \<open>Properties\<close>

text \<open>C37. The RSA public key is read exactly: the reader returns a modulus and an exponent if and only if the
  key is a SEQUENCE of two INTEGERs with these contents and nothing else, every length in the
  shortest form, no contents empty and no sign bit set. The contents need not be minimal or
  positive: see \<open>zero_modulus_read\<close>.\<close>

theorem rsa_public_key_exact:
  assumes "length inp < 16777216"
  shows "(\<exists>a n b e. wn_X509_RsaRawNE (Some inp) = Inr ((a, n), (b, e)) \<and> slice a n inp = N \<and> slice b e inp = E) \<longleftrightarrow>
    inp = tlv 0x30 (tlv 0x02 N @ tlv 0x02 E) \<and> N \<noteq> [] \<and> N ! 0 AND 0x80 = 0 \<and> E \<noteq> [] \<and> E ! 0 AND 0x80 = 0"
proof -
  have "length inp < 2147483648" using assms by simp
  moreover have "unsigned_octets X \<longleftrightarrow> X \<noteq> [] \<and> X ! 0 AND 0x80 = 0" for X
    by (cases X) (simp_all add: unsigned_octets_def)
  ultimately show ?thesis using RsaRawNE_sound [of inp] RsaRawNE_found [of inp N E] assms by blast
qed

theorem rsa_public_key_exact_witness:
  "\<exists>a n b e. wn_X509_RsaRawNE (Some [0x30, 7, 0x02, 2, 0x7f, 0x01, 0x02, 1, 3]) = Inr ((a, n), (b, e)) \<and>
     slice a n [0x30, 7, 0x02, 2, 0x7f, 0x01, 0x02, 1, 3 :: byte] = [0x7f, 0x01] \<and>
     slice b e [0x30, 7, 0x02, 2, 0x7f, 0x01, 0x02, 1, 3 :: byte] = [3]"
  by (rule rsa_public_key_exact [THEN iffD2]) (simp_all add: tlv_def enc_len_def)

text \<open>A modulus and an exponent of zero are read without error, although the comments beside the two
  checks ask for positive INTEGERs.\<close>

lemma zero_modulus_read:
  "\<exists>a n b e. wn_X509_RsaRawNE (Some [0x30, 6, 0x02, 1, 0, 0x02, 1, 0]) = Inr ((a, n), (b, e))"
  using RsaRawNE_found [of "[0x30, 6, 0x02, 1, 0, 0x02, 1, 0]" "[0]" "[0]"]
  by (auto simp: tlv_def enc_len_def unsigned_octets_def)

text \<open>C36. A certificate is accepted as signed by another exactly when the provider accepts: the algorithm it
  names is one of the issuer's key type, and the provider verifies, under the issuer's public key
  and the hash that algorithm names, the reported signature over precisely the octets of the
  tbsCertificate; for RSA, the recovered block is the DigestInfo of that hash and has its length.
  The check never reads outside the two certificates. It looks at no name: neither the issuer name
  of the one nor the subject name of the other takes part.\<close>

theorem signed_by_exact:
  assumes "wn_X509_Parse B (Some cder) = Inr c" "wn_X509_Parse B (Some ider) = Inr i" "rsa_ok P"
  shows "wn_X509_VerifySignedBy B P (Some (cder, c)) (Some (ider, i)) \<noteq> Inl Oob \<and>
    (wn_X509_VerifySignedBy B P (Some (cder, c)) (Some (ider, i)) = Inr () \<longleftrightarrow>
      signature_accepts B P (c_keyAlg i) (c_curve i) (octets ider (c_pubKey i) (c_pubKeyLen i)) (c_sigAlg c)
        (octets cder (c_tbs c) (c_tbsLen c)) (octets cder (c_sig c) (c_sigLen c)))"
  by (rule VerifySignedBy_iff [OF assms])

text \<open>The self-signed certificate is verified under the sample's key, which is its own; the sample, whose
  signature is of other octets, is not.\<close>

theorem signed_by_exact_witness:
  "wn_X509_VerifySignedBy toy_build toy_pk (Some (self_signed, self_parsed)) (Some (sample_cert, sample_parsed)) = Inr () \<and>
   wn_X509_VerifySignedBy toy_build toy_pk (Some (sample_cert, sample_parsed)) (Some (sample_cert, sample_parsed)) \<noteq> Inr ()"
proof -
  have r: "rsa_ok toy_pk" by (simp add: rsa_ok_def toy_pk_def)
  note t = signed_by_exact [OF parse_self_signed parse_sample r] signed_by_exact [OF parse_sample parse_sample r]
  show ?thesis
    unfolding conjunct2 [OF t(1)] conjunct2 [OF t(2)]
    by (simp add: signature_accepts_def ecdsa_accepts_def sample_parsed_def self_parsed_def octets_def sample_cert_def
        self_signed_def slice_def toy_pk_def hash_ok_def toy_build_def wn_CurveId_def wn_HashForSig_def)
qed

end
