(* ===== verification/CertPath.thy ===== *)
theory CertPath
  imports X509Spki X509Time X509Verify Crypto
begin

section \<open>Authenticating the server (wn_connect.c, certificate path)\<close>

text \<open>
  What the client does with the server's Certificate and CertificateVerify messages, on the
  native parser (\<^verbatim>\<open>WOLFNANO_X509_LITE\<close>): the chain walk up to the pinned anchor, the checks
  on the leaf, its name and key pin, and the signature of the CertificateVerify. A presented
  certificate is the list of its octets; \<open>now\<close> is the value of the injected clock.
\<close>

subsection \<open>CertificateVerify\<close>

definition wn_BuildCvTbs :: "bytes \<Rightarrow> bytes" where
  "wn_BuildCvTbs th = replicate 64 0x20 @ cstr ''TLS 1.3, server CertificateVerify'' @ [0x00] @ th"

text \<open>An error of the callee reported as another one.\<close>

definition fail_as :: "wn_err \<Rightarrow> wn_err + 'a \<Rightarrow> wn_err + 'a" where
  "fail_as e m = (case m of Inl x \<Rightarrow> Inl (if x = Oob then Oob else e) | Inr y \<Rightarrow> Inr y)"

definition raw_key :: "bytes \<Rightarrow> wn_err + bytes" where
  "raw_key spki = bindE (fail_as E_BAD_CERT (wn_X509_SpkiRawKey (Some spki))) (\<lambda>(k, n). Inr (slice k n spki))"

definition cv_hash :: "'k pk_crypto \<Rightarrow> wc_hash \<Rightarrow> bytes \<Rightarrow> wn_err + bytes" where
  "cv_hash P hashType tbs =
     bindE (guardE (\<not> wc_HashGetDigestSize P hashType \<le> 0) E_CRYPTO) (\<lambda>_. stat E_CRYPTO (wc_Hash P hashType tbs))"

definition wn_CvEcdsa :: "'k pk_crypto \<Rightarrow> bytes \<Rightarrow> wc_hash \<Rightarrow> nat \<Rightarrow> bytes \<Rightarrow> bytes \<Rightarrow> wn_err + unit" where
  "wn_CvEcdsa P spki hashType curveSize tbs sg =
     bindE (guardE (key_alloc P) E_CRYPTO) (\<lambda>_.
     bindE (cv_hash P hashType tbs) (\<lambda>hash.
     bindE (stat E_CRYPTO (wc_ecc_init P)) (\<lambda>key.
     bindE (raw_key spki) (\<lambda>rawKey.
     bindE (stat E_BAD_CERT (wc_ecc_import_x963_ex P rawKey key (if curveSize = 48 then ECC_SECP384R1 else ECC_SECP256R1))) (\<lambda>key.
     bindE (stat E_BAD_CERT (wc_ecc_verify_hash P sg hash key)) (\<lambda>res. guardE (res = 1) E_BAD_CERT))))))"

definition wn_CvEd25519 :: "'k pk_crypto \<Rightarrow> bytes \<Rightarrow> bytes \<Rightarrow> bytes \<Rightarrow> wn_err + unit" where
  "wn_CvEd25519 P spki tbs sg =
     bindE (guardE (key_alloc P) E_CRYPTO) (\<lambda>_.
     bindE (stat E_CRYPTO (wc_ed25519_init P)) (\<lambda>key.
     bindE (raw_key spki) (\<lambda>rawKey.
     bindE (stat E_BAD_CERT (wc_ed25519_import_public P rawKey key)) (\<lambda>key.
     bindE (stat E_BAD_CERT (wc_ed25519_verify_msg P sg tbs key)) (\<lambda>res. guardE (res = 1) E_BAD_CERT)))))"

definition wn_CvRsaPss :: "'k pk_crypto \<Rightarrow> bytes \<Rightarrow> wc_hash \<Rightarrow> wc_mgf \<Rightarrow> bytes \<Rightarrow> bytes \<Rightarrow> wn_err + unit" where
  "wn_CvRsaPss P spki hashType mgf tbs sg =
     bindE (guardE (key_alloc P) E_CRYPTO) (\<lambda>_.
     bindE (cv_hash P hashType tbs) (\<lambda>hash.
     bindE (stat E_CRYPTO (wc_InitRsaKey P)) (\<lambda>key.
     bindE (raw_key spki) (\<lambda>rawKey.
     bindE (fail_as E_BAD_CERT (wn_X509_RsaRawNE (Some rawKey))) (\<lambda>((n, nLen), (e, eLen)).
     bindE (stat E_BAD_CERT (wc_RsaPublicKeyDecodeRaw P (slice n nLen rawKey) (slice e eLen rawKey) key)) (\<lambda>key.
       guardE (\<not> wc_RsaPSS_VerifyCheck P sg hash hashType mgf key < 0) E_BAD_CERT))))))"

definition wn_CvMlDsa :: "'k pk_crypto \<Rightarrow> nat \<Rightarrow> bytes \<Rightarrow> bytes \<Rightarrow> bytes \<Rightarrow> wn_err + unit" where
  "wn_CvMlDsa P level spki tbs sg =
     bindE (guardE (key_alloc P) E_CRYPTO) (\<lambda>_.
     bindE (stat E_CRYPTO (wc_MlDsaKey_Init P)) (\<lambda>key.
     bindE (stat E_CRYPTO (wc_MlDsaKey_SetParams P key level)) (\<lambda>key.
     bindE (stat E_BAD_CERT (wc_MlDsaKey_PublicKeyDecode P key spki)) (\<lambda>key.
     bindE (stat E_BAD_CERT (wc_MlDsaKey_VerifyCtx P key sg tbs)) (\<lambda>res. guardE (res = 1) E_BAD_CERT)))))"

definition wn_SchemeKeyOk :: "word16 \<Rightarrow> x509_key \<Rightarrow> x509_curve \<Rightarrow> bool" where
  "wn_SchemeKeyOk scheme leafKeyAlg leafCurve =
     (if scheme = 0x0403 then leafKeyAlg = KEY_ECDSA \<and> leafCurve = CURVE_P256
      else if scheme = 0x0503 then leafKeyAlg = KEY_ECDSA \<and> leafCurve = CURVE_P384
      else if scheme = 0x0807 then leafKeyAlg = KEY_ED25519
      else if scheme = 0x0804 \<or> scheme = 0x0805 \<or> scheme = 0x0806 then leafKeyAlg = KEY_RSA
      else True)"

text \<open>
  The caller ignores the status of \<open>wn_X509_SpkiKeyInfo\<close> and uses the two values it left
  behind, so that a failing call counts with what it had written.
\<close>

definition spki_key_outs :: "build \<Rightarrow> bytes \<Rightarrow> wn_err + x509_key \<times> x509_curve" where
  "spki_key_outs B s =
     bindE (tryE (wn_Asn_GetHeader s 0x30 0 (length s))) (\<lambda>h. case h of
       None \<Rightarrow> Inr (KEY_UNKNOWN, CURVE_NONE)
     | Some (i, len) \<Rightarrow>
         bindE (tryE (wn_Asn_GetHeader s 0x30 i (length s))) (\<lambda>h. case h of
           None \<Rightarrow> Inr (KEY_UNKNOWN, CURVE_NONE)
         | Some (j, algLen) \<Rightarrow>
             let algEnd = u32 (j + algLen) in
             bindE (tryE (wn_Asn_GetHeader s 0x06 j algEnd)) (\<lambda>h. case h of
               None \<Rightarrow> Inr (KEY_UNKNOWN, CURVE_NONE)
             | Some (k, oidLen) \<Rightarrow>
                 bindE (wn_KeyAlgFromOid B s k oidLen) (\<lambda>alg.
                   if alg = KEY_ECDSA then
                     bindE (tryE (wn_Asn_GetHeader s 0x06 (u32 (k + oidLen)) algEnd)) (\<lambda>h. case h of
                       None \<Rightarrow> Inr (alg, CURVE_NONE)
                     | Some (m, curveLen) \<Rightarrow>
                         bindE (wn_CurveFromOid B s m curveLen) (\<lambda>curve. Inr (alg, curve)))
                   else Inr (alg, CURVE_NONE)))))"

definition wn_CertVerify :: "build \<Rightarrow> 'k pk_crypto \<Rightarrow> word16 \<Rightarrow> bytes \<Rightarrow> bytes \<Rightarrow> bytes \<Rightarrow> wn_err + unit" where
  "wn_CertVerify B P scheme spki th sg =
     (let tbs = wn_BuildCvTbs th in
      bindE (spki_key_outs B spki) (\<lambda>(leafKeyAlg, leafCurve).
        if \<not> wn_SchemeKeyOk scheme leafKeyAlg leafCurve then Inl E_BAD_CERT
        else if have_ecc B \<and> scheme = 0x0403 then wn_CvEcdsa P spki WC_HASH_TYPE_SHA256 32 tbs sg
        else if have_ecc384 B \<and> have_sha384_sig B \<and> scheme = 0x0503 then wn_CvEcdsa P spki WC_HASH_TYPE_SHA384 48 tbs sg
        else if have_ed25519 B \<and> scheme = 0x0807 then wn_CvEd25519 P spki tbs sg
        else if have_rsa B \<and> scheme = 0x0804 then wn_CvRsaPss P spki WC_HASH_TYPE_SHA256 WC_MGF1SHA256 tbs sg
        else if have_rsa B \<and> have_sha384_sig B \<and> scheme = 0x0805 then
          wn_CvRsaPss P spki WC_HASH_TYPE_SHA384 WC_MGF1SHA384 tbs sg
        else if have_rsa B \<and> have_sha512_sig B \<and> scheme = 0x0806 then
          wn_CvRsaPss P spki WC_HASH_TYPE_SHA512 WC_MGF1SHA512 tbs sg
        else (case have_mldsa B of
                Some level \<Rightarrow> if scheme = mldsa_scheme level then wn_CvMlDsa P level spki tbs sg else Inl E_UNSUPPORTED
              | None \<Rightarrow> Inl E_UNSUPPORTED)))"

subsection \<open>Key pin and host name\<close>

definition wn_CheckKeyPin :: "cert_ref option \<Rightarrow> bytes option \<Rightarrow> wn_err + unit" where
  "wn_CheckKeyPin leaf pin =
     (case leaf of None \<Rightarrow> Inl E_BAD_CERT
      | Some (der, c) \<Rightarrow>
        let (key, keyLen) = (if c_keyAlg c = KEY_ECDSA then (c_spki c, c_spkiLen c) else (c_pubKey c, c_pubKeyLen c)) in
        case pin of None \<Rightarrow> Inl E_BAD_CERT
        | Some p \<Rightarrow>
            if 0 < length p \<and> length p = keyLen
            then bindE (ptr_bytes der key keyLen) (\<lambda>k. guardE (k = p) E_BAD_CERT)
            else Inl E_BAD_CERT)"

definition wn_AsciiLower :: "byte \<Rightarrow> byte" where
  "wn_AsciiLower c = (if c \<ge> 0x41 \<and> c \<le> 0x5A then c - 0x41 + 0x61 else c)"

definition wn_DnsCaseEq :: "bytes \<Rightarrow> bytes \<Rightarrow> nat \<Rightarrow> bool" where
  "wn_DnsCaseEq a b len = foldl (\<lambda>eq i. if wn_AsciiLower (a ! i) \<noteq> wn_AsciiLower (b ! i) then False else eq) True [0..<len]"

text \<open>The length of the first label.\<close>

fun first_dot :: "bytes \<Rightarrow> nat" where
  "first_dot [] = 0"
| "first_dot (c # cs) = (if c \<noteq> 0x2E then Suc (first_dot cs) else 0)"

definition wn_DnsNameMatch :: "bytes option \<Rightarrow> bytes option \<Rightarrow> wn_err + unit" where
  "wn_DnsNameMatch pat host =
     (case (pat, host) of
        (Some p, Some h) \<Rightarrow>
          if length p = 0 \<or> length h = 0 then Inl E_BAD_CERT
          else if length p > 2 \<and> p ! 0 = 0x2A \<and> p ! 1 = 0x2E then
            let k = first_dot h in
            guardE (0 < k \<and> k < length h \<and> length p - 1 = length h - k \<and>
                    wn_DnsCaseEq (drop 1 p) (drop k h) (length p - 1)) E_BAD_CERT
          else guardE (length p = length h \<and> wn_DnsCaseEq p h (length p)) E_BAD_CERT
      | _ \<Rightarrow> Inl E_BAD_CERT)"

primrec san_match :: "bytes \<Rightarrow> bytes \<Rightarrow> (nat \<times> nat) list \<Rightarrow> bool \<Rightarrow> wn_err + bool" where
  "san_match der host [] found = Inr found"
| "san_match der host (s # ss) found =
     bindE (ptr_bytes der (Some (fst s)) (snd s)) (\<lambda>name.
       san_match der host ss (if wn_DnsNameMatch (Some name) (Some host) = Inr () then True else found))"

definition cn_match :: "build \<Rightarrow> bytes \<Rightarrow> x509_cert \<Rightarrow> bytes \<Rightarrow> wn_err + bool" where
  "cn_match B der c host =
     (if x509_cn B \<and> length (c_san c) = 0 \<and> c_subjectCN c \<noteq> None
      then bindE (ptr_bytes der (c_subjectCN c) (c_subjectCNLen c)) (\<lambda>cn. Inr (wn_DnsNameMatch (Some cn) (Some host) = Inr ()))
      else Inr False)"

definition wn_CheckServerName :: "build \<Rightarrow> cert_ref option \<Rightarrow> bytes option \<Rightarrow> wn_err + unit" where
  "wn_CheckServerName B leaf host =
     (case (leaf, host) of
        (Some (der, c), Some h) \<Rightarrow>
          bindE (san_match der h (c_san c) False) (\<lambda>san.
          bindE (cn_match B der c h) (\<lambda>cn. guardE (san \<or> cn) E_BAD_CERT))
      | _ \<Rightarrow> Inl E_BAD_CERT)"

subsection \<open>The chain\<close>

text \<open>\<open>wn_X509_TimeValid\<close> with its decoding error counted as a bad certificate.\<close>

definition time_ok :: "build \<Rightarrow> cert_ref \<Rightarrow> int \<Rightarrow> wn_err + unit" where
  "time_ok B c now =
     (if x509_time B then
        (case wn_X509_TimeValid B (fst c) (Some (snd c)) now of
           Inl e \<Rightarrow> Inl (if e = E_X509_DECODE then E_BAD_CERT else e)
         | Inr u \<Rightarrow> Inr u)
      else Inr ())"

text \<open>The link from a certificate to its issuer, which is the anchor or the next presented one.\<close>

definition chain_link ::
  "build \<Rightarrow> 'k pk_crypto \<Rightarrow> int \<Rightarrow> cert_ref \<Rightarrow> bytes \<Rightarrow> bool \<Rightarrow> wn_err + unit" where
  "chain_link B P now child issuerDer notAnchor =
     bindE (fail_as E_BAD_CERT (wn_X509_Parse B (Some issuerDer))) (\<lambda>issuer.
     bindE (fail_as E_BAD_CERT (wn_X509_VerifySignedBy B P (Some child) (Some (issuerDer, issuer)))) (\<lambda>_.
     bindE (guardE (\<not> (notAnchor \<and> c_flags issuer AND 0x0001 = 0)) E_BAD_CERT) (\<lambda>_.
     bindE (guardE (\<not> (notAnchor \<and> c_flags issuer AND 0x0010 \<noteq> 0 \<and> c_keyUsage issuer AND 0x0004 = 0)) E_BAD_CERT) (\<lambda>_.
       if notAnchor then time_ok B (issuerDer, issuer) now else Inr ()))))"

fun chain_walk :: "build \<Rightarrow> 'k pk_crypto \<Rightarrow> int \<Rightarrow> bytes \<Rightarrow> bytes option \<Rightarrow> bytes list \<Rightarrow> wn_err + unit" where
  "chain_walk B P now anchor anchorSpki [] = Inr ()"
| "chain_walk B P now anchor anchorSpki (der # rest) =
     bindE (fail_as E_BAD_CERT (wn_X509_Parse B (Some der))) (\<lambda>child.
     bindE (ptr_bytes der (c_spki child) (c_spkiLen child)) (\<lambda>spki.
       if anchorSpki = Some spki then Inr ()
       else
         let issuerDer = (case rest of i # _ \<Rightarrow> i | [] \<Rightarrow> anchor);
             notAnchor = (rest \<noteq> [] \<and> issuerDer \<noteq> anchor)
         in bindE (chain_link B P now (der, child) issuerDer notAnchor) (\<lambda>_.
              chain_walk B P now anchor anchorSpki rest)))"

definition anchor_spki :: "build \<Rightarrow> bytes \<Rightarrow> wn_err + bytes option" where
  "anchor_spki B anchor =
     bindE (tryE (wn_X509_Parse B (Some anchor))) (\<lambda>a. case a of
       None \<Rightarrow> Inr None
     | Some c \<Rightarrow> bindE (ptr_bytes anchor (c_spki c) (c_spkiLen c)) (\<lambda>s. Inr (Some s)))"

text \<open>The checks on the leaf; \<open>cap\<close> is the room for its SubjectPublicKeyInfo.\<close>

definition leaf_checks ::
  "build \<Rightarrow> bytes \<Rightarrow> nat \<Rightarrow> bytes option \<Rightarrow> bytes option \<Rightarrow> int \<Rightarrow> wn_err + bytes" where
  "leaf_checks B der cap serverName pinnedKey now =
     bindE (fail_as E_BAD_CERT (wn_X509_Parse B (Some der))) (\<lambda>c.
     bindE (guardE (c_spkiLen c \<le> cap) E_CRYPTO) (\<lambda>_.
     bindE (ptr_bytes der (c_spki c) (c_spkiLen c)) (\<lambda>spki.
     bindE (guardE (\<not> (c_flags c AND 0x0010 \<noteq> 0 \<and> c_keyUsage c AND 0x0080 = 0)) E_BAD_CERT) (\<lambda>_.
     bindE (guardE (\<not> (c_flags c AND 0x0040 \<noteq> 0 \<and> c_extKeyUsage c AND 0x02 = 0)) E_BAD_CERT) (\<lambda>_.
     bindE (if pinnedKey \<noteq> None then wn_CheckKeyPin (Some (der, c)) pinnedKey else Inr ()) (\<lambda>_.
     bindE (if serverName \<noteq> None
            then if x509_hostname B then wn_CheckServerName B (Some (der, c)) serverName else Inl E_UNSUPPORTED
            else Inr ()) (\<lambda>_.
     bindE (time_ok B (der, c) now) (\<lambda>_. Inr spki))))))))"

definition wn_VerifyChain ::
  "build \<Rightarrow> 'k pk_crypto \<Rightarrow> bytes list \<Rightarrow> bytes \<Rightarrow> nat \<Rightarrow> bytes option \<Rightarrow> bytes option \<Rightarrow> int \<Rightarrow> wn_err + bytes" where
  "wn_VerifyChain B P certs anchor cap serverName pinnedKey now =
     (case certs of [] \<Rightarrow> Inl E_INVALID_ARG
      | leaf # _ \<Rightarrow>
        bindE (anchor_spki B anchor) (\<lambda>anchorSpki.
        bindE (chain_walk B P now anchor anchorSpki certs) (\<lambda>_.
          leaf_checks B leaf cap serverName pinnedKey now)))"

subsection \<open>Names\<close>

text \<open>
  RFC 6125 on octets: a name matches a host when they are equal up to ASCII case, or when the
  name is a wildcard label and a dot followed by a suffix, and the host is one non-empty label
  followed by that suffix.
\<close>

definition ascii_fold :: "byte \<Rightarrow> byte" where
  "ascii_fold b =
     (case map_of (zip (cstr ''ABCDEFGHIJKLMNOPQRSTUVWXYZ'') (cstr ''abcdefghijklmnopqrstuvwxyz'')) b of
        None \<Rightarrow> b | Some l \<Rightarrow> l)"

definition lower :: "bytes \<Rightarrow> bytes" where
  "lower = map ascii_fold"

text \<open>The arithmetic of the code computes this table.\<close>

lemma upper_octet:
  assumes "0x41 \<le> b" "b \<le> (0x5A :: byte)"
  shows "b \<in> set (cstr ''ABCDEFGHIJKLMNOPQRSTUVWXYZ'')"
proof -
  have "unat b \<in> set [65..<91]" using assms by (simp only: set_upt atLeastLessThan_iff word_le_nat_alt) simp
  then have "b \<in> of_nat ` set [65..<91]"
    by (rule rev_image_eqI) simp
  also have "of_nat ` set [65..<91] = set (cstr ''ABCDEFGHIJKLMNOPQRSTUVWXYZ'')"
    by (simp add: cstr_def upt_rec_numeral)
  finally show ?thesis .
qed

lemma AsciiLower_fold: "wn_AsciiLower = ascii_fold"
proof
  fix b :: byte
  show "wn_AsciiLower b = ascii_fold b"
  proof (cases "b \<in> set (cstr ''ABCDEFGHIJKLMNOPQRSTUVWXYZ'')")
    case True
    then show ?thesis
      by (auto simp: wn_AsciiLower_def ascii_fold_def cstr_def word_le_nat_alt)
  next
    case False
    then have "map_of (zip (cstr ''ABCDEFGHIJKLMNOPQRSTUVWXYZ'') (cstr ''abcdefghijklmnopqrstuvwxyz'')) b = None"
      by (auto simp: map_of_eq_None_iff dest: set_zip_leftD)
    then show ?thesis
      using False upper_octet [of b] by (auto simp: wn_AsciiLower_def ascii_fold_def)
  qed
qed

lemma lower_map: "lower = map wn_AsciiLower"
  by (simp add: lower_def AsciiLower_fold)

definition dns_matches :: "bytes \<Rightarrow> bytes \<Rightarrow> bool" where
  "dns_matches pat host \<longleftrightarrow> host \<noteq> [] \<and>
     (lower pat = lower host \<or>
      (\<exists>suffix label host'. pat = 0x2A # 0x2E # suffix \<and> suffix \<noteq> [] \<and> host = label @ 0x2E # host' \<and>
         label \<noteq> [] \<and> 0x2E \<notin> set label \<and> lower suffix = lower host'))"

lemma case_eq_fold:
  "foldl (\<lambda>eq i. if wn_AsciiLower (a ! i) \<noteq> wn_AsciiLower (b ! i) then False else eq) True [0..<n] \<longleftrightarrow>
   (\<forall>i<n. wn_AsciiLower (a ! i) = wn_AsciiLower (b ! i))"
  by (induction n) (auto simp: less_Suc_eq)

lemma DnsCaseEq_iff: "length a = n \<Longrightarrow> length b = n \<Longrightarrow> wn_DnsCaseEq a b n \<longleftrightarrow> lower a = lower b"
  by (auto simp: wn_DnsCaseEq_def case_eq_fold lower_map list_eq_iff_nth_eq)

lemma first_dot_le: "first_dot h \<le> length h"
  by (induction h) auto

lemma first_dot_split: "first_dot h < length h \<Longrightarrow> h = take (first_dot h) h @ 0x2E # drop (Suc (first_dot h)) h"
  by (induction h) auto

lemma first_dot_label: "0x2E \<notin> set (take (first_dot h) h)"
  by (induction h) auto

lemma first_dot_app: "0x2E \<notin> set l \<Longrightarrow> first_dot (l @ 0x2E # t) = length l"
  by (induction l) auto

lemma lower_dot: "wn_AsciiLower b = 0x2E \<longleftrightarrow> b = 0x2E" "wn_AsciiLower b = 0x2A \<longleftrightarrow> b = 0x2A"
proof -
  have "b - 0x41 + 0x61 = b + 0x20" by simp
  moreover have "b + 0x20 \<noteq> 0x2E \<and> b + 0x20 \<noteq> 0x2A" if "b \<ge> 0x41" "b \<le> 0x5A"
  proof -
    have u: "0x41 \<le> unat b" "unat b \<le> 0x5A" using that by (simp_all add: word_le_nat_alt)
    then have "unat (b + 0x20) = unat b + 0x20" by (simp add: unat_plus_if')
    then show ?thesis using u by (auto simp: word_unat_eq_iff)
  qed
  ultimately show "wn_AsciiLower b = 0x2E \<longleftrightarrow> b = 0x2E" "wn_AsciiLower b = 0x2A \<longleftrightarrow> b = 0x2A"
    by (auto simp: wn_AsciiLower_def word_le_nat_alt)
qed

lemma DnsNameMatch_iff: "wn_DnsNameMatch (Some pat) (Some host) = Inr () \<longleftrightarrow> dns_matches pat host"
proof (cases "length pat > 2 \<and> pat ! 0 = 0x2A \<and> pat ! 1 = 0x2E")
  case False
  then have nw: "\<not> (\<exists>suffix. pat = 0x2A # 0x2E # suffix \<and> suffix \<noteq> [])" by auto
  have "lower pat = lower host \<Longrightarrow> length pat = length host" unfolding lower_map by (metis length_map)
  then show ?thesis
    using False nw by (auto simp: wn_DnsNameMatch_def dns_matches_def DnsCaseEq_iff)
next
  case True
  then obtain suffix where p: "pat = 0x2A # 0x2E # suffix" "suffix \<noteq> []"
    by (cases pat; cases "tl pat"; cases "tl (tl pat)") auto
  define k where "k = first_dot host"
  have m: "wn_DnsNameMatch (Some pat) (Some host) = Inr () \<longleftrightarrow> host \<noteq> [] \<and> 0 < k \<and> k < length host \<and>
      length (0x2E # suffix) = length (drop k host) \<and> lower (0x2E # suffix) = lower (drop k host)"
    using True by (auto simp: wn_DnsNameMatch_def p k_def [symmetric] DnsCaseEq_iff)
  have len: "lower (0x2E # suffix) = lower (drop k host) \<Longrightarrow> length (0x2E # suffix) = length (drop k host)"
    unfolding lower_map by (metis length_map)
  show ?thesis
  proof
    assume "wn_DnsNameMatch (Some pat) (Some host) = Inr ()"
    then have h: "host \<noteq> []" "0 < k" "k < length host" "lower (0x2E # suffix) = lower (drop k host)"
      unfolding m by simp_all
    have e: "host = take k host @ 0x2E # drop (Suc k) host"
      using first_dot_split [of host] h(3) by (simp add: k_def)
    have "drop k host = 0x2E # drop (Suc k) host"
      using first_dot_split [of host] h(3) by (metis append_eq_conv_conj append_take_drop_id k_def)
    then have "lower suffix = lower (drop (Suc k) host)" using h(4) by (simp add: lower_map)
    moreover have "take k host \<noteq> []" "0x2E \<notin> set (take k host)"
      using h(1,2) first_dot_label [of host] by (simp_all add: k_def)
    ultimately show "dns_matches pat host"
      unfolding dns_matches_def using e p h(1) by blast
  next
    assume "dns_matches pat host"
    then consider (eq) "host \<noteq> []" "lower pat = lower host" |
      (wild) label host' where "host = label @ 0x2E # host'" "label \<noteq> []" "0x2E \<notin> set label" "lower suffix = lower host'"
      unfolding dns_matches_def p by auto
    then show "wn_DnsNameMatch (Some pat) (Some host) = Inr ()"
    proof cases
      case eq
      then obtain a b t where h: "host = a # b # t" "wn_AsciiLower a = 0x2A" "wn_AsciiLower b = 0x2E" "lower suffix = lower t"
        unfolding p lower_map by (cases host; cases "tl host") (auto simp: wn_AsciiLower_def word_le_nat_alt)
      then have "a = 0x2A" "b = 0x2E" by (simp_all add: lower_dot)
      then have "k = 1" "drop k host = 0x2E # t" by (simp_all add: k_def h(1))
      then show ?thesis unfolding m using h len by (simp add: lower_map)
    next
      case wild
      then have "k = length label" "drop k host = 0x2E # host'" by (simp_all add: k_def first_dot_app)
      then show ?thesis unfolding m using wild len by (simp add: lower_map)
    qed
  qed
qed

lemma DnsNameMatch_not_Oob: "wn_DnsNameMatch p h \<noteq> Inl Oob"
  by (auto simp: wn_DnsNameMatch_def Let_def split: option.split)

subsection \<open>What a verified chain means\<close>

text \<open>
  A path of presented certificates, each issued by the next, up to one that has the anchor's
  public key or, at the end of the list, is issued by the anchor. Every issuer that is not the
  anchor itself is a CA, may sign certificates and is in its validity window.
\<close>

definition issued_by :: "build \<Rightarrow> 'k pk_crypto \<Rightarrow> bytes \<Rightarrow> bytes \<Rightarrow> bool" where
  "issued_by B P cder ider \<longleftrightarrow>
     (\<exists>c i. wn_X509_Parse B (Some cder) = Inr c \<and> wn_X509_Parse B (Some ider) = Inr i \<and>
        signature_accepts B P (c_keyAlg i) (c_curve i) (octets ider (c_pubKey i) (c_pubKeyLen i)) (c_sigAlg c)
          (octets cder (c_tbs c) (c_tbsLen c)) (octets cder (c_sig c) (c_sigLen c)))"

definition in_window :: "build \<Rightarrow> bytes \<Rightarrow> x509_cert \<Rightarrow> int \<Rightarrow> bool" where
  "in_window B der c now \<longleftrightarrow> \<not> x509_time B \<or> wn_X509_TimeValid B der (Some c) now = Inr ()"

definition may_issue :: "build \<Rightarrow> int \<Rightarrow> bytes \<Rightarrow> bool" where
  "may_issue B now der \<longleftrightarrow>
     (\<exists>c. wn_X509_Parse B (Some der) = Inr c \<and> c_flags c AND 0x0001 \<noteq> 0 \<and>
        (c_flags c AND 0x0010 = 0 \<or> c_keyUsage c AND 0x0004 \<noteq> 0) \<and> in_window B der c now)"

definition has_key_of :: "build \<Rightarrow> bytes \<Rightarrow> bytes \<Rightarrow> bool" where
  "has_key_of B a b \<longleftrightarrow>
     (\<exists>c d. wn_X509_Parse B (Some a) = Inr c \<and> wn_X509_Parse B (Some b) = Inr d \<and>
        octets a (c_spki c) (c_spkiLen c) = octets b (c_spki d) (c_spkiLen d))"

definition trusted :: "build \<Rightarrow> 'k pk_crypto \<Rightarrow> int \<Rightarrow> bytes \<Rightarrow> bytes list \<Rightarrow> bool" where
  "trusted B P now anchor certs \<longleftrightarrow>
     (\<exists>k<length certs.
        (\<forall>j<k. issued_by B P (certs ! j) (certs ! Suc j) \<and> (certs ! Suc j = anchor \<or> may_issue B now (certs ! Suc j))) \<and>
        (has_key_of B (certs ! k) anchor \<or> Suc k = length certs \<and> issued_by B P (certs ! k) anchor))"

definition names_host :: "build \<Rightarrow> bytes \<Rightarrow> x509_cert \<Rightarrow> bytes \<Rightarrow> bool" where
  "names_host B der c host \<longleftrightarrow>
     (\<exists>(a, n)\<in>set (c_san c). dns_matches (slice a n der) host) \<or>
     (x509_cn B \<and> c_san c = [] \<and> c_subjectCN c \<noteq> None \<and> dns_matches (octets der (c_subjectCN c) (c_subjectCNLen c)) host)"

definition leaf_ok :: "build \<Rightarrow> bytes \<Rightarrow> nat \<Rightarrow> bytes option \<Rightarrow> bytes option \<Rightarrow> int \<Rightarrow> bytes \<Rightarrow> bool" where
  "leaf_ok B der cap serverName pinnedKey now spki \<longleftrightarrow>
     (\<exists>c. wn_X509_Parse B (Some der) = Inr c \<and> c_spkiLen c \<le> cap \<and> spki = octets der (c_spki c) (c_spkiLen c) \<and>
        (c_flags c AND 0x0010 = 0 \<or> c_keyUsage c AND 0x0080 \<noteq> 0) \<and>
        (c_flags c AND 0x0040 = 0 \<or> c_extKeyUsage c AND 0x02 \<noteq> 0) \<and>
        (case pinnedKey of None \<Rightarrow> True
         | Some p \<Rightarrow> p \<noteq> [] \<and> p = (if c_keyAlg c = KEY_ECDSA then spki else octets der (c_pubKey c) (c_pubKeyLen c))) \<and>
        (case serverName of None \<Rightarrow> True | Some h \<Rightarrow> x509_hostname B \<and> names_host B der c h) \<and> in_window B der c now)"

lemma fail_as_eq: "fail_as e m = Inr x \<longleftrightarrow> m = Inr x" "e \<noteq> Oob \<Longrightarrow> fail_as e m = Inl Oob \<longleftrightarrow> m = Inl Oob"
  by (cases m; auto simp: fail_as_def)+

text \<open>The pointers of a parsed certificate.\<close>

lemma parsed_ptrs:
  assumes "wn_X509_Parse B (Some der) = Inr c"
  shows "ptr_bytes der (c_spki c) (c_spkiLen c) = Inr (octets der (c_spki c) (c_spkiLen c))"
    and "ptr_bytes der (c_pubKey c) (c_pubKeyLen c) = Inr (octets der (c_pubKey c) (c_pubKeyLen c))"
    and "c_subjectCN c \<noteq> None \<Longrightarrow> ptr_bytes der (c_subjectCN c) (c_subjectCNLen c) = Inr (octets der (c_subjectCN c) (c_subjectCNLen c))"
    and "list_all (\<lambda>(a, n). a + n \<le> length der) (c_san c)"
    and "length (octets der (c_spki c) (c_spkiLen c)) = c_spkiLen c"
    and "length (octets der (c_pubKey c) (c_pubKeyLen c)) = c_pubKeyLen c"
proof -
  have s: "cert_shape B der c" using parse_shape [of B der] assms by (simp add: safeE_def)
  then have n: "c_spki c \<noteq> None" "c_pubKey c \<noteq> None" by (auto simp: cert_shape_def spki_at_def)
  note f = cert_shape_flds(4,3,7,9) [OF s]
  show "ptr_bytes der (c_spki c) (c_spkiLen c) = Inr (octets der (c_spki c) (c_spkiLen c))"
    "ptr_bytes der (c_pubKey c) (c_pubKeyLen c) = Inr (octets der (c_pubKey c) (c_pubKeyLen c))"
    "c_subjectCN c \<noteq> None \<Longrightarrow> ptr_bytes der (c_subjectCN c) (c_subjectCNLen c) = Inr (octets der (c_subjectCN c) (c_subjectCNLen c))"
    using ptr_bytes_eq [OF n(1) f(1)] ptr_bytes_eq [OF n(2) f(2)] ptr_bytes_eq [OF _ f(3)] by simp_all
  show "list_all (\<lambda>(a, n). a + n \<le> length der) (c_san c)"
    by (rule f(4))
  show "length (octets der (c_spki c) (c_spkiLen c)) = c_spkiLen c" "length (octets der (c_pubKey c) (c_pubKeyLen c)) = c_pubKeyLen c"
    using n f(1,2) by (auto simp: octets_def)
qed

lemma parse_not_Oob: "wn_X509_Parse B (Some der) \<noteq> Inl Oob"
  using safeE_no_oob [OF parse_shape] .

lemma time_ok_iff: "time_ok B (der, c) now = Inr () \<longleftrightarrow> in_window B der c now"
  by (auto simp: time_ok_def in_window_def split: sum.splits)

lemma time_ok_safe: "wn_X509_Parse B (Some der) = Inr c \<Longrightarrow> time_ok B (der, c) now \<noteq> Inl Oob"
  using TimeValid_safe [of B der c now] by (auto simp: time_ok_def split: sum.splits)

text \<open>One link.\<close>

lemma chain_link_iff:
  assumes "rsa_ok P" "wn_X509_Parse B (Some cder) = Inr c"
  shows "chain_link B P now (cder, c) ider na = Inr () \<longleftrightarrow> issued_by B P cder ider \<and> (\<not> na \<or> may_issue B now ider)"
    and "chain_link B P now (cder, c) ider na \<noteq> Inl Oob"
proof -
  show "chain_link B P now (cder, c) ider na = Inr () \<longleftrightarrow> issued_by B P cder ider \<and> (\<not> na \<or> may_issue B now ider)"
  proof (cases "wn_X509_Parse B (Some ider)")
    case (Inr i)
    show ?thesis
      using VerifySignedBy_iff [OF assms(2) Inr assms(1)] assms(2)
      by (auto simp: chain_link_def issued_by_def may_issue_def bindE_eq_Inr fail_as_eq Inr time_ok_iff)
  qed (simp add: chain_link_def issued_by_def fail_as_def)
  show "chain_link B P now (cder, c) ider na \<noteq> Inl Oob"
    using VerifySignedBy_iff [OF assms(2) _ assms(1), of ider] parse_not_Oob [of B ider] time_ok_safe [of B ider]
    by (auto simp: chain_link_def bindE_eq_Inl fail_as_eq)
qed

lemma trusted_Cons:
  "trusted B P now anchor (der # rest) \<longleftrightarrow> has_key_of B der anchor \<or>
     (case rest of
        [] \<Rightarrow> issued_by B P der anchor
      | i # _ \<Rightarrow> issued_by B P der i \<and> (i = anchor \<or> may_issue B now i) \<and> trusted B P now anchor rest)"
proof -
  let ?L = "\<lambda>cs j. issued_by B P (cs ! j) (cs ! Suc j) \<and> (cs ! Suc j = anchor \<or> may_issue B now (cs ! Suc j))"
  let ?E = "\<lambda>cs k. has_key_of B (cs ! k) anchor \<or> Suc k = length cs \<and> issued_by B P (cs ! k) anchor"
  have "trusted B P now anchor (der # rest) \<longleftrightarrow>
      ?E (der # rest) 0 \<or> (\<exists>k<length rest. (\<forall>j<Suc k. ?L (der # rest) j) \<and> ?E (der # rest) (Suc k))"
    unfolding trusted_def by (simp only: length_Cons Ex_less_Suc2) simp
  moreover have "(\<forall>j<Suc k. ?L (der # rest) j) \<longleftrightarrow> ?L (der # rest) 0 \<and> (\<forall>j<k. ?L rest j)" for k
    by (simp only: All_less_Suc2) simp
  ultimately show ?thesis
    unfolding trusted_def by (cases rest) auto
qed

lemma if_eq_Inr: "(if b then Inr () else m) = Inr () \<longleftrightarrow> b \<or> m = Inr ()"
  by simp

lemma chain_walk_iff:
  assumes "rsa_ok P" "anchor_spki B anchor = Inr sp"
  shows "chain_walk B P now anchor sp certs = Inr () \<longleftrightarrow> certs = [] \<or> trusted B P now anchor certs"
    and "chain_walk B P now anchor sp certs \<noteq> Inl Oob"
proof -
  have key: "sp = Some (octets der (c_spki c) (c_spkiLen c)) \<longleftrightarrow> has_key_of B der anchor"
    if "wn_X509_Parse B (Some der) = Inr c" for der c
    using assms(2) that parsed_ptrs(1) [of B anchor]
    by (cases "wn_X509_Parse B (Some anchor)")
      (auto simp: anchor_spki_def has_key_of_def tryE_def split: if_splits)
  have step: "chain_walk B P now anchor sp (der # rest) =
      (if has_key_of B der anchor then Inr ()
       else bindE (chain_link B P now (der, c) (case rest of i # _ \<Rightarrow> i | [] \<Rightarrow> anchor)
              (rest \<noteq> [] \<and> (case rest of i # _ \<Rightarrow> i | [] \<Rightarrow> anchor) \<noteq> anchor))
              (\<lambda>_. chain_walk B P now anchor sp rest))"
    if "wn_X509_Parse B (Some der) = Inr c" for der c rest
    using key [OF that] parsed_ptrs(1) [OF that] that by (simp add: fail_as_def Let_def)
  have nokey: "\<not> has_key_of B der anchor" "\<not> issued_by B P der i"
    if "wn_X509_Parse B (Some der) = Inl e" for der e i
    using that by (simp_all add: has_key_of_def issued_by_def)
  show "chain_walk B P now anchor sp certs = Inr () \<longleftrightarrow> certs = [] \<or> trusted B P now anchor certs"
  proof (induction certs)
    case (Cons der rest)
    show ?case
    proof (cases "wn_X509_Parse B (Some der)")
      case (Inr c)
      show ?thesis
        unfolding step [OF Inr] trusted_Cons if_eq_Inr bindE_eq_Inr Cons.IH
        by (cases rest) (auto simp: chain_link_iff(1) [OF assms(1) Inr])
    qed (auto simp: fail_as_def trusted_Cons nokey split: list.split)
  qed simp
  show "chain_walk B P now anchor sp certs \<noteq> Inl Oob"
  proof (induction certs)
    case (Cons der rest)
    show ?case
    proof (cases "wn_X509_Parse B (Some der)")
      case (Inr c)
      show ?thesis
        unfolding step [OF Inr] using Cons.IH chain_link_iff(2) [OF assms(1) Inr] by (simp add: bindE_eq_Inl)
    qed (use parse_not_Oob [of B der] in \<open>auto simp: fail_as_def\<close>)
  qed simp
qed

lemma anchor_spki_ok: "\<exists>sp. anchor_spki B anchor = Inr sp"
  using parse_not_Oob [of B anchor] parsed_ptrs(1) [of B anchor]
  by (cases "wn_X509_Parse B (Some anchor)") (auto simp: anchor_spki_def tryE_def)

text \<open>The leaf.\<close>

lemma san_match_eq:
  "list_all (\<lambda>(a, n). a + n \<le> length der) ss \<Longrightarrow>
   san_match der host ss found = Inr (found \<or> (\<exists>(a, n)\<in>set ss. dns_matches (slice a n der) host))"
  by (induction ss arbitrary: found) (auto simp: ptr_bytes_def DnsNameMatch_iff)

lemma CheckServerName_iff:
  assumes "wn_X509_Parse B (Some der) = Inr c"
  shows "wn_CheckServerName B (Some (der, c)) (Some h) = (if names_host B der c h then Inr () else Inl E_BAD_CERT)"
  using san_match_eq [OF parsed_ptrs(4) [OF assms]] parsed_ptrs(3) [OF assms]
  by (auto simp: wn_CheckServerName_def cn_match_def names_host_def DnsNameMatch_iff)

lemma CheckKeyPin_iff:
  assumes "wn_X509_Parse B (Some der) = Inr c"
  shows "wn_CheckKeyPin (Some (der, c)) (Some p) =
    (if p \<noteq> [] \<and> p = (if c_keyAlg c = KEY_ECDSA then octets der (c_spki c) (c_spkiLen c) else octets der (c_pubKey c) (c_pubKeyLen c))
     then Inr () else Inl E_BAD_CERT)"
  using parsed_ptrs(1,2,5,6) [OF assms] by (auto simp: wn_CheckKeyPin_def guardE_def)

lemma leaf_checks_iff:
  "leaf_checks B der cap name pin now = Inr spki \<longleftrightarrow> leaf_ok B der cap name pin now spki"
  "leaf_checks B der cap name pin now \<noteq> Inl Oob"
proof -
  have pin: "(if pin \<noteq> None then wn_CheckKeyPin (Some (der, c)) pin else Inr ()) = Inr () \<longleftrightarrow>
      (case pin of None \<Rightarrow> True | Some p \<Rightarrow> p \<noteq> [] \<and>
         p = (if c_keyAlg c = KEY_ECDSA then octets der (c_spki c) (c_spkiLen c) else octets der (c_pubKey c) (c_pubKeyLen c)))"
    "(if pin \<noteq> None then wn_CheckKeyPin (Some (der, c)) pin else Inr ()) \<noteq> Inl Oob"
    if "wn_X509_Parse B (Some der) = Inr c" for c
    using CheckKeyPin_iff [OF that] by (auto split: option.split if_splits)
  have name: "(if name \<noteq> None then if x509_hostname B then wn_CheckServerName B (Some (der, c)) name else Inl E_UNSUPPORTED
      else Inr ()) = Inr () \<longleftrightarrow> (case name of None \<Rightarrow> True | Some h \<Rightarrow> x509_hostname B \<and> names_host B der c h)"
    "(if name \<noteq> None then if x509_hostname B then wn_CheckServerName B (Some (der, c)) name else Inl E_UNSUPPORTED
      else Inr ()) \<noteq> Inl Oob"
    if "wn_X509_Parse B (Some der) = Inr c" for c
    using CheckServerName_iff [OF that] by (auto split: option.split if_splits)
  show "leaf_checks B der cap name pin now = Inr spki \<longleftrightarrow> leaf_ok B der cap name pin now spki"
  proof (cases "wn_X509_Parse B (Some der)")
    case (Inr c)
    show ?thesis
      unfolding leaf_checks_def leaf_ok_def bindE_eq_Inr pin(1) [OF Inr, symmetric] Inr
      by (auto simp: fail_as_def parsed_ptrs(1) [OF Inr] time_ok_iff bindE_eq_Inr pin(1) [OF Inr] name(1) [OF Inr]
          simp del: not_None_eq)
  qed (simp add: leaf_checks_def leaf_ok_def fail_as_def)
  show "leaf_checks B der cap name pin now \<noteq> Inl Oob"
  proof (cases "wn_X509_Parse B (Some der)")
    case (Inr c)
    show ?thesis
      unfolding leaf_checks_def Inr using pin(2) [OF Inr] name(2) [OF Inr]
      by (auto simp: fail_as_def parsed_ptrs(1) [OF Inr] time_ok_safe [OF Inr] bindE_eq_Inl simp del: not_None_eq)
  qed (use parse_not_Oob [of B der] in \<open>auto simp: leaf_checks_def fail_as_def\<close>)
qed

lemma VerifyChain_iff:
  assumes "rsa_ok P"
  shows "wn_VerifyChain B P certs anchor cap name pin now = Inr spki \<longleftrightarrow>
      certs \<noteq> [] \<and> trusted B P now anchor certs \<and> leaf_ok B (hd certs) cap name pin now spki"
    and "wn_VerifyChain B P certs anchor cap name pin now \<noteq> Inl Oob"
proof -
  obtain sp where sp: "anchor_spki B anchor = Inr sp" using anchor_spki_ok by blast
  show "wn_VerifyChain B P certs anchor cap name pin now = Inr spki \<longleftrightarrow>
      certs \<noteq> [] \<and> trusted B P now anchor certs \<and> leaf_ok B (hd certs) cap name pin now spki"
    by (cases certs) (simp_all add: wn_VerifyChain_def sp bindE_eq_Inr leaf_checks_iff(1) chain_walk_iff(1) [OF assms sp]
        del: chain_walk.simps)
  show "wn_VerifyChain B P certs anchor cap name pin now \<noteq> Inl Oob"
    by (cases certs) (simp_all add: wn_VerifyChain_def sp bindE_eq_Inl leaf_checks_iff(2) chain_walk_iff(2) [OF assms sp]
        del: chain_walk.simps)
qed

subsection \<open>What a verified CertificateVerify means\<close>

lemma key_outs_ok:
  assumes "wn_X509_SpkiKeyInfo B (Some s) = Inr (k, c)"
  shows "spki_key_outs B s = Inr (k, c)"
proof -
  obtain i len j al t where h: "wn_Asn_GetHeader s 0x30 0 (length s) = Inr (i, len)"
      "wn_Asn_GetHeader s 0x30 i (length s) = Inr (j, al)" "wn_ParseAlgIdOids B s j (u32 (j + al)) = Inr (t, k, c)"
    using assms by (auto simp: wn_X509_SpkiKeyInfo_def bindE_eq_Inr)
  obtain m ol where g: "wn_Asn_GetHeader s 0x06 j (u32 (j + al)) = Inr (m, ol)"
      "bindE (wn_KeyAlgFromOid B s m ol) (\<lambda>alg.
       let i1 = u32 (m + ol) in
       if alg = KEY_ECDSA then
         bindE (wn_Asn_GetHeader s 0x06 i1 (u32 (j + al))) (\<lambda>(j', oidLen).
         bindE (wn_CurveFromOid B s j' oidLen) (\<lambda>curve.
           let j1 = u32 (j' + oidLen) in
           if j1 \<noteq> u32 (j + al) then Inl E_X509_DECODE else Inr (j1, alg, curve)))
       else if alg = KEY_RSA then
         bindE (wn_Asn_GetHeader s 0x05 i1 (u32 (j + al))) (\<lambda>(j', oidLen).
           if oidLen \<noteq> 0 \<or> j' \<noteq> u32 (j + al) then Inl E_X509_DECODE else Inr (j', alg, CURVE_NONE))
       else if alg = KEY_ED25519 then
         if i1 \<noteq> u32 (j + al) then Inl E_X509_DECODE else Inr (i1, alg, CURVE_NONE)
       else Inr (i1, alg, CURVE_NONE)) = Inr (t, k, c)"
    using h(3) unfolding wn_ParseAlgIdOids_def by (auto simp: bindE_eq_Inr)
  then show ?thesis
    using h(1,2) unfolding spki_key_outs_def
    by (auto simp: tryE_def Let_def bindE_eq_Inr split: if_splits)
qed

text \<open>The calls the provider must accept under a scheme, for a key of this type and curve.\<close>

definition cv_accepts ::
  "build \<Rightarrow> 'k pk_crypto \<Rightarrow> word16 \<Rightarrow> x509_key \<Rightarrow> x509_curve \<Rightarrow> bytes \<Rightarrow> bytes \<Rightarrow> bytes \<Rightarrow> bytes \<Rightarrow> bool" where
  "cv_accepts B P scheme key curve pub spki content sg \<longleftrightarrow> key_alloc P \<and>
     (let ecdsa = (\<lambda>h c. \<exists>d k0 k. hash_ok P h content d \<and> wc_ecc_init P = (0, k0) \<and>
            wc_ecc_import_x963_ex P pub k0 c = (0, k) \<and> wc_ecc_verify_hash P sg d k = (0, 1));
          pss = (\<lambda>h g. \<exists>N E d k0 k. pub = tlv 0x30 (tlv 0x02 N @ tlv 0x02 E) \<and> unsigned_octets N \<and> unsigned_octets E \<and>
            hash_ok P h content d \<and> wc_InitRsaKey P = (0, k0) \<and> wc_RsaPublicKeyDecodeRaw P N E k0 = (0, k) \<and>
            0 \<le> wc_RsaPSS_VerifyCheck P sg d h g k)
      in (scheme = 0x0403 \<and> have_ecc B \<and> key = KEY_ECDSA \<and> curve = CURVE_P256 \<and> ecdsa WC_HASH_TYPE_SHA256 ECC_SECP256R1) \<or>
         (scheme = 0x0503 \<and> have_ecc384 B \<and> have_sha384_sig B \<and> key = KEY_ECDSA \<and> curve = CURVE_P384 \<and>
            ecdsa WC_HASH_TYPE_SHA384 ECC_SECP384R1) \<or>
         (scheme = 0x0807 \<and> have_ed25519 B \<and> key = KEY_ED25519 \<and> ed25519_accepts P pub content sg) \<or>
         (scheme = 0x0804 \<and> have_rsa B \<and> key = KEY_RSA \<and> pss WC_HASH_TYPE_SHA256 WC_MGF1SHA256) \<or>
         (scheme = 0x0805 \<and> have_rsa B \<and> have_sha384_sig B \<and> key = KEY_RSA \<and> pss WC_HASH_TYPE_SHA384 WC_MGF1SHA384) \<or>
         (scheme = 0x0806 \<and> have_rsa B \<and> have_sha512_sig B \<and> key = KEY_RSA \<and> pss WC_HASH_TYPE_SHA512 WC_MGF1SHA512) \<or>
         (\<exists>level k0 k1 k. have_mldsa B = Some level \<and> scheme = mldsa_scheme level \<and> wc_MlDsaKey_Init P = (0, k0) \<and>
            wc_MlDsaKey_SetParams P k0 level = (0, k1) \<and> wc_MlDsaKey_PublicKeyDecode P k1 spki = (0, k) \<and>
            wc_MlDsaKey_VerifyCtx P k sg content = (0, 1)))"

lemma raw_key_eq:
  assumes "wn_X509_Parse B (Some der) = Inr c"
  shows "raw_key (octets der (c_spki c) (c_spkiLen c)) = Inr (octets der (c_pubKey c) (c_pubKeyLen c))"
proof -
  have s: "cert_shape B der c" using parse_shape [of B der] assms by (simp add: safeE_def)
  then have n: "c_spki c \<noteq> None" "c_pubKey c \<noteq> None" by (auto simp: cert_shape_def spki_at_def)
  then show ?thesis
    using spki_agree [OF assms refl] by (auto simp: raw_key_def octets_def fail_as_def split: sum.splits)
qed

lemma cv_hash_eq: "cv_hash P h m = Inr d \<longleftrightarrow> hash_ok P h m d" "cv_hash P h m \<noteq> Inl Oob"
  by (auto simp: cv_hash_def hash_ok_def bindE_eq_Inr bindE_eq_Inl stat_eq_Inr stat_not_Oob not_le)

lemma CvEcdsa_iff:
  assumes "raw_key spki = Inr pub"
  shows "wn_CvEcdsa P spki h sz m sg = Inr () \<longleftrightarrow> key_alloc P \<and>
      (\<exists>d k0 k. hash_ok P h m d \<and> wc_ecc_init P = (0, k0) \<and>
        wc_ecc_import_x963_ex P pub k0 (if sz = 48 then ECC_SECP384R1 else ECC_SECP256R1) = (0, k) \<and>
        wc_ecc_verify_hash P sg d k = (0, 1))"
    and "wn_CvEcdsa P spki h sz m sg \<noteq> Inl Oob"
  unfolding wn_CvEcdsa_def assms
  by (auto simp: bindE_eq_Inr bindE_eq_Inl stat_eq_Inr stat_not_Oob cv_hash_eq)

lemma CvEd25519_iff:
  assumes "raw_key spki = Inr pub"
  shows "wn_CvEd25519 P spki m sg = Inr () \<longleftrightarrow> key_alloc P \<and> ed25519_accepts P pub m sg"
    and "wn_CvEd25519 P spki m sg \<noteq> Inl Oob"
  unfolding wn_CvEd25519_def ed25519_accepts_def assms
  by (auto simp: bindE_eq_Inr bindE_eq_Inl stat_eq_Inr stat_not_Oob)

lemma CvMlDsa_iff:
  "wn_CvMlDsa P level spki m sg = Inr () \<longleftrightarrow> key_alloc P \<and> (\<exists>k0 k1 k. wc_MlDsaKey_Init P = (0, k0) \<and>
     wc_MlDsaKey_SetParams P k0 level = (0, k1) \<and> wc_MlDsaKey_PublicKeyDecode P k1 spki = (0, k) \<and>
     wc_MlDsaKey_VerifyCtx P k sg m = (0, 1))"
  "wn_CvMlDsa P level spki m sg \<noteq> Inl Oob"
  unfolding wn_CvMlDsa_def by (auto simp: bindE_eq_Inr bindE_eq_Inl stat_eq_Inr stat_not_Oob)

lemma CvRsaPss_iff:
  assumes "raw_key spki = Inr pub" "length pub < 16777216"
  shows "wn_CvRsaPss P spki h g m sg = Inr () \<longleftrightarrow> key_alloc P \<and>
      (\<exists>N E d k0 k. pub = tlv 0x30 (tlv 0x02 N @ tlv 0x02 E) \<and> unsigned_octets N \<and> unsigned_octets E \<and>
        hash_ok P h m d \<and> wc_InitRsaKey P = (0, k0) \<and> wc_RsaPublicKeyDecodeRaw P N E k0 = (0, k) \<and>
        0 \<le> wc_RsaPSS_VerifyCheck P sg d h g k)"
    and "wn_CvRsaPss P spki h g m sg \<noteq> Inl Oob"
proof -
  have l: "length pub < 2147483648" using assms(2) by simp
  have key: "(\<exists>a n b e. wn_X509_RsaRawNE (Some pub) = Inr ((a, n), (b, e)) \<and> slice a n pub = N \<and> slice b e pub = E) \<longleftrightarrow>
      pub = tlv 0x30 (tlv 0x02 N @ tlv 0x02 E) \<and> unsigned_octets N \<and> unsigned_octets E" for N E
    using RsaRawNE_sound [OF _ l] RsaRawNE_found [of pub N E] assms(2) by blast
  have "wn_CvRsaPss P spki h g m sg = Inr () \<longleftrightarrow> key_alloc P \<and>
      (\<exists>d k0 a n b e k. hash_ok P h m d \<and> wc_InitRsaKey P = (0, k0) \<and> wn_X509_RsaRawNE (Some pub) = Inr ((a, n), (b, e)) \<and>
        wc_RsaPublicKeyDecodeRaw P (slice a n pub) (slice b e pub) k0 = (0, k) \<and>
        0 \<le> wc_RsaPSS_VerifyCheck P sg d h g k)"
    unfolding wn_CvRsaPss_def assms by (auto simp: bindE_eq_Inr stat_eq_Inr cv_hash_eq fail_as_eq not_less)
  also have "\<dots> \<longleftrightarrow> key_alloc P \<and>
      (\<exists>N E d k0 k. (\<exists>a n b e. wn_X509_RsaRawNE (Some pub) = Inr ((a, n), (b, e)) \<and> slice a n pub = N \<and> slice b e pub = E) \<and>
        hash_ok P h m d \<and> wc_InitRsaKey P = (0, k0) \<and> wc_RsaPublicKeyDecodeRaw P N E k0 = (0, k) \<and>
        0 \<le> wc_RsaPSS_VerifyCheck P sg d h g k)"
    by blast
  finally show "wn_CvRsaPss P spki h g m sg = Inr () \<longleftrightarrow> key_alloc P \<and>
      (\<exists>N E d k0 k. pub = tlv 0x30 (tlv 0x02 N @ tlv 0x02 E) \<and> unsigned_octets N \<and> unsigned_octets E \<and>
        hash_ok P h m d \<and> wc_InitRsaKey P = (0, k0) \<and> wc_RsaPublicKeyDecodeRaw P N E k0 = (0, k) \<and>
        0 \<le> wc_RsaPSS_VerifyCheck P sg d h g k)"
    unfolding key by (simp only: conj_assoc)
  show "wn_CvRsaPss P spki h g m sg \<noteq> Inl Oob"
    unfolding wn_CvRsaPss_def assms using safeE_no_oob [OF safe_RsaRawNE [OF l]]
    by (auto simp: bindE_eq_Inl stat_not_Oob cv_hash_eq fail_as_eq)
qed

lemma mldsa_scheme_range: "mldsa_scheme n \<in> {0x0904, 0x0905, 0x0906}"
  by simp

lemma CertVerify_iff:
  assumes "wn_X509_Parse B (Some der) = Inr c" "spki = octets der (c_spki c) (c_spkiLen c)"
    "pub = octets der (c_pubKey c) (c_pubKeyLen c)"
  shows "(wn_CertVerify B P scheme spki th sg = Inr () \<longleftrightarrow>
      cv_accepts B P scheme (c_keyAlg c) (c_curve c) pub spki (wn_BuildCvTbs th) sg) \<and>
    wn_CertVerify B P scheme spki th sg \<noteq> Inl Oob"
proof -
  have s: "cert_shape B der c" using parse_shape [of B der] assms(1) by (simp add: safeE_def)
  then have n: "c_spki c \<noteq> None" by (auto simp: cert_shape_def spki_at_def)
  have "wn_X509_SpkiKeyInfo B (Some spki) = Inr (c_keyAlg c, c_curve c)"
    using spki_agree [OF assms(1) refl] n by (auto simp: assms(2) octets_def)
  note k = key_outs_ok [OF this]
  note r = raw_key_eq [OF assms(1), folded assms(2,3)]
  have "c_pubKeyLen c + 1 < 16777216"
    using s hdr_atD [of der "0x03"] unfolding cert_shape_def spki_at_def by blast
  then have l: "length pub < 16777216" using parsed_ptrs(6) [OF assms(1)] by (simp add: assms(3))
  note V = CvEcdsa_iff [OF r] CvEd25519_iff [OF r] CvRsaPss_iff [OF r l] CvMlDsa_iff
  have ml: "mldsa_scheme n \<noteq> 0x0403 \<and> mldsa_scheme n \<noteq> 0x0503 \<and> mldsa_scheme n \<noteq> 0x0807 \<and> mldsa_scheme n \<noteq> 0x0804 \<and>
      mldsa_scheme n \<noteq> 0x0805 \<and> mldsa_scheme n \<noteq> 0x0806" for n
    by simp
  consider "scheme = 0x0403" | "scheme = 0x0503" | "scheme = 0x0807" | "scheme = 0x0804" | "scheme = 0x0805" |
    "scheme = 0x0806" | "scheme \<noteq> 0x0403 \<and> scheme \<noteq> 0x0503 \<and> scheme \<noteq> 0x0807 \<and> scheme \<noteq> 0x0804 \<and>
      scheme \<noteq> 0x0805 \<and> scheme \<noteq> 0x0806" by blast
  then show ?thesis
  proof cases
    case 7
    then show ?thesis
      using ml by (cases "have_mldsa B") (auto simp: wn_CertVerify_def wn_SchemeKeyOk_def k V cv_accepts_def Let_def simp del: mldsa_scheme.simps)
  qed (use ml in \<open>(cases "have_mldsa B"; auto simp: wn_CertVerify_def wn_SchemeKeyOk_def k V cv_accepts_def Let_def
      simp del: mldsa_scheme.simps dest: sym [of _ "mldsa_scheme _"])+\<close>)
qed

subsection \<open>Properties\<close>

text \<open>C11. A certificate chain is accepted exactly when it is trusted and its leaf is the server's: a path of
  presented certificates, each of whose signatures the provider accepts under the next one's key,
  leads to the pinned anchor's key, every intermediate being a CA that may sign certificates and is
  in its validity window; and the first certificate allows digital signatures and server
  authentication, has the pinned key, names the host and is valid now. The result is that
  certificate's SubjectPublicKeyInfo, and no read leaves a certificate.\<close>

theorem verify_chain_exact:
  assumes "rsa_ok P"
  shows "wn_VerifyChain B P certs anchor cap serverName pinnedKey now \<noteq> Inl Oob \<and>
    (wn_VerifyChain B P certs anchor cap serverName pinnedKey now = Inr spki \<longleftrightarrow>
      certs \<noteq> [] \<and> trusted B P now anchor certs \<and> leaf_ok B (hd certs) cap serverName pinnedKey now spki)"
  by (rule conjI [OF VerifyChain_iff(2) [OF assms] VerifyChain_iff(1) [OF assms]])

definition sample_spki :: bytes where
  "sample_spki = octets sample_cert (c_spki sample_parsed) (c_spkiLen sample_parsed)"

text \<open>The sample certificate, pinned as its own anchor, for the host \<open>A.b\<close> in the year 2027.\<close>

lemma toy_rsa_ok: "rsa_ok toy_pk"
  by (simp add: rsa_ok_def toy_pk_def)

lemma sample_accepted:
  "trusted toy_build toy_pk 1800000000 sample_cert [sample_cert]"
  "leaf_ok toy_build sample_cert 1024 (Some [0x41, 0x2E, 0x62]) (Some sample_spki) 1800000000 sample_spki"
proof -
  have t: "wn_X509_TimeValid toy_build sample_cert (Some sample_parsed) 1800000000 = Inr ()"
    by (simp add: wn_X509_TimeValid_def wn_CertTimeEpoch_def time_year_def time_fields_def wn_Dig2_def sample_parsed_def
        rd_byte_def sample_cert_def wn_DaysInMonth_def days_closed month_start_def toy_build_def Let_def)
  show "trusted toy_build toy_pk 1800000000 sample_cert [sample_cert]"
    by (simp add: trusted_Cons has_key_of_def parse_sample)
  have "names_host toy_build sample_cert sample_parsed [0x41, 0x2E, 0x62]"
    by (simp add: names_host_def dns_matches_def lower_map wn_AsciiLower_def sample_parsed_def octets_def slice_def
        sample_cert_def toy_build_def word_le_nat_alt)
  then show "leaf_ok toy_build sample_cert 1024 (Some [0x41, 0x2E, 0x62]) (Some sample_spki) 1800000000 sample_spki"
    unfolding leaf_ok_def
    by (intro exI [of _ sample_parsed] conjI parse_sample)
      (simp_all add: t in_window_def sample_spki_def,
       simp_all add: sample_parsed_def octets_def slice_def sample_cert_def toy_build_def)
qed

theorem verify_chain_exact_witness:
  "wn_VerifyChain toy_build toy_pk [sample_cert] sample_cert 1024 (Some [0x41, 0x2E, 0x62]) (Some sample_spki) 1800000000
   = Inr sample_spki"
  using verify_chain_exact [OF toy_rsa_ok, of toy_build "[sample_cert]" sample_cert 1024 "Some [0x41, 0x2E, 0x62]" "Some sample_spki" 1800000000 sample_spki]
    sample_accepted by simp

text \<open>C35. A name matches a host exactly as RFC 6125 has it: both are equal once the 26 upper case letters of
  ASCII are replaced by the lower case ones, or the name is a whole leftmost wildcard label over a
  suffix and the host is one non-empty label over the same suffix. In particular a wildcard stands for a single label.\<close>

theorem dns_name_match_rfc6125:
  "wn_DnsNameMatch (Some pat) (Some host) =
     (if host \<noteq> [] \<and>
         (lower pat = lower host \<or>
          (\<exists>suffix label host'. pat = 0x2A # 0x2E # suffix \<and> suffix \<noteq> [] \<and> host = label @ 0x2E # host' \<and>
             label \<noteq> [] \<and> 0x2E \<notin> set label \<and> lower suffix = lower host'))
      then Inr () else Inl E_BAD_CERT)"
proof -
  have "wn_DnsNameMatch (Some pat) (Some host) = Inr () \<or> wn_DnsNameMatch (Some pat) (Some host) = Inl E_BAD_CERT"
    by (auto simp: wn_DnsNameMatch_def Let_def guardE_def)
  then show ?thesis using DnsNameMatch_iff [of pat host] unfolding dns_matches_def by auto
qed

text \<open>C12. The server's CertificateVerify is accepted exactly when the provider verifies the signature under
  the leaf's public key over 64 spaces, the context string, a zero octet and the transcript hash,
  with the hash and the curve the scheme names and a scheme that fits the leaf's key type and curve;
  the SubjectPublicKeyInfo it is handed is that of the accepted leaf.\<close>

theorem certificate_verify_exact:
  assumes "wn_X509_Parse B (Some der) = Inr c" "spki = octets der (c_spki c) (c_spkiLen c)"
  shows "wn_CertVerify B P scheme spki th sg \<noteq> Inl Oob \<and>
    (wn_CertVerify B P scheme spki th sg = Inr () \<longleftrightarrow>
      cv_accepts B P scheme (c_keyAlg c) (c_curve c) (octets der (c_pubKey c) (c_pubKeyLen c)) spki
        (replicate 64 0x20 @ cstr ''TLS 1.3, server CertificateVerify'' @ [0] @ th) sg)"
  using CertVerify_iff [OF assms refl, of P scheme th sg] by (simp add: wn_BuildCvTbs_def)

theorem certificate_verify_exact_witness:
  "wn_CertVerify toy_build toy_pk 0x0403 sample_spki [] [4, 9, 0x20, 0x20, 0x20, 0x20] = Inr ()"
proof -
  have "sample_spki = octets sample_cert (c_spki sample_parsed) (c_spkiLen sample_parsed)" by (simp add: sample_spki_def)
  note t = certificate_verify_exact [OF parse_sample this]
  show ?thesis
    unfolding conjunct2 [OF t]
    by (simp add: cv_accepts_def sample_parsed_def octets_def slice_def sample_cert_def toy_pk_def hash_ok_def toy_build_def
        eval_nat_numeral)
qed

end
