(* ===== verification/KexCrypto.thy ===== *)
theory KexCrypto
  imports PkCrypto
begin

section \<open>The provider's key exchange and signing functions (wolfnano_crypto.h)\<close>

text \<open>
  The \<open>wc_*\<close> functions behind the key shares and the server's signature, which extend the
  verifying ones of theory PkCrypto. A key object is \<open>'k\<close>, the state of a \<open>WC_RNG\<close> is
  \<open>'r\<close>; a function that draws random octets returns the new state. A natural number is the
  capacity of an output buffer. Each returns the C status and what it wrote.
\<close>

record ('k, 'r) kx_crypto = "'k pk_crypto" +
  wc_RNG_GenerateBlock :: "'r \<Rightarrow> nat \<Rightarrow> int \<times> bytes \<times> 'r"
  wc_curve25519_init :: "int \<times> 'k"
  wc_curve25519_make_key :: "'r \<Rightarrow> nat \<Rightarrow> 'k \<Rightarrow> int \<times> 'k \<times> 'r"
  wc_curve25519_export_public_ex :: "'k \<Rightarrow> nat \<Rightarrow> int \<times> bytes"
  wc_curve25519_import_public_ex :: "bytes \<Rightarrow> 'k \<Rightarrow> int \<times> 'k"
  wc_curve25519_shared_secret_ex :: "'k \<Rightarrow> 'k \<Rightarrow> nat \<Rightarrow> int \<times> bytes"
  wc_ecc_make_key_ex :: "'r \<Rightarrow> nat \<Rightarrow> 'k \<Rightarrow> ecc_curve \<Rightarrow> int \<times> 'k \<times> 'r"
  wc_ecc_set_rng :: "'k \<Rightarrow> 'r \<Rightarrow> int \<times> 'k"
  wc_ecc_export_x963 :: "'k \<Rightarrow> nat \<Rightarrow> int \<times> bytes"
  wc_ecc_shared_secret :: "'k \<Rightarrow> 'k \<Rightarrow> nat \<Rightarrow> int \<times> bytes"
  wc_MlKemKey_Init :: "int \<times> 'k"
  wc_MlKemKey_MakeKey :: "'k \<Rightarrow> 'r \<Rightarrow> int \<times> 'k \<times> 'r"
  wc_MlKemKey_EncodePublicKey :: "'k \<Rightarrow> nat \<Rightarrow> int \<times> bytes"
  wc_MlKemKey_DecodePublicKey :: "'k \<Rightarrow> bytes \<Rightarrow> int \<times> 'k"
  wc_MlKemKey_Encapsulate :: "'k \<Rightarrow> 'r \<Rightarrow> int \<times> bytes \<times> bytes \<times> 'r"
  wc_MlKemKey_Decapsulate :: "'k \<Rightarrow> bytes \<Rightarrow> int \<times> bytes"
  wc_EccPrivateKeyDecode :: "bytes \<Rightarrow> 'k \<Rightarrow> int \<times> 'k"
  wc_ecc_sign_hash :: "bytes \<Rightarrow> nat \<Rightarrow> 'r \<Rightarrow> 'k \<Rightarrow> int \<times> bytes \<times> 'r"
  wc_Ed25519PrivateKeyDecode :: "bytes \<Rightarrow> 'k \<Rightarrow> int \<times> 'k"
  pubKeySet :: "'k \<Rightarrow> bool"
  wc_ed25519_make_public :: "'k \<Rightarrow> int \<times> bytes"
  wc_ed25519_sign_msg :: "bytes \<Rightarrow> nat \<Rightarrow> 'k \<Rightarrow> int \<times> bytes"
  wc_RsaPrivateKeyDecode :: "bytes \<Rightarrow> 'k \<Rightarrow> int \<times> 'k"
  wc_RsaSetRNG :: "'k \<Rightarrow> 'r \<Rightarrow> int \<times> 'k"
  wc_RsaPSS_Sign :: "bytes \<Rightarrow> nat \<Rightarrow> wc_hash \<Rightarrow> wc_mgf \<Rightarrow> 'k \<Rightarrow> 'r \<Rightarrow> int \<times> bytes \<times> 'r"
  wc_MlDsaKey_PrivateKeyDecode :: "'k \<Rightarrow> bytes \<Rightarrow> int \<times> 'k"
  wc_MlDsaKey_SignCtx :: "'k \<Rightarrow> nat \<Rightarrow> bytes \<Rightarrow> 'r \<Rightarrow> int \<times> bytes \<times> 'r"

subsection \<open>Documented behaviour\<close>

text \<open>
  A Diffie-Hellman group, for random generators in a state \<open>good\<close>: a key pair can be made
  and its public half exported in \<open>n\<close> octets; importing the other side's public half gives both
  sides one secret of \<open>m\<close> octets.
\<close>

definition dh_ok ::
  "('r \<Rightarrow> bool) \<Rightarrow> ('r \<Rightarrow> 'k \<Rightarrow> int \<times> 'k \<times> 'r) \<Rightarrow> ('k \<Rightarrow> int \<times> bytes) \<Rightarrow> (bytes \<Rightarrow> 'k \<Rightarrow> int \<times> 'k) \<Rightarrow>
   ('k \<Rightarrow> 'k \<Rightarrow> int \<times> bytes) \<Rightarrow> nat \<Rightarrow> nat \<Rightarrow> bool" where
  "dh_ok good mk ex im sh n m \<longleftrightarrow>
     (\<forall>r k. good r \<longrightarrow> (case mk r k of (rc, a, r') \<Rightarrow> rc = 0 \<and> good r' \<and> fst (ex a) = 0 \<and> length (snd (ex a)) = n)) \<and>
     (\<forall>r1 k1 r2 k2 j1 j2. good r1 \<longrightarrow> good r2 \<longrightarrow>
        (let a = fst (snd (mk r1 k1)); b = fst (snd (mk r2 k2));
             ia = im (snd (ex a)) j1; ib = im (snd (ex b)) j2; s = sh a (snd ib)
         in fst ia = 0 \<and> fst ib = 0 \<and> fst s = 0 \<and> length (snd s) = m \<and> sh b (snd ia) = s))"

text \<open>\<open>wc_ecc_make_key_ex\<close> followed by \<open>wc_ecc_set_rng\<close>, as the code calls them.\<close>

definition ecc_make :: "('k, 'r) kx_crypto \<Rightarrow> 'r \<Rightarrow> 'k \<Rightarrow> int \<times> 'k \<times> 'r" where
  "ecc_make X r k =
     (case wc_ecc_make_key_ex X r 32 k ECC_SECP256R1 of (rc, a, r1) \<Rightarrow>
        if rc \<noteq> 0 then (rc, a, r1) else case wc_ecc_set_rng X a r1 of (rc', a') \<Rightarrow> (rc', a', r1))"

text \<open>ML-KEM-768: decapsulating what was encapsulated under the encoded public key gives its secret.\<close>

definition kem_ok :: "('k, 'r) kx_crypto \<Rightarrow> ('r \<Rightarrow> bool) \<Rightarrow> bool" where
  "kem_ok X good \<longleftrightarrow> fst (wc_MlKemKey_Init X) = 0 \<and>
     (\<forall>k r. good r \<longrightarrow> (case wc_MlKemKey_MakeKey X k r of (rc, a, r') \<Rightarrow> rc = 0 \<and> good r' \<and>
        fst (wc_MlKemKey_EncodePublicKey X a 1184) = 0 \<and> length (snd (wc_MlKemKey_EncodePublicKey X a 1184)) = 1184)) \<and>
     (\<forall>k r j r'. good r \<longrightarrow> good r' \<longrightarrow>
        (let a = fst (snd (wc_MlKemKey_MakeKey X k r));
             b = wc_MlKemKey_DecodePublicKey X j (snd (wc_MlKemKey_EncodePublicKey X a 1184))
         in fst b = 0 \<and> (case wc_MlKemKey_Encapsulate X (snd b) r' of (rc, ct, ss, r'') \<Rightarrow>
              rc = 0 \<and> good r'' \<and> length ct = 1088 \<and> length ss = 32 \<and> wc_MlKemKey_Decapsulate X a ct = (0, ss))))"

definition kex_ok :: "('k, 'r) kx_crypto \<Rightarrow> ('r \<Rightarrow> bool) \<Rightarrow> bool" where
  "kex_ok X good \<longleftrightarrow> kem_ok X good \<and> fst (wc_curve25519_init X) = 0 \<and> fst (wc_ecc_init X) = 0 \<and>
     dh_ok good (\<lambda>r k. wc_curve25519_make_key X r 32 k) (\<lambda>k. wc_curve25519_export_public_ex X k 32)
       (wc_curve25519_import_public_ex X) (\<lambda>a b. wc_curve25519_shared_secret_ex X a b 32) 32 32 \<and>
     dh_ok good (ecc_make X) (\<lambda>k. wc_ecc_export_x963 X k 65)
       (\<lambda>p k. wc_ecc_import_x963_ex X p k ECC_SECP256R1) (\<lambda>a b. wc_ecc_shared_secret X a b 32) 65 32"

subsection \<open>A concrete provider\<close>

text \<open>
  For the witnesses: the generator counts, a key object is its octets and its own public half, a
  shared secret is the sum of the two, and a signature is the key followed by what was signed.
\<close>

definition fit_to :: "nat \<Rightarrow> bytes \<Rightarrow> bytes" where
  "fit_to n bs = take n (bs @ replicate n 0)"

definition xor_bytes :: "bytes \<Rightarrow> bytes \<Rightarrow> bytes" where
  "xor_bytes a b = map2 (XOR) (fit_to 32 a) (fit_to 32 b)"

definition toy_kx :: "(bytes, nat) kx_crypto" where
  "toy_kx = pk_crypto.extend toy_pk (kx_crypto.fields
     (\<lambda>r n. (0, replicate n (of_nat r), Suc r))
     (0, []) (\<lambda>r n k. (0, fit_to 32 [of_nat r], Suc r)) (\<lambda>k n. (0, fit_to 32 k)) (\<lambda>p k. (0, p)) (\<lambda>a b n. (0, xor_bytes a b))
     (\<lambda>r n k c. (0, fit_to 65 [4, of_nat r], Suc r)) (\<lambda>k r. (0, k)) (\<lambda>k n. (0, fit_to 65 k)) (\<lambda>a b n. (0, xor_bytes a b))
     (0, []) (\<lambda>k r. (0, fit_to 1184 [of_nat r], Suc r)) (\<lambda>k n. (0, fit_to 1184 k)) (\<lambda>k p. (0, p))
     (\<lambda>k r. (0, fit_to 1088 [of_nat r], xor_bytes k [of_nat r], Suc r)) (\<lambda>k ct. (0, xor_bytes k (take 1 ct)))
     (\<lambda>d k. (0, d)) (\<lambda>h n r k. (0, k @ h, Suc r))
     (\<lambda>d k. (0, d)) (\<lambda>k. False) (\<lambda>k. (0, k)) (\<lambda>m n k. (0, k @ m))
     (\<lambda>d k. (0, d)) (\<lambda>k r. (0, k)) (\<lambda>h n t g k r. (int (length (k @ h)), k @ h, Suc r))
     (\<lambda>k d. (0, d)) (\<lambda>k n m r. (0, k @ m, Suc r)))"

lemmas toy_kx_simps = toy_kx_def pk_crypto.defs kx_crypto.defs toy_pk_def

lemma length_fit_to [simp]: "length (fit_to n bs) = n"
  by (simp add: fit_to_def)

lemma fit_to_same [simp]: "length bs = n \<Longrightarrow> fit_to n bs = bs"
  by (simp add: fit_to_def)

lemma fit_to_fit: "n \<le> m \<Longrightarrow> fit_to n (fit_to m bs) = fit_to n bs"
  by (rule nth_equalityI) (auto simp: fit_to_def nth_append)

lemma length_xor_bytes [simp]: "length (xor_bytes a b) = 32"
  by (simp add: xor_bytes_def)

lemma xor_bytes_sym: "xor_bytes a b = xor_bytes b a"
  by (rule nth_equalityI) (simp_all add: xor_bytes_def xor.commute)

lemma take_fit_to: "take (Suc 0) (fit_to 1088 [x]) = [x]"
  by (simp add: fit_to_def)

lemma toy_kex_ok: "kex_ok toy_kx (\<lambda>r. True)"
  by (simp add: kex_ok_def kem_ok_def dh_ok_def ecc_make_def toy_kx_simps Let_def take_fit_to xor_bytes_sym fit_to_fit)

end
