(* ===== verification/ServerCert.thy ===== *)
theory ServerCert
  imports CertPath KexCrypto ServerHello
begin

section \<open>The server's certificate messages (wn_servercert.c)\<close>

text \<open>
  The Certificate message with one certificate, and the CertificateVerify, which signs the
  transcript hash with the private key in the scheme chosen for the client. A signing function
  returns its status with the signature's length, the octets it wrote and the new state of
  the random generator; it writes straight into the message buffer.
\<close>

definition wn_ServerCert_Build :: "bytes \<Rightarrow> bytes option \<Rightarrow> (wn_err + nat) \<times> bytes" where
  "wn_ServerCert_Build out certDer =
     (if certDer = None then (Inl E_INVALID_ARG, out)
      else finish_w E_CRYPTO
        (run_w
          [wn_Write_U8 11,
           wn_vec 3 (run_w
             [wn_Write_U8 0,
              wn_vec 3 (run_w [wn_vec 3 (wn_Write_Bytes certDer (length (the certDer))), wn_Write_U16 0])])]
          (wn_Writer_Init out (length out))))"

definition wn_ServerCert_BuildCvTbs :: "bytes \<Rightarrow> bytes" where
  "wn_ServerCert_BuildCvTbs th = replicate 64 0x20 @ cstr ''TLS 1.3, server CertificateVerify'' @ [0x00] @ th"

subsection \<open>Signing\<close>

definition wn_SignEcdsa ::
  "('k, 'r) kx_crypto \<Rightarrow> wc_hash \<Rightarrow> bytes \<Rightarrow> bytes \<Rightarrow> nat \<Rightarrow> 'r \<Rightarrow> (wn_err + nat) \<times> bytes \<times> 'r" where
  "wn_SignEcdsa X hashType keyDer tbs cap rng =
     (if \<not> key_alloc X \<or> wc_HashGetDigestSize X hashType \<le> 0 then (Inl E_CRYPTO, [], rng)
      else case wc_Hash X hashType tbs of (r1, hash) \<Rightarrow>
      if r1 \<noteq> 0 then (Inl E_CRYPTO, [], rng)
      else case wc_ecc_init X of (r2, k0) \<Rightarrow>
      if r2 \<noteq> 0 then (Inl E_CRYPTO, [], rng)
      else case wc_EccPrivateKeyDecode X keyDer k0 of (r3, k) \<Rightarrow>
      if r3 \<noteq> 0 then (Inl E_CRYPTO, [], rng)
      else case wc_ecc_sign_hash X hash cap rng k of (r4, sg, rng1) \<Rightarrow>
        (if r4 \<noteq> 0 then Inl E_CRYPTO else Inr (length sg), sg, rng1))"

text \<open>A key without its public half gets it made and imported first.\<close>

definition wn_SignEd25519 ::
  "('k, 'r) kx_crypto \<Rightarrow> bytes \<Rightarrow> bytes \<Rightarrow> nat \<Rightarrow> (wn_err + nat) \<times> bytes" where
  "wn_SignEd25519 X keyDer tbs cap =
     (if \<not> key_alloc X then (Inl E_CRYPTO, [])
      else case wc_ed25519_init X of (r1, k0) \<Rightarrow>
      if r1 \<noteq> 0 then (Inl E_CRYPTO, [])
      else case wc_Ed25519PrivateKeyDecode X keyDer k0 of (r2, k) \<Rightarrow>
      if r2 \<noteq> 0 then (Inl E_CRYPTO, [])
      else case (if pubKeySet X k then (0, k)
                 else case wc_ed25519_make_public X k of (r3, pub) \<Rightarrow>
                   if r3 \<noteq> 0 then (r3, k) else wc_ed25519_import_public X pub k) of (r4, k1) \<Rightarrow>
      if r4 \<noteq> 0 then (Inl E_CRYPTO, [])
      else case wc_ed25519_sign_msg X tbs cap k1 of (r5, sg) \<Rightarrow>
        (if r5 \<noteq> 0 then Inl E_CRYPTO else Inr (length sg), sg))"

definition wn_SignRsaPss ::
  "('k, 'r) kx_crypto \<Rightarrow> wc_hash \<Rightarrow> wc_mgf \<Rightarrow> bytes \<Rightarrow> bytes \<Rightarrow> nat \<Rightarrow> 'r \<Rightarrow> (wn_err + nat) \<times> bytes \<times> 'r" where
  "wn_SignRsaPss X hashType mgf keyDer tbs cap rng =
     (if \<not> key_alloc X \<or> wc_HashGetDigestSize X hashType \<le> 0 then (Inl E_CRYPTO, [], rng)
      else case wc_Hash X hashType tbs of (r1, hash) \<Rightarrow>
      if r1 \<noteq> 0 then (Inl E_CRYPTO, [], rng)
      else case wc_InitRsaKey X of (r2, k0) \<Rightarrow>
      if r2 \<noteq> 0 then (Inl E_CRYPTO, [], rng)
      else case wc_RsaPrivateKeyDecode X keyDer k0 of (r3, k) \<Rightarrow>
      if r3 \<noteq> 0 then (Inl E_CRYPTO, [], rng)
      else case wc_RsaSetRNG X k rng of (r4, k1) \<Rightarrow>
      if r4 \<noteq> 0 then (Inl E_CRYPTO, [], rng)
      else case wc_RsaPSS_Sign X hash cap hashType mgf k1 rng of (sz, sg, rng1) \<Rightarrow>
        (if sz < 0 then Inl E_CRYPTO else Inr (nat sz), sg, rng1))"

definition wn_SignMlDsa ::
  "('k, 'r) kx_crypto \<Rightarrow> nat \<Rightarrow> bytes \<Rightarrow> bytes \<Rightarrow> nat \<Rightarrow> 'r \<Rightarrow> (wn_err + nat) \<times> bytes \<times> 'r" where
  "wn_SignMlDsa X level keyDer tbs cap rng =
     (if \<not> key_alloc X then (Inl E_CRYPTO, [], rng)
      else case wc_MlDsaKey_Init X of (r1, k0) \<Rightarrow>
      if r1 \<noteq> 0 then (Inl E_CRYPTO, [], rng)
      else case wc_MlDsaKey_SetParams X k0 level of (r2, k1) \<Rightarrow>
      if r2 \<noteq> 0 then (Inl E_CRYPTO, [], rng)
      else case wc_MlDsaKey_PrivateKeyDecode X k1 keyDer of (r3, k) \<Rightarrow>
      if r3 \<noteq> 0 then (Inl E_CRYPTO, [], rng)
      else case wc_MlDsaKey_SignCtx X k cap tbs rng of (r4, sg, rng1) \<Rightarrow>
        (if r4 \<noteq> 0 then Inl E_CRYPTO else Inr (length sg), sg, rng1))"

definition wn_SignCv ::
  "build \<Rightarrow> ('k, 'r) kx_crypto \<Rightarrow> word16 \<Rightarrow> bytes \<Rightarrow> bytes \<Rightarrow> nat \<Rightarrow> 'r \<Rightarrow> (wn_err + nat) \<times> bytes \<times> 'r" where
  "wn_SignCv B X scheme keyDer tbs cap rng =
     (if have_ecc B \<and> scheme = 0x0403 then wn_SignEcdsa X WC_HASH_TYPE_SHA256 keyDer tbs cap rng
      else if have_ecc B \<and> have_ecc384 B \<and> have_sha384_sig B \<and> scheme = 0x0503 then
        wn_SignEcdsa X WC_HASH_TYPE_SHA384 keyDer tbs cap rng
      else if have_ed25519 B \<and> scheme = 0x0807 then
        (case wn_SignEd25519 X keyDer tbs cap of (res, sg) \<Rightarrow> (res, sg, rng))
      else if have_rsa B \<and> rsa_full B \<and> scheme = 0x0804 then
        wn_SignRsaPss X WC_HASH_TYPE_SHA256 WC_MGF1SHA256 keyDer tbs cap rng
      else if have_rsa B \<and> rsa_full B \<and> have_sha384_sig B \<and> scheme = 0x0805 then
        wn_SignRsaPss X WC_HASH_TYPE_SHA384 WC_MGF1SHA384 keyDer tbs cap rng
      else if have_rsa B \<and> rsa_full B \<and> have_sha512_sig B \<and> scheme = 0x0806 then
        wn_SignRsaPss X WC_HASH_TYPE_SHA512 WC_MGF1SHA512 keyDer tbs cap rng
      else (case have_mldsa B of
              Some level \<Rightarrow>
                if mldsa_sign B \<and> scheme = mldsa_scheme level then wn_SignMlDsa X level keyDer tbs cap rng
                else (Inl E_UNSUPPORTED, [], rng)
            | None \<Rightarrow> (Inl E_UNSUPPORTED, [], rng)))"

text \<open>The header is checked before signing; the two lengths are filled in afterwards.\<close>

definition wn_ServerCertVerify_Sign ::
  "build \<Rightarrow> ('k, 'r) kx_crypto \<Rightarrow> bytes \<Rightarrow> word16 \<Rightarrow> bytes option \<Rightarrow> bytes option \<Rightarrow> 'r \<Rightarrow> (wn_err + nat) \<times> bytes \<times> 'r" where
  "wn_ServerCertVerify_Sign B X out scheme keyDer th rng =
     (if keyDer = None \<or> th = None \<or> length (the th) > 64 then (Inl E_INVALID_ARG, out, rng)
      else
        let tbs = wn_ServerCert_BuildCvTbs (the th);
            (body, w1) = wn_Write_LenStart 3 (wn_Write_U8 15 (wn_Writer_Init out (length out)));
            (lenOff, w2) = wn_Write_LenStart 2 (wn_Write_U16 scheme w1)
        in if woob w2 then (Inl Oob, wbuf w2, rng)
           else if werr w2 then (Inl E_CRYPTO, wbuf w2, rng)
           else case wn_SignCv B X scheme (the keyDer) tbs (u32_sub (length out) (wlen w2)) rng of
               (Inl e, sg, rng1) \<Rightarrow> (Inl e, wbuf (put_bytes (wlen w2) sg (length sg) w2), rng1)
             | (Inr sigLen, sg, rng1) \<Rightarrow>
                 let w3 = put_bytes (wlen w2) sg (length sg) w2;
                     w4 = w3\<lparr>wlen := u32 (wlen w3 + sigLen)\<rparr>;
                     (res, buf) = finish_w E_CRYPTO (wn_Write_LenEnd body 3 (wn_Write_LenEnd lenOff 2 w4))
                 in (res, buf, rng1))"

subsection \<open>The messages\<close>

definition certificate_msg :: "bytes \<Rightarrow> bytes" where
  "certificate_msg der =
     (let entry = be24 (length der) @ der @ be16 0; body = [0] @ be24 (length entry) @ entry
      in [11] @ be24 (length body) @ body)"

definition cv_msg :: "word16 \<Rightarrow> bytes \<Rightarrow> bytes" where
  "cv_msg scheme sg = [15] @ be24 (4 + length sg) @ be16 scheme @ be16 (of_nat (length sg)) @ sg"

lemma emits_certificate:
  assumes "length der < 2147483648"
  shows "emits (run_w [wn_Write_U8 11, wn_vec 3 (run_w [wn_Write_U8 0,
              wn_vec 3 (run_w [wn_vec 3 (wn_Write_Bytes (Some der) (length der)), wn_Write_U16 0])])])
     (certificate_msg der)"
proof -
  have b: "emits (wn_Write_Bytes (Some der) (length der)) der"
    using assms by (intro emits_Bytes_all) simp_all
  show ?thesis
    by (rule emits_eq, (rule emits_run_Cons emits_run_Nil emits_vec emits_U8 emits_U16 b)+)
      (simp add: certificate_msg_def be_len_3)
qed

text \<open>The header the signature goes behind, and the whole message around the signature.\<close>

definition cv_head :: "word16 \<Rightarrow> bytes \<Rightarrow> writer" where
  "cv_head scheme out =
     snd (wn_Write_LenStart 2 (wn_Write_U16 scheme
       (snd (wn_Write_LenStart 3 (wn_Write_U8 15 (wn_Writer_Init out (length out)))))))"

lemma cv_head_ok:
  assumes "8 \<le> length out" "length out < 2147483648"
  shows "wok (cv_head scheme out)" "wlen (cv_head scheme out) = 8" "\<not> werr (cv_head scheme out)"
    "wcap (cv_head scheme out) = length out"
proof -
  have "emits (\<lambda>w. (wn_Write_U8 0 ^^ 2) (wn_Write_U16 scheme ((wn_Write_U8 0 ^^ 3) (wn_Write_U8 15 w))))
      ((([15] @ replicate 3 0) @ be16 scheme) @ replicate 2 0)"
    by (rule emits_comp [OF emits_comp [OF emits_comp [OF emits_U8 emits_zeros] emits_U16] emits_zeros])
  note E = emitsD [OF this wok_Init [OF order_refl assms(2)]]
  have c: "cv_head scheme out = (wn_Write_U8 0 ^^ 2) (wn_Write_U16 scheme ((wn_Write_U8 0 ^^ 3)
      (wn_Write_U8 15 (wn_Writer_Init out (length out)))))"
    by (simp add: cv_head_def wn_Write_LenStart_def Let_def)
  show "wok (cv_head scheme out)" using E(1) by (simp only: c)
  have "wcap (wn_Writer_Init out (length out)) = length out" by (simp add: wn_Writer_Init_def)
  then show cap: "wcap (cv_head scheme out) = length out" using E(2) by (simp only: c)
  have "wabs (cv_head scheme out) = Some ((([15] @ replicate 3 0) @ be16 scheme) @ replicate 2 0)"
    using E(3) assms(1) by (simp only: c wabs_Init) (simp add: wn_Writer_Init_def)
  from wabs_SomeD [OF _ this] E(1)
  show "wlen (cv_head scheme out) = 8" "\<not> werr (cv_head scheme out)" by (simp_all add: c)
qed

lemma cv_sign_written:
  assumes "8 + length sg \<le> length out" "length out < 2147483648"
    "wn_SignCv B X scheme keyDer (wn_ServerCert_BuildCvTbs th) (length out - 8) rng = (Inr (length sg), sg, rng1)"
    "length th \<le> 64"
  shows "\<exists>buf. wn_ServerCertVerify_Sign B X out scheme (Some keyDer) (Some th) rng = (Inr (8 + length sg), buf, rng1) \<and>
    take (8 + length sg) buf = cv_msg scheme sg"
proof -
  let ?F = "run_w [wn_Write_U8 15, wn_vec 3 (run_w [wn_Write_U16 scheme, wn_vec 2 (wwrite sg)])]"
  have l: "8 \<le> length out" using assms(1) by simp
  note h = cv_head_ok [OF l assms(2), of scheme]
  have b: "emits (wwrite sg) sg" by (rule emits_wwrite) simp
  have four: "Suc (Suc (Suc (Suc n))) = 4 + n" for n by simp
  have E: "emits ?F (cv_msg scheme sg)"
    by (rule emits_eq, (rule emits_run_Cons emits_run_Nil emits_vec emits_U8 emits_U16 b)+)
      (simp add: cv_msg_def be_len_3 be_len_2 four)
  have put: "(put_bytes 8 sg (length sg) (cv_head scheme out))\<lparr>wlen := u32 (8 + length sg)\<rparr> = wwrite sg (cv_head scheme out)"
    using h assms(1,2) by (simp add: put_bytes_def wwrite_def wok_def u32_small)
  have len: "length (cv_msg scheme sg) = 8 + length sg" by (simp add: cv_msg_def)
  obtain buf where F: "finish_w E_CRYPTO (?F (wn_Writer_Init out (length out))) = (Inr (8 + length sg), buf)"
      "take (8 + length sg) buf = cv_msg scheme sg"
    using finish_emits(1) [OF E order_refl assms(2), of E_CRYPTO] assms(1) by (auto simp: len)
  have "wn_ServerCertVerify_Sign B X out scheme (Some keyDer) (Some th) rng = (Inr (8 + length sg), buf, rng1)"
  proof -
    obtain body w1 where w1: "wn_Write_LenStart 3 (wn_Write_U8 15 (wn_Writer_Init out (length out))) = (body, w1)" by fastforce
    obtain lenOff w2 where w2: "wn_Write_LenStart 2 (wn_Write_U16 scheme w1) = (lenOff, w2)" by fastforce
    have head: "cv_head scheme out = w2" by (simp add: cv_head_def w1 w2)
    have F': "finish_w E_CRYPTO (wn_Write_LenEnd body 3 (wn_Write_LenEnd lenOff 2 (wwrite sg w2))) = (Inr (8 + length sg), buf)"
      using F(1) by (simp add: run_w_def wn_vec_def w1 w2)
    have "wlen (put_bytes 8 sg (length sg) w2) = 8" using h(2) by (simp add: head put_bytes_def)
    then show ?thesis
      using h put assms(3,4) l assms(2) F'
      by (simp add: wn_ServerCertVerify_Sign_def w1 w2 head wok_safe u32_sub_ge Let_def del: u32_small)
  qed
  with F(2) show ?thesis by blast
qed

subsection \<open>Key pairs\<close>

text \<open>
  A private key (its DER) and the public key a certificate carries belong together when what the
  server's provider signs with one, the client's provider verifies with the other, in at most
  \<open>lim\<close> octets.
\<close>

definition ecdsa_pair ::
  "('k, 'r) kx_crypto \<Rightarrow> 'p pk_crypto \<Rightarrow> wc_hash \<Rightarrow> ecc_curve \<Rightarrow> bytes \<Rightarrow> bytes \<Rightarrow> nat \<Rightarrow> bool" where
  "ecdsa_pair X P h c keyDer pub lim \<longleftrightarrow>
     (\<exists>k0 k p0 p. wc_ecc_init X = (0, k0) \<and> wc_EccPrivateKeyDecode X keyDer k0 = (0, k) \<and>
        wc_ecc_init P = (0, p0) \<and> wc_ecc_import_x963_ex P pub p0 c = (0, p) \<and>
        0 < wc_HashGetDigestSize X h \<and> 0 < wc_HashGetDigestSize P h \<and>
        (\<forall>m. \<exists>d. wc_Hash X h m = (0, d) \<and> wc_Hash P h m = (0, d) \<and>
           (\<forall>r cap. lim \<le> cap \<longrightarrow> (\<exists>s r'. wc_ecc_sign_hash X d cap r k = (0, s, r') \<and> length s \<le> lim \<and>
              wc_ecc_verify_hash P s d p = (0, 1)))))"

definition ed25519_pair :: "('k, 'r) kx_crypto \<Rightarrow> 'p pk_crypto \<Rightarrow> bytes \<Rightarrow> bytes \<Rightarrow> nat \<Rightarrow> bool" where
  "ed25519_pair X P keyDer pub lim \<longleftrightarrow>
     (\<exists>k0 k k1 p0 p. wc_ed25519_init X = (0, k0) \<and> wc_Ed25519PrivateKeyDecode X keyDer k0 = (0, k) \<and>
        (if pubKeySet X k then k1 = k
         else \<exists>q. wc_ed25519_make_public X k = (0, q) \<and> wc_ed25519_import_public X q k = (0, k1)) \<and>
        wc_ed25519_init P = (0, p0) \<and> wc_ed25519_import_public P pub p0 = (0, p) \<and>
        (\<forall>m cap. lim \<le> cap \<longrightarrow> (\<exists>s. wc_ed25519_sign_msg X m cap k1 = (0, s) \<and> length s \<le> lim \<and>
           wc_ed25519_verify_msg P s m p = (0, 1))))"

definition rsa_pair ::
  "('k, 'r) kx_crypto \<Rightarrow> 'p pk_crypto \<Rightarrow> wc_hash \<Rightarrow> wc_mgf \<Rightarrow> bytes \<Rightarrow> bytes \<Rightarrow> nat \<Rightarrow> bool" where
  "rsa_pair X P h g keyDer pub lim \<longleftrightarrow>
     (\<exists>k0 k N E p0 p. wc_InitRsaKey X = (0, k0) \<and> wc_RsaPrivateKeyDecode X keyDer k0 = (0, k) \<and>
        pub = tlv 0x30 (tlv 0x02 N @ tlv 0x02 E) \<and> unsigned_octets N \<and> unsigned_octets E \<and>
        wc_InitRsaKey P = (0, p0) \<and> wc_RsaPublicKeyDecodeRaw P N E p0 = (0, p) \<and>
        0 < wc_HashGetDigestSize X h \<and> 0 < wc_HashGetDigestSize P h \<and>
        (\<forall>r. \<exists>k1. wc_RsaSetRNG X k r = (0, k1) \<and>
           (\<forall>m. \<exists>d. wc_Hash X h m = (0, d) \<and> wc_Hash P h m = (0, d) \<and>
              (\<forall>cap. lim \<le> cap \<longrightarrow> (\<exists>s r'. wc_RsaPSS_Sign X d cap h g k1 r = (int (length s), s, r') \<and> length s \<le> lim \<and>
                 0 \<le> wc_RsaPSS_VerifyCheck P s d h g p)))))"

definition mldsa_pair :: "('k, 'r) kx_crypto \<Rightarrow> 'p pk_crypto \<Rightarrow> nat \<Rightarrow> bytes \<Rightarrow> bytes \<Rightarrow> nat \<Rightarrow> bool" where
  "mldsa_pair X P level keyDer spki lim \<longleftrightarrow>
     (\<exists>k0 k1 k p0 p1 p. wc_MlDsaKey_Init X = (0, k0) \<and> wc_MlDsaKey_SetParams X k0 level = (0, k1) \<and>
        wc_MlDsaKey_PrivateKeyDecode X k1 keyDer = (0, k) \<and>
        wc_MlDsaKey_Init P = (0, p0) \<and> wc_MlDsaKey_SetParams P p0 level = (0, p1) \<and>
        wc_MlDsaKey_PublicKeyDecode P p1 spki = (0, p) \<and>
        (\<forall>m r cap. lim \<le> cap \<longrightarrow> (\<exists>s r'. wc_MlDsaKey_SignCtx X k cap m r = (0, s, r') \<and> length s \<le> lim \<and>
           wc_MlDsaKey_VerifyCtx P p s m = (0, 1))))"

text \<open>The pair a scheme needs, among the schemes of the build.\<close>

definition signing_pair ::
  "build \<Rightarrow> ('k, 'r) kx_crypto \<Rightarrow> 'p pk_crypto \<Rightarrow> word16 \<Rightarrow> bytes \<Rightarrow> bytes \<Rightarrow> bytes \<Rightarrow> nat \<Rightarrow> bool" where
  "signing_pair B X P scheme keyDer pub spki lim \<longleftrightarrow> key_alloc X \<and> key_alloc P \<and>
     (scheme = 0x0403 \<and> have_ecc B \<and> ecdsa_pair X P WC_HASH_TYPE_SHA256 ECC_SECP256R1 keyDer pub lim \<or>
      scheme = 0x0503 \<and> have_ecc B \<and> have_ecc384 B \<and> have_sha384_sig B \<and>
        ecdsa_pair X P WC_HASH_TYPE_SHA384 ECC_SECP384R1 keyDer pub lim \<or>
      scheme = 0x0807 \<and> have_ed25519 B \<and> ed25519_pair X P keyDer pub lim \<or>
      scheme = 0x0804 \<and> have_rsa B \<and> rsa_full B \<and> rsa_pair X P WC_HASH_TYPE_SHA256 WC_MGF1SHA256 keyDer pub lim \<or>
      scheme = 0x0805 \<and> have_rsa B \<and> rsa_full B \<and> have_sha384_sig B \<and>
        rsa_pair X P WC_HASH_TYPE_SHA384 WC_MGF1SHA384 keyDer pub lim \<or>
      scheme = 0x0806 \<and> have_rsa B \<and> rsa_full B \<and> have_sha512_sig B \<and>
        rsa_pair X P WC_HASH_TYPE_SHA512 WC_MGF1SHA512 keyDer pub lim \<or>
      (\<exists>level. have_mldsa B = Some level \<and> mldsa_sign B \<and> scheme = mldsa_scheme level \<and> mldsa_pair X P level keyDer spki lim))"

lemma SignEcdsa_pair:
  assumes "ecdsa_pair X P h c keyDer pub lim" "key_alloc X" "lim \<le> cap"
  shows "\<exists>s r' d k0 k. wn_SignEcdsa X h keyDer m cap r = (Inr (length s), s, r') \<and> length s \<le> lim \<and>
     hash_ok P h m d \<and> wc_ecc_init P = (0, k0) \<and> wc_ecc_import_x963_ex P pub k0 c = (0, k) \<and> wc_ecc_verify_hash P s d k = (0, 1)"
proof -
  obtain k0 k p0 p where K: "wc_ecc_init X = (0, k0)" "wc_EccPrivateKeyDecode X keyDer k0 = (0, k)"
      "wc_ecc_init P = (0, p0)" "wc_ecc_import_x963_ex P pub p0 c = (0, p)"
      "0 < wc_HashGetDigestSize X h" "0 < wc_HashGetDigestSize P h"
    and S: "\<forall>m. \<exists>d. wc_Hash X h m = (0, d) \<and> wc_Hash P h m = (0, d) \<and>
           (\<forall>r cap. lim \<le> cap \<longrightarrow> (\<exists>s r'. wc_ecc_sign_hash X d cap r k = (0, s, r') \<and> length s \<le> lim \<and>
              wc_ecc_verify_hash P s d p = (0, 1)))"
    using assms(1) unfolding ecdsa_pair_def by blast
  obtain d s r' where D: "wc_Hash X h m = (0, d)" "wc_Hash P h m = (0, d)" "wc_ecc_sign_hash X d cap r k = (0, s, r')"
      "length s \<le> lim" "wc_ecc_verify_hash P s d p = (0, 1)"
    using S assms(3) by metis
  have "wn_SignEcdsa X h keyDer m cap r = (Inr (length s), s, r')"
    using assms(2) K D by (simp add: wn_SignEcdsa_def)
  then show ?thesis using K D by (auto simp: hash_ok_def)
qed

lemma SignEd25519_pair:
  assumes "ed25519_pair X P keyDer pub lim" "key_alloc X" "lim \<le> cap"
  shows "\<exists>s. wn_SignEd25519 X keyDer m cap = (Inr (length s), s) \<and> length s \<le> lim \<and> ed25519_accepts P pub m s"
proof -
  obtain k0 k k1 p0 p where K: "wc_ed25519_init X = (0, k0)" "wc_Ed25519PrivateKeyDecode X keyDer k0 = (0, k)"
      "wc_ed25519_init P = (0, p0)" "wc_ed25519_import_public P pub p0 = (0, p)"
    and Q: "if pubKeySet X k then k1 = k
         else \<exists>q. wc_ed25519_make_public X k = (0, q) \<and> wc_ed25519_import_public X q k = (0, k1)"
    and S: "\<forall>m cap. lim \<le> cap \<longrightarrow> (\<exists>s. wc_ed25519_sign_msg X m cap k1 = (0, s) \<and> length s \<le> lim \<and>
           wc_ed25519_verify_msg P s m p = (0, 1))"
    using assms(1) unfolding ed25519_pair_def by blast
  obtain s where D: "wc_ed25519_sign_msg X m cap k1 = (0, s)" "length s \<le> lim" "wc_ed25519_verify_msg P s m p = (0, 1)"
    using S assms(3) by metis
  have "wn_SignEd25519 X keyDer m cap = (Inr (length s), s)"
    using assms(2) K(1,2) Q D(1) by (auto simp: wn_SignEd25519_def split: if_splits)
  then show ?thesis using K D by (auto simp: ed25519_accepts_def)
qed

lemma SignRsaPss_pair:
  assumes "rsa_pair X P h g keyDer pub lim" "key_alloc X" "lim \<le> cap"
  shows "\<exists>s r' N E d k0 k. wn_SignRsaPss X h g keyDer m cap r = (Inr (length s), s, r') \<and> length s \<le> lim \<and>
     pub = tlv 0x30 (tlv 0x02 N @ tlv 0x02 E) \<and> unsigned_octets N \<and> unsigned_octets E \<and> hash_ok P h m d \<and>
     wc_InitRsaKey P = (0, k0) \<and> wc_RsaPublicKeyDecodeRaw P N E k0 = (0, k) \<and> 0 \<le> wc_RsaPSS_VerifyCheck P s d h g k"
proof -
  obtain k0 k N E p0 p where K: "wc_InitRsaKey X = (0, k0)" "wc_RsaPrivateKeyDecode X keyDer k0 = (0, k)"
      "pub = tlv 0x30 (tlv 0x02 N @ tlv 0x02 E)" "unsigned_octets N" "unsigned_octets E"
      "wc_InitRsaKey P = (0, p0)" "wc_RsaPublicKeyDecodeRaw P N E p0 = (0, p)"
      "0 < wc_HashGetDigestSize X h" "0 < wc_HashGetDigestSize P h"
    and S: "\<forall>r. \<exists>k1. wc_RsaSetRNG X k r = (0, k1) \<and>
           (\<forall>m. \<exists>d. wc_Hash X h m = (0, d) \<and> wc_Hash P h m = (0, d) \<and>
              (\<forall>cap. lim \<le> cap \<longrightarrow> (\<exists>s r'. wc_RsaPSS_Sign X d cap h g k1 r = (int (length s), s, r') \<and> length s \<le> lim \<and>
                 0 \<le> wc_RsaPSS_VerifyCheck P s d h g p)))"
    using assms(1) unfolding rsa_pair_def by blast
  obtain k1 d s r' where D: "wc_RsaSetRNG X k r = (0, k1)" "wc_Hash X h m = (0, d)" "wc_Hash P h m = (0, d)"
      "wc_RsaPSS_Sign X d cap h g k1 r = (int (length s), s, r')" "length s \<le> lim" "0 \<le> wc_RsaPSS_VerifyCheck P s d h g p"
    using S assms(3) by metis
  have "wn_SignRsaPss X h g keyDer m cap r = (Inr (length s), s, r')"
    using assms(2) K D by (simp add: wn_SignRsaPss_def)
  then show ?thesis using K D by (auto simp: hash_ok_def)
qed

lemma SignMlDsa_pair:
  assumes "mldsa_pair X P level keyDer spki lim" "key_alloc X" "lim \<le> cap"
  shows "\<exists>s r' k0 k1 k. wn_SignMlDsa X level keyDer m cap r = (Inr (length s), s, r') \<and> length s \<le> lim \<and>
     wc_MlDsaKey_Init P = (0, k0) \<and> wc_MlDsaKey_SetParams P k0 level = (0, k1) \<and>
     wc_MlDsaKey_PublicKeyDecode P k1 spki = (0, k) \<and> wc_MlDsaKey_VerifyCtx P k s m = (0, 1)"
proof -
  obtain k0 k1 k p0 p1 p where K: "wc_MlDsaKey_Init X = (0, k0)" "wc_MlDsaKey_SetParams X k0 level = (0, k1)"
      "wc_MlDsaKey_PrivateKeyDecode X k1 keyDer = (0, k)"
      "wc_MlDsaKey_Init P = (0, p0)" "wc_MlDsaKey_SetParams P p0 level = (0, p1)"
      "wc_MlDsaKey_PublicKeyDecode P p1 spki = (0, p)"
    and S: "\<forall>m r cap. lim \<le> cap \<longrightarrow> (\<exists>s r'. wc_MlDsaKey_SignCtx X k cap m r = (0, s, r') \<and> length s \<le> lim \<and>
           wc_MlDsaKey_VerifyCtx P p s m = (0, 1))"
    using assms(1) unfolding mldsa_pair_def by blast
  obtain s r' where D: "wc_MlDsaKey_SignCtx X k cap m r = (0, s, r')" "length s \<le> lim" "wc_MlDsaKey_VerifyCtx P p s m = (0, 1)"
    using S assms(3) by metis
  have "wn_SignMlDsa X level keyDer m cap r = (Inr (length s), s, r')"
    using assms(2) K D by (simp add: wn_SignMlDsa_def)
  then show ?thesis using K D by blast
qed

text \<open>Signing in the scheme of a pair gives a signature the client's check accepts.\<close>

lemma SignCv_pair:
  assumes "signing_pair B X P scheme keyDer pub spki lim" "lim \<le> cap" "wn_SchemeKeyOk scheme alg curve"
  shows "\<exists>s r'. wn_SignCv B X scheme keyDer m cap r = (Inr (length s), s, r') \<and> length s \<le> lim \<and>
     cv_accepts B P scheme alg curve pub spki m s"
proof -
  have A: "key_alloc X" "key_alloc P" using assms(1) by (simp_all add: signing_pair_def)
  have ml: "mldsa_scheme n \<noteq> 0x0403 \<and> mldsa_scheme n \<noteq> 0x0503 \<and> mldsa_scheme n \<noteq> 0x0807 \<and> mldsa_scheme n \<noteq> 0x0804 \<and>
      mldsa_scheme n \<noteq> 0x0805 \<and> mldsa_scheme n \<noteq> 0x0806" for n
    by simp
  consider
      (e256) "scheme = 0x0403" "have_ecc B" "ecdsa_pair X P WC_HASH_TYPE_SHA256 ECC_SECP256R1 keyDer pub lim"
    | (e384) "scheme = 0x0503" "have_ecc B" "have_ecc384 B" "have_sha384_sig B"
        "ecdsa_pair X P WC_HASH_TYPE_SHA384 ECC_SECP384R1 keyDer pub lim"
    | (ed) "scheme = 0x0807" "have_ed25519 B" "ed25519_pair X P keyDer pub lim"
    | (r256) "scheme = 0x0804" "have_rsa B" "rsa_full B" "rsa_pair X P WC_HASH_TYPE_SHA256 WC_MGF1SHA256 keyDer pub lim"
    | (r384) "scheme = 0x0805" "have_rsa B" "rsa_full B" "have_sha384_sig B"
        "rsa_pair X P WC_HASH_TYPE_SHA384 WC_MGF1SHA384 keyDer pub lim"
    | (r512) "scheme = 0x0806" "have_rsa B" "rsa_full B" "have_sha512_sig B"
        "rsa_pair X P WC_HASH_TYPE_SHA512 WC_MGF1SHA512 keyDer pub lim"
    | (pq) level where "have_mldsa B = Some level" "mldsa_sign B" "scheme = mldsa_scheme level"
        "mldsa_pair X P level keyDer spki lim"
    using assms(1) unfolding signing_pair_def by blast
  then show ?thesis
  proof cases
    case e256
    then show ?thesis
      using SignEcdsa_pair [OF e256(3) A(1) assms(2), of m r] assms(3) A(2)
      by (auto simp: wn_SignCv_def cv_accepts_def wn_SchemeKeyOk_def Let_def)
  next
    case e384
    then show ?thesis
      using SignEcdsa_pair [OF e384(5) A(1) assms(2), of m r] assms(3) A(2)
      by (auto simp: wn_SignCv_def cv_accepts_def wn_SchemeKeyOk_def Let_def)
  next
    case ed
    then show ?thesis
      using SignEd25519_pair [OF ed(3) A(1) assms(2), of m] assms(3) A(2)
      by (auto simp: wn_SignCv_def cv_accepts_def wn_SchemeKeyOk_def Let_def)
  next
    case r256
    then show ?thesis
      using SignRsaPss_pair [OF r256(4) A(1) assms(2), of m r] assms(3) A(2)
      by (auto simp: wn_SignCv_def cv_accepts_def wn_SchemeKeyOk_def Let_def)
  next
    case r384
    then show ?thesis
      using SignRsaPss_pair [OF r384(5) A(1) assms(2), of m r] assms(3) A(2)
      by (auto simp: wn_SignCv_def cv_accepts_def wn_SchemeKeyOk_def Let_def)
  next
    case r512
    then show ?thesis
      using SignRsaPss_pair [OF r512(5) A(1) assms(2), of m r] assms(3) A(2)
      by (auto simp: wn_SignCv_def cv_accepts_def wn_SchemeKeyOk_def Let_def)
  next
    case (pq level)
    then show ?thesis
      using SignMlDsa_pair [OF pq(4) A(1) assms(2), of m r] ml A(2)
      by (auto simp: wn_SignCv_def cv_accepts_def Let_def simp del: mldsa_scheme.simps)
  qed
qed

lemma cv_signed:
  assumes "wn_X509_Parse B (Some der) = Inr c" "spki = octets der (c_spki c) (c_spkiLen c)"
    "signing_pair B X P scheme keyDer (octets der (c_pubKey c) (c_pubKeyLen c)) spki lim"
    "wn_SchemeKeyOk scheme (c_keyAlg c) (c_curve c)" "length th \<le> 64" "8 + lim \<le> length out" "length out < 2147483648"
  shows "\<exists>sg buf rng'. wn_ServerCertVerify_Sign B X out scheme (Some keyDer) (Some th) rng = (Inr (8 + length sg), buf, rng') \<and>
    take (8 + length sg) buf = cv_msg scheme sg \<and> length sg \<le> lim \<and> wn_CertVerify B P scheme spki th sg = Inr ()"
proof -
  have "lim \<le> length out - 8" using assms(6) by simp
  from SignCv_pair [OF assms(3) this assms(4), of "wn_ServerCert_BuildCvTbs th" rng]
  obtain s r' where S: "wn_SignCv B X scheme keyDer (wn_ServerCert_BuildCvTbs th) (length out - 8) rng = (Inr (length s), s, r')"
      "length s \<le> lim" "cv_accepts B P scheme (c_keyAlg c) (c_curve c) (octets der (c_pubKey c) (c_pubKeyLen c)) spki
        (wn_ServerCert_BuildCvTbs th) s" by blast
  have "wn_CertVerify B P scheme spki th s = Inr ()"
    using CertVerify_iff [OF assms(1,2) refl, of P scheme th s] S(3) by (simp add: wn_ServerCert_BuildCvTbs_def wn_BuildCvTbs_def)
  moreover have "8 + length s \<le> length out" using S(2) assms(6) by simp
  ultimately show ?thesis
    using cv_sign_written [OF _ assms(7) S(1) assms(5)] S(2) by blast
qed

subsection \<open>Properties\<close>

text \<open>C10. What the server signs, the client accepts: with a private key that belongs to the certified public
  key and a scheme that fits it, the server writes the CertificateVerify message of RFC 8446 with
  that scheme, and its signature passes the client's check on the certificate's key and the same
  transcript hash.\<close>

theorem certificate_verify_signed:
  assumes "wn_X509_Parse B (Some der) = Inr c" "spki = octets der (c_spki c) (c_spkiLen c)"
    "signing_pair B X P scheme keyDer (octets der (c_pubKey c) (c_pubKeyLen c)) spki lim"
    "wn_SchemeKeyOk scheme (c_keyAlg c) (c_curve c)" "length th \<le> 64" "8 + lim \<le> length out" "length out < 2147483648"
  shows "\<exists>sg buf rng'. wn_ServerCertVerify_Sign B X out scheme (Some keyDer) (Some th) rng = (Inr (8 + length sg), buf, rng') \<and>
    take (8 + length sg) buf = [15] @ be24 (4 + length sg) @ be16 scheme @ be16 (of_nat (length sg)) @ sg \<and>
    wn_CertVerify B P scheme spki th sg = Inr ()"
  using cv_signed [OF assms, of rng] unfolding cv_msg_def by blast

lemma toy_pair: "signing_pair toy_build toy_kx toy_pk 0x0403 [4, 9] [4, 9] spki 6"
  by (auto simp: signing_pair_def ecdsa_pair_def toy_build_def toy_kx_simps)

theorem certificate_verify_signed_witness:
  "\<exists>sg buf rng'. wn_ServerCertVerify_Sign toy_build toy_kx (replicate 20 0) 0x0403 (Some [4, 9]) (Some []) 0 =
      (Inr (8 + length sg), buf, rng') \<and>
    take (8 + length sg) buf = [15] @ be24 (4 + length sg) @ be16 0x0403 @ be16 (of_nat (length sg)) @ sg \<and>
    wn_CertVerify toy_build toy_pk 0x0403 sample_spki [] sg = Inr ()"
proof -
  have pub: "octets sample_cert (c_pubKey sample_parsed) (c_pubKeyLen sample_parsed) = [4, 9]"
    "wn_SchemeKeyOk 0x0403 (c_keyAlg sample_parsed) (c_curve sample_parsed)"
    by (simp_all add: sample_parsed_def octets_def slice_def sample_cert_def wn_SchemeKeyOk_def)
  have spki: "sample_spki = octets sample_cert (c_spki sample_parsed) (c_spkiLen sample_parsed)" by (simp add: sample_spki_def)
  show ?thesis
    by (rule certificate_verify_signed [OF parse_sample spki, where lim = 6]) (simp_all add: toy_pair pub)
qed

end
