(* ===== verification/Step.thy ===== *)
theory Step
  imports Prelude
begin

section \<open>Steps of a driver\<close>

text \<open>
  The drivers run one step after the other as long as the status \<open>ret\<close> is zero. A status here
  is the C \<open>int\<close>, because a driver passes on what the key schedule returns; the two sums of a
  failing status and a result are the enumeration of the codes below the drivers and the
  \<open>int\<close> in them. \<open>codeE\<close> and \<open>okI\<close> turn what a callee returns into a step, \<open>crypt\<close> is
  \<open>if (call != 0) ret = E_CRYPTO\<close>.
\<close>

definition codeE :: "wn_err + 'a \<Rightarrow> int + 'a" where
  "codeE m = (case m of Inl e \<Rightarrow> Inl (err_code e) | Inr x \<Rightarrow> Inr x)"

definition okI :: "int \<times> 'a \<Rightarrow> int + 'a" where
  "okI r = (if fst r \<noteq> WOLFNANO_SUCCESS then Inl (fst r) else Inr (snd r))"

definition crypt :: "int \<Rightarrow> int + unit" where
  "crypt rc = guardE (rc = 0) (err_code E_CRYPTO)"

text \<open>\<open>atE p m\<close>: the step \<open>m\<close> with the state \<open>p\<close> it leaves behind when it fails.\<close>

definition atE :: "'p \<Rightarrow> int + 'a \<Rightarrow> (int \<times> 'p) + 'a" where
  "atE p m = (case m of Inl e \<Rightarrow> Inl (e, p) | Inr x \<Rightarrow> Inr x)"

lemma codeE_eq_Inr [simp]: "codeE m = Inr x \<longleftrightarrow> m = Inr x"
  by (cases m) (simp_all add: codeE_def)

lemma okI_eq_Inr: "okI r = Inr x \<longleftrightarrow> r = (0, x)"
  by (cases r) (auto simp: okI_def WOLFNANO_SUCCESS_def)

lemma atE_eq_Inr: "atE p m = Inr x \<longleftrightarrow> m = Inr x"
  by (cases m) (simp_all add: atE_def)

lemma crypt_eq_Inr: "crypt rc = Inr u \<longleftrightarrow> rc = 0"
  by (simp add: crypt_def)

text \<open>Taking a successful chain of steps apart.\<close>

lemma bind_okE: "bindE m f = Inr y \<Longrightarrow> (\<And>x. m = Inr x \<Longrightarrow> f x = Inr y \<Longrightarrow> thesis) \<Longrightarrow> thesis"
  by (auto simp: bindE_eq_Inr)

lemma case_okE: "(case p of (a, b) \<Rightarrow> f a b) = Inr y \<Longrightarrow> (\<And>a b. p = (a, b) \<Longrightarrow> f a b = Inr y \<Longrightarrow> thesis) \<Longrightarrow> thesis"
  by (cases p) simp

text \<open>A step that fails does so with a status other than success.\<close>

definition nz :: "int + 'a \<Rightarrow> bool" where
  "nz m \<longleftrightarrow> (\<forall>e. m = Inl e \<longrightarrow> e \<noteq> 0)"

definition nzp :: "(int \<times> 'p) + 'a \<Rightarrow> bool" where
  "nzp m \<longleftrightarrow> (\<forall>e p. m = Inl (e, p) \<longrightarrow> e \<noteq> 0)"

lemma err_code_nz [simp]: "err_code e \<noteq> 0"
  by (cases e) simp_all

lemma nz_intros:
  "nz (Inr x)" "nz (Inl (err_code e))" "nz (codeE c)" "nz (okI r)" "nz (guardE b (err_code e))" "nz (crypt i)"
  by (simp_all add: nz_def codeE_def okI_def WOLFNANO_SUCCESS_def guardE_def crypt_def split: sum.split)

lemma nz_bind: "nz m \<Longrightarrow> (\<And>x. nz (f x)) \<Longrightarrow> nz (bindE m f)"
  by (cases m) (simp_all add: nz_def)

lemma nz_case: "(\<And>a b. nz (f a b)) \<Longrightarrow> nz (case p of (a, b) \<Rightarrow> f a b)"
  by (cases p) simp

lemma nz_if: "nz a \<Longrightarrow> nz b \<Longrightarrow> nz (if c then a else b)"
  by simp

lemmas nz_rules = nz_bind nz_case nz_if nz_intros

lemma nzp_atE: "nz m \<Longrightarrow> nzp (atE p m)"
  by (cases m) (simp_all add: nz_def nzp_def atE_def)

lemma nzp_bind: "nzp m \<Longrightarrow> (\<And>x. nzp (f x)) \<Longrightarrow> nzp (bindE m f)"
  by (cases m) (simp_all add: nzp_def)

lemma nzp_case: "(\<And>a b. nzp (f a b)) \<Longrightarrow> nzp (case p of (a, b) \<Rightarrow> f a b)"
  by (cases p) simp

lemma nzp_Inr: "nzp (Inr x)"
  by (simp add: nzp_def)

subsection \<open>Steps on a state\<close>

text \<open>
  A driver's state is the random generator, the world of the transport and the scratch buffer;
  a step on it may fail, or never return (\<open>None\<close>). \<open>on_rng\<close>, \<open>on_io\<close> and \<open>on_scr\<close> run what
  changes one of the three.
\<close>

record ('r, 'w) env =
  e_rng :: 'r
  e_w :: 'w
  e_scr :: bytes

type_synonym ('s, 'a) step = "'s \<Rightarrow> ((int + 'a) \<times> 's) option"

definition ret_s :: "'a \<Rightarrow> ('s, 'a) step" where
  "ret_s x s = Some (Inr x, s)"

definition pure_s :: "int + 'a \<Rightarrow> ('s, 'a) step" where
  "pure_s m s = Some (m, s)"

definition bind_s :: "('s, 'a) step \<Rightarrow> ('a \<Rightarrow> ('s, 'b) step) \<Rightarrow> ('s, 'b) step" where
  "bind_s m f s = (case m s of None \<Rightarrow> None
     | Some (Inl e, s') \<Rightarrow> Some (Inl e, s')
     | Some (Inr x, s') \<Rightarrow> f x s')"

definition guard_s :: "bool \<Rightarrow> wn_err \<Rightarrow> ('s, unit) step" where
  "guard_s b e = pure_s (guardE b (err_code e))"

definition get_s :: "('s, 's) step" where
  "get_s s = Some (Inr s, s)"

definition on_rng :: "('r \<Rightarrow> (int + 'a) \<times> 'r) \<Rightarrow> (('r, 'w) env, 'a) step" where
  "on_rng f s = (case f (e_rng s) of (m, r) \<Rightarrow> Some (m, s\<lparr>e_rng := r\<rparr>))"

definition on_io :: "('w \<Rightarrow> (wn_err + 'a) \<times> 'w) \<Rightarrow> (('r, 'w) env, 'a) step" where
  "on_io f s = (case f (e_w s) of (m, w) \<Rightarrow> Some (codeE m, s\<lparr>e_w := w\<rparr>))"

definition on_scr :: "(bytes \<Rightarrow> (wn_err + 'a) \<times> bytes) \<Rightarrow> (('r, 'w) env, 'a) step" where
  "on_scr f s = (case f (e_scr s) of (m, b) \<Rightarrow> Some (codeE m, s\<lparr>e_scr := b\<rparr>))"

lemmas step_defs = ret_s_def pure_s_def guard_s_def get_s_def on_rng_def on_io_def on_scr_def

lemma bind_s_ok: "m s = Some (Inr x, s') \<Longrightarrow> bind_s m f s = f x s'"
  by (simp add: bind_s_def)

lemma bind_sE:
  assumes "bind_s m f s = Some (Inr y, s'')"
  obtains x s' where "m s = Some (Inr x, s')" "f x s' = Some (Inr y, s'')"
  using assms by (auto simp: bind_s_def split: option.splits sum.splits)

text \<open>Statuses: what fails does not fail with success, and a property of the state all steps keep.\<close>

definition nzs :: "('s, 'a) step \<Rightarrow> bool" where
  "nzs m \<longleftrightarrow> (\<forall>s e s'. m s = Some (Inl e, s') \<longrightarrow> e \<noteq> 0)"

lemma nzs_bind: "nzs m \<Longrightarrow> (\<And>x. nzs (f x)) \<Longrightarrow> nzs (bind_s m f)"
  by (auto simp: nzs_def bind_s_def split: option.splits sum.splits)

lemma nzs_intros: "nzs (ret_s x)" "nz m \<Longrightarrow> nzs (pure_s m)" "nzs (guard_s b e)" "nzs get_s" "nzs (on_io f)" "nzs (on_scr g)"
  by (auto simp: nzs_def step_defs nz_def guardE_def codeE_def split: prod.splits sum.splits)

lemma nzs_rng: "(\<And>r. nz (fst (f r))) \<Longrightarrow> nzs (on_rng f)"
  by (auto simp: nzs_def on_rng_def nz_def split: prod.splits) (metis fst_conv)

lemma nzs_case: "(\<And>a b. nzs (f a b)) \<Longrightarrow> nzs (case p of (a, b) \<Rightarrow> f a b)"
  by (cases p) simp

lemma nzs_if: "nzs a \<Longrightarrow> nzs b \<Longrightarrow> nzs (if c then a else b)"
  by simp

lemmas nzs_rules = nzs_bind nzs_case nzs_if nzs_intros nzs_rng nz_intros nz_case nz_if

text \<open>Taking a successful run of a driver apart, step by step.\<close>

lemma scr_okE:
  assumes "bind_s (on_scr g) f s = Some (Inr y, s')"
  obtains x b where "g (e_scr s) = (Inr x, b)" "f x (s\<lparr>e_scr := b\<rparr>) = Some (Inr y, s')"
  using assms by (auto simp: bind_s_def on_scr_def codeE_def split: prod.splits sum.splits)

lemma io_okE:
  assumes "bind_s (on_io g) f s = Some (Inr y, s')"
  obtains x w where "g (e_w s) = (Inr x, w)" "f x (s\<lparr>e_w := w\<rparr>) = Some (Inr y, s')"
  using assms by (auto simp: bind_s_def on_io_def codeE_def split: prod.splits sum.splits)

lemma rng_okE:
  assumes "bind_s (on_rng g) f s = Some (Inr y, s')"
  obtains x r where "g (e_rng s) = (Inr x, r)" "f x (s\<lparr>e_rng := r\<rparr>) = Some (Inr y, s')"
  using assms by (auto simp: bind_s_def on_rng_def split: prod.splits sum.splits)

lemma pure_okE:
  assumes "bind_s (pure_s m) f s = Some (Inr y, s')"
  obtains x where "m = Inr x" "f x s = Some (Inr y, s')"
  using assms by (auto simp: bind_s_def pure_s_def split: sum.splits)

lemma bind_get: "bind_s get_s f s = f s s"
  by (simp add: bind_s_def get_s_def)

lemma ret_okE: "ret_s x s = Some (Inr y, s') \<Longrightarrow> (y = x \<Longrightarrow> s' = s \<Longrightarrow> thesis) \<Longrightarrow> thesis"
  by (simp add: ret_s_def)

end
