(* ===== verification/ClientFlight.thy ===== *)
theory ClientFlight
  imports CertPath ServerHello Flight Transcript Handshake Step
begin

section \<open>The server's certificate flight, as the client reads it (wn_connect.c)\<close>

text \<open>
  EncryptedExtensions, Certificate, CertificateVerify and Finished: what the client does with
  each message of the server's flight and the loop that takes complete messages out of the
  reassembly buffer. Of the state of the loop only what outlives an error is kept on one.
\<close>

subsection \<open>EncryptedExtensions\<close>

text \<open>Each turn reads at least four octets or latches an error, so that fuel for the body is enough.\<close>

fun enc_ext_loop :: "nat \<Rightarrow> nat \<Rightarrow> bool \<Rightarrow> reader \<Rightarrow> wn_err + unit" where
  "enc_ext_loop 0 extEnd sniOffered r = (if rpos r < extEnd \<and> \<not> rerr r then Inl Oob else Inr ())"
| "enc_ext_loop (Suc k) extEnd sniOffered r =
     (if rpos r < extEnd \<and> \<not> rerr r then
        (case wn_Read_U16 r of (et, r1) \<Rightarrow>
         case wn_Read_U16 r1 of (el, r2) \<Rightarrow>
         case wn_Read_Bytes (unat el) r2 of (_, r3) \<Rightarrow>
           if roob r3 then Inl Oob
           else if rerr r3 then Inl E_DECODE
           else if et \<noteq> 10 \<and> \<not> (et = 0 \<and> sniOffered \<and> el = 0) then Inl E_UNEXPECTED_MSG
           else enc_ext_loop k extEnd sniOffered r3)
      else Inr ())"

definition wn_CheckEncExt :: "bytes \<Rightarrow> bool \<Rightarrow> wn_err + unit" where
  "wn_CheckEncExt body sniOffered =
     (case wn_Read_U16 (wn_Reader_Init body (length body)) of (extLen, r) \<Rightarrow>
        let extEnd = u32 (rpos r + unat extLen) in
        if roob r then Inl Oob
        else if rerr r \<or> extEnd \<noteq> length body then Inl E_DECODE
        else enc_ext_loop (length body) extEnd sniOffered r)"

subsection \<open>The certificate list\<close>

text \<open>
  The entries as offset and length in the message body, at most as many as the first argument,
  \<^verbatim>\<open>WN_MAX_CHAIN\<close>. The pointer is recorded before the certificate is read over; the
  caller checks the error flag before it uses one.
\<close>

fun cert_entries :: "nat \<Rightarrow> nat \<Rightarrow> reader \<Rightarrow> (nat \<times> nat) list \<times> reader" where
  "cert_entries 0 listEnd r = ([], r)"
| "cert_entries (Suc k) listEnd r =
     (if rpos r < listEnd \<and> \<not> rerr r then
        (case wn_Read_U24 r of (cl, r1) \<Rightarrow>
         case wn_Read_Bytes cl r1 of (_, r2) \<Rightarrow>
         case wn_Read_U16 r2 of (extl, r3) \<Rightarrow>
         case wn_Read_Bytes (unat extl) r3 of (_, r4) \<Rightarrow>
         case cert_entries k listEnd r4 of (es, r5) \<Rightarrow> ((rpos r1, cl) # es, r5))
      else ([], r))"

definition cert_list :: "bytes \<Rightarrow> wn_err + bytes list" where
  "cert_list body =
     (case wn_Read_U8 (wn_Reader_Init body (length body)) of (ctxLen, r1) \<Rightarrow>
      case wn_Read_Bytes (unat ctxLen) r1 of (_, r2) \<Rightarrow>
      case wn_Read_U24 r2 of (listLen, r3) \<Rightarrow>
      let listEnd = u32 (rpos r3 + listLen) in
      if roob r3 then Inl Oob
      else if rerr r3 \<or> ctxLen \<noteq> 0 \<or> listEnd \<noteq> length body then Inl E_DECODE
      else case cert_entries 4 listEnd r3 of (es, r4) \<Rightarrow>
        if roob r4 then Inl Oob
        else if rerr r4 \<or> rpos r4 \<noteq> listEnd then Inl E_DECODE
        else Inr (map (\<lambda>(p, n). slice p n body) es))"

subsection \<open>One message of the flight\<close>

text \<open>
  The caller's arguments and what the messages change: the running transcript, the order flags,
  the two transcript hashes, the leaf's SubjectPublicKeyInfo in its buffer, and the end of the
  flight.
\<close>

record cert_params =
  cp_anchor :: bytes
  cp_name :: "bytes option"
  cp_pin :: "bytes option"
  cp_now :: int

record 'x flight_st =
  ft_tc :: "'x transcript"
  ft_order :: flight
  ft_th :: bytes
  ft_thCert :: bytes
  ft_leaf :: bytes
  ft_spkiLen :: nat
  ft_done :: bool

definition WN_LEAF_SPKI_SZ :: "build \<Rightarrow> nat" where
  "WN_LEAF_SPKI_SZ B = (case have_mldsa B of None \<Rightarrow> 1024 | Some n \<Rightarrow> if n = 5 then 3072 else 2048)"

definition WN_HS_ACC_SZ :: "build \<Rightarrow> nat" where
  "WN_HS_ACC_SZ B = (case have_mldsa B of None \<Rightarrow> 6144 | Some n \<Rightarrow> if n = 5 then 13312 else if n = 3 then 10240 else 8192)"

definition WN_CERT_IO_MIN :: "build \<Rightarrow> nat" where
  "WN_CERT_IO_MIN B = (if have_mldsa B = Some 5 then 8192 else 4096)"

definition WN_CERT_SCRATCH_MIN :: "build \<Rightarrow> nat" where
  "WN_CERT_SCRATCH_MIN B = WN_CERT_IO_MIN B + WN_HS_ACC_SZ B + WN_LEAF_SPKI_SZ B"

text \<open>The Certificate message: the list, then the chain.\<close>

definition on_certificate ::
  "build \<Rightarrow> 'k pk_crypto \<Rightarrow> cert_params \<Rightarrow> bytes \<Rightarrow> 'x flight_st \<Rightarrow> int + 'x flight_st" where
  "on_certificate B P cp body st =
     bindE (codeE (cert_list body)) (\<lambda>certs.
     bindE (codeE (wn_VerifyChain B P certs (cp_anchor cp) (WN_LEAF_SPKI_SZ B) (cp_name cp) (cp_pin cp) (cp_now cp))) (\<lambda>spki.
       Inr (st\<lparr>ft_leaf := mem_put (ft_leaf st) 0 spki, ft_spkiLen := length spki\<rparr>)))"

definition on_cert_verify :: "build \<Rightarrow> 'k pk_crypto \<Rightarrow> bytes \<Rightarrow> 'x flight_st \<Rightarrow> int + 'x flight_st" where
  "on_cert_verify B P body st =
     (case wn_Read_U16 (wn_Reader_Init body (length body)) of (scheme, r1) \<Rightarrow>
      case wn_Read_U16 r1 of (cvLen, r2) \<Rightarrow>
      if roob r2 then Inl (err_code Oob)
      else if rerr r2 \<or> \<not> gotCert (ft_order st) \<or> u32 (rpos r2 + unat cvLen) \<noteq> length body then Inl (err_code E_DECODE)
      else bindE (codeE (wn_CertVerify B P scheme (take (ft_spkiLen st) (ft_leaf st)) (ft_thCert st)
                          (slice (rpos r2) (unat cvLen) body))) (\<lambda>_. Inr st))"

definition on_finished :: "'x crypto \<Rightarrow> bytes \<Rightarrow> bytes \<Rightarrow> 'x flight_st \<Rightarrow> int + 'x flight_st" where
  "on_finished C sHs body st =
     bindE (guardE (gotCv (ft_order st)) (err_code E_UNEXPECTED_MSG)) (\<lambda>_.
     bindE (okI (wn_Tls13_FinishedMac C stack32 (Some sHs) (Some (ft_th st)) 32 WC_SHA256)) (\<lambda>mac.
     bindE (guardE (\<not> (length body \<noteq> 32 \<or> mac \<noteq> body)) (err_code E_BAD_MAC)) (\<lambda>_.
       Inr (st\<lparr>ft_done := True\<rparr>))))"

text \<open>The steps of the loop body in order; the transcript takes the whole message before it is used.\<close>

definition flight_message ::
  "build \<Rightarrow> 'x crypto \<Rightarrow> 'k pk_crypto \<Rightarrow> cert_params \<Rightarrow> bytes \<Rightarrow> bytes \<Rightarrow> 'x flight_st \<Rightarrow> int + 'x flight_st" where
  "flight_message B C P cp sHs msg st =
     (let mType = msg ! 0; body = drop 4 msg in
      case wn_FlightOrder mType (ft_order st) of (ord, fl) \<Rightarrow>
      bindE (codeE ord) (\<lambda>_.
      let st1 = st\<lparr>ft_order := fl\<rparr> in
      bindE (if mType = 8
             then codeE (wn_CheckEncExt body (case cp_name cp of None \<Rightarrow> False | Some n \<Rightarrow> n \<noteq> []))
             else Inr ()) (\<lambda>_.
      bindE (if mType = 15
             then case wn_Transcript_GetHash C (ft_tc st1) (ft_thCert st1) 32 of (rc, h, _) \<Rightarrow>
               okI (rc, st1\<lparr>ft_thCert := h\<rparr>)
             else Inr st1) (\<lambda>st2.
      bindE (if mType = 20
             then case wn_Transcript_GetHash C (ft_tc st2) (ft_th st2) 32 of (rc, h, _) \<Rightarrow>
               okI (rc, st2\<lparr>ft_th := h\<rparr>)
             else Inr st2) (\<lambda>st3.
      bindE (case wn_Transcript_Update C (ft_tc st3) (Some msg) (length msg) of (rc, t) \<Rightarrow> okI (rc, st3\<lparr>ft_tc := t\<rparr>)) (\<lambda>st4.
      bindE (if mType = 11 then on_certificate B P cp body st4 else Inr st4) (\<lambda>st5.
      bindE (if mType = 15 then on_cert_verify B P body st5 else Inr st5) (\<lambda>st6.
        if mType = 20 then on_finished C sHs body st6 else Inr st6))))))))"

subsection \<open>Taking messages out of the reassembly buffer\<close>

text \<open>
  The loop stops at an incomplete message. The position never passes \<open>accLen\<close>, and a 24-bit
  length does not make the sums wrap.
\<close>

function flight_messages ::
  "build \<Rightarrow> 'x crypto \<Rightarrow> 'k pk_crypto \<Rightarrow> cert_params \<Rightarrow> bytes \<Rightarrow> bytes \<Rightarrow> nat \<Rightarrow> nat \<Rightarrow> 'x flight_st \<Rightarrow>
   (int + 'x flight_st) \<times> nat" where
  "flight_messages B C P cp sHs acc accLen off st =
     (if ft_done st \<or> accLen - off < 4 then (Inr st, off)
      else let mLen = dec24 (acc ! (off + 1)) (acc ! (off + 2)) (acc ! (off + 3)) in
        if off + 4 + mLen > accLen then (Inr st, off)
        else case flight_message B C P cp sHs (slice off (4 + mLen) acc) st of
            Inl e \<Rightarrow> (Inl e, off + 4 + mLen)
          | Inr st' \<Rightarrow> flight_messages B C P cp sHs acc accLen (off + 4 + mLen) st')"
  by pat_completeness auto
termination
  by (relation "measure (\<lambda>(B, C, P, cp, sHs, acc, accLen, off, st). accLen - off)") (auto simp: Let_def)

declare flight_messages.simps [simp del]

subsection \<open>What an accepted flight says\<close>

text \<open>A handshake message; the four of the flight in order.\<close>

definition hs_msg :: "byte \<Rightarrow> bytes \<Rightarrow> bytes" where
  "hs_msg t body = t # be24 (length body) @ body"

definition flight_bytes :: "bytes list \<Rightarrow> bytes" where
  "flight_bytes bodies = concat (map2 hs_msg [8, 11, 15, 20] bodies)"

text \<open>The Certificate's list leads to the anchor and yields the leaf's public key info.\<close>

definition chain_accepted :: "build \<Rightarrow> 'k pk_crypto \<Rightarrow> cert_params \<Rightarrow> bytes \<Rightarrow> bytes \<Rightarrow> bool" where
  "chain_accepted B P cp body spki \<longleftrightarrow>
     (\<exists>certs. cert_list body = Inr certs \<and>
        wn_VerifyChain B P certs (cp_anchor cp) (WN_LEAF_SPKI_SZ B) (cp_name cp) (cp_pin cp) (cp_now cp) = Inr spki)"

text \<open>The CertificateVerify is a scheme and a signature of the transcript hash under that key.\<close>

definition signature_accepted :: "build \<Rightarrow> 'k pk_crypto \<Rightarrow> bytes \<Rightarrow> bytes \<Rightarrow> bytes \<Rightarrow> bool" where
  "signature_accepted B P spki th body \<longleftrightarrow>
     (\<exists>scheme sg. body = be16 scheme @ be16 (of_nat (length sg)) @ sg \<and> length sg < 65536 \<and>
        wn_CertVerify B P scheme spki th sg = Inr ())"

definition flight_facts ::
  "build \<Rightarrow> 'k pk_crypto \<Rightarrow> cert_params \<Rightarrow> (bytes \<Rightarrow> bytes) \<Rightarrow> (bytes \<Rightarrow> bytes) \<Rightarrow> bytes \<Rightarrow> bytes \<Rightarrow> bytes list \<Rightarrow> bool" where
  "flight_facts B P cp H mac m0 spki bodies \<longleftrightarrow>
     (0 < length bodies \<longrightarrow> wn_CheckEncExt (bodies ! 0) (case cp_name cp of None \<Rightarrow> False | Some n \<Rightarrow> n \<noteq> []) = Inr ()) \<and>
     (1 < length bodies \<longrightarrow> chain_accepted B P cp (bodies ! 1) spki) \<and>
     (2 < length bodies \<longrightarrow> signature_accepted B P spki (H (m0 @ flight_bytes (take 2 bodies))) (bodies ! 2)) \<and>
     (3 < length bodies \<longrightarrow> bodies ! 3 = mac (H (m0 @ flight_bytes (take 3 bodies))))"

text \<open>The state after the messages with these bodies.\<close>

definition flight_st_ok ::
  "build \<Rightarrow> 'k pk_crypto \<Rightarrow> cert_params \<Rightarrow> (bytes \<Rightarrow> bytes) \<Rightarrow> ('x \<Rightarrow> bytes \<Rightarrow> bool) \<Rightarrow> (bytes \<Rightarrow> bytes) \<Rightarrow> bytes \<Rightarrow>
   bytes list \<Rightarrow> 'x flight_st \<Rightarrow> bool" where
  "flight_st_ok B P cp H R mac m0 bodies st \<longleftrightarrow>
     tdigest (ft_tc st) = WC_SHA256 \<and> R (thash (ft_tc st)) (m0 @ flight_bytes bodies) \<and>
     length bodies \<le> 4 \<and> ft_done st = (length bodies = 4) \<and>
     ft_order st = \<lparr>gotEE = 0 < length bodies, gotCert = 1 < length bodies, gotCv = 2 < length bodies\<rparr> \<and>
     flight_facts B P cp H mac m0 (take (ft_spkiLen st) (ft_leaf st)) bodies"

lemma sha256_update:
  assumes "sha256_ok C H R" "tdigest t = WC_SHA256" "R (thash t) m"
  shows "\<exists>t'. wn_Transcript_Update C t (Some b) (length b) = (0, t') \<and> tdigest t' = WC_SHA256 \<and> R (thash t') (m @ b)"
proof -
  have "fst (wc_Sha256Update C (thash t) b) = 0 \<and> R (snd (wc_Sha256Update C (thash t) b)) (m @ b)"
    using assms(1,3) unfolding sha256_ok_def by blast
  then show ?thesis
    using assms(2) by (cases "wc_Sha256Update C (thash t) b") (simp add: wn_Transcript_Update_def hash_status_def)
qed

lemma sha256_get:
  assumes "sha256_ok C H R" "tdigest t = WC_SHA256" "R (thash t) m"
  shows "wn_Transcript_GetHash C t out n = (0, H m, 32)"
  using assms by (auto simp: wn_Transcript_GetHash_def hash_status_def sha256_ok_def)

lemma flight_bytes_snoc:
  assumes "length bs < 4"
  shows "flight_bytes (bs @ [b]) = flight_bytes bs @ hs_msg ([8, 11, 15, 20] ! length bs) b"
proof -
  consider "bs = []" | x where "bs = [x]" | x y where "bs = [x, y]" | x y z where "bs = [x, y, z]"
    using assms by (cases bs rule: remdups_adj.cases; cases "tl (tl bs)"; cases "tl (tl (tl bs))") auto
  then show ?thesis by cases (simp_all add: flight_bytes_def)
qed

text \<open>The order gate lets through only the next message of the flight.\<close>

lemma order_next:
  assumes "wn_FlightOrder t \<lparr>gotEE = 0 < n, gotCert = 1 < n, gotCv = 2 < n\<rparr> = (Inr (), fl)" "n < 4"
  shows "t = [8, 11, 15, 20] ! n \<and> fl = \<lparr>gotEE = 0 < Suc n, gotCert = 1 < Suc n, gotCv = 2 < Suc n\<rparr>"
  using assms by (auto simp: wn_FlightOrder_def guardE_def less_Suc_eq numeral_eq_Suc split: if_splits)

lemma be24_dec24: "be24 (dec24 a b c) = [a, b, c]"
proof -
  have e: "unat a * 65536 + unat b * 256 + unat c = (unat a * 256 + unat b) * 256 + unat c"
    by simp
  have d: "(unat a * 65536 + unat b * 256 + unat c) div 65536 = unat a"
    "(unat a * 65536 + unat b * 256 + unat c) div 256 = unat a * 256 + unat b"
    using unat_byte_less [of b] unat_byte_less [of c] by linarith+
  have "unat (of_nat (unat a * 256 + unat b) :: byte) = unat b"
    by (simp only: unat_of_nat_byte) (simp add: mod_add_left_eq)
  moreover have "unat (of_nat (unat a * 65536 + unat b * 256 + unat c) :: byte) = unat c"
    by (simp only: unat_of_nat_byte e mod_mult_self3 mod_less unat_byte_less)
  ultimately have "(of_nat (unat a * 256 + unat b) :: byte) = b"
      "(of_nat (unat a * 65536 + unat b * 256 + unat c) :: byte) = c"
    by (simp_all only: unsigned_word_eqI)
  then show ?thesis unfolding be24_def dec24_eq d by (simp del: of_nat_add of_nat_mult)
qed

lemma be16_dec16: "be16 (dec16 a b) = [a, b]"
proof -
  have "unat (ucast (drop_bit 8 (dec16 a b)) :: byte) = unat a"
    unfolding unat_hi16 unat_dec16 using unat_byte_less [of b] by linarith
  moreover have "unat (ucast (dec16 a b) :: byte) = unat b"
    by (simp add: unat_lo16 unat_dec16)
  ultimately have "ucast (drop_bit 8 (dec16 a b)) = a" "ucast (dec16 a b) = b"
    by (simp_all only: unsigned_word_eqI)
  then show ?thesis unfolding be16_def by (simp only:)
qed

text \<open>A message cut out at its own length is its type, that length and its body.\<close>

lemma hs_msg_cut:
  assumes "mLen = dec24 (acc ! (off + 1)) (acc ! (off + 2)) (acc ! (off + 3))" "off + 4 + mLen \<le> length acc"
  shows "slice off (4 + mLen) acc = hs_msg (acc ! off) (slice (off + 4) mLen acc)"
proof -
  have "drop off acc = acc ! off # acc ! (off + 1) # acc ! (off + 2) # acc ! (off + 3) # drop (off + 4) acc"
    using assms(2) by (simp add: Cons_nth_drop_Suc eval_nat_numeral)
  moreover have "4 + mLen = Suc (Suc (Suc (Suc mLen)))" by simp
  ultimately have "slice off (4 + mLen) acc =
      acc ! off # [acc ! (off + 1), acc ! (off + 2), acc ! (off + 3)] @ slice (off + 4) mLen acc"
    by (simp only: slice_def take_Suc_Cons append_Cons append_Nil)
  moreover have "length (slice (off + 4) mLen acc) = mLen" using assms(2) by simp
  moreover have "be24 mLen = [acc ! (off + 1), acc ! (off + 2), acc ! (off + 3)]" by (simp only: assms(1) be24_dec24)
  ultimately show ?thesis by (simp only: hs_msg_def)
qed

lemma on_cert_verify_sound:
  assumes "on_cert_verify B P body st = Inr st'" "length body < 2147483640"
  shows "st' = st \<and> signature_accepted B P (take (ft_spkiLen st) (ft_leaf st)) (ft_thCert st) body"
proof -
  consider "body = []" | a where "body = [a]" | a b where "body = [a, b]" | a b c where "body = [a, b, c]"
    | a b c d rest where "body = a # b # c # d # rest"
    by (cases body rule: remdups_adj.cases; cases "tl (tl body)"; cases "tl (tl (tl body))") auto
  then show ?thesis
  proof cases
    case 5
    have R: "wn_Read_U16 (wn_Reader_Init body (length body)) = (dec16 a b, rz [a, b] (c # d # rest))"
      "wn_Read_U16 (rz [a, b] (c # d # rest)) = (dec16 c d, rz [a, b, c, d] rest)"
      using assms(2) 5 by (simp_all add: Init_rz rz_U16)
    have l4: "length [a, b, c, d] = 4" by simp
    have "4 + unat (dec16 c d) < 4294967296" using unat_word16_less [of "dec16 c d"] by linarith
    then have u: "u32 (length [a, b, c, d] + unat (dec16 c d)) = 4 + unat (dec16 c d)" by (simp add: u32_def)
    have "u32 (length [a, b, c, d] + unat (dec16 c d)) = length body \<and>
        wn_CertVerify B P (dec16 a b) (take (ft_spkiLen st) (ft_leaf st)) (ft_thCert st) (slice (length [a, b, c, d]) (unat (dec16 c d)) body) = Inr () \<and>
        st' = st"
      using assms(1) by (auto simp: on_cert_verify_def R bindE_eq_Inr simp del: list.size(4) split: if_splits)
    then have A: "4 + unat (dec16 c d) = 4 + length rest"
        "wn_CertVerify B P (dec16 a b) (take (ft_spkiLen st) (ft_leaf st)) (ft_thCert st) (slice 4 (unat (dec16 c d)) body) = Inr ()" "st' = st"
      unfolding u unfolding l4 by (auto simp: 5)
    have "length rest = unat (dec16 c d)" using A(1) by simp
    then have "(of_nat (length rest) :: word16) = dec16 c d" by simp
    then have "body = be16 (dec16 a b) @ be16 (of_nat (length rest)) @ rest"
      by (simp add: 5 be16_dec16)
    moreover have "slice 4 (unat (dec16 c d)) body = rest" using A(1) 5 by (simp add: slice_def)
    ultimately show ?thesis
      using A unat_word16_less [of "dec16 c d"] unfolding signature_accepted_def by auto
  qed (use assms in \<open>simp_all add: on_cert_verify_def read_defs wn_Reader_Init_def get_byte_def touch_def split: if_splits\<close>)
qed

subsection \<open>The step\<close>

lemma on_certificate_sound:
  assumes "on_certificate B P cp body st = Inr st'"
  shows "\<exists>spki. chain_accepted B P cp body spki \<and> st' = st\<lparr>ft_leaf := mem_put (ft_leaf st) 0 spki, ft_spkiLen := length spki\<rparr>"
  using assms by (auto simp: on_certificate_def bindE_eq_Inr chain_accepted_def)

lemma on_finished_sound:
  assumes "on_finished C sHs body st = Inr st'" "kdf_ok C" "hmac_ok C M" "length sHs = 32" "length (ft_th st) = 32"
  shows "st' = st\<lparr>ft_done := True\<rparr> \<and> body = M (hkdf_expand C 32 sHs ''finished'' []) (ft_th st)"
  using assms(1) by (auto simp: on_finished_def bindE_eq_Inr okI_eq_Inr FinishedMac_ok [OF assms(2-5)])

text \<open>A message that is accepted is the next one of the flight, and carries what the facts say.\<close>

lemma flight_message_sound:
  assumes ok: "sha256_ok C H R" "kdf_ok C" "hmac_ok C M" "length sHs = 32"
    and st: "flight_st_ok B P cp H R (M (hkdf_expand C 32 sHs ''finished'' [])) m0 bodies st" "\<not> ft_done st"
    and m: "flight_message B C P cp sHs (hs_msg t body) st = Inr st'" "length body < 2147483640"
  shows "flight_st_ok B P cp H R (M (hkdf_expand C 32 sHs ''finished'' [])) m0 (bodies @ [body]) st'"
proof -
  let ?mac = "M (hkdf_expand C 32 sHs ''finished'' [])" and ?n = "length bodies"
  let ?m = "m0 @ flight_bytes bodies"
  have n: "?n < 4" and tc: "tdigest (ft_tc st) = WC_SHA256" "R (thash (ft_tc st)) ?m"
    and ord: "ft_order st = \<lparr>gotEE = 0 < ?n, gotCert = 1 < ?n, gotCv = 2 < ?n\<rparr>"
    and F: "flight_facts B P cp H ?mac m0 (take (ft_spkiLen st) (ft_leaf st)) bodies"
    using st by (auto simp: flight_st_ok_def)
  obtain fl where fo: "wn_FlightOrder t (ft_order st) = (Inr (), fl)"
    using m(1) by (auto simp: flight_message_def hs_msg_def bindE_eq_Inr split: prod.splits)
  have t: "t = [8, 11, 15, 20] ! ?n" and fl: "fl = \<lparr>gotEE = 0 < Suc ?n, gotCert = 1 < Suc ?n, gotCv = 2 < Suc ?n\<rparr>"
    using order_next [OF fo [unfolded ord] n] by simp_all
  obtain tc' where up: "wn_Transcript_Update C (ft_tc st) (Some (hs_msg t body)) (length (hs_msg t body)) = (0, tc')"
      "tdigest tc' = WC_SHA256" "R (thash tc') (?m @ hs_msg t body)"
    using sha256_update [OF ok(1) tc] by blast
  note get = sha256_get [OF ok(1) tc]
  have fb: "m0 @ flight_bytes (bodies @ [body]) = ?m @ hs_msg t body"
    using flight_bytes_snoc [OF n, of body] by (simp add: t)
  note up4 = up(3) [folded fb]
  have nth: "(bodies @ [body]) ! ?n = body" by simp
  have tk: "take ?n (bodies @ [body]) = bodies" by simp
  have hl: "length (H x) = 32" for x using ok(1) by (simp add: sha256_ok_def)
  have body4: "hs_msg t body ! 0 = t" "drop 4 (hs_msg t body) = body" by (simp_all add: hs_msg_def)
  note M = m(1) [unfolded flight_message_def Let_def body4 fo]
  consider "?n = 0" | "?n = 1" | "?n = 2" | "?n = 3" using n by linarith
  then show ?thesis
  proof cases
    case 1
    then have t8: "t = 8" using t by simp
    have S: "wn_CheckEncExt body (case cp_name cp of None \<Rightarrow> False | Some n \<Rightarrow> n \<noteq> []) = Inr ()"
        "st' = st\<lparr>ft_order := fl, ft_tc := tc'\<rparr>"
      using M up(1) by (auto simp: t8 bindE_eq_Inr okI_eq_Inr)
    show ?thesis
      using S up4 up(2) fl 1 nth st(2) by (auto simp: flight_st_ok_def flight_facts_def)
  next
    case 2
    then have t11: "t = 11" using t by simp
    obtain spki where S: "chain_accepted B P cp body spki"
        "st' = st\<lparr>ft_order := fl, ft_tc := tc', ft_leaf := mem_put (ft_leaf st) 0 spki, ft_spkiLen := length spki\<rparr>"
      using M up(1) on_certificate_sound by (fastforce simp: t11 bindE_eq_Inr okI_eq_Inr)
    have "take (length spki) (mem_put (ft_leaf st) 0 spki) = spki" by (simp add: mem_put_def)
    then show ?thesis
      using S up4 up(2) F fl 2 nth st(2) by (auto simp: flight_st_ok_def flight_facts_def nth_append)
  next
    case 3
    then have t15: "t = 15" using t by simp
    have S: "signature_accepted B P (take (ft_spkiLen st) (ft_leaf st)) (H ?m) body"
        "st' = st\<lparr>ft_order := fl, ft_thCert := H ?m, ft_tc := tc'\<rparr>"
      using M up(1) on_cert_verify_sound [OF _ m(2)] by (fastforce simp: t15 get bindE_eq_Inr okI_eq_Inr)+
    show ?thesis
      using S up4 up(2) F fl 3 nth tk st(2) by (auto simp: flight_st_ok_def flight_facts_def nth_append)
  next
    case 4
    then have t20: "t = 20" using t by simp
    have S: "body = ?mac (H ?m)" "st' = st\<lparr>ft_order := fl, ft_th := H ?m, ft_tc := tc', ft_done := True\<rparr>"
      using M up(1) on_finished_sound [OF _ ok(2-4)] hl by (fastforce simp: t20 get bindE_eq_Inr okI_eq_Inr)+
    show ?thesis
      using S up4 up(2) F fl 4 nth tk by (auto simp: flight_st_ok_def flight_facts_def nth_append)
  qed
qed

text \<open>So does the loop, message by message.\<close>

lemma flight_messages_sound:
  assumes ok: "sha256_ok C H R" "kdf_ok C" "hmac_ok C M" "length sHs = 32"
    and "accLen \<le> length acc" "length acc < 2147483640"
    and "flight_st_ok B P cp H R (M (hkdf_expand C 32 sHs ''finished'' [])) m0 bodies st"
    and "flight_messages B C P cp sHs acc accLen off st = (Inr st', off')"
  shows "\<exists>bodies'. flight_st_ok B P cp H R (M (hkdf_expand C 32 sHs ''finished'' [])) m0 bodies' st'"
  using assms(7,8)
proof (induction "accLen - off" arbitrary: off st bodies rule: less_induct)
  case less
  let ?mLen = "dec24 (acc ! (off + 1)) (acc ! (off + 2)) (acc ! (off + 3))"
  show ?case
  proof (cases "ft_done st \<or> accLen - off < 4 \<or> off + 4 + ?mLen > accLen")
    case True
    then have "flight_messages B C P cp sHs acc accLen off st = (Inr st, off)"
      by (auto simp: flight_messages.simps [of B C P cp sHs acc accLen off st] Let_def)
    then show ?thesis using less.prems by auto
  next
    case False
    have cut: "slice off (4 + ?mLen) acc = hs_msg (acc ! off) (slice (off + 4) ?mLen acc)"
      using hs_msg_cut [OF refl] False assms(5) by simp
    from less.prems(2) False obtain st1 where
      m: "flight_message B C P cp sHs (hs_msg (acc ! off) (slice (off + 4) ?mLen acc)) st = Inr st1"
      and rest: "flight_messages B C P cp sHs acc accLen (off + 4 + ?mLen) st1 = (Inr st', off')"
      unfolding cut [symmetric] by (auto simp: flight_messages.simps [of B C P cp sHs acc accLen off st] Let_def split: sum.splits)
    have "length (slice (off + 4) ?mLen acc) < 2147483640"
      using assms(5,6) False by simp
    from flight_message_sound [OF ok less.prems(1) _ m this] False
    have "flight_st_ok B P cp H R (M (hkdf_expand C 32 sHs ''finished'' [])) m0 (bodies @ [slice (off + 4) ?mLen acc]) st1"
      by simp
    moreover have "accLen - (off + 4 + ?mLen) < accLen - off" using False by linarith
    ultimately show ?thesis using less.hyps rest by blast
  qed
qed

end
