(* ===== verification/KeyShare.thy ===== *)
theory KeyShare
  imports KexCrypto Crypto
begin

section \<open>Ephemeral key shares (wn_keyshare.c, wn_hybrid.c)\<close>

text \<open>
  The key-exchange group of the build: X25519, P-256 or the hybrid of ML-KEM-768 and X25519.
  A key share keeps its private key between the hello messages; which of its members exists
  depends on the build, and \<open>ks_key\<close> stands for the one curve key. Output buffers are
  arguments, and come back with what was written; \<open>*outLen\<close> is the result. The random
  generator is threaded. Releasing provider objects has no effect here beyond the flags.
\<close>

record 'k hybrid =
  kem :: 'k
  hx :: 'k
  kemInit :: bool
  xInit :: bool

record 'k keyshare =
  ks_hybrid :: "'k hybrid"
  ks_key :: 'k
  ks_group :: word16

definition zero_out :: "bytes \<Rightarrow> bytes" where
  "zero_out ss = mem_put ss 0 (replicate 64 0)"

subsection \<open>The hybrid group\<close>

definition wn_Hybrid_ClientKeyShare ::
  "('k, 'r) kx_crypto \<Rightarrow> 'k hybrid \<Rightarrow> 'r \<Rightarrow> bytes \<Rightarrow> (wn_err + nat) \<times> 'k hybrid \<times> 'r \<times> bytes" where
  "wn_Hybrid_ClientKeyShare X h rng out =
     (case wc_MlKemKey_Init X of (r1, k0) \<Rightarrow>
      if r1 \<noteq> 0 then (Inl E_CRYPTO, h\<lparr>kem := k0\<rparr>, rng, out)
      else case wc_MlKemKey_MakeKey X k0 rng of (r2, k, rng1) \<Rightarrow>
      let h1 = h\<lparr>kem := k, kemInit := True\<rparr> in
      if r2 \<noteq> 0 then (Inl E_CRYPTO, h1, rng1, out)
      else case wc_MlKemKey_EncodePublicKey X k 1184 of (r3, p) \<Rightarrow>
      let out1 = mem_put out 0 p in
      if r3 \<noteq> 0 then (Inl E_CRYPTO, h1, rng1, out1)
      else case wc_curve25519_init X of (r4, x0) \<Rightarrow>
      if r4 \<noteq> 0 then (Inl E_CRYPTO, h1\<lparr>hx := x0\<rparr>, rng1, out1)
      else case wc_curve25519_make_key X rng1 32 x0 of (r5, x, rng2) \<Rightarrow>
      let h2 = h1\<lparr>hx := x, xInit := True\<rparr> in
      if r5 \<noteq> 0 then (Inl E_CRYPTO, h2, rng2, out1)
      else case wc_curve25519_export_public_ex X x 32 of (r6, q) \<Rightarrow>
      let out2 = mem_put out1 1184 q in
      if r6 \<noteq> 0 then (Inl E_CRYPTO, h2, rng2, out2) else (Inr 1216, h2, rng2, out2))"

definition wn_Hybrid_ClientShared ::
  "('k, 'r) kx_crypto \<Rightarrow> 'k hybrid \<Rightarrow> bytes option \<Rightarrow> bytes \<Rightarrow> (wn_err + nat) \<times> bytes" where
  "wn_Hybrid_ClientShared X h srvShare ss =
     (if srvShare = None \<or> length (the srvShare) \<noteq> 1120 then (Inl E_INVALID_ARG, zero_out ss)
      else case wc_MlKemKey_Decapsulate X (kem h) (slice 0 1088 (the srvShare)) of (r1, s) \<Rightarrow>
      let ss1 = mem_put ss 0 s in
      if r1 \<noteq> 0 then (Inl E_CRYPTO, zero_out ss1)
      else case wc_curve25519_init X of (r2, p0) \<Rightarrow>
      if r2 \<noteq> 0 then (Inl E_CRYPTO, zero_out ss1)
      else case wc_curve25519_import_public_ex X (slice 1088 32 (the srvShare)) p0 of (r3, peer) \<Rightarrow>
      if r3 \<noteq> 0 then (Inl E_CRYPTO, zero_out ss1)
      else case wc_curve25519_shared_secret_ex X (hx h) peer 32 of (r4, x) \<Rightarrow>
      let ss2 = mem_put ss1 32 x in
      if r4 \<noteq> 0 then (Inl E_CRYPTO, zero_out ss2) else (Inr 64, ss2))"

definition wn_Hybrid_ServerRespond ::
  "('k, 'r) kx_crypto \<Rightarrow> bytes option \<Rightarrow> 'r \<Rightarrow> bytes \<Rightarrow> bytes \<Rightarrow> (wn_err + nat \<times> nat) \<times> 'r \<times> bytes \<times> bytes" where
  "wn_Hybrid_ServerRespond X cliShare rng srvShare ss =
     (if cliShare = None \<or> length (the cliShare) \<noteq> 1216 then (Inl E_INVALID_ARG, rng, srvShare, zero_out ss)
      else case wc_MlKemKey_Init X of (r1, k0) \<Rightarrow>
      if r1 \<noteq> 0 then (Inl E_CRYPTO, rng, srvShare, zero_out ss)
      else case wc_MlKemKey_DecodePublicKey X k0 (slice 0 1184 (the cliShare)) of (r2, k) \<Rightarrow>
      if r2 \<noteq> 0 then (Inl E_CRYPTO, rng, srvShare, zero_out ss)
      else case wc_MlKemKey_Encapsulate X k rng of (r3, ct, s, rng1) \<Rightarrow>
      let srv1 = mem_put srvShare 0 ct; ss1 = mem_put ss 0 s in
      if r3 \<noteq> 0 then (Inl E_CRYPTO, rng1, srv1, zero_out ss1)
      else case wc_curve25519_init X of (r4, x0) \<Rightarrow>
      if r4 \<noteq> 0 then (Inl E_CRYPTO, rng1, srv1, zero_out ss1)
      else case wc_curve25519_make_key X rng1 32 x0 of (r5, x, rng2) \<Rightarrow>
      if r5 \<noteq> 0 then (Inl E_CRYPTO, rng2, srv1, zero_out ss1)
      else case wc_curve25519_export_public_ex X x 32 of (r6, q) \<Rightarrow>
      let srv2 = mem_put srv1 1088 q in
      if r6 \<noteq> 0 then (Inl E_CRYPTO, rng2, srv2, zero_out ss1)
      else case wc_curve25519_init X of (r7, p0) \<Rightarrow>
      if r7 \<noteq> 0 then (Inl E_CRYPTO, rng2, srv2, zero_out ss1)
      else case wc_curve25519_import_public_ex X (slice 1184 32 (the cliShare)) p0 of (r8, peer) \<Rightarrow>
      if r8 \<noteq> 0 then (Inl E_CRYPTO, rng2, srv2, zero_out ss1)
      else case wc_curve25519_shared_secret_ex X x peer 32 of (r9, y) \<Rightarrow>
      let ss2 = mem_put ss1 32 y in
      if r9 \<noteq> 0 then (Inl E_CRYPTO, rng2, srv2, zero_out ss2) else (Inr (1120, 64), rng2, srv2, ss2))"

definition wn_Hybrid_Free :: "'k hybrid \<Rightarrow> 'k hybrid" where
  "wn_Hybrid_Free h = h\<lparr>kemInit := False, xInit := False\<rparr>"

subsection \<open>The key share of the build\<close>

text \<open>\<open>zeroed\<close> is the hybrid share after \<^verbatim>\<open>XMEMSET\<close>.\<close>

definition wn_KeyShare_Init ::
  "build \<Rightarrow> ('k, 'r) kx_crypto \<Rightarrow> 'k hybrid \<Rightarrow> 'k keyshare \<Rightarrow> word16 \<Rightarrow> (wn_err + unit) \<times> 'k keyshare" where
  "wn_KeyShare_Init B X zeroed ks grp =
     (let ks1 = ks\<lparr>ks_group := grp\<rparr> in
      if grp \<noteq> WN_DEFAULT_GROUP B then (Inl E_UNSUPPORTED, ks1)
      else case b_kex B of
        Hybrid \<Rightarrow> (Inr (), ks1\<lparr>ks_hybrid := zeroed\<rparr>)
      | P256 \<Rightarrow> (case wc_ecc_init X of (rc, k) \<Rightarrow> (if rc \<noteq> 0 then Inl E_CRYPTO else Inr (), ks1\<lparr>ks_key := k\<rparr>))
      | X25519 \<Rightarrow> (case wc_curve25519_init X of (rc, k) \<Rightarrow> (if rc \<noteq> 0 then Inl E_CRYPTO else Inr (), ks1\<lparr>ks_key := k\<rparr>)))"

definition wn_KeyShare_Generate ::
  "build \<Rightarrow> ('k, 'r) kx_crypto \<Rightarrow> 'k keyshare \<Rightarrow> 'r \<Rightarrow> bytes \<Rightarrow> (wn_err + nat) \<times> 'k keyshare \<times> 'r \<times> bytes" where
  "wn_KeyShare_Generate B X ks rng pub =
     (if ks_group ks \<noteq> WN_DEFAULT_GROUP B then (Inl E_UNSUPPORTED, ks, rng, pub)
      else case b_kex B of
        Hybrid \<Rightarrow> (case wn_Hybrid_ClientKeyShare X (ks_hybrid ks) rng pub of
                     (res, h, rng1, pub1) \<Rightarrow> (res, ks\<lparr>ks_hybrid := h\<rparr>, rng1, pub1))
      | P256 \<Rightarrow>
          (case wc_ecc_make_key_ex X rng 32 (ks_key ks) ECC_SECP256R1 of (r1, k, rng1) \<Rightarrow>
           if r1 \<noteq> 0 then (Inl E_CRYPTO, ks\<lparr>ks_key := k\<rparr>, rng1, pub)
           else case wc_ecc_set_rng X k rng1 of (r2, k') \<Rightarrow>
           if r2 \<noteq> 0 then (Inl E_CRYPTO, ks\<lparr>ks_key := k'\<rparr>, rng1, pub)
           else case wc_ecc_export_x963 X k' 65 of (r3, p) \<Rightarrow>
             (if r3 \<noteq> 0 then Inl E_CRYPTO else Inr (length p), ks\<lparr>ks_key := k'\<rparr>, rng1, mem_put pub 0 p))
      | X25519 \<Rightarrow>
          (case wc_curve25519_make_key X rng 32 (ks_key ks) of (r1, k, rng1) \<Rightarrow>
           if r1 \<noteq> 0 then (Inl E_CRYPTO, ks\<lparr>ks_key := k\<rparr>, rng1, pub)
           else case wc_curve25519_export_public_ex X k 32 of (r2, p) \<Rightarrow>
             (if r2 \<noteq> 0 then Inl E_CRYPTO else Inr (length p), ks\<lparr>ks_key := k\<rparr>, rng1, mem_put pub 0 p)))"

definition wn_KeyShare_Shared ::
  "build \<Rightarrow> ('k, 'r) kx_crypto \<Rightarrow> 'k keyshare \<Rightarrow> bytes option \<Rightarrow> bytes \<Rightarrow> (wn_err + nat) \<times> bytes" where
  "wn_KeyShare_Shared B X ks peerPub out =
     (if peerPub = None then (Inl E_INVALID_ARG, out)
      else if ks_group ks \<noteq> WN_DEFAULT_GROUP B then (Inl E_UNSUPPORTED, out)
      else case b_kex B of
        Hybrid \<Rightarrow> wn_Hybrid_ClientShared X (ks_hybrid ks) peerPub out
      | P256 \<Rightarrow>
          if length (the peerPub) \<noteq> 65 then (Inl E_INVALID_ARG, out)
          else (case wc_ecc_init X of (r1, p0) \<Rightarrow>
           if r1 \<noteq> 0 then (Inl E_CRYPTO, out)
           else case wc_ecc_import_x963_ex X (the peerPub) p0 ECC_SECP256R1 of (r2, peer) \<Rightarrow>
           if r2 \<noteq> 0 then (Inl E_CRYPTO, out)
           else case wc_ecc_shared_secret X (ks_key ks) peer 32 of (r3, s) \<Rightarrow>
             (if r3 \<noteq> 0 then Inl E_CRYPTO else Inr (length s), mem_put out 0 s))
      | X25519 \<Rightarrow>
          if length (the peerPub) \<noteq> 32 then (Inl E_INVALID_ARG, out)
          else (case wc_curve25519_init X of (r1, p0) \<Rightarrow>
           if r1 \<noteq> 0 then (Inl E_CRYPTO, out)
           else case wc_curve25519_import_public_ex X (the peerPub) p0 of (r2, peer) \<Rightarrow>
           if r2 \<noteq> 0 then (Inl E_CRYPTO, out)
           else case wc_curve25519_shared_secret_ex X (ks_key ks) peer 32 of (r3, s) \<Rightarrow>
             (if r3 \<noteq> 0 then Inl E_CRYPTO else Inr (length s), mem_put out 0 s)))"

definition wn_KeyShare_ServerShare ::
  "build \<Rightarrow> ('k, 'r) kx_crypto \<Rightarrow> 'k keyshare \<Rightarrow> 'r \<Rightarrow> bytes option \<Rightarrow> bytes \<Rightarrow> bytes \<Rightarrow>
   (wn_err + nat \<times> nat) \<times> 'k keyshare \<times> 'r \<times> bytes \<times> bytes" where
  "wn_KeyShare_ServerShare B X ks rng peerShare srvShare secret =
     (if peerShare = None then (Inl E_INVALID_ARG, ks, rng, srvShare, secret)
      else if b_kex B = Hybrid then
        (if ks_group ks = WN_DEFAULT_GROUP B
         then case wn_Hybrid_ServerRespond X peerShare rng srvShare secret of
                (res, rng1, srv1, sec1) \<Rightarrow> (res, ks, rng1, srv1, sec1)
         else (Inl E_UNSUPPORTED, ks, rng, srvShare, secret))
      else case wn_KeyShare_Generate B X ks rng srvShare of
          (Inl e, ks1, rng1, srv1) \<Rightarrow> (Inl e, ks1, rng1, srv1, secret)
        | (Inr n, ks1, rng1, srv1) \<Rightarrow>
            (case wn_KeyShare_Shared B X ks1 peerShare secret of
               (Inl e, sec1) \<Rightarrow> (Inl e, ks1, rng1, srv1, sec1)
             | (Inr m, sec1) \<Rightarrow> (Inr (n, m), ks1, rng1, srv1, sec1)))"

definition wn_KeyShare_Free :: "build \<Rightarrow> 'k keyshare \<Rightarrow> 'k keyshare" where
  "wn_KeyShare_Free B ks =
     (if b_kex B = Hybrid \<and> ks_group ks = WN_DEFAULT_GROUP B
      then ks\<lparr>ks_hybrid := wn_Hybrid_Free (ks_hybrid ks)\<rparr> else ks)"

subsection \<open>Agreement\<close>

lemma dh_run:
  assumes "dh_ok good mk ex im sh n m" "good r1" "good r2"
  obtains a r1' pa b r2' pb where
    "mk r1 k1 = (0, a, r1')" "good r1'" "ex a = (0, pa)" "length pa = n"
    "mk r2 k2 = (0, b, r2')" "good r2'" "ex b = (0, pb)" "length pb = n"
    "\<And>j1 j2. \<exists>ia ib s. im pa j1 = (0, ia) \<and> im pb j2 = (0, ib) \<and> sh a ib = (0, s) \<and> sh b ia = (0, s) \<and> length s = m"
proof -
  obtain c1 a r1' c2 b r2' where mk: "mk r1 k1 = (c1, a, r1')" "mk r2 k2 = (c2, b, r2')" by (metis prod.collapse)
  obtain d1 pa d2 pb where ex: "ex a = (d1, pa)" "ex b = (d2, pb)" by fastforce
  have one: "case mk r k of (rc, a, r') \<Rightarrow> rc = 0 \<and> good r' \<and> fst (ex a) = 0 \<and> length (snd (ex a)) = n" if "good r" for r k
    using assms(1) [unfolded dh_ok_def, THEN conjunct1, THEN spec, THEN spec, THEN mp, OF that] .
  have A: "c1 = 0 \<and> good r1' \<and> d1 = 0 \<and> length pa = n" "c2 = 0 \<and> good r2' \<and> d2 = 0 \<and> length pb = n"
    using one [OF assms(2), of k1] one [OF assms(3), of k2] by (simp_all add: mk ex)
  have two: "let a = fst (snd (mk r1 k1)); b = fst (snd (mk r2 k2)); ia = im (snd (ex a)) j1; ib = im (snd (ex b)) j2;
      s = sh a (snd ib) in fst ia = 0 \<and> fst ib = 0 \<and> fst s = 0 \<and> length (snd s) = m \<and> sh b (snd ia) = s" for j1 j2
    using assms(1) [unfolded dh_ok_def, THEN conjunct2, rule_format, OF assms(2,3)] .
  have "\<exists>ia ib s. im pa j1 = (0, ia) \<and> im pb j2 = (0, ib) \<and> sh a ib = (0, s) \<and> sh b ia = (0, s) \<and> length s = m" for j1 j2
    using two [of j1 j2] by (simp add: mk ex Let_def) (metis prod.collapse)
  with A show thesis using that mk ex by blast
qed

lemma kem_run:
  assumes "kem_ok X good" "good r" "good r'"
  obtains a r1 p where
    "wc_MlKemKey_MakeKey X k r = (0, a, r1)" "good r1" "wc_MlKemKey_EncodePublicKey X a 1184 = (0, p)" "length p = 1184"
    "\<And>j. \<exists>b ct s r2. wc_MlKemKey_DecodePublicKey X j p = (0, b) \<and> wc_MlKemKey_Encapsulate X b r' = (0, ct, s, r2) \<and>
       good r2 \<and> length ct = 1088 \<and> length s = 32 \<and> wc_MlKemKey_Decapsulate X a ct = (0, s)"
proof -
  obtain c a r1 where mk: "wc_MlKemKey_MakeKey X k r = (c, a, r1)" by (metis prod.collapse)
  obtain d p where ex: "wc_MlKemKey_EncodePublicKey X a 1184 = (d, p)" by fastforce
  have "case wc_MlKemKey_MakeKey X k r of (rc, a, r') \<Rightarrow> rc = 0 \<and> good r' \<and>
        fst (wc_MlKemKey_EncodePublicKey X a 1184) = 0 \<and> length (snd (wc_MlKemKey_EncodePublicKey X a 1184)) = 1184"
    using assms(1) [unfolded kem_ok_def, THEN conjunct2, THEN conjunct1, rule_format, OF assms(2)] .
  then have A: "c = 0 \<and> good r1 \<and> d = 0 \<and> length p = 1184" by (simp add: mk ex)
  have two: "let a = fst (snd (wc_MlKemKey_MakeKey X k r));
       b = wc_MlKemKey_DecodePublicKey X j (snd (wc_MlKemKey_EncodePublicKey X a 1184))
     in fst b = 0 \<and> (case wc_MlKemKey_Encapsulate X (snd b) r' of (rc, ct, ss, r'') \<Rightarrow>
       rc = 0 \<and> good r'' \<and> length ct = 1088 \<and> length ss = 32 \<and> wc_MlKemKey_Decapsulate X a ct = (0, ss))" for j
    using assms(1) [unfolded kem_ok_def, THEN conjunct2, THEN conjunct2, rule_format, OF assms(2,3)] .
  have "\<exists>b ct s r2. wc_MlKemKey_DecodePublicKey X j p = (0, b) \<and> wc_MlKemKey_Encapsulate X b r' = (0, ct, s, r2) \<and>
       good r2 \<and> length ct = 1088 \<and> length s = 32 \<and> wc_MlKemKey_Decapsulate X a ct = (0, s)" for j
  proof -
    obtain rc b where b: "wc_MlKemKey_DecodePublicKey X j p = (rc, b)" by fastforce
    obtain e ct s r2 where en: "wc_MlKemKey_Encapsulate X b r' = (e, ct, s, r2)" by (metis prod.collapse)
    show ?thesis using two [of j] by (simp add: mk ex b en Let_def)
  qed
  with A show thesis using that mk ex by blast
qed

text \<open>Writing into an output buffer and reading the part that was written.\<close>

lemma take_put: "length src = n \<Longrightarrow> take n (mem_put buf 0 src) = src"
  by (simp add: mem_put_def)

lemma min_put: "length src = n \<Longrightarrow> min (length (mem_put buf 0 src)) n = n"
  by (simp add: mem_put_def)

lemma put2:
  assumes "length a = n" "length b = m" "n + m \<le> length buf"
  shows "take (n + m) (mem_put (mem_put buf 0 a) n b) = a @ b"
  using assms by (simp add: mem_put_def)

lemma slice_2: "length a = n \<Longrightarrow> slice 0 n (a @ b) = a" "length a = n \<Longrightarrow> length b = m \<Longrightarrow> slice n m (a @ b) = b"
  by (simp_all add: slice_def)

lemmas put_sizes = put2 [where n = 1184 and m = 32, simplified] put2 [where n = 1088 and m = 32, simplified]
  put2 [where n = 32 and m = 32, simplified]

lemma kexD:
  assumes "kex_ok X good"
  shows "kem_ok X good" "fst (wc_curve25519_init X) = 0" "fst (wc_ecc_init X) = 0"
    "dh_ok good (\<lambda>r k. wc_curve25519_make_key X r 32 k) (\<lambda>k. wc_curve25519_export_public_ex X k 32)
       (wc_curve25519_import_public_ex X) (\<lambda>a b. wc_curve25519_shared_secret_ex X a b 32) 32 32"
    "dh_ok good (ecc_make X) (\<lambda>k. wc_ecc_export_x963 X k 65)
       (\<lambda>p k. wc_ecc_import_x963_ex X p k ECC_SECP256R1) (\<lambda>a b. wc_ecc_shared_secret X a b 32) 65 32"
  using assms by (simp_all add: kex_ok_def)

text \<open>
  One exchange: the client generates its share, the server answers it, the client combines the
  answer. \<open>agrees\<close> says that this succeeds with the sizes of the group and one secret.
\<close>

definition agrees ::
  "build \<Rightarrow> ('k, 'r) kx_crypto \<Rightarrow> 'k keyshare \<Rightarrow> 'k keyshare \<Rightarrow> 'r \<Rightarrow> 'r \<Rightarrow> bytes \<Rightarrow> bytes \<Rightarrow> bytes \<Rightarrow> bytes \<Rightarrow> bool" where
  "agrees B X c s r1 r2 pub srv sec out \<longleftrightarrow>
     (\<exists>c' r1' pub' s' r2' srv' sec' out'.
        wn_KeyShare_Generate B X c r1 pub = (Inr (WN_DEFAULT_PUB_SZ B), c', r1', pub') \<and>
        wn_KeyShare_ServerShare B X s r2 (Some (take (WN_DEFAULT_PUB_SZ B) pub')) srv sec =
          (Inr (WN_DEFAULT_SRV_SHARE_SZ B, WN_DEFAULT_SECRET_SZ B), s', r2', srv', sec') \<and>
        wn_KeyShare_Shared B X c' (Some (take (WN_DEFAULT_SRV_SHARE_SZ B) srv')) out = (Inr (WN_DEFAULT_SECRET_SZ B), out') \<and>
        take (WN_DEFAULT_SECRET_SZ B) out' = take (WN_DEFAULT_SECRET_SZ B) sec')"

lemmas sizes = WN_DEFAULT_PUB_SZ_def WN_DEFAULT_SRV_SHARE_SZ_def WN_DEFAULT_SECRET_SZ_def

lemma agrees_x25519:
  assumes "kex_ok X good" "good r1" "good r2" "b_kex B = X25519"
    "ks_group c = WN_DEFAULT_GROUP B" "ks_group s = WN_DEFAULT_GROUP B"
  shows "agrees B X c s r1 r2 pub srv sec out"
proof -
  obtain i where i: "wc_curve25519_init X = (0, i)" using kexD(2) [OF assms(1)] by (cases "wc_curve25519_init X") simp
  obtain a r1' pa b r2' pb where
    A: "wc_curve25519_make_key X r1 32 (ks_key c) = (0, a, r1')" "wc_curve25519_export_public_ex X a 32 = (0, pa)" "length pa = 32"
      "wc_curve25519_make_key X r2 32 (ks_key s) = (0, b, r2')" "wc_curve25519_export_public_ex X b 32 = (0, pb)" "length pb = 32"
    and S: "\<And>j1 j2. \<exists>ia ib s. wc_curve25519_import_public_ex X pa j1 = (0, ia) \<and> wc_curve25519_import_public_ex X pb j2 = (0, ib) \<and>
      wc_curve25519_shared_secret_ex X a ib 32 = (0, s) \<and> wc_curve25519_shared_secret_ex X b ia 32 = (0, s) \<and> length s = 32"
    using dh_run [OF kexD(4) [OF assms(1)] assms(2,3), of "ks_key c" "ks_key s" thesis] by metis
  obtain ia ib z where Z: "wc_curve25519_import_public_ex X pa i = (0, ia)" "wc_curve25519_import_public_ex X pb i = (0, ib)"
      "wc_curve25519_shared_secret_ex X a ib 32 = (0, z)" "wc_curve25519_shared_secret_ex X b ia 32 = (0, z)" "length z = 32"
    using S by blast
  show ?thesis
    using assms(4-6) A Z i
    by (simp add: agrees_def wn_KeyShare_Generate_def wn_KeyShare_ServerShare_def wn_KeyShare_Shared_def sizes take_put min_put)
qed

lemma agrees_p256:
  assumes "kex_ok X good" "good r1" "good r2" "b_kex B = P256"
    "ks_group c = WN_DEFAULT_GROUP B" "ks_group s = WN_DEFAULT_GROUP B"
  shows "agrees B X c s r1 r2 pub srv sec out"
proof -
  obtain i where i: "wc_ecc_init X = (0, i)" using kexD(3) [OF assms(1)] by (cases "wc_ecc_init X") simp
  obtain a r1' pa b r2' pb where
    A: "ecc_make X r1 (ks_key c) = (0, a, r1')" "wc_ecc_export_x963 X a 65 = (0, pa)" "length pa = 65"
      "ecc_make X r2 (ks_key s) = (0, b, r2')" "wc_ecc_export_x963 X b 65 = (0, pb)" "length pb = 65"
    and S: "\<And>j1 j2. \<exists>ia ib s. wc_ecc_import_x963_ex X pa j1 ECC_SECP256R1 = (0, ia) \<and>
      wc_ecc_import_x963_ex X pb j2 ECC_SECP256R1 = (0, ib) \<and>
      wc_ecc_shared_secret X a ib 32 = (0, s) \<and> wc_ecc_shared_secret X b ia 32 = (0, s) \<and> length s = 32"
    using dh_run [OF kexD(5) [OF assms(1)] assms(2,3), of "ks_key c" "ks_key s" thesis] by metis
  have M: "\<exists>k1. wc_ecc_make_key_ex X r 32 k ECC_SECP256R1 = (0, k1, r') \<and> wc_ecc_set_rng X k1 r' = (0, x)"
    if "ecc_make X r k = (0, x, r')" for r k x r'
    using that by (auto simp: ecc_make_def split: prod.splits if_splits)
  obtain ia ib z where Z: "wc_ecc_import_x963_ex X pa i ECC_SECP256R1 = (0, ia)" "wc_ecc_import_x963_ex X pb i ECC_SECP256R1 = (0, ib)"
      "wc_ecc_shared_secret X a ib 32 = (0, z)" "wc_ecc_shared_secret X b ia 32 = (0, z)" "length z = 32"
    using S by blast
  obtain k1 k2 where K: "wc_ecc_make_key_ex X r1 32 (ks_key c) ECC_SECP256R1 = (0, k1, r1')" "wc_ecc_set_rng X k1 r1' = (0, a)"
      "wc_ecc_make_key_ex X r2 32 (ks_key s) ECC_SECP256R1 = (0, k2, r2')" "wc_ecc_set_rng X k2 r2' = (0, b)"
    using M [OF A(1)] M [OF A(4)] by blast
  show ?thesis
    using assms(4-6) A(2,3,5,6) Z K i
    by (simp add: agrees_def wn_KeyShare_Generate_def wn_KeyShare_ServerShare_def wn_KeyShare_Shared_def sizes take_put min_put)
qed

lemma agrees_hybrid:
  assumes "kex_ok X good" "good r1" "good r2" "b_kex B = Hybrid"
    "ks_group c = WN_DEFAULT_GROUP B" "ks_group s = WN_DEFAULT_GROUP B"
    "1216 \<le> length pub" "1120 \<le> length srv" "64 \<le> length sec" "64 \<le> length out"
  shows "agrees B X c s r1 r2 pub srv sec out"
proof -
  obtain i where i: "wc_curve25519_init X = (0, i)" using kexD(2) [OF assms(1)] by (cases "wc_curve25519_init X") simp
  obtain k0 where k0: "wc_MlKemKey_Init X = (0, k0)"
    using kexD(1) [OF assms(1)] by (cases "wc_MlKemKey_Init X") (simp add: kem_ok_def)
  obtain a q1 p where K: "wc_MlKemKey_MakeKey X k0 r1 = (0, a, q1)" "good q1" "wc_MlKemKey_EncodePublicKey X a 1184 = (0, p)"
      "length p = 1184"
    and En: "\<And>j. \<exists>b ct s r2'. wc_MlKemKey_DecodePublicKey X j p = (0, b) \<and> wc_MlKemKey_Encapsulate X b r2 = (0, ct, s, r2') \<and>
       good r2' \<and> length ct = 1088 \<and> length s = 32 \<and> wc_MlKemKey_Decapsulate X a ct = (0, s)"
    by (rule kem_run [OF kexD(1) [OF assms(1)] assms(2,3), of k0]) blast
  obtain b ct z q2 where E: "wc_MlKemKey_DecodePublicKey X k0 p = (0, b)" "wc_MlKemKey_Encapsulate X b r2 = (0, ct, z, q2)"
      "good q2" "length ct = 1088" "length z = 32" "wc_MlKemKey_Decapsulate X a ct = (0, z)"
    using En by blast
  obtain x q1' px y q2' py where
    A: "wc_curve25519_make_key X q1 32 i = (0, x, q1')" "wc_curve25519_export_public_ex X x 32 = (0, px)" "length px = 32"
      "wc_curve25519_make_key X q2 32 i = (0, y, q2')" "wc_curve25519_export_public_ex X y 32 = (0, py)" "length py = 32"
    and S: "\<And>j1 j2. \<exists>ia ib s. wc_curve25519_import_public_ex X px j1 = (0, ia) \<and> wc_curve25519_import_public_ex X py j2 = (0, ib) \<and>
      wc_curve25519_shared_secret_ex X x ib 32 = (0, s) \<and> wc_curve25519_shared_secret_ex X y ia 32 = (0, s) \<and> length s = 32"
    by (rule dh_run [OF kexD(4) [OF assms(1)] K(2) E(3), of i i]) blast
  obtain ia ib w where W: "wc_curve25519_import_public_ex X px i = (0, ia)" "wc_curve25519_import_public_ex X py i = (0, ib)"
      "wc_curve25519_shared_secret_ex X x ib 32 = (0, w)" "wc_curve25519_shared_secret_ex X y ia 32 = (0, w)" "length w = 32"
    using S by blast
  have P: "take 1216 (mem_put (mem_put pub 0 p) 1184 px) = p @ px" "take 1120 (mem_put (mem_put srv 0 ct) 1088 py) = ct @ py"
      "take 64 (mem_put (mem_put sec 0 z) 32 w) = z @ w" "take 64 (mem_put (mem_put out 0 z) 32 w) = z @ w"
    by (simp_all add: put_sizes K(4) A(3,6) E(4,5) W(5) assms(7-10))
  have "wn_Hybrid_ClientKeyShare X h r1 pub = (Inr 1216, h\<lparr>kem := a, kemInit := True, hx := x, xInit := True\<rparr>, q1',
      mem_put (mem_put pub 0 p) 1184 px)" for h
    using k0 K i A by (simp add: wn_Hybrid_ClientKeyShare_def)
  moreover have "wn_Hybrid_ServerRespond X (Some (p @ px)) r2 srv sec = (Inr (1120, 64), q2',
      mem_put (mem_put srv 0 ct) 1088 py, mem_put (mem_put sec 0 z) 32 w)"
    using k0 K(4) E i A W by (simp add: wn_Hybrid_ServerRespond_def slice_2)
  moreover have "wn_Hybrid_ClientShared X h (Some (ct @ py)) out = (Inr 64, mem_put (mem_put out 0 z) 32 w)"
    if "kem h = a" "hx h = x" for h
    using that E(4,6) i A(6) W by (simp add: wn_Hybrid_ClientShared_def slice_2)
  ultimately show ?thesis
    using assms(4-6)
    by (simp add: agrees_def wn_KeyShare_Generate_def wn_KeyShare_ServerShare_def wn_KeyShare_Shared_def sizes P)
qed

lemma Init_ok:
  assumes "kex_ok X good"
  shows "\<exists>ks'. wn_KeyShare_Init B X z ks (WN_DEFAULT_GROUP B) = (Inr (), ks') \<and> ks_group ks' = WN_DEFAULT_GROUP B"
  using kexD(2,3) [OF assms] by (cases "b_kex B") (auto simp: wn_KeyShare_Init_def split: prod.split)

lemma agrees_any:
  assumes "kex_ok X good" "good r1" "good r2" "ks_group c = WN_DEFAULT_GROUP B" "ks_group s = WN_DEFAULT_GROUP B"
    "WN_DEFAULT_PUB_SZ B \<le> length pub" "WN_DEFAULT_SRV_SHARE_SZ B \<le> length srv"
    "WN_DEFAULT_SECRET_SZ B \<le> length sec" "WN_DEFAULT_SECRET_SZ B \<le> length out"
  shows "agrees B X c s r1 r2 pub srv sec out"
  using agrees_x25519 [OF assms(1-3)] agrees_p256 [OF assms(1-3)] agrees_hybrid [OF assms(1-3)] assms(4-9)
  by (cases "b_kex B") (simp_all add: sizes)

text \<open>A share that is accepted has the size of the group.\<close>

lemma accepted_sizes:
  "wn_KeyShare_Shared B X ks (Some p) out = (Inr n, out') \<Longrightarrow> length p = WN_DEFAULT_SRV_SHARE_SZ B"
  "wn_KeyShare_ServerShare B X ks rng (Some p) srv sec = (Inr m, ks', rng', srv', sec') \<Longrightarrow> length p = WN_DEFAULT_PUB_SZ B"
proof -
  show *: "wn_KeyShare_Shared B X ks (Some p) out = (Inr n, out') \<Longrightarrow> length p = WN_DEFAULT_SRV_SHARE_SZ B" for ks out n out'
    by (cases "b_kex B") (auto simp: wn_KeyShare_Shared_def wn_Hybrid_ClientShared_def sizes split: if_splits)
  show "wn_KeyShare_ServerShare B X ks rng (Some p) srv sec = (Inr m, ks', rng', srv', sec') \<Longrightarrow> length p = WN_DEFAULT_PUB_SZ B"
  proof (cases "b_kex B = Hybrid")
    case True
    then show "wn_KeyShare_ServerShare B X ks rng (Some p) srv sec = (Inr m, ks', rng', srv', sec') \<Longrightarrow> length p = WN_DEFAULT_PUB_SZ B"
      by (auto simp: wn_KeyShare_ServerShare_def wn_Hybrid_ServerRespond_def sizes split: if_splits prod.splits)
  next
    case False
    then have "WN_DEFAULT_PUB_SZ B = WN_DEFAULT_SRV_SHARE_SZ B" by (cases "b_kex B") (simp_all add: sizes)
    then show "wn_KeyShare_ServerShare B X ks rng (Some p) srv sec = (Inr m, ks', rng', srv', sec') \<Longrightarrow> length p = WN_DEFAULT_PUB_SZ B"
      using False * by (auto simp: wn_KeyShare_ServerShare_def split: prod.splits sum.splits)
  qed
qed

subsection \<open>Properties\<close>

text \<open>C9. Whatever group the build has, a client and a server key share agree: both can be initialised for
  the default group, the client's public share has the group's size, the server answers it with a
  share of the group's size, and the secret the client computes from that answer is the one the
  server computed.\<close>

theorem key_agreement:
  assumes "kex_ok X good" "good r1" "good r2"
    "WN_DEFAULT_PUB_SZ B \<le> length pub" "WN_DEFAULT_SRV_SHARE_SZ B \<le> length srv"
    "WN_DEFAULT_SECRET_SZ B \<le> length sec" "WN_DEFAULT_SECRET_SZ B \<le> length out"
  shows "\<exists>c s. wn_KeyShare_Init B X z c0 (WN_DEFAULT_GROUP B) = (Inr (), c) \<and>
    wn_KeyShare_Init B X z s0 (WN_DEFAULT_GROUP B) = (Inr (), s) \<and>
    (\<exists>c' r1' pub' s' r2' srv' sec' out'.
        wn_KeyShare_Generate B X c r1 pub = (Inr (WN_DEFAULT_PUB_SZ B), c', r1', pub') \<and>
        wn_KeyShare_ServerShare B X s r2 (Some (take (WN_DEFAULT_PUB_SZ B) pub')) srv sec =
          (Inr (WN_DEFAULT_SRV_SHARE_SZ B, WN_DEFAULT_SECRET_SZ B), s', r2', srv', sec') \<and>
        wn_KeyShare_Shared B X c' (Some (take (WN_DEFAULT_SRV_SHARE_SZ B) srv')) out = (Inr (WN_DEFAULT_SECRET_SZ B), out') \<and>
        take (WN_DEFAULT_SECRET_SZ B) out' = take (WN_DEFAULT_SECRET_SZ B) sec')"
proof -
  obtain c s where I: "wn_KeyShare_Init B X z c0 (WN_DEFAULT_GROUP B) = (Inr (), c)" "ks_group c = WN_DEFAULT_GROUP B"
      "wn_KeyShare_Init B X z s0 (WN_DEFAULT_GROUP B) = (Inr (), s)" "ks_group s = WN_DEFAULT_GROUP B"
    using Init_ok [OF assms(1)] by metis
  have "agrees B X c s r1 r2 pub srv sec out"
    by (rule agrees_any [OF assms(1-3) I(2,4) assms(4-7)])
  then show ?thesis unfolding agrees_def using I by blast
qed

definition hybrid_build :: build where
  "hybrid_build = toy_build\<lparr>b_kex := Hybrid\<rparr>"

definition no_hybrid :: "bytes hybrid" where
  "no_hybrid = \<lparr>kem = [], hx = [], kemInit = False, xInit = False\<rparr>"

theorem key_agreement_witness:
  "\<exists>c s c' r1' pub' s' r2' srv' sec' out'.
    wn_KeyShare_Init hybrid_build toy_kx no_hybrid \<lparr>ks_hybrid = no_hybrid, ks_key = [], ks_group = 0\<rparr> 0x11ec = (Inr (), c) \<and>
    wn_KeyShare_Init hybrid_build toy_kx no_hybrid \<lparr>ks_hybrid = no_hybrid, ks_key = [], ks_group = 0\<rparr> 0x11ec = (Inr (), s) \<and>
    wn_KeyShare_Generate hybrid_build toy_kx c 1 (replicate 1216 0) = (Inr 1216, c', r1', pub') \<and>
    wn_KeyShare_ServerShare hybrid_build toy_kx s 9 (Some (take 1216 pub')) (replicate 1216 0) (replicate 64 0) =
      (Inr (1120, 64), s', r2', srv', sec') \<and>
    wn_KeyShare_Shared hybrid_build toy_kx c' (Some (take 1120 srv')) (replicate 64 0) = (Inr 64, out') \<and>
    take 64 out' = take 64 sec'"
  using key_agreement [OF toy_kex_ok, where ?r1.0 = 1 and ?r2.0 = 9 and B = hybrid_build and pub = "replicate 1216 0" and
      srv = "replicate 1216 0" and sec = "replicate 64 0" and out = "replicate 64 0" and z = no_hybrid and
      ?c0.0 = "\<lparr>ks_hybrid = no_hybrid, ks_key = [], ks_group = 0\<rparr>" and ?s0.0 = "\<lparr>ks_hybrid = no_hybrid, ks_key = [], ks_group = 0\<rparr>"]
  by (simp add: hybrid_build_def toy_build_def sizes WN_DEFAULT_GROUP_def)

lemma zero_out_take: "take 64 (zero_out ss) = replicate 64 0"
  by (simp add: zero_out_def mem_put_def)

lemma ClientShared_cases:
  "case wn_Hybrid_ClientShared X h srvShare ss of
      (Inl e, ss') \<Rightarrow> e \<in> {E_INVALID_ARG, E_CRYPTO} \<and> take 64 ss' = replicate 64 0
    | (Inr n, ss') \<Rightarrow> n = 64 \<and> srvShare \<noteq> None"
  by (simp add: wn_Hybrid_ClientShared_def zero_out_take Let_def split: prod.split)

lemma ServerRespond_cases:
   "case wn_Hybrid_ServerRespond X cliShare rng srv ss of
      (Inl e, rng', srv', ss') \<Rightarrow> e \<in> {E_INVALID_ARG, E_CRYPTO} \<and> take 64 ss' = replicate 64 0
    | (Inr (n, m), rng', srv', ss') \<Rightarrow> n = 1120 \<and> m = 64 \<and> cliShare \<noteq> None"
  unfolding wn_Hybrid_ServerRespond_def Let_def case_prod_beta
  by (simp add: zero_out_take)

text \<open>C40. The hybrid exchange leaves no partial secret: when the client or the server side fails, at whatever
  step, the whole 64-octet secret buffer is zero; when it succeeds the lengths are those of the group.\<close>

theorem hybrid_no_partial_secret:
  "(case wn_Hybrid_ClientShared X h srvShare ss of
      (Inl e, ss') \<Rightarrow> e \<in> {E_INVALID_ARG, E_CRYPTO} \<and> take 64 ss' = replicate 64 0
    | (Inr n, ss') \<Rightarrow> n = 64 \<and> srvShare \<noteq> None) \<and>
   (case wn_Hybrid_ServerRespond X cliShare rng srv ss of
      (Inl e, rng', srv', ss') \<Rightarrow> e \<in> {E_INVALID_ARG, E_CRYPTO} \<and> take 64 ss' = replicate 64 0
    | (Inr (n, m), rng', srv', ss') \<Rightarrow> n = 1120 \<and> m = 64 \<and> cliShare \<noteq> None)"
  by (rule conjI [OF ClientShared_cases ServerRespond_cases])

end
