(* ===== verification/ClientConnect.thy ===== *)
theory ClientConnect
  imports ClientFlight KeyShare ClientHello Errors
begin

section \<open>The client drivers (wn_connect.c)\<close>

text \<open>
  \<open>wn_Connect_Cert\<close> and its variants: ClientHello, ServerHello, the handshake keys, the
  server's encrypted flight, the client's Finished and the session. A driver takes the
  transport, the provider records and the caller's scratch buffer, which the code partitions
  into record I/O, reassembly buffer and leaf key, and returns the C status with the session,
  the random generator, the world and the scratch buffer. \<open>None\<close> is a call that never
  returns, because the peer keeps sending records that make no progress.
\<close>

subsection \<open>Static helpers\<close>

definition send_plain_record :: "'w io_send \<Rightarrow> 'w \<Rightarrow> byte \<Rightarrow> bytes \<Rightarrow> (wn_err + unit) \<times> 'w" where
  "send_plain_record send w t body =
     (let bodyLen = length body; hdr = [t, 3, 3, of_nat (bodyLen div 256), of_nat bodyLen] in
      case send w hdr of (r, w1) \<Rightarrow>
        if r \<noteq> 5 then (Inl E_CRYPTO, w1)
        else case send w1 body of (r2, w2) \<Rightarrow>
          (if nat (r2 mod 4294967296) \<noteq> bodyLen then Inl E_CRYPTO else Inr (), w2))"

definition send_ccs :: "'w io_send \<Rightarrow> 'w \<Rightarrow> (wn_err + unit) \<times> 'w" where
  "send_ccs send w = send_plain_record send w 20 [1]"

text \<open>Best effort: a failure to protect or to send the alert is ignored.\<close>

definition wn_SendAlert :: "'x crypto \<Rightarrow> 'w io_send \<Rightarrow> 'w \<Rightarrow> bytes \<Rightarrow> bytes \<Rightarrow> word64 \<Rightarrow> int \<Rightarrow> 'w" where
  "wn_SendAlert C send w key iv sq ret =
     (case wn_Record_Protect C (replicate 24 0) (Some key) (Some iv) sq 21 (Some [2, wn_ErrToAlert ret]) of
        (Inl _, _) \<Rightarrow> w
      | (Inr recLen, rec) \<Rightarrow> snd (send w (take recLen rec)))"

text \<open>The client's own copies of the key derivations.\<close>

definition client_DeriveHsKeys ::
  "'x crypto \<Rightarrow> hs_keys \<Rightarrow> bytes \<Rightarrow> bytes \<Rightarrow> bytes \<Rightarrow> bytes \<Rightarrow> int \<times> hs_keys" where
  "client_DeriveHsKeys C k early ecdhe emptyHash th =
     (case wn_Tls13_DeriveSecret C stack32 (Some early) ''derived'' (Some emptyHash) 32 WC_SHA256 of (r1, derived) \<Rightarrow>
      case wn_Tls13_Extract C (hk_hs k) derived (Some ecdhe) WC_SHA256 of (r2, hs) \<Rightarrow>
      case wn_Tls13_DeriveSecret C (hk_cHs k) (Some hs) ''c hs traffic'' (Some th) 32 WC_SHA256 of (r3, cHs) \<Rightarrow>
      case wn_Tls13_DeriveSecret C (hk_sHs k) (Some hs) ''s hs traffic'' (Some th) 32 WC_SHA256 of (r4, sHs) \<Rightarrow>
      case wn_Tls13_ExpandLabel C (hk_cKey k) 16 (Some cHs) ''key'' None 0 WC_SHA256 of (r5, ck) \<Rightarrow>
      case wn_Tls13_ExpandLabel C (hk_cIv k) 12 (Some cHs) ''iv'' None 0 WC_SHA256 of (r6, ci) \<Rightarrow>
      case wn_Tls13_ExpandLabel C (hk_sKey k) 16 (Some sHs) ''key'' None 0 WC_SHA256 of (r7, sk) \<Rightarrow>
      case wn_Tls13_ExpandLabel C (hk_sIv k) 12 (Some sHs) ''iv'' None 0 WC_SHA256 of (r8, si) \<Rightarrow>
        (r1 OR r2 OR r3 OR r4 OR r5 OR r6 OR r7 OR r8,
         \<lparr>hk_hs = hs, hk_cHs = cHs, hk_sHs = sHs, hk_cKey = ck, hk_cIv = ci, hk_sKey = sk, hk_sIv = si\<rparr>))"

definition client_SessionEstablish ::
  "'x crypto \<Rightarrow> 'w session \<Rightarrow> bytes \<Rightarrow> bytes \<Rightarrow> bytes \<Rightarrow> bytes \<Rightarrow> 'w io_send option \<Rightarrow> 'w io_recv option \<Rightarrow>
   bytes \<Rightarrow> nat \<Rightarrow> int \<times> 'w session" where
  "client_SessionEstablish C sess hs emptyHash zeros th send recv scr scrLen =
     (case wn_Tls13_DeriveSecret C stack32 (Some hs) ''derived'' (Some emptyHash) 32 WC_SHA256 of (r1, derived) \<Rightarrow>
      case wn_Tls13_Extract C stack32 derived (Some zeros) WC_SHA256 of (r2, master) \<Rightarrow>
      case wn_Tls13_DeriveSecret C (cAppSecret sess) (Some master) ''c ap traffic'' (Some th) 32 WC_SHA256 of (r3, cApp) \<Rightarrow>
      case wn_Tls13_DeriveSecret C (sAppSecret sess) (Some master) ''s ap traffic'' (Some th) 32 WC_SHA256 of (r4, sApp) \<Rightarrow>
      case wn_Tls13_ExpandLabel C (cKey sess) 16 (Some cApp) ''key'' None 0 WC_SHA256 of (r5, ck) \<Rightarrow>
      case wn_Tls13_ExpandLabel C (cIv sess) 12 (Some cApp) ''iv'' None 0 WC_SHA256 of (r6, ci) \<Rightarrow>
      case wn_Tls13_ExpandLabel C (sKey sess) 16 (Some sApp) ''key'' None 0 WC_SHA256 of (r7, sk) \<Rightarrow>
      case wn_Tls13_ExpandLabel C (sIv sess) 12 (Some sApp) ''iv'' None 0 WC_SHA256 of (r8, si) \<Rightarrow>
        let ret = r1 OR r2 OR r3 OR r4 OR r5 OR r6 OR r7 OR r8;
            sess1 = sess\<lparr>cAppSecret := cApp, sAppSecret := sApp, cKey := ck, cIv := ci, sKey := sk, sIv := si\<rparr> in
        (ret,
         if ret = WOLFNANO_SUCCESS
         then sess1\<lparr>ioSend := send, ioRecv := recv, scratch := scr, scratchLen := scrLen,
                     cSeq := 0, sSeq := 0, sdigest := WC_SHA256, sflags := 1\<rparr>
         else sess1))"

lemma client_copies:
  "send_plain_record = wn_SendPlainRecord" "send_ccs = wn_SendCcs" "client_DeriveHsKeys = wn_DeriveHsKeys"
  "client_SessionEstablish C = wn_SessionEstablish C Client"
  by (intro ext; simp add: send_plain_record_def wn_SendPlainRecord_def send_ccs_def wn_SendCcs_def
      client_DeriveHsKeys_def wn_DeriveHsKeys_def client_SessionEstablish_def wn_SessionEstablish_def)+

subsection \<open>ClientHello\<close>

record ('x, 'k) hello_out =
  ho_tc :: "'x transcript"
  ho_ks :: "'k keyshare"
  ho_sid :: bytes
  ho_emptyHash :: bytes

text \<open>
  \<open>tc0\<close> and \<open>ks0\<close> are the local transcript and the zeroed key share before they are
  initialised.
\<close>

definition cert_client_hello ::
  "build \<Rightarrow> 'x crypto \<Rightarrow> ('k, 'r) kx_crypto \<Rightarrow> 'x transcript \<Rightarrow> 'k keyshare \<Rightarrow> 'r \<Rightarrow> 'w io_send \<Rightarrow> 'w \<Rightarrow> bytes \<Rightarrow> bytes option \<Rightarrow>
   (int \<times> 'r \<times> 'w \<times> bytes) + ('x, 'k) hello_out \<times> 'r \<times> 'w \<times> bytes" where
  "cert_client_hello B C X tc0 ks0 rng send w scr serverName =
     (case wc_Sha256Hash C [] of (r1, emptyHash) \<Rightarrow>
      bindE (atE (rng, w, scr) (crypt r1)) (\<lambda>_.
      case wc_RNG_GenerateBlock X rng 32 of (r2, random32, rng1) \<Rightarrow>
      bindE (atE (rng1, w, scr) (crypt r2)) (\<lambda>_.
      case wc_RNG_GenerateBlock X rng1 32 of (r3, sid, rng2) \<Rightarrow>
      bindE (atE (rng2, w, scr) (crypt r3)) (\<lambda>_.
      case wn_KeyShare_Init B X (ks_hybrid ks0) ks0 (WN_DEFAULT_GROUP B) of (r4, ks1) \<Rightarrow>
      bindE (atE (rng2, w, scr) (codeE r4)) (\<lambda>_.
      case wn_KeyShare_Generate B X ks1 rng2 (replicate (WN_DEFAULT_PUB_SZ B) 0) of (r5, ks2, rng3, pub) \<Rightarrow>
      bindE (atE (rng3, w, scr) (codeE r5)) (\<lambda>pubLen.
      bindE (atE (rng3, w, scr) (okI (wn_Transcript_Init C tc0 WC_SHA256))) (\<lambda>tc1.
      case wn_ClientHello_Build_ex B scr (Some random32) sid (Some (take pubLen pub)) serverName of (r6, scr1) \<Rightarrow>
      bindE (atE (rng3, w, scr1) (codeE r6)) (\<lambda>chLen.
      bindE (atE (rng3, w, scr1) (okI (wn_Transcript_Update C tc1 (Some scr1) chLen))) (\<lambda>tc2.
      case send_plain_record send w 22 (take chLen scr1) of (r7, w1) \<Rightarrow>
      bindE (atE (rng3, w1, scr1) (codeE r7)) (\<lambda>_.
      case send_ccs send w1 of (r8, w2) \<Rightarrow>
      bindE (atE (rng3, w2, scr1) (codeE r8)) (\<lambda>_.
        Inr (\<lparr>ho_tc = tc2, ho_ks = ks2, ho_sid = sid, ho_emptyHash = emptyHash\<rparr>, rng3, w2, scr1))))))))))))"

subsection \<open>ServerHello\<close>

text \<open>The first record that is no ChangeCipherSpec.\<close>

partial_function (option) recv_hello ::
  "'w io_recv \<Rightarrow> bytes \<Rightarrow> 'w \<Rightarrow> ((wn_err + byte \<times> nat) \<times> bytes \<times> 'w) option" where
  "recv_hello recv io w =
     (case wn_RecvRecord recv w io (length io) of
        (Inl e, io', w') \<Rightarrow> Some (Inl e, io', w')
      | (Inr (rtype, recLen), io', w') \<Rightarrow>
          if rtype = 20 then recv_hello recv io' w' else Some (Inr (rtype, recLen), io', w'))"

text \<open>
  The checks on the ServerHello and the shared secret; \<open>psk\<close> is the only identity index the
  caller offered, \<open>-1\<close> for none.
\<close>

definition sh_acceptable :: "build \<Rightarrow> bytes \<Rightarrow> int \<Rightarrow> bytes \<Rightarrow> server_hello \<Rightarrow> bool" where
  "sh_acceptable B sid psk msg sh \<longleftrightarrow>
     sh_keyShare sh \<noteq> None \<and> sh_keyShareLen sh = WN_DEFAULT_SRV_SHARE_SZ B \<and> sh_cipher sh = 0x1301 \<and>
     sh_version sh = 0x0304 \<and> sh_group sh = WN_DEFAULT_GROUP B \<and> sh_pskSelected sh = psk \<and>
     sh_sessionIdLen sh = 32 \<and> sh_sessionId sh \<noteq> None \<and> slice (the (sh_sessionId sh)) 32 msg = sid"

definition on_server_hello ::
  "build \<Rightarrow> 'x crypto \<Rightarrow> ('k, 'r) kx_crypto \<Rightarrow> ('x, 'k) hello_out \<Rightarrow> int \<Rightarrow> wn_err + byte \<times> nat \<Rightarrow> bytes \<Rightarrow>
   int + 'x transcript \<times> bytes" where
  "on_server_hello B C X ho psk rec io =
     bindE (codeE rec) (\<lambda>(rtype, recLen).
     bindE (guardE (rtype = 22) (err_code E_UNEXPECTED_MSG)) (\<lambda>_.
     let msg = slice 5 (recLen - 5) io in
     bindE (codeE (wn_ServerHello_Parse (Some msg))) (\<lambda>sh.
     bindE (guardE (\<not> sh_isHelloRetry sh) (err_code E_UNSUPPORTED)) (\<lambda>_.
     bindE (okI (wn_Transcript_Update C (ho_tc ho) (Some msg) (length msg))) (\<lambda>tc.
     bindE (guardE (sh_acceptable B (ho_sid ho) psk msg sh) (err_code E_ILLEGAL_PARAM)) (\<lambda>_.
     case wn_KeyShare_Shared B X (ho_ks ho)
            (Some (slice (the (sh_keyShare sh)) (sh_keyShareLen sh) msg)) (replicate (WN_DEFAULT_SECRET_SZ B) 0) of
       (r, ecdhe) \<Rightarrow> bindE (codeE r) (\<lambda>ssLen. Inr (tc, take ssLen ecdhe))))))))"

text \<open>The handshake keys; the statuses are joined with \<open>|=\<close>.\<close>

definition cert_hs_keys :: "'x crypto \<Rightarrow> 'x transcript \<Rightarrow> bytes \<Rightarrow> bytes \<Rightarrow> int \<times> hs_keys" where
  "cert_hs_keys C tc ecdhe emptyHash =
     (case wn_Transcript_GetHash C tc stack32 32 of (r1, th, _) \<Rightarrow>
      case wn_Tls13_Extract C stack32 [] (Some (replicate 32 0)) WC_SHA256 of (r2, early) \<Rightarrow>
      case client_DeriveHsKeys C stack_keys early ecdhe emptyHash th of (r3, k) \<Rightarrow> (r1 OR r2 OR r3, k))"

subsection \<open>The server's flight\<close>

text \<open>The loop variables: the three regions of the scratch buffer are separate buffers here.\<close>

record ('x, 'w) flight_vars =
  fl_io :: bytes
  fl_acc :: bytes
  fl_accLen :: nat
  fl_off :: nat
  fl_seq :: word64
  fl_st :: "'x flight_st"
  fl_w :: 'w

text \<open>One record: it is decrypted in place, appended to the reassembly buffer and taken apart.\<close>

definition flight_record ::
  "build \<Rightarrow> 'x crypto \<Rightarrow> 'p pk_crypto \<Rightarrow> cert_params \<Rightarrow> hs_keys \<Rightarrow> 'w io_recv \<Rightarrow> ('x, 'w) flight_vars \<Rightarrow>
   (int + unit) \<times> ('x, 'w) flight_vars" where
  "flight_record B C P cp k recv L =
     (case wn_RecvRecord recv (fl_w L) (fl_io L) (length (fl_io L)) of
        (Inl e, io, w) \<Rightarrow> (Inl (err_code e), L\<lparr>fl_io := io, fl_w := w\<rparr>)
      | (Inr (rtype, recLen), io, w) \<Rightarrow>
          let L1 = L\<lparr>fl_io := io, fl_w := w\<rparr> in
          if rtype = 20 then (Inr (), L1)
          else if rtype \<noteq> 23 then (Inl (err_code E_UNEXPECTED_MSG), L1)
          else case wn_Record_Unprotect C (Some (hk_sKey k)) (Some (hk_sIv k)) (fl_seq L) (Some (take recLen io)) of
            (res, content) \<Rightarrow>
              let io2 = mem_put io 5 content; L2 = L1\<lparr>fl_io := io2, fl_seq := fl_seq L + 1\<rparr> in
              case res of Inl e \<Rightarrow> (Inl (err_code e), L2)
              | Inr (plainLen, ctype) \<Rightarrow>
                  if ctype \<noteq> 22 then (Inl (err_code E_UNEXPECTED_MSG), L2)
                  else if fl_accLen L + plainLen > length (fl_acc L) then (Inl (err_code E_DECODE), L2)
                  else
                    let acc = mem_put (fl_acc L) (fl_accLen L) (slice 5 plainLen io2); accLen = fl_accLen L + plainLen;
                        L3 = L2\<lparr>fl_acc := acc, fl_accLen := accLen\<rparr>
                    in case flight_messages B C P cp (hk_sHs k) acc accLen (fl_off L) (fl_st L) of
                        (Inl e, off) \<Rightarrow> (Inl e, L3\<lparr>fl_off := off\<rparr>)
                      | (Inr st, off) \<Rightarrow> (Inr (), L3\<lparr>fl_off := off, fl_st := st\<rparr>))"

partial_function (option) flight_loop ::
  "build \<Rightarrow> 'x crypto \<Rightarrow> 'p pk_crypto \<Rightarrow> cert_params \<Rightarrow> hs_keys \<Rightarrow> 'w io_recv \<Rightarrow> ('x, 'w) flight_vars \<Rightarrow>
   ((int + unit) \<times> ('x, 'w) flight_vars) option" where
  "flight_loop B C P cp k recv L =
     (if ft_done (fl_st L) then Some (Inr (), L)
      else case flight_record B C P cp k recv L of
          (Inl e, L') \<Rightarrow> Some (Inl e, L')
        | (Inr _, L') \<Rightarrow> flight_loop B C P cp k recv L')"

subsection \<open>The client's Finished and the session\<close>

text \<open>The result is the status with the session, the record buffer and the world.\<close>

definition client_finish ::
  "'x crypto \<Rightarrow> 'x transcript \<Rightarrow> hs_keys \<Rightarrow> bytes \<Rightarrow> 'w io_send \<Rightarrow> 'w io_recv \<Rightarrow> bytes \<Rightarrow> (bytes \<Rightarrow> bytes) \<Rightarrow> 'w \<Rightarrow>
   int \<times> 'w session \<times> bytes \<times> 'w" where
  "client_finish C tc k emptyHash send recv io scr w =
     (case wn_Transcript_GetHash C tc stack32 32 of (r1, th, _) \<Rightarrow>
      if r1 \<noteq> WOLFNANO_SUCCESS then (r1, session_zero, io, w)
      else case wn_Tls13_FinishedMac C stack32 (Some (hk_cHs k)) (Some th) 32 WC_SHA256 of (r2, mac) \<Rightarrow>
      if r2 \<noteq> WOLFNANO_SUCCESS then (r2, session_zero, io, w)
      else case wn_Record_Protect C io (Some (hk_cKey k)) (Some (hk_cIv k)) 0 22 (Some ([20, 0, 0, 32] @ take 32 mac)) of
          (Inl e, io1) \<Rightarrow> (err_code e, session_zero, io1, w)
        | (Inr recLen, io1) \<Rightarrow>
            case send w (take recLen io1) of (n, w1) \<Rightarrow>
            if n \<noteq> int recLen then (err_code E_CRYPTO, session_zero, io1, w1)
            else case client_SessionEstablish C session_zero (hk_hs k) emptyHash (replicate 32 0) th (Some send) (Some recv)
                        (scr io1) (length (scr io1)) of
                (r3, sess) \<Rightarrow> (r3, sess, io1, w1))"

subsection \<open>The certificate driver\<close>

text \<open>
  With \<^verbatim>\<open>WOLFNANO_SEND_ALERTS\<close> an error after the keys are there is reported to the peer; the
  client's sequence number is 1 once the Finished was built. On every way out the decrypted
  flight is wiped from the reassembly buffer. The session's scratch buffer is the caller's,
  as it is when the call returns; what a failing flight left in the region for the leaf's public
  key is not kept track of.
\<close>

definition flight_begin :: "'x transcript \<Rightarrow> bytes \<Rightarrow> bytes \<Rightarrow> bytes \<Rightarrow> 'w \<Rightarrow> ('x, 'w) flight_vars" where
  "flight_begin tc io acc leaf w =
     \<lparr>fl_io = io, fl_acc = acc, fl_accLen = 0, fl_off = 0, fl_seq = 0,
      fl_st = \<lparr>ft_tc = tc, ft_order = flight_init, ft_th = stack32, ft_thCert = stack32,
               ft_leaf = leaf, ft_spkiLen = 0, ft_done = False\<rparr>, fl_w = w\<rparr>"

definition finish_built :: "'x crypto \<Rightarrow> 'x transcript \<Rightarrow> hs_keys \<Rightarrow> bool" where
  "finish_built C tc k =
     (case wn_Transcript_GetHash C tc stack32 32 of (r1, th, _) \<Rightarrow>
        r1 = WOLFNANO_SUCCESS \<and>
        fst (wn_Tls13_FinishedMac C stack32 (Some (hk_cHs k)) (Some th) 32 WC_SHA256) = WOLFNANO_SUCCESS)"

definition alert_on ::
  "build \<Rightarrow> 'x crypto \<Rightarrow> 'w io_send \<Rightarrow> hs_keys \<Rightarrow> word64 \<Rightarrow> int \<Rightarrow> 'w \<Rightarrow> 'w" where
  "alert_on B C send k cHsSeq ret w =
     (if send_alerts B \<and> ret < 0 then wn_SendAlert C send w (hk_cKey k) (hk_cIv k) cHsSeq ret else w)"

definition wn_connect_cert_impl ::
  "build \<Rightarrow> 'x crypto \<Rightarrow> 'p pk_crypto \<Rightarrow> ('k, 'r) kx_crypto \<Rightarrow> 'x transcript \<Rightarrow> 'k keyshare \<Rightarrow>
   'w session \<Rightarrow> 'r \<Rightarrow> 'w io_send option \<Rightarrow> 'w io_recv option \<Rightarrow> 'w \<Rightarrow> bytes option \<Rightarrow> bytes \<Rightarrow> bytes option \<Rightarrow>
   bytes option \<Rightarrow> int \<Rightarrow> (int \<times> 'w session \<times> 'r \<times> 'w \<times> bytes) option" where
  "wn_connect_cert_impl B C P X tc0 ks0 sess rng ioS ioR w anchor scr serverName pinnedKey now =
     (if ioS = None \<or> ioR = None \<or> anchor = None \<or> length scr < WN_CERT_SCRATCH_MIN B
      then Some (err_code E_INVALID_ARG, sess, rng, w, scr)
      else
        let send = the ioS; recv = the ioR; ioCap = length scr - (WN_HS_ACC_SZ B + WN_LEAF_SPKI_SZ B);
            cp = \<lparr>cp_anchor = the anchor, cp_name = serverName, cp_pin = pinnedKey, cp_now = now\<rparr> in
        case cert_client_hello B C X tc0 ks0 rng send w scr serverName of
          Inl (e, rng1, w1, scr1) \<Rightarrow> Some (e, session_zero, rng1, w1, scr1)
        | Inr (ho, rng1, w1, scr1) \<Rightarrow>
            let acc = slice ioCap (WN_HS_ACC_SZ B) scr1; leaf = drop (ioCap + WN_HS_ACC_SZ B) scr1 in
            (case recv_hello recv (take ioCap scr1) w1 of None \<Rightarrow> None
             | Some (rec, io2, w2) \<Rightarrow>
               (case on_server_hello B C X ho (-1) rec io2 of
                  Inl e \<Rightarrow> Some (e, session_zero, rng1, w2, io2 @ acc @ leaf)
                | Inr (tc, ecdhe) \<Rightarrow>
                    (case cert_hs_keys C tc ecdhe (ho_emptyHash ho) of (r, k) \<Rightarrow>
                     if r \<noteq> WOLFNANO_SUCCESS then Some (r, session_zero, rng1, w2, io2 @ acc @ leaf)
                     else
                       (case flight_loop B C P cp k recv (flight_begin tc io2 acc leaf w2) of
                          None \<Rightarrow> None
                        | Some (res, L) \<Rightarrow>
                            let wiped = (\<lambda>io. io @ mem_put (fl_acc L) 0 (replicate (fl_accLen L) 0) @ ft_leaf (fl_st L)) in
                            (case res of
                               Inl e \<Rightarrow> Some (e, session_zero, rng1, alert_on B C send k 0 e (fl_w L), wiped (fl_io L))
                             | Inr _ \<Rightarrow>
                                 (case client_finish C (ft_tc (fl_st L)) k (ho_emptyHash ho) send recv (fl_io L) wiped (fl_w L) of
                                    (ret, sess1, io3, w3) \<Rightarrow>
                                      Some (ret, sess1, rng1,
                                            alert_on B C send k (if finish_built C (ft_tc (fl_st L)) k then 1 else 0) ret w3,
                                            wiped io3))))))))"

definition wn_Connect_Cert_ex ::
  "build \<Rightarrow> 'x crypto \<Rightarrow> 'p pk_crypto \<Rightarrow> ('k, 'r) kx_crypto \<Rightarrow> 'x transcript \<Rightarrow> 'k keyshare \<Rightarrow>
   'w session \<Rightarrow> 'r \<Rightarrow> 'w io_send option \<Rightarrow> 'w io_recv option \<Rightarrow> 'w \<Rightarrow> bytes option \<Rightarrow> bytes \<Rightarrow> int \<Rightarrow>
   (int \<times> 'w session \<times> 'r \<times> 'w \<times> bytes) option" where
  "wn_Connect_Cert_ex B C P X tc0 ks0 sess rng ioS ioR w anchor scr now =
     wn_connect_cert_impl B C P X tc0 ks0 sess rng ioS ioR w anchor scr None None now"

definition wn_Connect_CertName_ex ::
  "build \<Rightarrow> 'x crypto \<Rightarrow> 'p pk_crypto \<Rightarrow> ('k, 'r) kx_crypto \<Rightarrow> 'x transcript \<Rightarrow> 'k keyshare \<Rightarrow>
   'w session \<Rightarrow> 'r \<Rightarrow> 'w io_send option \<Rightarrow> 'w io_recv option \<Rightarrow> 'w \<Rightarrow> bytes option \<Rightarrow> bytes option \<Rightarrow> bytes option \<Rightarrow>
   bytes \<Rightarrow> int \<Rightarrow> (int \<times> 'w session \<times> 'r \<times> 'w \<times> bytes) option" where
  "wn_Connect_CertName_ex B C P X tc0 ks0 sess rng ioS ioR w anchor serverName pinnedKey scr now =
     (if serverName = None \<and> pinnedKey = None then Some (err_code E_INVALID_ARG, sess, rng, w, scr)
      else wn_connect_cert_impl B C P X tc0 ks0 sess rng ioS ioR w anchor scr serverName pinnedKey now)"

text \<open>The variants with a session of their own, which is wiped: the status is what remains.\<close>

definition wn_Connect_Cert ::
  "build \<Rightarrow> 'x crypto \<Rightarrow> 'p pk_crypto \<Rightarrow> ('k, 'r) kx_crypto \<Rightarrow> 'x transcript \<Rightarrow> 'k keyshare \<Rightarrow> 'w session \<Rightarrow>
   'r \<Rightarrow> 'w io_send option \<Rightarrow> 'w io_recv option \<Rightarrow> 'w \<Rightarrow> bytes option \<Rightarrow> bytes \<Rightarrow> int \<Rightarrow> (int \<times> 'r \<times> 'w \<times> bytes) option" where
  "wn_Connect_Cert B C P X tc0 ks0 sess rng ioS ioR w anchor scr now =
     (case wn_Connect_Cert_ex B C P X tc0 ks0 sess rng ioS ioR w anchor scr now of None \<Rightarrow> None
      | Some (ret, _, rng', w', scr') \<Rightarrow> Some (ret, rng', w', scr'))"

definition wn_Connect_CertName ::
  "build \<Rightarrow> 'x crypto \<Rightarrow> 'p pk_crypto \<Rightarrow> ('k, 'r) kx_crypto \<Rightarrow> 'x transcript \<Rightarrow> 'k keyshare \<Rightarrow> 'w session \<Rightarrow>
   'r \<Rightarrow> 'w io_send option \<Rightarrow> 'w io_recv option \<Rightarrow> 'w \<Rightarrow> bytes option \<Rightarrow> bytes option \<Rightarrow> bytes option \<Rightarrow> bytes \<Rightarrow> int \<Rightarrow>
   (int \<times> 'r \<times> 'w \<times> bytes) option" where
  "wn_Connect_CertName B C P X tc0 ks0 sess rng ioS ioR w anchor serverName pinnedKey scr now =
     (case wn_Connect_CertName_ex B C P X tc0 ks0 sess rng ioS ioR w anchor serverName pinnedKey scr now of None \<Rightarrow> None
      | Some (ret, _, rng', w', scr') \<Rightarrow> Some (ret, rng', w', scr'))"

subsection \<open>What a completed handshake says\<close>

text \<open>The loop keeps the reassembly buffer's size and the flight's facts.\<close>

definition loop_ok ::
  "build \<Rightarrow> 'p pk_crypto \<Rightarrow> cert_params \<Rightarrow> (bytes \<Rightarrow> bytes) \<Rightarrow> ('x \<Rightarrow> bytes \<Rightarrow> bool) \<Rightarrow> (bytes \<Rightarrow> bytes) \<Rightarrow> bytes \<Rightarrow>
   ('x, 'w) flight_vars \<Rightarrow> bool" where
  "loop_ok B P cp H R mac m0 L \<longleftrightarrow> fl_accLen L \<le> length (fl_acc L) \<and> length (fl_acc L) < 2147483640 \<and>
     (\<exists>bodies. flight_st_ok B P cp H R mac m0 bodies (fl_st L))"

lemma flight_begin_ok:
  assumes "tdigest tc = WC_SHA256" "R (thash tc) m0" "length acc \<le> 13312"
  shows "loop_ok B P cp H R mac m0 (flight_begin tc io acc leaf w)"
  using assms by (auto simp: loop_ok_def flight_begin_def flight_st_ok_def flight_bytes_def flight_facts_def flight_init_def
      intro!: exI [of _ "[]"])

lemma flight_record_sound:
  assumes ok: "sha256_ok C H R" "kdf_ok C" "hmac_ok C M" "length (hk_sHs k) = 32"
    and L: "loop_ok B P cp H R (M (hkdf_expand C 32 (hk_sHs k) ''finished'' [])) m0 L"
    and step: "flight_record B C P cp k recv L = (Inr u, L')"
  shows "loop_ok B P cp H R (M (hkdf_expand C 32 (hk_sHs k) ''finished'' [])) m0 L'"
proof -
  obtain rec io w where r: "wn_RecvRecord recv (fl_w L) (fl_io L) (length (fl_io L)) = (rec, io, w)" by (metis prod_cases3)
  obtain rtype recLen where rec: "rec = Inr (rtype, recLen)"
    using step by (cases rec) (auto simp: flight_record_def r)
  show ?thesis
  proof (cases "rtype = 20")
    case True
    then show ?thesis using step L by (auto simp: flight_record_def r rec loop_ok_def Let_def)
  next
    case False
    then have "rtype = 23" using step by (auto simp: flight_record_def r rec Let_def split: if_splits)
    note s1 = step [unfolded flight_record_def r rec this Let_def, simplified]
    obtain res content where u: "wn_Record_Unprotect C (Some (hk_sKey k)) (Some (hk_sIv k)) (fl_seq L) (Some (take recLen io)) = (res, content)"
      by fastforce
    obtain n ct where res: "res = Inr (n, ct)" using s1 by (cases res) (auto simp: u)
    let ?io = "mem_put io 5 content"
    let ?acc = "mem_put (fl_acc L) (fl_accLen L) (slice 5 n ?io)"
    have ct: "ct = 22" "fl_accLen L + n \<le> length (fl_acc L)"
      using s1 by (auto simp: u res split: if_splits)
    obtain st off where m: "flight_messages B C P cp (hk_sHs k) ?acc (fl_accLen L + n) (fl_off L) (fl_st L) = (Inr st, off)"
        and L': "fl_acc L' = ?acc" "fl_accLen L' = fl_accLen L + n" "fl_st L' = st"
      using s1 ct by (auto simp: u res split: sum.splits prod.splits)
    have "length (slice 5 n ?io) \<le> n" by (simp add: slice_def)
    then have len: "length ?acc = length (fl_acc L)" using ct(2) by simp
    obtain bodies where b: "flight_st_ok B P cp H R (M (hkdf_expand C 32 (hk_sHs k) ''finished'' [])) m0 bodies (fl_st L)"
      using L by (auto simp: loop_ok_def)
    from L have "length ?acc < 2147483640" by (simp only: len loop_ok_def)
    from flight_messages_sound [OF ok _ this b m] ct(2) len L show ?thesis
      by (simp add: loop_ok_def L')
  qed
qed

lemma flight_loop_inv:
  assumes run: "flight_loop B C P cp k recv L = Some res" and "Q L"
    and step: "\<And>L u L'. Q L \<Longrightarrow> flight_record B C P cp k recv L = (Inr u, L') \<Longrightarrow> Q L'"
    and fail: "\<And>L e L'. flight_record B C P cp k recv L = (Inl e, L') \<Longrightarrow> E e"
  shows "(\<forall>u L'. res = (Inr u, L') \<longrightarrow> Q L' \<and> ft_done (fl_st L')) \<and> (\<forall>e L'. res = (Inl e, L') \<longrightarrow> E e)"
proof -
  have "B = B \<and> C = C \<and> P = P \<and> cp = cp \<and> k = k \<and> recv = recv \<longrightarrow> Q L \<longrightarrow>
      (\<forall>u L'. res = (Inr u, L') \<longrightarrow> Q L' \<and> ft_done (fl_st L')) \<and> (\<forall>e L'. res = (Inl e, L') \<longrightarrow> E e)"
  proof (rule flight_loop.raw_induct [where Pa = "\<lambda>((((((B', C'), P'), cp'), k'), recv'), L) res.
      B' = B \<and> C' = C \<and> P' = P \<and> cp' = cp \<and> k' = k \<and> recv' = recv \<longrightarrow> Q L \<longrightarrow>
      (\<forall>u L'. res = (Inr u, L') \<longrightarrow> Q L' \<and> ft_done (fl_st L')) \<and> (\<forall>e L'. res = (Inl e, L') \<longrightarrow> E e)", OF _ run, unfolded prod.case], intro impI)
    fix loop B' C' P' cp' k' recv' L res
    assume IH: "\<And>C'' P'' cp'' k'' recv'' L b res. loop C'' P'' cp'' k'' recv'' L b = Some res \<Longrightarrow>
        C'' = B \<and> P'' = C \<and> cp'' = P \<and> k'' = cp \<and> recv'' = k \<and> L = recv \<longrightarrow> Q b \<longrightarrow>
        (\<forall>u L'. res = (Inr u, L') \<longrightarrow> Q L' \<and> ft_done (fl_st L')) \<and> (\<forall>e L'. res = (Inl e, L') \<longrightarrow> E e)"
      and body: "(if ft_done (fl_st L) then Some (Inr (), L)
        else case flight_record B' C' P' cp' k' recv' L of
            (Inl e, L') \<Rightarrow> Some (Inl e, L')
          | (Inr x, L') \<Rightarrow> loop B' C' P' cp' k' recv' L') = Some res"
      and e: "B' = B \<and> C' = C \<and> P' = P \<and> cp' = cp \<and> k' = k \<and> recv' = recv" and Q: "Q L"
    obtain r L1 where st: "flight_record B C P cp k recv L = (r, L1)" by fastforce
    show "(\<forall>u L'. res = (Inr u, L') \<longrightarrow> Q L' \<and> ft_done (fl_st L')) \<and> (\<forall>e L'. res = (Inl e, L') \<longrightarrow> E e)"
    proof (cases "ft_done (fl_st L)")
      case True
      then show ?thesis using body Q by auto
    next
      case False
      show ?thesis
      proof (cases r)
        case (Inl x)
        then show ?thesis using body False fail [of L x L1] st by (auto simp: e)
      next
        case (Inr x)
        then have "loop B C P cp k recv L1 = Some res" using body False by (simp add: e st)
        from IH [OF this] step [OF Q] st Inr show ?thesis by blast
      qed
    qed
  qed
  then show ?thesis using assms(2) by blast
qed

lemma flight_loop_sound:
  assumes "sha256_ok C H R" "kdf_ok C" "hmac_ok C M" "length (hk_sHs k) = 32"
    and "loop_ok B P cp H R (M (hkdf_expand C 32 (hk_sHs k) ''finished'' [])) m0 L"
    and "flight_loop B C P cp k recv L = Some (Inr u, L')"
  shows "\<exists>bodies. length bodies = 4 \<and>
    flight_st_ok B P cp H R (M (hkdf_expand C 32 (hk_sHs k) ''finished'' [])) m0 bodies (fl_st L')"
proof -
  have "loop_ok B P cp H R (M (hkdf_expand C 32 (hk_sHs k) ''finished'' [])) m0 L' \<and> ft_done (fl_st L')"
    using flight_loop_inv [where Q = "loop_ok B P cp H R (M (hkdf_expand C 32 (hk_sHs k) ''finished'' [])) m0"
        and E = "\<lambda>_. True", OF assms(6,5) flight_record_sound [OF assms(1-4)]] by simp
  then show ?thesis by (auto simp: loop_ok_def flight_st_ok_def)
qed

lemma cert_client_hello_sound:
  assumes "sha256_ok C H R" "cert_client_hello B C X tc0 ks0 rng send w scr name = Inr (ho, rng', w', scr')"
  shows "\<exists>random pub n. wn_ClientHello_Build_ex B scr (Some random) (ho_sid ho) (Some pub) name = (Inr n, scr') \<and>
    tdigest (ho_tc ho) = WC_SHA256 \<and> R (thash (ho_tc ho)) (take n scr') \<and> ho_emptyHash ho = H []"
proof -
  obtain random pub n tc1 where
    A: "wc_Sha256Hash C [] = (0, ho_emptyHash ho)" "wn_Transcript_Init C tc0 WC_SHA256 = (0, tc1)"
      "wn_ClientHello_Build_ex B scr (Some random) (ho_sid ho) (Some pub) name = (Inr n, scr')"
      "wn_Transcript_Update C tc1 (Some scr') n = (0, ho_tc ho)"
    using assms(2) unfolding cert_client_hello_def
    by (elim bind_okE case_okE) (auto simp: atE_eq_Inr okI_eq_Inr crypt_eq_Inr)
  have "R (thash tc1) []" "tdigest tc1 = WC_SHA256"
    using Transcript_Init_ok [OF assms(1), of tc0] by (simp_all add: A(2) tr_absorbed_def)
  moreover have "ho_emptyHash ho = H []" using assms(1) A(1) by (simp add: sha256_ok_def)
  moreover have "fst (wc_Sha256Update C (thash tc1) (take n scr')) = 0 \<and> R (snd (wc_Sha256Update C (thash tc1) (take n scr'))) ([] @ take n scr')"
    using assms(1) calculation(1) unfolding sha256_ok_def by blast
  ultimately have "tdigest (ho_tc ho) = WC_SHA256 \<and> R (thash (ho_tc ho)) (take n scr') \<and> ho_emptyHash ho = H []"
    using A(4) by (auto simp: wn_Transcript_Update_def hash_status_def dest!: sym [of _ "ho_tc ho"] split: prod.splits)
  then show ?thesis using A(3) by blast
qed

lemma on_server_hello_sound:
  assumes "sha256_ok C H R" "tdigest (ho_tc ho) = WC_SHA256" "R (thash (ho_tc ho)) m"
    and "on_server_hello B C X ho psk rec io = Inr (tc, ecdhe)"
  shows "\<exists>msg sh n buf. wn_ServerHello_Parse (Some msg) = Inr sh \<and> \<not> sh_isHelloRetry sh \<and> sh_acceptable B (ho_sid ho) psk msg sh \<and>
    wn_KeyShare_Shared B X (ho_ks ho) (Some (slice (the (sh_keyShare sh)) (sh_keyShareLen sh) msg)) (replicate (WN_DEFAULT_SECRET_SZ B) 0) = (Inr n, buf) \<and>
    ecdhe = take n buf \<and> tdigest tc = WC_SHA256 \<and> R (thash tc) (m @ msg)"
proof -
  obtain rtype recLen where rec: "rec = Inr (rtype, recLen)"
    using assms(4) by (auto simp: on_server_hello_def bindE_eq_Inr)
  let ?msg = "slice 5 (recLen - 5) io"
  obtain sh n buf where
    A: "wn_ServerHello_Parse (Some ?msg) = Inr sh" "\<not> sh_isHelloRetry sh" "sh_acceptable B (ho_sid ho) psk ?msg sh"
      "wn_Transcript_Update C (ho_tc ho) (Some ?msg) (length ?msg) = (0, tc)"
      "wn_KeyShare_Shared B X (ho_ks ho) (Some (slice (the (sh_keyShare sh)) (sh_keyShareLen sh) ?msg)) (replicate (WN_DEFAULT_SECRET_SZ B) 0) = (Inr n, buf)"
      "ecdhe = take n buf"
    using assms(4) unfolding on_server_hello_def rec Let_def
    by (elim bind_okE case_okE) (auto simp: okI_eq_Inr elim!: bind_okE case_okE)
  obtain tc' where "wn_Transcript_Update C (ho_tc ho) (Some ?msg) (length ?msg) = (0, tc')" "tdigest tc' = WC_SHA256"
      "R (thash tc') (m @ ?msg)"
    using sha256_update [OF assms(1-3), of ?msg] by blast
  with A show ?thesis by auto
qed

lemma cert_hs_keys_eq:
  assumes "sha256_ok C H R" "kdf_ok C" "tdigest tc = WC_SHA256" "R (thash tc) m"
  shows "cert_hs_keys C tc ecdhe (H []) =
    (let hs = hs_secret C (hkdf_extract C [] (replicate 32 0)) (H []) ecdhe;
         cHs = hkdf_expand C 32 hs ''c hs traffic'' (H m); sHs = hkdf_expand C 32 hs ''s hs traffic'' (H m) in
     (0, \<lparr>hk_hs = hs, hk_cHs = cHs, hk_sHs = sHs, hk_cKey = traffic_key C cHs, hk_cIv = traffic_iv C cHs,
          hk_sKey = traffic_key C sHs, hk_sIv = traffic_iv C sHs\<rparr>))"
proof -
  have "length (H x) = 32" for x using assms(1) by (simp add: sha256_ok_def)
  then show ?thesis
    by (simp add: cert_hs_keys_def sha256_get [OF assms(1,3,4)] Extract_ok [OF assms(2)] client_copies
        DeriveHsKeys_eq [OF assms(2)] assms(2) Let_def)
qed

text \<open>
  The server's part of an accepted handshake over the hello messages \<open>m0\<close>: a chain to the
  anchor, a CertificateVerify under the leaf's key over the transcript so far, and a Finished
  keyed by the handshake secret over everything before it.
\<close>

definition server_proves ::
  "build \<Rightarrow> 'x crypto \<Rightarrow> 'p pk_crypto \<Rightarrow> (bytes \<Rightarrow> bytes) \<Rightarrow> (bytes \<Rightarrow> bytes \<Rightarrow> bytes) \<Rightarrow> cert_params \<Rightarrow> bytes \<Rightarrow> bytes \<Rightarrow>
   bytes \<Rightarrow> bytes \<Rightarrow> bytes \<Rightarrow> bytes \<Rightarrow> bool" where
  "server_proves B C P H M cp sHs m0 eb cb vb fb \<longleftrightarrow>
     wn_CheckEncExt eb (case cp_name cp of None \<Rightarrow> False | Some n \<Rightarrow> n \<noteq> []) = Inr () \<and>
     (\<exists>certs spki c scheme sg.
        cert_list cb = Inr certs \<and> certs \<noteq> [] \<and> trusted B P (cp_now cp) (cp_anchor cp) certs \<and>
        leaf_ok B (hd certs) (WN_LEAF_SPKI_SZ B) (cp_name cp) (cp_pin cp) (cp_now cp) spki \<and>
        wn_X509_Parse B (Some (hd certs)) = Inr c \<and>
        vb = be16 scheme @ be16 (of_nat (length sg)) @ sg \<and>
        cv_accepts B P scheme (c_keyAlg c) (c_curve c) (octets (hd certs) (c_pubKey c) (c_pubKeyLen c)) spki
          (wn_BuildCvTbs (H (m0 @ hs_msg 8 eb @ hs_msg 11 cb))) sg) \<and>
     fb = M (hkdf_expand C 32 sHs ''finished'' []) (H (m0 @ hs_msg 8 eb @ hs_msg 11 cb @ hs_msg 15 vb))"

lemma flight_proves:
  assumes "rsa_ok P" "flight_st_ok B P cp H R (M (hkdf_expand C 32 sHs ''finished'' [])) m0 bodies st" "length bodies = 4"
  shows "\<exists>eb cb vb fb. server_proves B C P H M cp sHs m0 eb cb vb fb \<and> tdigest (ft_tc st) = WC_SHA256 \<and>
    R (thash (ft_tc st)) (m0 @ hs_msg 8 eb @ hs_msg 11 cb @ hs_msg 15 vb @ hs_msg 20 fb)"
proof -
  obtain eb cb vb fb where b: "bodies = [eb, cb, vb, fb]"
    using assms(3) by (auto simp: numeral_eq_Suc length_Suc_conv)
  let ?spki = "take (ft_spkiLen st) (ft_leaf st)"
  have F: "wn_CheckEncExt eb (case cp_name cp of None \<Rightarrow> False | Some n \<Rightarrow> n \<noteq> []) = Inr ()"
      "chain_accepted B P cp cb ?spki" "signature_accepted B P ?spki (H (m0 @ hs_msg 8 eb @ hs_msg 11 cb)) vb"
      "fb = M (hkdf_expand C 32 sHs ''finished'' []) (H (m0 @ hs_msg 8 eb @ hs_msg 11 cb @ hs_msg 15 vb))"
    using assms(2) by (simp_all add: flight_st_ok_def flight_facts_def b flight_bytes_def numeral_eq_Suc)
  obtain certs where certs: "cert_list cb = Inr certs" "certs \<noteq> []" "trusted B P (cp_now cp) (cp_anchor cp) certs"
      "leaf_ok B (hd certs) (WN_LEAF_SPKI_SZ B) (cp_name cp) (cp_pin cp) (cp_now cp) ?spki"
    using F(2) VerifyChain_iff(1) [OF assms(1)] unfolding chain_accepted_def by blast
  obtain c where c: "wn_X509_Parse B (Some (hd certs)) = Inr c" "?spki = octets (hd certs) (c_spki c) (c_spkiLen c)"
    using certs(4) unfolding leaf_ok_def by blast
  obtain scheme sg where sg: "vb = be16 scheme @ be16 (of_nat (length sg)) @ sg"
      "wn_CertVerify B P scheme ?spki (H (m0 @ hs_msg 8 eb @ hs_msg 11 cb)) sg = Inr ()"
    using F(3) unfolding signature_accepted_def by blast
  have "cv_accepts B P scheme (c_keyAlg c) (c_curve c) (octets (hd certs) (c_pubKey c) (c_pubKeyLen c)) ?spki
          (wn_BuildCvTbs (H (m0 @ hs_msg 8 eb @ hs_msg 11 cb))) sg"
    using CertVerify_iff [OF c refl, of P scheme] sg(2) by blast
  with F(1,4) certs c(1) sg(1) have "server_proves B C P H M cp sHs m0 eb cb vb fb"
    unfolding server_proves_def by blast
  moreover have "R (thash (ft_tc st)) (m0 @ hs_msg 8 eb @ hs_msg 11 cb @ hs_msg 15 vb @ hs_msg 20 fb)" "tdigest (ft_tc st) = WC_SHA256"
    using assms(2) by (simp_all add: flight_st_ok_def b flight_bytes_def)
  ultimately show ?thesis by blast
qed

lemma client_finish_sound:
  assumes "sha256_ok C H R" "kdf_ok C" "tdigest tc = WC_SHA256" "R (thash tc) m" "length (hk_hs k) = 32"
    and "client_finish C tc k (H []) send recv io scr w = (0, sess, io', w')"
  shows "sess_established sess \<and>
    cAppSecret sess = app_secret C (hk_hs k) (H []) (replicate 32 0) (H m) (our_label Client) \<and>
    sAppSecret sess = app_secret C (hk_hs k) (H []) (replicate 32 0) (H m) (peer_label Client)"
proof -
  have l: "length (H x) = 32" for x using assms(1) by (simp add: sha256_ok_def)
  have e: "err_code e \<noteq> 0" for e by (cases e) simp_all
  show ?thesis
    using assms(6)
    by (auto simp: client_finish_def sha256_get [OF assms(1,3,4)] WOLFNANO_SUCCESS_def client_copies e
        SessionEstablish_eq [OF assms(2,5) l l] Let_def sess_established_def split: prod.splits sum.splits if_splits)
qed

lemma acc_size: "WN_HS_ACC_SZ B \<le> 13312"
  by (simp add: WN_HS_ACC_SZ_def split: option.split)

lemma length_hs_secret: "kdf_ok C \<Longrightarrow> length (hs_secret C early e x) = 32"
  by (simp add: hs_secret_def)

lemma client_hello_nz: "nzp (cert_client_hello B C X tc0 ks0 rng send w scr name)"
  unfolding cert_client_hello_def by (intro nzp_bind nzp_case nzp_Inr nzp_atE nz_intros)

lemma server_hello_nz: "nz (on_server_hello B C X ho psk rec io)"
  unfolding on_server_hello_def Let_def by (intro nz_rules)

lemma flight_message_nz: "nz (flight_message B C P cp sHs msg st)"
  unfolding flight_message_def on_certificate_def on_cert_verify_def on_finished_def Let_def by (intro nz_rules)

lemma flight_messages_nz:
  "flight_messages B C P cp sHs acc accLen off st = (Inl e, off') \<Longrightarrow> e \<noteq> 0"
proof (induction "accLen - off" arbitrary: off st rule: less_induct)
  case less
  let ?mLen = "dec24 (acc ! (off + 1)) (acc ! (off + 2)) (acc ! (off + 3))"
  let ?m = "flight_message B C P cp sHs (slice off (4 + ?mLen) acc) st"
  from less.prems have ok: "\<not> (ft_done st \<or> accLen - off < 4 \<or> off + 4 + ?mLen > accLen)"
    by (auto simp: flight_messages.simps [of B C P cp sHs acc accLen off st] Let_def split: if_splits)
  show ?case
  proof (cases ?m)
    case (Inl x)
    then have "e = x" using less.prems ok by (simp add: flight_messages.simps [of B C P cp sHs acc accLen off st] Let_def)
    then show ?thesis using flight_message_nz [of B C P cp sHs "slice off (4 + ?mLen) acc" st] Inl by (simp add: nz_def)
  next
    case (Inr st1)
    then have "flight_messages B C P cp sHs acc accLen (off + 4 + ?mLen) st1 = (Inl e, off')"
      using less.prems ok by (simp add: flight_messages.simps [of B C P cp sHs acc accLen off st] Let_def)
    moreover have "accLen - (off + 4 + ?mLen) < accLen - off" using ok by linarith
    ultimately show ?thesis using less.hyps by blast
  qed
qed

lemma flight_record_nz: "flight_record B C P cp k recv L = (Inl e, L') \<Longrightarrow> e \<noteq> 0"
  using flight_messages_nz by (fastforce simp: flight_record_def Let_def split: sum.splits prod.splits if_splits)

lemma flight_loop_nz: "flight_loop B C P cp k recv L = Some (Inl e, L') \<Longrightarrow> e \<noteq> 0"
  using flight_loop_inv [where Q = "\<lambda>_. True" and E = "\<lambda>e. e \<noteq> 0"] flight_record_nz by fastforce

text \<open>The steps of a driver run that succeeds.\<close>

lemma connect_cert_run:
  assumes "wn_connect_cert_impl B C P X tc0 ks0 sess rng ioS ioR w anchor scr name pin now = Some (0, sess', rng', w', scr')"
  obtains a send recv ho rng1 w1 scr1 rec io2 w2 tc ecdhe k acc leaf L io scrf w3 where
    "anchor = Some a" "cert_client_hello B C X tc0 ks0 rng send w scr name = Inr (ho, rng1, w1, scr1)"
    "on_server_hello B C X ho (-1) rec io2 = Inr (tc, ecdhe)" "cert_hs_keys C tc ecdhe (ho_emptyHash ho) = (0, k)"
    "length acc \<le> 13312"
    "flight_loop B C P \<lparr>cp_anchor = a, cp_name = name, cp_pin = pin, cp_now = now\<rparr> k recv
      (flight_begin tc io2 acc leaf w2) = Some (Inr (), L)"
    "client_finish C (ft_tc (fl_st L)) k (ho_emptyHash ho) send recv (fl_io L) scrf (fl_w L) = (0, sess', io, w3)"
proof -
  have sl: "length (slice p (WN_HS_ACC_SZ B) xs) \<le> 13312" for p and xs :: bytes
    using acc_size [of B] by (simp add: slice_def)
  obtain a send recv where io: "anchor = Some a" "ioS = Some send" "ioR = Some recv" "\<not> length scr < WN_CERT_SCRATCH_MIN B"
    using assms by (auto simp: wn_connect_cert_impl_def split: if_splits)
  note run = assms [unfolded wn_connect_cert_impl_def io Let_def option.sel, simplified io(4) option.distinct if_False simp_thms]
  obtain ho rng1 w1 scr1 where h: "cert_client_hello B C X tc0 ks0 rng send w scr name = Inr (ho, rng1, w1, scr1)"
    using run client_hello_nz [of B C X tc0 ks0 rng send w scr name]
    by (cases "cert_client_hello B C X tc0 ks0 rng send w scr name") (auto simp: nzp_def)
  note run1 = run [unfolded h sum.case prod.case]
  let ?ioCap = "length scr - (WN_HS_ACC_SZ B + WN_LEAF_SPKI_SZ B)"
  obtain rec io2 w2 where r: "recv_hello recv (take ?ioCap scr1) w1 = Some (rec, io2, w2)"
    using run1 by (cases "recv_hello recv (take ?ioCap scr1) w1") auto
  note run2 = run1 [unfolded r option.case prod.case]
  obtain tc ecdhe where s: "on_server_hello B C X ho (-1) rec io2 = Inr (tc, ecdhe)"
    using run2 server_hello_nz [of B C X ho "-1" rec io2]
    by (cases "on_server_hello B C X ho (-1) rec io2") (auto simp: nz_def)
  note run3 = run2 [unfolded s sum.case prod.case]
  obtain k where k: "cert_hs_keys C tc ecdhe (ho_emptyHash ho) = (0, k)"
    using run3 by (cases "cert_hs_keys C tc ecdhe (ho_emptyHash ho)") (auto simp: WOLFNANO_SUCCESS_def split: if_splits)
  let ?acc = "slice ?ioCap (WN_HS_ACC_SZ B) scr1" and ?leaf = "drop (?ioCap + WN_HS_ACC_SZ B) scr1"
  let ?cp = "\<lparr>cp_anchor = a, cp_name = name, cp_pin = pin, cp_now = now\<rparr>"
  let ?L = "flight_begin tc io2 ?acc ?leaf w2"
  note run4 = run3 [unfolded k prod.case]
  obtain L where l: "flight_loop B C P ?cp k recv ?L = Some (Inr (), L)"
  proof (cases "flight_loop B C P ?cp k recv ?L")
    case None
    then show ?thesis using run4 by (simp add: WOLFNANO_SUCCESS_def)
  next
    case (Some x)
    then obtain res L where x: "flight_loop B C P ?cp k recv ?L = Some (res, L)" by (cases x) auto
    then show ?thesis using that run4 flight_loop_nz [of B C P ?cp k recv ?L] by (cases res) (auto simp: WOLFNANO_SUCCESS_def)
  qed
  obtain io w3 where f: "client_finish C (ft_tc (fl_st L)) k (ho_emptyHash ho) send recv (fl_io L)
      (\<lambda>io. io @ mem_put (fl_acc L) 0 (replicate (fl_accLen L) 0) @ ft_leaf (fl_st L)) (fl_w L) = (0, sess', io, w3)"
    using run4 by (auto simp: l WOLFNANO_SUCCESS_def split: prod.splits)
  show thesis by (rule that [OF io(1) h s k sl l f])
qed

subsection \<open>Properties\<close>

text \<open>C2. A handshake the certificate driver reports as successful authenticated the server: over the
  ClientHello it built and an acceptable ServerHello, the server's flight proves the leaf of a trusted
  chain to the pinned anchor, valid now and naming the host or pinned, by a signature over the transcript
  under that leaf's key, and the handshake secret by its Finished; and the session it returns is
  established with application secrets derived from that secret and the whole transcript.\<close>

theorem connect_cert_authenticates:
  assumes "sha256_ok C H R" "kdf_ok C" "hmac_ok C M" "rsa_ok P"
    and "wn_connect_cert_impl B C P X tc0 ks0 sess rng ioS ioR w anchor scr name pin now = Some (0, sess', rng', w', scr')"
  shows "\<exists>a random sid pub n buf shm sh ecdhe hs m0 eb cb vb fb m.
    anchor = Some a \<and>
    wn_ClientHello_Build_ex B scr (Some random) sid (Some pub) name = (Inr n, buf) \<and>
    wn_ServerHello_Parse (Some shm) = Inr sh \<and> \<not> sh_isHelloRetry sh \<and> sh_acceptable B sid (-1) shm sh \<and>
    m0 = take n buf @ shm \<and> hs = hs_secret C (hkdf_extract C [] (replicate 32 0)) (H []) ecdhe \<and>
    server_proves B C P H M \<lparr>cp_anchor = a, cp_name = name, cp_pin = pin, cp_now = now\<rparr>
      (hkdf_expand C 32 hs ''s hs traffic'' (H m0)) m0 eb cb vb fb \<and>
    m = m0 @ hs_msg 8 eb @ hs_msg 11 cb @ hs_msg 15 vb @ hs_msg 20 fb \<and>
    sess_established sess' \<and>
    cAppSecret sess' = app_secret C hs (H []) (replicate 32 0) (H m) (our_label Client) \<and>
    sAppSecret sess' = app_secret C hs (H []) (replicate 32 0) (H m) (peer_label Client)"
proof -
  obtain a send recv ho rng1 w1 scr1 rec io2 w2 tc ecdhe k acc leaf L io scrf w3 where run:
    "anchor = Some a" "cert_client_hello B C X tc0 ks0 rng send w scr name = Inr (ho, rng1, w1, scr1)"
    "on_server_hello B C X ho (-1) rec io2 = Inr (tc, ecdhe)" "cert_hs_keys C tc ecdhe (ho_emptyHash ho) = (0, k)"
    "length acc \<le> 13312"
    "flight_loop B C P \<lparr>cp_anchor = a, cp_name = name, cp_pin = pin, cp_now = now\<rparr> k recv
      (flight_begin tc io2 acc leaf w2) = Some (Inr (), L)"
    "client_finish C (ft_tc (fl_st L)) k (ho_emptyHash ho) send recv (fl_io L) scrf (fl_w L) = (0, sess', io, w3)"
    by (rule connect_cert_run [OF assms(5)])
  obtain random pub n where ch: "wn_ClientHello_Build_ex B scr (Some random) (ho_sid ho) (Some pub) name = (Inr n, scr1)"
      "tdigest (ho_tc ho) = WC_SHA256" "R (thash (ho_tc ho)) (take n scr1)" "ho_emptyHash ho = H []"
    using cert_client_hello_sound [OF assms(1) run(2)] by blast
  obtain shm sh where sh: "wn_ServerHello_Parse (Some shm) = Inr sh" "\<not> sh_isHelloRetry sh"
      "sh_acceptable B (ho_sid ho) (-1) shm sh" "tdigest tc = WC_SHA256" "R (thash tc) (take n scr1 @ shm)"
    using on_server_hello_sound [OF assms(1) ch(2,3) run(3)] by blast
  let ?m0 = "take n scr1 @ shm" and ?hs = "hs_secret C (hkdf_extract C [] (replicate 32 0)) (H []) ecdhe"
  let ?cp = "\<lparr>cp_anchor = a, cp_name = name, cp_pin = pin, cp_now = now\<rparr>"
  let ?sHs = "hkdf_expand C 32 ?hs ''s hs traffic'' (H ?m0)"
  have k: "hk_sHs k = ?sHs" "hk_hs k = ?hs"
    using run(4) by (auto simp: ch(4) cert_hs_keys_eq [OF assms(1,2) sh(4,5)] Let_def)
  have l: "length (hk_sHs k) = 32" "length (hk_hs k) = 32" using assms(2) by (simp_all add: k length_hs_secret)
  note b0 = flight_begin_ok [where R = R and leaf = leaf and io = io2 and w = w2, OF sh(4,5) run(5)]
  obtain bodies where b: "length bodies = 4" "flight_st_ok B P ?cp H R (M (hkdf_expand C 32 ?sHs ''finished'' [])) ?m0 bodies (fl_st L)"
    using flight_loop_sound [OF assms(1-3) l(1) b0 run(6)] unfolding k(1) by blast
  obtain eb cb vb fb where p: "server_proves B C P H M ?cp ?sHs ?m0 eb cb vb fb"
      "tdigest (ft_tc (fl_st L)) = WC_SHA256"
      "R (thash (ft_tc (fl_st L))) (?m0 @ hs_msg 8 eb @ hs_msg 11 cb @ hs_msg 15 vb @ hs_msg 20 fb)"
    using flight_proves [where C = C and M = M and sHs = ?sHs, OF assms(4) b(2,1)] by blast
  note f = client_finish_sound [OF assms(1,2) p(2,3) l(2) run(7) [unfolded ch(4)]]
  show ?thesis
    using run(1) ch(1) sh(1-3) p(1) f [unfolded k(2)] by blast
qed

end
