(* ===== verification/ClientPsk.thy ===== *)
theory ClientPsk
  imports ClientConnect Step
begin

section \<open>The client's PSK driver (wn_connect.c)\<close>

text \<open>
  \<open>wn_Connect_Psk\<close> and its variant: a ClientHello with a PSK binder over its own truncated
  hash, the ServerHello, EncryptedExtensions and Finished reassembled in a buffer of 512 octets,
  the client's Finished and the session. No alert is sent on a failure. What is in local arrays
  is wiped before the return and not part of the result.
\<close>

subsection \<open>The ClientHello\<close>

text \<open>The signature schemes are constants here, unlike in the ClientHello builder.\<close>

definition psk_sig_writes :: "build \<Rightarrow> (writer \<Rightarrow> writer) list" where
  "psk_sig_writes B =
     (case have_mldsa B of
        Some n \<Rightarrow> [wn_Write_U16 8, wn_Write_U16 6, wn_Write_U16 (mldsa_scheme n)]
      | None \<Rightarrow> [wn_Write_U16 6, wn_Write_U16 4]) @ [wn_Write_U16 0x0807, wn_Write_U16 0x0403]"

text \<open>With the writer, where the hash for the binder ends and where the binder goes.\<close>

definition build_client_hello ::
  "build \<Rightarrow> writer \<Rightarrow> bytes \<Rightarrow> bytes \<Rightarrow> bytes \<Rightarrow> word16 \<Rightarrow> bytes \<Rightarrow> writer \<times> nat \<times> nat" where
  "build_client_hello B w random32 sid cliPub grp identity =
     (let pubLen = length cliPub; idLen = length identity;
          (hsLen, w1) = wn_Write_LenStart 3 (wn_Write_U8 1 w);
          w2 = run_w [wn_Write_U16 0x0303, wn_Write_Bytes (Some random32) 32, wn_Write_U8 32, wn_Write_Bytes (Some sid) 32,
                      wn_Write_U16 2, wn_Write_U16 0x1301, wn_Write_U8 1, wn_Write_U8 0] w1;
          (extLen, w3) = wn_Write_LenStart 2 w2;
          w4 = run_w ([wn_Write_U16 43, wn_Write_U16 3, wn_Write_U8 2, wn_Write_U16 0x0304,
                       wn_Write_U16 10, wn_Write_U16 4, wn_Write_U16 2, wn_Write_U16 grp, wn_Write_U16 13] @
                      psk_sig_writes B @
                      [wn_Write_U16 51, wn_Write_U16 (of_nat (6 + pubLen)), wn_Write_U16 (of_nat (4 + pubLen)), wn_Write_U16 grp,
                       wn_Write_U16 (of_nat pubLen), wn_Write_Bytes (Some cliPub) pubLen,
                       wn_Write_U16 45, wn_Write_U16 2, wn_Write_U8 1, wn_Write_U8 1, wn_Write_U16 41]) w3;
          (pskLen, w5) = wn_Write_LenStart 2 w4;
          (idsLen, w6) = wn_Write_LenStart 2 w5;
          w7 = run_w [wn_Write_U16 (of_nat idLen), wn_Write_Bytes (Some identity) idLen, wn_Write_U16 0, wn_Write_U16 0] w6;
          w8 = wn_Write_LenEnd idsLen 2 w7;
          w9 = run_w [wn_Write_U16 33, wn_Write_U8 32] w8;
          w10 = wn_Write_LenEnd pskLen 2 ((wn_Write_U8 0 ^^ 32) w9)
      in (wn_Write_LenEnd hsLen 3 (wn_Write_LenEnd extLen 2 w10), wlen w8, wlen w9))"

text \<open>
  What the first part of the driver leaves: transcript, key share, session id, the hash of the
  empty string and the early secret. \<open>tc0\<close> and \<open>ks0\<close> are the local transcript and the zeroed
  key share before they are initialised.
\<close>

record ('x, 'k) psk_out = "('x, 'k) hello_out" +
  po_early :: bytes

definition psk_init ::
  "build \<Rightarrow> 'x crypto \<Rightarrow> ('k, 'r) kx_crypto \<Rightarrow> 'x transcript \<Rightarrow> 'k keyshare \<Rightarrow>
   (('r, 'w) env, bytes \<times> bytes \<times> ('x, 'k) hello_out) step" where
  "psk_init B C X tc0 ks0 =
     (case wc_Sha256Hash C [] of (r1, emptyHash) \<Rightarrow>
      bind_s (pure_s (crypt r1)) (\<lambda>_.
      bind_s (on_rng (\<lambda>r. case wc_RNG_GenerateBlock X r 32 of (r2, random32, ra) \<Rightarrow>
                case wc_RNG_GenerateBlock X ra 32 of (r3, sid, rb) \<Rightarrow>
                  (bindE (crypt (r2 OR r3)) (\<lambda>_. Inr (random32, sid)), rb))) (\<lambda>(random32, sid).
      case wn_KeyShare_Init B X (ks_hybrid ks0) ks0 (WN_DEFAULT_GROUP B) of (r4, ks1) \<Rightarrow>
      bind_s (pure_s (codeE r4)) (\<lambda>_.
      bind_s (on_rng (\<lambda>r. case wn_KeyShare_Generate B X ks1 r (replicate (WN_KEYSHARE_MAX_PUB B) 0) of (r5, ks2, rc, pub) \<Rightarrow>
                  (bindE (codeE r5) (\<lambda>pubLen. Inr (ks2, take pubLen pub)), rc))) (\<lambda>(ks2, cliPub).
      bind_s (pure_s (okI (wn_Transcript_Init C tc0 WC_SHA256))) (\<lambda>tc.
        ret_s (random32, cliPub, \<lparr>ho_tc = tc, ho_ks = ks2, ho_sid = sid, ho_emptyHash = emptyHash\<rparr>)))))))"

definition psk_client_hello ::
  "build \<Rightarrow> 'x crypto \<Rightarrow> 'w io_send \<Rightarrow> bytes \<Rightarrow> bytes \<Rightarrow> bytes \<Rightarrow> bytes \<Rightarrow> ('x, 'k) hello_out \<Rightarrow>
   (('r, 'w) env, ('x, 'k) psk_out) step" where
  "psk_client_hello B C send psk identity random32 cliPub ho =
     bind_s (on_scr (\<lambda>scr.
        case build_client_hello B (wn_Writer_Init scr (length scr)) random32 (ho_sid ho) cliPub (WN_DEFAULT_GROUP B) identity of
          (w, truncOff, binderOff) \<Rightarrow>
            (case finish_w E_CRYPTO w of (res, buf) \<Rightarrow> (bindE res (\<lambda>chLen. Inr (chLen, truncOff, binderOff)), buf)))) (\<lambda>(chLen, truncOff, binderOff).
     case wn_Tls13_Extract C stack32 [] (Some psk) WC_SHA256 of (r1, early) \<Rightarrow>
     case wn_Tls13_DeriveSecret C stack32 (Some early) ''ext binder'' (Some (ho_emptyHash ho)) 32 WC_SHA256 of (r2, binderKey) \<Rightarrow>
     bind_s (pure_s (okI (r1 OR r2, ()))) (\<lambda>_.
     bind_s get_s (\<lambda>s.
     case wc_Sha256Hash C (take truncOff (e_scr s)) of (r3, th) \<Rightarrow>
     bind_s (pure_s (crypt r3)) (\<lambda>_.
     bind_s (pure_s (okI (wn_Tls13_FinishedMac C stack32 (Some binderKey) (Some th) 32 WC_SHA256))) (\<lambda>binder.
     bind_s (on_scr (\<lambda>scr. (Inr (), mem_put scr binderOff (take 32 binder)))) (\<lambda>_.
     bind_s get_s (\<lambda>s1.
     bind_s (pure_s (okI (wn_Transcript_Update C (ho_tc ho) (Some (e_scr s1)) chLen))) (\<lambda>tc.
     bind_s (on_io (\<lambda>w. send_plain_record send w 22 (take chLen (e_scr s1)))) (\<lambda>_.
     bind_s (on_io (send_ccs send)) (\<lambda>_.
       ret_s \<lparr>ho_tc = tc, ho_ks = ho_ks ho, ho_sid = ho_sid ho, ho_emptyHash = ho_emptyHash ho, po_early = early\<rparr>))))))))))"

subsection \<open>The ServerHello and the keys\<close>

definition psk_server_hello ::
  "build \<Rightarrow> 'x crypto \<Rightarrow> ('k, 'r) kx_crypto \<Rightarrow> 'w io_recv \<Rightarrow> ('x, 'k) psk_out \<Rightarrow> (('r, 'w) env, 'x transcript \<times> bytes) step" where
  "psk_server_hello B C X recv po s =
     (case recv_hello recv (e_scr s) (e_w s) of None \<Rightarrow> None
      | Some (rec, io, w) \<Rightarrow> Some (on_server_hello B C X (hello_out.truncate po) 0 rec io, s\<lparr>e_scr := io, e_w := w\<rparr>))"

definition psk_hs_keys :: "'x crypto \<Rightarrow> 'x transcript \<Rightarrow> bytes \<Rightarrow> bytes \<Rightarrow> bytes \<Rightarrow> int \<times> hs_keys" where
  "psk_hs_keys C tc early ecdhe emptyHash =
     (case wn_Transcript_GetHash C tc stack32 32 of (r1, th, _) \<Rightarrow>
      case client_DeriveHsKeys C stack_keys early ecdhe emptyHash th of (r2, k) \<Rightarrow> (r1 OR r2, k))"

subsection \<open>The server's flight\<close>

text \<open>The loop variables; \<open>pf_plain\<close> is the reassembly buffer.\<close>

record 'x psk_flight =
  pf_plain :: bytes
  pf_accOff :: nat
  pf_accLen :: nat
  pf_seq :: word64
  pf_gotEE :: bool
  pf_tc :: "'x transcript"
  pf_done :: bool

definition psk_message :: "'x crypto \<Rightarrow> bytes \<Rightarrow> bytes \<Rightarrow> 'x psk_flight \<Rightarrow> int + 'x psk_flight" where
  "psk_message C sHs msg L =
     (let body = drop 4 msg in
      if msg ! 0 = 8 then
        bindE (guardE (\<not> pf_gotEE L) (err_code E_UNEXPECTED_MSG)) (\<lambda>_.
        bindE (codeE (wn_CheckEncExt body False)) (\<lambda>_.
        bindE (okI (wn_Transcript_Update C (pf_tc L) (Some msg) (length msg))) (\<lambda>tc.
          Inr (L\<lparr>pf_tc := tc, pf_gotEE := True\<rparr>))))
      else if msg ! 0 = 20 then
        bindE (guardE (\<not> (\<not> pf_gotEE L \<or> length body \<noteq> 32)) (err_code E_BAD_MAC)) (\<lambda>_.
        case wn_Transcript_GetHash C (pf_tc L) stack32 32 of (r1, th, _) \<Rightarrow>
        bindE (okI (r1, ())) (\<lambda>_.
        bindE (okI (wn_Tls13_FinishedMac C stack32 (Some sHs) (Some th) 32 WC_SHA256)) (\<lambda>mac.
        bindE (guardE (mac = body) (err_code E_BAD_MAC)) (\<lambda>_.
        bindE (okI (wn_Transcript_Update C (pf_tc L) (Some msg) (length msg))) (\<lambda>tc.
          Inr (L\<lparr>pf_tc := tc, pf_done := True\<rparr>))))))
      else Inl (err_code E_UNEXPECTED_MSG))"

lemma psk_message_keeps:
  "psk_message C sHs msg L = Inr L' \<Longrightarrow> pf_accOff L' = pf_accOff L \<and> pf_accLen L' = pf_accLen L \<and> pf_plain L' = pf_plain L \<and> pf_seq L' = pf_seq L"
  by (auto simp: psk_message_def Let_def bindE_eq_Inr split: if_splits prod.splits)

text \<open>The loop over the complete messages in the buffer; an incomplete one is left for the next record.\<close>

function psk_messages :: "'x crypto \<Rightarrow> bytes \<Rightarrow> 'x psk_flight \<Rightarrow> int + 'x psk_flight" where
  "psk_messages C sHs L =
     (let off = pf_accOff L; plain = pf_plain L; mLen = dec24 (plain ! (off + 1)) (plain ! (off + 2)) (plain ! (off + 3)) in
      if pf_done L \<or> pf_accLen L - off < 4 then Inr L
      else if off + 4 + mLen > 512 then Inl (err_code E_DECODE)
      else if off + 4 + mLen > pf_accLen L then Inr L
      else bindE (psk_message C sHs (slice off (4 + mLen) plain) (L\<lparr>pf_accOff := off + 4 + mLen\<rparr>)) (psk_messages C sHs))"
  by auto

termination
  by (relation "measure (\<lambda>(C, sHs, L). pf_accLen L - pf_accOff L)") (auto dest!: psk_message_keeps)

declare psk_messages.simps [simp del]

definition psk_record ::
  "'x crypto \<Rightarrow> hs_keys \<Rightarrow> 'w io_recv \<Rightarrow> 'x psk_flight \<Rightarrow> (('r, 'w) env, 'x psk_flight) step" where
  "psk_record C k recv L s =
     (case wn_RecvRecord recv (e_w s) (e_scr s) (length (e_scr s)) of
        (Inl e, scr, w) \<Rightarrow> Some (Inl (err_code e), s\<lparr>e_w := w, e_scr := scr\<rparr>)
      | (Inr (rtype, recLen), scr, w) \<Rightarrow>
          let s1 = s\<lparr>e_w := w, e_scr := scr\<rparr> in
          if rtype = 20 then Some (Inr L, s1)
          else if rtype \<noteq> 23 then Some (Inl (err_code E_UNEXPECTED_MSG), s1)
          else if recLen < 5 + 16 \<or> recLen - 5 - 16 > 512 - pf_accLen L then Some (Inl (err_code E_DECODE), s1)
          else case wn_Record_Unprotect C (Some (hk_sKey k)) (Some (hk_sIv k)) (pf_seq L) (Some (take recLen scr)) of
            (Inl e, _) \<Rightarrow> Some (Inl (err_code e), s1)
          | (Inr (plainLen, ctype), content) \<Rightarrow>
              if ctype \<noteq> 22 then Some (Inl (err_code E_UNEXPECTED_MSG), s1)
              else Some (psk_messages C (hk_sHs k) (L\<lparr>pf_plain := mem_put (pf_plain L) (pf_accLen L) content,
                     pf_accLen := pf_accLen L + plainLen, pf_seq := pf_seq L + 1\<rparr>), s1))"

partial_function (option) psk_flight_loop ::
  "'x crypto \<Rightarrow> hs_keys \<Rightarrow> 'w io_recv \<Rightarrow> 'x psk_flight \<Rightarrow> ('r, 'w) env \<Rightarrow> ((int + 'x transcript) \<times> ('r, 'w) env) option" where
  "psk_flight_loop C k recv L s =
     (if pf_done L then Some (Inr (pf_tc L), s)
      else case psk_record C k recv L s of
          None \<Rightarrow> None
        | Some (Inl e, s') \<Rightarrow> Some (Inl e, s')
        | Some (Inr L', s') \<Rightarrow> psk_flight_loop C k recv L' s')"

definition psk_flight_begin :: "'x transcript \<Rightarrow> 'x psk_flight" where
  "psk_flight_begin tc =
     \<lparr>pf_plain = replicate 512 0, pf_accOff = 0, pf_accLen = 0, pf_seq = 0, pf_gotEE = False, pf_tc = tc, pf_done = False\<rparr>"

subsection \<open>The client's Finished and the driver\<close>

text \<open>The result is the transcript hash through the server's Finished.\<close>

definition psk_finish ::
  "'x crypto \<Rightarrow> 'w io_send \<Rightarrow> hs_keys \<Rightarrow> 'x transcript \<Rightarrow> (('r, 'w) env, bytes) step" where
  "psk_finish C send k tc =
     (case wn_Transcript_GetHash C tc stack32 32 of (r1, th, _) \<Rightarrow>
      bind_s (pure_s (okI (r1, ()))) (\<lambda>_.
      bind_s (pure_s (okI (wn_Tls13_FinishedMac C stack32 (Some (hk_cHs k)) (Some th) 32 WC_SHA256))) (\<lambda>mac.
      bind_s (on_scr (\<lambda>scr. wn_Record_Protect C scr (Some (hk_cKey k)) (Some (hk_cIv k)) 0 22
                (Some ([20, 0, 0, 32] @ take 32 mac)))) (\<lambda>recLen.
      bind_s get_s (\<lambda>s.
      bind_s (on_io (\<lambda>w. case send w (take recLen (e_scr s)) of (n, w1) \<Rightarrow>
                (if n \<noteq> int recLen then Inl E_CRYPTO else Inr (), w1))) (\<lambda>_.
        ret_s th))))))"

definition connect_psk_steps ::
  "build \<Rightarrow> 'x crypto \<Rightarrow> ('k, 'r) kx_crypto \<Rightarrow> 'x transcript \<Rightarrow> 'k keyshare \<Rightarrow> 'w io_send \<Rightarrow> 'w io_recv \<Rightarrow> bytes \<Rightarrow> bytes \<Rightarrow>
   (('r, 'w) env, bytes \<times> bytes \<times> bytes) step" where
  "connect_psk_steps B C X tc0 ks0 send recv psk identity =
     bind_s (psk_init B C X tc0 ks0) (\<lambda>(random32, cliPub, ho).
     bind_s (psk_client_hello B C send psk identity random32 cliPub ho) (\<lambda>po.
     bind_s (psk_server_hello B C X recv po) (\<lambda>(tc, ecdhe).
     bind_s (pure_s (okI (psk_hs_keys C tc (po_early po) ecdhe (ho_emptyHash po)))) (\<lambda>k.
     bind_s (psk_flight_loop C k recv (psk_flight_begin tc)) (\<lambda>tc1.
     bind_s (psk_finish C send k tc1) (\<lambda>th.
       ret_s (hk_hs k, ho_emptyHash po, th)))))))"

text \<open>The session is zeroed before anything else and written only at the very end.\<close>

definition wn_Connect_Psk_ex ::
  "build \<Rightarrow> 'x crypto \<Rightarrow> ('k, 'r) kx_crypto \<Rightarrow> 'x transcript \<Rightarrow> 'k keyshare \<Rightarrow> 'w session \<Rightarrow> 'r \<Rightarrow> 'w io_send option \<Rightarrow>
   'w io_recv option \<Rightarrow> 'w \<Rightarrow> bytes option \<Rightarrow> bytes option \<Rightarrow> bytes \<Rightarrow> (int \<times> 'w session \<times> 'r \<times> 'w \<times> bytes) option" where
  "wn_Connect_Psk_ex B C X tc0 ks0 sess rng ioS ioR w psk identity scr =
     (if ioS = None \<or> ioR = None \<or> psk = None \<or> psk = Some [] \<or> identity = None \<or> length scr < 2048 \<or> length (the identity) > 0xFFFF
      then Some (err_code E_INVALID_ARG, sess, rng, w, scr)
      else case connect_psk_steps B C X tc0 ks0 (the ioS) (the ioR) (the psk) (the identity) \<lparr>e_rng = rng, e_w = w, e_scr = scr\<rparr> of
        None \<Rightarrow> None
      | Some (Inl e, s) \<Rightarrow> Some (e, session_zero, e_rng s, e_w s, e_scr s)
      | Some (Inr (hs, emptyHash, th), s) \<Rightarrow>
          (case client_SessionEstablish C session_zero hs emptyHash (replicate 32 0) th ioS ioR (e_scr s) (length (e_scr s)) of
             (ret, sess1) \<Rightarrow> Some (ret, sess1, e_rng s, e_w s, e_scr s)))"

definition wn_Connect_Psk ::
  "build \<Rightarrow> 'x crypto \<Rightarrow> ('k, 'r) kx_crypto \<Rightarrow> 'x transcript \<Rightarrow> 'k keyshare \<Rightarrow> 'w session \<Rightarrow> 'r \<Rightarrow> 'w io_send option \<Rightarrow>
   'w io_recv option \<Rightarrow> 'w \<Rightarrow> bytes option \<Rightarrow> bytes option \<Rightarrow> bytes \<Rightarrow> (int \<times> 'r \<times> 'w \<times> bytes) option" where
  "wn_Connect_Psk B C X tc0 ks0 sess rng ioS ioR w psk identity scr =
     map_option (\<lambda>(ret, _, rng', w', scr'). (ret, rng', w', scr'))
       (wn_Connect_Psk_ex B C X tc0 ks0 sess rng ioS ioR w psk identity scr)"

subsection \<open>What a completed PSK handshake says\<close>

text \<open>
  The flight after the hello messages \<open>m0\<close>: the message bodies accepted so far are in the
  transcript, and the Finished is the one keyed by \<open>mac\<close>.
\<close>

definition psk_loop_ok ::
  "(bytes \<Rightarrow> bytes) \<Rightarrow> ('x \<Rightarrow> bytes \<Rightarrow> bool) \<Rightarrow> (bytes \<Rightarrow> bytes) \<Rightarrow> bytes \<Rightarrow> 'x psk_flight \<Rightarrow> bool" where
  "psk_loop_ok H R mac m0 L \<longleftrightarrow>
     tdigest (pf_tc L) = WC_SHA256 \<and> pf_accLen L \<le> 512 \<and> 512 \<le> length (pf_plain L) \<and>
     (if pf_done L then \<exists>eb. wn_CheckEncExt eb False = Inr () \<and>
         R (thash (pf_tc L)) (m0 @ hs_msg 8 eb @ hs_msg 20 (mac (H (m0 @ hs_msg 8 eb))))
      else if pf_gotEE L then \<exists>eb. wn_CheckEncExt eb False = Inr () \<and> R (thash (pf_tc L)) (m0 @ hs_msg 8 eb)
      else R (thash (pf_tc L)) m0)"

lemma psk_flight_begin_ok:
  "tdigest tc = WC_SHA256 \<Longrightarrow> R (thash tc) m0 \<Longrightarrow> psk_loop_ok H R mac m0 (psk_flight_begin tc)"
  by (simp add: psk_loop_ok_def psk_flight_begin_def)

lemma psk_message_sound:
  assumes ok: "sha256_ok C H R" "kdf_ok C" "hmac_ok C M" "length sHs = 32"
    and L: "psk_loop_ok H R (M (hkdf_expand C 32 sHs ''finished'' [])) m0 L" "\<not> pf_done L"
    and m: "psk_message C sHs (hs_msg t body) L = Inr L'"
  shows "psk_loop_ok H R (M (hkdf_expand C 32 sHs ''finished'' [])) m0 L'"
proof -
  let ?mac = "M (hkdf_expand C 32 sHs ''finished'' [])"
  have tc: "tdigest (pf_tc L) = WC_SHA256" using L(1) by (simp add: psk_loop_ok_def)
  have body4: "hs_msg t body ! 0 = t" "drop 4 (hs_msg t body) = body" by (simp_all add: hs_msg_def)
  have hl: "length (H x) = 32" for x using ok(1) by (simp add: sha256_ok_def)
  note M = m [unfolded psk_message_def Let_def body4]
  consider "t = 8" | "t = 20" using M by (auto split: if_splits)
  then show ?thesis
  proof cases
    case 1
    have G: "\<not> pf_gotEE L" "wn_CheckEncExt body False = Inr ()" using M by (auto simp: 1 bindE_eq_Inr)
    then have r: "R (thash (pf_tc L)) m0" using L by (simp add: psk_loop_ok_def)
    obtain tc' where up: "wn_Transcript_Update C (pf_tc L) (Some (hs_msg t body)) (length (hs_msg t body)) = (0, tc')"
        "tdigest tc' = WC_SHA256" "R (thash tc') (m0 @ hs_msg t body)"
      using sha256_update [OF ok(1) tc r] by blast
    have "L' = L\<lparr>pf_tc := tc', pf_gotEE := True\<rparr>" using M up(1) by (auto simp: 1 bindE_eq_Inr okI_eq_Inr)
    then show ?thesis using L up(2,3) G(2) by (auto simp: psk_loop_ok_def 1)
  next
    case 2
    have G: "pf_gotEE L" using M by (auto simp: 2 bindE_eq_Inr)
    then obtain eb where eb: "wn_CheckEncExt eb False = Inr ()" "R (thash (pf_tc L)) (m0 @ hs_msg 8 eb)"
      using L by (auto simp: psk_loop_ok_def)
    obtain tc' where up: "wn_Transcript_Update C (pf_tc L) (Some (hs_msg t body)) (length (hs_msg t body)) = (0, tc')"
        "tdigest tc' = WC_SHA256" "R (thash tc') ((m0 @ hs_msg 8 eb) @ hs_msg t body)"
      using sha256_update [OF ok(1) tc eb(2)] by blast
    have mac: "body = ?mac (H (m0 @ hs_msg 8 eb))" "L' = L\<lparr>pf_tc := tc', pf_done := True\<rparr>"
      using M up(1) by (auto simp: 2 bindE_eq_Inr okI_eq_Inr sha256_get [OF ok(1) tc eb(2)] FinishedMac_ok [OF ok(2-4) hl])
    then show ?thesis using L up(2,3) eb(1) by (auto simp: psk_loop_ok_def 2)
  qed
qed

lemma psk_messages_sound:
  assumes ok: "sha256_ok C H R" "kdf_ok C" "hmac_ok C M" "length sHs = 32"
    and "psk_loop_ok H R (M (hkdf_expand C 32 sHs ''finished'' [])) m0 L" "psk_messages C sHs L = Inr L'"
  shows "psk_loop_ok H R (M (hkdf_expand C 32 sHs ''finished'' [])) m0 L'"
  using assms(5,6)
proof (induction "pf_accLen L - pf_accOff L" arbitrary: L rule: less_induct)
  case less
  define off where "off = pf_accOff L"
  define mLen where "mLen = dec24 (pf_plain L ! (off + 1)) (pf_plain L ! (off + 2)) (pf_plain L ! (off + 3))"
  note code = psk_messages.simps [of C sHs L, unfolded Let_def, folded off_def, folded mLen_def]
  let ?msg = "slice off (4 + mLen) (pf_plain L)" and ?L = "L\<lparr>pf_accOff := off + 4 + mLen\<rparr>"
  consider "L' = L" | L1 where "\<not> pf_done L" "4 \<le> pf_accLen L - off" "off + 4 + mLen \<le> 512" "psk_message C sHs ?msg ?L = Inr L1"
      "psk_messages C sHs L1 = Inr L'"
    using less.prems(2) code by (auto simp: bindE_eq_Inr split: if_splits)
  then show ?case
  proof cases
    case 2
    have len: "512 \<le> length (pf_plain L)" using less.prems(1) by (simp add: psk_loop_ok_def)
    have m: "psk_message C sHs (hs_msg (pf_plain L ! off) (slice (off + 4) mLen (pf_plain L))) ?L = Inr L1"
      using hs_msg_cut [OF refl, of off "pf_plain L"] 2(3,4) len by (simp add: mLen_def)
    have "psk_loop_ok H R (M (hkdf_expand C 32 sHs ''finished'' [])) m0 ?L" "\<not> pf_done ?L"
      using less.prems(1) 2(1) by (simp_all add: psk_loop_ok_def)
    from psk_message_sound [OF ok this m]
    have "psk_loop_ok H R (M (hkdf_expand C 32 sHs ''finished'' [])) m0 L1" .
    moreover have "pf_accLen L1 - pf_accOff L1 < pf_accLen L - pf_accOff L"
      using psk_message_keeps [OF m] 2(2) by (simp add: off_def)
    ultimately show ?thesis using less.hyps 2(5) by blast
  qed (use less.prems in simp)
qed

lemma Unprotect_len:
  "wn_Record_Unprotect C key iv sq (Some rec) = (Inr (n, t), out) \<Longrightarrow> n \<le> length rec - 21"
  using unpad_le [of out "length rec - 21"]
  by (auto simp: wn_Record_Unprotect_def Let_def split: if_splits prod.splits)

lemma psk_record_sound:
  assumes ok: "sha256_ok C H R" "kdf_ok C" "hmac_ok C M" "length (hk_sHs k) = 32"
    and L: "psk_loop_ok H R (M (hkdf_expand C 32 (hk_sHs k) ''finished'' [])) m0 L" "\<not> pf_done L"
    and step: "psk_record C k recv L s = Some (Inr L', s')"
  shows "psk_loop_ok H R (M (hkdf_expand C 32 (hk_sHs k) ''finished'' [])) m0 L'"
proof -
  obtain rec scr w where r: "wn_RecvRecord recv (e_w s) (e_scr s) (length (e_scr s)) = (rec, scr, w)" by (metis prod_cases3)
  obtain rtype recLen where rec: "rec = Inr (rtype, recLen)"
    using step by (cases rec) (auto simp: psk_record_def r)
  show ?thesis
  proof (cases "rtype = 20")
    case True
    then show ?thesis using step L by (simp add: psk_record_def r rec Let_def)
  next
    case False
    then have t: "rtype = 23" "\<not> (recLen < 5 + 16 \<or> recLen - 5 - 16 > 512 - pf_accLen L)"
      using step by (auto simp: psk_record_def r rec Let_def split: if_splits)
    obtain res content where u: "wn_Record_Unprotect C (Some (hk_sKey k)) (Some (hk_sIv k)) (pf_seq L) (Some (take recLen scr)) = (res, content)"
      by fastforce
    obtain n ct where res: "res = Inr (n, ct)"
      using step t by (cases res) (auto simp: psk_record_def r rec Let_def u split: if_splits)
    have "length (take recLen scr) \<le> recLen" by simp
    then have n: "n \<le> recLen - 5 - 16"
      using Unprotect_len [OF u [unfolded res]] by linarith
    let ?L = "L\<lparr>pf_plain := mem_put (pf_plain L) (pf_accLen L) content, pf_accLen := pf_accLen L + n, pf_seq := pf_seq L + 1\<rparr>"
    have m: "psk_messages C (hk_sHs k) ?L = Inr L'"
      using step t by (auto simp: psk_record_def r rec Let_def u res split: if_splits)
    have len: "pf_accLen L \<le> 512" "512 \<le> length (pf_plain L)" using L(1) by (simp_all add: psk_loop_ok_def)
    then have "512 \<le> length (mem_put (pf_plain L) (pf_accLen L) content)" by (simp add: mem_put_def)
    moreover have "pf_accLen L + n \<le> 512" using n t(2) len by linarith
    ultimately have "psk_loop_ok H R (M (hkdf_expand C 32 (hk_sHs k) ''finished'' [])) m0 ?L"
      using L by (simp add: psk_loop_ok_def)
    from psk_messages_sound [OF ok this m] show ?thesis .
  qed
qed

lemma psk_loop_inv:
  fixes s :: "('r, 'w) env" and res :: "int + 'x transcript"
  assumes run: "psk_flight_loop C k recv L s = Some (res, s')" and "Q L"
    and step: "\<And>L (s :: ('r, 'w) env) L1 s1. Q L \<Longrightarrow> \<not> pf_done L \<Longrightarrow> psk_record C k recv L s = Some (Inr L1, s1) \<Longrightarrow> Q L1"
    and fail: "\<And>L (s :: ('r, 'w) env) e s1. psk_record C k recv L s = Some (Inl e, s1) \<Longrightarrow> E e"
  shows "(\<forall>tc. res = Inr tc \<longrightarrow> (\<exists>L. Q L \<and> pf_done L \<and> tc = pf_tc L)) \<and> (\<forall>e. res = Inl e \<longrightarrow> E e)"
proof -
  let ?S = "\<lambda>res :: int + 'x transcript. (\<forall>tc. res = Inr tc \<longrightarrow> (\<exists>L. Q L \<and> pf_done L \<and> tc = pf_tc L)) \<and> (\<forall>e. res = Inl e \<longrightarrow> E e)"
  let ?P = "\<lambda>C' k' recv' L (s :: ('r, 'w) env) (p :: (int + 'x transcript) \<times> ('r, 'w) env).
      C' = C \<and> k' = k \<and> recv' = recv \<longrightarrow> Q L \<longrightarrow> ?S (fst p)"
  have "?P C k recv L s (res, s')"
  proof (rule psk_flight_loop.raw_induct [OF _ run, where P = ?P], intro impI)
    fix loop C' k' recv' L and s :: "('r, 'w) env" and p
    assume IH: "\<And>C' k' recv' L s p. loop C' k' recv' L s = Some p \<Longrightarrow> C' = C \<and> k' = k \<and> recv' = recv \<longrightarrow> Q L \<longrightarrow> ?S (fst p)"
      and body: "(if pf_done L then Some (Inr (pf_tc L), s)
        else case psk_record C' k' recv' L s of None \<Rightarrow> None
          | Some (Inl e, s') \<Rightarrow> Some (Inl e, s')
          | Some (Inr L', s') \<Rightarrow> loop C' k' recv' L' s') = Some p"
      and e: "C' = C \<and> k' = k \<and> recv' = recv" and Q: "Q L"
    show "?S (fst p)"
    proof (cases "pf_done L")
      case True
      then show ?thesis using body Q by auto
    next
      case False
      note body = body [simplified False e if_False]
      obtain r s1 where st: "psk_record C k recv L s = Some (r, s1)" using body by (auto split: option.splits)
      show ?thesis
      proof (cases r)
        case (Inl e)
        then show ?thesis using body fail [of L s e s1] by (auto simp: st)
      next
        case (Inr L1)
        then show ?thesis using body IH [of C k recv L1 s1 p] step [OF Q False, of s L1 s1] by (auto simp: st)
      qed
    qed
  qed
  then show ?thesis using assms(2) by simp
qed

lemma psk_flight_loop_sound:
  assumes "sha256_ok C H R" "kdf_ok C" "hmac_ok C M" "length (hk_sHs k) = 32"
    and "psk_loop_ok H R (M (hkdf_expand C 32 (hk_sHs k) ''finished'' [])) m0 L"
    and "psk_flight_loop C k recv L s = Some (Inr tc, s')"
  shows "\<exists>eb. wn_CheckEncExt eb False = Inr () \<and> tdigest tc = WC_SHA256 \<and>
    R (thash tc) (m0 @ hs_msg 8 eb @ hs_msg 20 (M (hkdf_expand C 32 (hk_sHs k) ''finished'' []) (H (m0 @ hs_msg 8 eb))))"
  using psk_loop_inv [where Q = "psk_loop_ok H R (M (hkdf_expand C 32 (hk_sHs k) ''finished'' [])) m0" and E = "\<lambda>_. True",
      OF assms(6,5) psk_record_sound [OF assms(1-4)]] by (fastforce simp: psk_loop_ok_def)

text \<open>The binder over a truncated ClientHello, from the early secret of the pre-shared key.\<close>

definition psk_binder :: "'x crypto \<Rightarrow> (bytes \<Rightarrow> bytes) \<Rightarrow> (bytes \<Rightarrow> bytes \<Rightarrow> bytes) \<Rightarrow> bytes \<Rightarrow> bytes \<Rightarrow> bytes" where
  "psk_binder C H M psk chm =
     M (hkdf_expand C 32 (hkdf_expand C 32 (hkdf_extract C [] psk) ''ext binder'' (H [])) ''finished'' []) (H chm)"

text \<open>The ClientHello is what the builder writes, with the binder over the part before it.\<close>

definition bound_hello ::
  "build \<Rightarrow> 'x crypto \<Rightarrow> (bytes \<Rightarrow> bytes) \<Rightarrow> (bytes \<Rightarrow> bytes \<Rightarrow> bytes) \<Rightarrow> bytes \<Rightarrow> bytes \<Rightarrow> bytes \<Rightarrow> bytes \<Rightarrow> bytes \<Rightarrow> bytes \<Rightarrow> bytes \<Rightarrow> bool" where
  "bound_hello B C H M psk identity scr random sid pub chm \<longleftrightarrow>
     (\<exists>w truncOff binderOff.
        build_client_hello B (wn_Writer_Init scr (length scr)) random sid pub (WN_DEFAULT_GROUP B) identity = (w, truncOff, binderOff) \<and>
        \<not> werr w \<and>
        chm = take (wlen w) (mem_put (wbuf w) binderOff (psk_binder C H M psk (take truncOff (wbuf w)))))"

lemma psk_client_hello_sound:
  assumes ok: "sha256_ok C H R" "kdf_ok C" "hmac_ok C M"
    and ho: "tdigest (ho_tc ho) = WC_SHA256" "R (thash (ho_tc ho)) []" "ho_emptyHash ho = H []"
    and run: "psk_client_hello B C send psk identity random pub ho s = Some (Inr po, s')"
  shows "\<exists>chm. bound_hello B C H M psk identity (e_scr s) random (ho_sid ho) pub chm \<and>
    tdigest (ho_tc po) = WC_SHA256 \<and> R (thash (ho_tc po)) chm \<and> ho_emptyHash po = H [] \<and>
    ho_sid po = ho_sid ho \<and> ho_ks po = ho_ks ho \<and> po_early po = hkdf_extract C [] psk"
proof -
  have hl: "length (H x) = 32" for x using ok(1) by (simp add: sha256_ok_def)
  have ml: "length (M k x) = 32" for k x using ok(3) by (simp add: hmac_ok_def)
  have sh: "wc_Sha256Hash C x = (0, H x)" for x using ok(1) by (simp add: sha256_ok_def)
  have el: "length (hkdf_extract C [] psk) = 32" using ok(2) by simp
  have bl: "length (hkdf_expand C 32 (hkdf_extract C [] psk) ''ext binder'' (H [])) = 32" using ok(2) by simp
  obtain w truncOff binderOff where b: "build_client_hello B (wn_Writer_Init (e_scr s) (length (e_scr s))) random (ho_sid ho) pub
      (WN_DEFAULT_GROUP B) identity = (w, truncOff, binderOff)" by (metis prod_cases3)
  let ?mac = "psk_binder C H M psk (take truncOff (wbuf w))"
  have mac: "wn_Tls13_FinishedMac C stack32 (Some (hkdf_expand C 32 (hkdf_extract C [] psk) ''ext binder'' (H []))) (Some (H (take truncOff (wbuf w))))
      32 WC_SHA256 = (0, ?mac)"
    unfolding psk_binder_def by (rule FinishedMac_ok [OF ok(2,3) bl hl])
  note code = run [unfolded psk_client_hello_def ho(3) Extract_ok [OF ok(2)] DeriveSecret_ok [OF ok(2) el hl] sh prod.case]
  let ?scr = "mem_put (wbuf w) binderOff ?mac"
  let ?chm = "take (wlen w) ?scr"
  obtain tc where tc: "wn_Transcript_Update C (ho_tc ho) (Some ?chm) (length ?chm) = (0, tc)" "tdigest tc = WC_SHA256" "R (thash tc) ([] @ ?chm)"
    using sha256_update [OF ok(1) ho(1,2)] by blast
  from code obtain x b where 1: "(case finish_w E_CRYPTO w of (res, buf) \<Rightarrow> (bindE res (\<lambda>chLen. Inr (chLen, truncOff, binderOff)), buf)) = (Inr x, b)"
    and code1: "(case x of (chLen, truncOff, binderOff) \<Rightarrow>
     bind_s (pure_s (okI (0 OR 0, ()))) (\<lambda>_.
     bind_s get_s (\<lambda>s.
     bind_s (pure_s (crypt 0)) (\<lambda>_.
     bind_s (pure_s (okI (wn_Tls13_FinishedMac C stack32 (Some (hkdf_expand C 32 (hkdf_extract C [] psk) ''ext binder'' (H [])))
       (Some (H (take truncOff (e_scr s)))) 32 WC_SHA256))) (\<lambda>binder.
     bind_s (on_scr (\<lambda>scr. (Inr (), mem_put scr binderOff (take 32 binder)))) (\<lambda>_.
     bind_s get_s (\<lambda>s1.
     bind_s (pure_s (okI (wn_Transcript_Update C (ho_tc ho) (Some (e_scr s1)) chLen))) (\<lambda>tc.
     bind_s (on_io (\<lambda>w. send_plain_record send w 22 (take chLen (e_scr s1)))) (\<lambda>_.
     bind_s (on_io (send_ccs send)) (\<lambda>_.
       ret_s \<lparr>ho_tc = tc, ho_ks = ho_ks ho, ho_sid = ho_sid ho, ho_emptyHash = H [], po_early = hkdf_extract C [] psk\<rparr>)))))))))) (s\<lparr>e_scr := b\<rparr>) =
        Some (Inr po, s')"
    by (elim scr_okE) (simp only: b prod.case)
  have we: "\<not> woob w" "\<not> werr w" and x: "x = (wlen w, truncOff, binderOff)" "b = wbuf w"
    using 1 by (auto simp: finish_w_def bindE_eq_Inr split: if_splits)
  obtain u where up: "wn_Transcript_Update C (ho_tc ho) (Some ?scr) (wlen w) = (0, u)"
    and po: "po = \<lparr>ho_tc = u, ho_ks = ho_ks ho, ho_sid = ho_sid ho, ho_emptyHash = H [], po_early = hkdf_extract C [] psk\<rparr>"
    using code1 unfolding x prod.case bind_get env.select_convs env.simps mac
    by (elim pure_okE scr_okE io_okE ret_okE) (auto simp: okI_eq_Inr ml mac [unfolded psk_binder_def] psk_binder_def)
  have "u = tc" using up tc(1) unfolding update_take by simp
  then have "tdigest (ho_tc po) = WC_SHA256 \<and> R (thash (ho_tc po)) ?chm \<and> ho_emptyHash po = H [] \<and>
    ho_sid po = ho_sid ho \<and> ho_ks po = ho_ks ho \<and> po_early po = hkdf_extract C [] psk"
    using tc(2,3) po by simp
  moreover have "bound_hello B C H M psk identity (e_scr s) random (ho_sid ho) pub ?chm"
    unfolding bound_hello_def using b we by blast
  ultimately show ?thesis by blast
qed


lemma psk_init_sound:
  assumes "sha256_ok C H R" "psk_init B C X tc0 ks0 s = Some (Inr (random, pub, ho), s')"
  shows "tdigest (ho_tc ho) = WC_SHA256 \<and> R (thash (ho_tc ho)) [] \<and> ho_emptyHash ho = H [] \<and> e_scr s' = e_scr s"
proof -
  have h: "wc_Sha256Hash C [] = (0, H [])" using assms(1) by (simp add: sha256_ok_def)
  obtain tc where tc: "wn_Transcript_Init C tc0 WC_SHA256 = (0, tc)" "tdigest tc = WC_SHA256" "R (thash tc) []"
    using Transcript_Init_ok [OF assms(1), of tc0] by (cases "wn_Transcript_Init C tc0 WC_SHA256") (auto simp: tr_absorbed_def)
  obtain r4 ks1 where k: "wn_KeyShare_Init B X (ks_hybrid ks0) ks0 (WN_DEFAULT_GROUP B) = (r4, ks1)" by fastforce
  show ?thesis
    using assms(2) unfolding psk_init_def h k tc(1) prod.case case_prod_beta
    by (elim pure_okE rng_okE ret_okE) (auto simp: tc okI_eq_Inr)
qed

lemma psk_hs_keys_eq:
  assumes "sha256_ok C H R" "kdf_ok C" "tdigest tc = WC_SHA256" "R (thash tc) m" "length early = 32"
  shows "psk_hs_keys C tc early ecdhe (H []) =
    (let hs = hs_secret C early (H []) ecdhe; cHs = hkdf_expand C 32 hs ''c hs traffic'' (H m); sHs = hkdf_expand C 32 hs ''s hs traffic'' (H m) in
     (0, \<lparr>hk_hs = hs, hk_cHs = cHs, hk_sHs = sHs, hk_cKey = traffic_key C cHs, hk_cIv = traffic_iv C cHs,
          hk_sKey = traffic_key C sHs, hk_sIv = traffic_iv C sHs\<rparr>))"
proof -
  have "length (H x) = 32" for x using assms(1) by (simp add: sha256_ok_def)
  then show ?thesis
    by (simp add: psk_hs_keys_def sha256_get [OF assms(1,3,4)] client_copies DeriveHsKeys_eq [OF assms(2,5)] Let_def)
qed

text \<open>The steps of a driver run that succeeds.\<close>

lemma connect_psk_run:
  assumes "connect_psk_steps B C X tc0 ks0 send recv psk identity s = Some (Inr (hs, eh, th), s')"
  obtains random pub ho s1 po s2 rec io tc ecdhe k s3 tc1 s4 where
    "psk_init B C X tc0 ks0 s = Some (Inr (random, pub, ho), s1)"
    "psk_client_hello B C send psk identity random pub ho s1 = Some (Inr po, s2)"
    "on_server_hello B C X (hello_out.truncate po) 0 rec io = Inr (tc, ecdhe)"
    "psk_hs_keys C tc (po_early po) ecdhe (ho_emptyHash po) = (0, k)"
    "psk_flight_loop C k recv (psk_flight_begin tc) s3 = Some (Inr tc1, s4)"
    "psk_finish C send k tc1 s4 = Some (Inr th, s')" "hs = hk_hs k" "eh = ho_emptyHash po"
proof -
  obtain random pub ho s1 where 1: "psk_init B C X tc0 ks0 s = Some (Inr (random, pub, ho), s1)"
    and r1: "bind_s (psk_client_hello B C send psk identity random pub ho) (\<lambda>po.
     bind_s (psk_server_hello B C X recv po) (\<lambda>(tc, ecdhe).
     bind_s (pure_s (okI (psk_hs_keys C tc (po_early po) ecdhe (ho_emptyHash po)))) (\<lambda>k.
     bind_s (psk_flight_loop C k recv (psk_flight_begin tc)) (\<lambda>tc1.
     bind_s (psk_finish C send k tc1) (\<lambda>th.
       ret_s (hk_hs k, ho_emptyHash po, th)))))) s1 = Some (Inr (hs, eh, th), s')"
    using assms unfolding connect_psk_steps_def by (elim bind_sE) (auto split: prod.splits)
  obtain po s2 tc ecdhe s3 where 2: "psk_client_hello B C send psk identity random pub ho s1 = Some (Inr po, s2)"
      "psk_server_hello B C X recv po s2 = Some (Inr (tc, ecdhe), s3)"
    and r2: "bind_s (pure_s (okI (psk_hs_keys C tc (po_early po) ecdhe (ho_emptyHash po)))) (\<lambda>k.
     bind_s (psk_flight_loop C k recv (psk_flight_begin tc)) (\<lambda>tc1.
     bind_s (psk_finish C send k tc1) (\<lambda>th.
       ret_s (hk_hs k, ho_emptyHash po, th)))) s3 = Some (Inr (hs, eh, th), s')"
    using r1 by (elim bind_sE) (auto split: prod.splits)
  obtain rec io where 3: "on_server_hello B C X (hello_out.truncate po) 0 rec io = Inr (tc, ecdhe)"
    using 2(2) by (auto simp: psk_server_hello_def split: option.splits)
  show thesis
    using r2 by (elim pure_okE bind_sE ret_okE) (rule that [OF 1 2(1) 3], simp_all add: okI_eq_Inr)
qed

lemma psk_message_nz: "nz (psk_message C sHs msg L)"
  unfolding psk_message_def Let_def by (intro nz_rules)

lemma psk_messages_nz: "nz (psk_messages C sHs L)"
proof (induction "pf_accLen L - pf_accOff L" arbitrary: L rule: less_induct)
  case less
  define off where "off = pf_accOff L"
  define mLen where "mLen = dec24 (pf_plain L ! (off + 1)) (pf_plain L ! (off + 2)) (pf_plain L ! (off + 3))"
  note code = psk_messages.simps [of C sHs L, unfolded Let_def, folded off_def, folded mLen_def]
  let ?m = "psk_message C sHs (slice off (4 + mLen) (pf_plain L)) (L\<lparr>pf_accOff := off + 4 + mLen\<rparr>)"
  have "nz (bindE ?m (psk_messages C sHs))" if "\<not> pf_accLen L - off < 4"
  proof (cases ?m)
    case (Inl e)
    then show ?thesis using psk_message_nz by (metis bindE_Inl)
  next
    case (Inr L1)
    then show ?thesis using less [of L1] psk_message_keeps [OF Inr] that by (simp add: off_def)
  qed
  then show ?case unfolding code by (auto simp: nz_def)
qed

lemma psk_record_nz: "psk_record C k recv L s = Some (Inl e, s') \<Longrightarrow> e \<noteq> 0"
  using psk_messages_nz by (fastforce simp: psk_record_def nz_def Let_def split: sum.splits prod.splits if_splits)

lemma connect_psk_nz: "nzs (connect_psk_steps B C X tc0 ks0 send recv psk identity)"
proof -
  have sh: "nzs (psk_server_hello B C X recv po)" for po
    using server_hello_nz [of B C X "hello_out.truncate po"]
    by (fastforce simp: nzs_def psk_server_hello_def nz_def split: option.splits)
  have fl: "nzs (psk_flight_loop C k recv L)" for k L
  proof (unfold nzs_def, intro allI impI)
    fix s e s'
    assume "psk_flight_loop C k recv L s = Some (Inl e, s')"
    from psk_loop_inv [OF this, of "\<lambda>_. True" "\<lambda>e. e \<noteq> 0"] show "e \<noteq> 0" using psk_record_nz by blast
  qed
  show ?thesis
    unfolding connect_psk_steps_def psk_init_def psk_client_hello_def psk_finish_def case_prod_beta
    by (intro nzs_rules nzs_rng sh fl) (auto intro!: nz_rules split: prod.splits)
qed

lemma psk_finish_th:
  assumes "sha256_ok C H R" "tdigest tc = WC_SHA256" "R (thash tc) m" "psk_finish C send k tc s = Some (Inr th, s')"
  shows "th = H m"
  using assms(4) unfolding psk_finish_def sha256_get [OF assms(1-3)] prod.case
  by (elim pure_okE scr_okE) (auto simp: bind_get elim!: io_okE ret_okE)


subsection \<open>Properties\<close>

text \<open>C4. A handshake the PSK driver reports as successful authenticated the server by the pre-shared
  key: over the ClientHello with the key's binder and an acceptable ServerHello that selects the one
  identity offered, the server's Finished is the MAC under the handshake secret derived from the key and
  the shared secret, over everything before it; and the session it returns is established with
  application secrets derived from that secret and the whole transcript.\<close>

theorem connect_psk_authenticates:
  assumes "sha256_ok C H R" "kdf_ok C" "hmac_ok C M"
    and "wn_Connect_Psk_ex B C X tc0 ks0 sess rng ioS ioR w psk identity scr = Some (0, sess', rng', w', scr')"
  shows "\<exists>key idn random sid pub chm shm sh ks n out hs m0 eb m.
    psk = Some key \<and> key \<noteq> [] \<and> identity = Some idn \<and>
    bound_hello B C H M key idn scr random sid pub chm \<and>
    wn_ServerHello_Parse (Some shm) = Inr sh \<and> \<not> sh_isHelloRetry sh \<and> sh_acceptable B sid 0 shm sh \<and>
    wn_KeyShare_Shared B X ks (Some (slice (the (sh_keyShare sh)) (sh_keyShareLen sh) shm)) (replicate (WN_DEFAULT_SECRET_SZ B) 0) =
      (Inr n, out) \<and>
    m0 = chm @ shm \<and> hs = hs_secret C (hkdf_extract C [] key) (H []) (take n out) \<and>
    wn_CheckEncExt eb False = Inr () \<and>
    m = m0 @ hs_msg 8 eb @
      hs_msg 20 (M (hkdf_expand C 32 (hkdf_expand C 32 hs ''s hs traffic'' (H m0)) ''finished'' []) (H (m0 @ hs_msg 8 eb))) \<and>
    sess_established sess' \<and>
    cAppSecret sess' = app_secret C hs (H []) (replicate 32 0) (H m) (our_label Client) \<and>
    sAppSecret sess' = app_secret C hs (H []) (replicate 32 0) (H m) (peer_label Client)"
proof -
  have hl: "length (H x) = 32" for x using assms(1) by (simp add: sha256_ok_def)
  have args: "\<not> (ioS = None \<or> ioR = None \<or> psk = None \<or> psk = Some [] \<or> identity = None \<or> length scr < 2048 \<or> length (the identity) > 0xFFFF)"
    using assms(4) by (rule_tac notI) (simp add: wn_Connect_Psk_ex_def)
  then obtain send recv key idn where io: "ioS = Some send" "ioR = Some recv" "psk = Some key" "key \<noteq> []" "identity = Some idn"
    by (cases psk) auto
  obtain hs eh th s' where steps: "connect_psk_steps B C X tc0 ks0 send recv key idn \<lparr>e_rng = rng, e_w = w, e_scr = scr\<rparr> = Some (Inr (hs, eh, th), s')"
    and est: "client_SessionEstablish C session_zero hs eh (replicate 32 0) th ioS ioR (e_scr s') (length (e_scr s')) = (0, sess')"
    using assms(4) args io connect_psk_nz [of B C X tc0 ks0 send recv key idn]
    by (auto simp: wn_Connect_Psk_ex_def nzs_def split: option.splits sum.splits prod.splits)
  obtain random pub ho s1 po s2 rec io' tc ecdhe k s3 tc1 s4 where run:
    "psk_init B C X tc0 ks0 \<lparr>e_rng = rng, e_w = w, e_scr = scr\<rparr> = Some (Inr (random, pub, ho), s1)"
    "psk_client_hello B C send key idn random pub ho s1 = Some (Inr po, s2)"
    "on_server_hello B C X (hello_out.truncate po) 0 rec io' = Inr (tc, ecdhe)"
    "psk_hs_keys C tc (po_early po) ecdhe (ho_emptyHash po) = (0, k)"
    "psk_flight_loop C k recv (psk_flight_begin tc) s3 = Some (Inr tc1, s4)"
    "psk_finish C send k tc1 s4 = Some (Inr th, s')" "hs = hk_hs k" "eh = ho_emptyHash po"
    by (rule connect_psk_run [OF steps])
  note i = psk_init_sound [OF assms(1) run(1)]
  obtain chm where ch: "bound_hello B C H M key idn scr random (ho_sid ho) pub chm" "tdigest (ho_tc po) = WC_SHA256"
      "R (thash (ho_tc po)) chm" "ho_emptyHash po = H []" "ho_sid po = ho_sid ho" "po_early po = hkdf_extract C [] key"
    using psk_client_hello_sound [OF assms(1-3) _ _ _ run(2)] i by auto
  have tr: "ho_tc (hello_out.truncate po) = ho_tc po" "ho_sid (hello_out.truncate po) = ho_sid po" by (simp_all add: hello_out.defs)
  obtain shm sh n out where sh: "wn_ServerHello_Parse (Some shm) = Inr sh" "\<not> sh_isHelloRetry sh" "sh_acceptable B (ho_sid ho) 0 shm sh"
      "wn_KeyShare_Shared B X (ho_ks (hello_out.truncate po)) (Some (slice (the (sh_keyShare sh)) (sh_keyShareLen sh) shm))
        (replicate (WN_DEFAULT_SECRET_SZ B) 0) = (Inr n, out)"
      "ecdhe = take n out" "tdigest tc = WC_SHA256" "R (thash tc) (chm @ shm)"
    using on_server_hello_sound [OF assms(1) _ _ run(3), unfolded tr, OF ch(2,3)] ch(5) by auto
  let ?m0 = "chm @ shm" and ?hs = "hs_secret C (hkdf_extract C [] key) (H []) ecdhe"
  let ?sHs = "hkdf_expand C 32 ?hs ''s hs traffic'' (H ?m0)"
  have el: "length (hkdf_extract C [] key) = 32" using assms(2) by simp
  have k: "hk_sHs k = ?sHs" "hk_hs k = ?hs"
    using run(4) by (auto simp: ch(4,6) psk_hs_keys_eq [OF assms(1,2) sh(6,7) el] Let_def)
  have l: "length (hk_sHs k) = 32" "length (hk_hs k) = 32" using assms(2) by (simp_all add: k length_hs_secret)
  obtain eb where eb: "wn_CheckEncExt eb False = Inr ()" "tdigest tc1 = WC_SHA256"
      "R (thash tc1) (?m0 @ hs_msg 8 eb @ hs_msg 20 (M (hkdf_expand C 32 ?sHs ''finished'' []) (H (?m0 @ hs_msg 8 eb))))"
    using psk_flight_loop_sound [OF assms(1-3) l(1) psk_flight_begin_ok [where R = R, OF sh(6,7)] run(5)] unfolding k(1) by blast
  note th = psk_finish_th [OF assms(1) eb(2,3) run(6)]
  have "sess_established sess' \<and>
    cAppSecret sess' = app_secret C ?hs (H []) (replicate 32 0) th (our_label Client) \<and>
    sAppSecret sess' = app_secret C ?hs (H []) (replicate 32 0) th (peer_label Client)"
    using est l(2) unfolding run(7,8) ch(4) k(2) th
    by (auto simp: client_copies SessionEstablish_eq [OF assms(2) _ hl hl] Let_def sess_established_def)
  then show ?thesis using io(3-5) ch(1) sh(1-5) eb(1) th by blast
qed

end
