(* ===== verification/Builders.thy ===== *)
theory Builders
  imports ServerCert ClientHello
begin

section \<open>The builders keep the size of their buffer\<close>

text \<open>
  Whatever a writer does, and whether or not it latches its error, the buffer behind it keeps
  its length. So do the message builders, which the drivers run on parts of one buffer.
\<close>

definition keeps :: "(writer \<Rightarrow> writer) \<Rightarrow> bool" where
  "keeps f \<longleftrightarrow> (\<forall>w. length (wbuf (f w)) = length (wbuf w))"

lemma keepsD: "keeps f \<Longrightarrow> length (wbuf (f w)) = length (wbuf w)"
  by (simp add: keeps_def)

lemma keeps_put [simp]:
  "length (wbuf (put_byte i v w)) = length (wbuf w)" "length (wbuf (put_bytes off src n w)) = length (wbuf w)"
  by (simp_all add: put_byte_def put_bytes_def)

lemma keeps_put_len [simp]: "length (wbuf (put_len p c k i m w)) = length (wbuf w)"
  by (induction p c k i m w rule: put_len.induct) simp_all

lemma keeps_write:
  "keeps (wn_Write_U8 v)" "keeps (wn_Write_U16 u)" "keeps (wn_Write_Bytes p n)" "keeps (wn_Write_LenEnd off k)"
  by (simp_all add: keeps_def wn_Write_U8_def wn_Write_U16_def wn_Write_Bytes_def wn_Write_LenEnd_def)

lemma keeps_funpow: "keeps f \<Longrightarrow> keeps (f ^^ n)"
  by (induction n) (simp_all add: keeps_def)

lemma keeps_LenStart: "length (wbuf (snd (wn_Write_LenStart k w))) = length (wbuf w)"
  using keepsD [OF keeps_funpow [OF keeps_write(1)]] by (simp add: wn_Write_LenStart_def Let_def)

lemma keeps_vec: "keeps f \<Longrightarrow> keeps (wn_vec k f)"
  using keeps_LenStart [of k] keepsD [OF keeps_write(4)] by (simp add: keeps_def wn_vec_def split: prod.split) (metis snd_conv)

lemma keeps_run: "list_all keeps fs \<Longrightarrow> keeps (run_w fs)"
proof (induction fs)
  case Nil
  then show ?case by (simp add: keeps_def run_w_def)
next
  case (Cons f fs)
  then show ?case by (simp add: keeps_def run_w_def)
qed

lemma keeps_when: "keeps f \<Longrightarrow> keeps (\<lambda>w. if c then f w else w)"
  by (simp add: keeps_def)

lemma keeps_sigs: "list_all keeps (sig_alg_writes B)"
  by (simp add: sig_alg_writes_def keeps_write split: option.split)

lemma keeps_finish: "keeps f \<Longrightarrow> length (snd (finish_w e (f (wn_Writer_Init buf cap)))) = length buf"
  by (simp add: finish_w_def keeps_def wn_Writer_Init_def)

lemmas keeps_rules = keeps_finish keeps_run keeps_vec keeps_when keeps_write

lemma length_ServerHello_Build: "length (snd (wn_ServerHello_Build out rnd sid cph grp pub psk incl)) = length out"
  unfolding wn_ServerHello_Build_def Let_def
  by (simp add: keeps_rules)

lemma length_EncExt_Build: "length (snd (wn_EncExt_Build out)) = length out"
  by (simp add: wn_EncExt_Build_def keeps_rules)

lemma length_ServerCert_Build: "length (snd (wn_ServerCert_Build out der)) = length out"
  by (simp add: wn_ServerCert_Build_def keeps_rules)

lemma length_ClientHello_Build: "length (snd (wn_ClientHello_Build_ex B out rnd sid pub name)) = length out"
  unfolding wn_ClientHello_Build_ex_def Let_def
  by (simp add: keeps_rules keeps_sigs)

lemma length_Sign: "length (fst (snd (wn_ServerCertVerify_Sign B X out scheme key th rng))) = length out"
proof -
  obtain b w1 where w1: "wn_Write_LenStart 3 (wn_Write_U8 15 (wn_Writer_Init out (length out))) = (b, w1)" by fastforce
  obtain l w2 where w2: "wn_Write_LenStart 2 (wn_Write_U16 scheme w1) = (l, w2)" by fastforce
  have "length (wbuf w1) = length out"
    using keeps_LenStart [of 3 "wn_Write_U8 15 (wn_Writer_Init out (length out))"]
    by (simp add: w1 keepsD [OF keeps_write(1)]) (simp add: wn_Writer_Init_def)
  then have "length (wbuf w2) = length out"
    using keeps_LenStart [of 2 "wn_Write_U16 scheme w1"] keepsD [OF keeps_write(2)] by (simp add: w2)
  then show ?thesis
    by (simp add: wn_ServerCertVerify_Sign_def w1 w2 Let_def finish_w_def keepsD [OF keeps_write(4)] split: prod.split sum.split)
qed

end
