(* ===== verification/PskHello.thy ===== *)
theory PskHello
  imports ClientPsk ClientHelloRound Builders
begin

section \<open>The ClientHello with a pre-shared key\<close>

text \<open>
  What the PSK driver's builder writes, with the binder in its place, and what the server's
  parser finds in it: the key share, the identity, the binder and the length the binder covers.
\<close>

subsection \<open>What the builder writes\<close>

definition psk_sig_list :: "build \<Rightarrow> word16 list" where
  "psk_sig_list B = (case have_mldsa B of Some n \<Rightarrow> [mldsa_scheme n] | None \<Rightarrow> []) @ [0x0807, 0x0403]"

definition psk_sig_bytes :: "build \<Rightarrow> bytes" where
  "psk_sig_bytes B = concat (map be16 (psk_sig_list B))"

definition psk_ids :: "bytes \<Rightarrow> bytes" where
  "psk_ids idn = be16 (of_nat (length idn)) @ idn @ be16 0 @ be16 0"

definition psk_list :: "bytes \<Rightarrow> bytes \<Rightarrow> bytes" where
  "psk_list idn bnd = be16 (of_nat (length (psk_ids idn))) @ psk_ids idn @ be16 33 @ 32 # bnd"

definition psk_exts :: "build \<Rightarrow> bytes \<Rightarrow> bytes \<Rightarrow> bytes \<Rightarrow> bytes" where
  "psk_exts B pub idn bnd =
     enc_ext 43 (2 # be16 0x0304) @ enc_ext 10 (be16 2 @ be16 (WN_DEFAULT_GROUP B)) @
     enc_ext 13 (be16 (of_nat (length (psk_sig_bytes B))) @ psk_sig_bytes B) @ share_ext (WN_DEFAULT_GROUP B) pub @
     enc_ext 45 [1, 1] @ enc_ext 41 (psk_list idn bnd)"

definition psk_msg :: "build \<Rightarrow> bytes \<Rightarrow> bytes \<Rightarrow> bytes \<Rightarrow> bytes \<Rightarrow> bytes \<Rightarrow> bytes" where
  "psk_msg B rnd sid pub idn bnd = ch_msg (ch_body rnd sid (psk_exts B pub idn bnd))"

lemma length_psk_sig: "length (psk_sig_bytes B) = (if have_mldsa B = None then 4 else 6)"
  by (simp add: psk_sig_bytes_def psk_sig_list_def split: option.split)

lemma length_psk_msg:
  "length (psk_msg B rnd sid pub idn bnd) = 67 + length rnd + length sid + length (psk_sig_bytes B) + length pub + length idn + length bnd"
  by (simp add: psk_msg_def ch_msg_def ch_body_def psk_exts_def share_ext_def psk_list_def psk_ids_def)

lemma psk_sig_emits:
  "emits (run_w (psk_sig_writes B)) (be16 (of_nat (2 + length (psk_sig_bytes B))) @ be16 (of_nat (length (psk_sig_bytes B))) @ psk_sig_bytes B)"
proof -
  show ?thesis
  proof (cases "have_mldsa B")
    case None
    then have w: "psk_sig_writes B = [wn_Write_U16 6, wn_Write_U16 4] @ map wn_Write_U16 (psk_sig_list B)" and l: "length (psk_sig_bytes B) = 4"
      by (simp_all add: psk_sig_writes_def psk_sig_list_def length_psk_sig)
    show ?thesis unfolding w l psk_sig_bytes_def append_Cons append_Nil
      by (rule emits_eq, (rule emits_u16s emits_run_Cons emits_U16)+) (simp add: psk_sig_list_def None)
  next
    case (Some n)
    then have w: "psk_sig_writes B = [wn_Write_U16 8, wn_Write_U16 6] @ map wn_Write_U16 (psk_sig_list B)" and l: "length (psk_sig_bytes B) = 6"
      by (simp_all add: psk_sig_writes_def psk_sig_list_def length_psk_sig)
    show ?thesis unfolding w l psk_sig_bytes_def append_Cons append_Nil
      by (rule emits_eq, (rule emits_u16s emits_run_Cons emits_U16)+) (simp add: psk_sig_list_def Some)
  qed
qed

definition hello_writes :: "bytes \<Rightarrow> bytes \<Rightarrow> (writer \<Rightarrow> writer) list" where
  "hello_writes rnd sid = [wn_Write_U16 0x0303, wn_Write_Bytes (Some rnd) 32, wn_Write_U8 32, wn_Write_Bytes (Some sid) 32,
                      wn_Write_U16 2, wn_Write_U16 0x1301, wn_Write_U8 1, wn_Write_U8 0]"

definition ext_writes :: "build \<Rightarrow> bytes \<Rightarrow> (writer \<Rightarrow> writer) list" where
  "ext_writes B pub = [wn_Write_U16 43, wn_Write_U16 3, wn_Write_U8 2, wn_Write_U16 0x0304,
                       wn_Write_U16 10, wn_Write_U16 4, wn_Write_U16 2, wn_Write_U16 (WN_DEFAULT_GROUP B), wn_Write_U16 13,
                       run_w (psk_sig_writes B),
                       wn_Write_U16 51, wn_Write_U16 (of_nat (6 + length pub)), wn_Write_U16 (of_nat (4 + length pub)), wn_Write_U16 (WN_DEFAULT_GROUP B),
                       wn_Write_U16 (of_nat (length pub)), wn_Write_Bytes (Some pub) (length pub),
                       wn_Write_U16 45, wn_Write_U16 2, wn_Write_U8 1, wn_Write_U8 1, wn_Write_U16 41]"

definition id_writes :: "bytes \<Rightarrow> (writer \<Rightarrow> writer) list" where
  "id_writes idn = [wn_Write_U16 (of_nat (length idn)), wn_Write_Bytes (Some idn) (length idn), wn_Write_U16 0, wn_Write_U16 0]"

text \<open>The builder with its open length fields: up to the binders, and whole.\<close>

definition hello_open :: "build \<Rightarrow> bytes \<Rightarrow> bytes \<Rightarrow> bytes \<Rightarrow> bytes \<Rightarrow> writer \<Rightarrow> writer" where
  "hello_open B rnd sid pub idn = run_w ([wn_Write_U8 1, wn_Write_U8 0 ^^ 3] @ hello_writes rnd sid @ [wn_Write_U8 0 ^^ 2] @
     ext_writes B pub @ [wn_Write_U8 0 ^^ 2, wn_vec 2 (run_w (id_writes idn))])"

definition hello_whole :: "build \<Rightarrow> bytes \<Rightarrow> bytes \<Rightarrow> bytes \<Rightarrow> bytes \<Rightarrow> writer \<Rightarrow> writer" where
  "hello_whole B rnd sid pub idn = run_w [wn_Write_U8 1, wn_vec 3 (run_w (hello_writes rnd sid @ [wn_vec 2 (run_w (ext_writes B pub @
     [wn_vec 2 (run_w [wn_vec 2 (run_w (id_writes idn)), wn_Write_U16 33, wn_Write_U8 32, wn_Write_U8 0 ^^ 32])]))]))]"

lemma build_client_hello_eq:
  "build_client_hello B w rnd sid pub (WN_DEFAULT_GROUP B) idn =
     (hello_whole B rnd sid pub idn w, wlen (hello_open B rnd sid pub idn w),
      wlen (run_w [wn_Write_U16 33, wn_Write_U8 32] (hello_open B rnd sid pub idn w)))"
  by (simp add: build_client_hello_def hello_whole_def hello_open_def wn_vec_def wn_Write_LenStart_def hello_writes_def ext_writes_def id_writes_def
      run_w_app run_w_one Let_def case_prod_beta)


lemma hello_emits:
  assumes "length rnd = 32" "length sid = 32" "length pub \<le> 1216" "length idn \<le> 255"
  shows "emits (hello_whole B rnd sid pub idn) (psk_msg B rnd sid pub idn (replicate 32 0))"
    "\<exists>V. emits (hello_open B rnd sid pub idn) V \<and> length V = length (psk_msg B rnd sid pub idn (replicate 32 0)) - 35"
proof -
  have b: "emits (wn_Write_Bytes (Some rnd) 32) rnd" "emits (wn_Write_Bytes (Some sid) 32) sid"
      "emits (wn_Write_Bytes (Some pub) (length pub)) pub" "emits (wn_Write_Bytes (Some idn) (length idn)) idn"
    using assms by (auto intro!: emits_Bytes_all)
  note rs = b psk_sig_emits emits_zeros emits_run_Cons emits_run_Nil emits_vec emits_U8 emits_U16
  have l: "length (psk_sig_bytes B) \<le> 6" by (simp add: length_psk_sig)
  show "emits (hello_whole B rnd sid pub idn) (psk_msg B rnd sid pub idn (replicate 32 0))"
    unfolding hello_whole_def hello_writes_def ext_writes_def id_writes_def append_Cons append_Nil
    by (rule emits_eq, (rule rs)+)
       (simp add: psk_msg_def ch_msg_def ch_body_def psk_exts_def share_ext_def enc_ext_def psk_list_def psk_ids_def be_len_2 be_len_3 assms(1,2) ac_simps)
  show "\<exists>V. emits (hello_open B rnd sid pub idn) V \<and> length V = length (psk_msg B rnd sid pub idn (replicate 32 0)) - 35"
    unfolding hello_open_def hello_writes_def ext_writes_def id_writes_def append_Cons append_Nil
    by (rule exI, rule conjI, (rule rs)+) (simp add: length_psk_msg assms(1,2) be_len_2)
qed


subsection \<open>The binder\<close>

text \<open>The message is the part the binder covers, the length of the binders and the binder.\<close>

definition psk_trunc :: "build \<Rightarrow> bytes \<Rightarrow> bytes \<Rightarrow> bytes \<Rightarrow> bytes \<Rightarrow> bytes" where
  "psk_trunc B rnd sid pub idn =
     (let m = psk_msg B rnd sid pub idn (replicate 32 0) in take (length m - 35) m)"

lemma psk_msg_split:
  assumes "length bnd = 32"
  shows "psk_msg B rnd sid pub idn bnd = psk_trunc B rnd sid pub idn @ be16 33 @ 32 # bnd"
proof -
  have "\<exists>G. \<forall>bnd. length bnd = 32 \<longrightarrow> psk_msg B rnd sid pub idn bnd = G @ be16 33 @ 32 # bnd"
  proof (rule exI, intro allI impI)
    fix bnd :: bytes
    assume l: "length bnd = 32"
    let ?E = "\<lambda>b. psk_exts B pub idn b" and ?z = "replicate 32 0 :: bytes"
    have e: "length (?E bnd) = length (?E ?z)" "length (psk_list idn bnd) = length (psk_list idn ?z)"
        "length (ch_body rnd sid (?E bnd)) = length (ch_body rnd sid (?E ?z))"
      using l by (simp_all add: psk_exts_def psk_list_def ch_body_def)
    show "psk_msg B rnd sid pub idn bnd = (1 # be24 (length (ch_body rnd sid (?E ?z))) @ be16 0x0303 @ rnd @ [of_nat (length sid)] @ sid @
        be16 2 @ be16 0x1301 @ [1, 0] @ be16 (of_nat (length (?E ?z))) @
        enc_ext 43 (2 # be16 0x0304) @ enc_ext 10 (be16 2 @ be16 (WN_DEFAULT_GROUP B)) @
        enc_ext 13 (be16 (of_nat (length (psk_sig_bytes B))) @ psk_sig_bytes B) @ share_ext (WN_DEFAULT_GROUP B) pub @
        enc_ext 45 [1, 1] @ be16 41 @ be16 (of_nat (length (psk_list idn ?z))) @ be16 (of_nat (length (psk_ids idn))) @ psk_ids idn) @
        be16 33 @ 32 # bnd"
      unfolding psk_msg_def ch_msg_def e(3) unfolding ch_body_def e(1)
      by (simp add: psk_exts_def enc_ext_def [of 41] e(2)) (simp add: psk_list_def)
  qed
  then obtain G where G: "length bnd = 32 \<Longrightarrow> psk_msg B rnd sid pub idn bnd = G @ be16 33 @ 32 # bnd" for bnd by blast
  have "psk_trunc B rnd sid pub idn = G"
    using G [of "replicate 32 0"] by (simp add: psk_trunc_def Let_def)
  then show ?thesis using G [OF assms] by simp
qed

lemma psk_hello_built:
  assumes "length rnd = 32" "length sid = 32" "length pub \<le> 1216" "length idn \<le> 255" "2000 \<le> length scr" "length scr < 2147483648"
  shows "\<exists>w. build_client_hello B (wn_Writer_Init scr (length scr)) rnd sid pub (WN_DEFAULT_GROUP B) idn =
      (w, length (psk_trunc B rnd sid pub idn), length (psk_trunc B rnd sid pub idn) + 3) \<and>
    \<not> werr w \<and> \<not> woob w \<and> wlen w = length (psk_trunc B rnd sid pub idn) + 35 \<and>
    take (wlen w) (wbuf w) = psk_msg B rnd sid pub idn (replicate 32 0) \<and> length (wbuf w) = length scr"
    "length (psk_trunc B rnd sid pub idn) \<le> 1650"
proof -
  let ?m = "psk_msg B rnd sid pub idn (replicate 32 0)" and ?w0 = "wn_Writer_Init scr (length scr)"
  let ?W = "hello_whole B rnd sid pub idn ?w0" and ?V = "hello_open B rnd sid pub idn ?w0"
  have sp: "length ?m = length (psk_trunc B rnd sid pub idn) + 35" by (simp add: psk_msg_split)
  have l: "length ?m \<le> 1680" using assms(1-4) by (simp add: length_psk_msg length_psk_sig)
  then show "length (psk_trunc B rnd sid pub idn) \<le> 1650" using sp by simp
  note E = hello_emits [OF assms(1-4), of B]
  obtain V where V: "emits (hello_open B rnd sid pub idn) V" "length V = length (psk_trunc B rnd sid pub idn)"
    using E(2) sp by auto
  have V3: "emits (\<lambda>w. run_w [wn_Write_U16 33, wn_Write_U8 32] (hello_open B rnd sid pub idn w)) (V @ be16 33 @ [32])"
    by (rule emits_comp [OF V(1)], rule emits_eq, (rule emits_run_Cons emits_run_Nil emits_U8 emits_U16)+) simp
  have c: "wcap ?w0 = length scr" by (simp add: wn_Writer_Init_def)
  note ok = wok_Init [OF order_refl assms(6)]
  have fin: "\<not> werr (f ?w0) \<and> \<not> woob (f ?w0) \<and> wlen (f ?w0) = length bs \<and> take (length bs) (wbuf (f ?w0)) = bs"
    if "emits f bs" "length bs \<le> length scr" for f bs
  proof -
    have "wabs (f ?w0) = Some bs" using emitsD(3) [OF that(1) ok] that(2) by (simp add: wabs_Init c aput_def)
    then show ?thesis using wabs_SomeD [OF emitsD(1) [OF that(1) ok]] wok_safe [OF emitsD(1) [OF that(1) ok]] by blast
  qed
  have kp: "keeps (hello_whole B rnd sid pub idn)"
    unfolding hello_whole_def hello_writes_def ext_writes_def id_writes_def psk_sig_writes_def
    by (simp add: keeps_run keeps_vec keeps_write keeps_funpow split: option.split)
  show "\<exists>w. build_client_hello B ?w0 rnd sid pub (WN_DEFAULT_GROUP B) idn =
      (w, length (psk_trunc B rnd sid pub idn), length (psk_trunc B rnd sid pub idn) + 3) \<and>
    \<not> werr w \<and> \<not> woob w \<and> wlen w = length (psk_trunc B rnd sid pub idn) + 35 \<and>
    take (wlen w) (wbuf w) = ?m \<and> length (wbuf w) = length scr"
    unfolding build_client_hello_eq
    using fin [OF E(1)] fin [OF V(1)] fin [OF V3] keepsD [OF kp, of ?w0] l sp V(2) assms(5)
    by (intro exI [of _ ?W]) (simp add: wn_Writer_Init_def)
qed

lemma psk_binder_put:
  assumes "take (n + 35) buf = psk_msg B rnd sid pub idn (replicate 32 0)" "n = length (psk_trunc B rnd sid pub idn)"
    and "length bnd = 32" "n + 35 \<le> length buf"
  shows "take (n + 35) (mem_put buf (n + 3) bnd) = psk_msg B rnd sid pub idn bnd" "take n buf = psk_trunc B rnd sid pub idn"
proof -
  obtain rest where buf: "buf = (psk_trunc B rnd sid pub idn @ be16 33 @ [32] @ replicate 32 0) @ rest"
    using assms(1) append_take_drop_id [of "n + 35" buf] by (metis psk_msg_split length_replicate append_Cons append_Nil)
  show "take n buf = psk_trunc B rnd sid pub idn" by (simp add: buf assms(2))
  show "take (n + 35) (mem_put buf (n + 3) bnd) = psk_msg B rnd sid pub idn bnd"
    by (simp add: buf assms(2,3) mem_put_def psk_msg_split)
qed


subsection \<open>What the parser reads\<close>

lemma body_modes:
  assumes "length P + length R < 2147483000"
  shows "ch_ext_body B 45 el eEnd (rz P ([1, 1] @ R)) s = (rz (P @ [1, 1]) R, s\<lparr>havePskDhe := True\<rparr>)"
  using assms by (simp add: ch_ext_body_def ext_psk_modes_def mode_entry_def rz_U8)

lemma body_psk:
  assumes "length P < 2147000000" "0 < length idn" "length idn \<le> 255" "length bnd = 32" "eEnd = length P + length (psk_list idn bnd)"
  shows "ch_ext_body B 41 el eEnd (rz P (psk_list idn bnd)) s =
    (rz (P @ psk_list idn bnd) [], s\<lparr>cs_seenPsk := True, cs_out := (cs_out s)\<lparr>ch_pskIdentity := Some (length P + 4),
       ch_pskIdentityLen := length idn, ch_binderTruncLen := length P + 8 + length idn, ch_binder := Some (length P + 11 + length idn),
       ch_binderLen := 32, ch_havePsk := True\<rparr>\<rparr>)"
proof -
  have li: "length (psk_ids idn) = 6 + length idn" by (simp add: psk_ids_def)
  have u: "unat (of_nat (length idn) :: word16) = length idn" "unat (of_nat (length (psk_ids idn)) :: word16) = 6 + length idn"
      "(of_nat (length idn) :: word16) \<noteq> 0"
    using assms(2,3) unfolding li unat_of_nat_16 by (simp_all add: unat_eq_0 [symmetric] unat_of_nat_16)
  define T where "T = be16 33 @ 32 # bnd"
  define P1 where "P1 = P @ be16 (of_nat (length (psk_ids idn)))"
  define P2 where "P2 = P1 @ psk_ids idn"
  have lp: "length P1 = length P + 2" "length P2 = length P + 8 + length idn" by (simp_all add: P1_def P2_def li)
  have e: "eEnd = length P + 43 + length idn" by (simp add: assms(4,5) psk_list_def li)
  have T: "length T = 35" by (simp add: T_def assms(4))
  have 1: "wn_Read_U16 (rz P (psk_list idn bnd)) = (of_nat (length (psk_ids idn)), rz P1 (psk_ids idn @ T))"
    using assms by (simp add: psk_list_def rz_be16 P1_def T_def li)
  have 2: "identity_entry (rz P1 (psk_ids idn @ T), out, 0) =
      (rz P2 T, out\<lparr>ch_pskIdentity := Some (length P + 4), ch_pskIdentityLen := length idn\<rparr>, 1)" for out
  proof -
    have a: "wn_Read_U16 (rz P1 (psk_ids idn @ T)) = (of_nat (length idn), rz (P1 @ be16 (of_nat (length idn))) (idn @ (be16 0 @ be16 0) @ T))"
      using assms T lp by (simp add: psk_ids_def rz_be16)
    have b: "wn_Read_Bytes (length idn) (rz (P1 @ be16 (of_nat (length idn))) (idn @ (be16 0 @ be16 0) @ T)) =
        (Some (length P + 4), rz ((P1 @ be16 (of_nat (length idn))) @ idn) ((be16 0 @ be16 0) @ T))"
      using assms T lp by (subst rz_Bytes) simp_all
    have d: "wn_Read_Bytes 4 (rz ((P1 @ be16 (of_nat (length idn))) @ idn) ((be16 0 @ be16 0) @ T)) =
        (Some (length ((P1 @ be16 (of_nat (length idn))) @ idn)), rz P2 T)"
      using assms T lp by (subst rz_Bytes) (simp_all add: P2_def psk_ids_def)
    show ?thesis unfolding identity_entry_def prod.case a u(1) b d using u(3) by simp
  qed
  have 3: "wn_Read_U16 (rz P2 T) = (33, rz (P2 @ be16 33) (32 # bnd))"
    using assms lp by (simp add: T_def rz_be16)
  have 4: "binder_entry (rz (P2 @ be16 33) (32 # bnd), out, 0) =
      (rz (P @ psk_list idn bnd) [], out\<lparr>ch_binder := Some (length P + 11 + length idn), ch_binderLen := 32\<rparr>, 1)" for out
  proof -
    have a: "wn_Read_U8 (rz (P2 @ be16 33) (32 # bnd)) = (32, rz ((P2 @ be16 33) @ [32]) bnd)"
      using assms lp by (subst rz_U8) simp_all
    have b: "wn_Read_Bytes 32 (rz ((P2 @ be16 33) @ [32]) bnd) = (Some (length P + 11 + length idn), rz (((P2 @ be16 33) @ [32]) @ bnd) [])"
      using rz_Bytes [of bnd 32 "(P2 @ be16 33) @ [32]" "[]"] assms lp by simp
    have f: "P2 @ be16 33 @ 32 # bnd = P @ psk_list idn bnd" by (simp add: psk_list_def P1_def P2_def)
    show ?thesis unfolding binder_entry_def prod.case a using b by (simp add: f)
  qed
  have w1: "read_while (7 + length idn) (length P + 8 + length idn) identity_entry (rz P1 (psk_ids idn @ T), out, 0) =
      (rz P2 T, out\<lparr>ch_pskIdentity := Some (length P + 4), ch_pskIdentityLen := length idn\<rparr>, 1)" for out
    using lp by (simp add: read_while_step 2 read_while_done)
  have w2: "read_while 34 (43 + (length P + length idn)) binder_entry (rz (P2 @ be16 33) (32 # bnd), out, 0) =
      (rz (P @ psk_list idn bnd) [], out\<lparr>ch_binder := Some (length P + 11 + length idn), ch_binderLen := 32\<rparr>, 1)" for out
    using lp by (simp add: read_while_step 4) (simp add: read_while_done psk_list_def li assms(4))
  have c: "u32 (length P1 + (6 + length idn)) = length P + 8 + length idn" "u32 (length (P2 @ be16 33) + 33) = length P + 43 + length idn"
    using assms lp by (simp_all add: u32_def)
  have l: "length (P @ psk_list idn bnd) = length P + 43 + length idn" by (simp add: psk_list_def li assms(4))
  show ?thesis
    unfolding ch_ext_body_def ext_psk_list_def 1 prod.case u(2) Let_def rz_sel c(1)
    using lp e l assms(1,3) by (simp add: w1 3 w2)
qed


text \<open>The extensions of a PSK ClientHello: the walk that leaves the fields below.\<close>

definition psk_parsed :: "build \<Rightarrow> nat \<Rightarrow> bytes \<Rightarrow> bytes \<Rightarrow> client_hello \<Rightarrow> client_hello" where
  "psk_parsed B at pub idn c = (let sl = length (psk_sig_bytes B); q = at + 41 + sl + length pub in
     c\<lparr>ch_sigAlgs := Some (at + 21), ch_sigAlgsLen := sl,
       ch_keyShare := Some (at + 31 + sl), ch_keyShareLen := length pub, ch_group := WN_DEFAULT_GROUP B, ch_haveKeyShare := True,
       ch_pskIdentity := Some (q + 4), ch_pskIdentityLen := length idn, ch_binderTruncLen := q + 8 + length idn,
       ch_binder := Some (q + 11 + length idn), ch_binderLen := 32, ch_havePsk := True\<rparr>)"

lemma psk_exts_walk:
  assumes "length pub \<le> 1216" "0 < length idn" "length idn \<le> 255" "length bnd = 32" "length P < 100000"
    and n: "n = length P + length (psk_exts B pub idn bnd)"
  shows "\<exists>s. read_while (n + 1) n (ch_ext B n) (rz P (psk_exts B pub idn bnd), ch_seen c [] False False) =
      (rz (P @ psk_exts B pub idn bnd) [], s) \<and> cs_out s = psk_parsed B (length P) pub idn c \<and> \<not> cs_stray s \<and> haveTls13 s \<and> havePskDhe s \<and>
      haveGroups s \<and> groupOffered s"
proof -
  define sa where "sa = psk_sig_bytes B"
  have sa: "length sa \<le> 6" by (simp add: sa_def length_psk_sig)
  define E1 E2 E3 E4 E5 E6 where "E1 = enc_ext 43 (2 # be16 0x0304)" "E2 = enc_ext 10 (be16 2 @ be16 (WN_DEFAULT_GROUP B))"
    "E3 = enc_ext 13 (be16 (of_nat (length sa)) @ sa)" "E4 = share_ext (WN_DEFAULT_GROUP B) pub" "E5 = enc_ext 45 [1, 1]"
    "E6 = enc_ext 41 (psk_list idn bnd)"
  have X: "psk_exts B pub idn bnd = E1 @ E2 @ E3 @ E4 @ E5 @ E6" by (simp add: psk_exts_def E1_E2_E3_E4_E5_E6_def sa_def)
  have li: "length (psk_list idn bnd) = 43 + length idn" by (simp add: psk_list_def psk_ids_def assms(4))
  have l: "length E1 = 7" "length E2 = 8" "length E3 = 6 + length sa" "length E4 = 10 + length pub" "length E5 = 6" "length E6 = 47 + length idn"
    by (simp_all add: E1_E2_E3_E4_E5_E6_def share_ext_def li)
  have n: "n = length P + 84 + length sa + length pub + length idn" using n by (simp add: X l)
  define j where "j = n - 5"
  have k: "n + 1 = Suc (Suc (Suc (Suc (Suc (Suc j)))))" using n by (simp add: j_def)
  define c1 where "c1 = c\<lparr>ch_sigAlgs := Some (length P + 21), ch_sigAlgsLen := length sa\<rparr>"
  define c2 where "c2 = c1\<lparr>ch_keyShare := Some (length P + 31 + length sa), ch_keyShareLen := length pub, ch_group := WN_DEFAULT_GROUP B, ch_haveKeyShare := True\<rparr>"
  have ns: "10 \<notin> set [43 :: word16]" "13 \<notin> set [43, 10 :: word16]" "51 \<notin> set [43, 10, 13 :: word16]"
      "41 \<notin> set [43, 10, 13, 51, 45 :: word16]" by simp_all
  have 1: "read_while (n + 1) n (ch_ext B n) (rz P (E1 @ E2 @ E3 @ E4 @ E5 @ E6), ch_seen c [] False False) =
      read_while (Suc (Suc (Suc (Suc (Suc j))))) n (ch_ext B n) (rz (P @ E1) (E2 @ E3 @ E4 @ E5 @ E6), ch_seen c [43] True False)"
    unfolding k using step_versions [of "[]" P n "E2 @ E3 @ E4 @ E5 @ E6" _ B c False False] n l sa assms(1,3,5) by (simp add: E1_E2_E3_E4_E5_E6_def(1))
  have 2: "read_while (Suc (Suc (Suc (Suc (Suc j))))) n (ch_ext B n) (rz (P @ E1) (E2 @ E3 @ E4 @ E5 @ E6), ch_seen c [43] True False) =
      read_while (Suc (Suc (Suc (Suc j)))) n (ch_ext B n) (rz (P @ E1 @ E2) (E3 @ E4 @ E5 @ E6), ch_seen c [43, 10] True True)"
    using step_groups [of "[43]" "P @ E1" n "E3 @ E4 @ E5 @ E6" _ B c True, OF ns(1)] n l sa assms(1,3,5) by (simp add: E1_E2_E3_E4_E5_E6_def(2))
  have 3: "read_while (Suc (Suc (Suc (Suc j)))) n (ch_ext B n) (rz (P @ E1 @ E2) (E3 @ E4 @ E5 @ E6), ch_seen c [43, 10] True True) =
      read_while (Suc (Suc (Suc j))) n (ch_ext B n) (rz (P @ E1 @ E2 @ E3) (E4 @ E5 @ E6), ch_seen c1 [43, 10, 13] True True)"
    using step_sigs [of "[43, 10]" "P @ E1 @ E2" sa n "E4 @ E5 @ E6" _ B c True True, OF ns(2)] n l sa assms(1,3,5)
    by (simp add: E1_E2_E3_E4_E5_E6_def(3) c1_def add.commute)
  have 4: "read_while (Suc (Suc (Suc j))) n (ch_ext B n) (rz (P @ E1 @ E2 @ E3) (E4 @ E5 @ E6), ch_seen c1 [43, 10, 13] True True) =
      read_while (Suc (Suc j)) n (ch_ext B n) (rz (P @ E1 @ E2 @ E3 @ E4) (E5 @ E6), ch_seen c2 [43, 10, 13, 51] True True)"
    using step_share [of "[43, 10, 13]" "P @ E1 @ E2 @ E3" pub n "E5 @ E6" _ B c1 True True, OF ns(3)] n l sa assms(1,3,5)
    by (simp add: E1_E2_E3_E4_E5_E6_def(4) c2_def ac_simps)
  let ?P4 = "P @ E1 @ E2 @ E3 @ E4"
  let ?s4 = "ch_seen c2 [43, 10, 13, 51] True True"
  let ?s5 = "?s4\<lparr>havePskDhe := True\<rparr>"
  have 5: "read_while (Suc (Suc j)) n (ch_ext B n) (rz ?P4 (E5 @ E6), ?s4) =
      read_while (Suc j) n (ch_ext B n) (rz (?P4 @ E5) E6, ?s5\<lparr>cs_seen := cs_seen ?s5 @ [45]\<rparr>)"
    unfolding E1_E2_E3_E4_E5_E6_def(5)
    by (rule ch_ext_rz) (use body_modes [of "?P4 @ be16 45 @ be16 2" E6 B 2] n l sa assms in \<open>simp_all add: ch_seen_def enc_ext_def\<close>)
  let ?s5' = "?s5\<lparr>cs_seen := cs_seen ?s5 @ [45]\<rparr>" and ?P5 = "?P4 @ E5"
  let ?Q = "?P5 @ be16 41 @ be16 (of_nat (length (psk_list idn bnd)))"
  let ?s6 = "?s5'\<lparr>cs_seenPsk := True, cs_out := (cs_out ?s5')\<lparr>ch_pskIdentity := Some (length ?Q + 4),
       ch_pskIdentityLen := length idn, ch_binderTruncLen := length ?Q + 8 + length idn, ch_binder := Some (length ?Q + 11 + length idn),
       ch_binderLen := 32, ch_havePsk := True\<rparr>\<rparr>"
  have Q: "length ?Q = length P + 41 + length sa + length pub" by (simp add: l)
  have b6: "ch_ext_body B 41 el (length ?P5 + 4 + length (psk_list idn bnd)) (rz ?Q (psk_list idn bnd)) ?s5' =
      (rz (?P5 @ E6) [], ?s6)" for el
    using body_psk [of ?Q idn bnd "length ?P5 + 4 + length (psk_list idn bnd)" B el ?s5'] Q sa assms
    by (simp add: E1_E2_E3_E4_E5_E6_def(6) enc_ext_def)
  have sn: "cs_seen ?s5' = [43, 10, 13, 51, 45]" "length (cs_seen ?s5') < 40" "\<not> cs_seenPsk ?s5'" by (simp_all add: ch_seen_def)
  have 6: "read_while (Suc j) n (ch_ext B n) (rz ?P5 E6, ?s5') =
      read_while j n (ch_ext B n) (rz (?P5 @ E6) [], ?s6\<lparr>cs_seen := cs_seen ?s6 @ [41]\<rparr>)"
    unfolding E1_E2_E3_E4_E5_E6_def(6)
    by (rule ch_ext_rz [where R = "[]" and b = "psk_list idn bnd", simplified append_Nil2, OF ns(4) [folded sn(1)] sn(2,3)])
      (use b6 n l sa assms li in \<open>simp_all add: E1_E2_E3_E4_E5_E6_def(6)\<close>)
  let ?s7 = "?s6\<lparr>cs_seen := cs_seen ?s6 @ [41]\<rparr>"
  have 7: "read_while j n (ch_ext B n) (rz (?P5 @ E6) [], ?s7) = (rz (?P5 @ E6) [], ?s7)"
    by (rule read_while_done) (simp add: n l)
  have "cs_out ?s7 = psk_parsed B (length P) pub idn c"
    using Q by (simp add: ch_seen_def psk_parsed_def sa_def [symmetric] Let_def c2_def c1_def l)
  moreover have "\<not> cs_stray ?s7" "haveTls13 ?s7" "havePskDhe ?s7" "haveGroups ?s7" "groupOffered ?s7" by (simp_all add: ch_seen_def)
  ultimately show ?thesis unfolding X 1 2 3 4 5 6 7 by (intro exI [of _ ?s7]) simp
qed


lemma psk_hello_parses:
  assumes "length rnd = 32" "length sid = 32" "length pub = WN_DEFAULT_PUB_SZ B" "0 < length idn" "length idn \<le> 255" "length bnd = 32"
  defines "c \<equiv> client_hello_zero\<lparr>ch_sessionId := Some 39, ch_sessionIdLen := 32, ch_cipher := 0x1301\<rparr>"
  shows "wn_ClientHello_Parse B (Some (psk_msg B rnd sid pub idn bnd)) = Inr (psk_parsed B 79 pub idn c)"
proof -
  let ?exts = "psk_exts B pub idn bnd"
  have pub: "length pub \<le> 1216" using pub_sz_bounds assms(3) by metis
  have sa: "length (psk_sig_bytes B) \<le> 6" by (simp add: length_psk_sig)
  have el: "length ?exts = 84 + length (psk_sig_bytes B) + length pub + length idn"
    by (simp add: psk_exts_def share_ext_def psk_list_def psk_ids_def assms(6))
  then have le: "length ?exts < 3000" using pub sa assms(5) by simp
  have sd: "length sid \<le> 32" using assms(2) by simp
  obtain P where P: "length P = 77" "wn_ClientHello_Parse B (Some (psk_msg B rnd sid pub idn bnd)) =
      ch_tail B (79 + length ?exts) c (rz P (be16 (of_nat (length ?exts)) @ ?exts))"
    using client_hello_front [OF assms(1) sd, of ?exts B] le unfolding c_def psk_msg_def assms(2) by auto
  let ?n = "79 + length ?exts" and ?P2 = "P @ be16 (of_nat (length ?exts))"
  have p2: "length ?P2 = 79" by (simp add: P(1))
  have lt: "length ?P2 < 100000" and nn: "?n = length ?P2 + length ?exts" by (simp_all add: P(1))
  obtain s where s: "read_while (?n + 1) ?n (ch_ext B ?n) (rz ?P2 ?exts, ch_seen c [] False False) = (rz (?P2 @ ?exts) [], s)"
      "cs_out s = psk_parsed B 79 pub idn c" "\<not> cs_stray s" "haveTls13 s" "havePskDhe s" "haveGroups s" "groupOffered s"
    using psk_exts_walk [OF pub assms(4-6) lt nn, of c] unfolding p2 by blast
  have 1: "wn_Read_U16 (rz P (be16 (of_nat (length ?exts)) @ ?exts)) = (of_nat (length ?exts), rz ?P2 ?exts)"
    using le P(1) by (simp add: rz_be16)
  have u: "u32 (rpos (rz ?P2 ?exts) + unat (of_nat (length ?exts) :: word16)) = ?n"
    using le p2 by (simp add: unat_of_nat_16)
  show ?thesis
    unfolding P(2) ch_tail_def 1 prod.case Let_def u
    using s assms(3) by (simp add: ch_seen_def no_stray_def psk_parsed_def c_def Let_def)
qed

text \<open>The fields the server uses, as octets of the message.\<close>

lemma psk_hello_fields:
  assumes "length rnd = 32" "length sid = 32" "length bnd = 32" and m: "m = psk_msg B rnd sid pub idn bnd"
  defines "q \<equiv> 120 + length (psk_sig_bytes B) + length pub"
  shows "slice 39 32 m = sid" "slice (110 + length (psk_sig_bytes B)) (length pub) m = pub" "slice (q + 4) (length idn) m = idn"
    "slice (q + 11 + length idn) 32 m = bnd" "length m = q + 43 + length idn" "length (psk_trunc B rnd sid pub idn) = q + 8 + length idn"
proof -
  have l: "length m = q + 43 + length idn" using assms(1-3) by (simp add: m length_psk_msg q_def)
  then show "length m = q + 43 + length idn" .
  show "length (psk_trunc B rnd sid pub idn) = q + 8 + length idn" using l assms(3) by (simp add: m psk_msg_split)
  define body where "body = ch_body rnd sid (psk_exts B pub idn bnd)"
  define A where "A = 1 # be24 (length body) @ be16 0x0303 @ rnd @ [of_nat (length sid)]"
  define D where "D = be16 2 @ be16 0x1301 @ [1, 0] @ be16 (of_nat (length (psk_exts B pub idn bnd))) @
     enc_ext 43 (2 # be16 0x0304) @ enc_ext 10 (be16 2 @ be16 (WN_DEFAULT_GROUP B)) @
     enc_ext 13 (be16 (of_nat (length (psk_sig_bytes B))) @ psk_sig_bytes B) @
     be16 51 @ be16 (of_nat (6 + length pub)) @ be16 (of_nat (2 + 2 + length pub)) @ be16 (WN_DEFAULT_GROUP B) @ be16 (of_nat (length pub))"
  define F where "F = enc_ext 45 [1, 1] @ be16 41 @ be16 (of_nat (length (psk_list idn bnd))) @ be16 (of_nat (length (psk_ids idn))) @ be16 (of_nat (length idn))"
  define G where "G = be16 0 @ be16 0 @ be16 33 @ [32]"
  have m1: "m = A @ sid @ D @ pub @ F @ idn @ G @ bnd"
    by (simp add: m psk_msg_def ch_msg_def body_def [symmetric] A_def D_def F_def G_def)
      (simp add: body_def ch_body_def psk_exts_def share_ext_def enc_ext_def [of 51] enc_ext_def [of 41] psk_list_def psk_ids_def)
  have la: "length A = 39" "length D = 39 + length (psk_sig_bytes B)" "length F = 14" "length G = 7"
    using assms(1) by (simp_all add: A_def D_def F_def G_def)
  show "slice 39 32 m = sid" unfolding m1 by (rule slice_at) (simp_all add: la assms(2))
  show "slice (110 + length (psk_sig_bytes B)) (length pub) m = pub"
    using slice_at [of "A @ sid @ D" _ pub _ "F @ idn @ G @ bnd"] la assms(2) by (simp add: m1)
  show "slice (q + 4) (length idn) m = idn"
    using slice_at [of "A @ sid @ D @ pub @ F" _ idn _ "G @ bnd"] la assms(2) by (simp add: m1 q_def)
  show "slice (q + 11 + length idn) 32 m = bnd"
    using slice_at [of "A @ sid @ D @ pub @ F @ idn @ G" _ bnd _ "[]"] la assms(2,3) by (simp add: m1 q_def)
qed

end
