(* ===== verification/Transport.thy ===== *)
theory Transport
  imports Handshake
begin

section \<open>A reliable transport\<close>

text \<open>
  What the peers of a completing handshake need of the caller's I/O callbacks: receiving
  delivers the pending bytes in order, in chunks of the transport's choice, sending takes all
  it is given, and neither direction disturbs the other. \<open>pend\<close> is what the world still has to
  deliver and \<open>wire\<close> what was handed to it.
\<close>

definition duplex :: "'w io_send \<Rightarrow> 'w io_recv \<Rightarrow> ('w \<Rightarrow> bytes) \<Rightarrow> ('w \<Rightarrow> bytes) \<Rightarrow> bool" where
  "duplex send recv pend wire \<longleftrightarrow> recv_stream recv pend \<and>
     (\<forall>w bs. fst (send w bs) = int (length bs) \<and> wire (snd (send w bs)) = wire w @ bs \<and>
        pend (snd (send w bs)) = pend w) \<and>
     (\<forall>w n. wire (snd (recv w n)) = wire w)"

lemma duplex_recv: "duplex send recv pend wire \<Longrightarrow> recv_stream recv pend"
  by (simp add: duplex_def)

lemma duplex_send:
  assumes "duplex send recv pend wire"
  shows "\<exists>w'. send w bs = (int (length bs), w') \<and> wire w' = wire w @ bs \<and> pend w' = pend w"
  using assms by (cases "send w bs") (metis duplex_def fst_conv snd_conv)

lemma recv_exact_wire:
  "io_recv_exact recv w n acc = (res, out, w') \<Longrightarrow> (\<And>w n. f (snd (recv w n)) = f w) \<Longrightarrow> f w' = f w"
proof (induction recv w n acc rule: io_recv_exact.induct)
  case (1 recv w n acc)
  obtain r w1 where r: "recv w (n - length acc) = (r, w1)" by force
  have f1: "f w1 = f w" using 1(3) [of w "n - length acc"] by (simp add: r)
  show ?case
  proof (cases "length acc < n \<and> (\<exists>bs. r = Some bs \<and> bs \<noteq> [] \<and> length bs \<le> n - length acc)")
    case True
    then obtain bs where bs: "r = Some bs" "bs \<noteq> []" "length bs \<le> n - length acc" "length acc < n" by blast
    then have "io_recv_exact recv w1 n (acc @ bs) = (res, out, w')"
      using 1(2) r by (simp add: recv_exact_cases(5))
    then show ?thesis using 1(1) [OF bs(4) r [symmetric] bs(1,2)] bs(3) 1(3) f1 by simp
  next
    case False
    then show ?thesis
      using 1(2) f1 r by (auto simp: io_recv_exact.simps [of recv w n acc] split: if_splits option.splits)
  qed
qed

lemma RecvRecord_wire:
  assumes "wn_RecvRecord recv w rec cap = (res, rec', w')" "\<And>w n. f (snd (recv w n)) = f w"
  shows "f w' = f w"
  using assms(1) recv_exact_wire [where recv = recv and f = f, OF _ assms(2)]
  by (fastforce simp: wn_RecvRecord_def Let_def split: if_splits prod.splits sum.splits)

text \<open>Receiving a protected record from the stream.\<close>

lemma RecvRecord_sealed:
  assumes "aead_ok C" "length key = 16" "length iv = 12" "recv_stream recv pend"
    and "pend w = seal C key iv sq t m @ rest" "t \<noteq> 0" "length m \<le> 16384" "length m + 22 \<le> length io"
  shows "\<exists>w1. wn_RecvRecord recv w io (length io) = (Inr (23, length m + 22), mem_put io 0 (seal C key iv sq t m), w1) \<and>
    pend w1 = rest \<and>
    take (length m + 22) (mem_put io 0 (seal C key iv sq t m)) = seal C key iv sq t m"
proof -
  define rec where "rec = seal C key iv sq t m"
  define hdr where "hdr = record_header (length m + 17)"
  define body where "body = drop 5 rec"
  have len: "length rec = length m + 22" unfolding rec_def by (rule length_seal [OF assms(1-3)])
  have split: "rec = hdr @ body"
    using seal_header [OF assms(1-3), of sq t m] append_take_drop_id [of 5 rec] by (simp add: hdr_def body_def rec_def)
  have h: "length hdr = 5" "hdr ! 0 = 23" "frag_len hdr = length body" "length body = length m + 17"
    using frag_len_header [of "length m + 17" "[]"] len assms(7)
    by (simp_all add: hdr_def body_def) (simp add: record_header_def)
  have "pend w = hdr @ body @ rest" using assms(5) split by (simp add: rec_def)
  moreover have "body \<noteq> []" "length body \<le> 16640" "length body + 5 \<le> length io" "hdr ! 0 \<noteq> 20"
    using h(2,4) assms(7,8) by (auto simp del: length_0_conv simp: length_0_conv [symmetric])
  ultimately show ?thesis
    using RecvRecord_stream [OF assms(4) _ h(1,3), of w rest "length io" io] h(2,4) split len
    by (fastforce simp: add.commute mem_put_def rec_def [symmetric])
qed

lemma slice_mem_put_head:
  "off + length a + length b \<le> length buf \<Longrightarrow> slice off (length a) (mem_put buf off (a @ b)) = a"
  by (simp add: mem_put_def slice_def min_absorb2)

text \<open>Sending plain records.\<close>

lemma SendPlainRecord_duplex:
  assumes "duplex send recv pend wire" "length body < 4294967296"
  shows "\<exists>w'. wn_SendPlainRecord send w 22 body = (Inr (), w') \<and> wire w' = wire w @ rec_bytes (Frag body) \<and> pend w' = pend w"
proof -
  let ?h = "[22, 3, 3, of_nat (length body div 256), of_nat (length body)] :: bytes"
  obtain w1 where w1: "send w ?h = (5, w1)" "wire w1 = wire w @ ?h" "pend w1 = pend w"
    using duplex_send [OF assms(1), of w ?h] by auto
  obtain w2 where w2: "send w1 body = (int (length body), w2)" "wire w2 = wire w1 @ body" "pend w2 = pend w1"
    using duplex_send [OF assms(1), of w1 body] by auto
  show ?thesis using w1 w2 assms(2) by (simp add: wn_SendPlainRecord_def)
qed

lemma SendCcs_duplex:
  assumes "duplex send recv pend wire"
  shows "\<exists>w'. wn_SendCcs send w = (Inr (), w') \<and> wire w' = wire w @ rec_bytes Ccs \<and> pend w' = pend w"
proof -
  obtain w1 where w1: "send w [20, 3, 3, 0, 1] = (5, w1)" "wire w1 = wire w @ [20, 3, 3, 0, 1]" "pend w1 = pend w"
    using duplex_send [OF assms, of w "[20, 3, 3, 0, 1]"] by auto
  obtain w2 where w2: "send w1 [1] = (1, w2)" "wire w2 = wire w1 @ [1]" "pend w2 = pend w1"
    using duplex_send [OF assms, of w1 "[1]"] by auto
  show ?thesis using w1 w2 by (simp add: wn_SendCcs_def wn_SendPlainRecord_def)
qed

text \<open>The transport of the witnesses: the bytes to deliver, one at a time, and those sent.\<close>

definition pipe_recv :: "(bytes \<times> bytes) io_recv" where
  "pipe_recv w n = (case byte_recv (fst w) n of (r, i) \<Rightarrow> (r, (i, snd w)))"

definition pipe_send :: "(bytes \<times> bytes) io_send" where
  "pipe_send w bs = (int (length bs), (fst w, snd w @ bs))"

lemma pipe_duplex: "duplex pipe_send pipe_recv fst snd"
proof -
  have "recv_stream pipe_recv fst"
    unfolding recv_stream_def
  proof (intro allI impI)
    fix w :: "bytes \<times> bytes" and n :: nat
    assume n: "0 < n" "fst w \<noteq> []"
    then obtain b bs where "fst w = b # bs" by (cases "fst w") auto
    then show "\<exists>xs w'. pipe_recv w n = (Some xs, w') \<and> xs \<noteq> [] \<and> length xs \<le> n \<and> fst w = xs @ fst w'"
      using n by (intro exI [of _ "[b]"] exI [of _ "(bs, snd w)"]) (simp add: pipe_recv_def byte_recv_def)
  qed
  then show ?thesis by (simp add: duplex_def pipe_recv_def pipe_send_def split: prod.splits)
qed

end
