(* ===== verification/ConnectLive.thy ===== *)
theory ConnectLive
  imports ClientConnect Transport
begin

section \<open>The client's handshake completes with an honest server\<close>

text \<open>
  The converse of what a completed handshake says: each message of a flight that carries what
  it should is accepted, the loop takes the four of them out of the reassembly buffer, and a
  server that answers with them in one record brings the driver to an established session.
\<close>

subsection \<open>Messages\<close>

lemma on_cert_verify_complete:
  assumes "length sg < 65536" "gotCert (ft_order st)"
    "wn_CertVerify B P scheme (take (ft_spkiLen st) (ft_leaf st)) (ft_thCert st) sg = Inr ()"
  shows "on_cert_verify B P (be16 scheme @ be16 (of_nat (length sg)) @ sg) st = Inr st"
proof -
  let ?b = "be16 scheme @ be16 (of_nat (length sg)) @ sg"
  have u: "unat (of_nat (length sg) :: word16) = length sg" using assms(1) by (simp add: unat_of_nat_16)
  have r: "wn_Read_U16 (wn_Reader_Init ?b (length ?b)) = (scheme, rz (be16 scheme) (be16 (of_nat (length sg)) @ sg))"
      "wn_Read_U16 (rz (be16 scheme) (be16 (of_nat (length sg)) @ sg)) = (of_nat (length sg), rz (be16 scheme @ be16 (of_nat (length sg))) sg)"
    using assms(1) rz_be16 [of "[]" "be16 (of_nat (length sg)) @ sg" scheme] by (simp_all add: Init_rz rz_be16)
  have s: "slice 4 (length sg) ?b = sg" by (simp add: slice_def)
  show ?thesis
    unfolding on_cert_verify_def r prod.case using assms s by (simp add: u codeE_def u32_def)
qed

text \<open>The next message of the flight, with what it must carry.\<close>

definition next_ok ::
  "build \<Rightarrow> 'k pk_crypto \<Rightarrow> cert_params \<Rightarrow> (bytes \<Rightarrow> bytes) \<Rightarrow> (bytes \<Rightarrow> bytes) \<Rightarrow> bytes \<Rightarrow> bytes list \<Rightarrow> bytes \<Rightarrow> bytes \<Rightarrow> bool" where
  "next_ok B P cp H mac m0 bodies spki body \<longleftrightarrow>
     (let h = H (m0 @ flight_bytes bodies); n = length bodies in
      if n = 0 then wn_CheckEncExt body (case cp_name cp of None \<Rightarrow> False | Some n \<Rightarrow> n \<noteq> []) = Inr ()
      else if n = 1 then chain_accepted B P cp body spki
      else if n = 2 then signature_accepted B P spki h body
      else body = mac h)"

lemma flight_message_complete:
  assumes ok: "sha256_ok C H R" "kdf_ok C" "hmac_ok C M" "length sHs = 32"
    and st: "flight_st_ok B P cp H R (M (hkdf_expand C 32 sHs ''finished'' [])) m0 bodies st" "length bodies < 4"
    and spki: "1 < length bodies \<Longrightarrow> take (ft_spkiLen st) (ft_leaf st) = spki"
    and nx: "next_ok B P cp H (M (hkdf_expand C 32 sHs ''finished'' [])) m0 bodies spki body"
  shows "\<exists>st'. flight_message B C P cp sHs (hs_msg ([8, 11, 15, 20] ! length bodies) body) st = Inr st' \<and>
    (0 < length bodies \<longrightarrow> take (ft_spkiLen st') (ft_leaf st') = spki)"
proof -
  let ?n = "length bodies" and ?m = "m0 @ flight_bytes bodies"
  let ?t = "[8, 11, 15, 20] ! ?n :: byte" and ?fl = "\<lparr>gotEE = 0 < Suc ?n, gotCert = 1 < Suc ?n, gotCv = 2 < Suc ?n\<rparr>"
  have tc: "tdigest (ft_tc st) = WC_SHA256" "R (thash (ft_tc st)) ?m"
    and ord: "ft_order st = \<lparr>gotEE = 0 < ?n, gotCert = 1 < ?n, gotCv = 2 < ?n\<rparr>"
    using st by (auto simp: flight_st_ok_def)
  obtain tc' where up: "wn_Transcript_Update C (ft_tc st) (Some (hs_msg ?t body)) (length (hs_msg ?t body)) = (0, tc')"
    using sha256_update [OF ok(1) tc] by blast
  note get = sha256_get [OF ok(1) tc]
  have hl: "length (H x) = 32" for x using ok(1) by (simp add: sha256_ok_def)
  have ml: "length (M k x) = 32" for k x using ok(3) by (simp add: hmac_ok_def)
  have body4: "hs_msg t b ! 0 = t" "drop 4 (hs_msg t b) = b" for t b by (simp_all add: hs_msg_def)
  consider "?n = 0" | "?n = 1" | "?n = 2" | "?n = 3" using st(2) by linarith
  then show ?thesis
  proof cases
    case 1
    then show ?thesis
      using nx up by (simp add: flight_message_def Let_def body4 ord wn_FlightOrder_def next_ok_def codeE_def okI_def
          WOLFNANO_SUCCESS_def)
  next
    case 2
    then obtain certs where c: "cert_list body = Inr certs"
        "wn_VerifyChain B P certs (cp_anchor cp) (WN_LEAF_SPKI_SZ B) (cp_name cp) (cp_pin cp) (cp_now cp) = Inr spki"
      using nx by (auto simp: next_ok_def chain_accepted_def)
    have "take (length spki) (mem_put (ft_leaf st) 0 spki) = spki" by (simp add: mem_put_def)
    then show ?thesis
      using 2 c up by (simp add: flight_message_def Let_def body4 ord wn_FlightOrder_def on_certificate_def codeE_def okI_def
          WOLFNANO_SUCCESS_def)
  next
    case 3
    then obtain scheme sg where s: "body = be16 scheme @ be16 (of_nat (length sg)) @ sg" "length sg < 65536"
        "wn_CertVerify B P scheme spki (H ?m) sg = Inr ()"
      using nx by (auto simp: next_ok_def signature_accepted_def Let_def)
    have "on_cert_verify B P body (st\<lparr>ft_order := ?fl, ft_thCert := H ?m, ft_tc := tc'\<rparr>) =
        Inr (st\<lparr>ft_order := ?fl, ft_thCert := H ?m, ft_tc := tc'\<rparr>)"
      unfolding s(1) by (rule on_cert_verify_complete) (use 3 s(2,3) spki in simp_all)
    then show ?thesis
      using 3 up get spki by (simp add: flight_message_def Let_def body4 ord wn_FlightOrder_def codeE_def okI_def
          WOLFNANO_SUCCESS_def)
  next
    case 4
    then have "body = M (hkdf_expand C 32 sHs ''finished'' []) (H ?m)" using nx by (simp add: next_ok_def Let_def)
    then show ?thesis
      using 4 up get spki by (simp add: flight_message_def Let_def body4 ord wn_FlightOrder_def codeE_def okI_def on_finished_def
          FinishedMac_ok [OF ok(2-4)] hl ml WOLFNANO_SUCCESS_def)
  qed
qed

subsection \<open>The loop over a whole flight\<close>

lemma flight_messages_next:
  assumes "drop off acc = hs_msg t b @ rest" "off + 4 + length b \<le> accLen" "length b < 16777216" "\<not> ft_done st"
  shows "flight_messages B C P cp sHs acc accLen off st =
    (case flight_message B C P cp sHs (hs_msg t b) st of
       Inl e \<Rightarrow> (Inl e, off + 4 + length b)
     | Inr st' \<Rightarrow> flight_messages B C P cp sHs acc accLen (off + 4 + length b) st')"
proof -
  have n: "acc ! (off + i) = (hs_msg t b @ rest) ! i" if "i < 4" for i
    using assms(1) that nth_drop [of off acc i] by (cases "off \<le> length acc") (auto simp: hs_msg_def)
  have len: "dec24 (acc ! (off + 1)) (acc ! (off + 2)) (acc ! (off + 3)) = length b"
    using n [of 1] n [of 2] n [of 3] assms(3) by (simp add: hs_msg_def be24_def)
  have cut: "slice off (4 + length b) acc = hs_msg t b"
    by (simp add: slice_def assms(1)) (simp add: hs_msg_def)
  have "\<not> accLen - off < 4" using assms(2) by linarith
  then show ?thesis
    using assms(2,4) unfolding flight_messages.simps [of B C P cp sHs acc accLen off st] Let_def len cut by simp
qed

definition flight_rest :: "nat \<Rightarrow> bytes list \<Rightarrow> bytes" where
  "flight_rest n bodies = concat (map2 hs_msg (drop n [8, 11, 15, 20]) (drop n bodies))"

lemma flight_rest_next:
  assumes "n < 4" "length bodies = 4"
  shows "flight_rest n bodies = hs_msg ([8, 11, 15, 20] ! n) (bodies ! n) @ flight_rest (Suc n) bodies"
proof -
  have "drop n xs = xs ! n # drop (Suc n) xs" if "length xs = 4" for xs :: "'a list"
    using that assms(1) by (simp add: Cons_nth_drop_Suc)
  from this [of "[8, 11, 15, 20]"] show ?thesis
    using assms by (simp add: flight_rest_def Cons_nth_drop_Suc [symmetric])
qed

text \<open>A flight: four bodies, each carrying what it should after the ones before it.\<close>

definition good_flight ::
  "build \<Rightarrow> 'k pk_crypto \<Rightarrow> cert_params \<Rightarrow> (bytes \<Rightarrow> bytes) \<Rightarrow> (bytes \<Rightarrow> bytes) \<Rightarrow> bytes \<Rightarrow> bytes \<Rightarrow> bytes list \<Rightarrow> bool" where
  "good_flight B P cp H mac m0 spki bodies \<longleftrightarrow> length bodies = 4 \<and>
     (\<forall>n<4. length (bodies ! n) < 2147483 \<and> next_ok B P cp H mac m0 (take n bodies) spki (bodies ! n))"

lemma flight_messages_complete:
  assumes ok: "sha256_ok C H R" "kdf_ok C" "hmac_ok C M" "length sHs = 32"
    and g: "good_flight B P cp H (M (hkdf_expand C 32 sHs ''finished'' [])) m0 spki bodies"
  shows "n \<le> 4 \<Longrightarrow> flight_st_ok B P cp H R (M (hkdf_expand C 32 sHs ''finished'' [])) m0 (take n bodies) st \<Longrightarrow>
    (1 < n \<Longrightarrow> take (ft_spkiLen st) (ft_leaf st) = spki) \<Longrightarrow>
    drop off acc = flight_rest n bodies @ junk \<Longrightarrow> off + length (flight_rest n bodies) \<le> accLen \<Longrightarrow>
    \<exists>st' off'. flight_messages B C P cp sHs acc accLen off st = (Inr st', off') \<and>
      flight_st_ok B P cp H R (M (hkdf_expand C 32 sHs ''finished'' [])) m0 bodies st'"
proof (induction "4 - n" arbitrary: n st off)
  case 0
  then have "n = 4" by simp
  have l: "length bodies = 4" using g by (simp add: good_flight_def)
  then have "ft_done st" using 0(3) \<open>n = 4\<close> by (simp add: flight_st_ok_def)
  then show ?case
    using 0(3) l \<open>n = 4\<close> by (simp add: flight_messages.simps [of B C P cp sHs acc accLen off st])
next
  case (Suc d)
  let ?mac = "M (hkdf_expand C 32 sHs ''finished'' [])" and ?b = "bodies ! n" and ?t = "[8, 11, 15, 20] ! n :: byte"
  have l: "length bodies = 4" and n: "n < 4" using g Suc.hyps(2) by (simp_all add: good_flight_def)
  then have tk: "length (take n bodies) = n" "take n bodies @ [?b] = take (Suc n) bodies"
    by (simp_all add: take_Suc_conv_app_nth)
  have nx: "next_ok B P cp H ?mac m0 (take n bodies) spki ?b" and bl: "length ?b < 2147483"
    using g n by (simp_all add: good_flight_def)
  have nd: "\<not> ft_done st" using Suc.prems(2) n tk(1) by (simp add: flight_st_ok_def)
  obtain st' where m: "flight_message B C P cp sHs (hs_msg ?t ?b) st = Inr st'"
      "0 < n \<longrightarrow> take (ft_spkiLen st') (ft_leaf st') = spki"
    using flight_message_complete [OF ok Suc.prems(2) _ _ nx] n tk(1) Suc.prems(3) by auto
  have st': "flight_st_ok B P cp H R ?mac m0 (take (Suc n) bodies) st'"
    using flight_message_sound [OF ok Suc.prems(2) nd m(1)] bl tk(2) by simp
  note fr = flight_rest_next [OF n l]
  have hl: "length (hs_msg ?t ?b) = 4 + length ?b" by (simp add: hs_msg_def)
  have d: "drop off acc = hs_msg ?t ?b @ flight_rest (Suc n) bodies @ junk" using Suc.prems(4) by (simp add: fr)
  have fit: "off + 4 + length ?b \<le> accLen" "(off + 4 + length ?b) + length (flight_rest (Suc n) bodies) \<le> accLen"
    using Suc.prems(5) by (simp_all add: fr hl)
  have dd: "drop (off + 4 + length ?b) acc = flight_rest (Suc n) bodies @ junk"
  proof -
    have "drop (off + 4 + length ?b) acc = drop (4 + length ?b) (drop off acc)" by (simp add: add.commute add.left_commute)
    then show ?thesis by (simp add: d hl)
  qed
  have "flight_messages B C P cp sHs acc accLen off st = flight_messages B C P cp sHs acc accLen (off + 4 + length ?b) st'"
    using flight_messages_next [OF d fit(1) _ nd, of B C P cp sHs] bl by (simp add: m(1))
  moreover have "\<exists>st'' off'. flight_messages B C P cp sHs acc accLen (off + 4 + length ?b) st' = (Inr st'', off') \<and>
      flight_st_ok B P cp H R ?mac m0 bodies st''"
    using Suc.hyps(1) [of "Suc n" st' "off + 4 + length ?b"] Suc.hyps(2) n st' m(2) dd fit(2) by simp
  ultimately show ?case by simp
qed

subsection \<open>The loop over records\<close>

lemma flight_record_complete:
  assumes ok: "sha256_ok C H R" "kdf_ok C" "hmac_ok C M" "aead_ok C" "length (hk_sHs k) = 32" "length (hk_sKey k) = 16"
      "length (hk_sIv k) = 12" "duplex send recv pend wire"
    and g: "good_flight B P cp H (M (hkdf_expand C 32 (hk_sHs k) ''finished'' [])) m0 spki bodies"
    and st: "flight_st_ok B P cp H R (M (hkdf_expand C 32 (hk_sHs k) ''finished'' [])) m0 [] (fl_st L)" "fl_accLen L = 0" "fl_off L = 0"
    and sz: "length (flight_rest 0 bodies) \<le> 16384" "length (flight_rest 0 bodies) + 22 \<le> length (fl_io L)"
      "length (flight_rest 0 bodies) \<le> length (fl_acc L)"
    and pd: "pend (fl_w L) = seal C (hk_sKey k) (hk_sIv k) (fl_seq L) 22 (flight_rest 0 bodies) @ rest"
  shows "\<exists>L'. flight_record B C P cp k recv L = (Inr (), L') \<and> pend (fl_w L') = rest \<and> wire (fl_w L') = wire (fl_w L) \<and>
    length (fl_io L') = length (fl_io L) \<and>
    flight_st_ok B P cp H R (M (hkdf_expand C 32 (hk_sHs k) ''finished'' [])) m0 bodies (fl_st L')"
proof -
  let ?F = "flight_rest 0 bodies" and ?mac = "M (hkdf_expand C 32 (hk_sHs k) ''finished'' [])"
  let ?rec = "seal C (hk_sKey k) (hk_sIv k) (fl_seq L) 22 ?F"
  let ?io = "mem_put (fl_io L) 0 ?rec" and ?io2 = "mem_put (mem_put (fl_io L) 0 ?rec) 5 (?F @ [22])"
  obtain w1 where w1: "wn_RecvRecord recv (fl_w L) (fl_io L) (length (fl_io L)) = (Inr (23, length ?F + 22), ?io, w1)"
      "pend w1 = rest" "take (length ?F + 22) ?io = ?rec"
    using RecvRecord_sealed [OF ok(4,6,7) duplex_recv [OF ok(8)] pd _ sz(1,2)] by auto
  have wr: "wire w1 = wire (fl_w L)"
    using RecvRecord_wire [where f = wire, OF w1(1)] ok(8) by (simp add: duplex_def)
  have len: "length ?io = length (fl_io L)" using sz(2) length_seal [OF ok(4,6,7)] by simp
  have len2: "length ?io2 = length (fl_io L)" using sz(2) len by simp
  have F: "slice 5 (length ?F) ?io2 = ?F" by (rule slice_mem_put_head) (use sz(2) len in simp)
  let ?acc = "mem_put (fl_acc L) 0 ?F"
  have acc: "drop 0 ?acc = ?F @ drop (length ?F) (fl_acc L)" by (simp add: mem_put_def)
  have st0: "flight_st_ok B P cp H R ?mac m0 (take 0 bodies) (fl_st L)" using st(1) by simp
  have "\<exists>st' off'. flight_messages B C P cp (hk_sHs k) ?acc (length ?F) 0 (fl_st L) = (Inr st', off') \<and>
      flight_st_ok B P cp H R ?mac m0 bodies st'"
    by (rule flight_messages_complete [where n = 0, OF ok(1-3,5) g _ st0 _ acc]) simp_all
  then obtain st' off' where m: "flight_messages B C P cp (hk_sHs k) ?acc (length ?F) 0 (fl_st L) = (Inr st', off')"
      "flight_st_ok B P cp H R ?mac m0 bodies st'" by blast
  have un: "wn_Record_Unprotect C (Some (hk_sKey k)) (Some (hk_sIv k)) (fl_seq L) (Some ?rec) = (Inr (length ?F, 22), ?F @ [22])"
    by (rule Unprotect_seal [OF ok(4,6,7)]) simp
  let ?L = "L\<lparr>fl_io := ?io2, fl_w := w1, fl_seq := fl_seq L + 1,
      fl_acc := ?acc, fl_accLen := length ?F, fl_off := off', fl_st := st'\<rparr>"
  have "flight_record B C P cp k recv L = (Inr (), ?L)"
    using sz(3) by (simp add: flight_record_def w1(1) Let_def w1(3) un st(2,3) F m(1))
  moreover have "pend (fl_w ?L) = rest" "wire (fl_w ?L) = wire (fl_w L)" "length (fl_io ?L) = length (fl_io L)" "fl_st ?L = st'"
    using w1(2) wr len2 by simp_all
  ultimately show ?thesis using m(2) by metis
qed

text \<open>ChangeCipherSpec records before it are skipped.\<close>

lemma flight_loop_complete:
  assumes ok: "sha256_ok C H R" "kdf_ok C" "hmac_ok C M" "aead_ok C" "length (hk_sHs k) = 32" "length (hk_sKey k) = 16"
      "length (hk_sIv k) = 12" "duplex send recv pend wire"
    and g: "good_flight B P cp H (M (hkdf_expand C 32 (hk_sHs k) ''finished'' [])) m0 spki bodies"
    and sz: "length (flight_rest 0 bodies) \<le> 16384" "length (flight_rest 0 bodies) + 22 \<le> ioLen"
      "length (flight_rest 0 bodies) \<le> accCap" "6 \<le> ioLen"
  shows "flight_st_ok B P cp H R (M (hkdf_expand C 32 (hk_sHs k) ''finished'' [])) m0 [] (fl_st L) \<Longrightarrow>
    fl_accLen L = 0 \<Longrightarrow> fl_off L = 0 \<Longrightarrow> length (fl_io L) = ioLen \<Longrightarrow> length (fl_acc L) = accCap \<Longrightarrow>
    pend (fl_w L) = concat (replicate c (rec_bytes Ccs)) @ seal C (hk_sKey k) (hk_sIv k) (fl_seq L) 22 (flight_rest 0 bodies) @ rest \<Longrightarrow>
    \<exists>L'. flight_loop B C P cp k recv L = Some (Inr (), L') \<and> pend (fl_w L') = rest \<and>
      wire (fl_w L') = wire (fl_w L) \<and> length (fl_io L') = ioLen \<and>
      flight_st_ok B P cp H R (M (hkdf_expand C 32 (hk_sHs k) ''finished'' [])) m0 bodies (fl_st L')"
proof (induction c arbitrary: L)
  case 0
  have nd: "\<not> ft_done (fl_st L)" using 0(1) by (simp add: flight_st_ok_def)
  have "pend (fl_w L) = seal C (hk_sKey k) (hk_sIv k) (fl_seq L) 22 (flight_rest 0 bodies) @ rest" using 0 by simp
  from flight_record_complete [OF ok g 0(1-3) _ _ _ this] obtain L' where
    L': "flight_record B C P cp k recv L = (Inr (), L')" "pend (fl_w L') = rest" "wire (fl_w L') = wire (fl_w L)" "length (fl_io L') = ioLen"
      "flight_st_ok B P cp H R (M (hkdf_expand C 32 (hk_sHs k) ''finished'' [])) m0 bodies (fl_st L')"
    using 0 sz by auto
  have "ft_done (fl_st L')" using L'(5) g by (simp add: flight_st_ok_def good_flight_def)
  then show ?case using L' nd by (simp add: flight_loop.simps [of B C P cp k recv L] flight_loop.simps [of B C P cp k recv L'])
next
  case (Suc c)
  have nd: "\<not> ft_done (fl_st L)" using Suc.prems(1) by (simp add: flight_st_ok_def)
  have "pend (fl_w L) = rec_bytes Ccs @ concat (replicate c (rec_bytes Ccs)) @
      seal C (hk_sKey k) (hk_sIv k) (fl_seq L) 22 (flight_rest 0 bodies) @ rest" using Suc.prems(6) by simp
  from recv_rec [where tmp = "fl_io L", OF duplex_recv [OF ok(8)] _ this] obtain w1 where
    w1: "wn_RecvRecord recv (fl_w L) (fl_io L) (length (fl_io L)) = (Inr (20, 6), mem_put (fl_io L) 0 (rec_bytes Ccs), w1)"
      "pend w1 = concat (replicate c (rec_bytes Ccs)) @ seal C (hk_sKey k) (hk_sIv k) (fl_seq L) 22 (flight_rest 0 bodies) @ rest"
    using Suc.prems(4) sz(4) by auto
  have wr: "wire w1 = wire (fl_w L)"
    using RecvRecord_wire [where f = wire, OF w1(1)] ok(8) by (simp add: duplex_def)
  let ?L = "L\<lparr>fl_io := mem_put (fl_io L) 0 (rec_bytes Ccs), fl_w := w1\<rparr>"
  have "flight_record B C P cp k recv L = (Inr (), ?L)" by (simp add: flight_record_def w1(1) Let_def)
  moreover have "length (mem_put (fl_io L) 0 (rec_bytes Ccs)) = ioLen" using Suc.prems(4) sz(4) by simp
  ultimately show ?case
    using Suc.IH [of ?L] Suc.prems w1(2) wr nd by (simp add: flight_loop.simps [of B C P cp k recv L])
qed

subsection \<open>The end of the handshake\<close>

lemma client_finish_complete:
  assumes "sha256_ok C H R" "kdf_ok C" "hmac_ok C M" "aead_ok C" "duplex send recv pend wire"
    and "tdigest tc = WC_SHA256" "R (thash tc) m" "length (hk_hs k) = 32" "length (hk_cHs k) = 32" "length (hk_cKey k) = 16"
      "length (hk_cIv k) = 12" "58 \<le> length io"
  shows "\<exists>sess io' w'. client_finish C tc k (H []) send recv io scr w = (0, sess, io', w') \<and>
    length io' = length io \<and> pend w' = pend w \<and>
    wire w' = wire w @ seal C (hk_cKey k) (hk_cIv k) 0 22
      (hs_msg 20 (M (hkdf_expand C 32 (hk_cHs k) ''finished'' []) (H m))) \<and>
    (0, sess) = wn_SessionEstablish C Client session_zero (hk_hs k) (H []) (replicate 32 0) (H m) (Some send) (Some recv)
      (scr io') (length (scr io'))"
proof -
  let ?mac = "M (hkdf_expand C 32 (hk_cHs k) ''finished'' []) (H m)"
  let ?rec = "seal C (hk_cKey k) (hk_cIv k) 0 22 ([20, 0, 0, 32] @ ?mac)"
  have hl: "length (H x) = 32" for x using assms(1) by (simp add: sha256_ok_def)
  have ml: "length (M x y) = 32" for x y using assms(3) by (simp add: hmac_ok_def)
  have msg: "hs_msg 20 ?mac = [20, 0, 0, 32] @ ?mac" by (simp add: hs_msg_def ml be24_def)
  have sl: "length ?rec = 58" using length_seal [OF assms(4,10,11)] by (simp add: ml)
  have prot: "wn_Record_Protect C io (Some (hk_cKey k)) (Some (hk_cIv k)) 0 22 (Some ([20, 0, 0, 32] @ ?mac)) =
      (Inr 58, mem_put io 0 ?rec)"
    using Protect_seal [OF assms(4,10,11), of "[20, 0, 0, 32] @ ?mac" io 0 22] assms(12) by (simp add: ml)
  have tk: "take 58 (mem_put io 0 ?rec) = ?rec" using sl by (simp add: mem_put_def)
  obtain w' where w': "send w ?rec = (58, w')" "wire w' = wire w @ ?rec" "pend w' = pend w"
    using duplex_send [OF assms(5), of w ?rec] sl by auto
  have len: "length (mem_put io 0 ?rec) = length io" using sl assms(12) by simp
  let ?S = "wn_SessionEstablish C Client session_zero (hk_hs k) (H []) (replicate 32 0) (H m) (Some send) (Some recv)
      (scr (mem_put io 0 ?rec)) (length (scr (mem_put io 0 ?rec)))"
  have "fst ?S = 0" by (simp only: SessionEstablish_eq [OF assms(2,8) hl hl] Let_def fst_conv)
  then obtain sess where s: "?S = (0, sess)" by (metis prod.collapse)
  show ?thesis
  proof (intro exI conjI)
    show "client_finish C tc k (H []) send recv io scr w = (0, sess, mem_put io 0 ?rec, w')"
      using assms(9) by (simp add: client_finish_def sha256_get [OF assms(1,6,7)] FinishedMac_ok [OF assms(2,3)] hl
          WOLFNANO_SUCCESS_def ml prot [simplified] tk [simplified] w'(1) [simplified] client_copies s [simplified])
  qed (simp_all add: len w' msg s del: append_Cons)
qed

subsection \<open>The ServerHello\<close>

lemma recv_hello_complete:
  assumes "duplex send recv pend wire" "pend w = rec_bytes (Frag msg) @ rest" "msg \<noteq> []" "length msg + 5 \<le> length io" "length msg \<le> 16640"
  shows "\<exists>w'. recv_hello recv io w = Some (Inr (22, length msg + 5), mem_put io 0 (rec_bytes (Frag msg)), w') \<and>
    pend w' = rest \<and> wire w' = wire w"
proof -
  obtain w' where w': "wn_RecvRecord recv w io (length io) = (Inr (22, length msg + 5), mem_put io 0 (rec_bytes (Frag msg)), w')"
      "pend w' = rest"
    using recv_rec [OF duplex_recv [OF assms(1)], of io "Frag msg" w rest] assms by auto
  moreover have "wire w' = wire w" using RecvRecord_wire [where f = wire, OF w'(1)] assms(1) by (simp add: duplex_def)
  ultimately show ?thesis by (simp add: recv_hello.simps [of recv io w])
qed

lemma on_server_hello_complete:
  assumes "sha256_ok C H R" "tdigest (ho_tc ho) = WC_SHA256" "R (thash (ho_tc ho)) m"
    and "wn_ServerHello_Parse (Some msg) = Inr sh" "\<not> sh_isHelloRetry sh" "sh_acceptable B (ho_sid ho) psk msg sh"
    and "wn_KeyShare_Shared B X (ho_ks ho) (Some (slice (the (sh_keyShare sh)) (sh_keyShareLen sh) msg))
      (replicate (WN_DEFAULT_SECRET_SZ B) 0) = (Inr n, buf)"
    and "length msg + 5 \<le> length io"
  shows "\<exists>tc. on_server_hello B C X ho psk (Inr (22, length msg + 5)) (mem_put io 0 (rec_bytes (Frag msg))) = Inr (tc, take n buf) \<and>
    tdigest tc = WC_SHA256 \<and> R (thash tc) (m @ msg)"
proof -
  have msg: "slice 5 (length msg) (mem_put io 0 (rec_bytes (Frag msg))) = msg"
    using assms(8) by (simp add: mem_put_def slice_def)
  obtain tc where tc: "wn_Transcript_Update C (ho_tc ho) (Some msg) (length msg) = (0, tc)" "tdigest tc = WC_SHA256"
      "R (thash tc) (m @ msg)"
    using sha256_update [OF assms(1-3), of msg] by blast
  then show ?thesis
    using assms(4-7) msg by (simp add: on_server_hello_def codeE_def okI_def WOLFNANO_SUCCESS_def Let_def)
qed

end
