(* ===== verification/ServerAccept.thy ===== *)
theory ServerAccept
  imports ServerCert KeyShare ClientHello Transcript Handshake Step
begin

section \<open>The server drivers (wn_accept.c)\<close>

text \<open>
  \<open>wn_Accept_Psk\<close> and \<open>wn_Accept_Cert\<close> with their variants: the ClientHello, a
  HelloRetryRequest when it has no usable key share, the PSK binder or the signature scheme,
  the key exchange, ServerHello, the encrypted flight, the session and the client's Finished.
  A driver is a chain of steps on the random generator, the world of the transport and the
  scratch buffer; pointers into the ClientHello are offsets into the scratch buffer. \<open>None\<close> is
  a call that never returns, because the peer sends ChangeCipherSpec records for ever.
  Local arrays are wiped before the return and not part of the result.
\<close>

subsection \<open>The ClientHello\<close>

definition WN_ACCEPT_SCRATCH_MIN :: "build \<Rightarrow> nat" where
  "WN_ACCEPT_SCRATCH_MIN B = (if WN_DEFAULT_PUB_SZ B > 512 then 4096 else 2048)"

text \<open>The three initialisations run one after the other, their statuses joined with \<open>|=\<close>.\<close>

definition accept_init ::
  "'x crypto \<Rightarrow> ('k, 'r) kx_crypto \<Rightarrow> 'x transcript \<Rightarrow> (('r, 'w) env, 'x transcript \<times> bytes \<times> bytes) step" where
  "accept_init C X tc0 = on_rng (\<lambda>r.
     case wn_Transcript_Init C tc0 WC_SHA256 of (r1, tc) \<Rightarrow>
     case wc_Sha256Hash C [] of (r2, emptyHash) \<Rightarrow>
     case wc_RNG_GenerateBlock X r 32 of (r3, random32, r') \<Rightarrow>
       (okI (r1 OR (if r2 \<noteq> 0 then err_code E_CRYPTO else 0) OR (if r3 \<noteq> 0 then err_code E_CRYPTO else 0),
             (tc, emptyHash, random32)), r'))"

text \<open>A handshake message reassembled in the first half of the scratch buffer, and parsed.\<close>

definition recv_client_hello :: "build \<Rightarrow> 'w io_recv \<Rightarrow> (('r, 'w) env, nat \<times> client_hello) step" where
  "recv_client_hello B recv s =
     (let half = length (e_scr s) div 2 in
      case wn_RecvHandshake (Some recv) (e_w s) (take half (e_scr s)) (drop half (e_scr s)) of
        None \<Rightarrow> None
      | Some (res, acc, tmp, w) \<Rightarrow>
          Some (bindE (codeE res) (\<lambda>chLen.
                bindE (codeE (wn_ClientHello_Parse B (Some (take chLen acc)))) (\<lambda>ch. Inr (chLen, ch))),
                s\<lparr>e_w := w, e_scr := acc @ tmp\<rparr>))"

text \<open>A pointer and a length of the parsed ClientHello, as octets of the scratch buffer.\<close>

definition ch_field :: "bytes \<Rightarrow> nat option \<Rightarrow> nat \<Rightarrow> bytes" where
  "ch_field scr p n = slice (the p) n scr"

definition wn_Accept_MaybeHrr ::
  "build \<Rightarrow> 'x crypto \<Rightarrow> 'w io_send \<Rightarrow> 'w io_recv \<Rightarrow> 'x transcript \<Rightarrow> nat \<Rightarrow> client_hello \<Rightarrow>
   (('r, 'w) env, 'x transcript \<times> nat \<times> client_hello) step" where
  "wn_Accept_MaybeHrr B C send recv tc chLen ch =
     (if ch_haveKeyShare ch then ret_s (tc, chLen, ch)
      else
        bind_s get_s (\<lambda>s.
        case wc_Sha256Hash C (take chLen (e_scr s)) of (r1, h) \<Rightarrow>
        bind_s (pure_s (crypt r1)) (\<lambda>_.
        bind_s (pure_s (okI (wn_Transcript_Update C tc (Some ([0xFE, 0, 0, 32] @ h)) 36))) (\<lambda>tc1.
        case wn_HelloRetryRequest_Build (replicate 128 0) (ch_field (e_scr s) (ch_sessionId ch) (ch_sessionIdLen ch))
               (ch_cipher ch) (WN_DEFAULT_GROUP B) of (r2, hrr) \<Rightarrow>
        bind_s (pure_s (codeE r2)) (\<lambda>hrrLen.
        bind_s (pure_s (okI (wn_Transcript_Update C tc1 (Some hrr) hrrLen))) (\<lambda>tc2.
        bind_s (on_io (\<lambda>w. wn_SendPlainRecord send w 22 (take hrrLen hrr))) (\<lambda>_.
        bind_s (on_io (wn_SendCcs send)) (\<lambda>_.
        bind_s (recv_client_hello B recv) (\<lambda>(ch2Len, ch2).
        bind_s (guard_s (ch_haveKeyShare ch2) E_ILLEGAL_PARAM) (\<lambda>_.
          ret_s (tc2, ch2Len, ch2)))))))))))"

text \<open>What the first part of a driver leaves.\<close>

record 'x hello_in =
  hi_tc :: "'x transcript"
  hi_ch :: client_hello
  hi_chLen :: nat
  hi_hrrDone :: bool
  hi_random :: bytes
  hi_emptyHash :: bytes

definition accept_hello ::
  "build \<Rightarrow> 'x crypto \<Rightarrow> ('k, 'r) kx_crypto \<Rightarrow> 'x transcript \<Rightarrow> 'w io_send \<Rightarrow> 'w io_recv \<Rightarrow>
   (('r, 'w) env, 'x hello_in) step" where
  "accept_hello B C X tc0 send recv =
     bind_s (accept_init C X tc0) (\<lambda>(tc, emptyHash, random32).
     bind_s (recv_client_hello B recv) (\<lambda>(chLen, ch).
     bind_s (wn_Accept_MaybeHrr B C send recv tc chLen ch) (\<lambda>(tc1, n, ch1).
       ret_s \<lparr>hi_tc = tc1, hi_ch = ch1, hi_chLen = n, hi_hrrDone = (\<not> ch_haveKeyShare ch),
              hi_random = random32, hi_emptyHash = emptyHash\<rparr>)))"

subsection \<open>The PSK binder\<close>

text \<open>The binder covers the transcript up to the binders list; the result is the early secret.\<close>

definition accept_binder ::
  "'x crypto \<Rightarrow> bytes \<Rightarrow> bytes \<Rightarrow> 'x hello_in \<Rightarrow> (('r, 'w) env, bytes \<times> 'x transcript) step" where
  "accept_binder C psk identity hi =
     bind_s get_s (\<lambda>s.
     let ch = hi_ch hi; scr = e_scr s; trunc = ch_binderTruncLen ch in
     bind_s (guard_s (ch_havePsk ch \<and> ch_pskIdentityLen ch = length identity \<and>
                      ch_field scr (ch_pskIdentity ch) (length identity) = identity) E_ILLEGAL_PARAM) (\<lambda>_.
     case wn_Tls13_Extract C stack32 [] (Some psk) WC_SHA256 of (r1, early) \<Rightarrow>
     case wn_Tls13_DeriveSecret C stack32 (Some early) ''ext binder'' (Some (hi_emptyHash hi)) 32 WC_SHA256 of (r2, binderKey) \<Rightarrow>
     bind_s (pure_s (okI (r1 OR r2, ()))) (\<lambda>_.
     bind_s (pure_s (okI (wn_Transcript_Update C (hi_tc hi) (Some scr) trunc))) (\<lambda>tc1.
     case wn_Transcript_GetHash C tc1 stack32 32 of (r3, th, _) \<Rightarrow>
     bind_s (pure_s (okI (r3, ()))) (\<lambda>_.
     case wn_Tls13_FinishedMac C stack32 (Some binderKey) (Some th) 32 WC_SHA256 of (r4, mac) \<Rightarrow>
     bind_s (pure_s (okI (r4, ()))) (\<lambda>_.
     bind_s (guard_s (mac = ch_field scr (ch_binder ch) 32) E_BAD_MAC) (\<lambda>_.
     bind_s (pure_s (okI (wn_Transcript_Update C tc1 (Some (drop trunc scr)) (u32_sub (hi_chLen hi) trunc)))) (\<lambda>tc2.
       ret_s (early, tc2)))))))))"

subsection \<open>Key exchange and ServerHello\<close>

text \<open>\<open>ks0\<close> is the uninitialised local key share.\<close>

definition accept_key_exchange ::
  "build \<Rightarrow> ('k, 'r) kx_crypto \<Rightarrow> 'k keyshare \<Rightarrow> client_hello \<Rightarrow> (('r, 'w) env, bytes \<times> bytes) step" where
  "accept_key_exchange B X ks0 ch =
     bind_s get_s (\<lambda>s.
     case wn_KeyShare_Init B X (ks_hybrid ks0) ks0 (ch_group ch) of (r1, ks) \<Rightarrow>
     bind_s (pure_s (codeE r1)) (\<lambda>_.
       on_rng (\<lambda>rng.
         case wn_KeyShare_ServerShare B X ks rng (map_option (\<lambda>p. ch_field (e_scr s) (Some p) (ch_keyShareLen ch)) (ch_keyShare ch))
                (replicate (WN_KEYSHARE_MAX_PUB B) 0) (replicate (WN_DEFAULT_SECRET_SZ B) 0) of
           (r2, ks', rng', srvPub, ecdhe) \<Rightarrow>
             (bindE (codeE r2) (\<lambda>(pubLen, ssLen). Inr (take pubLen srvPub, take ssLen ecdhe)), rng'))))"

definition accept_server_hello ::
  "'x crypto \<Rightarrow> 'w io_send \<Rightarrow> 'x hello_in \<Rightarrow> 'x transcript \<Rightarrow> bytes \<Rightarrow> bytes \<Rightarrow> bool \<Rightarrow> (('r, 'w) env, 'x transcript) step" where
  "accept_server_hello C send hi tc sid srvPub includePsk =
     bind_s (on_scr (\<lambda>scr. wn_ServerHello_Build scr (Some (hi_random hi)) sid (ch_cipher (hi_ch hi)) (ch_group (hi_ch hi))
                       (Some srvPub) 0 includePsk)) (\<lambda>shLen.
     bind_s get_s (\<lambda>s.
     bind_s (pure_s (okI (wn_Transcript_Update C tc (Some (e_scr s)) shLen))) (\<lambda>tc1.
     bind_s (on_io (\<lambda>w. wn_SendPlainRecord send w 22 (take shLen (e_scr s)))) (\<lambda>_.
     bind_s (if hi_hrrDone hi then ret_s () else on_io (wn_SendCcs send)) (\<lambda>_.
       ret_s tc1)))))"

definition accept_hs_keys :: "'x crypto \<Rightarrow> 'x transcript \<Rightarrow> bytes \<Rightarrow> bytes \<Rightarrow> bytes \<Rightarrow> int \<times> hs_keys" where
  "accept_hs_keys C tc early ecdhe emptyHash =
     (case wn_Transcript_GetHash C tc stack32 32 of (r1, th, _) \<Rightarrow>
      case wn_DeriveHsKeys C stack_keys early ecdhe emptyHash th of (r2, k) \<Rightarrow> (r1 OR r2, k))"

subsection \<open>The flight\<close>

text \<open>The Finished message over the transcript so far, and the octets of a region sent at once.\<close>

definition accept_finished_mac :: "'x crypto \<Rightarrow> bytes \<Rightarrow> 'x transcript \<Rightarrow> int + bytes" where
  "accept_finished_mac C secret tc =
     (case wn_Transcript_GetHash C tc stack32 32 of (r1, th, _) \<Rightarrow>
      case wn_Tls13_FinishedMac C stack32 (Some secret) (Some th) 32 WC_SHA256 of (r2, mac) \<Rightarrow>
        okI (r1 OR r2, [20, 0, 0, 32] @ take 32 mac))"

definition send_region :: "'w io_send \<Rightarrow> nat \<Rightarrow> nat \<Rightarrow> (('r, 'w) env, unit) step" where
  "send_region send off n =
     bind_s get_s (\<lambda>s. on_io (\<lambda>w. case send w (slice off n (e_scr s)) of (r, w') \<Rightarrow>
       (if r \<noteq> int n then Inl E_CRYPTO else Inr (), w')))"

text \<open>A builder that writes to \<open>n\<close> octets at \<open>off\<close> in the scratch buffer.\<close>

definition on_region :: "nat \<Rightarrow> nat \<Rightarrow> (bytes \<Rightarrow> (wn_err + 'a) \<times> bytes) \<Rightarrow> (('r, 'w) env, 'a) step" where
  "on_region off n f = on_scr (\<lambda>scr. case f (slice off n scr) of (r, p) \<Rightarrow> (r, mem_put scr off p))"

definition accept_psk_flight ::
  "'x crypto \<Rightarrow> 'w io_send \<Rightarrow> hs_keys \<Rightarrow> 'x transcript \<Rightarrow> (('r, 'w) env, 'x transcript) step" where
  "accept_psk_flight C send k tc =
     (case wn_EncExt_Build (replicate 128 0) of (r1, flight) \<Rightarrow>
      bind_s (pure_s (codeE r1)) (\<lambda>eeLen.
      bind_s (pure_s (okI (wn_Transcript_Update C tc (Some flight) eeLen))) (\<lambda>tc1.
      bind_s (pure_s (accept_finished_mac C (hk_sHs k) tc1)) (\<lambda>fin.
      let flight1 = mem_put flight eeLen fin in
      bind_s (pure_s (okI (wn_Transcript_Update C tc1 (Some (drop eeLen flight1)) 36))) (\<lambda>tc2.
      bind_s (on_scr (\<lambda>scr. wn_Record_Protect C scr (Some (hk_sKey k)) (Some (hk_sIv k)) 0 22
                        (Some (take (eeLen + 36) flight1)))) (\<lambda>encLen.
      bind_s (send_region send 0 encLen) (\<lambda>_.
        ret_s tc2)))))))"

text \<open>
  The certificate flight is built in the first half of the scratch buffer and sealed into the
  second. The signature draws random octets.
\<close>

definition accept_cert_verify ::
  "build \<Rightarrow> ('k, 'r) kx_crypto \<Rightarrow> word16 \<Rightarrow> bytes \<Rightarrow> bytes \<Rightarrow> nat \<Rightarrow> nat \<Rightarrow> (('r, 'w) env, nat) step" where
  "accept_cert_verify B X scheme keyDer th off n s =
     (case wn_ServerCertVerify_Sign B X (slice off n (e_scr s)) scheme (Some keyDer) (Some th) (e_rng s) of
        (res, p, rng') \<Rightarrow> Some (codeE res, s\<lparr>e_rng := rng', e_scr := mem_put (e_scr s) off p\<rparr>))"

text \<open>\<open>wn_Transcript_Update\<close> with \<open>n\<close> octets at \<open>off\<close> of the scratch buffer.\<close>

definition absorb :: "'x crypto \<Rightarrow> 'x transcript \<Rightarrow> nat \<Rightarrow> nat \<Rightarrow> (('r, 'w) env, 'x transcript) step" where
  "absorb C tc off n = bind_s get_s (\<lambda>s. pure_s (okI (wn_Transcript_Update C tc (Some (drop off (e_scr s))) n)))"

definition accept_cert_flight ::
  "build \<Rightarrow> 'x crypto \<Rightarrow> ('k, 'r) kx_crypto \<Rightarrow> 'w io_send \<Rightarrow> bytes \<Rightarrow> bytes \<Rightarrow> word16 \<Rightarrow> hs_keys \<Rightarrow> 'x transcript \<Rightarrow> nat \<Rightarrow>
   (('r, 'w) env, 'x transcript) step" where
  "accept_cert_flight B C X send certDer keyDer scheme k tc half =
     bind_s (on_region 0 half wn_EncExt_Build) (\<lambda>l1.
     bind_s (absorb C tc 0 l1) (\<lambda>tc1.
     bind_s (on_region l1 (half - l1) (\<lambda>out. wn_ServerCert_Build out (Some certDer))) (\<lambda>mLen.
     bind_s (absorb C tc1 l1 mLen) (\<lambda>tc2.
     let l2 = l1 + mLen in
     case wn_Transcript_GetHash C tc2 stack32 32 of (r1, thCv, thLen) \<Rightarrow>
     bind_s (pure_s (okI (r1, ()))) (\<lambda>_.
     bind_s (accept_cert_verify B X scheme keyDer (take thLen thCv) l2 (half - l2)) (\<lambda>cvLen.
     bind_s (absorb C tc2 l2 cvLen) (\<lambda>tc3.
     let l3 = l2 + cvLen in
     bind_s (pure_s (accept_finished_mac C (hk_sHs k) tc3)) (\<lambda>fin.
     bind_s (guard_s (\<not> l3 + 4 + 32 + 5 + 1 + 16 > half) E_INVALID_ARG) (\<lambda>_.
     bind_s (on_scr (\<lambda>scr. (Inr (), mem_put scr l3 fin))) (\<lambda>_.
     bind_s (absorb C tc3 l3 36) (\<lambda>tc4.
     bind_s get_s (\<lambda>s.
     bind_s (on_region half (length (e_scr s) - half) (\<lambda>enc. wn_Record_Protect C enc (Some (hk_sKey k)) (Some (hk_sIv k)) 0 22
                (Some (take (l3 + 36) (e_scr s))))) (\<lambda>encLen.
     bind_s (send_region send half encLen) (\<lambda>_.
       ret_s tc4))))))))))))))"

subsection \<open>The client's Finished\<close>

text \<open>
  One record: \<open>lim\<close> is the size of the buffer the plaintext goes to, and \<open>store\<close> puts it there
  where that buffer is a part of the scratch buffer. The record is taken to be read before
  the plaintext is written, also for a record that reaches into that part.
\<close>

definition finished_record ::
  "'x crypto \<Rightarrow> 'w io_recv \<Rightarrow> hs_keys \<Rightarrow> bytes \<Rightarrow> nat \<Rightarrow> (bytes \<Rightarrow> bytes \<Rightarrow> bytes) \<Rightarrow> (('r, 'w) env, bool) step" where
  "finished_record C recv k recvMac lim store s =
     (case wn_RecvRecord recv (e_w s) (e_scr s) (length (e_scr s)) of
        (Inl e, scr, w) \<Rightarrow> Some (Inl (err_code e), s\<lparr>e_w := w, e_scr := scr\<rparr>)
      | (Inr (rtype, recLen), scr, w) \<Rightarrow>
          let s1 = s\<lparr>e_w := w, e_scr := scr\<rparr> in
          if rtype = 20 then Some (Inr False, s1)
          else if rtype \<noteq> 23 \<or> recLen > lim + 5 + 16 then Some (Inl (err_code E_UNEXPECTED_MSG), s1)
          else case wn_Record_Unprotect C (Some (hk_cKey k)) (Some (hk_cIv k)) 0 (Some (take recLen scr)) of
            (res, content) \<Rightarrow>
              let s2 = s1\<lparr>e_scr := store scr content\<rparr> in
              case res of Inl e \<Rightarrow> Some (Inl (err_code e), s2)
              | Inr (flightLen, ctype) \<Rightarrow>
                  if ctype \<noteq> 22 \<or> flightLen \<noteq> 36 \<or> content ! 0 \<noteq> 20 then Some (Inl (err_code E_UNEXPECTED_MSG), s2)
                  else if slice 4 32 content \<noteq> recvMac then Some (Inl (err_code E_BAD_MAC), s2)
                  else Some (Inr True, s2))"

partial_function (option) finished_loop ::
  "'x crypto \<Rightarrow> 'w io_recv \<Rightarrow> hs_keys \<Rightarrow> bytes \<Rightarrow> nat \<Rightarrow> (bytes \<Rightarrow> bytes \<Rightarrow> bytes) \<Rightarrow> ('r, 'w) env \<Rightarrow>
   ((int + unit) \<times> ('r, 'w) env) option" where
  "finished_loop C recv k recvMac lim store s =
     (case finished_record C recv k recvMac lim store s of
        None \<Rightarrow> None
      | Some (Inl e, s') \<Rightarrow> Some (Inl e, s')
      | Some (Inr d, s') \<Rightarrow> if d then Some (Inr (), s') else finished_loop C recv k recvMac lim store s')"

text \<open>
  The session is established before the client's Finished is checked, and wiped by the driver
  when it does not check. Its scratch buffer is the caller's, as it is when the call returns.
\<close>

definition accept_finish ::
  "'x crypto \<Rightarrow> 'w io_send \<Rightarrow> 'w io_recv \<Rightarrow> 'w session \<Rightarrow> hs_keys \<Rightarrow> bytes \<Rightarrow> 'x transcript \<Rightarrow> nat \<Rightarrow>
   (bytes \<Rightarrow> bytes \<Rightarrow> bytes) \<Rightarrow> (('r, 'w) env, 'w session) step" where
  "accept_finish C send recv sess k emptyHash tc lim store =
     (case wn_Transcript_GetHash C tc stack32 32 of (r1, th, _) \<Rightarrow>
      bind_s (pure_s (okI (r1, ()))) (\<lambda>_.
      bind_s get_s (\<lambda>s.
      bind_s (pure_s (okI (wn_SessionEstablish C Server sess (hk_hs k) emptyHash (replicate 32 0) th (Some send) (Some recv)
                              (e_scr s) (length (e_scr s))))) (\<lambda>sess1.
      case wn_Tls13_FinishedMac C stack32 (Some (hk_cHs k)) (Some th) 32 WC_SHA256 of (r2, recvMac) \<Rightarrow>
      bind_s (pure_s (okI (r2, ()))) (\<lambda>_.
      bind_s (finished_loop C recv k (take 32 recvMac) lim store) (\<lambda>_.
      bind_s get_s (\<lambda>s1. ret_s (sess1\<lparr>scratch := e_scr s1\<rparr>))))))))"

subsection \<open>The drivers\<close>

definition accept_psk_steps ::
  "build \<Rightarrow> 'x crypto \<Rightarrow> ('k, 'r) kx_crypto \<Rightarrow> 'x transcript \<Rightarrow> 'k keyshare \<Rightarrow> 'w session \<Rightarrow> 'w io_send \<Rightarrow> 'w io_recv \<Rightarrow>
   bytes \<Rightarrow> bytes \<Rightarrow> (('r, 'w) env, 'w session) step" where
  "accept_psk_steps B C X tc0 ks0 sess send recv psk identity =
     bind_s (accept_hello B C X tc0 send recv) (\<lambda>hi.
     bind_s (accept_binder C psk identity hi) (\<lambda>(early, tc1).
     bind_s (accept_key_exchange B X ks0 (hi_ch hi)) (\<lambda>(srvPub, ecdhe).
     bind_s get_s (\<lambda>s.
     let sid = ch_field (e_scr s) (ch_sessionId (hi_ch hi)) (ch_sessionIdLen (hi_ch hi)) in
     bind_s (accept_server_hello C send hi tc1 sid srvPub True) (\<lambda>tc2.
     bind_s (pure_s (okI (accept_hs_keys C tc2 early ecdhe (hi_emptyHash hi)))) (\<lambda>k.
     bind_s (accept_psk_flight C send k tc2) (\<lambda>tc3.
       accept_finish C send recv sess k (hi_emptyHash hi) tc3 128 (\<lambda>scr content. scr))))))))"

definition accept_cert_steps ::
  "build \<Rightarrow> 'x crypto \<Rightarrow> ('k, 'r) kx_crypto \<Rightarrow> 'x transcript \<Rightarrow> 'k keyshare \<Rightarrow> 'w session \<Rightarrow> 'w io_send \<Rightarrow> 'w io_recv \<Rightarrow>
   bytes \<Rightarrow> bytes \<Rightarrow> word16 \<Rightarrow> nat \<Rightarrow> (('r, 'w) env, 'w session) step" where
  "accept_cert_steps B C X tc0 ks0 sess send recv certDer keyDer scheme half =
     bind_s (accept_hello B C X tc0 send recv) (\<lambda>hi.
     bind_s get_s (\<lambda>s.
     let ch = hi_ch hi in
     bind_s (guard_s (wn_ClientHello_HasSigAlg
                (map_option (\<lambda>p. ch_field (e_scr s) (Some p) (ch_sigAlgsLen ch)) (ch_sigAlgs ch)) scheme) E_ILLEGAL_PARAM) (\<lambda>_.
     bind_s (absorb C (hi_tc hi) 0 (hi_chLen hi)) (\<lambda>tc1.
     bind_s (accept_key_exchange B X ks0 ch) (\<lambda>(srvPub, ecdhe).
     let sid = ch_field (e_scr s) (ch_sessionId ch) (ch_sessionIdLen ch) in
     bind_s (accept_server_hello C send hi tc1 sid srvPub False) (\<lambda>tc2.
     bind_s (pure_s (okI (wn_Tls13_Extract C stack32 [] (Some (replicate 32 0)) WC_SHA256))) (\<lambda>early.
     bind_s (pure_s (okI (accept_hs_keys C tc2 early ecdhe (hi_emptyHash hi)))) (\<lambda>k.
     bind_s (accept_cert_flight B C X send certDer keyDer scheme k tc2 half) (\<lambda>tc3.
       accept_finish C send recv sess k (hi_emptyHash hi) tc3 half (\<lambda>scr content. mem_put scr half content))))))))))"

text \<open>On a failure the session and the whole scratch buffer are wiped.\<close>

definition accept_result ::
  "((int + 'w session) \<times> ('r, 'w) env) option \<Rightarrow> (int \<times> 'w session \<times> 'r \<times> 'w \<times> bytes) option" where
  "accept_result res =
     (case res of None \<Rightarrow> None
      | Some (Inl e, s) \<Rightarrow> Some (e, session_zero, e_rng s, e_w s, replicate (length (e_scr s)) 0)
      | Some (Inr sess, s) \<Rightarrow> Some (WOLFNANO_SUCCESS, sess, e_rng s, e_w s, e_scr s))"

definition wn_Accept_Psk_ex ::
  "build \<Rightarrow> 'x crypto \<Rightarrow> ('k, 'r) kx_crypto \<Rightarrow> 'x transcript \<Rightarrow> 'k keyshare \<Rightarrow> 'w session \<Rightarrow> 'r \<Rightarrow> 'w io_send option \<Rightarrow>
   'w io_recv option \<Rightarrow> 'w \<Rightarrow> bytes option \<Rightarrow> bytes option \<Rightarrow> bytes \<Rightarrow> (int \<times> 'w session \<times> 'r \<times> 'w \<times> bytes) option" where
  "wn_Accept_Psk_ex B C X tc0 ks0 sess rng ioS ioR w psk identity scr =
     (if ioS = None \<or> ioR = None \<or> psk = None \<or> psk = Some [] \<or> identity = None \<or> length scr < WN_ACCEPT_SCRATCH_MIN B
      then Some (err_code E_INVALID_ARG, sess, rng, w, scr)
      else accept_result (accept_psk_steps B C X tc0 ks0 sess (the ioS) (the ioR) (the psk) (the identity)
             \<lparr>e_rng = rng, e_w = w, e_scr = scr\<rparr>))"

definition wn_Accept_Psk ::
  "build \<Rightarrow> 'x crypto \<Rightarrow> ('k, 'r) kx_crypto \<Rightarrow> 'x transcript \<Rightarrow> 'k keyshare \<Rightarrow> 'r \<Rightarrow> 'w io_send option \<Rightarrow>
   'w io_recv option \<Rightarrow> 'w \<Rightarrow> bytes option \<Rightarrow> bytes option \<Rightarrow> bytes \<Rightarrow> (int \<times> 'r \<times> 'w \<times> bytes) option" where
  "wn_Accept_Psk B C X tc0 ks0 rng ioS ioR w psk identity scr =
     map_option (\<lambda>(ret, sess, rng', w', scr'). (ret, rng', w', scr'))
       (wn_Accept_Psk_ex B C X tc0 ks0 session_zero rng ioS ioR w psk identity scr)"

definition wn_Accept_Cert_ex ::
  "build \<Rightarrow> 'x crypto \<Rightarrow> ('k, 'r) kx_crypto \<Rightarrow> 'x transcript \<Rightarrow> 'k keyshare \<Rightarrow> 'w session \<Rightarrow> 'r \<Rightarrow> 'w io_send option \<Rightarrow>
   'w io_recv option \<Rightarrow> 'w \<Rightarrow> bytes option \<Rightarrow> bytes option \<Rightarrow> word16 \<Rightarrow> bytes \<Rightarrow> (int \<times> 'w session \<times> 'r \<times> 'w \<times> bytes) option" where
  "wn_Accept_Cert_ex B C X tc0 ks0 sess rng ioS ioR w certDer keyDer scheme scr =
     (if ioS = None \<or> ioR = None \<or> certDer = None \<or> keyDer = None \<or> length scr < 4096
      then Some (err_code E_INVALID_ARG, sess, rng, w, scr)
      else accept_result (accept_cert_steps B C X tc0 ks0 sess (the ioS) (the ioR) (the certDer) (the keyDer) scheme
             (length scr div 2) \<lparr>e_rng = rng, e_w = w, e_scr = scr\<rparr>))"

definition wn_Accept_Cert ::
  "build \<Rightarrow> 'x crypto \<Rightarrow> ('k, 'r) kx_crypto \<Rightarrow> 'x transcript \<Rightarrow> 'k keyshare \<Rightarrow> 'r \<Rightarrow> 'w io_send option \<Rightarrow>
   'w io_recv option \<Rightarrow> 'w \<Rightarrow> bytes option \<Rightarrow> bytes option \<Rightarrow> word16 \<Rightarrow> bytes \<Rightarrow> (int \<times> 'r \<times> 'w \<times> bytes) option" where
  "wn_Accept_Cert B C X tc0 ks0 rng ioS ioR w certDer keyDer scheme scr =
     map_option (\<lambda>(ret, sess, rng', w', scr'). (ret, rng', w', scr'))
       (wn_Accept_Cert_ex B C X tc0 ks0 session_zero rng ioS ioR w certDer keyDer scheme scr)"

end
