(* ===== verification/Runs.thy ===== *)
theory Runs
  imports Step Transport
begin

section \<open>Steps over a reliable transport\<close>

text \<open>
  \<open>runs m r scr x r' scr' i out\<close>: from the random state \<open>r\<close> and the scratch buffer \<open>scr\<close>, over
  any world that delivers \<open>i\<close> first, the step \<open>m\<close> returns \<open>x\<close>, leaves \<open>r'\<close> and \<open>scr'\<close>, takes
  exactly \<open>i\<close> off the input and sends \<open>out\<close>. What a step computes does not depend on the world
  beyond the octets it reads, so that the octets sent are known before the answer to them is.
\<close>

definition runs ::
  "('w \<Rightarrow> bytes) \<Rightarrow> ('w \<Rightarrow> bytes) \<Rightarrow> (('r, 'w) env, 'a) step \<Rightarrow> 'r \<Rightarrow> bytes \<Rightarrow> 'a \<Rightarrow> 'r \<Rightarrow> bytes \<Rightarrow> bytes \<Rightarrow> bytes \<Rightarrow> bool" where
  "runs pend wire m r scr x r' scr' i out \<longleftrightarrow>
     (\<forall>w rest. pend w = i @ rest \<longrightarrow>
        (\<exists>w'. m \<lparr>e_rng = r, e_w = w, e_scr = scr\<rparr> = Some (Inr x, \<lparr>e_rng = r', e_w = w', e_scr = scr'\<rparr>) \<and>
              pend w' = rest \<and> wire w' = wire w @ out))"

lemma runsI:
  assumes "\<And>w rest. pend w = i @ rest \<Longrightarrow>
    \<exists>w'. m \<lparr>e_rng = r, e_w = w, e_scr = scr\<rparr> = Some (Inr x, \<lparr>e_rng = r', e_w = w', e_scr = scr'\<rparr>) \<and>
      pend w' = rest \<and> wire w' = wire w @ out"
  shows "runs pend wire m r scr x r' scr' i out"
  using assms by (simp add: runs_def)

lemma runsD:
  assumes "runs pend wire m r scr x r' scr' i out" "pend w = i @ rest"
  shows "\<exists>w'. m \<lparr>e_rng = r, e_w = w, e_scr = scr\<rparr> = Some (Inr x, \<lparr>e_rng = r', e_w = w', e_scr = scr'\<rparr>) \<and>
    pend w' = rest \<and> wire w' = wire w @ out"
  using assms unfolding runs_def by blast

lemma runs_bind:
  assumes "runs pend wire m r scr x r1 scr1 i1 o1" "runs pend wire (f x) r1 scr1 y r2 scr2 i2 o2"
    and "i = i1 @ i2" "out = o1 @ o2"
  shows "runs pend wire (bind_s m f) r scr y r2 scr2 i out"
proof (rule runsI)
  fix w rest
  assume "pend w = i @ rest"
  then have "pend w = i1 @ i2 @ rest" by (simp add: assms(3))
  from runsD [OF assms(1) this] obtain w1 where
    w1: "m \<lparr>e_rng = r, e_w = w, e_scr = scr\<rparr> = Some (Inr x, \<lparr>e_rng = r1, e_w = w1, e_scr = scr1\<rparr>)"
      "pend w1 = i2 @ rest" "wire w1 = wire w @ o1" by blast
  from runsD [OF assms(2) w1(2)] show "\<exists>w'. bind_s m f \<lparr>e_rng = r, e_w = w, e_scr = scr\<rparr> =
      Some (Inr y, \<lparr>e_rng = r2, e_w = w', e_scr = scr2\<rparr>) \<and> pend w' = rest \<and> wire w' = wire w @ out"
    by (auto simp: bind_s_def w1(1,3) assms(4))
qed

lemma runs_seq:
  assumes "runs pend wire m r scr x r1 scr1 [] []" "runs pend wire (f x) r1 scr1 y r2 scr2 i out"
  shows "runs pend wire (bind_s m f) r scr y r2 scr2 i out"
  by (rule runs_bind, rule assms(1), rule assms(2)) simp_all

text \<open>Steps that do not touch the transport go in front of one that may.\<close>

lemma run_status: "okI (0, x) = Inr x"
  by (simp add: okI_def WOLFNANO_SUCCESS_def)

lemma runs_pure:
  assumes "runs pend wire (f x) r scr y r' scr' i out"
  shows "runs pend wire (bind_s (pure_s (Inr x)) f) r scr y r' scr' i out"
  using assms by (simp add: runs_def bind_s_def pure_s_def)

lemma runs_okI:
  assumes "p = (0, x)" "runs pend wire (f x) r scr y r' scr' i out"
  shows "runs pend wire (bind_s (pure_s (okI p)) f) r scr y r' scr' i out"
  using assms by (simp add: run_status runs_pure)

lemma runs_codeE:
  assumes "c = Inr x" "runs pend wire (f x) r scr y r' scr' i out"
  shows "runs pend wire (bind_s (pure_s (codeE c)) f) r scr y r' scr' i out"
  using assms by (simp add: runs_pure codeE_def)

lemma runs_guard:
  assumes "b" "runs pend wire (f ()) r scr y r' scr' i out"
  shows "runs pend wire (bind_s (guard_s b e) f) r scr y r' scr' i out"
  using assms by (simp add: guard_s_def runs_pure)

lemma runs_get:
  assumes "\<And>w. runs pend wire (f \<lparr>e_rng = r, e_w = w, e_scr = scr\<rparr>) r scr y r' scr' i out"
  shows "runs pend wire (bind_s get_s f) r scr y r' scr' i out"
  using assms by (simp add: runs_def bind_s_def get_s_def)

lemma runs_ret: "runs pend wire (ret_s x) r scr x r scr [] []"
  by (simp add: runs_def ret_s_def)

lemma runs_scr:
  assumes "g scr = (Inr x, scr1)" "runs pend wire (f x) r scr1 y r' scr' i out"
  shows "runs pend wire (bind_s (on_scr g) f) r scr y r' scr' i out"
  using assms by (simp add: runs_def bind_s_def on_scr_def codeE_def)

lemma runs_rng:
  assumes "g r = (Inr x, r1)" "runs pend wire (f x) r1 scr y r' scr' i out"
  shows "runs pend wire (bind_s (on_rng g) f) r scr y r' scr' i out"
  using assms by (simp add: runs_def bind_s_def on_rng_def)

lemma runs_rng_last: "g r = (Inr x, r1) \<Longrightarrow> runs pend wire (on_rng g) r scr x r1 scr [] []"
  by (simp add: runs_def on_rng_def)

lemma runs_scr_last: "g scr = (Inr x, scr1) \<Longrightarrow> runs pend wire (on_scr g) r scr x r scr1 [] []"
  by (simp add: runs_def on_scr_def codeE_def)

text \<open>Sending.\<close>

definition sends :: "('w \<Rightarrow> bytes) \<Rightarrow> ('w \<Rightarrow> bytes) \<Rightarrow> ('w \<Rightarrow> (wn_err + 'a) \<times> 'w) \<Rightarrow> 'a \<Rightarrow> bytes \<Rightarrow> bool" where
  "sends pend wire g x out \<longleftrightarrow> (\<forall>w. \<exists>w'. g w = (Inr x, w') \<and> pend w' = pend w \<and> wire w' = wire w @ out)"

lemma runs_io: "sends pend wire g x out \<Longrightarrow> runs pend wire (on_io g) r scr x r scr [] out"
proof (rule runsI)
  fix w rest
  assume s: "sends pend wire g x out" and p: "pend w = [] @ rest"
  obtain w' where "g w = (Inr x, w')" "pend w' = pend w" "wire w' = wire w @ out"
    using s unfolding sends_def by blast
  with p show "\<exists>w'. on_io g \<lparr>e_rng = r, e_w = w, e_scr = scr\<rparr> = Some (Inr x, \<lparr>e_rng = r, e_w = w', e_scr = scr\<rparr>) \<and>
      pend w' = rest \<and> wire w' = wire w @ out"
    by (simp add: on_io_def codeE_def)
qed

lemma sends_record:
  "duplex send recv pend wire \<Longrightarrow> length m < 4294967296 \<Longrightarrow>
   sends pend wire (\<lambda>w. wn_SendPlainRecord send w 22 m) () (rec_bytes (Frag m))"
  using SendPlainRecord_duplex by (fastforce simp: sends_def)

lemma sends_ccs: "duplex send recv pend wire \<Longrightarrow> sends pend wire (wn_SendCcs send) () (rec_bytes Ccs)"
  using SendCcs_duplex by (fastforce simp: sends_def)

end
