(* ===== verification/AcceptLive.thy ===== *)
theory AcceptLive
  imports ServerAccept Runs ClientHelloRound Builders ClientFlight
begin

section \<open>The server's certificate handshake, step by step\<close>

text \<open>
  What each step of the server driver does with an honest client over a reliable transport: the
  ClientHello it reads, the key exchange, and the octets of the ServerHello and of the flight that
  it sends.
\<close>

subsection \<open>The ClientHello\<close>

lemma RecvHandshake_one:
  assumes "duplex send recv pend wire" "pend w = rec_bytes (Frag m) @ rest" "4 \<le> length m" "hs_len m + 4 = length m"
    and "length m \<le> length acc" "length acc < 2147483648" "length m + 5 \<le> length tmp" "length m \<le> 16640"
  shows "\<exists>w'. wn_RecvHandshake (Some recv) w acc tmp =
      Some (Inr (length m), mem_put acc 0 m, mem_put tmp 0 (rec_bytes (Frag m)), w') \<and> pend w' = rest \<and> wire w' = wire w"
proof -
  have fit: "frag_fits (length tmp) (Frag m)" using assms(3,7,8) by auto
  obtain w' where w': "wn_RecvRecord recv w tmp (length tmp) = (Inr (22, length m + 5), mem_put tmp 0 (rec_bytes (Frag m)), w')"
      "pend w' = rest"
    using recv_rec [OF duplex_recv [OF assms(1)] fit assms(2)] by auto
  have wr: "wire w' = wire w" using RecvRecord_wire [where f = wire, OF w'(1)] assms(1) by (simp add: duplex_def)
  define R where "R = mem_put tmp 0 (rec_bytes (Frag m))"
  have m: "slice 5 (length m) R = m" using slice_rec [OF fit] by (simp add: R_def)
  note w1 = w'(1) [folded R_def]
  let ?acc = "mem_put acc 0 m"
  have "?acc ! i = m ! i" if "i < 4" for i using that assms(3) by (simp add: mem_put_def nth_append)
  then have hl: "hs_len ?acc = hs_len m" by (simp add: hs_len_def)
  have ne: "m \<noteq> []" using assms(3) by auto
  have "recv_hs_step recv acc 0 tmp w = (Inr (Some (hs_len m)), ?acc, length m, R, w')"
    using assms(3-6) ne by (simp add: recv_hs_step_def w1 m hl Let_def u32_def u32_sub_def add.commute)
  then have "wn_RecvHandshake (Some recv) w acc tmp = Some (Inr (length m), ?acc, R, w')"
    using assms(4-6) by (simp add: wn_RecvHandshake_def recv_hs_loop.simps [of recv acc] u32_def add.commute)
  then show ?thesis using w'(2) wr unfolding R_def by blast
qed

text \<open>The random generator: in a good state it fills the buffer and stays good.\<close>

definition rng_ok :: "('k, 'r) kx_crypto \<Rightarrow> ('r \<Rightarrow> bool) \<Rightarrow> bool" where
  "rng_ok X good \<longleftrightarrow> (\<forall>r n. good r \<longrightarrow>
     (case wc_RNG_GenerateBlock X r n of (rc, bs, r') \<Rightarrow> rc = 0 \<and> length bs = n \<and> good r'))"

lemma rng_run:
  assumes "rng_ok X good" "good r"
  obtains bs r' where "wc_RNG_GenerateBlock X r n = (0, bs, r')" "length bs = n" "good r'"
proof -
  obtain rc bs r' where e: "wc_RNG_GenerateBlock X r n = (rc, bs, r')" by (metis prod_cases3)
  have "rc = 0 \<and> length bs = n \<and> good r'"
    using assms(1) [unfolded rng_ok_def, rule_format, OF assms(2), of n] by (simp add: e)
  then show thesis using that e by blast
qed

lemma accept_init_runs:
  assumes "sha256_ok C H R" "wc_RNG_GenerateBlock X r 32 = (0, rnd, r')"
  shows "\<exists>tc. runs pend wire (accept_init C X tc0) r scr (tc, H [], rnd) r' scr [] [] \<and> tdigest tc = WC_SHA256 \<and> R (thash tc) []"
proof -
  obtain tc where tc: "wn_Transcript_Init C tc0 WC_SHA256 = (0, tc)" "tdigest tc = WC_SHA256" "R (thash tc) []"
    using Transcript_Init_ok [OF assms(1), of tc0] by (cases "wn_Transcript_Init C tc0 WC_SHA256") (auto simp: tr_absorbed_def)
  have "wc_Sha256Hash C [] = (0, H [])" using assms(1) by (simp add: sha256_ok_def)
  then have "runs pend wire (accept_init C X tc0) r scr (tc, H [], rnd) r' scr [] []"
    unfolding accept_init_def using tc(1) assms(2) by (intro runs_rng_last) (simp add: run_status)
  then show ?thesis using tc(2,3) by blast
qed

text \<open>The ClientHello of a client of the same build, as the server finds it in its scratch buffer.\<close>

definition share_at :: "build \<Rightarrow> bytes \<Rightarrow> bytes \<Rightarrow> client_hello \<Rightarrow> bytes \<Rightarrow> bool" where
  "share_at B sid pub ch scr \<longleftrightarrow>
     ch_haveKeyShare ch \<and> ch_group ch = WN_DEFAULT_GROUP B \<and> ch_cipher ch = 0x1301 \<and>
     ch_keyShare ch \<noteq> None \<and> ch_field scr (ch_keyShare ch) (ch_keyShareLen ch) = pub \<and>
     ch_field scr (ch_sessionId ch) (ch_sessionIdLen ch) = sid"

definition hello_at :: "build \<Rightarrow> bytes \<Rightarrow> bytes \<Rightarrow> client_hello \<Rightarrow> bytes \<Rightarrow> bool" where
  "hello_at B sid pub ch scr \<longleftrightarrow> share_at B sid pub ch scr \<and>
     ch_sigAlgs ch \<noteq> None \<and> ch_field scr (ch_sigAlgs ch) (ch_sigAlgsLen ch) = sig_bytes B"

lemma hs_len_msg: "n < 16777216 \<Longrightarrow> hs_len (t # be24 n @ b) = n"
  by (simp add: hs_len_def be24_def)

lemma accept_any_hello_runs:
  assumes "sha256_ok C H R" "rng_ok X good" "good r" "duplex send recv pend wire"
    and parse: "wn_ClientHello_Parse B (Some m) = Inr ch" "ch_haveKeyShare ch"
    and m: "m = ch_msg body" "length m \<le> 2000"
    and sz: "4096 \<le> length scr" "length scr < 2147483648"
  shows "\<exists>hi r' scr'. runs pend wire (accept_hello B C X tc0 send recv) r scr hi r' scr' (rec_bytes (Frag m)) [] \<and>
    tdigest (hi_tc hi) = WC_SHA256 \<and> R (thash (hi_tc hi)) [] \<and> hi_emptyHash hi = H [] \<and> length (hi_random hi) = 32 \<and>
    hi_random hi = fst (snd (wc_RNG_GenerateBlock X r 32)) \<and> \<not> hi_hrrDone hi \<and> hi_chLen hi = length m \<and>
    take (length m) scr' = m \<and> hi_ch hi = ch \<and> good r' \<and> length scr' = length scr"
proof -
  obtain bs r' where r: "wc_RNG_GenerateBlock X r 32 = (0, bs, r')" "length bs = 32" "good r'"
    by (rule rng_run [OF assms(2,3)])
  obtain tc where tc: "runs pend wire (accept_init C X tc0) r scr (tc, H [], bs) r' scr [] []" "tdigest tc = WC_SHA256" "R (thash tc) []"
    using accept_init_runs [OF assms(1) r(1)] by blast
  let ?half = "length scr div 2"
  let ?acc = "mem_put (take ?half scr) 0 m" and ?tmp = "mem_put (drop ?half scr) 0 (rec_bytes (Frag m))"
  let ?scr = "?acc @ ?tmp"
  have bl: "length m = length body + 4" by (simp add: m(1) ch_msg_def)
  have "hs_len m = length body"
    unfolding m(1) ch_msg_def by (rule hs_len_msg) (use bl m(2) in simp)
  then have hl: "4 \<le> length m" "hs_len m + 4 = length m" using bl by simp_all
  have half: "length m \<le> length (take ?half scr)" "length (take ?half scr) < 2147483648"
      "length m + 5 \<le> length (drop ?half scr)" "length m \<le> 16640"
    using m(2) sz by auto
  have al: "length ?acc = ?half" "length ?tmp = length scr - ?half" "take (length m) ?acc = m"
    using half(1,3) by (simp_all add: mem_put_def)
  have recv: "runs pend wire (recv_client_hello B recv) r' scr (length m, ch) r' ?scr (rec_bytes (Frag m)) []"
  proof (rule runsI)
    fix w rest
    assume "pend w = rec_bytes (Frag m) @ rest"
    from RecvHandshake_one [OF assms(4) this hl half] obtain w' where
      w': "wn_RecvHandshake (Some recv) w (take ?half scr) (drop ?half scr) = Some (Inr (length m), ?acc, ?tmp, w')"
        "pend w' = rest" "wire w' = wire w" by blast
    define acc tmp where "acc = ?acc" "tmp = ?tmp"
    from w'(1) al(3) have "wn_RecvHandshake (Some recv) w (take ?half scr) (drop ?half scr) = Some (Inr (length m), acc, tmp, w')"
        "take (length m) acc = m" by (simp_all add: acc_tmp_def)
    then have "recv_client_hello B recv \<lparr>e_rng = r', e_w = w, e_scr = scr\<rparr> =
        Some (Inr (length m, ch), \<lparr>e_rng = r', e_w = w', e_scr = acc @ tmp\<rparr>)"
      using parse(1) by (simp add: recv_client_hello_def Let_def codeE_def)
    with w'(2,3) show "\<exists>w'. recv_client_hello B recv \<lparr>e_rng = r', e_w = w, e_scr = scr\<rparr> =
        Some (Inr (length m, ch), \<lparr>e_rng = r', e_w = w', e_scr = ?scr\<rparr>) \<and> pend w' = rest \<and> wire w' = wire w @ []"
      unfolding acc_tmp_def by auto
  qed
  have tk: "take (length m) ?scr = m"
  proof -
    have "length m \<le> length ?acc" using al(1) m(2) sz(1) by simp
    then show ?thesis using al(3) by simp
  qed
  let ?hi = "\<lparr>hi_tc = tc, hi_ch = ch, hi_chLen = length m, hi_hrrDone = False, hi_random = bs, hi_emptyHash = H []\<rparr>"
  have "runs pend wire (accept_hello B C X tc0 send recv) r scr ?hi r' ?scr (rec_bytes (Frag m)) []"
    unfolding accept_hello_def
  proof (rule runs_bind [OF tc(1)], simp only: prod.case, rule runs_bind [OF recv], simp only: prod.case)
    show "runs pend wire (bind_s (wn_Accept_MaybeHrr B C send recv tc (length m) ch) (\<lambda>(tc1, n, ch1).
       ret_s \<lparr>hi_tc = tc1, hi_ch = ch1, hi_chLen = n, hi_hrrDone = (\<not> ch_haveKeyShare ch),
              hi_random = bs, hi_emptyHash = H []\<rparr>)) r' ?scr ?hi r' ?scr [] []"
      unfolding wn_Accept_MaybeHrr_def if_P [OF parse(2)]
      by (rule runs_bind [OF runs_ret _ append_Nil [symmetric] append_Nil [symmetric]]) (simp only: parse(2) prod.case simp_thms runs_ret)
  qed simp_all
  moreover have "length ?scr = length scr" using al by simp
  ultimately show ?thesis using tc(2,3) tk r by (intro exI [of _ ?hi] exI [of _ r'] exI [of _ ?scr]) (simp del: rec_bytes.simps)
qed

lemma accept_hello_runs:
  assumes "sha256_ok C H R" "rng_ok X good" "good r" "duplex send recv pend wire"
    and "length rnd = 32" "length sid = 32" "length pub = WN_DEFAULT_PUB_SZ B" "sni_ok name"
    and m: "m = ch_msg (ch_body rnd sid (ch_exts B name pub))"
    and sz: "4096 \<le> length scr" "length scr < 2147483648"
  shows "\<exists>hi r' scr'. runs pend wire (accept_hello B C X tc0 send recv) r scr hi r' scr' (rec_bytes (Frag m)) [] \<and>
    tdigest (hi_tc hi) = WC_SHA256 \<and> R (thash (hi_tc hi)) [] \<and> hi_emptyHash hi = H [] \<and> length (hi_random hi) = 32 \<and>
    hi_random hi = fst (snd (wc_RNG_GenerateBlock X r 32)) \<and> \<not> hi_hrrDone hi \<and> hi_chLen hi = length m \<and>
    take (length m) scr' = m \<and> hello_at B sid pub (hi_ch hi) scr' \<and> good r' \<and> length scr' = length scr"
proof -
  define at where "at = 47 + length sid + length (sni_ext name)"
  have l32: "length sid \<le> 32" using assms(6) by simp
  note F = ClientHello_built [where out = "replicate 2000 0", OF assms(5) l32 assms(7,8) _ _ m at_def, simplified]
  let ?ch = "parsed_out B at pub (client_hello_zero\<lparr>ch_sessionId := Some 39, ch_sessionIdLen := length sid, ch_cipher := 0x1301\<rparr>)"
  have parse: "wn_ClientHello_Parse B (Some m) = Inr ?ch"
    using client_hello_parses [OF assms(5) l32 assms(8,7) refl refl] by (simp add: m at_def)
  have ks: "ch_haveKeyShare ?ch" by (simp add: parsed_out_def)
  have len: "length m \<le> 2000" using F by (simp add: at_def)
  obtain hi r' scr' where A: "runs pend wire (accept_hello B C X tc0 send recv) r scr hi r' scr' (rec_bytes (Frag m)) []"
      "tdigest (hi_tc hi) = WC_SHA256" "R (thash (hi_tc hi)) []" "hi_emptyHash hi = H []" "length (hi_random hi) = 32"
      "hi_random hi = fst (snd (wc_RNG_GenerateBlock X r 32))" "\<not> hi_hrrDone hi" "hi_chLen hi = length m"
      "take (length m) scr' = m" "hi_ch hi = ?ch" "good r'" "length scr' = length scr"
    using accept_any_hello_runs [OF assms(1-4) parse ks m len sz] by blast
  have at: "slice off k scr' = slice off k m" if "off + k \<le> length m" for off k
    by (rule slice_of_take [OF A(9) refl that])
  have b: "39 + length sid \<le> length m" "at + 21 + length (sig_bytes B) \<le> length m"
      "at + 31 + length (sig_bytes B) + length pub \<le> length m"
    using F(5) by (simp_all add: at_def)
  have "hello_at B sid pub ?ch scr'"
    using F(2-4) at [OF b(1)] at [OF b(2)] at [OF b(3)]
    by (simp add: hello_at_def share_at_def parsed_out_def ch_field_def client_hello_zero_def)
  with A show ?thesis by metis
qed

subsection \<open>The key exchange\<close>

lemma accept_key_exchange_runs:
  assumes "kex_ok X good" "good r1" "good r" "ks_group c = WN_DEFAULT_GROUP B"
    and gen: "wn_KeyShare_Generate B X c r1 (replicate (WN_DEFAULT_PUB_SZ B) 0) = (Inr n, c', r1', pub')"
    and ch: "share_at B sid (take n pub') ch scr"
  shows "\<exists>srvPub ecdhe r' out'. runs pend wire (accept_key_exchange B X ks0 ch) r scr (srvPub, ecdhe) r' scr [] [] \<and>
    length srvPub = WN_DEFAULT_SRV_SHARE_SZ B \<and>
    wn_KeyShare_Shared B X c' (Some srvPub) (replicate (WN_DEFAULT_SECRET_SZ B) 0) = (Inr (WN_DEFAULT_SECRET_SZ B), out') \<and>
    take (WN_DEFAULT_SECRET_SZ B) out' = ecdhe"
proof -
  obtain ks where ks: "wn_KeyShare_Init B X (ks_hybrid ks0) ks0 (WN_DEFAULT_GROUP B) = (Inr (), ks)" "ks_group ks = WN_DEFAULT_GROUP B"
    using Init_ok [OF assms(1)] by metis
  let ?srv = "replicate (WN_KEYSHARE_MAX_PUB B) 0" and ?z = "replicate (WN_DEFAULT_SECRET_SZ B) 0"
  have "WN_DEFAULT_SRV_SHARE_SZ B \<le> WN_KEYSHARE_MAX_PUB B"
    by (cases "b_kex B") (simp_all add: sizes WN_KEYSHARE_MAX_PUB_def)
  then have "agrees B X c ks r1 r (replicate (WN_DEFAULT_PUB_SZ B) 0) ?srv ?z ?z"
    by (intro agrees_any [OF assms(1-4) ks(2)]) simp_all
  then obtain s' r' srv' sec' out' where A: "n = WN_DEFAULT_PUB_SZ B"
      "wn_KeyShare_ServerShare B X ks r (Some (take n pub')) ?srv ?z =
        (Inr (WN_DEFAULT_SRV_SHARE_SZ B, WN_DEFAULT_SECRET_SZ B), s', r', srv', sec')"
      "wn_KeyShare_Shared B X c' (Some (take (WN_DEFAULT_SRV_SHARE_SZ B) srv')) ?z = (Inr (WN_DEFAULT_SECRET_SZ B), out')"
      "take (WN_DEFAULT_SECRET_SZ B) out' = take (WN_DEFAULT_SECRET_SZ B) sec'"
    unfolding agrees_def gen by auto
  obtain kp where kp: "ch_keyShare ch = Some kp" "ch_field scr (Some kp) (ch_keyShareLen ch) = take n pub'" "ch_group ch = WN_DEFAULT_GROUP B"
    using ch by (auto simp: share_at_def)
  have "runs pend wire (accept_key_exchange B X ks0 ch) r scr
      (take (WN_DEFAULT_SRV_SHARE_SZ B) srv', take (WN_DEFAULT_SECRET_SZ B) sec') r' scr [] []"
    unfolding accept_key_exchange_def kp(3) ks(1) prod.case
    by (rule runs_get, rule runs_codeE [OF refl], rule runs_rng_last) (simp add: kp A(2) codeE_def)
  then show ?thesis using A accepted_sizes(1) [OF A(3)] by metis
qed

subsection \<open>The ServerHello\<close>

lemma ServerHello_built:
  assumes "length rnd = 32" "length sid \<le> 32" "length pub \<le> 1216" "4096 \<le> length out" "length out < 2147483648"
    and m: "m = sh_msg (sh_body rnd sid cph (sh_exts grp pub incl psk))"
  shows "\<exists>buf. wn_ServerHello_Build out (Some rnd) sid cph grp (Some pub) psk incl = (Inr (length m), buf) \<and> take (length m) buf = m \<and>
    length buf = length out" "length m \<le> 1400"
proof -
  have len: "length m = 58 + length sid + length pub + (if incl then 6 else 0)"
    using assms(1) by (simp add: m sh_msg_def sh_body_def sh_exts_def)
  then show "length m \<le> 1400" using assms(2,3) by simp
  have pre: "length sid < 256" "length pub < 2147483648" using assms(2,3) by simp_all
  note E = Build_emits [OF assms(1) pre, of cph grp incl psk, folded m]
  have le: "length m \<le> length out" using assms(2-4) len by simp
  obtain buf where "wn_ServerHello_Build out (Some rnd) sid cph grp (Some pub) psk incl = (Inr (length m), buf)" "take (length m) buf = m"
    using finish_emits(1) [OF E order_refl assms(5) le, of E_CRYPTO] by (auto simp: wn_ServerHello_Build_def Let_def)
  then show "\<exists>buf. wn_ServerHello_Build out (Some rnd) sid cph grp (Some pub) psk incl = (Inr (length m), buf) \<and> take (length m) buf = m \<and>
      length buf = length out"
    using length_ServerHello_Build [of out "Some rnd" sid cph grp "Some pub" psk incl] by auto
qed

lemma accept_server_hello_runs:
  assumes "sha256_ok C H R" "duplex send recv pend wire" "tdigest tc = WC_SHA256" "R (thash tc) mm"
    and "length (hi_random hi) = 32" "\<not> hi_hrrDone hi" "length sid \<le> 32" "length srvPub \<le> 1216"
    and "4096 \<le> length scr" "length scr < 2147483648"
    and m: "m = sh_msg (sh_body (hi_random hi) sid (ch_cipher (hi_ch hi)) (sh_exts (ch_group (hi_ch hi)) srvPub incl 0))"
  shows "\<exists>tc1 scr'. runs pend wire (accept_server_hello C send hi tc sid srvPub incl) r scr tc1 r scr' []
      (rec_bytes (Frag m) @ rec_bytes Ccs) \<and>
    tdigest tc1 = WC_SHA256 \<and> R (thash tc1) (mm @ m) \<and> length scr' = length scr"
proof -
  note B = ServerHello_built [OF assms(5,7-10) m]
  obtain buf where buf: "wn_ServerHello_Build scr (Some (hi_random hi)) sid (ch_cipher (hi_ch hi)) (ch_group (hi_ch hi))
      (Some srvPub) 0 incl = (Inr (length m), buf)" "take (length m) buf = m" "length buf = length scr"
    using B(1) by blast
  obtain tc1 where tc1: "wn_Transcript_Update C tc (Some m) (length m) = (0, tc1)" "tdigest tc1 = WC_SHA256" "R (thash tc1) (mm @ m)"
    using sha256_update [OF assms(1,3,4), of m] by blast
  have up: "wn_Transcript_Update C tc (Some buf) (length m) = (0, tc1)"
    using tc1(1) buf(2) by (simp add: wn_Transcript_Update_def)
  have sm: "sends pend wire (\<lambda>w. wn_SendPlainRecord send w 22 (take (length m) buf)) () (rec_bytes (Frag m))"
    unfolding buf(2) using B(2) by (intro sends_record [OF assms(2)]) simp
  have "runs pend wire (accept_server_hello C send hi tc sid srvPub incl) r scr tc1 r buf [] (rec_bytes (Frag m) @ rec_bytes Ccs)"
    unfolding accept_server_hello_def if_not_P [OF assms(6)]
  proof (rule runs_scr, rule buf(1), rule runs_get, simp only: env.select_convs, rule runs_okI, rule up)
    show "runs pend wire (bind_s (on_io (\<lambda>w. wn_SendPlainRecord send w 22 (take (length m) buf))) (\<lambda>_.
      bind_s (on_io (wn_SendCcs send)) (\<lambda>_. ret_s tc1))) r buf tc1 r buf [] (rec_bytes (Frag m) @ rec_bytes Ccs)"
      by (rule runs_bind [OF runs_io [OF sm] runs_bind [OF runs_io [OF sends_ccs [OF assms(2)]] runs_ret refl refl]])
        (simp_all del: rec_bytes.simps)
  qed
  then show ?thesis using tc1(2,3) buf(3) by blast
qed

end
