(* ===== verification/AcceptFlight.thy ===== *)
theory AcceptFlight
  imports AcceptLive
begin

section \<open>The server's certificate handshake: the flight and the session\<close>

text \<open>
  What the second half of the server driver does with an honest client over a reliable
  transport: the handshake keys, the four messages of the flight in one sealed record, the
  client's Finished and the session.
\<close>

subsection \<open>The flight\<close>

lemma EncExt_built:
  assumes "6 \<le> length out" "length out < 2147483648"
  shows "\<exists>buf. wn_EncExt_Build out = (Inr (length (hs_msg 8 [0, 0])), buf) \<and> take (length (hs_msg 8 [0, 0])) buf = hs_msg 8 [0, 0]"
proof -
  have E: "emits (run_w [wn_Write_U8 8, wn_vec 3 (wn_Write_U16 0)]) (hs_msg 8 [0, 0])"
    by (rule emits_eq, (rule emits_run_Cons emits_run_Nil emits_vec emits_U8 emits_U16)+)
      (simp add: hs_msg_def be_len_3 be16_def)
  show ?thesis
    using finish_emits(1) [OF E order_refl assms(2), of E_CRYPTO] assms(1) by (simp add: wn_EncExt_Build_def hs_msg_def)
qed

definition cert_body :: "bytes \<Rightarrow> bytes" where
  "cert_body der = (let entry = be24 (length der) @ der @ be16 0 in [0] @ be24 (length entry) @ entry)"

lemma certificate_msg_eq: "certificate_msg der = hs_msg 11 (cert_body der)"
  by (simp add: certificate_msg_def cert_body_def hs_msg_def Let_def)

lemma ServerCert_built:
  assumes "length der + 13 \<le> length out" "length out < 2147483648"
  shows "\<exists>buf. wn_ServerCert_Build out (Some der) = (Inr (length (hs_msg 11 (cert_body der))), buf) \<and>
    take (length (hs_msg 11 (cert_body der))) buf = hs_msg 11 (cert_body der)"
proof -
  have l: "length der < 2147483648" using assms by simp
  have "length (hs_msg 11 (cert_body der)) \<le> length out" using assms(1) by (simp add: hs_msg_def cert_body_def Let_def)
  then show ?thesis
    using finish_emits(1) [OF emits_certificate [OF l] order_refl assms(2), of E_CRYPTO]
    by (simp add: wn_ServerCert_Build_def certificate_msg_eq)
qed

definition cv_body :: "word16 \<Rightarrow> bytes \<Rightarrow> bytes" where
  "cv_body scheme sg = be16 scheme @ be16 (of_nat (length sg)) @ sg"

lemma cv_msg_eq: "cv_msg scheme sg = hs_msg 15 (cv_body scheme sg)"
proof -
  have four: "Suc (Suc (Suc (Suc n))) = 4 + n" for n by simp
  show ?thesis by (simp add: cv_msg_def cv_body_def hs_msg_def four)
qed

text \<open>A message written behind what the plain half of the scratch buffer already holds.\<close>

lemma region_built:
  assumes "take (length fl) scr = fl" "length fl + n \<le> length scr" "length buf = n" "length m \<le> n" "take (length m) buf = m"
  shows "take (length (fl @ m)) (mem_put scr (length fl) buf) = fl @ m" "length (mem_put scr (length fl) buf) = length scr"
proof -
  have l: "length fl \<le> length scr" using assms(2) by simp
  show "take (length (fl @ m)) (mem_put scr (length fl) buf) = fl @ m"
    using assms l by (simp add: mem_put_def min_absorb2)
  show "length (mem_put scr (length fl) buf) = length scr" using assms(2,3) by simp
qed

lemma on_region_runs:
  assumes "take (length fl) scr = fl" "length fl + n \<le> length scr"
    and "f (slice (length fl) n scr) = (Inr (length m), buf)" "take (length m) buf = m" "length buf = n" "length m \<le> n"
  shows "\<exists>scr'. runs pend wire (on_region (length fl) n f) r scr (length m) r scr' [] [] \<and>
    take (length (fl @ m)) scr' = fl @ m \<and> length scr' = length scr"
proof -
  have "runs pend wire (on_region (length fl) n f) r scr (length m) r (mem_put scr (length fl) buf) [] []"
    unfolding on_region_def by (rule runs_scr_last) (simp add: assms(3))
  then show ?thesis using region_built [OF assms(1,2,5,6,4)] by blast
qed

lemma absorb_runs:
  assumes "sha256_ok C H R" "tdigest tc = WC_SHA256" "R (thash tc) mm" "take (length (fl @ m)) scr = fl @ m"
  shows "\<exists>tc'. runs pend wire (absorb C tc (length fl) (length m)) r scr tc' r scr [] [] \<and> tdigest tc' = WC_SHA256 \<and>
    R (thash tc') (mm @ m)"
proof -
  obtain rest where scr: "scr = (fl @ m) @ rest" using assms(4) append_take_drop_id by metis
  obtain tc' where tc': "wn_Transcript_Update C tc (Some m) (length m) = (0, tc')" "tdigest tc' = WC_SHA256" "R (thash tc') (mm @ m)"
    using sha256_update [OF assms(1-3), of m] by blast
  have "wn_Transcript_Update C tc (Some (drop (length fl) scr)) (length m) = (0, tc')"
    using tc'(1) by (simp add: wn_Transcript_Update_def scr)
  then have "runs pend wire (absorb C tc (length fl) (length m)) r scr tc' r scr [] []"
    by (simp add: runs_def absorb_def bind_s_def get_s_def pure_s_def run_status)
  then show ?thesis using tc'(2,3) by blast
qed

lemma finished_mac_complete:
  assumes "sha256_ok C H R" "kdf_ok C" "hmac_ok C M" "tdigest tc = WC_SHA256" "R (thash tc) mm" "length secret = 32"
  shows "accept_finished_mac C secret tc = Inr (hs_msg 20 (M (hkdf_expand C 32 secret ''finished'' []) (H mm)))"
proof -
  have "length (H x) = 32" "length (M k x) = 32" for k x using assms(1,3) by (simp_all add: sha256_ok_def hmac_ok_def)
  then show ?thesis
    by (simp add: accept_finished_mac_def sha256_get [OF assms(1,4,5)] FinishedMac_ok [OF assms(2,3,6)] run_status hs_msg_def be24_def)
qed

text \<open>What the server's signing step writes, for a key pair of the scheme.\<close>

definition signs :: "build \<Rightarrow> ('k, 'r) kx_crypto \<Rightarrow> 'p pk_crypto \<Rightarrow> word16 \<Rightarrow> bytes \<Rightarrow> bytes \<Rightarrow> nat \<Rightarrow> bool" where
  "signs B X P scheme keyDer spki lim \<longleftrightarrow>
     (\<forall>th out rng. length th \<le> 64 \<longrightarrow> 8 + lim \<le> length out \<longrightarrow> length out < 2147483648 \<longrightarrow>
       (\<exists>sg buf rng'. wn_ServerCertVerify_Sign B X out scheme (Some keyDer) (Some th) rng = (Inr (8 + length sg), buf, rng') \<and>
          take (8 + length sg) buf = cv_msg scheme sg \<and> length sg \<le> lim \<and> wn_CertVerify B P scheme spki th sg = Inr ()))"

lemma cert_verify_runs:
  assumes "signs B X P scheme keyDer spki lim" "length th \<le> 64" "8 + lim \<le> n" "length scr < 2147483648"
    and "take (length fl) scr = fl" "length fl + n \<le> length scr"
  shows "\<exists>sg r' scr'. runs pend wire (accept_cert_verify B X scheme keyDer th (length fl) n) r scr
      (length (hs_msg 15 (cv_body scheme sg))) r' scr' [] [] \<and>
    take (length (fl @ hs_msg 15 (cv_body scheme sg))) scr' = fl @ hs_msg 15 (cv_body scheme sg) \<and> length scr' = length scr \<and>
    length sg \<le> lim \<and> wn_CertVerify B P scheme spki th sg = Inr ()"
proof -
  let ?out = "slice (length fl) n scr"
  have out: "length ?out = n" using assms(6) by simp
  obtain sg buf r' where S: "wn_ServerCertVerify_Sign B X ?out scheme (Some keyDer) (Some th) r = (Inr (8 + length sg), buf, r')"
      "take (8 + length sg) buf = cv_msg scheme sg" "length sg \<le> lim" "wn_CertVerify B P scheme spki th sg = Inr ()"
    using assms(1) [unfolded signs_def, rule_format, of th ?out r] assms(2-4,6) out by auto
  have len: "length (hs_msg 15 (cv_body scheme sg)) = 8 + length sg" by (simp add: hs_msg_def cv_body_def)
  have bl: "length buf = n" using length_Sign [of B X ?out scheme "Some keyDer" "Some th" r] S(1) out by simp
  have "runs pend wire (accept_cert_verify B X scheme keyDer th (length fl) n) r scr
      (length (hs_msg 15 (cv_body scheme sg))) r' (mem_put scr (length fl) buf) [] []"
    using S(1) len by (simp add: runs_def accept_cert_verify_def codeE_def)
  then show ?thesis using region_built [OF assms(5,6) bl, of "hs_msg 15 (cv_body scheme sg)"] S(2-4) assms(3) len
    by (intro exI [of _ sg] exI [of _ r'] exI [of _ "mem_put scr (length fl) buf"]) (simp add: cv_msg_eq)
qed

lemma seal_region_runs:
  assumes "aead_ok C" "length (hk_sKey k) = 16" "length (hk_sIv k) = 12" "duplex send recv pend wire"
    and "length fl \<le> 16384" "half + length fl + 22 \<le> length scr"
  shows "\<exists>scr'. runs pend wire (bind_s (on_region half (length scr - half) (\<lambda>enc. wn_Record_Protect C enc (Some (hk_sKey k)) (Some (hk_sIv k)) 0 22
                (Some fl))) (\<lambda>encLen. bind_s (send_region send half encLen) (\<lambda>_. ret_s x))) r scr x r scr' []
      (seal C (hk_sKey k) (hk_sIv k) 0 22 fl) \<and> length scr' = length scr"
proof -
  let ?rec = "seal C (hk_sKey k) (hk_sIv k) 0 22 fl" and ?enc = "slice half (length scr - half) scr"
  have sl: "length ?rec = length fl + 22" by (rule length_seal [OF assms(1-3)])
  have enc: "length ?enc = length scr - half" using assms(6) by simp
  have P: "wn_Record_Protect C ?enc (Some (hk_sKey k)) (Some (hk_sIv k)) 0 22 (Some fl) = (Inr (length fl + 22), mem_put ?enc 0 ?rec)"
    using Protect_seal [OF assms(1-3,5), of ?enc 0 22] enc assms(6) by simp
  let ?scr = "mem_put scr half (mem_put ?enc 0 ?rec)"
  have len: "length (mem_put ?enc 0 ?rec) = length scr - half" using sl enc assms(6) by simp
  have scr: "length ?scr = length scr" using len assms(6) by simp
  have sent: "slice half (length fl + 22) ?scr = ?rec"
    using sl assms(6) by (simp add: mem_put_def slice_def min_absorb2)
  have sd: "sends pend wire (\<lambda>w. case send w ?rec of (n, w') \<Rightarrow> (if n \<noteq> int (length fl + 22) then Inl E_CRYPTO else Inr (), w')) () ?rec"
    unfolding sends_def
  proof
    fix w
    from duplex_send [OF assms(4), of w ?rec] obtain w' where
      "send w ?rec = (int (length fl + 22), w')" "wire w' = wire w @ ?rec" "pend w' = pend w" unfolding sl by blast
    then show "\<exists>w'. (case send w ?rec of (n, w') \<Rightarrow> (if n \<noteq> int (length fl + 22) then Inl E_CRYPTO else Inr (), w')) = (Inr (), w') \<and>
        pend w' = pend w \<and> wire w' = wire w @ ?rec" by simp
  qed
  have "runs pend wire (send_region send half (length fl + 22)) r ?scr () r ?scr [] ?rec"
    unfolding send_region_def by (rule runs_get, simp only: env.select_convs sent, rule runs_io [OF sd])
  then have "runs pend wire (bind_s (on_region half (length scr - half) (\<lambda>enc. wn_Record_Protect C enc (Some (hk_sKey k)) (Some (hk_sIv k)) 0 22
                (Some fl))) (\<lambda>encLen. bind_s (send_region send half encLen) (\<lambda>_. ret_s x))) r scr x r ?scr [] ?rec"
    unfolding on_region_def by (intro runs_scr [of _ _ "length fl + 22"] runs_bind [OF _ runs_ret]) (simp_all add: P)
  then show ?thesis using scr by blast
qed

text \<open>The bodies of the flight over the hello messages \<open>mm\<close>; \<open>mac\<close> is keyed by the server's secret.\<close>

definition cert_flight :: "(bytes \<Rightarrow> bytes) \<Rightarrow> (bytes \<Rightarrow> bytes) \<Rightarrow> bytes \<Rightarrow> bytes \<Rightarrow> word16 \<Rightarrow> bytes \<Rightarrow> bytes list" where
  "cert_flight H mac mm der scheme sg =
     (let front = [[0, 0], cert_body der, cv_body scheme sg] in front @ [mac (H (mm @ flight_bytes front))])"

lemma accept_cert_flight_runs:
  assumes ok: "sha256_ok C H R" "kdf_ok C" "hmac_ok C M" "aead_ok C" "duplex send recv pend wire"
    and tc: "tdigest tc = WC_SHA256" "R (thash tc) mm"
    and k: "length (hk_sHs k) = 32" "length (hk_sKey k) = 16" "length (hk_sIv k) = 12"
    and sg: "signs B X P scheme keyDer spki lim"
    and sz: "length der + lim + 85 \<le> half" "length der + lim + 63 \<le> 16384" "half + half \<le> length scr" "length scr < 2147483648"
  shows "\<exists>sg tc' r' scr'. runs pend wire (accept_cert_flight B C X send der keyDer scheme k tc half) r scr tc' r' scr' []
      (seal C (hk_sKey k) (hk_sIv k) 0 22
        (flight_bytes (cert_flight H (M (hkdf_expand C 32 (hk_sHs k) ''finished'' [])) mm der scheme sg))) \<and>
    tdigest tc' = WC_SHA256 \<and> length sg \<le> lim \<and>
    wn_CertVerify B P scheme spki (H (mm @ flight_bytes [[0, 0], cert_body der])) sg = Inr () \<and>
    R (thash tc') (mm @ flight_bytes (cert_flight H (M (hkdf_expand C 32 (hk_sHs k) ''finished'' [])) mm der scheme sg)) \<and>
    length scr' = length scr"
proof -
  define m1 where "m1 = hs_msg 8 [0, 0]"
  define m2 where "m2 = hs_msg 11 (cert_body der)"
  have l1: "length m1 = 6" by (simp add: m1_def hs_msg_def)
  have l2: "length m2 = length der + 13" by (simp add: m2_def hs_msg_def cert_body_def Let_def)
  have hl: "length (H x) = 32" for x using ok(1) by (simp add: sha256_ok_def)
  have ml: "length (M x y) = 32" for x y using ok(3) by (simp add: hmac_ok_def)
  define N where "N = length scr"
  have N: "half + half \<le> N" "N < 2147483648" using sz(3,4) by (simp_all add: N_def)
  let ?o1 = "slice (length ([] :: bytes)) half scr"
  have o1: "length ?o1 = half" using N by (simp add: N_def)
  obtain b1 where b1: "wn_EncExt_Build ?o1 = (Inr (length m1), b1)" "take (length m1) b1 = m1"
    using EncExt_built [of ?o1] o1 sz(1) N unfolding m1_def by auto
  have b1l: "length b1 = half" using length_EncExt_Build [of ?o1] b1(1) o1 by simp
  have r1: "length m1 \<le> half" "length ([] :: bytes) + half \<le> length scr" using sz(1) N l1 by (simp_all add: N_def)
  obtain scr1 where S1: "runs pend wire (on_region 0 half wn_EncExt_Build) r scr (length m1) r scr1 [] []"
      "take (length m1) scr1 = m1" "length scr1 = N"
    using on_region_runs [where fl = "[]" and f = wn_EncExt_Build and pend = pend and wire = wire and r = r, OF _ r1(2) b1 b1l r1(1)]
    by (auto simp: N_def)
  obtain tc1 where T1: "runs pend wire (absorb C tc 0 (length m1)) r scr1 tc1 r scr1 [] []" "tdigest tc1 = WC_SHA256" "R (thash tc1) (mm @ m1)"
    using absorb_runs [where fl = "[]" and m = m1 and pend = pend and wire = wire and r = r, OF ok(1) tc] S1(2) by auto
  let ?n2 = "half - length m1" and ?o2 = "slice (length m1) (half - length m1) scr1"
  have o2: "length ?o2 = ?n2" using S1(3) N r1(1) by simp
  have fit2: "length der + 13 \<le> length ?o2" "length ?o2 < 2147483648" using o2 sz(1) l1 N by simp_all
  obtain b2 where b2: "wn_ServerCert_Build ?o2 (Some der) = (Inr (length m2), b2)" "take (length m2) b2 = m2"
    using ServerCert_built [OF fit2, folded m2_def] by blast
  have b2l: "length b2 = ?n2" using length_ServerCert_Build [of ?o2 "Some der"] b2(1) o2 by simp
  have r2: "length m2 \<le> ?n2" "length m1 + ?n2 \<le> length scr1" using sz(1) l1 l2 N S1(3) by simp_all
  obtain scr2 where S2: "runs pend wire (on_region (length m1) ?n2 (\<lambda>out. wn_ServerCert_Build out (Some der))) r scr1 (length m2) r scr2 [] []"
      "take (length (m1 @ m2)) scr2 = m1 @ m2" "length scr2 = N"
    using on_region_runs [where fl = m1 and pend = pend and wire = wire and r = r and f = "\<lambda>out. wn_ServerCert_Build out (Some der)",
        OF S1(2) r2(2) b2 b2l r2(1)] S1(3) by auto
  obtain tc2 where T2: "runs pend wire (absorb C tc1 (length m1) (length m2)) r scr2 tc2 r scr2 [] []" "tdigest tc2 = WC_SHA256"
      "R (thash tc2) (mm @ m1 @ m2)"
    using absorb_runs [where pend = pend and wire = wire and r = r, OF ok(1) T1(2,3) S2(2)] by auto
  note G2 = sha256_get [OF ok(1) T2(2,3)]
  let ?th = "H (mm @ m1 @ m2)" and ?n3 = "half - length (m1 @ m2)"
  have r3: "8 + lim \<le> ?n3" "length (m1 @ m2) + ?n3 \<le> length scr2" "length scr2 < 2147483648" "length ?th \<le> 64"
    using sz(1) l1 l2 N S2(3) hl by simp_all
  obtain sg r' scr3 where S3: "runs pend wire (accept_cert_verify B X scheme keyDer ?th (length (m1 @ m2)) ?n3) r scr2
        (length (hs_msg 15 (cv_body scheme sg))) r' scr3 [] []"
      "take (length ((m1 @ m2) @ hs_msg 15 (cv_body scheme sg))) scr3 = (m1 @ m2) @ hs_msg 15 (cv_body scheme sg)"
      "length scr3 = N" "length sg \<le> lim" "wn_CertVerify B P scheme spki ?th sg = Inr ()"
    using cert_verify_runs [where pend = pend and wire = wire and r = r, OF assms(11) r3(4,1,3) S2(2) r3(2)] S2(3) by auto
  define m3 where "m3 = hs_msg 15 (cv_body scheme sg)"
  note S3 = S3 [folded m3_def]
  have l3: "length m3 = 8 + length sg" by (simp add: m3_def hs_msg_def cv_body_def)
  obtain tc3 where T3: "runs pend wire (absorb C tc2 (length (m1 @ m2)) (length m3)) r' scr3 tc3 r' scr3 [] []" "tdigest tc3 = WC_SHA256"
      "R (thash tc3) (mm @ m1 @ m2 @ m3)"
    using absorb_runs [where pend = pend and wire = wire and r = r', OF ok(1) T2(2,3) S3(2)] by auto
  define m4 where "m4 = hs_msg 20 (M (hkdf_expand C 32 (hk_sHs k) ''finished'' []) (H (mm @ m1 @ m2 @ m3)))"
  have l4: "length m4 = 36" by (simp add: m4_def hs_msg_def ml)
  have F: "accept_finished_mac C (hk_sHs k) tc3 = Inr m4"
    unfolding m4_def by (rule finished_mac_complete [OF ok(1-3) T3(2,3) k(1)])
  let ?l3 = "length m1 + length m2 + length m3"
  let ?scr4 = "mem_put scr3 ?l3 m4"
  have q: "?l3 + 36 \<le> N" using l1 l2 l3 S3(4) sz(1) N by simp
  have S4: "take (length ((m1 @ m2 @ m3) @ m4)) ?scr4 = (m1 @ m2 @ m3) @ m4" "length ?scr4 = N"
    using region_built [of "m1 @ m2 @ m3" scr3 36 m4 m4] S3(2,3) q l4 by (simp_all add: add.assoc)
  obtain tc4 where T4: "runs pend wire (absorb C tc3 ?l3 36) r' ?scr4 tc4 r' ?scr4 [] []" "tdigest tc4 = WC_SHA256"
      "R (thash tc4) (mm @ m1 @ m2 @ m3 @ m4)"
    using absorb_runs [where pend = pend and wire = wire and r = r', OF ok(1) T3(2,3) S4(1) [folded append_assoc]] l4
    by (auto simp: add.assoc)
  let ?fl = "(m1 @ m2 @ m3) @ m4"
  have fl: "length ?fl = ?l3 + 36" using l4 by simp
  have z: "length ?fl \<le> 16384" "half + length ?fl + 22 \<le> length ?scr4"
    using S4(2) fl l1 l2 l3 S3(4) sz(1,2) N by simp_all
  obtain scr5 where S5: "runs pend wire (bind_s (on_region half (length ?scr4 - half) (\<lambda>enc. wn_Record_Protect C enc (Some (hk_sKey k))
      (Some (hk_sIv k)) 0 22 (Some ?fl))) (\<lambda>encLen. bind_s (send_region send half encLen) (\<lambda>_. ret_s tc4))) r' ?scr4 tc4 r' scr5 []
      (seal C (hk_sKey k) (hk_sIv k) 0 22 ?fl)" "length scr5 = N"
    using seal_region_runs [OF ok(4) k(2,3) ok(5) z, of tc4 r'] S4(2) by blast
  have g: "\<not> ?l3 + 4 + 32 + 5 + 1 + 16 > half" using l1 l2 l3 S3(4) sz(1) by simp
  have tk: "take (?l3 + 36) ?scr4 = ?fl" using S4(1) unfolding fl .
  have run: "runs pend wire (accept_cert_flight B C X send der keyDer scheme k tc half) r scr tc4 r' scr5 []
      (seal C (hk_sKey k) (hk_sIv k) 0 22 ?fl)"
    unfolding accept_cert_flight_def Let_def
  proof (rule runs_seq, rule S1(1), rule runs_seq, rule T1(1), rule runs_seq, rule S2(1), rule runs_seq, rule T2(1),
      unfold G2 prod.case, rule runs_okI, rule refl)
    show "runs pend wire (bind_s (accept_cert_verify B X scheme keyDer (take 32 ?th) (length m1 + length m2) (half - (length m1 + length m2)))
       (\<lambda>cvLen. bind_s (absorb C tc2 (length m1 + length m2) cvLen) (\<lambda>tc3. bind_s (pure_s (accept_finished_mac C (hk_sHs k) tc3)) (\<lambda>fin.
      bind_s (guard_s (\<not> length m1 + length m2 + cvLen + 4 + 32 + 5 + 1 + 16 > half) E_INVALID_ARG) (\<lambda>_.
      bind_s (on_scr (\<lambda>scr. (Inr (), mem_put scr (length m1 + length m2 + cvLen) fin))) (\<lambda>_.
      bind_s (absorb C tc3 (length m1 + length m2 + cvLen) 36) (\<lambda>tc4.
      bind_s get_s (\<lambda>s.
      bind_s (on_region half (length (e_scr s) - half) (\<lambda>enc. wn_Record_Protect C enc (Some (hk_sKey k)) (Some (hk_sIv k)) 0 22
                (Some (take (length m1 + length m2 + cvLen + 36) (e_scr s))))) (\<lambda>encLen.
      bind_s (send_region send half encLen) (\<lambda>_. ret_s tc4)))))))))) r scr2 tc4 r' scr5 [] (seal C (hk_sKey k) (hk_sIv k) 0 22 ?fl)"
      unfolding take_all [OF eq_refl [OF hl]]
    proof (rule runs_seq, rule S3(1) [unfolded length_append], rule runs_seq, rule T3(1) [unfolded length_append], unfold F,
        rule runs_pure, rule runs_guard, rule g, rule runs_scr, rule refl, rule runs_seq, rule T4(1), rule runs_get, unfold env.select_convs tk)
    qed (rule S5(1))
  qed
  have fb: "flight_bytes [[0, 0], cert_body der] = m1 @ m2" "flight_bytes [[0, 0], cert_body der, cv_body scheme sg] = m1 @ m2 @ m3"
      "flight_bytes [[0, 0], cert_body der, cv_body scheme sg, b] = m1 @ m2 @ m3 @ hs_msg 20 b" for b
    by (simp_all add: flight_bytes_def m1_def m2_def m3_def)
  have cf: "flight_bytes (cert_flight H (M (hkdf_expand C 32 (hk_sHs k) ''finished'' [])) mm der scheme sg) = ?fl"
    by (simp add: cert_flight_def fb m4_def)
  show ?thesis
    using run S5(2) T4(2,3) S3(4,5) unfolding N_def
    by (intro exI [of _ sg] exI [of _ tc4] exI [of _ r'] exI [of _ scr5]) (simp only: cf fb append_assoc simp_thms)
qed

subsection \<open>The handshake keys, the client's Finished and the session\<close>

definition hs_sched :: "'x crypto \<Rightarrow> bytes \<Rightarrow> bytes \<Rightarrow> bytes \<Rightarrow> bytes \<Rightarrow> hs_keys" where
  "hs_sched C early eh ecdhe th =
     (let hs = hs_secret C early eh ecdhe; cHs = hkdf_expand C 32 hs ''c hs traffic'' th; sHs = hkdf_expand C 32 hs ''s hs traffic'' th
      in \<lparr>hk_hs = hs, hk_cHs = cHs, hk_sHs = sHs, hk_cKey = traffic_key C cHs, hk_cIv = traffic_iv C cHs,
          hk_sKey = traffic_key C sHs, hk_sIv = traffic_iv C sHs\<rparr>)"

lemma hs_sched_len:
  assumes "kdf_ok C"
  shows "length (hk_hs (hs_sched C early eh ecdhe th)) = 32" "length (hk_cHs (hs_sched C early eh ecdhe th)) = 32"
    "length (hk_sHs (hs_sched C early eh ecdhe th)) = 32" "length (hk_cKey (hs_sched C early eh ecdhe th)) = 16"
    "length (hk_cIv (hs_sched C early eh ecdhe th)) = 12" "length (hk_sKey (hs_sched C early eh ecdhe th)) = 16"
    "length (hk_sIv (hs_sched C early eh ecdhe th)) = 12"
  using assms by (simp_all add: hs_sched_def Let_def kdf_len)

lemma accept_hs_keys_eq:
  assumes "sha256_ok C H R" "kdf_ok C" "tdigest tc = WC_SHA256" "R (thash tc) mm" "length early = 32"
  shows "accept_hs_keys C tc early ecdhe (H []) = (0, hs_sched C early (H []) ecdhe (H mm))"
proof -
  have "length (H x) = 32" for x using assms(1) by (simp add: sha256_ok_def)
  then show ?thesis
    by (simp add: accept_hs_keys_def sha256_get [OF assms(1,3,4)] DeriveHsKeys_eq [OF assms(2,5)] hs_sched_def Let_def)
qed

lemma runs_record:
  assumes "duplex send recv pend wire" "\<And>w rest. pend w = i @ rest \<Longrightarrow>
    \<exists>w'. wn_RecvRecord recv w scr (length scr) = (Inr (t, n), scr', w') \<and> pend w' = rest"
    and "\<And>w w'. wn_RecvRecord recv w scr (length scr) = (Inr (t, n), scr', w') \<Longrightarrow>
      f \<lparr>e_rng = r, e_w = w, e_scr = scr\<rparr> = Some (Inr x, \<lparr>e_rng = r', e_w = w', e_scr = scr''\<rparr>)"
  shows "runs pend wire f r scr x r' scr'' i []"
proof (rule runsI)
  fix w rest
  assume "pend w = i @ rest"
  from assms(2) [OF this] obtain w' where w': "wn_RecvRecord recv w scr (length scr) = (Inr (t, n), scr', w')" "pend w' = rest"
    by blast
  moreover have "wire w' = wire w" using RecvRecord_wire [where f = wire, OF w'(1)] assms(1) by (simp add: duplex_def)
  ultimately show "\<exists>w'. f \<lparr>e_rng = r, e_w = w, e_scr = scr\<rparr> = Some (Inr x, \<lparr>e_rng = r', e_w = w', e_scr = scr''\<rparr>) \<and>
      pend w' = rest \<and> wire w' = wire w @ []"
    using assms(3) by simp
qed

lemma finished_record_runs:
  assumes "aead_ok C" "length (hk_cKey k) = 16" "length (hk_cIv k) = 12" "duplex send recv pend wire"
    and "length mac = 32" "58 \<le> length scr" "58 \<le> lim + 21"
  shows "runs pend wire (finished_record C recv k mac lim store) r scr True r
      (store (mem_put scr 0 (seal C (hk_cKey k) (hk_cIv k) 0 22 (hs_msg 20 mac))) (hs_msg 20 mac @ [22]))
      (seal C (hk_cKey k) (hk_cIv k) 0 22 (hs_msg 20 mac)) []"
proof -
  let ?m = "hs_msg 20 mac"
  let ?rec = "seal C (hk_cKey k) (hk_cIv k) 0 22 ?m"
  let ?scr = "mem_put scr 0 ?rec"
  have ml: "length ?m = 36" "?m = 20 # be24 32 @ mac" using assms(5) by (simp_all add: hs_msg_def)
  have un: "wn_Record_Unprotect C (Some (hk_cKey k)) (Some (hk_cIv k)) 0 (Some ?rec) = (Inr (36, 22), ?m @ [22])"
    using Unprotect_seal [OF assms(1-3), of 22 0 ?m] ml(1) by simp
  have mac: "slice 4 32 (?m @ [22]) = mac" "(?m @ [22]) ! 0 = 20" using assms(5) by (simp_all add: ml(2) slice_def)
  have sl: "length ?rec = 58" using length_seal [OF assms(1-3)] ml(1) by simp
  then have tk: "take 58 ?scr = ?rec" by (simp add: mem_put_def)
  show ?thesis
  proof (rule runs_record [OF assms(4), where t = 23 and n = 58 and scr' = ?scr])
    show "\<exists>w'. wn_RecvRecord recv w scr (length scr) = (Inr (23, 58), ?scr, w') \<and> pend w' = rest" if "pend w = ?rec @ rest" for w rest
      using RecvRecord_sealed [OF assms(1-3) duplex_recv [OF assms(4)] that] ml(1) assms(6) by auto
    show "finished_record C recv k mac lim store \<lparr>e_rng = r, e_w = w, e_scr = scr\<rparr> =
        Some (Inr True, \<lparr>e_rng = r, e_w = w', e_scr = store ?scr (?m @ [22])\<rparr>)"
      if "wn_RecvRecord recv w scr (length scr) = (Inr (23, 58), ?scr, w')" for w w'
      using assms(7) un mac tk by (simp add: finished_record_def that Let_def)
  qed
qed

lemma finished_ccs_runs:
  assumes "duplex send recv pend wire" "6 \<le> length scr"
  shows "runs pend wire (finished_record C recv k mac lim store) r scr False r (mem_put scr 0 (rec_bytes Ccs)) (rec_bytes Ccs) []"
proof (rule runs_record [OF assms(1), where t = 20 and n = 6 and scr' = "mem_put scr 0 (rec_bytes Ccs)"])
  show "\<exists>w'. wn_RecvRecord recv w scr (length scr) = (Inr (20, 6), mem_put scr 0 (rec_bytes Ccs), w') \<and> pend w' = rest"
    if "pend w = rec_bytes Ccs @ rest" for w rest
    using recv_rec [where tmp = scr, OF duplex_recv [OF assms(1)] _ that] assms(2) by auto
qed (simp add: finished_record_def Let_def)

lemma finished_loop_bind:
  "finished_loop C recv k mac lim store =
   bind_s (finished_record C recv k mac lim store) (\<lambda>d. if d then ret_s () else finished_loop C recv k mac lim store)"
  by (rule ext, subst finished_loop.simps) (simp add: bind_s_def ret_s_def split: option.split sum.split)

lemma finished_loop_runs:
  assumes "aead_ok C" "length (hk_cKey k) = 16" "length (hk_cIv k) = 12" "duplex send recv pend wire"
    and "length mac = 32" "58 \<le> N" "58 \<le> lim + 21"
    and store: "\<And>scr c. length scr = N \<Longrightarrow> length c = 37 \<Longrightarrow> length (store scr c) = N"
  shows "length scr = N \<Longrightarrow> \<exists>scr'. runs pend wire (finished_loop C recv k mac lim store) r scr () r scr'
      (concat (replicate c (rec_bytes Ccs)) @ seal C (hk_cKey k) (hk_cIv k) 0 22 (hs_msg 20 mac)) [] \<and> length scr' = N"
proof (induction c arbitrary: scr)
  case 0
  let ?rec = "seal C (hk_cKey k) (hk_cIv k) 0 22 (hs_msg 20 mac)"
  have ml: "length (hs_msg 20 mac) = 36" using assms(5) by (simp add: hs_msg_def)
  have "length ?rec = 58" using length_seal [OF assms(1-3)] ml by simp
  then have "length (store (mem_put scr 0 ?rec) (hs_msg 20 mac @ [22])) = N" using store 0 ml assms(6) by simp
  moreover have "runs pend wire (finished_loop C recv k mac lim store) r scr () r (store (mem_put scr 0 ?rec) (hs_msg 20 mac @ [22])) ?rec []"
    by (subst finished_loop_bind, rule runs_bind, rule finished_record_runs [OF assms(1-5) _ assms(7)])
      (use 0 assms(6) in \<open>simp_all add: runs_ret\<close>)
  ultimately show ?case by auto
next
  case (Suc c)
  let ?scr = "mem_put scr 0 (rec_bytes Ccs)"
  have "length ?scr = N" using Suc.prems assms(6) by simp
  from Suc.IH [OF this] obtain scr' where S: "runs pend wire (finished_loop C recv k mac lim store) r ?scr () r scr'
      (concat (replicate c (rec_bytes Ccs)) @ seal C (hk_cKey k) (hk_cIv k) 0 22 (hs_msg 20 mac)) []" "length scr' = N" by blast
  have "runs pend wire (finished_loop C recv k mac lim store) r scr () r scr'
      (concat (replicate (Suc c) (rec_bytes Ccs)) @ seal C (hk_cKey k) (hk_cIv k) 0 22 (hs_msg 20 mac)) []"
    by (subst finished_loop_bind, rule runs_bind, rule finished_ccs_runs [OF assms(4)])
      (use S(1) Suc.prems assms(6) in simp_all)
  with S(2) show ?case by blast
qed

lemma accept_finish_runs:
  assumes ok: "sha256_ok C H R" "kdf_ok C" "hmac_ok C M" "aead_ok C" "duplex send recv pend wire"
    and tc: "tdigest tc = WC_SHA256" "R (thash tc) mm"
    and k: "length (hk_hs k) = 32" "length (hk_cHs k) = 32" "length (hk_cKey k) = 16" "length (hk_cIv k) = 12"
    and sz: "length scr = N" "58 \<le> N" "58 \<le> lim + 21" "\<And>scr c. length scr = N \<Longrightarrow> length c = 37 \<Longrightarrow> length (store scr c) = N"
  shows "\<exists>sess' scr'. runs pend wire (accept_finish C send recv sess k (H []) tc lim store) r scr sess' r scr'
      (concat (replicate c (rec_bytes Ccs)) @ seal C (hk_cKey k) (hk_cIv k) 0 22
        (hs_msg 20 (M (hkdf_expand C 32 (hk_cHs k) ''finished'' []) (H mm)))) [] \<and> length scr' = N \<and>
    (0, sess') = wn_SessionEstablish C Server sess (hk_hs k) (H []) (replicate 32 0) (H mm) (Some send) (Some recv) scr' N"
proof -
  have hl: "length (H x) = 32" for x using ok(1) by (simp add: sha256_ok_def)
  let ?mac = "M (hkdf_expand C 32 (hk_cHs k) ''finished'' []) (H mm)"
  have ml: "length ?mac = 32" using ok(3) by (simp add: hmac_ok_def)
  have "\<exists>scr'. runs pend wire (finished_loop C recv k ?mac lim store) r scr () r scr'
      (concat (replicate c (rec_bytes Ccs)) @ seal C (hk_cKey k) (hk_cIv k) 0 22 (hs_msg 20 ?mac)) [] \<and> length scr' = N"
    by (rule finished_loop_runs [OF ok(4) k(3,4) ok(5) ml sz(2,3)]) (fact sz)+
  then obtain scr' where L: "runs pend wire (finished_loop C recv k ?mac lim store) r scr () r scr'
      (concat (replicate c (rec_bytes Ccs)) @ seal C (hk_cKey k) (hk_cIv k) 0 22 (hs_msg 20 ?mac)) []" "length scr' = N"
    by (elim exE conjE) (rule that)
  define S where "S scr = snd (wn_SessionEstablish C Server sess (hk_hs k) (H []) (replicate 32 0) (H mm) (Some send) (Some recv) scr N)" for scr
  have S: "wn_SessionEstablish C Server sess (hk_hs k) (H []) (replicate 32 0) (H mm) (Some send) (Some recv) scr N = (0, S scr)"
    and S': "S scr\<lparr>scratch := scr'\<rparr> = S scr'" for scr scr'
    by (simp_all add: S_def SessionEstablish_eq [OF ok(2) k(1) hl hl] Let_def)
  have "runs pend wire (accept_finish C send recv sess k (H []) tc lim store) r scr (S scr') r scr'
      (concat (replicate c (rec_bytes Ccs)) @ seal C (hk_cKey k) (hk_cIv k) 0 22 (hs_msg 20 ?mac)) []"
    unfolding accept_finish_def sha256_get [OF ok(1) tc] FinishedMac_ok [OF ok(2,3) k(2) hl] prod.case take_all [OF eq_refl [OF ml]]
  proof (rule runs_okI, rule refl, rule runs_get, unfold env.select_convs sz(1), rule runs_okI, rule S, rule runs_okI, rule refl)
    show "runs pend wire (bind_s (finished_loop C recv k ?mac lim store) (\<lambda>_. bind_s get_s (\<lambda>s1. ret_s (S scr\<lparr>scratch := e_scr s1\<rparr>))))
        r scr (S scr') r scr' (concat (replicate c (rec_bytes Ccs)) @ seal C (hk_cKey k) (hk_cIv k) 0 22 (hs_msg 20 ?mac)) []"
      by (rule runs_bind, rule L(1), rule runs_get, unfold env.select_convs S', rule runs_ret) simp_all
  qed
  then show ?thesis using L(2) S by metis
qed

end
