(* ===== verification/AcceptRun.thy ===== *)
theory AcceptRun
  imports ConnectLive AcceptFlight
begin

section \<open>The server's side of a certificate handshake\<close>

text \<open>
  The server driver run against a client of the same build: what it sends is determined by the
  ClientHello and its own choices, and it returns with the session once the client's Finished
  arrives.
\<close>

text \<open>What the two sides of a certificate handshake send, from what they choose.\<close>

definition cert_sh :: "build \<Rightarrow> bytes \<Rightarrow> bytes \<Rightarrow> bytes \<Rightarrow> bytes" where
  "cert_sh B srnd sid srvPub = sh_msg (sh_body srnd sid 0x1301 (sh_exts (WN_DEFAULT_GROUP B) srvPub False 0))"

definition cert_keys :: "'x crypto \<Rightarrow> (bytes \<Rightarrow> bytes) \<Rightarrow> bytes \<Rightarrow> bytes \<Rightarrow> hs_keys" where
  "cert_keys C H ecdhe mm = hs_sched C (hkdf_extract C [] (replicate 32 0)) (H []) ecdhe (H mm)"

definition finished_key :: "'x crypto \<Rightarrow> bytes \<Rightarrow> bytes" where
  "finished_key C secret = hkdf_expand C 32 secret ''finished'' []"

lemma accept_cert_steps_runs:
  assumes ok: "sha256_ok C H R" "kdf_ok C" "hmac_ok C M" "aead_ok C" "duplex send recv pend wire"
    and X: "rng_ok X good" "kex_ok X good" "good r" "good r1" "ks_group c0 = WN_DEFAULT_GROUP B"
      "wn_KeyShare_Generate B X c0 r1 (replicate (WN_DEFAULT_PUB_SZ B) 0) = (Inr n, c1, r1', pub')"
    and hello: "length rnd = 32" "length sid = 32" "sni_ok name"
      "chm = ch_msg (ch_body rnd sid (ch_exts B name (take n pub')))"
    and sg: "signs B X P scheme keyDer spki lim" "wn_ClientHello_HasSigAlg (Some (sig_bytes B)) scheme"
    and sz: "4096 \<le> length scr" "length scr < 2147483648" "length der + lim + 85 \<le> length scr div 2" "length der + lim + 63 \<le> 16384"
  shows "\<exists>srnd srvPub ecdhe out' sg. let mm = chm @ cert_sh B srnd sid srvPub; k = cert_keys C H ecdhe mm;
      bodies = cert_flight H (M (finished_key C (hk_sHs k))) mm der scheme sg; m = mm @ flight_bytes bodies in
    srnd = fst (snd (wc_RNG_GenerateBlock X r 32)) \<and> length srnd = 32 \<and>
    length srvPub = WN_DEFAULT_SRV_SHARE_SZ B \<and> length sg \<le> lim \<and>
    wn_KeyShare_Shared B X c1 (Some srvPub) (replicate (WN_DEFAULT_SECRET_SZ B) 0) = (Inr (WN_DEFAULT_SECRET_SZ B), out') \<and>
    take (WN_DEFAULT_SECRET_SZ B) out' = ecdhe \<and>
    wn_CertVerify B P scheme spki (H (mm @ flight_bytes [[0, 0], cert_body der])) sg = Inr () \<and>
    (\<forall>c. \<exists>sess' r' scr'. runs pend wire (accept_cert_steps B C X tc0 ks0 sess send recv der keyDer scheme (length scr div 2)) r scr sess' r' scr'
        (rec_bytes (Frag chm) @ concat (replicate c (rec_bytes Ccs)) @
         seal C (hk_cKey k) (hk_cIv k) 0 22 (hs_msg 20 (M (finished_key C (hk_cHs k)) (H m))))
        (rec_bytes (Frag (cert_sh B srnd sid srvPub)) @ rec_bytes Ccs @ seal C (hk_sKey k) (hk_sIv k) 0 22 (flight_bytes bodies)) \<and>
      length scr' = length scr \<and>
      (0, sess') = wn_SessionEstablish C Server sess (hk_hs k) (H []) (replicate 32 0) (H m) (Some send) (Some recv) scr' (length scr))"
proof -
  let ?half = "length scr div 2"
  have l: "length (H x) = 32" for x using ok(1) by (simp add: sha256_ok_def)
  have gen: "agrees B X c0 c0 r1 r (replicate (WN_DEFAULT_PUB_SZ B) 0) (replicate (WN_DEFAULT_SRV_SHARE_SZ B) 0)
      (replicate (WN_DEFAULT_SECRET_SZ B) 0) (replicate (WN_DEFAULT_SECRET_SZ B) 0)"
    by (rule agrees_any [OF X(2,4,3,5,5)]) simp_all
  have "\<exists>m s' r' srv sec. wn_KeyShare_ServerShare B X c0 r (Some (take n pub')) (replicate (WN_DEFAULT_SRV_SHARE_SZ B) 0)
      (replicate (WN_DEFAULT_SECRET_SZ B) 0) = (Inr m, s', r', srv, sec)"
    using gen unfolding agrees_def X(6) by fast
  then have n: "length (take n pub') = WN_DEFAULT_PUB_SZ B" by (elim exE) (rule accepted_sizes(2))
  obtain hi ra scra where A: "runs pend wire (accept_hello B C X tc0 send recv) r scr hi ra scra (rec_bytes (Frag chm)) []"
      "tdigest (hi_tc hi) = WC_SHA256" "R (thash (hi_tc hi)) []" "hi_emptyHash hi = H []" "length (hi_random hi) = 32"
      "hi_random hi = fst (snd (wc_RNG_GenerateBlock X r 32))" "\<not> hi_hrrDone hi" "hi_chLen hi = length chm"
      "take (length chm) scra = chm" "hello_at B sid (take n pub') (hi_ch hi) scra" "good ra" "length scra = length scr"
    using accept_hello_runs [OF ok(1) X(1,3) ok(5) hello(1,2) n hello(3,4) sz(1,2), of tc0] by blast
  let ?ch = "hi_ch hi"
  have ch: "ch_cipher ?ch = 0x1301" "ch_group ?ch = WN_DEFAULT_GROUP B" "ch_field scra (ch_sessionId ?ch) (ch_sessionIdLen ?ch) = sid"
      "map_option (\<lambda>p. ch_field scra (Some p) (ch_sigAlgsLen ?ch)) (ch_sigAlgs ?ch) = Some (sig_bytes B)"
    using A(10) by (auto simp: hello_at_def share_at_def)
  have sa: "share_at B sid (take n pub') ?ch scra" using A(10) by (simp add: hello_at_def)
  obtain tc1 where T: "runs pend wire (absorb C (hi_tc hi) 0 (length chm)) ra scra tc1 ra scra [] []" "tdigest tc1 = WC_SHA256"
      "R (thash tc1) chm"
    using absorb_runs [where fl = "[]" and m = chm and scr = scra and pend = pend and wire = wire and r = ra, OF ok(1) A(2,3)] A(9) by auto
  obtain srvPub ecdhe rb out' where K: "runs pend wire (accept_key_exchange B X ks0 ?ch) ra scra (srvPub, ecdhe) rb scra [] []"
      "length srvPub = WN_DEFAULT_SRV_SHARE_SZ B"
      "wn_KeyShare_Shared B X c1 (Some srvPub) (replicate (WN_DEFAULT_SECRET_SZ B) 0) = (Inr (WN_DEFAULT_SECRET_SZ B), out')"
      "take (WN_DEFAULT_SECRET_SZ B) out' = ecdhe"
    using accept_key_exchange_runs [OF X(2,4) A(11) X(5,6) sa, of pend wire ks0] by blast
  have sp: "length srvPub \<le> 1216" unfolding K(2) by (cases "b_kex B") (simp_all add: sizes)
  define shm where "shm = cert_sh B (hi_random hi) sid srvPub"
  have sd: "length sid \<le> 32" using hello(2) by simp
  have shm: "shm = sh_msg (sh_body (hi_random hi) sid (ch_cipher ?ch) (sh_exts (ch_group ?ch) srvPub False 0))"
    by (simp only: shm_def cert_sh_def ch)
  have sz': "4096 \<le> length scra" "length scra < 2147483648" using sz A(12) by simp_all
  obtain tc2 scrb where S: "runs pend wire (accept_server_hello C send hi tc1 sid srvPub False) rb scra tc2 rb scrb []
      (rec_bytes (Frag shm) @ rec_bytes Ccs)" "tdigest tc2 = WC_SHA256" "R (thash tc2) (chm @ shm)" "length scrb = length scra"
    using accept_server_hello_runs [where incl = False and r = rb, OF ok(1,5) T(2,3) A(5,7) sd sp sz' shm] by blast
  let ?mm = "chm @ shm"
  define k where "k = cert_keys C H ecdhe ?mm"
  note kl = hs_sched_len [OF ok(2), of "hkdf_extract C [] (replicate 32 0)" "H []" ecdhe "H ?mm", folded cert_keys_def, folded k_def]
  have el: "length (hkdf_extract C [] (replicate 32 0)) = 32" using ok(2) by simp
  note keys = accept_hs_keys_eq [OF ok(1,2) S(2,3) el, of ecdhe, folded cert_keys_def, folded k_def]
  have half: "?half + ?half \<le> length scrb" "length scrb < 2147483648" using S(4) A(12) sz(2) by simp_all
  obtain sg tc3 rc scrc where F: "runs pend wire (accept_cert_flight B C X send der keyDer scheme k tc2 ?half) rb scrb tc3 rc scrc []
      (seal C (hk_sKey k) (hk_sIv k) 0 22 (flight_bytes (cert_flight H (M (finished_key C (hk_sHs k))) ?mm der scheme sg)))"
      "tdigest tc3 = WC_SHA256" "length sg \<le> lim"
      "wn_CertVerify B P scheme spki (H (?mm @ flight_bytes [[0, 0], cert_body der])) sg = Inr ()"
      "R (thash tc3) (?mm @ flight_bytes (cert_flight H (M (finished_key C (hk_sHs k))) ?mm der scheme sg))" "length scrc = length scrb"
    using accept_cert_flight_runs [OF ok S(2,3) kl(3,6,7) sg(1) sz(3,4) half, of rb] unfolding finished_key_def by blast
  let ?m = "?mm @ flight_bytes (cert_flight H (M (finished_key C (hk_sHs k))) ?mm der scheme sg)"
  let ?store = "\<lambda>scr content. mem_put scr ?half content"
  have st: "length (?store scr' c) = length scr" if "length scr' = length scr" "length c = 37" for scr' c
    using that sz(1) by simp
  have sl: "length scrc = length scr" "58 \<le> length scr" "58 \<le> ?half + 21" using F(6) S(4) A(12) sz(1) by simp_all
  have run: "\<exists>sess' r' scr'. runs pend wire (accept_cert_steps B C X tc0 ks0 sess send recv der keyDer scheme ?half) r scr sess' r' scr'
        (rec_bytes (Frag chm) @ concat (replicate c (rec_bytes Ccs)) @
         seal C (hk_cKey k) (hk_cIv k) 0 22 (hs_msg 20 (M (finished_key C (hk_cHs k)) (H ?m))))
        (rec_bytes (Frag shm) @ rec_bytes Ccs @ seal C (hk_sKey k) (hk_sIv k) 0 22
          (flight_bytes (cert_flight H (M (finished_key C (hk_sHs k))) ?mm der scheme sg))) \<and>
      length scr' = length scr \<and>
      (0, sess') = wn_SessionEstablish C Server sess (hk_hs k) (H []) (replicate 32 0) (H ?m) (Some send) (Some recv) scr' (length scr)" for c
  proof -
    have "\<exists>sess' scr'. runs pend wire (accept_finish C send recv sess k (H []) tc3 ?half ?store) rc scrc sess' rc scr'
        (concat (replicate c (rec_bytes Ccs)) @ seal C (hk_cKey k) (hk_cIv k) 0 22 (hs_msg 20 (M (finished_key C (hk_cHs k)) (H ?m)))) [] \<and>
        length scr' = length scr \<and>
        (0, sess') = wn_SessionEstablish C Server sess (hk_hs k) (H []) (replicate 32 0) (H ?m) (Some send) (Some recv) scr' (length scr)"
      unfolding finished_key_def
      by (rule accept_finish_runs [OF ok F(2,5) [unfolded finished_key_def] kl(1,2,4,5) sl]) (fact st)
    then obtain sess' scr' where E: "runs pend wire (accept_finish C send recv sess k (H []) tc3 ?half ?store) rc scrc sess' rc scr'
        (concat (replicate c (rec_bytes Ccs)) @ seal C (hk_cKey k) (hk_cIv k) 0 22 (hs_msg 20 (M (finished_key C (hk_cHs k)) (H ?m)))) []"
        "length scr' = length scr"
        "(0, sess') = wn_SessionEstablish C Server sess (hk_hs k) (H []) (replicate 32 0) (H ?m) (Some send) (Some recv) scr' (length scr)"
      by (elim exE conjE) (rule that)
    have ext: "wn_Tls13_Extract C stack32 [] (Some (replicate 32 0)) WC_SHA256 = (0, hkdf_extract C [] (replicate 32 0))"
      by (rule Extract_ok [OF ok(2)])
    have "runs pend wire (accept_cert_steps B C X tc0 ks0 sess send recv der keyDer scheme ?half) r scr sess' rc scr'
        (rec_bytes (Frag chm) @ concat (replicate c (rec_bytes Ccs)) @
         seal C (hk_cKey k) (hk_cIv k) 0 22 (hs_msg 20 (M (finished_key C (hk_cHs k)) (H ?m))))
        (rec_bytes (Frag shm) @ rec_bytes Ccs @ seal C (hk_sKey k) (hk_sIv k) 0 22
          (flight_bytes (cert_flight H (M (finished_key C (hk_sHs k))) ?mm der scheme sg)))"
      unfolding accept_cert_steps_def Let_def
    proof (rule runs_bind, rule A(1), rule runs_get, unfold env.select_convs ch(3,4) A(4,8), rule runs_guard, rule sg(2), rule runs_seq,
        rule T(1), rule runs_seq, rule K(1), unfold prod.case, rule runs_bind, rule S(1), rule runs_okI, rule ext, rule runs_okI, rule keys,
        rule runs_bind, rule F(1), rule E(1))
    qed (simp_all del: rec_bytes.simps)
    with E(2,3) show ?thesis by blast
  qed
  show ?thesis
    unfolding Let_def
    using A(5,6) K(2-4) F(3,4) run unfolding k_def shm_def
    by (intro exI [of _ "hi_random hi"] exI [of _ srvPub] exI [of _ ecdhe] exI [of _ out'] exI [of _ sg] conjI) simp_all
qed
end
