(* ===== verification/AcceptPsk.thy ===== *)
theory AcceptPsk
  imports PskHello AcceptRun
begin

section \<open>The server's side of a PSK handshake\<close>

text \<open>
  The PSK driver of the server run against a client of the same build and key: it takes the
  ClientHello, finds the binder right, sends ServerHello and its flight of EncryptedExtensions and
  Finished, and returns with the session once the client's Finished arrives.
\<close>

text \<open>The ClientHello a client of the same build and key sends.\<close>

definition psk_hello :: "build \<Rightarrow> 'x crypto \<Rightarrow> (bytes \<Rightarrow> bytes) \<Rightarrow> (bytes \<Rightarrow> bytes \<Rightarrow> bytes) \<Rightarrow> bytes \<Rightarrow> bytes \<Rightarrow> bytes \<Rightarrow> bytes \<Rightarrow> bytes \<Rightarrow> bytes" where
  "psk_hello B C H M psk idn rnd sid pub = psk_msg B rnd sid pub idn (psk_binder C H M psk (psk_trunc B rnd sid pub idn))"

definition psk_at :: "bytes \<Rightarrow> bytes \<Rightarrow> nat \<Rightarrow> client_hello \<Rightarrow> bytes \<Rightarrow> bool" where
  "psk_at idn bnd n ch scr \<longleftrightarrow> ch_havePsk ch \<and> ch_pskIdentityLen ch = length idn \<and> ch_field scr (ch_pskIdentity ch) (length idn) = idn \<and>
     ch_binderTruncLen ch = n \<and> ch_field scr (ch_binder ch) 32 = bnd"

lemma accept_psk_hello_runs:
  assumes "sha256_ok C H R" "rng_ok X good" "good r" "duplex send recv pend wire"
    and "length rnd = 32" "length sid = 32" "length pub = WN_DEFAULT_PUB_SZ B" "0 < length idn" "length idn \<le> 255" "length bnd = 32"
    and m: "m = psk_msg B rnd sid pub idn bnd"
    and sz: "4096 \<le> length scr" "length scr < 2147483648"
  shows "\<exists>hi r' scr'. runs pend wire (accept_hello B C X tc0 send recv) r scr hi r' scr' (rec_bytes (Frag m)) [] \<and>
    tdigest (hi_tc hi) = WC_SHA256 \<and> R (thash (hi_tc hi)) [] \<and> hi_emptyHash hi = H [] \<and> length (hi_random hi) = 32 \<and>
    hi_random hi = fst (snd (wc_RNG_GenerateBlock X r 32)) \<and> \<not> hi_hrrDone hi \<and> hi_chLen hi = length m \<and>
    take (length m) scr' = m \<and> share_at B sid pub (hi_ch hi) scr' \<and> psk_at idn bnd (length (psk_trunc B rnd sid pub idn)) (hi_ch hi) scr' \<and>
    good r' \<and> length scr' = length scr"
proof -
  let ?ch = "psk_parsed B 79 pub idn (client_hello_zero\<lparr>ch_sessionId := Some 39, ch_sessionIdLen := 32, ch_cipher := 0x1301\<rparr>)"
  note parse = psk_hello_parses [OF assms(5-10), folded m]
  note F = psk_hello_fields [OF assms(5,6,10) m]
  have pub: "length pub \<le> 1216" using pub_sz_bounds assms(7) by metis
  have sa: "length (psk_sig_bytes B) \<le> 6" by (simp add: length_psk_sig)
  have ks: "ch_haveKeyShare ?ch" by (simp add: psk_parsed_def Let_def)
  have len: "length m \<le> 2000" using F(5) pub sa assms(9) by simp
  obtain hi r' scr' where A: "runs pend wire (accept_hello B C X tc0 send recv) r scr hi r' scr' (rec_bytes (Frag m)) []"
      "tdigest (hi_tc hi) = WC_SHA256" "R (thash (hi_tc hi)) []" "hi_emptyHash hi = H []" "length (hi_random hi) = 32"
      "hi_random hi = fst (snd (wc_RNG_GenerateBlock X r 32))" "\<not> hi_hrrDone hi" "hi_chLen hi = length m"
      "take (length m) scr' = m" "hi_ch hi = ?ch" "good r'" "length scr' = length scr"
    using accept_any_hello_runs [OF assms(1-4) parse ks m [unfolded psk_msg_def] len sz] by blast
  have at: "slice off k scr' = slice off k m" if "off + k \<le> length m" for off k
    by (rule slice_of_take [OF A(9) refl that])
  have "share_at B sid pub ?ch scr'"
    using F at by (simp add: share_at_def psk_parsed_def ch_field_def client_hello_zero_def Let_def)
  moreover have "psk_at idn bnd (length (psk_trunc B rnd sid pub idn)) ?ch scr'"
    using F at by (simp add: psk_at_def psk_parsed_def ch_field_def client_hello_zero_def Let_def)
  ultimately show ?thesis using A by metis
qed

lemma accept_binder_runs:
  assumes ok: "sha256_ok C H R" "kdf_ok C" "hmac_ok C M"
    and hi: "tdigest (hi_tc hi) = WC_SHA256" "R (thash (hi_tc hi)) []" "hi_emptyHash hi = H []" "hi_chLen hi = length m"
    and at: "psk_at idn (psk_binder C H M psk t) (length t) (hi_ch hi) scr" "take (length m) scr = m" "m = t @ rest" "length m < 2147483648"
  shows "\<exists>tc. runs pend wire (accept_binder C psk idn hi) r scr (hkdf_extract C [] psk, tc) r scr [] [] \<and>
    tdigest tc = WC_SHA256 \<and> R (thash tc) m"
proof -
  have hl: "length (H x) = 32" for x using ok(1) by (simp add: sha256_ok_def)
  have el: "length (hkdf_extract C [] psk) = 32" using ok(2) by simp
  have bl: "length (hkdf_expand C 32 (hkdf_extract C [] psk) ''ext binder'' (H [])) = 32" using ok(2) by simp
  let ?mac = "psk_binder C H M psk t"
  have mac: "wn_Tls13_FinishedMac C stack32 (Some (hkdf_expand C 32 (hkdf_extract C [] psk) ''ext binder'' (H []))) (Some (H t)) 32 WC_SHA256 = (0, ?mac)"
    unfolding psk_binder_def by (rule FinishedMac_ok [OF ok(2,3) bl hl])
  obtain tail where scr: "scr = t @ rest @ tail" using at(2,3) append_take_drop_id [of "length m" scr] by (metis append_assoc)
  obtain tc1 where t1: "wn_Transcript_Update C (hi_tc hi) (Some t) (length t) = (0, tc1)" "tdigest tc1 = WC_SHA256" "R (thash tc1) ([] @ t)"
    using sha256_update [OF ok(1) hi(1,2)] by blast
  have t1R: "R (thash tc1) t" using t1(3) by simp
  obtain tc2 where t2: "wn_Transcript_Update C tc1 (Some rest) (length rest) = (0, tc2)" "tdigest tc2 = WC_SHA256" "R (thash tc2) (t @ rest)"
    using sha256_update [OF ok(1) t1(2) t1R] by blast
  have up1: "wn_Transcript_Update C (hi_tc hi) (Some scr) (length t) = (0, tc1)"
    using t1(1) update_take [of C "hi_tc hi" "length t" scr] by (simp add: scr)
  have n: "u32_sub (length m) (length t) = length rest" using at(3,4) by (simp add: u32_sub_def u32_def)
  have up2: "wn_Transcript_Update C tc1 (Some (drop (length t) scr)) (length rest) = (0, tc2)"
    using t2(1) update_take [of C tc1 "length rest" "drop (length t) scr"] by (simp add: scr)
  have g: "ch_havePsk (hi_ch hi) \<and> ch_pskIdentityLen (hi_ch hi) = length idn \<and> ch_field scr (ch_pskIdentity (hi_ch hi)) (length idn) = idn"
      "ch_binderTruncLen (hi_ch hi) = length t" "?mac = ch_field scr (ch_binder (hi_ch hi)) 32"
    using at(1) by (simp_all add: psk_at_def)
  have "runs pend wire (accept_binder C psk idn hi) r scr (hkdf_extract C [] psk, tc2) r scr [] []"
    unfolding accept_binder_def
    apply (rule runs_get, unfold env.select_convs Let_def g(2))
    apply (rule runs_guard, rule g(1))
    apply (unfold hi(3) Extract_ok [OF ok(2)] DeriveSecret_ok [OF ok(2) el hl] prod.case or.right_neutral)
    apply (rule runs_okI, rule refl)
    apply (rule runs_okI, rule up1, unfold sha256_get [OF ok(1) t1(2) t1R] prod.case)
    apply (rule runs_okI, rule refl, unfold mac prod.case)
    apply (rule runs_okI, rule refl, rule runs_guard, rule g(3), unfold hi(4) n)
    apply (rule runs_okI, rule up2, rule runs_ret)
    done
  then show ?thesis using t2(2,3) at(3) by blast
qed


text \<open>A record sealed at the start of the scratch buffer and sent.\<close>

lemma protect_send_runs:
  assumes "aead_ok C" "length key = 16" "length iv = 12" "duplex send recv pend wire" "length fl \<le> 16384" "length fl + 22 \<le> length scr"
  shows "\<exists>scr'. runs pend wire (bind_s (on_scr (\<lambda>scr. wn_Record_Protect C scr (Some key) (Some iv) 0 22 (Some fl)))
      (\<lambda>n. bind_s (send_region send 0 n) (\<lambda>_. ret_s x))) r scr x r scr' [] (seal C key iv 0 22 fl) \<and> length scr' = length scr"
proof -
  let ?rec = "seal C key iv 0 22 fl"
  have sl: "length ?rec = length fl + 22" by (rule length_seal [OF assms(1-3)])
  have P: "wn_Record_Protect C scr (Some key) (Some iv) 0 22 (Some fl) = (Inr (length fl + 22), mem_put scr 0 ?rec)"
    using Protect_seal [OF assms(1-3,5), of scr 0 22] assms(6) by simp
  let ?scr = "mem_put scr 0 ?rec"
  have len: "length ?scr = length scr" using sl assms(6) by simp
  have sent: "slice 0 (length fl + 22) ?scr = ?rec" using sl by (simp add: mem_put_def slice_def)
  have sd: "sends pend wire (\<lambda>w. case send w ?rec of (n, w') \<Rightarrow> (if n \<noteq> int (length fl + 22) then Inl E_CRYPTO else Inr (), w')) () ?rec"
    unfolding sends_def
  proof
    fix w
    from duplex_send [OF assms(4), of w ?rec] obtain w' where
      "send w ?rec = (int (length fl + 22), w')" "wire w' = wire w @ ?rec" "pend w' = pend w" unfolding sl by blast
    then show "\<exists>w'. (case send w ?rec of (n, w') \<Rightarrow> (if n \<noteq> int (length fl + 22) then Inl E_CRYPTO else Inr (), w')) = (Inr (), w') \<and>
        pend w' = pend w \<and> wire w' = wire w @ ?rec" by simp
  qed
  have "runs pend wire (send_region send 0 (length fl + 22)) r ?scr () r ?scr [] ?rec"
    unfolding send_region_def by (rule runs_get, simp only: env.select_convs sent, rule runs_io [OF sd])
  then have "runs pend wire (bind_s (on_scr (\<lambda>scr. wn_Record_Protect C scr (Some key) (Some iv) 0 22 (Some fl)))
      (\<lambda>n. bind_s (send_region send 0 n) (\<lambda>_. ret_s x))) r scr x r ?scr [] ?rec"
    by (intro runs_scr [of _ _ "length fl + 22"] runs_bind [OF _ runs_ret]) (simp_all add: P)
  then show ?thesis using len by blast
qed

text \<open>The two messages of the flight over the hello messages \<open>mm\<close>.\<close>

definition psk_flight_bytes :: "(bytes \<Rightarrow> bytes) \<Rightarrow> (bytes \<Rightarrow> bytes) \<Rightarrow> bytes \<Rightarrow> bytes" where
  "psk_flight_bytes H mac mm = hs_msg 8 [0, 0] @ hs_msg 20 (mac (H (mm @ hs_msg 8 [0, 0])))"

lemma accept_psk_flight_runs:
  assumes ok: "sha256_ok C H R" "kdf_ok C" "hmac_ok C M" "aead_ok C" "duplex send recv pend wire"
    and tc: "tdigest tc = WC_SHA256" "R (thash tc) mm"
    and k: "length (hk_sHs k) = 32" "length (hk_sKey k) = 16" "length (hk_sIv k) = 12"
    and sz: "64 \<le> length scr"
  shows "\<exists>tc' scr'. runs pend wire (accept_psk_flight C send k tc) r scr tc' r scr' []
      (seal C (hk_sKey k) (hk_sIv k) 0 22 (psk_flight_bytes H (M (finished_key C (hk_sHs k))) mm)) \<and>
    tdigest tc' = WC_SHA256 \<and> R (thash tc') (mm @ psk_flight_bytes H (M (finished_key C (hk_sHs k))) mm) \<and> length scr' = length scr"
proof -
  let ?e = "hs_msg 8 [0, 0]" and ?fin = "hs_msg 20 (M (finished_key C (hk_sHs k)) (H (mm @ hs_msg 8 [0, 0])))"
  have le: "length ?e = 6" by (simp add: hs_msg_def)
  have lf: "length ?fin = 36" using ok(3) by (simp add: hs_msg_def hmac_ok_def)
  obtain buf where b: "wn_EncExt_Build (replicate 128 0) = (Inr 6, buf)" "take 6 buf = ?e" "length buf = 128"
    using EncExt_built [of "replicate 128 0"] length_EncExt_Build [of "replicate 128 0"] unfolding le by auto
  obtain tc1 where t1: "wn_Transcript_Update C tc (Some ?e) (length ?e) = (0, tc1)" "tdigest tc1 = WC_SHA256" "R (thash tc1) (mm @ ?e)"
    using sha256_update [OF ok(1) tc, of ?e] by blast
  have up1: "wn_Transcript_Update C tc (Some buf) 6 = (0, tc1)"
    using t1(1) update_take [of C tc 6 buf] by (simp add: b(2))
  have fin: "accept_finished_mac C (hk_sHs k) tc1 = Inr ?fin"
    using finished_mac_complete [OF ok(1-3) t1(2,3) k(1)] by (simp add: finished_key_def)
  obtain tc2 where t2: "wn_Transcript_Update C tc1 (Some ?fin) (length ?fin) = (0, tc2)" "tdigest tc2 = WC_SHA256" "R (thash tc2) ((mm @ ?e) @ ?fin)"
    using sha256_update [OF ok(1) t1(2,3), of ?fin] by blast
  let ?fl = "mem_put buf 6 ?fin"
  have fl: "take 42 ?fl = ?e @ ?fin" "take 36 (drop 6 ?fl) = ?fin"
    using b(3) lf by (simp_all add: mem_put_def b(2) [symmetric])
  have up2: "wn_Transcript_Update C tc1 (Some (drop 6 ?fl)) 36 = (0, tc2)"
    using t2(1) update_take [of C tc1 36 "drop 6 ?fl"] unfolding fl(2) lf by simp
  have l42: "length (?e @ ?fin) \<le> 16384" "length (?e @ ?fin) + 22 \<le> length scr" using sz le lf by simp_all
  have "\<exists>scr'. runs pend wire (bind_s (on_scr (\<lambda>scr. wn_Record_Protect C scr (Some (hk_sKey k)) (Some (hk_sIv k)) 0 22 (Some (?e @ ?fin))))
      (\<lambda>n. bind_s (send_region send 0 n) (\<lambda>_. ret_s tc2))) r scr tc2 r scr' [] (seal C (hk_sKey k) (hk_sIv k) 0 22 (?e @ ?fin)) \<and>
      length scr' = length scr"
    by (rule protect_send_runs [OF ok(4) k(2,3) ok(5) l42])
  then obtain scr' where P: "runs pend wire (bind_s (on_scr (\<lambda>scr. wn_Record_Protect C scr (Some (hk_sKey k)) (Some (hk_sIv k)) 0 22 (Some (?e @ ?fin))))
      (\<lambda>n. bind_s (send_region send 0 n) (\<lambda>_. ret_s tc2))) r scr tc2 r scr' [] (seal C (hk_sKey k) (hk_sIv k) 0 22 (?e @ ?fin))"
      "length scr' = length scr" by (elim exE conjE) (rule that)
  have n: "6 + 36 = (42 :: nat)" by simp
  have "runs pend wire (accept_psk_flight C send k tc) r scr tc2 r scr' [] (seal C (hk_sKey k) (hk_sIv k) 0 22 (?e @ ?fin))"
    unfolding accept_psk_flight_def b(1) prod.case Let_def
    apply (rule runs_codeE, rule refl)
    apply (rule runs_okI, rule up1)
    apply (unfold fin, rule runs_pure)
    apply (rule runs_okI, rule up2)
    apply (unfold n fl(1))
    apply (rule P(1))
    done
  then show ?thesis using t2(2,3) P(2) unfolding psk_flight_bytes_def append_assoc by blast
qed


definition psk_sh :: "build \<Rightarrow> bytes \<Rightarrow> bytes \<Rightarrow> bytes \<Rightarrow> bytes" where
  "psk_sh B srnd sid srvPub = sh_msg (sh_body srnd sid 0x1301 (sh_exts (WN_DEFAULT_GROUP B) srvPub True 0))"

definition psk_keys :: "'x crypto \<Rightarrow> (bytes \<Rightarrow> bytes) \<Rightarrow> bytes \<Rightarrow> bytes \<Rightarrow> bytes \<Rightarrow> hs_keys" where
  "psk_keys C H psk ecdhe mm = hs_sched C (hkdf_extract C [] psk) (H []) ecdhe (H mm)"

lemma accept_psk_steps_runs:
  assumes ok: "sha256_ok C H R" "kdf_ok C" "hmac_ok C M" "aead_ok C" "duplex send recv pend wire"
    and X: "rng_ok X good" "kex_ok X good" "good r" "good r1" "ks_group c0 = WN_DEFAULT_GROUP B"
      "wn_KeyShare_Generate B X c0 r1 (replicate (WN_DEFAULT_PUB_SZ B) 0) = (Inr n, c1, r1', pub')"
    and hello: "length rnd = 32" "length sid = 32" "0 < length idn" "length idn \<le> 255" "chm = psk_hello B C H M psk idn rnd sid (take n pub')"
    and sz: "4096 \<le> length scr" "length scr < 2147483648"
  shows "\<exists>srnd srvPub ecdhe out'. let mm = chm @ psk_sh B srnd sid srvPub; k = psk_keys C H psk ecdhe mm;
      fl = psk_flight_bytes H (M (finished_key C (hk_sHs k))) mm; m = mm @ fl in
    srnd = fst (snd (wc_RNG_GenerateBlock X r 32)) \<and> length srnd = 32 \<and>
    length srvPub = WN_DEFAULT_SRV_SHARE_SZ B \<and>
    wn_KeyShare_Shared B X c1 (Some srvPub) (replicate (WN_DEFAULT_SECRET_SZ B) 0) = (Inr (WN_DEFAULT_SECRET_SZ B), out') \<and>
    take (WN_DEFAULT_SECRET_SZ B) out' = ecdhe \<and>
    (\<forall>c. \<exists>sess' r' scr'. runs pend wire (accept_psk_steps B C X tc0 ks0 sess send recv psk idn) r scr sess' r' scr'
        (rec_bytes (Frag chm) @ concat (replicate c (rec_bytes Ccs)) @
         seal C (hk_cKey k) (hk_cIv k) 0 22 (hs_msg 20 (M (finished_key C (hk_cHs k)) (H m))))
        (rec_bytes (Frag (psk_sh B srnd sid srvPub)) @ rec_bytes Ccs @ seal C (hk_sKey k) (hk_sIv k) 0 22 fl) \<and>
      length scr' = length scr \<and>
      (0, sess') = wn_SessionEstablish C Server sess (hk_hs k) (H []) (replicate 32 0) (H m) (Some send) (Some recv) scr' (length scr))"
proof -
  have l: "length (H x) = 32" for x using ok(1) by (simp add: sha256_ok_def)
  have gen: "agrees B X c0 c0 r1 r (replicate (WN_DEFAULT_PUB_SZ B) 0) (replicate (WN_DEFAULT_SRV_SHARE_SZ B) 0)
      (replicate (WN_DEFAULT_SECRET_SZ B) 0) (replicate (WN_DEFAULT_SECRET_SZ B) 0)"
    by (rule agrees_any [OF X(2,4,3,5,5)]) simp_all
  have "\<exists>m s' r' srv sec. wn_KeyShare_ServerShare B X c0 r (Some (take n pub')) (replicate (WN_DEFAULT_SRV_SHARE_SZ B) 0)
      (replicate (WN_DEFAULT_SECRET_SZ B) 0) = (Inr m, s', r', srv, sec)"
    using gen unfolding agrees_def X(6) by fast
  then have n: "length (take n pub') = WN_DEFAULT_PUB_SZ B" by (elim exE) (rule accepted_sizes(2))
  let ?t = "psk_trunc B rnd sid (take n pub') idn"
  let ?bnd = "psk_binder C H M psk ?t"
  have bl: "length ?bnd = 32" using ok(3) by (simp add: psk_binder_def hmac_ok_def)
  have chm: "chm = psk_msg B rnd sid (take n pub') idn ?bnd" by (simp only: hello(5) psk_hello_def)
  obtain hi ra scra where A: "runs pend wire (accept_hello B C X tc0 send recv) r scr hi ra scra (rec_bytes (Frag chm)) []"
      "tdigest (hi_tc hi) = WC_SHA256" "R (thash (hi_tc hi)) []" "hi_emptyHash hi = H []" "length (hi_random hi) = 32"
      "hi_random hi = fst (snd (wc_RNG_GenerateBlock X r 32))" "\<not> hi_hrrDone hi" "hi_chLen hi = length chm"
      "take (length chm) scra = chm" "share_at B sid (take n pub') (hi_ch hi) scra" "psk_at idn ?bnd (length ?t) (hi_ch hi) scra"
      "good ra" "length scra = length scr"
    using accept_psk_hello_runs [OF ok(1) X(1,3) ok(5) hello(1,2) n hello(3,4) bl chm sz, of tc0] by blast
  let ?ch = "hi_ch hi"
  have ch: "ch_cipher ?ch = 0x1301" "ch_group ?ch = WN_DEFAULT_GROUP B" "ch_field scra (ch_sessionId ?ch) (ch_sessionIdLen ?ch) = sid"
    using A(10) by (auto simp: share_at_def)
  have cl: "length chm < 2147483648"
    using arg_cong [OF A(9), of length] A(13) sz(2) by simp
  obtain tc1 where T: "runs pend wire (accept_binder C psk idn hi) ra scra (hkdf_extract C [] psk, tc1) ra scra [] []" "tdigest tc1 = WC_SHA256"
      "R (thash tc1) chm"
    using accept_binder_runs [where pend = pend and wire = wire and r = ra, OF ok(1-3) A(2-4,8,11,9) chm [unfolded psk_msg_split [OF bl]] cl] by blast
  obtain srvPub ecdhe rb out' where K: "runs pend wire (accept_key_exchange B X ks0 ?ch) ra scra (srvPub, ecdhe) rb scra [] []"
      "length srvPub = WN_DEFAULT_SRV_SHARE_SZ B"
      "wn_KeyShare_Shared B X c1 (Some srvPub) (replicate (WN_DEFAULT_SECRET_SZ B) 0) = (Inr (WN_DEFAULT_SECRET_SZ B), out')"
      "take (WN_DEFAULT_SECRET_SZ B) out' = ecdhe"
    using accept_key_exchange_runs [OF X(2,4) A(12) X(5,6) A(10), of pend wire ks0] by blast
  have sp: "length srvPub \<le> 1216" unfolding K(2) by (cases "b_kex B") (simp_all add: sizes)
  define shm where "shm = psk_sh B (hi_random hi) sid srvPub"
  have sd: "length sid \<le> 32" using hello(2) by simp
  have shm: "shm = sh_msg (sh_body (hi_random hi) sid (ch_cipher ?ch) (sh_exts (ch_group ?ch) srvPub True 0))"
    by (simp only: shm_def psk_sh_def ch)
  have sz': "4096 \<le> length scra" "length scra < 2147483648" using sz A(13) by simp_all
  obtain tc2 scrb where S: "runs pend wire (accept_server_hello C send hi tc1 sid srvPub True) rb scra tc2 rb scrb []
      (rec_bytes (Frag shm) @ rec_bytes Ccs)" "tdigest tc2 = WC_SHA256" "R (thash tc2) (chm @ shm)" "length scrb = length scra"
    using accept_server_hello_runs [where incl = True and r = rb, OF ok(1,5) T(2,3) A(5,7) sd sp sz' shm] by blast
  let ?mm = "chm @ shm"
  define k where "k = psk_keys C H psk ecdhe ?mm"
  note kl = hs_sched_len [OF ok(2), of "hkdf_extract C [] psk" "H []" ecdhe "H ?mm", folded psk_keys_def, folded k_def]
  have el: "length (hkdf_extract C [] psk) = 32" using ok(2) by simp
  note keys = accept_hs_keys_eq [OF ok(1,2) S(2,3) el, of ecdhe, folded psk_keys_def, folded k_def]
  have s64: "64 \<le> length scrb" using S(4) sz' by simp
  let ?fl = "psk_flight_bytes H (M (finished_key C (hk_sHs k))) ?mm"
  obtain tc3 scrc where F: "runs pend wire (accept_psk_flight C send k tc2) rb scrb tc3 rb scrc [] (seal C (hk_sKey k) (hk_sIv k) 0 22 ?fl)"
      "tdigest tc3 = WC_SHA256" "R (thash tc3) (?mm @ ?fl)" "length scrc = length scrb"
    using accept_psk_flight_runs [OF ok S(2,3) kl(3,6,7) s64, of rb] by blast
  let ?m = "?mm @ ?fl"
  have sl: "length scrc = length scr" "58 \<le> length scr" "58 \<le> 128 + (21 :: nat)" using F(4) S(4) A(13) sz(1) by simp_all
  have run: "\<exists>sess' r' scr'. runs pend wire (accept_psk_steps B C X tc0 ks0 sess send recv psk idn) r scr sess' r' scr'
        (rec_bytes (Frag chm) @ concat (replicate c (rec_bytes Ccs)) @
         seal C (hk_cKey k) (hk_cIv k) 0 22 (hs_msg 20 (M (finished_key C (hk_cHs k)) (H ?m))))
        (rec_bytes (Frag shm) @ rec_bytes Ccs @ seal C (hk_sKey k) (hk_sIv k) 0 22 ?fl) \<and>
      length scr' = length scr \<and>
      (0, sess') = wn_SessionEstablish C Server sess (hk_hs k) (H []) (replicate 32 0) (H ?m) (Some send) (Some recv) scr' (length scr)" for c
  proof -
    have "\<exists>sess' scr'. runs pend wire (accept_finish C send recv sess k (H []) tc3 128 (\<lambda>scr content. scr)) rb scrc sess' rb scr'
        (concat (replicate c (rec_bytes Ccs)) @ seal C (hk_cKey k) (hk_cIv k) 0 22 (hs_msg 20 (M (finished_key C (hk_cHs k)) (H ?m)))) [] \<and>
        length scr' = length scr \<and>
        (0, sess') = wn_SessionEstablish C Server sess (hk_hs k) (H []) (replicate 32 0) (H ?m) (Some send) (Some recv) scr' (length scr)"
      unfolding finished_key_def
      by (rule accept_finish_runs [OF ok F(2,3) [unfolded finished_key_def] kl(1,2,4,5) sl])
    then obtain sess' scr' where E: "runs pend wire (accept_finish C send recv sess k (H []) tc3 128 (\<lambda>scr content. scr)) rb scrc sess' rb scr'
        (concat (replicate c (rec_bytes Ccs)) @ seal C (hk_cKey k) (hk_cIv k) 0 22 (hs_msg 20 (M (finished_key C (hk_cHs k)) (H ?m)))) []"
        "length scr' = length scr"
        "(0, sess') = wn_SessionEstablish C Server sess (hk_hs k) (H []) (replicate 32 0) (H ?m) (Some send) (Some recv) scr' (length scr)"
      by (elim exE conjE) (rule that)
    have "runs pend wire (accept_psk_steps B C X tc0 ks0 sess send recv psk idn) r scr sess' rb scr'
        (rec_bytes (Frag chm) @ concat (replicate c (rec_bytes Ccs)) @
         seal C (hk_cKey k) (hk_cIv k) 0 22 (hs_msg 20 (M (finished_key C (hk_cHs k)) (H ?m))))
        (rec_bytes (Frag shm) @ rec_bytes Ccs @ seal C (hk_sKey k) (hk_sIv k) 0 22 ?fl)"
      unfolding accept_psk_steps_def Let_def
    proof (rule runs_bind, rule A(1), rule runs_seq, rule T(1), unfold prod.case, rule runs_seq, rule K(1), unfold prod.case, rule runs_get,
        unfold env.select_convs ch(3) A(4), rule runs_bind, rule S(1), rule runs_okI, rule keys, rule runs_bind, rule F(1), rule E(1))
    qed (simp_all del: rec_bytes.simps)
    with E(2,3) show ?thesis by blast
  qed
  show ?thesis
    unfolding Let_def
    using A(5,6) K(2-4) run unfolding k_def shm_def
    by (intro exI [of _ "hi_random hi"] exI [of _ srvPub] exI [of _ ecdhe] exI [of _ out'] conjI) simp_all
qed

end
