(* ===== verification/ConnectRun.thy ===== *)
theory ConnectRun
  imports AcceptRun
begin

section \<open>The client's side of a certificate handshake\<close>

text \<open>
  The client driver run against a server that answers with an acceptable ServerHello and a
  flight under a trusted certificate: the octets of its ClientHello do not depend on the answer,
  and it returns with the session after sending its Finished.
\<close>

subsection \<open>The ClientHello\<close>

lemma cert_client_hello_complete:
  assumes "sha256_ok C H R" "rng_ok X good" "kex_ok X good" "good rng" "duplex send recv pend wire"
    and "sni_ok name" "2000 \<le> length scr" "length scr < 2147483648"
  shows "\<exists>rnd sid c0 r1 n c1 r1' pub' tc scr1. length rnd = 32 \<and> length sid = 32 \<and> ks_group c0 = WN_DEFAULT_GROUP B \<and> good r1 \<and>
    wn_KeyShare_Generate B X c0 r1 (replicate (WN_DEFAULT_PUB_SZ B) 0) = (Inr n, c1, r1', pub') \<and>
    (let chm = ch_msg (ch_body rnd sid (ch_exts B name (take n pub'))) in
     tdigest tc = WC_SHA256 \<and> R (thash tc) chm \<and> length scr1 = length scr \<and>
     (\<forall>w. \<exists>w1. cert_client_hello B C X tc0 ks0 rng send w scr name =
          Inr (\<lparr>ho_tc = tc, ho_ks = c1, ho_sid = sid, ho_emptyHash = H []\<rparr>, r1', w1, scr1) \<and>
        wire w1 = wire w @ rec_bytes (Frag chm) @ rec_bytes Ccs \<and> pend w1 = pend w))"
proof -
  obtain rnd ra where a: "wc_RNG_GenerateBlock X rng 32 = (0, rnd, ra)" "length rnd = 32" "good ra" by (rule rng_run [OF assms(2,4)])
  obtain sid rb where b: "wc_RNG_GenerateBlock X ra 32 = (0, sid, rb)" "length sid = 32" "good rb" by (rule rng_run [OF assms(2) a(3)])
  obtain c0 where c0: "wn_KeyShare_Init B X (ks_hybrid ks0) ks0 (WN_DEFAULT_GROUP B) = (Inr (), c0)" "ks_group c0 = WN_DEFAULT_GROUP B"
    using Init_ok [OF assms(3)] by metis
  have "agrees B X c0 c0 rb rb (replicate (WN_DEFAULT_PUB_SZ B) 0) (replicate (WN_DEFAULT_SRV_SHARE_SZ B) 0)
      (replicate (WN_DEFAULT_SECRET_SZ B) 0) (replicate (WN_DEFAULT_SECRET_SZ B) 0)"
    by (rule agrees_any [OF assms(3) b(3,3) c0(2,2)]) simp_all
  then obtain c1 rc pub' m s' r' srv sec where G: "wn_KeyShare_Generate B X c0 rb (replicate (WN_DEFAULT_PUB_SZ B) 0) = (Inr (WN_DEFAULT_PUB_SZ B), c1, rc, pub')"
      "wn_KeyShare_ServerShare B X c0 rb (Some (take (WN_DEFAULT_PUB_SZ B) pub')) (replicate (WN_DEFAULT_SRV_SHARE_SZ B) 0)
      (replicate (WN_DEFAULT_SECRET_SZ B) 0) = (Inr m, s', r', srv, sec)"
    unfolding agrees_def by blast
  let ?pub = "take (WN_DEFAULT_PUB_SZ B) pub'"
  have pl: "length ?pub = WN_DEFAULT_PUB_SZ B" by (rule accepted_sizes(2) [OF G(2)])
  define chm where "chm = ch_msg (ch_body rnd sid (ch_exts B name ?pub))"
  have sd: "length sid \<le> 32" using b(2) by simp
  note B = ClientHello_built [OF a(2) sd pl assms(6-8) chm_def refl]
  obtain scr1 where s1: "wn_ClientHello_Build_ex B scr (Some rnd) sid (Some ?pub) name = (Inr (length chm), scr1)" "take (length chm) scr1 = chm"
    using B(1) by blast
  have sl: "length scr1 = length scr" using length_ClientHello_Build [of B scr "Some rnd" sid "Some ?pub" name] s1(1) by simp
  obtain tc1 where t1: "wn_Transcript_Init C tc0 WC_SHA256 = (0, tc1)" "tdigest tc1 = WC_SHA256" "R (thash tc1) []"
    using Transcript_Init_ok [OF assms(1), of tc0] by (cases "wn_Transcript_Init C tc0 WC_SHA256") (auto simp: tr_absorbed_def)
  obtain tc where tc: "wn_Transcript_Update C tc1 (Some chm) (length chm) = (0, tc)" "tdigest tc = WC_SHA256" "R (thash tc) chm"
    using sha256_update [OF assms(1) t1(2,3), of chm] by auto
  have up: "wn_Transcript_Update C tc1 (Some scr1) (length chm) = (0, tc)"
    using tc(1) s1(2) by (simp add: wn_Transcript_Update_def)
  have e: "wc_Sha256Hash C [] = (0, H [])" using assms(1) by (simp add: sha256_ok_def)
  have run: "\<exists>w1. cert_client_hello B C X tc0 ks0 rng send w scr name =
          Inr (\<lparr>ho_tc = tc, ho_ks = c1, ho_sid = sid, ho_emptyHash = H []\<rparr>, rc, w1, scr1) \<and>
        wire w1 = wire w @ rec_bytes (Frag chm) @ rec_bytes Ccs \<and> pend w1 = pend w" for w
  proof -
    obtain wa where wa: "wn_SendPlainRecord send w 22 chm = (Inr (), wa)" "wire wa = wire w @ rec_bytes (Frag chm)" "pend wa = pend w"
      using SendPlainRecord_duplex [OF assms(5), of chm w] B(6) by auto
    obtain wb where wb: "wn_SendCcs send wa = (Inr (), wb)" "wire wb = wire wa @ rec_bytes Ccs" "pend wb = pend wa"
      using SendCcs_duplex [OF assms(5), of wa] by blast
    have "cert_client_hello B C X tc0 ks0 rng send w scr name =
          Inr (\<lparr>ho_tc = tc, ho_ks = c1, ho_sid = sid, ho_emptyHash = H []\<rparr>, rc, wb, scr1)"
      by (simp add: cert_client_hello_def e a(1) b(1) c0(1) G(1) t1(1) s1 up client_copies wa(1) wb(1) crypt_def atE_def codeE_def run_status)
    then show ?thesis using wa(2,3) wb(2,3) by (simp del: rec_bytes.simps)
  qed
  show ?thesis
    unfolding Let_def using a(2) b(2,3) c0(2) G(1) tc(2,3) sl run unfolding chm_def by blast
qed

subsection \<open>The ServerHello and the flight\<close>

lemma cert_sh_parses:
  assumes "length srnd = 32" "srnd \<noteq> wn_hrr_random" "length sid = 32" "length srvPub = WN_DEFAULT_SRV_SHARE_SZ B"
  obtains sh where "wn_ServerHello_Parse (Some (cert_sh B srnd sid srvPub)) = Inr sh" "\<not> sh_isHelloRetry sh"
    "sh_acceptable B sid (-1) (cert_sh B srnd sid srvPub) sh"
    "slice (the (sh_keyShare sh)) (sh_keyShareLen sh) (cert_sh B srnd sid srvPub) = srvPub"
    "cert_sh B srnd sid srvPub \<noteq> []" "length (cert_sh B srnd sid srvPub) \<le> 1400"
proof -
  let ?m = "cert_sh B srnd sid srvPub"
  have pl: "length srvPub \<le> 1216" unfolding assms(4) by (cases "b_kex B") (simp_all add: sizes)
  then have h: "length sid < 256" "length srvPub < 65000" using assms(3) by simp_all
  note P = server_hello_parses [OF assms(1,2) h, of "0x1301" "WN_DEFAULT_GROUP B" False 0, folded cert_sh_def]
  have len: "length ?m = 90 + length srvPub"
    using assms(1,3) by (simp add: cert_sh_def sh_msg_def sh_body_def sh_exts_def)
  have m: "?m = (2 # be24 (length (sh_body srnd sid 0x1301 (sh_exts (WN_DEFAULT_GROUP B) srvPub False 0))) @ be16 0x0303 @ srnd @ [32]) @ sid @
      be16 0x1301 @ [0] @ be16 (of_nat (length (sh_exts (WN_DEFAULT_GROUP B) srvPub False 0))) @ sh_exts (WN_DEFAULT_GROUP B) srvPub False 0"
    using assms(3) by (simp add: cert_sh_def sh_msg_def sh_body_def)
  have sid: "slice 39 32 ?m = sid" unfolding m by (rule slice_at) (use assms(1,3) in simp_all)
  have "\<exists>A. ?m = A @ srvPub \<and> length A = 90" 
    unfolding m by (simp add: sh_exts_def assms(1,3))
  then have pub: "slice 90 (length srvPub) ?m = srvPub" by (auto simp: slice_def)
  show thesis
    by (rule that [OF P]) (use assms(3,4) sid pub len pl in \<open>auto simp: sh_acceptable_def\<close>)
qed

lemma cert_list_body:
  assumes "length der < 16000000"
  shows "cert_list (cert_body der) = Inr [der]"
proof -
  let ?e = "be24 (length der) @ der @ be16 0"
  let ?b = "0 # be24 (length ?e) @ be24 (length der) @ der @ be16 0"
  have b: "cert_body der = ?b" by (simp add: cert_body_def Let_def)
  have r1: "wn_Read_U8 (wn_Reader_Init ?b (length ?b)) = (0, rz [0] (be24 (length ?e) @ ?e))"
    unfolding Init_rz [OF refl] by (subst rz_U8) (use assms in simp_all)
  have r2: "wn_Read_Bytes 0 (rz [0] (be24 (length ?e) @ ?e)) = (Some 1, rz [0] (be24 (length ?e) @ ?e))"
    using rz_Bytes [of "[]" 0 "[0]" "be24 (length ?e) @ ?e"] assms by simp
  let ?p = "[0] @ be24 (length ?e)"
  have r3: "wn_Read_U24 (rz [0] (be24 (length ?e) @ ?e)) = (length ?e, rz ?p ?e)"
    by (rule rz_be24) (use assms in simp_all)
  have r4: "wn_Read_U24 (rz ?p ?e) = (length der, rz (?p @ be24 (length der)) (der @ be16 0))"
    by (rule rz_be24) (use assms in simp_all)
  let ?q = "?p @ be24 (length der)"
  have r5: "wn_Read_Bytes (length der) (rz ?q (der @ be16 0)) = (Some (length ?q), rz (?q @ der) (be16 0))"
    by (rule rz_Bytes) (use assms in simp_all)
  have r6: "wn_Read_U16 (rz (?q @ der) (be16 0)) = (0, rz ((?q @ der) @ be16 0) [])"
    using rz_be16 [of "?q @ der" "[]" 0] assms by simp
  have r7: "wn_Read_Bytes 0 (rz ((?q @ der) @ be16 0) []) = (Some (length ((?q @ der) @ be16 0)), rz ((?q @ der) @ be16 0) [])"
    using rz_Bytes [of "[]" 0 "(?q @ der) @ be16 0" "[]"] assms by simp
  have end': "rpos (rz ((?q @ der) @ be16 0) []) = 9 + length der" "length ?b = 9 + length der" "rpos (rz ?p ?e) = 4" "length ?q = 7"
    by simp_all
  have g: "rpos (rz ?p ?e) < 9 + length der \<and> \<not> rerr (rz ?p ?e)" by simp
  have stop: "cert_entries 3 (9 + length der) (rz ((?q @ der) @ be16 0) []) = ([], rz ((?q @ der) @ be16 0) [])"
    by (simp add: numeral_eq_Suc)
  have p: "rpos (rz ?q (der @ be16 0)) = 7" by simp
  have "cert_entries (Suc 3) (9 + length der) (rz ?p ?e) = ([(7, length der)], rz ((?q @ der) @ be16 0) [])"
    unfolding cert_entries.simps(2) if_P [OF g] r4 prod.case r5 r6 unat_0 r7 stop p ..
  then have e1: "cert_entries 4 (9 + length der) (rz ?p ?e) = ([(7, length der)], rz ((?q @ der) @ be16 0) [])" by simp
  have le: "u32 (rpos (rz ?p ?e) + length ?e) = 9 + length der" using assms by (simp add: u32_def)
  have sl: "slice 7 (length der) ?b = der" by (simp add: slice_def)
  show ?thesis
    unfolding b cert_list_def r1 prod.case unat_0 r2 r3 Let_def le e1 using assms sl by simp
qed

lemma cert_flight_good:
  assumes "chain": "wn_VerifyChain B P [der] (cp_anchor cp) (WN_LEAF_SPKI_SZ B) (cp_name cp) (cp_pin cp) (cp_now cp) = Inr spki"
    and "wn_CertVerify B P scheme spki (H (mm @ flight_bytes [[0, 0], cert_body der])) sg = Inr ()"
    and "length der < 65536" "length sg < 65536" "\<And>x. length (mac x) = 32"
  shows "good_flight B P cp H mac mm spki (cert_flight H mac mm der scheme sg)"
proof -
  have ee: "wn_CheckEncExt [0, 0] b = Inr ()" for b
  proof -
    have r: "wn_Read_U16 (wn_Reader_Init [0, 0] (length [0 :: byte, 0])) = (0, rz [0, 0] [])"
      unfolding Init_rz [OF refl] by (subst rz_U16) (simp_all add: dec16_def)
    have "enc_ext_loop (Suc (Suc 0)) 2 b (rz [0, 0] []) = Inr ()" by simp
    then show ?thesis unfolding wn_CheckEncExt_def r prod.case Let_def by (simp add: u32_def)
  qed
  have cl: "cert_list (cert_body der) = Inr [der]" using assms(3) by (intro cert_list_body) simp
  have sa: "signature_accepted B P spki (H (mm @ flight_bytes [[0, 0], cert_body der])) (cv_body scheme sg)"
    using assms(2,4) by (auto simp: signature_accepted_def cv_body_def)
  have ca: "chain_accepted B P cp (cert_body der) spki" using assms(1) cl by (auto simp: chain_accepted_def)
  define b0 b1 b2 b3 where "b0 = [0 :: byte, 0]" "b1 = cert_body der" "b2 = cv_body scheme sg" "b3 = mac (H (mm @ flight_bytes [b0, b1, b2]))"
  have cf: "cert_flight H mac mm der scheme sg = [b0, b1, b2, b3]" by (simp add: cert_flight_def b0_b1_b2_b3_def)
  have nx: "next_ok B P cp H mac mm [] spki b0" "next_ok B P cp H mac mm [b0] spki b1" "next_ok B P cp H mac mm [b0, b1] spki b2"
      "next_ok B P cp H mac mm [b0, b1, b2] spki b3"
    using ee ca sa by (simp_all add: next_ok_def Let_def b0_b1_b2_b3_def(1-3) del: numeral_2_eq_2) (simp add: b0_b1_b2_b3_def)
  have ln: "length b0 < 2147483" "length b1 < 2147483" "length b2 < 2147483" "length b3 < 2147483"
    using assms(3-5) by (simp_all add: b0_b1_b2_b3_def cert_body_def cv_body_def Let_def)
  have "length (cert_flight H mac mm der scheme sg ! n) < 2147483 \<and>
      next_ok B P cp H mac mm (take n (cert_flight H mac mm der scheme sg)) spki (cert_flight H mac mm der scheme sg ! n)" if "n < 4" for n
  proof -
    have "n = 0 \<or> n = 1 \<or> n = 2 \<or> n = 3" using that by linarith
    then show ?thesis unfolding cf using ln nx by (elim disjE) simp_all
  qed
  then show ?thesis unfolding good_flight_def using cf by simp
qed

lemma length_cert_flight:
  "(\<And>x. length (mac x) = 32) \<Longrightarrow> length (flight_bytes (cert_flight H mac mm der scheme sg)) = length der + length sg + 63"
  by (simp add: cert_flight_def flight_bytes_def Let_def hs_msg_def cert_body_def cv_body_def)

lemma flight_rest_0: "flight_rest 0 bodies = flight_bytes bodies"
  by (simp add: flight_rest_def flight_bytes_def)

lemma scratch_min:
  "4096 \<le> WN_CERT_IO_MIN B" "WN_CERT_IO_MIN B \<le> WN_HS_ACC_SZ B" "WN_CERT_IO_MIN B \<le> 8192"
  by (auto simp: WN_CERT_IO_MIN_def WN_HS_ACC_SZ_def split: option.split)

lemma connect_cert_impl_runs:
  assumes ok: "sha256_ok C H R" "kdf_ok C" "hmac_ok C M" "aead_ok C" "duplex send recv pend wire"
    and hello: "cert_client_hello B C X tc0 ks0 rng send w scr name =
        Inr (\<lparr>ho_tc = tc, ho_ks = c1, ho_sid = sid, ho_emptyHash = H []\<rparr>, rng1, w1, scr1)"
      "tdigest tc = WC_SHA256" "R (thash tc) chm" "length scr1 = length scr" "length sid = 32"
    and sz: "WN_CERT_SCRATCH_MIN B \<le> length scr" "length der + length sg + 85 \<le> WN_CERT_IO_MIN B"
    and srv: "length srnd = 32" "srnd \<noteq> wn_hrr_random" "length srvPub = WN_DEFAULT_SRV_SHARE_SZ B"
      "wn_KeyShare_Shared B X c1 (Some srvPub) (replicate (WN_DEFAULT_SECRET_SZ B) 0) = (Inr (WN_DEFAULT_SECRET_SZ B), out)"
    and mm: "mm = chm @ cert_sh B srnd sid srvPub" and k: "k = cert_keys C H (take (WN_DEFAULT_SECRET_SZ B) out) mm"
    and bodies: "bodies = cert_flight H (M (finished_key C (hk_sHs k))) mm der scheme sg" and m: "m = mm @ flight_bytes bodies"
    and auth: "wn_VerifyChain B P [der] anchor (WN_LEAF_SPKI_SZ B) name pin now = Inr spki"
      "wn_CertVerify B P scheme spki (H (mm @ flight_bytes [[0, 0], cert_body der])) sg = Inr ()"
    and pd: "pend w1 = rec_bytes (Frag (cert_sh B srnd sid srvPub)) @ rec_bytes Ccs @
      seal C (hk_sKey k) (hk_sIv k) 0 22 (flight_bytes bodies) @ rest"
  shows "\<exists>sess' w' scr' scrf. wn_connect_cert_impl B C P X tc0 ks0 sess rng (Some send) (Some recv) w (Some anchor) scr name pin now =
      Some (0, sess', rng1, w', scr') \<and> pend w' = rest \<and>
    wire w' = wire w1 @ seal C (hk_cKey k) (hk_cIv k) 0 22 (hs_msg 20 (M (finished_key C (hk_cHs k)) (H m))) \<and>
    (0, sess') = wn_SessionEstablish C Client session_zero (hk_hs k) (H []) (replicate 32 0) (H m) (Some send) (Some recv) scrf (length scrf) \<and>
    WN_CERT_IO_MIN B \<le> length scrf"
proof -
  let ?ioCap = "length scr - (WN_HS_ACC_SZ B + WN_LEAF_SPKI_SZ B)"
  let ?io = "take ?ioCap scr1" and ?acc = "slice ?ioCap (WN_HS_ACC_SZ B) scr1" and ?leaf = "drop (?ioCap + WN_HS_ACC_SZ B) scr1"
  let ?cp = "\<lparr>cp_anchor = anchor, cp_name = name, cp_pin = pin, cp_now = now\<rparr>" and ?shm = "cert_sh B srnd sid srvPub"
  have cap: "WN_CERT_IO_MIN B \<le> ?ioCap" "?ioCap + WN_HS_ACC_SZ B \<le> length scr" "length ?io = ?ioCap" "length ?acc = WN_HS_ACC_SZ B"
    using sz(1) hello(4) by (simp_all add: WN_CERT_SCRATCH_MIN_def)
  obtain sh where sh: "wn_ServerHello_Parse (Some ?shm) = Inr sh" "\<not> sh_isHelloRetry sh" "sh_acceptable B sid (-1) ?shm sh"
      "slice (the (sh_keyShare sh)) (sh_keyShareLen sh) ?shm = srvPub" "?shm \<noteq> []" "length ?shm \<le> 1400"
    by (rule cert_sh_parses [OF srv(1,2) hello(5) srv(3)])
  have sl: "length ?shm + 5 \<le> length ?io" "length ?shm \<le> 16640" using sh(6) cap(1,3) scratch_min(1) [of B] by linarith+
  obtain w2 where w2: "recv_hello recv ?io w1 = Some (Inr (22, length ?shm + 5), mem_put ?io 0 (rec_bytes (Frag ?shm)), w2)"
      "pend w2 = rec_bytes Ccs @ seal C (hk_sKey k) (hk_sIv k) 0 22 (flight_bytes bodies) @ rest" "wire w2 = wire w1"
    using recv_hello_complete [OF ok(5) pd sh(5) sl] by blast
  let ?ho = "\<lparr>ho_tc = tc, ho_ks = c1, ho_sid = sid, ho_emptyHash = H []\<rparr>"
  let ?io2 = "mem_put ?io 0 (rec_bytes (Frag ?shm))" and ?e = "take (WN_DEFAULT_SECRET_SZ B) out"
  have "\<exists>tc2. on_server_hello B C X ?ho (-1) (Inr (22, length ?shm + 5)) ?io2 = Inr (tc2, ?e) \<and>
      tdigest tc2 = WC_SHA256 \<and> R (thash tc2) (chm @ ?shm)"
    by (rule on_server_hello_complete [OF ok(1) _ _ sh(1,2) _ _ sl(1)]) (use hello(2,3) sh(3,4) srv(4) in simp_all)
  then obtain tc2 where s2: "on_server_hello B C X ?ho (-1) (Inr (22, length ?shm + 5)) ?io2 = Inr (tc2, ?e)"
      "tdigest tc2 = WC_SHA256" "R (thash tc2) mm" unfolding mm by blast
  have keys: "cert_hs_keys C tc2 ?e (H []) = (0, k)"
    using cert_hs_keys_eq [OF ok(1,2) s2(2,3), of ?e] by (simp add: k cert_keys_def hs_sched_def Let_def)
  note kl = hs_sched_len [OF ok(2), of "hkdf_extract C [] (replicate 32 0)" "H []" ?e "H mm", folded cert_keys_def, folded k]
  have ml: "length (M x y) = 32" for x y using ok(3) by (simp add: hmac_ok_def)
  have "length der + length sg \<le> 8107" using sz(2) scratch_min(3) [of B] by linarith
  then have dl: "length der < 65536" "length sg < 65536" by linarith+
  have g: "good_flight B P ?cp H (M (finished_key C (hk_sHs k))) mm spki bodies"
    unfolding bodies by (rule cert_flight_good) (use auth dl ml in simp_all)
  have fl: "length (flight_bytes bodies) = length der + length sg + 63" unfolding bodies by (rule length_cert_flight) (rule ml)
  let ?L0 = "flight_begin tc2 ?io2 ?acc ?leaf w2"
  have io2: "length ?io2 = ?ioCap" using sl(1) cap(3) by simp
  have fits: "length (flight_rest 0 bodies) \<le> 16384" "length (flight_rest 0 bodies) + 22 \<le> ?ioCap"
      "length (flight_rest 0 bodies) \<le> WN_HS_ACC_SZ B" "6 \<le> ?ioCap"
    unfolding flight_rest_0 fl using sz(2) cap(1) scratch_min [of B] by linarith+
  have "\<exists>L. flight_loop B C P ?cp k recv ?L0 = Some (Inr (), L) \<and> pend (fl_w L) = rest \<and> wire (fl_w L) = wire (fl_w ?L0) \<and>
      length (fl_io L) = ?ioCap \<and> flight_st_ok B P ?cp H R (M (hkdf_expand C 32 (hk_sHs k) ''finished'' [])) mm bodies (fl_st L)"
  proof (rule flight_loop_complete [where c = 1, OF ok(1-4) kl(3,6,7) ok(5) g [unfolded finished_key_def] fits])
    show "flight_st_ok B P ?cp H R (M (hkdf_expand C 32 (hk_sHs k) ''finished'' [])) mm [] (fl_st ?L0)"
      using s2(2,3) by (simp add: flight_begin_def flight_st_ok_def flight_bytes_def flight_facts_def flight_init_def)
  qed (use io2 cap(4) w2(2) in \<open>simp_all add: flight_begin_def flight_rest_0\<close>)
  then obtain L where L: "flight_loop B C P ?cp k recv ?L0 = Some (Inr (), L)" "pend (fl_w L) = rest" "wire (fl_w L) = wire w1"
      "length (fl_io L) = ?ioCap" "flight_st_ok B P ?cp H R (M (hkdf_expand C 32 (hk_sHs k) ''finished'' [])) mm bodies (fl_st L)"
    using w2(3) by (auto simp: flight_begin_def)
  have tcf: "tdigest (ft_tc (fl_st L)) = WC_SHA256" "R (thash (ft_tc (fl_st L))) m"
    using L(5) by (simp_all add: flight_st_ok_def m)
  let ?w = "\<lambda>io. io @ mem_put (fl_acc L) 0 (replicate (fl_accLen L) 0) @ ft_leaf (fl_st L)"
  have io58: "58 \<le> length (fl_io L)" using L(4) cap(1) scratch_min(1) [of B] by linarith
  obtain sess' io' w' where F: "client_finish C (ft_tc (fl_st L)) k (H []) send recv (fl_io L) ?w (fl_w L) = (0, sess', io', w')"
      "length io' = length (fl_io L)" "pend w' = pend (fl_w L)"
      "wire w' = wire (fl_w L) @ seal C (hk_cKey k) (hk_cIv k) 0 22 (hs_msg 20 (M (finished_key C (hk_cHs k)) (H m)))"
      "(0, sess') = wn_SessionEstablish C Client session_zero (hk_hs k) (H []) (replicate 32 0) (H m) (Some send) (Some recv)
        (?w io') (length (?w io'))"
    using client_finish_complete [where scr = ?w, OF ok tcf kl(1,2,4,5) io58] unfolding finished_key_def by blast
  have min: "\<not> length scr < WN_CERT_SCRATCH_MIN B" using sz(1) by simp
  have impl: "wn_connect_cert_impl B C P X tc0 ks0 sess rng (Some send) (Some recv) w (Some anchor) scr name pin now =
      Some (0, sess', rng1, w', ?w io')"
    unfolding wn_connect_cert_impl_def Let_def option.sel
    by (simp add: min hello(1) w2(1) s2(1) keys L(1) F(1) alert_on_def WOLFNANO_SUCCESS_def del: rec_bytes.simps)
  have "WN_CERT_IO_MIN B \<le> length (?w io')" using F(2) L(4) cap(1) by simp
  then show ?thesis using impl F(3-5) L(2,3) by (intro exI conjI) (assumption | simp)+
qed
end
