(* ===== verification/CertHandshake.thy ===== *)
theory CertHandshake
  imports ConnectRun
begin

section \<open>A certificate handshake between the two drivers\<close>

text \<open>
  The client driver and the server driver of one build, each over its own reliable transport,
  connected by what they send: they finish, and leave sessions that read each other's records.
\<close>

lemma pair_signs:
  assumes "wn_X509_Parse B (Some der) = Inr c" "spki = octets der (c_spki c) (c_spkiLen c)"
    "signing_pair B X P scheme keyDer (octets der (c_pubKey c) (c_pubKeyLen c)) spki lim"
    "wn_SchemeKeyOk scheme (c_keyAlg c) (c_curve c)"
  shows "signs B X P scheme keyDer spki lim"
  unfolding signs_def using cv_signed [OF assms] by blast

lemma offers_scheme: "wn_ClientHello_HasSigAlg (Some (sig_bytes B)) scheme = (scheme \<in> set (sig_alg_list B))"
  by (simp add: wn_ClientHello_HasSigAlg_def sig_bytes_loop)

text \<open>The octets of the two directions, fixed before either side runs.\<close>

lemma cert_handshake_run:
  assumes ok: "sha256_ok C H R" "kdf_ok C" "hmac_ok C M" "aead_ok C"
    and net: "duplex csend crecv cpend cwire" "duplex ssend srecv spend swire"
    and X: "rng_ok X good" "kex_ok X good" "good rc" "good rs" "fst (snd (wc_RNG_GenerateBlock X rs 32)) \<noteq> wn_hrr_random"
    and cert: "wn_X509_Parse B (Some der) = Inr c" "spki = octets der (c_spki c) (c_spkiLen c)"
      "signing_pair B X P scheme keyDer (octets der (c_pubKey c) (c_pubKeyLen c)) spki lim"
      "wn_SchemeKeyOk scheme (c_keyAlg c) (c_curve c)" "scheme \<in> set (sig_alg_list B)"
    and trust: "wn_VerifyChain B P [der] anchor (WN_LEAF_SPKI_SZ B) name pin now = Inr spki" "sni_ok name"
    and sz: "WN_CERT_SCRATCH_MIN B \<le> length cscr" "length cscr < 2147483648" "4096 \<le> length sscr" "length sscr < 2147483648"
      "length der + lim + 85 \<le> length sscr div 2" "length der + lim + 85 \<le> WN_CERT_IO_MIN B"
  shows "\<exists>cw sw. \<forall>wc ws. cpend wc = sw \<longrightarrow> spend ws = cw \<longrightarrow>
    (\<exists>sessc rc' wc' cscr' sesss rs' ws' sscr'.
       wn_connect_cert_impl B C P X tc0 ks0 sess0 rc (Some csend) (Some crecv) wc (Some anchor) cscr name pin now =
         Some (0, sessc, rc', wc', cscr') \<and>
       wn_Accept_Cert_ex B C X tc1 ks1 sess1 rs (Some ssend) (Some srecv) ws (Some der) (Some keyDer) scheme sscr =
         Some (0, sesss, rs', ws', sscr') \<and>
       cwire wc' = cwire wc @ cw \<and> cpend wc' = [] \<and> swire ws' = swire ws @ sw \<and> spend ws' = [] \<and>
       open_session 4074 sessc \<and> open_session 2026 sesss \<and> in_sync sessc sesss \<and> in_sync sesss sessc \<and>
       cSeq sessc = 0 \<and> cSeq sesss = 0)"
proof -
  have sc: "2000 \<le> length cscr" "length der + lim + 63 \<le> 16384"
    using sz(1,6) scratch_min [of B] by (auto simp: WN_CERT_SCRATCH_MIN_def)
  obtain rnd sid c0 r1 n c1 r1' pub' tc cscr1 where A: "length rnd = 32" "length sid = 32" "ks_group c0 = WN_DEFAULT_GROUP B" "good r1"
      "wn_KeyShare_Generate B X c0 r1 (replicate (WN_DEFAULT_PUB_SZ B) 0) = (Inr n, c1, r1', pub')"
      "tdigest tc = WC_SHA256" "R (thash tc) (ch_msg (ch_body rnd sid (ch_exts B name (take n pub'))))" "length cscr1 = length cscr"
    and A': "\<And>w. \<exists>w1. cert_client_hello B C X tc0 ks0 rc csend w cscr name =
          Inr (\<lparr>ho_tc = tc, ho_ks = c1, ho_sid = sid, ho_emptyHash = H []\<rparr>, r1', w1, cscr1) \<and>
        cwire w1 = cwire w @ rec_bytes (Frag (ch_msg (ch_body rnd sid (ch_exts B name (take n pub'))))) @ rec_bytes Ccs \<and> cpend w1 = cpend w"
    using cert_client_hello_complete [OF ok(1) X(1,2,3) net(1) trust(2) sc(1) sz(2), where B = B and ?tc0.0 = tc0 and ?ks0.0 = ks0] unfolding Let_def by blast
  define chm where "chm = ch_msg (ch_body rnd sid (ch_exts B name (take n pub')))"
  note A = A [folded chm_def] and A' = A' [folded chm_def]
  note sg = pair_signs [OF cert(1-4)]
  have off: "wn_ClientHello_HasSigAlg (Some (sig_bytes B)) scheme" using cert(5) by (simp add: offers_scheme)
  obtain srnd srvPub ecdhe out sg where S: "srnd = fst (snd (wc_RNG_GenerateBlock X rs 32))" "length srnd = 32"
      "length srvPub = WN_DEFAULT_SRV_SHARE_SZ B" "length sg \<le> lim"
      "wn_KeyShare_Shared B X c1 (Some srvPub) (replicate (WN_DEFAULT_SECRET_SZ B) 0) = (Inr (WN_DEFAULT_SECRET_SZ B), out)"
      "take (WN_DEFAULT_SECRET_SZ B) out = ecdhe"
      "wn_CertVerify B P scheme spki (H ((chm @ cert_sh B srnd sid srvPub) @ flight_bytes [[0, 0], cert_body der])) sg = Inr ()"
    and S': "let mm = chm @ cert_sh B srnd sid srvPub; k = cert_keys C H ecdhe mm;
        bodies = cert_flight H (M (finished_key C (hk_sHs k))) mm der scheme sg; m = mm @ flight_bytes bodies in
      \<forall>c. \<exists>sess' r' scr'. runs spend swire (accept_cert_steps B C X tc1 ks1 sess1 ssend srecv der keyDer scheme (length sscr div 2)) rs sscr sess' r' scr'
        (rec_bytes (Frag chm) @ concat (replicate c (rec_bytes Ccs)) @
         seal C (hk_cKey k) (hk_cIv k) 0 22 (hs_msg 20 (M (finished_key C (hk_cHs k)) (H m))))
        (rec_bytes (Frag (cert_sh B srnd sid srvPub)) @ rec_bytes Ccs @ seal C (hk_sKey k) (hk_sIv k) 0 22 (flight_bytes bodies)) \<and>
      length scr' = length sscr \<and>
      (0, sess') = wn_SessionEstablish C Server sess1 (hk_hs k) (H []) (replicate 32 0) (H m) (Some ssend) (Some srecv) scr' (length sscr)"
    using accept_cert_steps_runs [OF ok net(2) X(1,2,4) A(4,3,5,1,2) trust(2) chm_def sg off sz(3-5) sc(2), where ?tc0.0 = tc1 and ?ks0.0 = ks1 and sess = sess1]
    unfolding Let_def by blast
  define mm where "mm = chm @ cert_sh B srnd sid srvPub"
  define k where "k = cert_keys C H ecdhe mm"
  define bodies where "bodies = cert_flight H (M (finished_key C (hk_sHs k))) mm der scheme sg"
  define m where "m = mm @ flight_bytes bodies"
  let ?fin = "seal C (hk_cKey k) (hk_cIv k) 0 22 (hs_msg 20 (M (finished_key C (hk_cHs k)) (H m)))"
  let ?cw = "rec_bytes (Frag chm) @ rec_bytes Ccs @ ?fin"
  let ?sw = "rec_bytes (Frag (cert_sh B srnd sid srvPub)) @ rec_bytes Ccs @ seal C (hk_sKey k) (hk_sIv k) 0 22 (flight_bytes bodies)"
  have "\<exists>sess' r' scr'. runs spend swire (accept_cert_steps B C X tc1 ks1 sess1 ssend srecv der keyDer scheme (length sscr div 2)) rs sscr sess' r' scr'
      ?cw ?sw \<and> length scr' = length sscr \<and>
      (0, sess') = wn_SessionEstablish C Server sess1 (hk_hs k) (H []) (replicate 32 0) (H m) (Some ssend) (Some srecv) scr' (length sscr)"
    using S' [unfolded Let_def, rule_format, of 1, folded mm_def, folded k_def, folded bodies_def, folded m_def] by (simp del: rec_bytes.simps)
  then obtain sesss rs' sscr' where V: "runs spend swire (accept_cert_steps B C X tc1 ks1 sess1 ssend srecv der keyDer scheme (length sscr div 2))
        rs sscr sesss rs' sscr' ?cw ?sw" "length sscr' = length sscr"
      "wn_SessionEstablish C Server sess1 (hk_hs k) (H []) (replicate 32 0) (H m) (Some ssend) (Some srecv) sscr' (length sscr) = (0, sesss)"
    by metis
  have kl: "length (hk_hs k) = 32" using hs_sched_len(1) [OF ok(2)] by (simp add: k_def cert_keys_def)
  have hl: "length (H x) = 32" for x using ok(1) by (simp add: sha256_ok_def)
  have szc: "length der + length sg + 85 \<le> WN_CERT_IO_MIN B" using S(4) sz(6) by simp
  have hrr: "srnd \<noteq> wn_hrr_random" using S(1) X(5) by simp
  show ?thesis
  proof (rule exI [of _ ?cw], rule exI [of _ ?sw], intro allI impI)
    fix wc ws
    assume wc: "cpend wc = ?sw" and ws: "spend ws = ?cw"
    obtain w1 where w1: "cert_client_hello B C X tc0 ks0 rc csend wc cscr name =
          Inr (\<lparr>ho_tc = tc, ho_ks = c1, ho_sid = sid, ho_emptyHash = H []\<rparr>, r1', w1, cscr1)"
        "cwire w1 = cwire wc @ rec_bytes (Frag chm) @ rec_bytes Ccs" "cpend w1 = cpend wc" using A' by blast
    have pd: "cpend w1 = rec_bytes (Frag (cert_sh B srnd sid srvPub)) @ rec_bytes Ccs @
        seal C (hk_sKey k) (hk_sIv k) 0 22 (flight_bytes bodies) @ []" using w1(3) wc by (simp del: rec_bytes.simps)
    have kd: "k = cert_keys C H (take (WN_DEFAULT_SECRET_SZ B) out) mm" by (simp only: k_def S(6))
    obtain sessc wc' cscr' scrf where I: "wn_connect_cert_impl B C P X tc0 ks0 sess0 rc (Some csend) (Some crecv) wc (Some anchor) cscr name pin now =
        Some (0, sessc, r1', wc', cscr')" "cpend wc' = []"
        "cwire wc' = cwire w1 @ ?fin"
        "(0, sessc) = wn_SessionEstablish C Client session_zero (hk_hs k) (H []) (replicate 32 0) (H m) (Some csend) (Some crecv) scrf (length scrf)"
        "WN_CERT_IO_MIN B \<le> length scrf"
      using connect_cert_impl_runs [OF ok net(1) w1(1) A(6,7,8,2) sz(1) szc S(2) hrr S(3,5) mm_def kd bodies_def m_def trust(1)
          S(7) [folded mm_def] pd, of sess0] by blast
    obtain ws' where J: "accept_cert_steps B C X tc1 ks1 sess1 ssend srecv der keyDer scheme (length sscr div 2) \<lparr>e_rng = rs, e_w = ws, e_scr = sscr\<rparr> =
        Some (Inr sesss, \<lparr>e_rng = rs', e_w = ws', e_scr = sscr'\<rparr>)" "spend ws' = []" "swire ws' = swire ws @ ?sw"
      using runsD [OF V(1), of ws "[]"] ws by (auto simp del: rec_bytes.simps)
    have acc: "wn_Accept_Cert_ex B C X tc1 ks1 sess1 rs (Some ssend) (Some srecv) ws (Some der) (Some keyDer) scheme sscr =
         Some (0, sesss, rs', ws', sscr')"
      using sz(3) J(1) by (simp add: wn_Accept_Cert_ex_def accept_result_def WOLFNANO_SUCCESS_def)
    have cap: "4074 + 22 \<le> length scrf" "2026 + 22 \<le> length sscr" "length sscr \<le> length sscr'"
      using I(5) scratch_min(1) [of B] sz(3) V(2) by linarith+
    note E = established_open [OF ok(2) kl hl hl cap(1) order_refl I(4) [symmetric]]
      established_open [OF ok(2) kl hl hl cap(2,3) V(3)] established_in_sync [OF ok(2) kl hl hl I(4) [symmetric] V(3)]
    show "\<exists>sessc rc' wc' cscr' sesss rs' ws' sscr'.
       wn_connect_cert_impl B C P X tc0 ks0 sess0 rc (Some csend) (Some crecv) wc (Some anchor) cscr name pin now =
         Some (0, sessc, rc', wc', cscr') \<and>
       wn_Accept_Cert_ex B C X tc1 ks1 sess1 rs (Some ssend) (Some srecv) ws (Some der) (Some keyDer) scheme sscr =
         Some (0, sesss, rs', ws', sscr') \<and>
       cwire wc' = cwire wc @ ?cw \<and> cpend wc' = [] \<and> swire ws' = swire ws @ ?sw \<and> spend ws' = [] \<and>
       open_session 4074 sessc \<and> open_session 2026 sesss \<and> in_sync sessc sesss \<and> in_sync sesss sessc \<and>
       cSeq sessc = 0 \<and> cSeq sesss = 0"
      by (intro exI [of _ sessc] exI [of _ r1'] exI [of _ wc'] exI [of _ cscr'] exI [of _ sesss] exI [of _ rs'] exI [of _ ws'] exI [of _ sscr'])
        (simp only: I(1-3) acc w1(2) J(2,3) E append_assoc simp_thms)
  qed
qed

subsection \<open>Properties\<close>

text \<open>C1. A certificate handshake completes: over reliable transports, a server with a certificate and key that belong
  together, in a scheme the client offers, and a client that trusts the certificate for the host or the
  pin exchange octets after which both drivers return success, all input consumed, with open
  sessions at counter zero that are in step in both directions.\<close>

theorem cert_handshake_completes:
  assumes "sha256_ok C H R" "kdf_ok C" "hmac_ok C M" "aead_ok C"
    and "duplex csend crecv cpend cwire" "duplex ssend srecv spend swire"
    and "rng_ok X good" "kex_ok X good" "good rc" "good rs" "fst (snd (wc_RNG_GenerateBlock X rs 32)) \<noteq> wn_hrr_random"
    and "wn_X509_Parse B (Some der) = Inr c" "spki = octets der (c_spki c) (c_spkiLen c)"
      "signing_pair B X P scheme keyDer (octets der (c_pubKey c) (c_pubKeyLen c)) spki lim"
      "wn_SchemeKeyOk scheme (c_keyAlg c) (c_curve c)" "scheme \<in> set (sig_alg_list B)"
    and "wn_VerifyChain B P [der] anchor (WN_LEAF_SPKI_SZ B) name pin now = Inr spki" "sni_ok name" "name \<noteq> None \<or> pin \<noteq> None"
    and "WN_CERT_SCRATCH_MIN B \<le> length cscr" "length cscr < 2147483648" "4096 \<le> length sscr" "length sscr < 2147483648"
      "length der + lim + 85 \<le> length sscr div 2" "length der + lim + 85 \<le> WN_CERT_IO_MIN B"
  shows "\<exists>cw sw. \<forall>wc ws. cpend wc = sw \<longrightarrow> spend ws = cw \<longrightarrow>
    (\<exists>sessc rc' wc' cscr' sesss rs' ws' sscr'.
       wn_Connect_CertName_ex B C P X tc0 ks0 sess0 rc (Some csend) (Some crecv) wc (Some anchor) name pin cscr now =
         Some (0, sessc, rc', wc', cscr') \<and>
       wn_Accept_Cert_ex B C X tc1 ks1 sess1 rs (Some ssend) (Some srecv) ws (Some der) (Some keyDer) scheme sscr =
         Some (0, sesss, rs', ws', sscr') \<and>
       cwire wc' = cwire wc @ cw \<and> cpend wc' = [] \<and> swire ws' = swire ws @ sw \<and> spend ws' = [] \<and>
       open_session 4074 sessc \<and> open_session 2026 sesss \<and> in_sync sessc sesss \<and> in_sync sesss sessc \<and>
       cSeq sessc = 0 \<and> cSeq sesss = 0)"
proof -
  have "wn_Connect_CertName_ex B C P X tc0 ks0 sess0 rc (Some csend) (Some crecv) wc (Some anchor) name pin cscr now =
      wn_connect_cert_impl B C P X tc0 ks0 sess0 rc (Some csend) (Some crecv) wc (Some anchor) cscr name pin now" for wc
    using assms(19) by (auto simp: wn_Connect_CertName_ex_def)
  then show ?thesis
    using cert_handshake_run [OF assms(1-18,20-25), where ?tc0.0 = tc0 and ?tc1.0 = tc1 and ?ks0.0 = ks0 and ?ks1.0 = ks1 and
        ?sess0.0 = sess0 and ?sess1.0 = sess1] by (simp only:)
qed

text \<open>The concrete providers and the sample certificate, pinned as its own anchor.\<close>

lemma toy_rng_ok: "rng_ok toy_kx (\<lambda>r. True)"
  by (simp add: rng_ok_def toy_kx_simps)

definition toy_tc :: "bytes transcript" where
  "toy_tc = \<lparr>thash = [], tdigest = WC_SHA256\<rparr>"

definition toy_ks :: "bytes keyshare" where
  "toy_ks = \<lparr>ks_hybrid = no_hybrid, ks_key = [], ks_group = 0\<rparr>"

lemma sample_server:
  "fst (snd (wc_RNG_GenerateBlock toy_kx 7 32)) \<noteq> wn_hrr_random"
  "signing_pair toy_build toy_kx toy_pk 0x0403 [4, 9] (octets sample_cert (c_pubKey sample_parsed) (c_pubKeyLen sample_parsed)) sample_spki 6"
  "wn_SchemeKeyOk 0x0403 (c_keyAlg sample_parsed) (c_curve sample_parsed)" "0x0403 \<in> set (sig_alg_list toy_build)"
  "wn_VerifyChain toy_build toy_pk [sample_cert] sample_cert (WN_LEAF_SPKI_SZ toy_build) (Some [0x41, 0x2E, 0x62]) (Some sample_spki) 1800000000 =
    Inr sample_spki"
proof -
  have "octets sample_cert (c_pubKey sample_parsed) (c_pubKeyLen sample_parsed) = [4, 9]"
    by (simp add: sample_parsed_def octets_def slice_def sample_cert_def)
  then show "signing_pair toy_build toy_kx toy_pk 0x0403 [4, 9] (octets sample_cert (c_pubKey sample_parsed) (c_pubKeyLen sample_parsed)) sample_spki 6"
    by (simp add: toy_pair)
  show "wn_VerifyChain toy_build toy_pk [sample_cert] sample_cert (WN_LEAF_SPKI_SZ toy_build) (Some [0x41, 0x2E, 0x62]) (Some sample_spki) 1800000000 =
      Inr sample_spki"
  proof -
    have "WN_LEAF_SPKI_SZ toy_build = 1024" by (simp add: WN_LEAF_SPKI_SZ_def toy_build_def)
    then show ?thesis using VerifyChain_iff(1) [OF toy_rsa_ok] sample_accepted by simp
  qed
  have "hd (fst (snd (wc_RNG_GenerateBlock toy_kx 7 32))) \<noteq> hd wn_hrr_random" by (simp add: toy_kx_simps wn_hrr_random_def)
  then show "fst (snd (wc_RNG_GenerateBlock toy_kx 7 32)) \<noteq> wn_hrr_random" by metis
qed (simp_all add: sample_parsed_def wn_SchemeKeyOk_def sig_alg_list_def toy_build_def)

lemma sample_sizes:
  "WN_CERT_SCRATCH_MIN toy_build \<le> length (replicate 11264 (0 :: byte))" "length sample_cert + 6 + 85 \<le> length (replicate 4096 (0 :: byte)) div 2"
  "length sample_cert + 6 + 85 \<le> WN_CERT_IO_MIN toy_build" "sni_ok (Some [0x41, 0x2E, 0x62])"
  "sample_spki = octets sample_cert (c_spki sample_parsed) (c_spkiLen sample_parsed)"
  by (simp_all add: WN_CERT_SCRATCH_MIN_def WN_CERT_IO_MIN_def WN_HS_ACC_SZ_def WN_LEAF_SPKI_SZ_def toy_build_def sample_cert_def sni_ok_def sample_spki_def)

theorem cert_handshake_completes_witness:
  "\<exists>cw sw sessc rc' wc' cscr' sesss rs' ws' sscr'.
     wn_Connect_CertName_ex toy_build toy_provider toy_pk toy_kx toy_tc toy_ks session_zero 1 (Some pipe_send) (Some pipe_recv) (sw, [])
       (Some sample_cert) (Some [0x41, 0x2E, 0x62]) (Some sample_spki) (replicate 11264 0) 1800000000 = Some (0, sessc, rc', wc', cscr') \<and>
     wn_Accept_Cert_ex toy_build toy_provider toy_kx toy_tc toy_ks session_zero 7 (Some pipe_send) (Some pipe_recv) (cw, [])
       (Some sample_cert) (Some [4, 9]) 0x0403 (replicate 4096 0) = Some (0, sesss, rs', ws', sscr') \<and>
     snd wc' = cw \<and> snd ws' = sw \<and> in_sync sessc sesss \<and> in_sync sesss sessc"
proof -
  have "\<exists>cw sw. \<forall>wc ws. fst wc = sw \<longrightarrow> fst ws = cw \<longrightarrow>
    (\<exists>sessc rc' wc' cscr' sesss rs' ws' sscr'.
       wn_Connect_CertName_ex toy_build toy_provider toy_pk toy_kx toy_tc toy_ks session_zero 1 (Some pipe_send) (Some pipe_recv) wc
         (Some sample_cert) (Some [0x41, 0x2E, 0x62]) (Some sample_spki) (replicate 11264 0) 1800000000 = Some (0, sessc, rc', wc', cscr') \<and>
       wn_Accept_Cert_ex toy_build toy_provider toy_kx toy_tc toy_ks session_zero 7 (Some pipe_send) (Some pipe_recv) ws
         (Some sample_cert) (Some [4, 9]) 0x0403 (replicate 4096 0) = Some (0, sesss, rs', ws', sscr') \<and>
       snd wc' = snd wc @ cw \<and> fst wc' = [] \<and> snd ws' = snd ws @ sw \<and> fst ws' = [] \<and>
       open_session 4074 sessc \<and> open_session 2026 sesss \<and> in_sync sessc sesss \<and> in_sync sesss sessc \<and>
       cSeq sessc = 0 \<and> cSeq sesss = 0)"
    by (rule cert_handshake_completes [OF toy_sha256_ok toy_kdf_ok toy_hmac_ok toy_aead_ok pipe_duplex pipe_duplex toy_rng_ok toy_kex_ok
          TrueI TrueI sample_server(1) parse_sample sample_sizes(5) sample_server(2-5) sample_sizes(4) _ sample_sizes(1) _ _ _ sample_sizes(2,3)]) simp_all
  then obtain cw sw where run: "\<forall>wc ws. fst wc = sw \<longrightarrow> fst ws = cw \<longrightarrow>
    (\<exists>sessc rc' wc' cscr' sesss rs' ws' sscr'.
       wn_Connect_CertName_ex toy_build toy_provider toy_pk toy_kx toy_tc toy_ks session_zero 1 (Some pipe_send) (Some pipe_recv) wc
         (Some sample_cert) (Some [0x41, 0x2E, 0x62]) (Some sample_spki) (replicate 11264 0) 1800000000 = Some (0, sessc, rc', wc', cscr') \<and>
       wn_Accept_Cert_ex toy_build toy_provider toy_kx toy_tc toy_ks session_zero 7 (Some pipe_send) (Some pipe_recv) ws
         (Some sample_cert) (Some [4, 9]) 0x0403 (replicate 4096 0) = Some (0, sesss, rs', ws', sscr') \<and>
       snd wc' = snd wc @ cw \<and> fst wc' = [] \<and> snd ws' = snd ws @ sw \<and> fst ws' = [] \<and>
       open_session 4074 sessc \<and> open_session 2026 sesss \<and> in_sync sessc sesss \<and> in_sync sesss sessc \<and>
       cSeq sessc = 0 \<and> cSeq sesss = 0)" by blast
  show ?thesis
    using run [rule_format, of "(sw, [])" "(cw, [])", unfolded fst_conv snd_conv append_Nil] by blast
qed

text \<open>A run that the authentication theorem of theory ClientConnect applies to.\<close>

lemma toy_client_connects:
  "\<exists>sw sess' rng' w' scr'.
     wn_connect_cert_impl toy_build toy_provider toy_pk toy_kx toy_tc toy_ks session_zero 1 (Some pipe_send) (Some pipe_recv) (sw, [])
       (Some sample_cert) (replicate 11264 0) (Some [0x41, 0x2E, 0x62]) (Some sample_spki) 1800000000 = Some (0, sess', rng', w', scr')"
proof -
  have "\<exists>cw sw. \<forall>wc (ws :: bytes \<times> bytes). fst wc = sw \<longrightarrow> fst ws = cw \<longrightarrow>
    (\<exists>sessc rc' wc' cscr' sesss rs' ws' sscr'.
       wn_connect_cert_impl toy_build toy_provider toy_pk toy_kx toy_tc toy_ks session_zero 1 (Some pipe_send) (Some pipe_recv) wc
         (Some sample_cert) (replicate 11264 0) (Some [0x41, 0x2E, 0x62]) (Some sample_spki) 1800000000 = Some (0, sessc, rc', wc', cscr') \<and>
       wn_Accept_Cert_ex toy_build toy_provider toy_kx toy_tc toy_ks session_zero 7 (Some pipe_send) (Some pipe_recv) ws
         (Some sample_cert) (Some [4, 9]) 0x0403 (replicate 4096 0) = Some (0, sesss, rs', ws', sscr') \<and>
       snd wc' = snd wc @ cw \<and> fst wc' = [] \<and> snd ws' = snd ws @ sw \<and> fst ws' = [] \<and>
       open_session 4074 sessc \<and> open_session 2026 sesss \<and> in_sync sessc sesss \<and> in_sync sesss sessc \<and>
       cSeq sessc = 0 \<and> cSeq sesss = 0)"
    by (rule cert_handshake_run [OF toy_sha256_ok toy_kdf_ok toy_hmac_ok toy_aead_ok pipe_duplex pipe_duplex toy_rng_ok toy_kex_ok
          TrueI TrueI sample_server(1) parse_sample sample_sizes(5) sample_server(2-5) sample_sizes(4) sample_sizes(1) _ _ _ sample_sizes(2,3)]) simp_all
  then obtain cw sw where run: "\<forall>wc (ws :: bytes \<times> bytes). fst wc = sw \<longrightarrow> fst ws = cw \<longrightarrow>
    (\<exists>sessc rc' wc' cscr'.
       wn_connect_cert_impl toy_build toy_provider toy_pk toy_kx toy_tc toy_ks session_zero 1 (Some pipe_send) (Some pipe_recv) wc
         (Some sample_cert) (replicate 11264 0) (Some [0x41, 0x2E, 0x62]) (Some sample_spki) 1800000000 = Some (0, sessc, rc', wc', cscr'))"
    by meson
  show ?thesis
    using run [rule_format, of "(sw, [])" "(cw, [])", unfolded fst_conv, OF refl refl] by blast
qed

theorem connect_cert_authenticates_witness:
  "\<exists>sw sess' rng' w' scr' shm sh hs m0 eb cb vb fb.
     wn_connect_cert_impl toy_build toy_provider toy_pk toy_kx toy_tc toy_ks session_zero 1 (Some pipe_send) (Some pipe_recv) (sw, [])
       (Some sample_cert) (replicate 11264 0) (Some [0x41, 0x2E, 0x62]) (Some sample_spki) 1800000000 = Some (0, sess', rng', w', scr') \<and>
     wn_ServerHello_Parse (Some shm) = Inr sh \<and>
     server_proves toy_build toy_provider toy_pk toy_hash (\<lambda>k m. toy_hash (m @ k))
       \<lparr>cp_anchor = sample_cert, cp_name = Some [0x41, 0x2E, 0x62], cp_pin = Some sample_spki, cp_now = 1800000000\<rparr>
       (hkdf_expand toy_provider 32 hs ''s hs traffic'' (toy_hash m0)) m0 eb cb vb fb \<and>
     sess_established sess'"
proof -
  obtain sw sess' rng' w' scr' where run:
    "wn_connect_cert_impl toy_build toy_provider toy_pk toy_kx toy_tc toy_ks session_zero 1 (Some pipe_send) (Some pipe_recv) (sw, [])
       (Some sample_cert) (replicate 11264 0) (Some [0x41, 0x2E, 0x62]) (Some sample_spki) 1800000000 = Some (0, sess', rng', w', scr')"
    using toy_client_connects by blast
  from connect_cert_authenticates [OF toy_sha256_ok toy_kdf_ok toy_hmac_ok toy_rsa_ok run] run show ?thesis by fast
qed

end
