(* ===== verification/PskHandshake.thy ===== *)
theory PskHandshake
  imports AcceptPsk CertHandshake
begin

section \<open>A PSK handshake, both sides\<close>

text \<open>
  The PSK driver of the client run against the server's of theory AcceptPsk: the two drivers over
  reliable transports complete the handshake with sessions that are in step.
\<close>

subsection \<open>The client's side\<close>

lemma max_pub: "WN_KEYSHARE_MAX_PUB B = WN_DEFAULT_PUB_SZ B"
  by (cases "b_kex B") (simp_all add: WN_KEYSHARE_MAX_PUB_def WN_DEFAULT_PUB_SZ_def)

lemma psk_init_runs:
  assumes "sha256_ok C H R" "rng_ok X good" "kex_ok X good" "good r"
  shows "\<exists>rnd sid c0 r1 n c1 r1' pub' tc. length rnd = 32 \<and> length sid = 32 \<and> ks_group c0 = WN_DEFAULT_GROUP B \<and> good r1 \<and>
    wn_KeyShare_Generate B X c0 r1 (replicate (WN_DEFAULT_PUB_SZ B) 0) = (Inr n, c1, r1', pub') \<and>
    length (take n pub') = WN_DEFAULT_PUB_SZ B \<and> tdigest tc = WC_SHA256 \<and> R (thash tc) [] \<and>
    runs pend wire (psk_init B C X tc0 ks0) r scr (rnd, take n pub', \<lparr>ho_tc = tc, ho_ks = c1, ho_sid = sid, ho_emptyHash = H []\<rparr>) r1' scr [] []"
proof -
  obtain rnd ra where a: "wc_RNG_GenerateBlock X r 32 = (0, rnd, ra)" "length rnd = 32" "good ra" by (rule rng_run [OF assms(2,4)])
  obtain sid rb where b: "wc_RNG_GenerateBlock X ra 32 = (0, sid, rb)" "length sid = 32" "good rb" by (rule rng_run [OF assms(2) a(3)])
  obtain c0 where c0: "wn_KeyShare_Init B X (ks_hybrid ks0) ks0 (WN_DEFAULT_GROUP B) = (Inr (), c0)" "ks_group c0 = WN_DEFAULT_GROUP B"
    using Init_ok [OF assms(3)] by metis
  have "agrees B X c0 c0 rb rb (replicate (WN_DEFAULT_PUB_SZ B) 0) (replicate (WN_DEFAULT_SRV_SHARE_SZ B) 0)
      (replicate (WN_DEFAULT_SECRET_SZ B) 0) (replicate (WN_DEFAULT_SECRET_SZ B) 0)"
    by (rule agrees_any [OF assms(3) b(3,3) c0(2,2)]) simp_all
  then obtain c1 rc pub' m s' r' srv sec where G: "wn_KeyShare_Generate B X c0 rb (replicate (WN_DEFAULT_PUB_SZ B) 0) = (Inr (WN_DEFAULT_PUB_SZ B), c1, rc, pub')"
      "wn_KeyShare_ServerShare B X c0 rb (Some (take (WN_DEFAULT_PUB_SZ B) pub')) (replicate (WN_DEFAULT_SRV_SHARE_SZ B) 0)
      (replicate (WN_DEFAULT_SECRET_SZ B) 0) = (Inr m, s', r', srv, sec)"
    unfolding agrees_def by blast
  have pl: "length (take (WN_DEFAULT_PUB_SZ B) pub') = WN_DEFAULT_PUB_SZ B" by (rule accepted_sizes(2) [OF G(2)])
  obtain tc where t: "wn_Transcript_Init C tc0 WC_SHA256 = (0, tc)" "tdigest tc = WC_SHA256" "R (thash tc) []"
    using Transcript_Init_ok [OF assms(1), of tc0] by (cases "wn_Transcript_Init C tc0 WC_SHA256") (auto simp: tr_absorbed_def)
  have e: "wc_Sha256Hash C [] = (0, H [])" using assms(1) by (simp add: sha256_ok_def)
  have "runs pend wire (psk_init B C X tc0 ks0) r scr
      (rnd, take (WN_DEFAULT_PUB_SZ B) pub', \<lparr>ho_tc = tc, ho_ks = c1, ho_sid = sid, ho_emptyHash = H []\<rparr>) rc scr [] []"
    unfolding psk_init_def e prod.case max_pub
    apply (simp only: crypt_def guardE_def simp_thms if_True)
    apply (rule runs_pure)
    apply (rule runs_rng [where ?r1.0 = rb and x = "(rnd, sid)"])
    subgoal by (simp add: a(1) b(1) crypt_def)
    apply (unfold prod.case c0(1))
    apply (rule runs_codeE [OF refl])
    apply (rule runs_rng [where ?r1.0 = rc and x = "(c1, take (WN_DEFAULT_PUB_SZ B) pub')"])
    subgoal by (simp add: G(1) codeE_def)
    apply (unfold prod.case)
    apply (rule runs_okI [OF t(1)])
    apply (rule runs_ret)
    done
  then show ?thesis using a(2) b(2,3) c0(2) G(1) pl t(2,3) by blast
qed

lemma psk_client_hello_runs:
  assumes ok: "sha256_ok C H R" "kdf_ok C" "hmac_ok C M" "duplex send recv pend wire"
    and ho: "tdigest (ho_tc ho) = WC_SHA256" "R (thash (ho_tc ho)) []" "ho_emptyHash ho = H []" "length (ho_sid ho) = 32"
    and sz: "length rnd = 32" "length pub \<le> 1216" "length idn \<le> 255" "2000 \<le> length scr" "length scr < 2147483648"
    and chm: "chm = psk_hello B C H M psk idn rnd (ho_sid ho) pub"
  shows "\<exists>tc scr'. runs pend wire (psk_client_hello B C send psk idn rnd pub ho) r scr
      \<lparr>ho_tc = tc, ho_ks = ho_ks ho, ho_sid = ho_sid ho, ho_emptyHash = H [], po_early = hkdf_extract C [] psk\<rparr> r scr' []
      (rec_bytes (Frag chm) @ rec_bytes Ccs) \<and> tdigest tc = WC_SHA256 \<and> R (thash tc) chm \<and> length scr' = length scr"
proof -
  have hl: "length (H x) = 32" for x using ok(1) by (simp add: sha256_ok_def)
  have sh: "wc_Sha256Hash C x = (0, H x)" for x using ok(1) by (simp add: sha256_ok_def)
  have el: "length (hkdf_extract C [] psk) = 32" using ok(2) by simp
  have bl: "length (hkdf_expand C 32 (hkdf_extract C [] psk) ''ext binder'' (H [])) = 32" using ok(2) by simp
  let ?t = "psk_trunc B rnd (ho_sid ho) pub idn"
  let ?bnd = "psk_binder C H M psk ?t"
  have ml: "length ?bnd = 32" using ok(3) by (simp add: psk_binder_def hmac_ok_def)
  have mac: "wn_Tls13_FinishedMac C stack32 (Some (hkdf_expand C 32 (hkdf_extract C [] psk) ''ext binder'' (H []))) (Some (H ?t)) 32 WC_SHA256 = (0, ?bnd)"
    unfolding psk_binder_def by (rule FinishedMac_ok [OF ok(2,3) bl hl])
  note BH = psk_hello_built [OF sz(1) ho(4) sz(2-5), of B]
  obtain w where w: "build_client_hello B (wn_Writer_Init scr (length scr)) rnd (ho_sid ho) pub (WN_DEFAULT_GROUP B) idn = (w, length ?t, length ?t + 3)"
      "\<not> werr w" "\<not> woob w" "wlen w = length ?t + 35" "take (wlen w) (wbuf w) = psk_msg B rnd (ho_sid ho) pub idn (replicate 32 0)"
      "length (wbuf w) = length scr" using BH(1) by blast
  have fits: "length ?t + 35 \<le> length (wbuf w)" using BH(2) w(6) sz(4) by simp
  note put = psk_binder_put [OF w(5) [unfolded w(4)] refl ml fits]
  let ?scr = "mem_put (wbuf w) (length ?t + 3) ?bnd"
  have chm': "take (length ?t + 35) ?scr = chm" using put(1) chm by (simp add: psk_hello_def)
  have cl: "length chm = length ?t + 35" using ml by (simp add: chm psk_hello_def psk_msg_split)
  obtain tc where tc: "wn_Transcript_Update C (ho_tc ho) (Some chm) (length chm) = (0, tc)" "tdigest tc = WC_SHA256" "R (thash tc) ([] @ chm)"
    using sha256_update [OF ok(1) ho(1,2)] by blast
  have up: "wn_Transcript_Update C (ho_tc ho) (Some ?scr) (length ?t + 35) = (0, tc)"
    using tc(1) update_take [of C "ho_tc ho" "length ?t + 35" ?scr] unfolding chm' by simp
  have fw: "(case finish_w E_CRYPTO w of (res, buf) \<Rightarrow> (bindE res (\<lambda>chLen. Inr (chLen, length ?t, length ?t + 3)), buf)) =
      (Inr (length ?t + 35, length ?t, length ?t + 3), wbuf w)"
    using w(2-4) by (simp add: finish_w_def)
  have sm: "sends pend wire (\<lambda>w. send_plain_record send w 22 chm) () (rec_bytes (Frag chm))"
    unfolding client_copies using BH(2) cl by (intro sends_record [OF ok(4)]) simp
  have sc: "sends pend wire (send_ccs send) () (rec_bytes Ccs)"
    unfolding client_copies by (rule sends_ccs [OF ok(4)])
  let ?po = "\<lparr>ho_tc = tc, ho_ks = ho_ks ho, ho_sid = ho_sid ho, ho_emptyHash = H [], po_early = hkdf_extract C [] psk\<rparr>"
  have fin: "runs pend wire (bind_s (on_io (\<lambda>w. send_plain_record send w 22 chm)) (\<lambda>_. bind_s (on_io (send_ccs send)) (\<lambda>_. ret_s ?po))) r ?scr ?po r ?scr []
      (rec_bytes (Frag chm) @ rec_bytes Ccs)"
    by (rule runs_bind [OF runs_io [OF sm] runs_bind [OF runs_io [OF sc] runs_ret refl refl]]) (simp_all del: rec_bytes.simps)
  have "runs pend wire (psk_client_hello B C send psk idn rnd pub ho) r scr ?po r ?scr [] (rec_bytes (Frag chm) @ rec_bytes Ccs)"
    unfolding psk_client_hello_def ho(3) Extract_ok [OF ok(2)] DeriveSecret_ok [OF ok(2) el hl] sh prod.case or.right_neutral
    apply (rule runs_scr [where x = "(length ?t + 35, length ?t, length ?t + 3)" and ?scr1.0 = "wbuf w"])
    subgoal unfolding w(1) prod.case by (rule fw)
    apply (unfold prod.case)
    apply (rule runs_okI, rule refl)
    apply (rule runs_get, unfold env.select_convs put(2))
    apply (simp only: crypt_def guardE_def simp_thms if_True)
    apply (rule runs_pure)
    apply (rule runs_okI, rule mac)
    apply (unfold take_all [OF eq_refl [OF ml]])
    apply (rule runs_scr, rule refl)
    apply (rule runs_get, unfold env.select_convs chm')
    apply (rule runs_okI, rule up)
    apply (rule fin)
    done
  moreover have "length ?scr = length scr" using fits ml w(6) by simp
  ultimately show ?thesis using tc(2,3) by (intro exI [of _ tc] exI [of _ ?scr]) simp
qed


lemma psk_sh_parses:
  assumes "length srnd = 32" "srnd \<noteq> wn_hrr_random" "length sid = 32" "length srvPub = WN_DEFAULT_SRV_SHARE_SZ B"
  obtains sh where "wn_ServerHello_Parse (Some (psk_sh B srnd sid srvPub)) = Inr sh" "\<not> sh_isHelloRetry sh"
    "sh_acceptable B sid 0 (psk_sh B srnd sid srvPub) sh"
    "slice (the (sh_keyShare sh)) (sh_keyShareLen sh) (psk_sh B srnd sid srvPub) = srvPub"
    "psk_sh B srnd sid srvPub \<noteq> []" "length (psk_sh B srnd sid srvPub) \<le> 1400"
proof -
  let ?m = "psk_sh B srnd sid srvPub" and ?x = "sh_exts (WN_DEFAULT_GROUP B) srvPub True 0"
  have pl: "length srvPub \<le> 1216" unfolding assms(4) by (cases "b_kex B") (simp_all add: sizes)
  then have h: "length sid < 256" "length srvPub < 65000" using assms(3) by simp_all
  note P = server_hello_parses [OF assms(1,2) h, of "0x1301" "WN_DEFAULT_GROUP B" True 0, folded psk_sh_def]
  have len: "length ?m = 96 + length srvPub"
    using assms(1,3) by (simp add: psk_sh_def sh_msg_def sh_body_def sh_exts_def)
  have m: "?m = (2 # be24 (length (sh_body srnd sid 0x1301 ?x)) @ be16 0x0303 @ srnd @ [32]) @ sid @
      be16 0x1301 @ [0] @ be16 (of_nat (length ?x)) @ ?x"
    using assms(3) by (simp add: psk_sh_def sh_msg_def sh_body_def)
  have sid: "slice 39 32 ?m = sid" unfolding m by (rule slice_at) (use assms(1,3) in simp_all)
  define A where "A = (2 # be24 (length (sh_body srnd sid 0x1301 ?x)) @ be16 0x0303 @ srnd @ [32]) @ sid @ be16 0x1301 @ [0] @ be16 (of_nat (length ?x)) @
      be16 43 @ be16 2 @ be16 0x0304 @ be16 51 @ be16 (of_nat (4 + length srvPub)) @ be16 (WN_DEFAULT_GROUP B) @ be16 (of_nat (length srvPub))"
  have "?m = A @ srvPub @ be16 41 @ be16 2 @ be16 0"
    unfolding m A_def by (simp add: sh_exts_def)
  moreover have "length A = 90" using assms(1,3) by (simp add: A_def)
  ultimately have pub: "slice 90 (length srvPub) ?m = srvPub" by (simp add: slice_def)
  show thesis
    by (rule that [OF P]) (use assms(3,4) sid pub len pl in \<open>auto simp: sh_acceptable_def\<close>)
qed


lemma psk_server_hello_runs:
  assumes "sha256_ok C H R" "duplex send recv pend wire"
    and po: "tdigest (ho_tc po) = WC_SHA256" "R (thash (ho_tc po)) chm" "length (ho_sid po) = 32"
    and srv: "length srnd = 32" "srnd \<noteq> wn_hrr_random" "length srvPub = WN_DEFAULT_SRV_SHARE_SZ B"
      "wn_KeyShare_Shared B X (ho_ks po) (Some srvPub) (replicate (WN_DEFAULT_SECRET_SZ B) 0) = (Inr n, out)"
    and sz: "1500 \<le> length scr" and shm: "shm = psk_sh B srnd (ho_sid po) srvPub"
  shows "\<exists>tc scr'. runs pend wire (psk_server_hello B C X recv po) r scr (tc, take n out) r scr' (rec_bytes (Frag shm)) [] \<and>
    tdigest tc = WC_SHA256 \<and> R (thash tc) (chm @ shm) \<and> length scr' = length scr"
proof -
  obtain sh where sh: "wn_ServerHello_Parse (Some shm) = Inr sh" "\<not> sh_isHelloRetry sh" "sh_acceptable B (ho_sid po) 0 shm sh"
      "slice (the (sh_keyShare sh)) (sh_keyShareLen sh) shm = srvPub" "shm \<noteq> []" "length shm \<le> 1400"
    unfolding shm by (rule psk_sh_parses [OF srv(1,2) po(3) srv(3)])
  have sl: "length shm + 5 \<le> length scr" "length shm \<le> 16640" using sh(6) sz by linarith+
  let ?ho = "hello_out.truncate po" and ?scr = "mem_put scr 0 (rec_bytes (Frag shm))"
  have ho: "ho_tc ?ho = ho_tc po" "ho_sid ?ho = ho_sid po" "ho_ks ?ho = ho_ks po" by (simp_all add: hello_out.defs)
  have "\<exists>tc. on_server_hello B C X ?ho 0 (Inr (22, length shm + 5)) ?scr = Inr (tc, take n out) \<and>
      tdigest tc = WC_SHA256 \<and> R (thash tc) (chm @ shm)"
    by (rule on_server_hello_complete [OF assms(1) _ _ sh(1,2) _ _ sl(1)]) (use po sh(3,4) srv(4) ho in simp_all)
  then obtain tc where s: "on_server_hello B C X ?ho 0 (Inr (22, length shm + 5)) ?scr = Inr (tc, take n out)"
      "tdigest tc = WC_SHA256" "R (thash tc) (chm @ shm)" by blast
  have "runs pend wire (psk_server_hello B C X recv po) r scr (tc, take n out) r ?scr (rec_bytes (Frag shm)) []"
  proof (rule runsI)
    fix w rest
    assume pd: "pend w = rec_bytes (Frag shm) @ rest"
    obtain w2 where w2: "recv_hello recv scr w = Some (Inr (22, length shm + 5), ?scr, w2)" "pend w2 = rest" "wire w2 = wire w"
      using recv_hello_complete [OF assms(2) pd sh(5) sl] by blast
    have "psk_server_hello B C X recv po \<lparr>e_rng = r, e_w = w, e_scr = scr\<rparr> =
        Some (Inr (tc, take n out), \<lparr>e_rng = r, e_w = w2, e_scr = ?scr\<rparr>)"
      using w2(1) s(1) by (simp add: psk_server_hello_def del: rec_bytes.simps)
    then show "\<exists>w'. psk_server_hello B C X recv po \<lparr>e_rng = r, e_w = w, e_scr = scr\<rparr> =
        Some (Inr (tc, take n out), \<lparr>e_rng = r, e_w = w', e_scr = ?scr\<rparr>) \<and> pend w' = rest \<and> wire w' = wire w @ []"
      using w2(2,3) by auto
  qed
  moreover have "length ?scr = length scr" using sl(1) by simp
  ultimately show ?thesis using s(2,3) by blast
qed

text \<open>The flight: the two messages taken out of the buffer.\<close>

lemma psk_messages_next:
  assumes "drop (pf_accOff L) (pf_plain L) = hs_msg t b @ rest" "pf_accOff L + 4 + length b \<le> pf_accLen L" "pf_accLen L \<le> 512" "\<not> pf_done L"
  shows "psk_messages C sHs L =
    bindE (psk_message C sHs (hs_msg t b) (L\<lparr>pf_accOff := pf_accOff L + 4 + length b\<rparr>)) (psk_messages C sHs)"
proof -
  let ?off = "pf_accOff L" and ?p = "pf_plain L"
  have n: "?p ! (?off + i) = (hs_msg t b @ rest) ! i" if "i < 4" for i
    using assms(1) that nth_drop [of ?off ?p i] by (cases "?off \<le> length ?p") (auto simp: hs_msg_def)
  have lb: "length b < 16777216" using assms(2,3) by simp
  have len: "dec24 (?p ! (?off + 1)) (?p ! (?off + 2)) (?p ! (?off + 3)) = length b"
    using n [of 1] n [of 2] n [of 3] lb by (simp add: hs_msg_def be24_def)
  have cut: "slice ?off (4 + length b) ?p = hs_msg t b"
    by (simp add: slice_def assms(1)) (simp add: hs_msg_def)
  have "\<not> pf_accLen L - ?off < 4" using assms(2) by linarith
  then show ?thesis
    using assms(2-4) unfolding psk_messages.simps [of C sHs L] Let_def len cut by simp
qed

lemma ee_empty: "wn_CheckEncExt [0, 0] b = Inr ()"
proof -
  have r: "wn_Read_U16 (wn_Reader_Init [0, 0] (length [0 :: byte, 0])) = (0, rz [0, 0] [])"
    unfolding Init_rz [OF refl] by (subst rz_U16) (simp_all add: dec16_def)
  have "enc_ext_loop (Suc (Suc 0)) 2 b (rz [0, 0] []) = Inr ()" by simp
  then show ?thesis unfolding wn_CheckEncExt_def r prod.case Let_def by (simp add: u32_def)
qed

lemma psk_messages_complete:
  assumes ok: "sha256_ok C H R" "kdf_ok C" "hmac_ok C M" "length sHs = 32"
    and L: "tdigest (pf_tc L) = WC_SHA256" "R (thash (pf_tc L)) mm" "pf_accOff L = 0" "\<not> pf_done L" "\<not> pf_gotEE L"
    and fl: "fl = psk_flight_bytes H (M (finished_key C sHs)) mm" "pf_plain L = fl @ junk" "pf_accLen L = length fl"
  shows "\<exists>L'. psk_messages C sHs L = Inr L' \<and> pf_done L' \<and> tdigest (pf_tc L') = WC_SHA256 \<and> R (thash (pf_tc L')) (mm @ fl)"
proof -
  let ?e = "hs_msg 8 [0, 0]"
  let ?mac = "M (finished_key C sHs) (H (mm @ ?e))"
  let ?f = "hs_msg 20 ?mac"
  have ml: "length ?mac = 32" using ok(3) by (simp add: hmac_ok_def)
  have hl: "length (H x) = 32" for x using ok(1) by (simp add: sha256_ok_def)
  have fl': "fl = ?e @ ?f" by (simp add: fl(1) psk_flight_bytes_def)
  have ll: "length fl = 42" using ml by (simp add: fl' hs_msg_def)
  have le: "length ?e = 6" by (simp add: hs_msg_def)
  have body4: "hs_msg t b ! 0 = t" "drop 4 (hs_msg t b) = b" for t b by (simp_all add: hs_msg_def)
  obtain tc1 where t1: "wn_Transcript_Update C (pf_tc L) (Some ?e) (length ?e) = (0, tc1)" "tdigest tc1 = WC_SHA256" "R (thash tc1) (mm @ ?e)"
    using sha256_update [OF ok(1) L(1,2), of ?e] by blast
  obtain tc2 where t2: "wn_Transcript_Update C tc1 (Some ?f) (length ?f) = (0, tc2)" "tdigest tc2 = WC_SHA256" "R (thash tc2) ((mm @ ?e) @ ?f)"
    using sha256_update [OF ok(1) t1(2,3), of ?f] by blast
  define L1 where "L1 = L\<lparr>pf_accOff := 6, pf_tc := tc1, pf_gotEE := True\<rparr>"
  define L2 where "L2 = L1\<lparr>pf_accOff := 42, pf_tc := tc2, pf_done := True\<rparr>"
  have d1: "drop (pf_accOff L) (pf_plain L) = ?e @ ?f @ junk" by (simp add: L(3) fl(2) fl')
  have s1: "psk_messages C sHs L = bindE (psk_message C sHs ?e (L\<lparr>pf_accOff := pf_accOff L + 4 + length [0 :: byte, 0]\<rparr>)) (psk_messages C sHs)"
    by (rule psk_messages_next [OF d1 _ _ L(4)]) (use L(3) fl(3) ll in simp_all)
  have m1: "psk_message C sHs ?e (L\<lparr>pf_accOff := pf_accOff L + 4 + length [0 :: byte, 0]\<rparr>) = Inr L1"
    unfolding psk_message_def Let_def body4 using L(3,5) t1(1) ee_empty [of False]
    by (simp add: L1_def codeE_def okI_def WOLFNANO_SUCCESS_def)
  have d2: "drop (pf_accOff L1) (pf_plain L1) = ?f @ junk" using le by (simp add: L1_def fl(2) fl')
  have s2: "psk_messages C sHs L1 = bindE (psk_message C sHs ?f (L1\<lparr>pf_accOff := pf_accOff L1 + 4 + length ?mac\<rparr>)) (psk_messages C sHs)"
    by (rule psk_messages_next [OF d2]) (use L(4) fl(3) ll ml in \<open>simp_all add: L1_def\<close>)
  have mac: "wn_Tls13_FinishedMac C stack32 (Some sHs) (Some (H (mm @ ?e))) 32 WC_SHA256 = (0, ?mac)"
    unfolding finished_key_def by (rule FinishedMac_ok [OF ok(2-4) hl])
  have m2: "psk_message C sHs ?f (L1\<lparr>pf_accOff := pf_accOff L1 + 4 + length ?mac\<rparr>) = Inr L2"
    unfolding psk_message_def Let_def body4 using t2(1) ml mac
    by (simp add: L2_def L1_def sha256_get [OF ok(1) t1(2,3)] okI_def WOLFNANO_SUCCESS_def)
  have "psk_messages C sHs L2 = Inr L2" by (subst psk_messages.simps) (simp add: Let_def L2_def)
  then have "psk_messages C sHs L = Inr L2" unfolding s1 m1 bindE_Inr s2 m2 .
  then show ?thesis using t2(2,3) by (intro exI [of _ L2]) (simp add: L2_def fl')
qed


lemma psk_record_ccs_runs:
  assumes "duplex send recv pend wire" "6 \<le> length scr"
  shows "runs pend wire (psk_record C k recv L) r scr L r (mem_put scr 0 (rec_bytes Ccs)) (rec_bytes Ccs) []"
proof (rule runs_record [OF assms(1), where t = 20 and n = 6 and scr' = "mem_put scr 0 (rec_bytes Ccs)"])
  show "\<exists>w'. wn_RecvRecord recv w scr (length scr) = (Inr (20, 6), mem_put scr 0 (rec_bytes Ccs), w') \<and> pend w' = rest"
    if "pend w = rec_bytes Ccs @ rest" for w rest
    using recv_rec [where tmp = scr, OF duplex_recv [OF assms(1)] _ that] assms(2) by auto
qed (simp add: psk_record_def Let_def)

lemma psk_record_runs:
  assumes ok: "sha256_ok C H R" "kdf_ok C" "hmac_ok C M" "aead_ok C" "duplex send recv pend wire"
    and k: "length (hk_sHs k) = 32" "length (hk_sKey k) = 16" "length (hk_sIv k) = 12"
    and tc: "tdigest tc = WC_SHA256" "R (thash tc) mm" and scr: "64 \<le> length scr"
    and fl: "fl = psk_flight_bytes H (M (finished_key C (hk_sHs k))) mm"
  shows "\<exists>L'. runs pend wire (psk_record C k recv (psk_flight_begin tc)) r scr L' r
      (mem_put scr 0 (seal C (hk_sKey k) (hk_sIv k) 0 22 fl)) (seal C (hk_sKey k) (hk_sIv k) 0 22 fl) [] \<and>
    pf_done L' \<and> tdigest (pf_tc L') = WC_SHA256 \<and> R (thash (pf_tc L')) (mm @ fl)"
proof -
  let ?rec = "seal C (hk_sKey k) (hk_sIv k) 0 22 fl" and ?L = "psk_flight_begin tc"
  let ?scr = "mem_put scr 0 ?rec"
  have ll: "length fl = 42" using ok(3) by (simp add: fl psk_flight_bytes_def hs_msg_def hmac_ok_def)
  have fit: "length fl \<le> 16384" "length fl + 22 \<le> length scr" using ll scr by simp_all
  let ?L1 = "?L\<lparr>pf_plain := mem_put (pf_plain ?L) (pf_accLen ?L) (fl @ [22]), pf_accLen := pf_accLen ?L + length fl, pf_seq := pf_seq ?L + 1\<rparr>"
  have pl: "pf_plain ?L1 = fl @ 22 # drop 43 (replicate 512 0)" using ll by (simp add: psk_flight_begin_def mem_put_def)
  have "\<exists>L'. psk_messages C (hk_sHs k) ?L1 = Inr L' \<and> pf_done L' \<and> tdigest (pf_tc L') = WC_SHA256 \<and> R (thash (pf_tc L')) (mm @ fl)"
    by (rule psk_messages_complete [OF ok(1-3) k(1) _ _ _ _ _ fl pl]) (use tc in \<open>simp_all add: psk_flight_begin_def\<close>)
  then obtain L' where L': "psk_messages C (hk_sHs k) ?L1 = Inr L'" "pf_done L'" "tdigest (pf_tc L') = WC_SHA256" "R (thash (pf_tc L')) (mm @ fl)" by blast
  have un: "wn_Record_Unprotect C (Some (hk_sKey k)) (Some (hk_sIv k)) 0 (Some ?rec) = (Inr (length fl, 22), fl @ [22])"
    by (rule Unprotect_seal [OF ok(4) k(2,3)]) simp
  have tk: "take (length fl + 22) ?scr = ?rec" using length_seal [OF ok(4) k(2,3), of 0 22 fl] by (simp add: mem_put_def)
  have "runs pend wire (psk_record C k recv ?L) r scr L' r ?scr ?rec []"
  proof (rule runs_record [OF ok(5), where t = 23 and n = "length fl + 22" and scr' = ?scr])
    show "\<exists>w'. wn_RecvRecord recv w scr (length scr) = (Inr (23, length fl + 22), ?scr, w') \<and> pend w' = rest" if "pend w = ?rec @ rest" for w rest
      using RecvRecord_sealed [OF ok(4) k(2,3) duplex_recv [OF ok(5)] that _ fit] by auto
    show "psk_record C k recv ?L \<lparr>e_rng = r, e_w = w, e_scr = scr\<rparr> = Some (Inr L', \<lparr>e_rng = r, e_w = w', e_scr = ?scr\<rparr>)"
      if "wn_RecvRecord recv w scr (length scr) = (Inr (23, length fl + 22), ?scr, w')" for w w'
    proof -
      have g: "\<not> (length fl + 22 < 5 + 16 \<or> length fl + 22 - 5 - 16 > 512 - pf_accLen ?L)" using ll by (simp add: psk_flight_begin_def)
      have sq: "pf_seq ?L = 0" by (simp add: psk_flight_begin_def)
      show ?thesis
        unfolding psk_record_def env.select_convs that prod.case sum.case Let_def if_not_P [OF g] tk sq un
        using L'(1) [unfolded sq] by simp
    qed
  qed
  then show ?thesis using L'(2-4) by blast
qed

lemma psk_loop_bind:
  "psk_flight_loop C k recv L =
   (if pf_done L then ret_s (pf_tc L) else bind_s (psk_record C k recv L) (psk_flight_loop C k recv))"
  by (rule ext, subst psk_flight_loop.simps) (simp add: bind_s_def ret_s_def split: option.split sum.split)

lemma psk_flight_loop_runs:
  assumes ok: "sha256_ok C H R" "kdf_ok C" "hmac_ok C M" "aead_ok C" "duplex send recv pend wire"
    and k: "length (hk_sHs k) = 32" "length (hk_sKey k) = 16" "length (hk_sIv k) = 12"
    and tc: "tdigest tc = WC_SHA256" "R (thash tc) mm" and N: "64 \<le> N"
    and fl: "fl = psk_flight_bytes H (M (finished_key C (hk_sHs k))) mm"
  shows "length scr = N \<Longrightarrow> \<exists>tc' scr'. runs pend wire (psk_flight_loop C k recv (psk_flight_begin tc)) r scr tc' r scr'
      (concat (replicate c (rec_bytes Ccs)) @ seal C (hk_sKey k) (hk_sIv k) 0 22 fl) [] \<and>
    tdigest tc' = WC_SHA256 \<and> R (thash tc') (mm @ fl) \<and> length scr' = N"
proof (induction c arbitrary: scr)
  case 0
  let ?rec = "seal C (hk_sKey k) (hk_sIv k) 0 22 fl"
  have nd: "\<not> pf_done (psk_flight_begin tc)" by (simp add: psk_flight_begin_def)
  have s64: "64 \<le> length scr" using 0 N by simp
  obtain L' where L': "runs pend wire (psk_record C k recv (psk_flight_begin tc)) r scr L' r (mem_put scr 0 ?rec) ?rec []"
      "pf_done L'" "tdigest (pf_tc L') = WC_SHA256" "R (thash (pf_tc L')) (mm @ fl)"
    using psk_record_runs [OF ok k tc s64 fl, of r] by blast
  have "length fl = 42" using ok(3) by (simp add: fl psk_flight_bytes_def hs_msg_def hmac_ok_def)
  then have "length (mem_put scr 0 ?rec) = N" using 0 N length_seal [OF ok(4) k(2,3), of 0 22 fl] by simp
  moreover have "runs pend wire (psk_flight_loop C k recv (psk_flight_begin tc)) r scr (pf_tc L') r (mem_put scr 0 ?rec) ?rec []"
    by (subst psk_loop_bind, unfold if_not_P [OF nd], rule runs_bind, rule L'(1), subst psk_loop_bind, unfold if_P [OF L'(2)], rule runs_ret) simp_all
  ultimately show ?case using L'(3,4) by auto
next
  case (Suc c)
  let ?scr = "mem_put scr 0 (rec_bytes Ccs)"
  have nd: "\<not> pf_done (psk_flight_begin tc)" by (simp add: psk_flight_begin_def)
  have s6: "6 \<le> length scr" using Suc.prems N by simp
  have "length ?scr = N" using Suc.prems N by simp
  from Suc.IH [OF this] obtain tc' scr' where S: "runs pend wire (psk_flight_loop C k recv (psk_flight_begin tc)) r ?scr tc' r scr'
      (concat (replicate c (rec_bytes Ccs)) @ seal C (hk_sKey k) (hk_sIv k) 0 22 fl) []" "tdigest tc' = WC_SHA256" "R (thash tc') (mm @ fl)"
      "length scr' = N" by blast
  have "runs pend wire (psk_flight_loop C k recv (psk_flight_begin tc)) r scr tc' r scr'
      (concat (replicate (Suc c) (rec_bytes Ccs)) @ seal C (hk_sKey k) (hk_sIv k) 0 22 fl) []"
    by (subst psk_loop_bind, unfold if_not_P [OF nd], rule runs_bind, rule psk_record_ccs_runs [OF ok(5) s6], rule S(1)) simp_all
  with S(2-4) show ?case by blast
qed

lemma psk_finish_runs:
  assumes ok: "sha256_ok C H R" "kdf_ok C" "hmac_ok C M" "aead_ok C" "duplex send recv pend wire"
    and tc: "tdigest tc = WC_SHA256" "R (thash tc) m"
    and k: "length (hk_cHs k) = 32" "length (hk_cKey k) = 16" "length (hk_cIv k) = 12" and scr: "64 \<le> length scr"
  shows "\<exists>scr'. runs pend wire (psk_finish C send k tc) r scr (H m) r scr' []
      (seal C (hk_cKey k) (hk_cIv k) 0 22 (hs_msg 20 (M (finished_key C (hk_cHs k)) (H m)))) \<and> length scr' = length scr"
proof -
  have hl: "length (H x) = 32" for x using ok(1) by (simp add: sha256_ok_def)
  let ?mac = "M (finished_key C (hk_cHs k)) (H m)"
  have ml: "length ?mac = 32" using ok(3) by (simp add: hmac_ok_def)
  have msg: "[20, 0, 0, 32] @ take 32 ?mac = hs_msg 20 ?mac" by (simp add: hs_msg_def ml be24_def)
  have fit: "length (hs_msg 20 ?mac) \<le> 16384" "length (hs_msg 20 ?mac) + 22 \<le> length scr" using scr by (simp_all add: hs_msg_def ml)
  have mac: "wn_Tls13_FinishedMac C stack32 (Some (hk_cHs k)) (Some (H m)) 32 WC_SHA256 = (0, ?mac)"
    unfolding finished_key_def by (rule FinishedMac_ok [OF ok(2,3) k(1) hl])
  have snd: "bind_s get_s (\<lambda>s. bind_s (on_io (\<lambda>w. case send w (take n (e_scr s)) of (r, w1) \<Rightarrow> (if r \<noteq> int n then Inl E_CRYPTO else Inr (), w1))) f) =
      bind_s (send_region send 0 n) f" for n f
    by (rule ext) (simp add: send_region_def bind_s_def get_s_def slice_def)
  have ok0: "bind_s (pure_s (okI (0, x))) f = f x" for x f by (rule ext) (simp add: run_status bind_s_def pure_s_def)
  have eq: "psk_finish C send k tc = bind_s (on_scr (\<lambda>scr. wn_Record_Protect C scr (Some (hk_cKey k)) (Some (hk_cIv k)) 0 22 (Some (hs_msg 20 ?mac))))
      (\<lambda>n. bind_s (send_region send 0 n) (\<lambda>_. ret_s (H m)))"
    unfolding psk_finish_def sha256_get [OF ok(1) tc] prod.case ok0 mac msg snd ..
  show ?thesis unfolding eq by (rule protect_send_runs [OF ok(4) k(2,3) ok(5) fit])
qed


lemma connect_psk_steps_runs:
  assumes ok: "sha256_ok C H R" "kdf_ok C" "hmac_ok C M" "aead_ok C" "duplex send recv pend wire"
    and init: "runs pend wire (psk_init B C X tc0 ks0) r scr (rnd, pub, \<lparr>ho_tc = tc, ho_ks = c1, ho_sid = sid, ho_emptyHash = H []\<rparr>) r1 scr [] []"
      "tdigest tc = WC_SHA256" "R (thash tc) []" "length rnd = 32" "length sid = 32" "length pub \<le> 1216" "length idn \<le> 255"
    and srv: "length srnd = 32" "srnd \<noteq> wn_hrr_random" "length srvPub = WN_DEFAULT_SRV_SHARE_SZ B"
      "wn_KeyShare_Shared B X c1 (Some srvPub) (replicate (WN_DEFAULT_SECRET_SZ B) 0) = (Inr n, out)"
    and sz: "2000 \<le> length scr" "length scr < 2147483648"
    and chm: "chm = psk_hello B C H M psk idn rnd sid pub"
    and mm: "mm = chm @ psk_sh B srnd sid srvPub" and k: "k = psk_keys C H psk (take n out) mm"
    and fl: "fl = psk_flight_bytes H (M (finished_key C (hk_sHs k))) mm" and m: "m = mm @ fl"
  shows "\<exists>scr'. runs pend wire (connect_psk_steps B C X tc0 ks0 send recv psk idn) r scr (hk_hs k, H [], H m) r1 scr'
      (rec_bytes (Frag (psk_sh B srnd sid srvPub)) @ concat (replicate c (rec_bytes Ccs)) @ seal C (hk_sKey k) (hk_sIv k) 0 22 fl)
      (rec_bytes (Frag chm) @ rec_bytes Ccs @ seal C (hk_cKey k) (hk_cIv k) 0 22 (hs_msg 20 (M (finished_key C (hk_cHs k)) (H m)))) \<and>
    length scr' = length scr"
proof -
  let ?ho = "\<lparr>ho_tc = tc, ho_ks = c1, ho_sid = sid, ho_emptyHash = H []\<rparr>" and ?shm = "psk_sh B srnd sid srvPub"
  have ho: "tdigest (ho_tc ?ho) = WC_SHA256" "R (thash (ho_tc ?ho)) []" "ho_emptyHash ?ho = H []" "length (ho_sid ?ho) = 32" "ho_sid ?ho = sid" "ho_ks ?ho = c1"
    using init by simp_all
  have chm': "chm = psk_hello B C H M psk idn rnd (ho_sid ?ho) pub" using chm ho(5) by simp
  obtain tc1 scr1 where A: "runs pend wire (psk_client_hello B C send psk idn rnd pub ?ho) r1 scr
      \<lparr>ho_tc = tc1, ho_ks = c1, ho_sid = sid, ho_emptyHash = H [], po_early = hkdf_extract C [] psk\<rparr> r1 scr1 []
      (rec_bytes (Frag chm) @ rec_bytes Ccs)" "tdigest tc1 = WC_SHA256" "R (thash tc1) chm" "length scr1 = length scr"
    using psk_client_hello_runs [where pend = pend and wire = wire and r = r1, OF ok(1-3,5) ho(1-4) init(4,6,7) sz chm'] unfolding ho(5,6) by blast
  let ?po = "\<lparr>ho_tc = tc1, ho_ks = c1, ho_sid = sid, ho_emptyHash = H [], po_early = hkdf_extract C [] psk\<rparr>"
  have po: "tdigest (ho_tc ?po) = WC_SHA256" "R (thash (ho_tc ?po)) chm" "length (ho_sid ?po) = 32"
    "wn_KeyShare_Shared B X (ho_ks ?po) (Some srvPub) (replicate (WN_DEFAULT_SECRET_SZ B) 0) = (Inr n, out)" "?shm = psk_sh B srnd (ho_sid ?po) srvPub"
    "po_early ?po = hkdf_extract C [] psk" "ho_emptyHash ?po = H []"
    using A(2,3) init(5) srv(4) by simp_all
  have s15: "1500 \<le> length scr1" using A(4) sz(1) by simp
  obtain tc2 scr2 where S: "runs pend wire (psk_server_hello B C X recv ?po) r1 scr1 (tc2, take n out) r1 scr2 (rec_bytes (Frag ?shm)) []"
      "tdigest tc2 = WC_SHA256" "R (thash tc2) mm" "length scr2 = length scr1"
    using psk_server_hello_runs [where r = r1, OF ok(1,5) po(1-3) srv(1-3) po(4) s15 po(5)] unfolding mm by blast
  have el: "length (hkdf_extract C [] psk) = 32" using ok(2) by simp
  have keys: "psk_hs_keys C tc2 (hkdf_extract C [] psk) (take n out) (H []) = (0, k)"
    using psk_hs_keys_eq [OF ok(1,2) S(2,3) el, of "take n out"] by (simp add: k psk_keys_def hs_sched_def Let_def)
  note kl = hs_sched_len [OF ok(2), of "hkdf_extract C [] psk" "H []" "take n out" "H mm", folded psk_keys_def, folded k]
  have s64: "64 \<le> length scr2" using S(4) s15 by simp
  obtain tc3 scr3 where F: "runs pend wire (psk_flight_loop C k recv (psk_flight_begin tc2)) r1 scr2 tc3 r1 scr3
      (concat (replicate c (rec_bytes Ccs)) @ seal C (hk_sKey k) (hk_sIv k) 0 22 fl) []" "tdigest tc3 = WC_SHA256" "R (thash tc3) m" "length scr3 = length scr2"
    using psk_flight_loop_runs [where r = r1 and c = c, OF ok kl(3,6,7) S(2,3) s64 fl refl] unfolding m by blast
  have s64': "64 \<le> length scr3" using F(4) s64 by simp
  obtain scr4 where G: "runs pend wire (psk_finish C send k tc3) r1 scr3 (H m) r1 scr4 []
      (seal C (hk_cKey k) (hk_cIv k) 0 22 (hs_msg 20 (M (finished_key C (hk_cHs k)) (H m))))" "length scr4 = length scr3"
    using psk_finish_runs [where r = r1, OF ok F(2,3) kl(2,4,5) s64'] by blast
  have "runs pend wire (connect_psk_steps B C X tc0 ks0 send recv psk idn) r scr (hk_hs k, H [], H m) r1 scr4
      (rec_bytes (Frag ?shm) @ concat (replicate c (rec_bytes Ccs)) @ seal C (hk_sKey k) (hk_sIv k) 0 22 fl)
      (rec_bytes (Frag chm) @ rec_bytes Ccs @ seal C (hk_cKey k) (hk_cIv k) 0 22 (hs_msg 20 (M (finished_key C (hk_cHs k)) (H m))))"
    unfolding connect_psk_steps_def
  proof (rule runs_seq, rule init(1), unfold prod.case, rule runs_bind, rule A(1), rule runs_bind, rule S(1), unfold prod.case po(6,7),
      rule runs_okI, rule keys, rule runs_bind, rule F(1), rule runs_bind, rule G(1), rule runs_ret)
  qed (simp_all del: rec_bytes.simps)
  then show ?thesis using A(4) S(4) F(4) G(2) by (intro exI [of _ scr4]) simp
qed

subsection \<open>The handshake\<close>

lemma psk_handshake_run:
  assumes ok: "sha256_ok C H R" "kdf_ok C" "hmac_ok C M" "aead_ok C"
    and net: "duplex csend crecv cpend cwire" "duplex ssend srecv spend swire"
    and X: "rng_ok X good" "kex_ok X good" "good rc" "good rs" "fst (snd (wc_RNG_GenerateBlock X rs 32)) \<noteq> wn_hrr_random"
    and key: "psk \<noteq> []" "0 < length idn" "length idn \<le> 255"
    and sz: "2048 \<le> length cscr" "length cscr < 2147483648" "4096 \<le> length sscr" "length sscr < 2147483648"
  shows "\<exists>cw sw. \<forall>wc ws. cpend wc = sw \<longrightarrow> spend ws = cw \<longrightarrow>
    (\<exists>sessc rc' wc' cscr' sesss rs' ws' sscr'.
       wn_Connect_Psk_ex B C X tc0 ks0 sess0 rc (Some csend) (Some crecv) wc (Some psk) (Some idn) cscr = Some (0, sessc, rc', wc', cscr') \<and>
       wn_Accept_Psk_ex B C X tc1 ks1 sess1 rs (Some ssend) (Some srecv) ws (Some psk) (Some idn) sscr = Some (0, sesss, rs', ws', sscr') \<and>
       cwire wc' = cwire wc @ cw \<and> cpend wc' = [] \<and> swire ws' = swire ws @ sw \<and> spend ws' = [] \<and>
       open_session 2026 sessc \<and> open_session 2026 sesss \<and> in_sync sessc sesss \<and> in_sync sesss sessc \<and>
       cSeq sessc = 0 \<and> cSeq sesss = 0)"
proof -
  obtain rnd sid c0 r1 n c1 r1' pub' tc where I: "length rnd = 32" "length sid = 32" "ks_group c0 = WN_DEFAULT_GROUP B" "good r1"
      "wn_KeyShare_Generate B X c0 r1 (replicate (WN_DEFAULT_PUB_SZ B) 0) = (Inr n, c1, r1', pub')"
      "length (take n pub') = WN_DEFAULT_PUB_SZ B" "tdigest tc = WC_SHA256" "R (thash tc) []"
      "runs cpend cwire (psk_init B C X tc0 ks0) rc cscr (rnd, take n pub', \<lparr>ho_tc = tc, ho_ks = c1, ho_sid = sid, ho_emptyHash = H []\<rparr>) r1' cscr [] []"
    using psk_init_runs [where pend = cpend and wire = cwire and scr = cscr and B = B and ?tc0.0 = tc0 and ?ks0.0 = ks0, OF ok(1) X(1,2,3)] by blast
  have pub: "length (take n pub') \<le> 1216" using pub_sz_bounds I(6) by metis
  define chm where "chm = psk_hello B C H M psk idn rnd sid (take n pub')"
  obtain srnd srvPub ecdhe out where S: "srnd = fst (snd (wc_RNG_GenerateBlock X rs 32))" "length srnd = 32"
      "length srvPub = WN_DEFAULT_SRV_SHARE_SZ B"
      "wn_KeyShare_Shared B X c1 (Some srvPub) (replicate (WN_DEFAULT_SECRET_SZ B) 0) = (Inr (WN_DEFAULT_SECRET_SZ B), out)"
      "take (WN_DEFAULT_SECRET_SZ B) out = ecdhe"
    and S': "let mm = chm @ psk_sh B srnd sid srvPub; k = psk_keys C H psk ecdhe mm;
        fl = psk_flight_bytes H (M (finished_key C (hk_sHs k))) mm; m = mm @ fl in
      \<forall>c. \<exists>sess' r' scr'. runs spend swire (accept_psk_steps B C X tc1 ks1 sess1 ssend srecv psk idn) rs sscr sess' r' scr'
        (rec_bytes (Frag chm) @ concat (replicate c (rec_bytes Ccs)) @
         seal C (hk_cKey k) (hk_cIv k) 0 22 (hs_msg 20 (M (finished_key C (hk_cHs k)) (H m))))
        (rec_bytes (Frag (psk_sh B srnd sid srvPub)) @ rec_bytes Ccs @ seal C (hk_sKey k) (hk_sIv k) 0 22 fl) \<and>
      length scr' = length sscr \<and>
      (0, sess') = wn_SessionEstablish C Server sess1 (hk_hs k) (H []) (replicate 32 0) (H m) (Some ssend) (Some srecv) scr' (length sscr)"
    using accept_psk_steps_runs [where ?tc0.0 = tc1 and ?ks0.0 = ks1 and sess = sess1, OF ok net(2) X(1,2,4) I(4,3,5,1,2) key(2,3) chm_def sz(3,4)]
    unfolding Let_def by blast
  define mm where "mm = chm @ psk_sh B srnd sid srvPub"
  define k where "k = psk_keys C H psk ecdhe mm"
  define fl where "fl = psk_flight_bytes H (M (finished_key C (hk_sHs k))) mm"
  define m where "m = mm @ fl"
  let ?fin = "seal C (hk_cKey k) (hk_cIv k) 0 22 (hs_msg 20 (M (finished_key C (hk_cHs k)) (H m)))"
  let ?cw = "rec_bytes (Frag chm) @ rec_bytes Ccs @ ?fin"
  let ?sw = "rec_bytes (Frag (psk_sh B srnd sid srvPub)) @ rec_bytes Ccs @ seal C (hk_sKey k) (hk_sIv k) 0 22 fl"
  have "\<exists>sess' r' scr'. runs spend swire (accept_psk_steps B C X tc1 ks1 sess1 ssend srecv psk idn) rs sscr sess' r' scr' ?cw ?sw \<and>
      length scr' = length sscr \<and>
      (0, sess') = wn_SessionEstablish C Server sess1 (hk_hs k) (H []) (replicate 32 0) (H m) (Some ssend) (Some srecv) scr' (length sscr)"
    using S' [unfolded Let_def, rule_format, of 1, folded mm_def, folded k_def, folded fl_def, folded m_def] by (simp del: rec_bytes.simps)
  then obtain sesss rs' sscr' where V: "runs spend swire (accept_psk_steps B C X tc1 ks1 sess1 ssend srecv psk idn) rs sscr sesss rs' sscr' ?cw ?sw"
      "length sscr' = length sscr"
      "wn_SessionEstablish C Server sess1 (hk_hs k) (H []) (replicate 32 0) (H m) (Some ssend) (Some srecv) sscr' (length sscr) = (0, sesss)"
    by metis
  have hrr: "srnd \<noteq> wn_hrr_random" using S(1) X(5) by simp
  have s2: "2000 \<le> length cscr" using sz(1) by simp
  have kd: "k = psk_keys C H psk (take (WN_DEFAULT_SECRET_SZ B) out) mm" by (simp only: k_def S(5))
  obtain cscr' where U: "runs cpend cwire (connect_psk_steps B C X tc0 ks0 csend crecv psk idn) rc cscr (hk_hs k, H [], H m) r1' cscr' ?sw ?cw"
      "length cscr' = length cscr"
    using connect_psk_steps_runs [where c = 1, OF ok net(1) I(9,7,8,1,2) pub key(3) S(2) hrr S(3,4) s2 sz(2) chm_def mm_def kd fl_def m_def]
    by (auto simp del: rec_bytes.simps)
  have kl: "length (hk_hs k) = 32" using hs_sched_len(1) [OF ok(2)] by (simp add: k_def psk_keys_def)
  have hl: "length (H x) = 32" for x using ok(1) by (simp add: sha256_ok_def)
  define sessc where "sessc = snd (wn_SessionEstablish C Client session_zero (hk_hs k) (H []) (replicate 32 0) (H m) (Some csend) (Some crecv) cscr' (length cscr'))"
  have E: "wn_SessionEstablish C Client session_zero (hk_hs k) (H []) (replicate 32 0) (H m) (Some csend) (Some crecv) cscr' (length cscr') = (0, sessc)"
    unfolding sessc_def by (simp add: SessionEstablish_eq [OF ok(2) kl hl hl] Let_def)
  have cap: "2026 + 22 \<le> length cscr'" "2026 + 22 \<le> length sscr" "length sscr \<le> length sscr'" using U(2) V(2) sz by simp_all
  note O = established_open [OF ok(2) kl hl hl cap(1) order_refl E] established_open [OF ok(2) kl hl hl cap(2,3) V(3)]
    established_in_sync [OF ok(2) kl hl hl E V(3)]
  show ?thesis
  proof (rule exI [of _ ?cw], rule exI [of _ ?sw], intro allI impI)
    fix wc ws
    assume wc: "cpend wc = ?sw" and ws: "spend ws = ?cw"
    obtain wc' where P: "connect_psk_steps B C X tc0 ks0 csend crecv psk idn \<lparr>e_rng = rc, e_w = wc, e_scr = cscr\<rparr> =
        Some (Inr (hk_hs k, H [], H m), \<lparr>e_rng = r1', e_w = wc', e_scr = cscr'\<rparr>)" "cpend wc' = []" "cwire wc' = cwire wc @ ?cw"
      using runsD [OF U(1), of wc "[]"] wc by (auto simp del: rec_bytes.simps)
    obtain ws' where J: "accept_psk_steps B C X tc1 ks1 sess1 ssend srecv psk idn \<lparr>e_rng = rs, e_w = ws, e_scr = sscr\<rparr> =
        Some (Inr sesss, \<lparr>e_rng = rs', e_w = ws', e_scr = sscr'\<rparr>)" "spend ws' = []" "swire ws' = swire ws @ ?sw"
      using runsD [OF V(1), of ws "[]"] ws by (auto simp del: rec_bytes.simps)
    have con: "wn_Connect_Psk_ex B C X tc0 ks0 sess0 rc (Some csend) (Some crecv) wc (Some psk) (Some idn) cscr = Some (0, sessc, r1', wc', cscr')"
      using sz(1) key P(1) E by (simp add: wn_Connect_Psk_ex_def client_copies)
    have mn: "\<not> length sscr < WN_ACCEPT_SCRATCH_MIN B" using sz(3) by (simp add: WN_ACCEPT_SCRATCH_MIN_def)
    have acc: "wn_Accept_Psk_ex B C X tc1 ks1 sess1 rs (Some ssend) (Some srecv) ws (Some psk) (Some idn) sscr = Some (0, sesss, rs', ws', sscr')"
      using mn key(1) J(1) by (simp add: wn_Accept_Psk_ex_def accept_result_def WOLFNANO_SUCCESS_def)
    show "\<exists>sessc rc' wc' cscr' sesss rs' ws' sscr'.
       wn_Connect_Psk_ex B C X tc0 ks0 sess0 rc (Some csend) (Some crecv) wc (Some psk) (Some idn) cscr = Some (0, sessc, rc', wc', cscr') \<and>
       wn_Accept_Psk_ex B C X tc1 ks1 sess1 rs (Some ssend) (Some srecv) ws (Some psk) (Some idn) sscr = Some (0, sesss, rs', ws', sscr') \<and>
       cwire wc' = cwire wc @ ?cw \<and> cpend wc' = [] \<and> swire ws' = swire ws @ ?sw \<and> spend ws' = [] \<and>
       open_session 2026 sessc \<and> open_session 2026 sesss \<and> in_sync sessc sesss \<and> in_sync sesss sessc \<and>
       cSeq sessc = 0 \<and> cSeq sesss = 0"
      by (intro exI [of _ sessc] exI [of _ r1'] exI [of _ wc'] exI [of _ cscr'] exI [of _ sesss] exI [of _ rs'] exI [of _ ws'] exI [of _ sscr'])
        (simp only: con acc P(2,3) J(2,3) O append_assoc simp_thms)
  qed
qed

text \<open>C3. With a correct hash, key schedule, MAC and AEAD, a key exchange that agrees, and a
  transport that delivers what is sent, a client and a server of one build that hold the same
  pre-shared key and identity complete the handshake: there are octets the two sides send such that
  both drivers return success, all input consumed, with open sessions at counter zero that are in
  step in both directions.\<close>

theorem psk_handshake_completes:
  assumes "sha256_ok C H R" "kdf_ok C" "hmac_ok C M" "aead_ok C"
    and "duplex csend crecv cpend cwire" "duplex ssend srecv spend swire"
    and "rng_ok X good" "kex_ok X good" "good rc" "good rs" "fst (snd (wc_RNG_GenerateBlock X rs 32)) \<noteq> wn_hrr_random"
    and "psk \<noteq> []" "0 < length idn" "length idn \<le> 255"
    and "2048 \<le> length cscr" "length cscr < 2147483648" "4096 \<le> length sscr" "length sscr < 2147483648"
  shows "\<exists>cw sw. \<forall>wc ws. cpend wc = sw \<longrightarrow> spend ws = cw \<longrightarrow>
    (\<exists>sessc rc' wc' cscr' sesss rs' ws' sscr'.
       wn_Connect_Psk_ex B C X tc0 ks0 sess0 rc (Some csend) (Some crecv) wc (Some psk) (Some idn) cscr = Some (0, sessc, rc', wc', cscr') \<and>
       wn_Accept_Psk_ex B C X tc1 ks1 sess1 rs (Some ssend) (Some srecv) ws (Some psk) (Some idn) sscr = Some (0, sesss, rs', ws', sscr') \<and>
       cwire wc' = cwire wc @ cw \<and> cpend wc' = [] \<and> swire ws' = swire ws @ sw \<and> spend ws' = [] \<and>
       open_session 2026 sessc \<and> open_session 2026 sesss \<and> in_sync sessc sesss \<and> in_sync sesss sessc \<and>
       cSeq sessc = 0 \<and> cSeq sesss = 0)"
  by (rule psk_handshake_run [OF assms])

theorem psk_handshake_completes_witness:
  "\<exists>cw sw sessc rc' wc' cscr' sesss rs' ws' sscr'.
     wn_Connect_Psk_ex toy_build toy_provider toy_kx toy_tc toy_ks session_zero 1 (Some pipe_send) (Some pipe_recv) (sw, [])
       (Some [1, 2, 3]) (Some [0x63]) (replicate 2048 0) = Some (0, sessc, rc', wc', cscr') \<and>
     wn_Accept_Psk_ex toy_build toy_provider toy_kx toy_tc toy_ks session_zero 7 (Some pipe_send) (Some pipe_recv) (cw, [])
       (Some [1, 2, 3]) (Some [0x63]) (replicate 4096 0) = Some (0, sesss, rs', ws', sscr') \<and>
     snd wc' = cw \<and> snd ws' = sw \<and> in_sync sessc sesss \<and> in_sync sesss sessc"
proof -
  have "\<exists>cw sw. \<forall>wc ws. fst wc = sw \<longrightarrow> fst ws = cw \<longrightarrow>
    (\<exists>sessc rc' wc' cscr' sesss rs' ws' sscr'.
       wn_Connect_Psk_ex toy_build toy_provider toy_kx toy_tc toy_ks session_zero 1 (Some pipe_send) (Some pipe_recv) wc
         (Some [1, 2, 3]) (Some [0x63]) (replicate 2048 0) = Some (0, sessc, rc', wc', cscr') \<and>
       wn_Accept_Psk_ex toy_build toy_provider toy_kx toy_tc toy_ks session_zero 7 (Some pipe_send) (Some pipe_recv) ws
         (Some [1, 2, 3]) (Some [0x63]) (replicate 4096 0) = Some (0, sesss, rs', ws', sscr') \<and>
       snd wc' = snd wc @ cw \<and> fst wc' = [] \<and> snd ws' = snd ws @ sw \<and> fst ws' = [] \<and>
       open_session 2026 sessc \<and> open_session 2026 sesss \<and> in_sync sessc sesss \<and> in_sync sesss sessc \<and>
       cSeq sessc = 0 \<and> cSeq sesss = 0)"
    by (rule psk_handshake_completes [OF toy_sha256_ok toy_kdf_ok toy_hmac_ok toy_aead_ok pipe_duplex pipe_duplex toy_rng_ok toy_kex_ok
          TrueI TrueI sample_server(1)]) simp_all
  then obtain cw sw where run: "\<forall>wc ws. fst wc = sw \<longrightarrow> fst ws = cw \<longrightarrow>
    (\<exists>sessc rc' wc' cscr' sesss rs' ws' sscr'.
       wn_Connect_Psk_ex toy_build toy_provider toy_kx toy_tc toy_ks session_zero 1 (Some pipe_send) (Some pipe_recv) wc
         (Some [1, 2, 3]) (Some [0x63]) (replicate 2048 0) = Some (0, sessc, rc', wc', cscr') \<and>
       wn_Accept_Psk_ex toy_build toy_provider toy_kx toy_tc toy_ks session_zero 7 (Some pipe_send) (Some pipe_recv) ws
         (Some [1, 2, 3]) (Some [0x63]) (replicate 4096 0) = Some (0, sesss, rs', ws', sscr') \<and>
       snd wc' = snd wc @ cw \<and> fst wc' = [] \<and> snd ws' = snd ws @ sw \<and> fst ws' = [] \<and>
       open_session 2026 sessc \<and> open_session 2026 sesss \<and> in_sync sessc sesss \<and> in_sync sesss sessc \<and>
       cSeq sessc = 0 \<and> cSeq sesss = 0)" by blast
  show ?thesis
    using run [rule_format, of "(sw, [])" "(cw, [])", unfolded fst_conv snd_conv append_Nil] by blast
qed

text \<open>The runs that the authentication theorems of the two drivers apply to.\<close>

lemma toy_psk_run:
  "\<exists>cw sw. \<forall>wc ws. fst wc = sw \<longrightarrow> fst ws = cw \<longrightarrow>
    (\<exists>sessc rc' wc' cscr' sesss rs' ws' sscr'.
       wn_Connect_Psk_ex toy_build toy_provider toy_kx toy_tc toy_ks session_zero 1 (Some pipe_send) (Some pipe_recv) wc
         (Some [1, 2, 3]) (Some [0x63]) (replicate 2048 0) = Some (0, sessc, rc', wc', cscr') \<and>
       wn_Accept_Psk_ex toy_build toy_provider toy_kx toy_tc toy_ks session_zero 7 (Some pipe_send) (Some pipe_recv) ws
         (Some [1, 2, 3]) (Some [0x63]) (replicate 4096 0) = Some (0, sesss, rs', ws', sscr') \<and>
       snd wc' = snd wc @ cw \<and> fst wc' = [] \<and> snd ws' = snd ws @ sw \<and> fst ws' = [] \<and>
       open_session 2026 sessc \<and> open_session 2026 sesss \<and> in_sync sessc sesss \<and> in_sync sesss sessc \<and>
       cSeq sessc = 0 \<and> cSeq sesss = 0)"
  by (rule psk_handshake_run [OF toy_sha256_ok toy_kdf_ok toy_hmac_ok toy_aead_ok pipe_duplex pipe_duplex toy_rng_ok toy_kex_ok
        TrueI TrueI sample_server(1)]) simp_all

lemma toy_psk_connects:
  "\<exists>sw sess' rng' w' scr'.
     wn_Connect_Psk_ex toy_build toy_provider toy_kx toy_tc toy_ks session_zero 1 (Some pipe_send) (Some pipe_recv) (sw, [])
       (Some [1, 2, 3]) (Some [0x63]) (replicate 2048 0) = Some (0, sess', rng', w', scr')"
  using toy_psk_run by (metis fst_conv)

lemma toy_psk_accepts:
  "\<exists>cw sess' rng' w' scr'.
     wn_Accept_Psk_ex toy_build toy_provider toy_kx toy_tc toy_ks session_zero 7 (Some pipe_send) (Some pipe_recv) (cw, [])
       (Some [1, 2, 3]) (Some [0x63]) (replicate 4096 0) = Some (0, sess', rng', w', scr')"
  using toy_psk_run by (metis fst_conv)

theorem connect_psk_authenticates_witness:
  "\<exists>sw sess' rng' w' scr' random sid pub chm shm sh ks n out hs m0 eb.
     wn_Connect_Psk_ex toy_build toy_provider toy_kx toy_tc toy_ks session_zero 1 (Some pipe_send) (Some pipe_recv) (sw, [])
       (Some [1, 2, 3]) (Some [0x63]) (replicate 2048 0) = Some (0, sess', rng', w', scr') \<and>
     bound_hello toy_build toy_provider toy_hash (\<lambda>k m. toy_hash (m @ k)) [1, 2, 3] [0x63] (replicate 2048 0) random sid pub chm \<and>
     wn_ServerHello_Parse (Some shm) = Inr sh \<and> sh_acceptable toy_build sid 0 shm sh \<and>
     wn_KeyShare_Shared toy_build toy_kx ks (Some (slice (the (sh_keyShare sh)) (sh_keyShareLen sh) shm))
       (replicate (WN_DEFAULT_SECRET_SZ toy_build) 0) = (Inr n, out) \<and>
     m0 = chm @ shm \<and> hs = hs_secret toy_provider (hkdf_extract toy_provider [] [1, 2, 3]) (toy_hash []) (take n out) \<and>
     wn_CheckEncExt eb False = Inr () \<and> sess_established sess'"
proof -
  obtain sw sess' rng' w' scr' where run:
    "wn_Connect_Psk_ex toy_build toy_provider toy_kx toy_tc toy_ks session_zero 1 (Some pipe_send) (Some pipe_recv) (sw, [])
       (Some [1, 2, 3]) (Some [0x63]) (replicate 2048 0) = Some (0, sess', rng', w', scr')"
    using toy_psk_connects by blast
  from connect_psk_authenticates [OF toy_sha256_ok toy_kdf_ok toy_hmac_ok run] run show ?thesis
    unfolding option.inject by fast
qed

end
