(* ===== verification/AcceptAuth.thy ===== *)
theory AcceptAuth
  imports PskHandshake
begin

section \<open>What a completed PSK handshake tells the server\<close>

text \<open>
  The steps of the PSK driver of theory ServerAccept against any peer: what each of them
  establishes when it succeeds, and what a driver that returns success has therefore checked.
\<close>

text \<open>A step on the octets \<open>take n b\<close> of a buffer, as the transcript takes them.\<close>

lemma sha256_take:
  assumes "sha256_ok C H R" "tdigest t = WC_SHA256" "R (thash t) m"
  obtains t' where "wn_Transcript_Update C t (Some b) n = (0, t')" "tdigest t' = WC_SHA256" "R (thash t') (m @ take n b)"
proof -
  obtain t' where "wn_Transcript_Update C t (Some (take n b)) (length (take n b)) = (0, t')" "tdigest t' = WC_SHA256" "R (thash t') (m @ take n b)"
    using sha256_update [OF assms, of "take n b"] by blast
  then show thesis unfolding update_take by (rule that)
qed

text \<open>The ClientHello in the scratch buffer: its pointers lie in the message.\<close>

definition hello_read :: "build \<Rightarrow> nat \<Rightarrow> client_hello \<Rightarrow> bytes \<Rightarrow> bool" where
  "hello_read B n ch scr \<longleftrightarrow> n \<le> length scr \<and> n < 2147483648 \<and> wn_ClientHello_Parse B (Some (take n scr)) = Inr ch"

lemma hello_read_field:
  assumes "hello_read B n ch scr" "in_msg n p k" "p \<noteq> None \<or> k = 0"
  shows "ch_field scr p k = slice (the p) k (take n scr)"
  using assms by (cases p) (auto simp: hello_read_def in_msg_def ch_field_def slice_def take_drop min_def)

lemma hello_read_inside:
  assumes "hello_read B n ch scr"
  shows "\<not> ch_havePsk ch \<or> ch_binderLen ch = 32" "in_msg n (ch_sessionId ch) (ch_sessionIdLen ch)"
    "in_msg n (ch_keyShare ch) (ch_keyShareLen ch)" "in_msg n (ch_pskIdentity ch) (ch_pskIdentityLen ch)"
    "in_msg n (ch_binder ch) (ch_binderLen ch)" "ch_binderTruncLen ch \<le> n"
  using client_hello_inside [of "take n scr" B] assms by (simp_all add: hello_read_def)

lemma recv_client_hello_sound:
  assumes "recv_client_hello B recv s = Some (Inr (n, ch), s')" "10 \<le> length (e_scr s)" "length (e_scr s) < 4294967296"
  shows "hello_read B n ch (e_scr s')" "length (e_scr s') = length (e_scr s)"
proof -
  let ?half = "length (e_scr s) div 2"
  obtain res acc tmp w where r: "wn_RecvHandshake (Some recv) (e_w s) (take ?half (e_scr s)) (drop ?half (e_scr s)) = Some (res, acc, tmp, w)"
    using assms(1) by (auto simp: recv_client_hello_def Let_def split: option.splits)
  have "recv_hs_loop recv (take ?half (e_scr s)) 0 (drop ?half (e_scr s)) (e_w s) = Some (res, acc, tmp, w)"
    using r by (simp add: wn_RecvHandshake_def)
  note L = hs_loop_ok [OF this le0]
  have "length (take ?half (e_scr s)) < 2147483648" "5 \<le> length (drop ?half (e_scr s))" using assms(2,3) by auto
  note L = L [OF this, unfolded prod.case]
  have h: "length (take ?half (e_scr s)) = ?half" "length (drop ?half (e_scr s)) = length (e_scr s) - ?half" by simp_all
  have l: "length acc = ?half" "length tmp = length (e_scr s) - ?half" "\<forall>m. res = Inr m \<longrightarrow> m \<le> length acc"
    using L unfolding h by blast+
  have s: "res = Inr n" "wn_ClientHello_Parse B (Some (take n acc)) = Inr ch" "e_scr s' = acc @ tmp"
    using assms(1) by (auto simp: recv_client_hello_def Let_def r bindE_eq_Inr)
  have n: "n \<le> ?half" using l s(1) by simp
  then have "n \<le> length (e_scr s)" "n < 2147483648" using assms(3) by linarith+
  then show "hello_read B n ch (e_scr s')" "length (e_scr s') = length (e_scr s)"
    using s l(1,2) n by (simp_all add: hello_read_def)
qed

text \<open>
  The transcript before the ClientHello that is answered: nothing, or the hash of a first
  ClientHello with the HelloRetryRequest sent for it.
\<close>

definition hello_prefix :: "(bytes \<Rightarrow> bytes) \<Rightarrow> bytes \<Rightarrow> bool" where
  "hello_prefix H pre \<longleftrightarrow> pre = [] \<or> (\<exists>ch1 hrr. pre = [0xFE, 0, 0, 32] @ H ch1 @ hrr)"

lemma accept_init_sound:
  assumes "sha256_ok C H R" "accept_init C X tc0 s = Some (Inr (tc, eh, rnd), s')"
  shows "tdigest tc = WC_SHA256" "R (thash tc) []" "eh = H []" "e_scr s' = e_scr s"
proof -
  have h: "wc_Sha256Hash C [] = (0, H [])" using assms(1) by (simp add: sha256_ok_def)
  obtain t where tc: "wn_Transcript_Init C tc0 WC_SHA256 = (0, t)" "tdigest t = WC_SHA256" "R (thash t) []"
    using Transcript_Init_ok [OF assms(1), of tc0] by (cases "wn_Transcript_Init C tc0 WC_SHA256") (auto simp: tr_absorbed_def)
  have "tc = t \<and> eh = H [] \<and> e_scr s' = e_scr s"
    using assms(2) by (auto simp: accept_init_def on_rng_def h tc(1) okI_eq_Inr split: prod.splits)
  then show "tdigest tc = WC_SHA256" "R (thash tc) []" "eh = H []" "e_scr s' = e_scr s" using tc(2,3) by simp_all
qed

lemma maybe_hrr_sound:
  assumes ok: "sha256_ok C H R" and tc: "tdigest tc = WC_SHA256" "R (thash tc) []"
    and rd: "hello_read B n ch (e_scr s)" "10 \<le> length (e_scr s)" "length (e_scr s) < 4294967296"
    and run: "wn_Accept_MaybeHrr B C send recv tc n ch s = Some (Inr (tc', n', ch'), s')"
  shows "\<exists>pre. hello_prefix H pre \<and> tdigest tc' = WC_SHA256 \<and> R (thash tc') pre \<and> hello_read B n' ch' (e_scr s')"
proof (cases "ch_haveKeyShare ch")
  case True
  then show ?thesis using run tc rd by (auto simp: wn_Accept_MaybeHrr_def ret_s_def hello_prefix_def)
next
  case False
  have h: "wc_Sha256Hash C x = (0, H x)" "length (H x) = 32" for x using ok by (simp_all add: sha256_ok_def)
  let ?p = "[0xFE, 0, 0, 32] @ H (take n (e_scr s))"
  have pl: "take 36 ?p = ?p" by (rule take_all) (simp add: h(2))
  obtain tc1 where t1: "wn_Transcript_Update C tc (Some ?p) 36 = (0, tc1)" "tdigest tc1 = WC_SHA256" "R (thash tc1) ?p"
    using sha256_take [OF ok tc, of ?p 36] unfolding pl append_Nil by metis
  obtain r2 hrr where b: "wn_HelloRetryRequest_Build (replicate 128 0) (ch_field (e_scr s) (ch_sessionId ch) (ch_sessionIdLen ch))
               (ch_cipher ch) (WN_DEFAULT_GROUP B) = (r2, hrr)" by fastforce
  have "\<exists>k s1. e_scr s1 = e_scr s \<and> (\<exists>tc2. wn_Transcript_Update C tc1 (Some hrr) k = (0, tc2) \<and> tc' = tc2) \<and>
      recv_client_hello B recv s1 = Some (Inr (n', ch'), s')"
    using run False unfolding wn_Accept_MaybeHrr_def if_not_P [OF False] bind_get h(1) b prod.case
    apply (elim pure_okE io_okE bind_sE)
    apply (cases "ch_haveKeyShare ch'")
    apply (auto simp: okI_eq_Inr t1(1) [simplified] guard_s_def pure_s_def bind_s_def ret_s_def guardE_def split: if_splits prod.splits)
    apply (rule exI, rule exI, rule conjI [rotated], rule conjI, assumption, assumption, simp)+
    done
  then obtain k s1 tc2 where u: "e_scr s1 = e_scr s" "wn_Transcript_Update C tc1 (Some hrr) k = (0, tc')"
      "recv_client_hello B recv s1 = Some (Inr (n', ch'), s')" by blast
  obtain tc3 where t2: "wn_Transcript_Update C tc1 (Some hrr) k = (0, tc3)" "tdigest tc3 = WC_SHA256" "R (thash tc3) (?p @ take k hrr)"
    by (rule sha256_take [OF ok t1(2,3)])
  have "hello_prefix H (?p @ take k hrr)" unfolding hello_prefix_def by fastforce
  then show ?thesis using recv_client_hello_sound(1) [OF u(3)] rd(2,3) t2 u(1,2) by auto
qed

lemma accept_hello_sound:
  assumes ok: "sha256_ok C H R" and rd: "10 \<le> length (e_scr s)" "length (e_scr s) < 4294967296"
    and run: "accept_hello B C X tc0 send recv s = Some (Inr hi, s')"
  shows "\<exists>pre. hello_prefix H pre \<and> tdigest (hi_tc hi) = WC_SHA256 \<and> R (thash (hi_tc hi)) pre \<and> hi_emptyHash hi = H [] \<and>
    hello_read B (hi_chLen hi) (hi_ch hi) (e_scr s')"
proof -
  obtain tc eh rnd s1 n ch s2 tc1 n1 ch1 where 1: "accept_init C X tc0 s = Some (Inr (tc, eh, rnd), s1)"
      and 2: "recv_client_hello B recv s1 = Some (Inr (n, ch), s2)" and 3: "wn_Accept_MaybeHrr B C send recv tc n ch s2 = Some (Inr (tc1, n1, ch1), s')"
      and hi: "hi = \<lparr>hi_tc = tc1, hi_ch = ch1, hi_chLen = n1, hi_hrrDone = (\<not> ch_haveKeyShare ch), hi_random = rnd, hi_emptyHash = eh\<rparr>"
    using run unfolding accept_hello_def by (elim bind_sE) (auto simp: ret_s_def elim!: bind_sE split: prod.splits)
  note I = accept_init_sound [OF ok 1]
  note S = recv_client_hello_sound [OF 2, unfolded I(4), OF rd]
  from maybe_hrr_sound [OF ok I(1,2) S(1) _ _ 3] rd S(2) show ?thesis by (auto simp: hi I(3))
qed

text \<open>The ClientHello \<open>chm\<close> names the identity and carries the binder of the key over the
  transcript up to its binders.\<close>

definition psk_bound ::
  "'x crypto \<Rightarrow> (bytes \<Rightarrow> bytes) \<Rightarrow> (bytes \<Rightarrow> bytes \<Rightarrow> bytes) \<Rightarrow> bytes \<Rightarrow> bytes \<Rightarrow> bytes \<Rightarrow> client_hello \<Rightarrow> bytes \<Rightarrow> bool" where
  "psk_bound C H M psk idn pre ch chm \<longleftrightarrow>
     ch_havePsk ch \<and> slice (the (ch_pskIdentity ch)) (ch_pskIdentityLen ch) chm = idn \<and>
     slice (the (ch_binder ch)) 32 chm = psk_binder C H M psk (pre @ take (ch_binderTruncLen ch) chm)"

lemma accept_binder_sound:
  assumes ok: "sha256_ok C H R" "kdf_ok C" "hmac_ok C M"
    and tc: "tdigest (hi_tc hi) = WC_SHA256" "R (thash (hi_tc hi)) pre" "hi_emptyHash hi = H []"
    and rd: "hello_read B (hi_chLen hi) (hi_ch hi) (e_scr s)"
    and run: "accept_binder C psk idn hi s = Some (Inr (early, tc'), s')"
  shows "tdigest tc' = WC_SHA256 \<and> R (thash tc') (pre @ take (hi_chLen hi) (e_scr s)) \<and> early = hkdf_extract C [] psk \<and>
    psk_bound C H M psk idn pre (hi_ch hi) (take (hi_chLen hi) (e_scr s)) \<and> s' = s"
proof -
  let ?ch = "hi_ch hi" and ?scr = "e_scr s" and ?n = "hi_chLen hi"
  let ?t = "ch_binderTruncLen ?ch" and ?chm = "take (hi_chLen hi) (e_scr s)"
  note I = hello_read_inside [OF rd]
  have n: "?n \<le> length ?scr" "?n < 2147483648" using rd by (simp_all add: hello_read_def)
  have hl: "length (H x) = 32" for x using ok(1) by (simp add: sha256_ok_def)
  have el: "length (hkdf_extract C [] psk) = 32" using ok(2) by simp
  have bl: "length (hkdf_expand C 32 (hkdf_extract C [] psk) ''ext binder'' (H [])) = 32" using ok(2) by simp
  obtain tc1 where t1: "wn_Transcript_Update C (hi_tc hi) (Some ?scr) ?t = (0, tc1)" "tdigest tc1 = WC_SHA256" "R (thash tc1) (pre @ take ?t ?scr)"
    by (rule sha256_take [OF ok(1) tc(1,2)])
  obtain tc2 where t2: "wn_Transcript_Update C tc1 (Some (drop ?t ?scr)) (?n - ?t) = (0, tc2)" "tdigest tc2 = WC_SHA256"
      "R (thash tc2) ((pre @ take ?t ?scr) @ take (?n - ?t) (drop ?t ?scr))"
    by (rule sha256_take [OF ok(1) t1(2,3)])
  have sub: "u32_sub ?n ?t = ?n - ?t" by (rule u32_sub_ge) (use I(6) n(2) in simp_all)
  have "take ?t ?scr @ take (?n - ?t) (drop ?t ?scr) = ?chm"
    using I(6) by (metis le_add_diff_inverse take_add)
  then have t2': "R (thash tc2) (pre @ ?chm)" using t2(3) by simp
  have t: "take ?t ?chm = take ?t ?scr" using I(6) by (simp add: min_def)
  have mac: "wn_Tls13_FinishedMac C stack32 (Some (hkdf_expand C 32 (hkdf_extract C [] psk) ''ext binder'' (H []))) (Some (H (pre @ take ?t ?scr)))
      32 WC_SHA256 = (0, psk_binder C H M psk (pre @ take ?t ?scr))"
    unfolding psk_binder_def by (rule FinishedMac_ok [OF ok(2,3) bl hl])
  have R: "ch_havePsk ?ch" "ch_pskIdentityLen ?ch = length idn" "ch_field ?scr (ch_pskIdentity ?ch) (length idn) = idn"
      "psk_binder C H M psk (pre @ take ?t ?scr) = ch_field ?scr (ch_binder ?ch) 32" "early = hkdf_extract C [] psk" "tc' = tc2" "s' = s"
    using run unfolding accept_binder_def Let_def bind_get tc(3) Extract_ok [OF ok(2)] DeriveSecret_ok [OF ok(2) el hl] prod.case sub guard_s_def
    by (auto simp: okI_eq_Inr t1(1) t2(1) sha256_get [OF ok(1) t1(2,3)] mac guardE_def elim!: pure_okE ret_okE split: if_splits)
  have "psk_bound C H M psk idn pre ?ch ?chm"
    using R(1-4) hello_read_field [OF rd I(4)] hello_read_field [OF rd I(5)] I(1) I(4,5) unfolding psk_bound_def t
    by (auto simp: in_msg_def split: option.splits)
  then show ?thesis using t2(2) t2' R(5-7) by simp
qed

text \<open>The server's share and the secret it shares with the share of the ClientHello.\<close>

definition server_share :: "build \<Rightarrow> ('k, 'r) kx_crypto \<Rightarrow> client_hello \<Rightarrow> bytes \<Rightarrow> bytes \<Rightarrow> bytes \<Rightarrow> bool" where
  "server_share B X ch chm srvPub ecdhe \<longleftrightarrow>
     (\<exists>ks rng a b ks' rng' pub sec.
        wn_KeyShare_ServerShare B X ks rng (map_option (\<lambda>p. slice p (ch_keyShareLen ch) chm) (ch_keyShare ch))
          (replicate (WN_KEYSHARE_MAX_PUB B) 0) (replicate (WN_DEFAULT_SECRET_SZ B) 0) = (Inr (a, b), ks', rng', pub, sec) \<and>
        srvPub = take a pub \<and> ecdhe = take b sec)"

lemma accept_key_exchange_sound:
  assumes rd: "hello_read B n ch (e_scr s)"
    and run: "accept_key_exchange B X ks0 ch s = Some (Inr (srvPub, ecdhe), s')"
  shows "e_scr s' = e_scr s" "server_share B X ch (take n (e_scr s)) srvPub ecdhe"
proof -
  have f: "map_option (\<lambda>p. ch_field (e_scr s) (Some p) (ch_keyShareLen ch)) (ch_keyShare ch) =
      map_option (\<lambda>p. slice p (ch_keyShareLen ch) (take n (e_scr s))) (ch_keyShare ch)"
    using hello_read_field [OF rd hello_read_inside(3) [OF rd]] by (cases "ch_keyShare ch") simp_all
  obtain r1 ks where i: "wn_KeyShare_Init B X (ks_hybrid ks0) ks0 (ch_group ch) = (r1, ks)" by fastforce
  obtain r2 ks' rng' pub sec where g: "wn_KeyShare_ServerShare B X ks (e_rng s)
      (map_option (\<lambda>p. slice p (ch_keyShareLen ch) (take n (e_scr s))) (ch_keyShare ch))
      (replicate (WN_KEYSHARE_MAX_PUB B) 0) (replicate (WN_DEFAULT_SECRET_SZ B) 0) = (r2, ks', rng', pub, sec)" by (metis prod_cases5)
  have "\<exists>a b. r2 = Inr (a, b) \<and> srvPub = take a pub \<and> ecdhe = take b sec \<and> e_scr s' = e_scr s"
    using run unfolding accept_key_exchange_def bind_get f i prod.case
    by (elim pure_okE) (auto simp: on_rng_def g bindE_eq_Inr)
  then show "e_scr s' = e_scr s" "server_share B X ch (take n (e_scr s)) srvPub ecdhe"
    unfolding server_share_def using g by blast+
qed

lemma accept_server_hello_sound:
  assumes "sha256_ok C H R" "tdigest tc = WC_SHA256" "R (thash tc) m"
    and run: "accept_server_hello C send hi tc sid srvPub incl s = Some (Inr tc', s')"
  shows "\<exists>buf out n. wn_ServerHello_Build buf (Some (hi_random hi)) sid (ch_cipher (hi_ch hi)) (ch_group (hi_ch hi)) (Some srvPub) 0 incl = (Inr n, out) \<and>
    tdigest tc' = WC_SHA256 \<and> R (thash tc') (m @ take n out)"
proof -
  obtain n out s1 where 1: "wn_ServerHello_Build (e_scr s) (Some (hi_random hi)) sid (ch_cipher (hi_ch hi)) (ch_group (hi_ch hi)) (Some srvPub) 0 incl
      = (Inr n, out)"
      "wn_Transcript_Update C tc (Some out) n = (0, tc')"
    using run unfolding accept_server_hello_def bind_get
    by (elim scr_okE) (auto simp: bind_get okI_eq_Inr ret_s_def pure_s_def elim!: bind_sE split: if_splits)
  obtain t where "wn_Transcript_Update C tc (Some out) n = (0, t)" "tdigest t = WC_SHA256" "R (thash t) (m @ take n out)"
    by (rule sha256_take [OF assms(1-3)])
  then show ?thesis using 1 by (auto intro!: exI)
qed

lemma accept_finished_mac_ok:
  assumes "sha256_ok C H R" "kdf_ok C" "hmac_ok C M" "tdigest tc = WC_SHA256" "R (thash tc) mm" "length secret = 32"
  shows "accept_finished_mac C secret tc = Inr (hs_msg 20 (M (finished_key C secret) (H mm)))"
  unfolding finished_key_def by (rule finished_mac_complete [OF assms])

lemma accept_psk_flight_sound:
  assumes ok: "sha256_ok C H R" "kdf_ok C" "hmac_ok C M"
    and tc: "tdigest tc = WC_SHA256" "R (thash tc) mm" "length (hk_sHs k) = 32"
    and run: "accept_psk_flight C send k tc s = Some (Inr tc', s')"
  shows "tdigest tc' = WC_SHA256 \<and> R (thash tc') (mm @ psk_flight_bytes H (M (finished_key C (hk_sHs k))) mm)"
proof -
  let ?e = "hs_msg 8 [0, 0]" and ?fin = "hs_msg 20 (M (finished_key C (hk_sHs k)) (H (mm @ hs_msg 8 [0, 0])))"
  have le: "length ?e = 6" by (simp add: hs_msg_def)
  have lf: "length ?fin = 36" using ok(3) by (simp add: hs_msg_def hmac_ok_def)
  obtain buf where b: "wn_EncExt_Build (replicate 128 0) = (Inr 6, buf)" "take 6 buf = ?e" "length buf = 128"
    using EncExt_built [of "replicate 128 0"] length_EncExt_Build [of "replicate 128 0"] unfolding le by auto
  obtain tc1 where t1: "wn_Transcript_Update C tc (Some buf) 6 = (0, tc1)" "tdigest tc1 = WC_SHA256" "R (thash tc1) (mm @ ?e)"
    using sha256_take [OF ok(1) tc(1,2), of buf 6] b(2) by metis
  let ?fl = "mem_put buf 6 ?fin"
  have fl: "take 36 (drop 6 ?fl) = ?fin" using b(3) lf by (simp add: mem_put_def)
  obtain tc2 where t2: "wn_Transcript_Update C tc1 (Some (drop 6 ?fl)) 36 = (0, tc2)" "tdigest tc2 = WC_SHA256" "R (thash tc2) ((mm @ ?e) @ ?fin)"
    using sha256_take [OF ok(1) t1(2,3), of "drop 6 ?fl" 36] fl by metis
  note fin = accept_finished_mac_ok [OF ok t1(2,3) tc(3)]
  have "tc' = tc2"
    using run unfolding accept_psk_flight_def b(1) prod.case Let_def
    by (auto simp: okI_eq_Inr t1(1) t2(1) fin codeE_def pure_s_def elim!: bind_sE ret_okE)
  then show ?thesis using t2(2,3) unfolding psk_flight_bytes_def by simp
qed

text \<open>A handshake record under the client's keys that holds the Finished message with \<open>mac\<close>.\<close>

definition client_finished :: "'x crypto \<Rightarrow> hs_keys \<Rightarrow> bytes \<Rightarrow> bytes \<Rightarrow> bool" where
  "client_finished C k mac rec \<longleftrightarrow> (\<exists>content.
     wn_Record_Unprotect C (Some (hk_cKey k)) (Some (hk_cIv k)) 0 (Some rec) = (Inr (36, 22), content) \<and>
     content ! 0 = 20 \<and> slice 4 32 content = mac)"

lemma finished_record_sound:
  assumes "finished_record C recv k mac lim store s = Some (Inr True, s')"
  shows "\<exists>rec. client_finished C k mac rec"
  using assms unfolding finished_record_def client_finished_def Let_def
  by (fastforce split: sum.splits prod.splits if_splits)

lemma finished_loop_sound:
  fixes s :: "('r, 'w) env" and res :: "int + unit"
  assumes run: "finished_loop C recv k mac lim store s = Some (res, s')"
  shows "(\<forall>u. res = Inr u \<longrightarrow> (\<exists>rec. client_finished C k mac rec)) \<and> (\<forall>e. res = Inl e \<longrightarrow> e \<noteq> 0)"
proof -
  let ?S = "\<lambda>res :: int + unit. (\<forall>u. res = Inr u \<longrightarrow> (\<exists>rec. client_finished C k mac rec)) \<and> (\<forall>e. res = Inl e \<longrightarrow> e \<noteq> 0)"
  let ?P = "\<lambda>C' recv' k' mac' lim' store' (s :: ('r, 'w) env) (p :: (int + unit) \<times> ('r, 'w) env). C' = C \<and> k' = k \<and> mac' = mac \<longrightarrow> ?S (fst p)"
  have "?P C recv k mac lim store s (res, s')"
  proof (rule finished_loop.raw_induct [OF _ run, where P = ?P], intro impI)
    fix loop C' recv' k' mac' lim' store' and s :: "('r, 'w) env" and p
    assume IH: "\<And>C' recv' k' mac' lim' store' s p. loop C' recv' k' mac' lim' store' s = Some p \<Longrightarrow> C' = C \<and> k' = k \<and> mac' = mac \<longrightarrow> ?S (fst p)"
      and body: "(case finished_record C' recv' k' mac' lim' store' s of
          None \<Rightarrow> None
        | Some (Inl e, s') \<Rightarrow> Some (Inl e, s')
        | Some (Inr d, s') \<Rightarrow> if d then Some (Inr (), s') else loop C' recv' k' mac' lim' store' s') = Some p"
      and e: "C' = C \<and> k' = k \<and> mac' = mac"
    obtain r s1 where st: "finished_record C recv' k mac lim' store' s = Some (r, s1)" using body e by (auto split: option.splits)
    show "?S (fst p)"
    proof (cases r)
      case (Inl x)
      have "x \<noteq> 0" using st Inl by (auto simp: finished_record_def Let_def split: sum.splits prod.splits if_splits)
      then show ?thesis using body Inl by (auto simp: e st)
    next
      case (Inr d)
      then show ?thesis
        using body IH [of C recv' k mac lim' store' s1 p] finished_record_sound [of C recv' k mac lim' store' s s1] by (cases d) (auto simp: e st)
    qed
  qed
  then show ?thesis by simp
qed

lemma accept_finish_sound:
  fixes s :: "('r, 'w) env"
  assumes ok: "sha256_ok C H R" "kdf_ok C" "hmac_ok C M"
    and tc: "tdigest tc = WC_SHA256" "R (thash tc) m" "length (hk_hs k) = 32" "length (hk_cHs k) = 32"
    and run: "accept_finish C send recv sess k (H []) tc lim store s = Some (Inr sess', s')"
  shows "(\<exists>rec. client_finished C k (M (finished_key C (hk_cHs k)) (H m)) rec) \<and> sess_established sess' \<and>
    cAppSecret sess' = app_secret C (hk_hs k) (H []) (replicate 32 0) (H m) (our_label Server) \<and>
    sAppSecret sess' = app_secret C (hk_hs k) (H []) (replicate 32 0) (H m) (peer_label Server)"
proof -
  have hl: "length (H x) = 32" for x using ok(1) by (simp add: sha256_ok_def)
  have ml: "take 32 (M x y) = M x y" for x y by (rule take_all) (use ok(3) in \<open>simp add: hmac_ok_def\<close>)
  note mac = FinishedMac_ok [OF ok(2,3) tc(4) hl, folded finished_key_def]
  have L: "\<exists>(s1 :: ('r, 'w) env) s2. finished_loop C recv k (M (finished_key C (hk_cHs k)) (H m)) lim store s1 = Some (Inr (), s2)"
    and E: "sess_established sess'" "cAppSecret sess' = app_secret C (hk_hs k) (H []) (replicate 32 0) (H m) (our_label Server)"
      "sAppSecret sess' = app_secret C (hk_hs k) (H []) (replicate 32 0) (H m) (peer_label Server)"
    using run unfolding accept_finish_def sha256_get [OF ok(1) tc(1,2)] prod.case bind_get SessionEstablish_eq [OF ok(2) tc(3) hl hl] mac ml Let_def
    by (auto simp: okI_eq_Inr ret_s_def pure_s_def bind_get get_s_def sess_established_def elim!: bind_sE) blast
  then show ?thesis using finished_loop_sound by blast
qed

text \<open>The steps of a driver run that succeeds.\<close>

lemma accept_psk_run:
  assumes "accept_psk_steps B C X tc0 ks0 sess send recv psk idn s = Some (Inr sess', s')"
  obtains hi s1 early tc1 s2 srvPub ecdhe s3 tc2 s4 k tc3 s5 where
    "accept_hello B C X tc0 send recv s = Some (Inr hi, s1)"
    "accept_binder C psk idn hi s1 = Some (Inr (early, tc1), s2)"
    "accept_key_exchange B X ks0 (hi_ch hi) s2 = Some (Inr (srvPub, ecdhe), s3)"
    "accept_server_hello C send hi tc1 (ch_field (e_scr s3) (ch_sessionId (hi_ch hi)) (ch_sessionIdLen (hi_ch hi))) srvPub True s3 = Some (Inr tc2, s4)"
    "accept_hs_keys C tc2 early ecdhe (hi_emptyHash hi) = (0, k)"
    "accept_psk_flight C send k tc2 s4 = Some (Inr tc3, s5)"
    "accept_finish C send recv sess k (hi_emptyHash hi) tc3 128 (\<lambda>scr content. scr) s5 = Some (Inr sess', s')"
proof -
  show thesis
    using assms unfolding accept_psk_steps_def Let_def
    by (auto simp: bind_get get_s_def okI_eq_Inr pure_s_def elim!: bind_sE split: prod.splits) (rule that, assumption+)
qed

lemma accept_psk_nz: "nzs (accept_psk_steps B C X tc0 ks0 sess send recv psk idn)"
proof -
  have rch: "nzs (recv_client_hello B recv)" for B and recv :: "'w io_recv"
    by (auto simp: nzs_def recv_client_hello_def Let_def codeE_def split: option.splits sum.splits)
  have fl: "nzs (finished_loop C recv k mac lim store)" for k mac lim store and recv :: "'w io_recv"
    using finished_loop_sound unfolding nzs_def by blast
  have sr: "nzs (send_region send a b)" for a b and send :: "'w io_send"
    unfolding send_region_def by (intro nzs_rules)
  have fm: "nz (accept_finished_mac C x y)" for x y
    unfolding accept_finished_mac_def case_prod_beta by (rule nz_intros)
  show ?thesis
    unfolding accept_psk_steps_def accept_hello_def accept_init_def wn_Accept_MaybeHrr_def accept_binder_def accept_key_exchange_def
      accept_server_hello_def accept_psk_flight_def accept_finish_def case_prod_beta Let_def
    by (intro nzs_rules rch fl sr fm) (auto intro!: nz_rules split: prod.splits)
qed

lemma accept_result_ok:
  assumes "\<And>s'. res \<noteq> Some (Inl 0, s')" "accept_result res = Some (0, sess', rng', w', scr')"
  obtains s' where "res = Some (Inr sess', s')"
proof (cases res)
  case (Some p)
  obtain r s' where p: "p = (r, s')" by fastforce
  then have "r = Inr sess'" using assms Some by (cases r) (auto simp: accept_result_def)
  then show thesis using that Some p by blast
qed (use assms in \<open>simp add: accept_result_def\<close>)

subsection \<open>Properties\<close>

text \<open>C5. A PSK handshake the server driver reports as successful authenticated the client by the
  pre-shared key: over the messages before it (none, or a first ClientHello and the
  HelloRetryRequest) the ClientHello names the identity and carries the binder of the key; the
  ServerHello is built for it with the share whose secret is in the key schedule; a record
  under the client's handshake keys held a Finished that is the MAC over everything up to the server's
  own Finished; and the session is established with application secrets over the same transcript.\<close>

theorem accept_psk_authenticates:
  assumes "sha256_ok C H R" "kdf_ok C" "hmac_ok C M" "length scr < 4294967296"
    and "wn_Accept_Psk_ex B C X tc0 ks0 sess rng ioS ioR w psk identity scr = Some (0, sess', rng', w', scr')"
  shows "\<exists>key idn pre chm ch rnd srvPub buf out n ecdhe mm k m rec.
    psk = Some key \<and> key \<noteq> [] \<and> identity = Some idn \<and> hello_prefix H pre \<and>
    wn_ClientHello_Parse B (Some chm) = Inr ch \<and> psk_bound C H M key idn pre ch chm \<and>
    wn_ServerHello_Build buf (Some rnd) (slice (the (ch_sessionId ch)) (ch_sessionIdLen ch) chm) (ch_cipher ch) (ch_group ch)
      (Some srvPub) 0 True = (Inr n, out) \<and>
    server_share B X ch chm srvPub ecdhe \<and>
    mm = pre @ chm @ take n out \<and> k = psk_keys C H key ecdhe mm \<and>
    m = mm @ psk_flight_bytes H (M (finished_key C (hk_sHs k))) mm \<and>
    client_finished C k (M (finished_key C (hk_cHs k)) (H m)) rec \<and>
    sess_established sess' \<and>
    cAppSecret sess' = app_secret C (hk_hs k) (H []) (replicate 32 0) (H m) (our_label Server) \<and>
    sAppSecret sess' = app_secret C (hk_hs k) (H []) (replicate 32 0) (H m) (peer_label Server)"
proof -
  have args: "\<not> (ioS = None \<or> ioR = None \<or> psk = None \<or> psk = Some [] \<or> identity = None \<or> length scr < WN_ACCEPT_SCRATCH_MIN B)"
    using assms(5) by (rule_tac notI) (simp add: wn_Accept_Psk_ex_def)
  then obtain send recv key idn where io: "ioS = Some send" "ioR = Some recv" "psk = Some key" "key \<noteq> []" "identity = Some idn"
    by (cases psk) auto
  have sz: "10 \<le> length scr" using args by (auto simp: WN_ACCEPT_SCRATCH_MIN_def split: if_splits)
  let ?res = "accept_psk_steps B C X tc0 ks0 sess send recv key idn \<lparr>e_rng = rng, e_w = w, e_scr = scr\<rparr>"
  have "?res \<noteq> Some (Inl 0, s')" for s'
    using accept_psk_nz [of B C X tc0 ks0 sess send recv key idn] unfolding nzs_def by blast
  moreover have "accept_result ?res = Some (0, sess', rng', w', scr')" using assms(5) args io by (simp add: wn_Accept_Psk_ex_def)
  ultimately obtain s' where steps: "?res = Some (Inr sess', s')" by (rule accept_result_ok)
  obtain hi s1 early tc1 s2 srvPub ecdhe s3 tc2 s4 k tc3 s5 where run:
    "accept_hello B C X tc0 send recv \<lparr>e_rng = rng, e_w = w, e_scr = scr\<rparr> = Some (Inr hi, s1)"
    "accept_binder C key idn hi s1 = Some (Inr (early, tc1), s2)"
    "accept_key_exchange B X ks0 (hi_ch hi) s2 = Some (Inr (srvPub, ecdhe), s3)"
    "accept_server_hello C send hi tc1 (ch_field (e_scr s3) (ch_sessionId (hi_ch hi)) (ch_sessionIdLen (hi_ch hi))) srvPub True s3 = Some (Inr tc2, s4)"
    "accept_hs_keys C tc2 early ecdhe (hi_emptyHash hi) = (0, k)"
    "accept_psk_flight C send k tc2 s4 = Some (Inr tc3, s5)"
    "accept_finish C send recv sess k (hi_emptyHash hi) tc3 128 (\<lambda>scr content. scr) s5 = Some (Inr sess', s')"
    by (rule accept_psk_run [OF steps])
  obtain pre where A: "hello_prefix H pre" "tdigest (hi_tc hi) = WC_SHA256" "R (thash (hi_tc hi)) pre" "hi_emptyHash hi = H []"
      "hello_read B (hi_chLen hi) (hi_ch hi) (e_scr s1)"
    using accept_hello_sound [OF assms(1) _ _ run(1)] sz assms(4) by auto
  let ?ch = "hi_ch hi" and ?chm = "take (hi_chLen hi) (e_scr s1)"
  have T: "tdigest tc1 = WC_SHA256" "R (thash tc1) (pre @ ?chm)" "early = hkdf_extract C [] key" "psk_bound C H M key idn pre ?ch ?chm" "s2 = s1"
    using accept_binder_sound [OF assms(1-3) A(2-5) run(2)] by simp_all
  note K = accept_key_exchange_sound [OF A(5) run(3) [unfolded T(5)]]
  have sid: "ch_field (e_scr s3) (ch_sessionId ?ch) (ch_sessionIdLen ?ch) = slice (the (ch_sessionId ?ch)) (ch_sessionIdLen ?ch) ?chm"
    using hello_read_field [OF A(5) hello_read_inside(2) [OF A(5)]] hello_read_inside(2) [OF A(5)] K(1)
    by (auto simp: in_msg_def split: option.splits)
  obtain buf out n where S: "wn_ServerHello_Build buf (Some (hi_random hi)) (slice (the (ch_sessionId ?ch)) (ch_sessionIdLen ?ch) ?chm)
      (ch_cipher ?ch) (ch_group ?ch) (Some srvPub) 0 True = (Inr n, out)" "tdigest tc2 = WC_SHA256" "R (thash tc2) (pre @ ?chm @ take n out)"
    using accept_server_hello_sound [OF assms(1) T(1,2) run(4)] unfolding sid by auto
  let ?mm = "pre @ ?chm @ take n out"
  have el: "length early = 32" using assms(2) by (simp add: T(3))
  have k: "k = psk_keys C H key ecdhe ?mm"
    using run(5) accept_hs_keys_eq [OF assms(1,2) S(2,3) el, of ecdhe] by (simp add: A(4) T(3) psk_keys_def)
  have kl: "length (hk_hs k) = 32" "length (hk_cHs k) = 32" "length (hk_sHs k) = 32"
    unfolding k psk_keys_def by (rule hs_sched_len [OF assms(2)])+
  note F = accept_psk_flight_sound [OF assms(1-3) S(2,3) kl(3) run(6)]
  note E = accept_finish_sound [OF assms(1-3) conjunct1 [OF F] conjunct2 [OF F] kl(1,2) run(7) [unfolded A(4)]]
  have P: "wn_ClientHello_Parse B (Some ?chm) = Inr ?ch" using A(5) by (simp add: hello_read_def)
  show ?thesis using io(3-5) A(1) P T(4) S(1) K(2) k E by blast
qed

theorem accept_psk_authenticates_witness:
  "\<exists>cw sess' rng' w' scr' pre chm ch k mac rec.
     wn_Accept_Psk_ex toy_build toy_provider toy_kx toy_tc toy_ks session_zero 7 (Some pipe_send) (Some pipe_recv) (cw, [])
       (Some [1, 2, 3]) (Some [0x63]) (replicate 4096 0) = Some (0, sess', rng', w', scr') \<and>
     wn_ClientHello_Parse toy_build (Some chm) = Inr ch \<and>
     psk_bound toy_provider toy_hash (\<lambda>k m. toy_hash (m @ k)) [1, 2, 3] [0x63] pre ch chm \<and>
     client_finished toy_provider k mac rec \<and> sess_established sess'"
proof -
  obtain cw sess' rng' w' scr' where run:
    "wn_Accept_Psk_ex toy_build toy_provider toy_kx toy_tc toy_ks session_zero 7 (Some pipe_send) (Some pipe_recv) (cw, [])
       (Some [1, 2, 3]) (Some [0x63]) (replicate 4096 0) = Some (0, sess', rng', w', scr')"
    using toy_psk_accepts by blast
  have "length (replicate 4096 (0 :: byte)) < 4294967296" by simp
  from accept_psk_authenticates [OF toy_sha256_ok toy_kdf_ok toy_hmac_ok this run] run show ?thesis
    unfolding option.inject by fast
qed

end
