(* ===== verification/Spec2Isabelle.thy ===== *)
theory Spec2Isabelle
  imports Msg Errors Flight Transcript Handshake ServerHello ClientHelloRound ServerCert AcceptAuth
begin

text \<open>
  wolfNanoTLS is a small TLS 1.3 library in C: one cipher suite (AES-128-GCM with SHA-256),
  a client and a server, authenticated by a pre-shared key or by certificates. It does not
  allocate: a caller provides a scratch buffer, two I/O callbacks and, through wolfCrypt, the
  cryptography. This development models the library under \<^verbatim>\<open>src/\<close> and \<^verbatim>\<open>include/wolfnano/\<close>.

  \<^bold>\<open>The parts and how they interact.\<close> Everything on the wire goes through the writer and the
  reader of \<^verbatim>\<open>wn_msg.c\<close>. The message files build and parse on top of them. A driver
  (\<^verbatim>\<open>wn_connect.c\<close>, \<^verbatim>\<open>wn_accept.c\<close>) runs the handshake: it draws a key share, exchanges the
  hello messages, derives the handshake keys with the key schedule over the transcript hash,
  exchanges the encrypted flight through the record layer, and leaves a session.
  \<^verbatim>\<open>wn_session.c\<close> sends and receives application data on that session. The client takes the
  server's flight through an ordering gate and authenticates it with the X.509 verifier or the
  pre-shared key.

  \<^bold>\<open>Which theory models what\<close> (definitions have the names of the C functions).

  \<^item> Prelude: the C types, the return codes of \<^verbatim>\<open>wolfnano.h\<close>, the error monad, copies between
    buffers. Config: the switches of \<^verbatim>\<open>wn_keyshare.h\<close> and \<^verbatim>\<open>user_settings.h\<close>, as the record
    \<open>build\<close>. Errors: \<^verbatim>\<open>wn_error.c\<close> and \<^verbatim>\<open>wn_alert.h\<close>. Step: chains of steps that stop at the first
    failing status, with and without a state.
  \<^item> Crypto, PkCrypto, KexCrypto: the provider seam \<^verbatim>\<open>wolfnano_crypto.h\<close>, records of functions
    with the laws the proofs use.
  \<^item> Msg: \<^verbatim>\<open>wn_msg.c\<close>. KeySchedule: \<^verbatim>\<open>wn_keyschedule.c\<close>. Transcript: \<^verbatim>\<open>wn_transcript.c\<close>.
    RecordLayer: \<^verbatim>\<open>wn_record.c\<close>. Session: \<^verbatim>\<open>wn_session.c\<close>. Handshake: \<^verbatim>\<open>wn_handshake.c\<close>. Flight:
    \<^verbatim>\<open>wn_flight.h\<close>. KeyShare: \<^verbatim>\<open>wn_keyshare.c\<close> and \<^verbatim>\<open>wn_hybrid.c\<close>.
  \<^item> ServerHello: \<^verbatim>\<open>wn_serverhello.c\<close>. ClientHello, ClientHelloRound: \<^verbatim>\<open>wn_clienthello.c\<close>, and
    that its parser reads what its builder writes. ServerCert: \<^verbatim>\<open>wn_servercert.c\<close>.
  \<^item> Der, X509, X509Parse: the certificate parser of \<^verbatim>\<open>wn_x509.c\<close>. X509Safe and X509Cert: its
    contracts, bottom up. X509Spki, X509Time, X509Verify: the key readers, the validity period
    and the certificate signature of the same file.
  \<^item> CertPath: chain, name, pin and CertificateVerify of \<^verbatim>\<open>wn_connect.c\<close>. ClientFlight: the loop over the
    server's certificate flight. ClientConnect: the certificate drivers. ClientPsk: the PSK drivers.
  \<^item> ServerAccept: the server drivers of \<^verbatim>\<open>wn_accept.c\<close>.
  \<^item> Transport, Runs, Builders, ConnectLive, AcceptLive, AcceptFlight, AcceptRun, ConnectRun,
    CertHandshake: runs of the certificate drivers against each other. PskHello, AcceptPsk,
    PskHandshake: runs of the PSK drivers. AcceptAuth: what the server's PSK driver has checked.

  \<^bold>\<open>How state and operations correspond to the code.\<close>

  \<^item> A buffer with its length argument is one list of octets, a pointer into a message an offset, a
    null input \<open>None\<close>. An output buffer is an argument with its old contents and a result with the
    new ones, so that what a failing call leaves behind is modelled. A C string is the list of its
    octets. Output pointers and callers' contexts are taken to be non-null.
  \<^item> A \<open>word32\<close> is a natural number, and every 32-bit sum or difference the C text writes is \<open>u32\<close> or
    \<open>u32_sub\<close> of it; octets, 16-bit protocol values and 64-bit counters are machine words. A store or a
    load outside a buffer is the error \<open>Oob\<close> (or the flags \<open>woob\<close>, \<open>roob\<close> of a writer or reader), which
    has no code in the source; the safety theorems say that it never comes out. For the array
    \<open>seenExt\<close> of the ClientHello parser it is the flag \<open>cs_stray\<close>.
  \<^item> A fallible function returns a sum of an error code and a result. The key schedule joins
    statuses with \<open>|=\<close>: there they are C integers, and a joined status is what the driver returns.
  \<^item> The transport is a pair of functions on a world \<open>'w\<close>, which stands for \<open>ioCtx\<close>; the random
    generator is a state that is passed on. A driver is a chain of steps on the generator, the world
    and the scratch buffer.
  \<^item> \<open>ForceZero\<close> of a buffer that outlives the call is part of the model; of local arrays it is not
    visible. \<open>ConstantCompare\<close> is equality: timing is not modelled. Releasing a provider object has no
    effect beyond the flags the code keeps.
  \<^item> The three parts into which a certificate driver divides its scratch buffer are separate
    buffers, joined again in the result. The server decrypts the client's Finished from one part of
    the scratch buffer into another; the model reads the record before it writes the plaintext.

  \<^bold>\<open>Loops.\<close> A loop over a message runs with fuel one above the octets it may still read; a body
  either moves the reader forward or latches the error, so the fuel is never used up (an exhausted
  loop would return \<open>Oob\<close>, which the safety theorems exclude). The locales \<open>read_loop\<close> and \<open>der_loop\<close>
  state this contract of a body once and are interpreted at every loop. A loop that waits for the peer
  (reassembly, receive, the flights) has no bound in the code: it is a partial function, \<open>None\<close> is a
  call that does not return, and where a theorem says that a call returns it says \<open>Some\<close>.

  \<^bold>\<open>What the lemmas show.\<close>

  \<^item> Drivers: a handshake that the certificate or the PSK driver reports as successful authenticated
    the server, and its session has the application secrets of that handshake
    (\<open>connect_cert_authenticates\<close>, \<open>connect_psk_authenticates\<close>); one that the server's PSK driver
    reports as successful authenticated the client (\<open>accept_psk_authenticates\<close>). Client and server
    over reliable transports complete the handshake with sessions in step
    (\<open>cert_handshake_completes\<close>, \<open>psk_handshake_completes\<close>).
  \<^item> Sessions: a peer in step receives exactly the data sent, through key updates and any chunking;
    what \<open>wn_Recv\<close> delivers is the content of the last whole record it took off the transport, opened
    under the peer's key, and it writes nothing behind the caller's buffer; nonces on the wire are
    distinct up to the counter's wrap, which \<open>send_counter_wraps\<close> states; closing wipes.
  \<^item> Messages: builders and parsers are inverse to each other; the parsers are memory safe on every
    input, and what they accept is well formed.
  \<^item> Certificates: the parser accepts DER of the stated shape, every field it reports within the
    tbsCertificate, and reads nothing outside its buffer; path, name and signature checks accept
    exactly what their specifications here say, the name check that of RFC 6125; the day arithmetic counts the days of the calendar.
  \<^item> Cryptographic plumbing: the key schedule computes RFC 8446 7.1 and 7.2, the transcript hash
    depends only on the messages, both sides of a key exchange agree.
  \<^item> Limits. The theorems on two drivers run each against the octets the other has written: they show
    that the two streams fit, not that some schedule of the two processes makes progress. The
    signature check of a certificate compares no names and the RSA key reader accepts INTEGERs that
    are not minimal; both theorems say so.

  The laws of the provider (a correct hash, HKDF, HMAC and AEAD round trip, agreement of the key
  exchange, a signature that verifies under its pair) are named predicates such as \<open>sha256_ok\<close>;
  \<open>toy_provider\<close>, \<open>toy_pk\<close> and \<open>toy_kx\<close> are concrete providers that satisfy them, and the witnesses run
  the code on them.

  \<^bold>\<open>Not modelled.\<close> wolfCrypt itself and the hardware back ends behind it, which are not in the
  repository. The alternative X.509 back end that calls wolfSSL (\<^verbatim>\<open>WOLFNANO_X509_LITE\<close> unset); the
  native one is modelled. The examples, tests and benchmarks, which only
  call the library. Of the configuration headers, the switches the modelled code depends on are
  fields of \<open>build\<close>; the combinations \<^verbatim>\<open>wolfnano_config.h\<close> refuses at compile time are not excluded,
  so that the theorems hold for more builds than exist.
\<close>

end
